(* ===== verification/Mopher_Prelude.thy ===== *)
theory Mopher_Prelude
  imports Main "HOL-Library.Word" "HOL-Library.Multiset" "HOL-Library.Monad_Syntax"
begin

section \<open>Shared types, machine arithmetic and list facts\<close>

text \<open>
  What every component shares: the widths of the C integers that the sources use, the
  wrap-around of signed arithmetic, C strings, an oracle for \<open>malloc\<close>, and the generic
  lemmas that the component proofs rest on.

  Conventions.
  \<^item> A C function that may dereference an invalid pointer, divide by zero or read outside an
    array returns an \<open>option\<close>: \<open>None\<close> says that C gives the call no meaning.
  \<^item> A pointer result that may be \<open>NULL\<close> is an \<open>option\<close> too, inside the former.
  \<^item> \<open>long\<close> (\<open>VAR_INT_T\<close>) values are \<open>int\<close>s in the range of 64 bits, \<open>int\<close> values \<open>int\<close>s in
    the range of 32 bits; \<open>wrap64\<close> and \<open>wrap32\<close> write out what the compiled code does on
    overflow and on a narrowing conversion.
  \<^item> A C string is a \<open>string\<close>, the bytes before the terminating zero; raw memory is a list of
    bytes.
\<close>

type_synonym byte = "8 word"
type_synonym u32 = "32 word"
type_synonym u64 = "64 word"

named_theorems wrap_simps \<open>arithmetic that stays in range does not wrap\<close>
named_theorems table_simps \<open>what the operations of a table do to its abstract map\<close>
named_theorems acl_simps \<open>evaluation of rules and expressions\<close>

subsection \<open>Signed wrap-around\<close>

definition wrap64 :: "int \<Rightarrow> int" where
  "wrap64 x = signed_take_bit 63 x"

definition wrap32 :: "int \<Rightarrow> int" where
  "wrap32 x = signed_take_bit 31 x"

definition i64 :: "int \<Rightarrow> bool" where
  "i64 x \<longleftrightarrow> - (2 ^ 63) \<le> x \<and> x < 2 ^ 63"

definition i32 :: "int \<Rightarrow> bool" where
  "i32 x \<longleftrightarrow> - (2 ^ 31) \<le> x \<and> x < 2 ^ 31"

lemma wrap64_id [wrap_simps]: "i64 x \<Longrightarrow> wrap64 x = x"
  by (simp add: wrap64_def i64_def signed_take_bit_int_eq_self)

lemma wrap32_id [wrap_simps]: "i32 x \<Longrightarrow> wrap32 x = x"
  by (simp add: wrap32_def i32_def signed_take_bit_int_eq_self)

lemma i64_wrap64 [simp]: "i64 (wrap64 x)"
  using signed_take_bit_int_less_exp [of 63 x] signed_take_bit_int_greater_eq_minus_exp [of 63 x]
  by (simp add: wrap64_def i64_def)

lemma i32_wrap32 [simp]: "i32 (wrap32 x)"
  using signed_take_bit_int_less_exp [of 31 x] signed_take_bit_int_greater_eq_minus_exp [of 31 x]
  by (simp add: wrap32_def i32_def)

subsection \<open>The allocator\<close>

text \<open>
  \<open>malloc\<close> may fail at any call. The outcomes of the coming calls are a list of booleans that
  the operations consume in order; after its end every call succeeds, so \<open>[]\<close> is the allocator
  that never fails, and every finite pattern of failures is some list.
\<close>

type_synonym mem = "bool list"

fun malloc :: "mem \<Rightarrow> bool \<times> mem" where
  "malloc [] = (True, [])"
| "malloc (b # bs) = (b, bs)"

subsection \<open>Bytes of a string\<close>

definition bytes_of :: "string \<Rightarrow> byte list" where
  "bytes_of s = map of_char s"

lemma length_bytes_of [simp]: "length (bytes_of s) = length s"
  by (simp add: bytes_of_def)

subsection \<open>Options\<close>

lemma option_eqI_Some: "(\<And>x. a = Some x \<longleftrightarrow> b = Some x) \<Longrightarrow> a = b"
  by (metis option.exhaust)

subsection \<open>Lists of lists, as the chains of a bucket array\<close>

lemma mset_concat_update:
  "i < length xss \<Longrightarrow> mset (concat (xss[i := ys])) + mset (xss ! i) = mset (concat xss) + mset ys"
proof (induction xss arbitrary: i)
  case (Cons xs xss)
  then show ?case by (cases i) (auto simp: ac_simps)
qed simp

lemma mset_concat_push:
  "i < length xss \<Longrightarrow> mset (concat (xss[i := x # xss ! i])) = add_mset x (mset (concat xss))"
  using mset_concat_update [of i xss "x # xss ! i"] by simp

lemma distinct_map_mset: "mset xs = mset ys \<Longrightarrow> distinct (map f xs) = distinct (map f ys)"
  by (metis mset_eq_imp_distinct_iff mset_map)

lemma in_concat_nth:
  "x \<in> set (concat xss) \<longleftrightarrow> (\<exists>i < length xss. x \<in> set (xss ! i))"
  by (simp add: set_conv_nth [of xss]) blast

lemma concat_Nil_prefix:
  "(\<And>j. j < i \<Longrightarrow> xss ! j = []) \<Longrightarrow> i \<le> length xss \<Longrightarrow> concat (drop i xss) = concat xss"
proof (induction i arbitrary: xss)
  case (Suc i)
  then obtain ys yss where xss: "xss = ys # yss" by (cases xss) auto
  have "ys = []" using Suc.prems(1) [of 0] xss by simp
  moreover have "concat (drop i yss) = concat yss"
  proof (rule Suc.IH)
    show "j < i \<Longrightarrow> yss ! j = []" for j using Suc.prems(1) [of "Suc j"] xss by simp
    show "i \<le> length yss" using Suc.prems(2) xss by simp
  qed
  ultimately show ?case by (simp add: xss)
qed simp

end
