(* ===== verification/Hash.thy ===== *)
theory Hash
  imports Mopher_Prelude
begin

section \<open>Hash functions (hash.c)\<close>

text \<open>
  The four hash functions of \<open>src/src/hash.c\<close>. \<open>hash_t\<close> is an unsigned long of 64 bits;
  \<open>hash_one_at_a_time\<close>, the one \<open>HASH\<close> selects, computes in 32 bits and reads its key as
  signed characters, \<open>hash_djb\<close> and \<open>hash_test\<close> compute in 64 bits over unsigned ones.
  The length is passed as a 32-bit number; the keys here are the \<open>len\<close> bytes at the pointer.
\<close>

unbundle bit_operations_syntax

text \<open>The character as \<open>char\<close>, promoted to \<open>int\<close> and converted to \<open>uint32_t\<close>.\<close>

definition char_u32 :: "byte \<Rightarrow> u32" where
  "char_u32 c = scast c"

fun oaat_loop :: "u32 \<Rightarrow> byte list \<Rightarrow> u32" where
  "oaat_loop h [] = h"
| "oaat_loop h (c # cs) =
     (let h1 = h + char_u32 c;
          h2 = h1 + push_bit 10 h1;
          h3 = h2 XOR drop_bit 6 h2
      in oaat_loop h3 cs)"

definition hash_one_at_a_time :: "byte list \<Rightarrow> u64" where
  "hash_one_at_a_time key =
     (let h = oaat_loop 0 key;
          h1 = h + push_bit 3 h;
          h2 = h1 XOR drop_bit 11 h1;
          h3 = h2 + push_bit 15 h2
      in ucast h3)"

fun djb_loop :: "u64 \<Rightarrow> byte list \<Rightarrow> u64" where
  "djb_loop h [] = h"
| "djb_loop h (c # cs) = djb_loop (33 * h + ucast c) cs"

definition hash_djb :: "byte list \<Rightarrow> u64" where
  "hash_djb key = djb_loop 0 key"

fun test_loop :: "u64 \<Rightarrow> byte list \<Rightarrow> u64" where
  "test_loop h [] = h"
| "test_loop h (c # cs) = test_loop (h + ucast c) cs"

definition hash_test :: "byte list \<Rightarrow> u64" where
  "hash_test key = test_loop 0 key"

definition hash_chain :: "byte list \<Rightarrow> u64" where
  "hash_chain key = hash_test key mod 5"

text \<open>\<open>HASH\<close> of \<open>hash.h\<close>.\<close>

abbreviation HASH :: "byte list \<Rightarrow> u64" where
  "HASH \<equiv> hash_one_at_a_time"

lemma djb_loop_append: "djb_loop h (xs @ ys) = djb_loop (djb_loop h xs) ys"
  by (induction xs arbitrary: h) auto

lemma djb_loop_add: "djb_loop h xs = 33 ^ length xs * h + djb_loop 0 xs"
proof (induction xs arbitrary: h)
  case (Cons x xs)
  show ?case
    using Cons.IH [of "33 * h + ucast x"] Cons.IH [of "ucast x"]
    by (simp add: algebra_simps)
qed simp

text \<open>\<open>hash_djb\<close> is the base-33 polynomial of the key, most significant byte first.\<close>

lemma hash_djb_snoc: "hash_djb (xs @ [c]) = 33 * hash_djb xs + ucast c"
  by (simp add: hash_djb_def djb_loop_append)

lemma hash_one_at_a_time_32bit: "unat (hash_one_at_a_time key) < 2 ^ 32"
proof -
  have "unat (ucast w :: u64) < 2 ^ 32" for w :: u32
  proof -
    have "unat w < 2 ^ LENGTH(32)" by (rule unsigned_less)
    then show ?thesis by (simp add: unsigned_ucast_eq take_bit_eq_mod)
  qed
  then show ?thesis by (simp add: hash_one_at_a_time_def Let_def)
qed

lemma hash_chain_small: "unat (hash_chain key) < 5"
  by (simp add: hash_chain_def unat_mod_distrib)

end
