(* ===== verification/Hash_Table.thy ===== *)
theory Hash_Table
  imports Hash
begin

section \<open>Hash tables (ht.c)\<close>

text \<open>
  The chained hash table of \<open>src/src/ht.c\<close>. The struct \<open>ht_t\<close> is a record: the bucket array is
  a list of chains, each chain the data of its records from the first to the last, the counters
  are the C \<open>int\<close>s, and the function pointers \<open>ht_hash\<close> and \<open>ht_match\<close> are functions. Whether
  the pointer \<open>ht_delete\<close> is set is the field \<open>ht_del\<close>; the data it is called on is returned by
  the operations that call it. The load factor, which C computes in single precision, is
  compared exactly.

  \<open>ht_ok key\<close> is the representation invariant for a table whose records are told apart by
  \<open>key\<close>, \<open>ht_map key\<close> the finite map that the table stands for. The operations are proved to be
  lookup, insertion and deletion on that map, through any number of resizes.
\<close>

record 'a ht =
  ht_table :: "'a list list"
  ht_buckets :: nat
  ht_records :: int
  ht_collisions :: int
  ht_hash :: "'a \<Rightarrow> u64"
  ht_match :: "'a \<Rightarrow> 'a \<Rightarrow> bool"
  ht_del :: bool
  ht_head :: nat

definition ht_init ::
  "mem \<Rightarrow> nat \<Rightarrow> ('a \<Rightarrow> u64) \<Rightarrow> ('a \<Rightarrow> 'a \<Rightarrow> bool) \<Rightarrow> bool \<Rightarrow> 'a ht option \<times> mem" where
  "ht_init mem buckets hash match del =
     (let (ok, mem1) = malloc mem in
      if \<not> ok then (None, mem1)
      else (Some \<lparr>ht_table = replicate buckets [], ht_buckets = buckets, ht_records = 0,
                  ht_collisions = 0, ht_hash = hash, ht_match = match, ht_del = del,
                  ht_head = 0\<rparr>, mem1))"

definition ht_create ::
  "mem \<Rightarrow> nat \<Rightarrow> ('a \<Rightarrow> u64) \<Rightarrow> ('a \<Rightarrow> 'a \<Rightarrow> bool) \<Rightarrow> bool \<Rightarrow> 'a ht option \<times> mem" where
  "ht_create mem buckets hash match del =
     (let (ok, mem1) = malloc mem in
      if \<not> ok then (None, mem1) else ht_init mem1 buckets hash match del)"

text \<open>\<open>ht_clear\<close> frees the table; its result is the data handed to \<open>ht_delete\<close>, in order.\<close>

definition ht_clear :: "'a ht \<Rightarrow> 'a list" where
  "ht_clear ht = (if ht_del ht then concat (ht_table ht) else [])"

definition ht_bucket :: "'a ht \<Rightarrow> 'a \<Rightarrow> nat" where
  "ht_bucket ht data = unat (ht_hash ht data) mod ht_buckets ht"

definition ht_lookup :: "'a ht \<Rightarrow> 'a \<Rightarrow> 'a option" where
  "ht_lookup ht data = find (ht_match ht data) (ht_table ht ! ht_bucket ht data)"

text \<open>\<open>HT_LOADFACTOR(ht) > MAX_LOAD\<close>.\<close>

definition MAX_LOAD :: int where
  "MAX_LOAD = 50"

definition ht_overloaded :: "'a ht \<Rightarrow> bool" where
  "ht_overloaded ht \<longleftrightarrow> 100 * ht_records ht > MAX_LOAD * int (ht_buckets ht)"

text \<open>Linking the new record in front of its chain, the middle part of \<open>ht_insert\<close>.\<close>

definition ht_link :: "'a ht \<Rightarrow> 'a \<Rightarrow> 'a ht" where
  "ht_link ht data =
     (let b = ht_bucket ht data; chain = ht_table ht ! b in
      ht\<lparr>ht_collisions := (if chain \<noteq> [] then ht_collisions ht + 1 else ht_collisions ht),
         ht_head := (if b < ht_head ht \<or> ht_records ht = 0 then b else ht_head ht),
         ht_table := (ht_table ht)[b := data # chain],
         ht_records := ht_records ht + 1\<rparr>)"

text \<open>The two nested loops of \<open>ht_resize\<close>: every record goes into the new table.\<close>

fun ht_reinsert ::
  "(mem \<Rightarrow> 'a ht \<Rightarrow> 'a \<Rightarrow> (int \<times> 'a ht \<times> mem) option) \<Rightarrow> mem \<Rightarrow> 'a ht \<Rightarrow> 'a list \<Rightarrow>
   ('a ht option \<times> mem) option" where
  "ht_reinsert ins mem new [] = Some (Some new, mem)"
| "ht_reinsert ins mem new (x # xs) =
     (case ins mem new x of
        None \<Rightarrow> None
      | Some (r, new1, mem1) \<Rightarrow>
          if r \<noteq> 0 then Some (None, mem1) else ht_reinsert ins mem1 new1 xs)"

text \<open>
  \<open>ht_resize\<close> calls \<open>ht_insert\<close>, which may resize again: the insertion is its argument. The
  new number of buckets is an \<open>uint32_t\<close>.
\<close>

definition ht_resize ::
  "(mem \<Rightarrow> 'a ht \<Rightarrow> 'a \<Rightarrow> (int \<times> 'a ht \<times> mem) option) \<Rightarrow> mem \<Rightarrow> 'a ht \<Rightarrow>
   (int \<times> 'a ht \<times> mem) option" where
  "ht_resize ins mem ht =
     (let buckets = ht_buckets ht * 2 mod 2 ^ 32 in
      case ht_init mem buckets (ht_hash ht) (ht_match ht) False of
        (None, mem1) \<Rightarrow> Some (-1, ht, mem1)
      | (Some new, mem1) \<Rightarrow>
          (case ht_reinsert ins mem1 new (concat (ht_table ht)) of
             None \<Rightarrow> None
           | Some (None, mem2) \<Rightarrow> Some (-1, ht, mem2)
           | Some (Some new1, mem2) \<Rightarrow> Some (0, new1\<lparr>ht_del := ht_del ht\<rparr>, mem2)))"

text \<open>\<open>ht_insert\<close>, with a bound on the depth of nested resizes.\<close>

fun ht_insert_rec :: "nat \<Rightarrow> mem \<Rightarrow> 'a ht \<Rightarrow> 'a \<Rightarrow> (int \<times> 'a ht \<times> mem) option" where
  "ht_insert_rec 0 mem ht data = None"
| "ht_insert_rec (Suc depth) mem ht data =
     (if ht_lookup ht data \<noteq> None then Some (-1, ht, mem)
      else
        (let (ok, mem1) = malloc mem in
         if \<not> ok then Some (-1, ht, mem1)
         else
           (let ht1 = ht_link ht data in
            if ht_overloaded ht1 then
              (case ht_resize (ht_insert_rec depth) mem1 ht1 of
                 None \<Rightarrow> None
               | Some (r, ht2, mem2) \<Rightarrow> Some (0, ht2, mem2))
            else Some (0, ht1, mem1))))"

text \<open>
  A depth that is always enough, one more than the records the table will hold plus one
  (\<open>ht_insert_rec_ok\<close> below): each nested resize starts from at least twice the buckets.
\<close>

definition ht_insert :: "mem \<Rightarrow> 'a ht \<Rightarrow> 'a \<Rightarrow> int \<times> 'a ht \<times> mem" where
  "ht_insert mem ht data =
     (case ht_insert_rec (nat (ht_records ht) + 3) mem ht data of
        Some r \<Rightarrow> r
      | None \<Rightarrow> (-1, ht, mem))"

text \<open>\<open>ht_remove\<close>: its result is the data handed to \<open>ht_delete\<close> and the new table.\<close>

fun unlink :: "('a \<Rightarrow> bool) \<Rightarrow> 'a list \<Rightarrow> 'a list" where
  "unlink p [] = []"
| "unlink p (x # xs) = (if p x then xs else x # unlink p xs)"

definition ht_remove :: "'a ht \<Rightarrow> 'a \<Rightarrow> 'a list \<times> 'a ht" where
  "ht_remove ht data =
     (let b = ht_bucket ht data; chain = ht_table ht ! b in
      case chain of
        [] \<Rightarrow> ([], ht)
      | first # rest \<Rightarrow>
          let collision = (rest \<noteq> []) in
          case find (ht_match ht data) chain of
            None \<Rightarrow> ([], ht)
          | Some x \<Rightarrow>
              let chain1 = unlink (ht_match ht data) chain;
                  c1 = (if chain1 \<noteq> [] then ht_collisions ht - 1 else ht_collisions ht);
                  c2 = (if collision then c1 - 1 else c1)
              in (if ht_del ht then [x] else [],
                  ht\<lparr>ht_table := (ht_table ht)[b := chain1], ht_records := ht_records ht - 1,
                     ht_collisions := c2\<rparr>))"

text \<open>\<open>ht_walk\<close> stops at the first callback that returns something else than 0.\<close>

fun walk_chain :: "('a \<Rightarrow> 's \<Rightarrow> int \<times> 's) \<Rightarrow> 'a list \<Rightarrow> 's \<Rightarrow> int \<times> 's" where
  "walk_chain callback [] s = (0, s)"
| "walk_chain callback (x # xs) s =
     (let (r, s1) = callback x s in if r \<noteq> 0 then (r, s1) else walk_chain callback xs s1)"

definition ht_walk :: "('a \<Rightarrow> 's \<Rightarrow> int \<times> 's) \<Rightarrow> 'a ht \<Rightarrow> 's \<Rightarrow> int \<times> 's" where
  "ht_walk callback ht s = walk_chain callback (concat (ht_table ht)) s"

subsection \<open>Iteration\<close>

text \<open>A position: the bucket, and the chain from the current record on (\<open>[]\<close> for \<open>NULL\<close>).\<close>

record 'a ht_pos =
  htp_bucket :: nat
  htp_record :: "'a list"

definition ht_start :: "'a ht \<Rightarrow> 'a ht_pos" where
  "ht_start ht =
     (if ht_records ht \<noteq> 0
      then \<lparr>htp_bucket = ht_head ht, htp_record = ht_table ht ! ht_head ht\<rparr>
      else \<lparr>htp_bucket = 0, htp_record = []\<rparr>)"

text \<open>The \<open>for\<close> loop of \<open>ht_next\<close>: the next bucket that is not empty.\<close>

function next_bucket :: "'a ht \<Rightarrow> nat \<Rightarrow> nat" where
  "next_bucket ht i =
     (if i < ht_buckets ht \<and> ht_table ht ! i = [] then next_bucket ht (Suc i) else i)"
  by pat_completeness auto
termination
  by (relation "measure (\<lambda>(ht, i). ht_buckets ht - i)") auto

declare next_bucket.simps [simp del]

definition ht_next :: "'a ht \<Rightarrow> 'a ht_pos \<Rightarrow> 'a option \<times> 'a ht_pos" where
  "ht_next ht pos =
     (case htp_record pos of
        [] \<Rightarrow> (None, pos)
      | x # rest \<Rightarrow>
          if rest \<noteq> [] then (Some x, pos\<lparr>htp_record := rest\<rparr>)
          else
            (let i = next_bucket ht (htp_bucket pos + 1) in
             if i = ht_buckets ht then (Some x, \<lparr>htp_bucket = 0, htp_record = []\<rparr>)
             else (Some x, \<lparr>htp_bucket = i, htp_record = ht_table ht ! i\<rparr>)))"

text \<open>The callers' loop \<open>while ((x = ht_next(ht, &pos)))\<close>, at most \<open>n\<close> times.\<close>

fun ht_iterate :: "nat \<Rightarrow> 'a ht \<Rightarrow> 'a ht_pos \<Rightarrow> 'a list" where
  "ht_iterate 0 ht pos = []"
| "ht_iterate (Suc n) ht pos =
     (case ht_next ht pos of (None, _) \<Rightarrow> [] | (Some x, pos1) \<Rightarrow> x # ht_iterate n ht pos1)"

definition ht_elements :: "'a ht \<Rightarrow> 'a list" where
  "ht_elements ht = ht_iterate (Suc (length (concat (ht_table ht)))) ht (ht_start ht)"

subsection \<open>Invariant and abstraction\<close>

definition ht_ok :: "('a \<Rightarrow> 'k) \<Rightarrow> 'a ht \<Rightarrow> bool" where
  "ht_ok key ht \<longleftrightarrow>
     0 < ht_buckets ht \<and> length (ht_table ht) = ht_buckets ht \<and>
     (\<forall>i < ht_buckets ht. \<forall>x \<in> set (ht_table ht ! i). ht_bucket ht x = i) \<and>
     distinct (map key (concat (ht_table ht))) \<and>
     ht_records ht = int (length (concat (ht_table ht))) \<and>
     (\<forall>x y. ht_match ht x y \<longleftrightarrow> key x = key y) \<and>
     (\<forall>x y. key x = key y \<longrightarrow> ht_hash ht x = ht_hash ht y)"

definition ht_map :: "('a \<Rightarrow> 'k) \<Rightarrow> 'a ht \<Rightarrow> 'k \<rightharpoonup> 'a" where
  "ht_map key ht = map_of (map (\<lambda>x. (key x, x)) (concat (ht_table ht)))"

text \<open>\<open>ht_head\<close> is the first bucket in use; \<open>ht_start\<close> relies on it.\<close>

definition ht_head_ok :: "'a ht \<Rightarrow> bool" where
  "ht_head_ok ht \<longleftrightarrow>
     ht_records ht = 0 \<or>
     ht_head ht < ht_buckets ht \<and> ht_table ht ! ht_head ht \<noteq> [] \<and>
     (\<forall>j < ht_head ht. ht_table ht ! j = [])"

text \<open>
  The parts of the invariant, one by one: the last two conjuncts loop as rewrite rules, so the
  definition is never unfolded by the simplifier.
\<close>

lemma ht_okI:
  assumes "0 < ht_buckets ht" and "length (ht_table ht) = ht_buckets ht"
    and "\<And>i x. i < ht_buckets ht \<Longrightarrow> x \<in> set (ht_table ht ! i) \<Longrightarrow> ht_bucket ht x = i"
    and "distinct (map key (concat (ht_table ht)))"
    and "ht_records ht = int (length (concat (ht_table ht)))"
    and "\<And>x y. ht_match ht x y \<longleftrightarrow> key x = key y"
    and "\<And>x y. key x = key y \<Longrightarrow> ht_hash ht x = ht_hash ht y"
  shows "ht_ok key ht"
  unfolding ht_ok_def using assms by blast

lemma ht_ok_buckets: "ht_ok key ht \<Longrightarrow> 0 < ht_buckets ht"
  and ht_ok_length: "ht_ok key ht \<Longrightarrow> length (ht_table ht) = ht_buckets ht"
  and ht_ok_place: "ht_ok key ht \<Longrightarrow> i < ht_buckets ht \<Longrightarrow> x \<in> set (ht_table ht ! i) \<Longrightarrow> ht_bucket ht x = i"
  and ht_ok_distinct: "ht_ok key ht \<Longrightarrow> distinct (map key (concat (ht_table ht)))"
  and ht_ok_records: "ht_ok key ht \<Longrightarrow> ht_records ht = int (length (concat (ht_table ht)))"
  and ht_ok_match: "ht_ok key ht \<Longrightarrow> ht_match ht x y \<longleftrightarrow> key x = key y"
  and ht_ok_hash: "ht_ok key ht \<Longrightarrow> key x = key y \<Longrightarrow> ht_hash ht x = ht_hash ht y"
  unfolding ht_ok_def by blast+

lemmas ht_okD = ht_ok_buckets ht_ok_length ht_ok_place ht_ok_distinct ht_ok_records ht_ok_match

lemma ht_ok_del [simp]: "ht_ok key (ht\<lparr>ht_del := b\<rparr>) = ht_ok key ht"
  unfolding ht_ok_def ht_bucket_def by (cases ht) (simp only: ht.simps)

lemma ht_map_Some:
  assumes "ht_ok key ht"
  shows "ht_map key ht k = Some x \<longleftrightarrow> x \<in> set (concat (ht_table ht)) \<and> key x = k"
proof -
  have "distinct (map fst (map (\<lambda>x. (key x, x)) (concat (ht_table ht))))"
    using ht_ok_distinct [OF assms] by (simp add: comp_def)
  then show ?thesis by (auto simp: ht_map_def map_of_eq_Some_iff simp del: map_map)
qed

lemma ht_map_None:
  "ht_map key ht k = None \<longleftrightarrow> k \<notin> key ` set (concat (ht_table ht))"
  by (simp add: ht_map_def map_of_eq_None_iff comp_def image_comp)

lemma ht_bucket_less: "ht_ok key ht \<Longrightarrow> ht_bucket ht d < ht_buckets ht"
  by (simp add: ht_ok_buckets ht_bucket_def)

lemma ht_bucket_key: "ht_ok key ht \<Longrightarrow> key x = key y \<Longrightarrow> ht_bucket ht x = ht_bucket ht y"
  unfolding ht_bucket_def by (drule (1) ht_ok_hash) simp

lemma in_ht_bucket:
  assumes ok: "ht_ok key ht" and x: "x \<in> set (concat (ht_table ht))"
  shows "x \<in> set (ht_table ht ! ht_bucket ht x)"
proof -
  from x obtain i where i: "i < length (ht_table ht)" "x \<in> set (ht_table ht ! i)"
    by (auto simp only: in_concat_nth)
  with ok have "ht_bucket ht x = i" by (simp add: ht_ok_length ht_ok_place)
  with i show ?thesis by simp
qed

lemma nth_in_concat:
  "ht_ok key ht \<Longrightarrow> x \<in> set (ht_table ht ! ht_bucket ht d) \<Longrightarrow> x \<in> set (concat (ht_table ht))"
  unfolding in_concat_nth
  by (rule exI [of _ "ht_bucket ht d"]) (simp add: ht_ok_length ht_bucket_less)

lemma distinct_map_find:
  "distinct (map key xs) \<Longrightarrow> find (\<lambda>y. k = key y) xs = Some x \<longleftrightarrow> x \<in> set xs \<and> key x = k"
proof (induction xs)
  case (Cons a xs)
  then show ?case by (cases "k = key a") (auto simp: image_iff)
qed simp

lemma ht_match_key: "ht_ok key ht \<Longrightarrow> ht_match ht d = (\<lambda>y. key d = key y)"
  by (simp add: fun_eq_iff ht_ok_match)

lemma distinct_concat_nth:
  "distinct (map key (concat xss)) \<Longrightarrow> i < length xss \<Longrightarrow> distinct (map key (xss ! i))"
proof (induction xss arbitrary: i)
  case (Cons xs xss)
  then show ?case by (cases i) auto
qed simp

text \<open>Lookup is the lookup of the map.\<close>

lemma ht_lookup_map [table_simps]:
  assumes ok: "ht_ok key ht"
  shows "ht_lookup ht d = ht_map key ht (key d)"
proof -
  have d: "distinct (map key (ht_table ht ! ht_bucket ht d))"
    using ht_ok_distinct [OF ok] ht_bucket_less [OF ok, of d]
    by (intro distinct_concat_nth) (simp_all add: ht_ok_length [OF ok])
  have "ht_lookup ht d = Some x \<longleftrightarrow> ht_map key ht (key d) = Some x" for x
  proof -
    have "x \<in> set (concat (ht_table ht)) \<longleftrightarrow> x \<in> set (ht_table ht ! ht_bucket ht d)"
      if "key x = key d"
      using in_ht_bucket [OF ok, of x] nth_in_concat [OF ok, of x d] ht_bucket_key [OF ok that]
      by auto
    then show ?thesis
      using distinct_map_find [OF d, of "key d" x]
      by (auto simp: ht_lookup_def ht_match_key [OF ok] ht_map_Some [OF ok])
  qed
  then show ?thesis by (rule option_eqI_Some)
qed

subsection \<open>Insertion\<close>

abbreviation ht_size :: "'a ht \<Rightarrow> nat" where
  "ht_size ht \<equiv> length (concat (ht_table ht))"

abbreviation ht_content :: "'a ht \<Rightarrow> 'a multiset" where
  "ht_content ht \<equiv> mset (concat (ht_table ht))"

definition ht_frame :: "'a ht \<Rightarrow> 'a ht \<Rightarrow> bool" where
  "ht_frame ht ht' \<longleftrightarrow> ht_hash ht' = ht_hash ht \<and> ht_match ht' = ht_match ht \<and> ht_del ht' = ht_del ht"

lemma ht_map_content:
  assumes "ht_ok key ht" and "ht_ok key ht'" and "ht_content ht' = add_mset d (ht_content ht)"
  shows "ht_map key ht' = (ht_map key ht)(key d \<mapsto> d)"
proof (rule ext, rule option_eqI_Some)
  fix k x
  have set: "set (concat (ht_table ht')) = insert d (set (concat (ht_table ht)))"
    using assms(3) by (metis set_mset_mset set_mset_add_mset_insert)
  have "distinct (map key (d # concat (ht_table ht)))"
    using ht_ok_distinct [OF assms(2)] assms(3)
    by (metis distinct_map_mset mset.simps(2))
  then show "ht_map key ht' k = Some x \<longleftrightarrow> ((ht_map key ht)(key d \<mapsto> d)) k = Some x"
    unfolding ht_map_Some [OF assms(2)] set
    by (auto simp: ht_map_Some [OF assms(1)] image_iff simp del: set_concat)
qed

lemma ht_link_frame: "ht_frame ht (ht_link ht d)"
  by (simp add: ht_frame_def ht_link_def Let_def)

lemma ht_link_buckets [simp]: "ht_buckets (ht_link ht d) = ht_buckets ht"
  by (simp add: ht_link_def Let_def)

lemma ht_bucket_frame: "ht_frame ht ht' \<Longrightarrow> ht_buckets ht' = ht_buckets ht \<Longrightarrow> ht_bucket ht' = ht_bucket ht"
  by (simp add: fun_eq_iff ht_bucket_def ht_frame_def)

lemma ht_link_content:
  assumes "ht_ok key ht"
  shows "ht_content (ht_link ht d) = add_mset d (ht_content ht)"
  using ht_bucket_less [OF assms, of d]
  by (simp add: ht_link_def Let_def mset_concat_push ht_ok_length [OF assms] del: mset_concat)

lemma ht_link_ok:
  assumes ok: "ht_ok key ht" and new: "ht_map key ht (key d) = None"
  shows "ht_ok key (ht_link ht d)"
proof (rule ht_okI)
  let ?b = "ht_bucket ht d"
  have b: "?b < ht_buckets ht" by (rule ht_bucket_less [OF ok])
  have bucket: "ht_bucket (ht_link ht d) = ht_bucket ht"
    by (rule ht_bucket_frame) (simp_all add: ht_link_frame)
  have table: "ht_table (ht_link ht d) = (ht_table ht)[?b := d # ht_table ht ! ?b]"
    by (simp add: ht_link_def Let_def)
  note content = ht_link_content [OF ok, of d]
  show "0 < ht_buckets (ht_link ht d)" using ht_ok_buckets [OF ok] by simp
  show "length (ht_table (ht_link ht d)) = ht_buckets (ht_link ht d)"
    by (simp add: table ht_ok_length [OF ok])
  show "ht_bucket (ht_link ht d) x = i"
    if "i < ht_buckets (ht_link ht d)" "x \<in> set (ht_table (ht_link ht d) ! i)" for i x
    using that ht_ok_place [OF ok, of i x] b
    by (cases "i = ?b") (auto simp: table bucket ht_ok_length [OF ok])
  have "distinct (map key (d # concat (ht_table ht)))"
    using new ht_ok_distinct [OF ok] by (simp add: ht_map_None)
  then show "distinct (map key (concat (ht_table (ht_link ht d))))"
    using content by (metis distinct_map_mset mset.simps(2))
  have "ht_size (ht_link ht d) = Suc (ht_size ht)"
    using content by (metis mset.simps(2) size_mset length_Cons)
  then show "ht_records (ht_link ht d) = int (ht_size (ht_link ht d))"
    using ht_ok_records [OF ok] by (simp add: ht_link_def Let_def)
  show "ht_match (ht_link ht d) x y \<longleftrightarrow> key x = key y" for x y
    using ht_link_frame [of ht d] by (simp add: ht_frame_def ht_ok_match [OF ok])
  show "ht_hash (ht_link ht d) x = ht_hash (ht_link ht d) y" if "key x = key y" for x y
    using ht_link_frame [of ht d] ht_ok_hash [OF ok that] by (simp add: ht_frame_def)
qed

lemma ht_link_head_ok:
  assumes ok: "ht_ok key ht" and head: "ht_head_ok ht"
  shows "ht_head_ok (ht_link ht d)"
proof -
  let ?b = "ht_bucket ht d"
  have b: "?b < ht_buckets ht" by (rule ht_bucket_less [OF ok])
  have table: "ht_table (ht_link ht d) = (ht_table ht)[?b := d # ht_table ht ! ?b]"
    and hd: "ht_head (ht_link ht d) = (if ?b < ht_head ht \<or> ht_records ht = 0 then ?b else ht_head ht)"
    by (simp_all add: ht_link_def Let_def)
  have empty: "ht_table ht ! j = []" if "ht_records ht = 0" "j < ht_buckets ht" for j
  proof -
    have "concat (ht_table ht) = []" using ht_ok_records [OF ok] that(1) by simp
    with that(2) show ?thesis by (simp add: ht_ok_length [OF ok] concat_eq_Nil_conv)
  qed
  show ?thesis
  proof (cases "?b < ht_head ht \<or> ht_records ht = 0")
    case True
    with head b empty show ?thesis
      by (auto simp: ht_head_ok_def table hd ht_ok_length [OF ok])
  next
    case False
    with head b show ?thesis
      by (auto simp: ht_head_ok_def table hd ht_ok_length [OF ok] nth_list_update)
  qed
qed

lemma ht_init_ok:
  assumes "\<And>x y. m x y \<longleftrightarrow> key x = key y" and "\<And>x y. key x = key y \<Longrightarrow> h x = h y"
    and "ht_init mem b h m del = (Some ht, mem1)" and "0 < b"
  shows "ht_ok key ht \<and> ht_content ht = {#} \<and> ht_head_ok ht \<and> ht_buckets ht = b \<and>
    ht_hash ht = h \<and> ht_match ht = m \<and> ht_del ht = del"
proof -
  have ht: "ht = \<lparr>ht_table = replicate b [], ht_buckets = b, ht_records = 0, ht_collisions = 0,
      ht_hash = h, ht_match = m, ht_del = del, ht_head = 0\<rparr>"
    using assms(3) by (auto simp: ht_init_def Let_def split: prod.splits if_splits)
  have "ht_ok key ht" by (rule ht_okI) (simp_all add: ht assms(1,4), erule assms(2))
  then show ?thesis by (simp add: ht ht_head_ok_def)
qed

text \<open>What an insertion promises, as a relation between the call and its result.\<close>

definition insert_post :: "('a \<Rightarrow> 'k) \<Rightarrow> mem \<Rightarrow> 'a ht \<Rightarrow> 'a \<Rightarrow> int \<times> 'a ht \<times> mem \<Rightarrow> bool" where
  "insert_post key mem ht d res \<longleftrightarrow>
     (case res of (r, ht', mem') \<Rightarrow>
        ht_ok key ht' \<and> ht_buckets ht \<le> ht_buckets ht' \<and> ht_frame ht ht' \<and>
        (if r = 0 then ht_map key ht (key d) = None \<and> ht_content ht' = add_mset d (ht_content ht)
           \<and> (ht_head_ok ht \<longrightarrow> ht_head_ok ht')
         else r = -1 \<and> ht' = ht) \<and>
        (mem = [] \<longrightarrow> mem' = [] \<and> (ht_map key ht (key d) = None \<longrightarrow> r = 0)))"

lemma ht_frame_refl [simp]: "ht_frame ht ht"
  by (simp add: ht_frame_def)

lemma ht_frame_trans: "ht_frame a b \<Longrightarrow> ht_frame b c \<Longrightarrow> ht_frame a c"
  by (simp add: ht_frame_def)

lemma ht_reinsert_ok:
  assumes ins: "\<And>mem ht d. ht_ok key ht \<Longrightarrow> B \<le> ht_buckets ht \<Longrightarrow> ht_size ht < N \<Longrightarrow>
      \<exists>res. ins mem ht d = Some res \<and> insert_post key mem ht d res"
    and "ht_ok key new" and "B \<le> ht_buckets new" and "ht_size new + length xs \<le> N"
    and "distinct (map key (concat (ht_table new) @ xs))"
  shows "\<exists>r mem'. ht_reinsert ins mem new xs = Some (r, mem') \<and>
    (mem = [] \<longrightarrow> mem' = [] \<and> r \<noteq> None) \<and>
    (\<forall>new'. r = Some new' \<longrightarrow> ht_ok key new' \<and> ht_buckets new \<le> ht_buckets new' \<and> ht_frame new new' \<and>
       ht_content new' = ht_content new + mset xs \<and> (ht_head_ok new \<longrightarrow> ht_head_ok new'))"
  using assms(2-)
proof (induction xs arbitrary: new mem)
  case Nil
  then show ?case by simp
next
  case (Cons x xs)
  have "ht_size new < N" using Cons.prems(3) by simp
  then obtain r new1 mem1 where call: "ins mem new x = Some (r, new1, mem1)"
    and post: "insert_post key mem new x (r, new1, mem1)"
    using ins [OF Cons.prems(1,2)] by (metis prod_cases3)
  have fresh: "ht_map key new (key x) = None"
    using Cons.prems(4) by (auto simp: ht_map_None)
  show ?case
  proof (cases "r = 0")
    case False
    with call post fresh show ?thesis by (auto simp: insert_post_def)
  next
    case True
    with post have p: "ht_ok key new1" "ht_buckets new \<le> ht_buckets new1" "ht_frame new new1"
        "ht_content new1 = add_mset x (ht_content new)" "ht_head_ok new \<longrightarrow> ht_head_ok new1"
        "mem = [] \<longrightarrow> mem1 = []"
      by (auto simp: insert_post_def simp del: mset_concat)
    have size1: "ht_size new1 + length xs \<le> N"
      using Cons.prems(3) p(4) by (metis add_Suc_right add_Suc length_Cons mset.simps(2) size_mset)
    have dist1: "distinct (map key (concat (ht_table new1) @ xs))"
    proof -
      have "mset (concat (ht_table new1) @ xs) = mset (concat (ht_table new) @ x # xs)"
        using p(4) by (simp del: mset_concat)
      with Cons.prems(4) show ?thesis by (metis distinct_map_mset)
    qed
    from Cons.IH [OF p(1) le_trans [OF Cons.prems(2) p(2)] size1 dist1, of mem1]
    obtain r' mem' where rest: "ht_reinsert ins mem1 new1 xs = Some (r', mem')"
      "mem1 = [] \<longrightarrow> mem' = [] \<and> r' \<noteq> None"
      "\<forall>new'. r' = Some new' \<longrightarrow> ht_ok key new' \<and> ht_buckets new1 \<le> ht_buckets new' \<and> ht_frame new1 new' \<and>
       ht_content new' = ht_content new1 + mset xs \<and> (ht_head_ok new1 \<longrightarrow> ht_head_ok new')"
      by blast
    have "ht_reinsert ins mem new (x # xs) = Some (r', mem')"
      using call True rest(1) by simp
    moreover have "ht_ok key new' \<and> ht_buckets new \<le> ht_buckets new' \<and> ht_frame new new' \<and>
        ht_content new' = ht_content new + mset (x # xs) \<and> (ht_head_ok new \<longrightarrow> ht_head_ok new')"
      if "r' = Some new'" for new'
      using rest(3) that p(2-5) ht_frame_trans [OF p(3)] by (auto simp del: mset_concat)
    ultimately show ?thesis using rest(2) p(6) by blast
  qed
qed

text \<open>\<open>depth_ok\<close>: the depth that an insertion needs.\<close>

definition depth_ok :: "nat \<Rightarrow> 'a ht \<Rightarrow> bool" where
  "depth_ok depth ht \<longleftrightarrow>
     1 \<le> depth \<and> (ht_buckets ht < 2 * Suc (ht_size ht) \<longrightarrow> 2 + (Suc (ht_size ht) - ht_buckets ht) \<le> depth)"

lemma ht_overloaded_link:
  assumes "ht_ok key ht"
  shows "ht_overloaded (ht_link ht d) \<longleftrightarrow> ht_buckets ht < 2 * Suc (ht_size ht)"
proof -
  have "ht_records (ht_link ht d) = int (Suc (ht_size ht))"
    using ht_ok_records [OF assms] by (simp add: ht_link_def Let_def)
  then show ?thesis by (auto simp: ht_overloaded_def MAX_LOAD_def)
qed

lemma ht_init_cases:
  "ht_init mem b h m del = (None, mem1) \<Longrightarrow> mem \<noteq> []"
  by (cases mem) (auto simp: ht_init_def)

lemma ht_init_mem: "ht_init mem b h m del = (r, mem1) \<Longrightarrow> mem = [] \<Longrightarrow> mem1 = [] \<and> r \<noteq> None"
  by (auto simp: ht_init_def)

lemma ht_resize_ok:
  assumes ok: "ht_ok key ht" and small: "ht_size ht < 2 ^ 30"
    and over: "ht_buckets ht < 2 * ht_size ht"
    and ins: "\<And>mem new d. ht_ok key new \<Longrightarrow> 2 * ht_buckets ht \<le> ht_buckets new \<Longrightarrow>
      ht_size new < ht_size ht \<Longrightarrow> \<exists>res. ins mem new d = Some res \<and> insert_post key mem new d res"
  shows "\<exists>r ht' mem'. ht_resize ins mem ht = Some (r, ht', mem') \<and> ht_ok key ht' \<and>
    ht_buckets ht \<le> ht_buckets ht' \<and> ht_frame ht ht' \<and> ht_content ht' = ht_content ht \<and>
    (ht_head_ok ht \<longrightarrow> ht_head_ok ht') \<and> (mem = [] \<longrightarrow> mem' = [])"
proof -
  have buckets: "ht_buckets ht * 2 mod 4294967296 = 2 * ht_buckets ht"
    using over small by simp
  show ?thesis
  proof (cases "ht_init mem (2 * ht_buckets ht) (ht_hash ht) (ht_match ht) False")
    case (Pair r0 mem1)
    show ?thesis
    proof (cases r0)
      case None
      with Pair have init: "ht_init mem (2 * ht_buckets ht) (ht_hash ht) (ht_match ht) False = (None, mem1)"
        by simp
      then have "ht_resize ins mem ht = Some (-1, ht, mem1)" by (simp add: ht_resize_def Let_def buckets)
      with ok ht_init_cases [OF init] show ?thesis by simp
    next
      case (Some new)
      with Pair have init: "ht_init mem (2 * ht_buckets ht) (ht_hash ht) (ht_match ht) False = (Some new, mem1)"
        by simp
      have new: "ht_ok key new \<and> ht_content new = {#} \<and> ht_head_ok new \<and> ht_buckets new = 2 * ht_buckets ht
          \<and> ht_hash new = ht_hash ht \<and> ht_match new = ht_match ht \<and> ht_del new = False"
        using ht_ok_buckets [OF ok]
        by (intro ht_init_ok [OF ht_ok_match [OF ok] ht_ok_hash [OF ok] init]) simp_all
      have nil: "concat (ht_table new) = []" using new by (simp only: mset_zero_iff)
      have "ht_ok key new" "2 * ht_buckets ht \<le> ht_buckets new"
        and "ht_size new + ht_size ht \<le> ht_size ht"
        and "distinct (map key (concat (ht_table new) @ concat (ht_table ht)))"
        using new ht_ok_distinct [OF ok] unfolding nil by simp_all
      from ht_reinsert_ok [OF ins this, of mem1]
      obtain r mem2 where re: "ht_reinsert ins mem1 new (concat (ht_table ht)) = Some (r, mem2)"
        and mem2: "mem1 = [] \<longrightarrow> mem2 = [] \<and> r \<noteq> None"
        and res: "\<forall>new'. r = Some new' \<longrightarrow> ht_ok key new' \<and> ht_buckets new \<le> ht_buckets new' \<and>
          ht_frame new new' \<and> ht_content new' = ht_content new + ht_content ht \<and>
          (ht_head_ok new \<longrightarrow> ht_head_ok new')"
        by blast
      have mem1: "mem = [] \<longrightarrow> mem1 = []" using ht_init_mem [OF init] by blast
      show ?thesis
      proof (cases r)
        case None
        with re init ok mem1 mem2 show ?thesis by (auto simp: ht_resize_def Let_def buckets)
      next
        case r: (Some new')
        let ?ht' = "new'\<lparr>ht_del := ht_del ht\<rparr>"
        have n: "ht_ok key new'" "ht_buckets new \<le> ht_buckets new'" "ht_frame new new'"
            "ht_content new' = ht_content ht" "ht_head_ok new'"
          using res r new by (auto simp del: mset_concat)
        have "ht_ok key ?ht'" using n(1) by simp
        moreover have "ht_frame ht ?ht'" using n(3) new by (simp add: ht_frame_def)
        moreover have "ht_head_ok ?ht'" using n(5) by (simp add: ht_head_ok_def)
        moreover have "ht_resize ins mem ht = Some (0, ?ht', mem2)"
          using init re r by (simp add: ht_resize_def Let_def buckets)
        ultimately show ?thesis using n new mem1 mem2 by (auto simp del: mset_concat)
      qed
    qed
  qed
qed

lemma ht_insert_rec_ok:
  assumes "ht_ok key ht" and "Suc (ht_size ht) < 2 ^ 30" and "depth_ok depth ht"
  shows "\<exists>res. ht_insert_rec depth mem ht d = Some res \<and> insert_post key mem ht d res"
  using assms
proof (induction depth arbitrary: mem ht d)
  case 0
  then show ?case by (simp add: depth_ok_def)
next
  case (Suc depth)
  note ok = Suc.prems(1)
  obtain a mem1 where m: "malloc mem = (a, mem1)" by (cases "malloc mem")
  have mem1: "mem = [] \<Longrightarrow> a \<and> mem1 = []" using m by auto
  show ?case
  proof (cases "ht_map key ht (key d) = None \<and> a")
    case False
    with m mem1 ok show ?thesis
      by (auto simp: ht_lookup_map [OF ok] insert_post_def split: if_splits)
  next
    case True
    let ?l = "ht_link ht d"
    have l: "ht_ok key ?l" "ht_content ?l = add_mset d (ht_content ht)" "ht_frame ht ?l"
      using True ok by (auto intro: ht_link_ok ht_link_frame ht_link_content simp del: mset_concat)
    have size: "ht_size ?l = Suc (ht_size ht)" using l(2) by (metis size_add_mset size_mset)
    show ?thesis
    proof (cases "ht_overloaded ?l")
      case False
      with True m mem1 l ok show ?thesis
        by (auto simp: ht_lookup_map [OF ok] insert_post_def ht_link_head_ok simp del: mset_concat)
    next
      case over: True
      then have b: "ht_buckets ht < 2 * Suc (ht_size ht)" by (simp add: ht_overloaded_link [OF ok])
      have "\<exists>res. ht_insert_rec depth mem' new d' = Some res \<and> insert_post key mem' new d' res"
        if "ht_ok key new" "2 * ht_buckets ?l \<le> ht_buckets new" "ht_size new < ht_size ?l" for mem' new d'
      proof (rule Suc.IH)
        show "ht_ok key new" by (fact that(1))
        show "Suc (ht_size new) < 2 ^ 30" using that(3) Suc.prems(2) size by simp
        show "depth_ok depth new"
          using that(2,3) Suc.prems(3) b size ht_ok_buckets [OF ok] by (auto simp: depth_ok_def)
      qed
      then obtain r ht' mem2 where r: "ht_resize (ht_insert_rec depth) mem1 ?l = Some (r, ht', mem2)"
        "ht_ok key ht'" "ht_buckets ?l \<le> ht_buckets ht'" "ht_frame ?l ht'" "ht_content ht' = ht_content ?l"
        "ht_head_ok ?l \<longrightarrow> ht_head_ok ht'" "mem1 = [] \<longrightarrow> mem2 = []"
        using ht_resize_ok [OF l(1), of "ht_insert_rec depth" mem1] size b Suc.prems(2) by auto
      have "ht_insert_rec (Suc depth) mem ht d = Some (0, ht', mem2)"
        using True m over r(1) by (simp add: ht_lookup_map [OF ok])
      moreover have "insert_post key mem ht d (0, ht', mem2)"
        using r(2-) True l mem1 ht_link_head_ok [OF ok, of d] ht_frame_trans [OF l(3) r(4)]
        by (auto simp: insert_post_def simp del: mset_concat)
      ultimately show ?thesis by blast
    qed
  qed
qed

lemma ht_insert_post:
  assumes ok: "ht_ok key ht" and small: "Suc (ht_size ht) < 2 ^ 30"
  shows "insert_post key mem ht d (ht_insert mem ht d)"
proof -
  have "depth_ok (nat (ht_records ht) + 3) ht"
    using ht_ok_records [OF ok] by (auto simp: depth_ok_def simp del: length_concat)
  from ht_insert_rec_ok [OF ok small this, of mem d] show ?thesis
    by (auto simp: ht_insert_def)
qed

lemma ht_insert_duplicate:
  assumes "ht_ok key ht" and "ht_map key ht (key d) \<noteq> None"
  shows "ht_insert mem ht d = (-1, ht, mem)"
  using assms(2) by (simp add: ht_insert_def numeral_3_eq_3 ht_lookup_map [OF assms(1)])

lemma ht_insert_new:
  assumes "ht_ok key ht" and "Suc (ht_size ht) < 2 ^ 30" and "ht_map key ht (key d) = None"
  shows "\<exists>ht'. ht_insert [] ht d = (0, ht', []) \<and> ht_ok key ht' \<and> ht_frame ht ht' \<and>
    ht_content ht' = add_mset d (ht_content ht) \<and> ht_map key ht' = (ht_map key ht)(key d \<mapsto> d) \<and>
    (ht_head_ok ht \<longrightarrow> ht_head_ok ht')"
proof -
  obtain r ht' mem' where res: "ht_insert [] ht d = (r, ht', mem')" by (cases "ht_insert [] ht d") auto
  with ht_insert_post [OF assms(1,2), of "[]" d] assms(3) have "r = 0" "mem' = []" "ht_ok key ht'"
    "ht_frame ht ht'" "ht_content ht' = add_mset d (ht_content ht)" "ht_head_ok ht \<longrightarrow> ht_head_ok ht'"
    by (auto simp: insert_post_def simp del: mset_concat)
  with res ht_map_content [OF assms(1)] show ?thesis by blast
qed

subsection \<open>Removal\<close>

lemma unlink_found: "find p xs = Some x \<Longrightarrow> mset xs = add_mset x (mset (unlink p xs))"
  by (induction xs) (auto split: if_splits)

lemma set_unlink: "set (unlink p xs) \<subseteq> set xs"
  by (induction xs) auto

lemma ht_remove_absent:
  assumes "ht_ok key ht" and "ht_map key ht (key d) = None"
  shows "ht_remove ht d = ([], ht)"
  using assms(2) ht_lookup_map [OF assms(1), of d]
  by (auto simp: ht_remove_def ht_lookup_def Let_def split: list.splits option.splits if_splits)

lemma ht_remove_found:
  assumes ok: "ht_ok key ht" and found: "ht_map key ht (key d) = Some x"
  shows "fst (ht_remove ht d) = (if ht_del ht then [x] else [])"
    and "ht_content ht = add_mset x (ht_content (snd (ht_remove ht d)))"
    and "ht_ok key (snd (ht_remove ht d))" and "ht_frame ht (snd (ht_remove ht d))"
proof -
  let ?b = "ht_bucket ht d" and ?ht' = "snd (ht_remove ht d)"
  let ?chain = "ht_table ht ! ?b"
  have look: "find (ht_match ht d) ?chain = Some x"
    using found ht_lookup_map [OF ok, of d] by (simp add: ht_lookup_def)
  then obtain y ys where chain: "?chain = y # ys" by (cases ?chain) auto
  have b: "?b < length (ht_table ht)" using ht_bucket_less [OF ok, of d] by (simp add: ht_ok_length [OF ok])
  have table: "ht_table ?ht' = (ht_table ht)[?b := unlink (ht_match ht d) ?chain]"
    and del: "fst (ht_remove ht d) = (if ht_del ht then [x] else [])"
    and recs: "ht_records ?ht' = ht_records ht - 1" and buckets: "ht_buckets ?ht' = ht_buckets ht"
    and frame: "ht_frame ht ?ht'"
    using look unfolding ht_remove_def Let_def chain by (simp_all add: ht_frame_def)
  show "fst (ht_remove ht d) = (if ht_del ht then [x] else [])" by (fact del)
  show frame': "ht_frame ht ?ht'" by (fact frame)
  show content: "ht_content ht = add_mset x (ht_content ?ht')"
    using mset_concat_update [OF b, of "unlink (ht_match ht d) ?chain"] unlink_found [OF look]
    by (simp add: table del: mset_concat)
  have bucket: "ht_bucket ?ht' = ht_bucket ht" by (rule ht_bucket_frame [OF frame buckets])
  show "ht_ok key ?ht'"
  proof (rule ht_okI)
    show "0 < ht_buckets ?ht'" using ht_ok_buckets [OF ok] by (simp add: buckets)
    show "length (ht_table ?ht') = ht_buckets ?ht'" by (simp add: table buckets ht_ok_length [OF ok])
    show "ht_bucket ?ht' z = i" if "i < ht_buckets ?ht'" "z \<in> set (ht_table ?ht' ! i)" for i z
      using that set_unlink [of "ht_match ht d" ?chain] ht_ok_place [OF ok, of i z] b
      by (cases "i = ?b") (auto simp: table buckets bucket)
    have "distinct (map key (x # concat (ht_table ?ht')))"
      using ht_ok_distinct [OF ok] content by (metis distinct_map_mset mset.simps(2))
    then show "distinct (map key (concat (ht_table ?ht')))" by simp
    have "ht_size ht = Suc (ht_size ?ht')" using content by (metis size_add_mset size_mset)
    then show "ht_records ?ht' = int (ht_size ?ht')" using ht_ok_records [OF ok] recs by simp
    show "ht_match ?ht' u v \<longleftrightarrow> key u = key v" for u v
      using frame by (simp add: ht_frame_def ht_ok_match [OF ok])
    show "ht_hash ?ht' u = ht_hash ?ht' v" if "key u = key v" for u v
      using frame ht_ok_hash [OF ok that] by (simp add: ht_frame_def)
  qed
qed

lemma ht_remove_ok:
  assumes ok: "ht_ok key ht"
  shows "ht_ok key (snd (ht_remove ht d))" and "ht_frame ht (snd (ht_remove ht d))"
    and "ht_map key (snd (ht_remove ht d)) = (ht_map key ht)(key d := None)"
    and "ht_size (snd (ht_remove ht d)) \<le> ht_size ht"
proof -
  have "ht_ok key (snd (ht_remove ht d)) \<and> ht_frame ht (snd (ht_remove ht d)) \<and>
    ht_map key (snd (ht_remove ht d)) = (ht_map key ht)(key d := None) \<and>
    ht_size (snd (ht_remove ht d)) \<le> ht_size ht"
  proof (cases "ht_map key ht (key d)")
    case None
    with ok show ?thesis by (simp add: ht_remove_absent fun_upd_idem)
  next
    case (Some x)
    note rem = ht_remove_found [OF ok Some]
    have "key x = key d" using Some by (simp add: ht_map_Some [OF ok] del: set_concat)
    moreover have "ht_map key ht = (ht_map key (snd (ht_remove ht d)))(key x \<mapsto> x)"
      by (rule ht_map_content [OF rem(3) ok rem(2)])
    moreover have "ht_map key (snd (ht_remove ht d)) (key x) = None"
    proof -
      have "distinct (map key (x # concat (ht_table (snd (ht_remove ht d)))))"
        using ht_ok_distinct [OF ok] rem(2) by (metis distinct_map_mset mset.simps(2))
      then show ?thesis by (simp add: ht_map_None)
    qed
    ultimately have "ht_map key (snd (ht_remove ht d)) = (ht_map key ht)(key d := None)" by auto
    moreover have "ht_size ht = Suc (ht_size (snd (ht_remove ht d)))"
      using rem(2) by (metis size_add_mset size_mset)
    ultimately show ?thesis using rem(3,4) by simp
  qed
  then show "ht_ok key (snd (ht_remove ht d))" and "ht_frame ht (snd (ht_remove ht d))"
    and "ht_map key (snd (ht_remove ht d)) = (ht_map key ht)(key d := None)"
    and "ht_size (snd (ht_remove ht d)) \<le> ht_size ht"
    by blast+
qed

subsection \<open>Iteration visits every record\<close>

definition ht_rest :: "'a ht \<Rightarrow> 'a ht_pos \<Rightarrow> 'a list" where
  "ht_rest ht pos =
     (if htp_record pos = [] then []
      else htp_record pos @ concat (drop (Suc (htp_bucket pos)) (ht_table ht)))"

lemma next_bucket_spec:
  "i \<le> ht_buckets ht \<Longrightarrow>
   i \<le> next_bucket ht i \<and> next_bucket ht i \<le> ht_buckets ht \<and>
   (next_bucket ht i < ht_buckets ht \<longrightarrow> ht_table ht ! next_bucket ht i \<noteq> []) \<and>
   (\<forall>k. i \<le> k \<and> k < next_bucket ht i \<longrightarrow> ht_table ht ! k = [])"
proof (induction ht i rule: next_bucket.induct)
  case (1 ht i)
  show ?case
  proof (cases "i < ht_buckets ht \<and> ht_table ht ! i = []")
    case True
    with 1 have "Suc i \<le> next_bucket ht (Suc i) \<and> next_bucket ht (Suc i) \<le> ht_buckets ht \<and>
      (next_bucket ht (Suc i) < ht_buckets ht \<longrightarrow> ht_table ht ! next_bucket ht (Suc i) \<noteq> []) \<and>
      (\<forall>k. Suc i \<le> k \<and> k < next_bucket ht (Suc i) \<longrightarrow> ht_table ht ! k = [])"
      by simp
    with True show ?thesis
      by (auto simp: next_bucket.simps [of ht i]) (metis Suc_leI le_neq_implies_less)+
  next
    case False
    with 1 show ?thesis by (auto simp: next_bucket.simps [of ht i])
  qed
qed

lemma ht_rest_next:
  assumes len: "length (ht_table ht) = ht_buckets ht" and i: "i \<le> ht_buckets ht"
  shows "concat (drop i (ht_table ht)) = concat (drop (next_bucket ht i) (ht_table ht))"
proof -
  note spec = next_bucket_spec [OF i]
  let ?n = "next_bucket ht i"
  have "concat (drop (?n - i) (drop i (ht_table ht))) = concat (drop i (ht_table ht))"
    using spec len by (intro concat_Nil_prefix) auto
  with spec show ?thesis by simp
qed

lemma ht_next_rest:
  assumes len: "length (ht_table ht) = ht_buckets ht" and b: "htp_bucket pos < ht_buckets ht"
    and ne: "htp_record pos \<noteq> []"
  shows "\<exists>x pos'. ht_next ht pos = (Some x, pos') \<and> ht_rest ht pos = x # ht_rest ht pos' \<and>
    (htp_record pos' \<noteq> [] \<longrightarrow> htp_bucket pos' < ht_buckets ht)"
proof -
  from ne obtain x rest where r: "htp_record pos = x # rest" by (cases "htp_record pos") auto
  let ?n = "next_bucket ht (Suc (htp_bucket pos))"
  have spec: "?n \<le> ht_buckets ht" "?n < ht_buckets ht \<Longrightarrow> ht_table ht ! ?n \<noteq> []"
    using next_bucket_spec [of "Suc (htp_bucket pos)" ht] b by auto
  have tail: "concat (drop (Suc (htp_bucket pos)) (ht_table ht)) = concat (drop ?n (ht_table ht))"
    using ht_rest_next [OF len] b by simp
  show ?thesis
  proof (cases "rest = [] \<and> ?n < ht_buckets ht")
    case True
    then have "drop ?n (ht_table ht) = ht_table ht ! ?n # drop (Suc ?n) (ht_table ht)"
      using len by (simp add: Cons_nth_drop_Suc)
    with True spec tail r show ?thesis
      by (simp add: ht_next_def ht_rest_def Let_def)
  next
    case False
    with spec tail r b len show ?thesis
      by (cases "rest = []") (simp_all add: ht_next_def ht_rest_def Let_def)
  qed
qed

lemma ht_iterate_rest:
  assumes len: "length (ht_table ht) = ht_buckets ht"
  shows "length (ht_rest ht pos) < n \<Longrightarrow> (htp_record pos \<noteq> [] \<Longrightarrow> htp_bucket pos < ht_buckets ht) \<Longrightarrow>
    ht_iterate n ht pos = ht_rest ht pos"
proof (induction n arbitrary: pos)
  case (Suc n)
  show ?case
  proof (cases "htp_record pos")
    case Nil
    then show ?thesis by (simp add: ht_next_def ht_rest_def)
  next
    case (Cons x xs)
    with ht_next_rest [OF len, of pos] Suc.prems obtain y pos' where
      y: "ht_next ht pos = (Some y, pos')" "ht_rest ht pos = y # ht_rest ht pos'"
        "htp_record pos' \<noteq> [] \<longrightarrow> htp_bucket pos' < ht_buckets ht" by auto
    with Suc.IH [of pos'] Suc.prems(1) show ?thesis by simp
  qed
qed simp

lemma ht_elements_all:
  assumes ok: "ht_ok key ht" and head: "ht_head_ok ht"
  shows "ht_elements ht = concat (ht_table ht)"
proof -
  let ?pos = "ht_start ht"
  have len: "length (ht_table ht) = ht_buckets ht" by (rule ht_ok_length [OF ok])
  have rest: "ht_rest ht ?pos = concat (ht_table ht)"
  proof (cases "ht_records ht = 0")
    case True
    then have "concat (ht_table ht) = []" using ht_ok_records [OF ok] by simp
    with True show ?thesis by (simp add: ht_start_def ht_rest_def)
  next
    case False
    with head have hd: "ht_head ht < ht_buckets ht" "ht_table ht ! ht_head ht \<noteq> []"
      "\<And>j. j < ht_head ht \<Longrightarrow> ht_table ht ! j = []" by (auto simp: ht_head_ok_def)
    have "ht_table ht ! ht_head ht @ concat (drop (Suc (ht_head ht)) (ht_table ht)) =
        concat (drop (ht_head ht) (ht_table ht))"
      using hd(1) len by (metis Cons_nth_drop_Suc concat.simps(2))
    also have "\<dots> = concat (ht_table ht)" using hd len by (intro concat_Nil_prefix) auto
    finally show ?thesis using False hd(2) by (simp add: ht_start_def ht_rest_def)
  qed
  have "htp_record ?pos \<noteq> [] \<Longrightarrow> htp_bucket ?pos < ht_buckets ht"
    using head by (auto simp: ht_start_def ht_head_ok_def split: if_splits)
  with ht_iterate_rest [OF len, of ?pos] rest show ?thesis
    by (simp add: ht_elements_def del: ht_iterate.simps)
qed

subsection \<open>Assigning to records\<close>

text \<open>Clients change the records they have looked up in place; their keys stay.\<close>

definition ht_assign :: "('a \<Rightarrow> 'a) \<Rightarrow> 'a ht \<Rightarrow> 'a ht" where
  "ht_assign f ht = ht\<lparr>ht_table := map (map f) (ht_table ht)\<rparr>"

lemma ht_assign_ok:
  assumes ok: "ht_ok key ht" and key: "\<And>x. key (f x) = key x"
  shows "ht_ok key (ht_assign f ht)"
proof (rule ht_okI)
  note [simp] = ht_assign_def
  show "0 < ht_buckets (ht_assign f ht)" using ok by (simp add: ht_ok_buckets)
  show "length (ht_table (ht_assign f ht)) = ht_buckets (ht_assign f ht)" using ok by (simp add: ht_ok_length)
  show "distinct (map key (concat (ht_table (ht_assign f ht))))"
    using ht_ok_distinct [OF ok] by (simp add: map_concat comp_def key)
  show "ht_records (ht_assign f ht) = int (length (concat (ht_table (ht_assign f ht))))"
    using ht_ok_records [OF ok] by (simp add: length_concat comp_def)
  show "ht_match (ht_assign f ht) x y \<longleftrightarrow> key x = key y" for x y using ht_ok_match [OF ok] by simp
  show "ht_hash (ht_assign f ht) x = ht_hash (ht_assign f ht) y" if "key x = key y" for x y
    using ht_ok_hash [OF ok that] by simp
  show "ht_bucket (ht_assign f ht) x = i"
    if "i < ht_buckets (ht_assign f ht)" and "x \<in> set (ht_table (ht_assign f ht) ! i)" for i x
  proof -
    from that ok obtain w where w: "w \<in> set (ht_table ht ! i)" "x = f w" by (auto simp: ht_ok_length)
    with that ok have "ht_bucket ht w = i" by (simp add: ht_ok_place)
    moreover have "ht_hash ht x = ht_hash ht w" by (rule ht_ok_hash [OF ok]) (simp add: w(2) key)
    ultimately show ?thesis by (simp add: ht_bucket_def)
  qed
qed

lemma ht_assign_map:
  assumes "\<And>x. key (f x) = key x"
  shows "ht_map key (ht_assign f ht) k = map_option f (ht_map key ht k)"
proof -
  have "map_of (map (\<lambda>x. (key x, x)) (map f xs)) k = map_option f (map_of (map (\<lambda>x. (key x, x)) xs) k)" for xs
    by (induction xs) (simp_all add: assms)
  moreover have "concat (ht_table (ht_assign f ht)) = map f (concat (ht_table ht))"
    by (simp add: ht_assign_def map_concat)
  ultimately show ?thesis by (simp only: ht_map_def)
qed

subsection \<open>The table interface\<close>

text \<open>
  What the clients of a table use: the symbol tables of the ACL, the rules of the public
  suffix list, the variables of a message. \<open>room\<close> bounds the number of records, so that the
  32-bit bucket count of \<open>ht_resize\<close> cannot wrap.
\<close>

locale keyed_table =
  fixes key :: "'a \<Rightarrow> 'k"
    and amap :: "'t \<Rightarrow> 'k \<rightharpoonup> 'a"
    and invar :: "'t \<Rightarrow> bool"
    and room :: "'t \<Rightarrow> bool"
    and lookup :: "'t \<Rightarrow> 'a \<Rightarrow> 'a option"
    and insert :: "'t \<Rightarrow> 'a \<Rightarrow> int \<times> 't"
    and remove :: "'t \<Rightarrow> 'a \<Rightarrow> 't"
  assumes lookup: "invar t \<Longrightarrow> lookup t d = amap t (key d)"
    and insert_new: "invar t \<Longrightarrow> room t \<Longrightarrow> amap t (key d) = None \<Longrightarrow>
      \<exists>t'. insert t d = (0, t') \<and> invar t' \<and> amap t' = (amap t)(key d \<mapsto> d)"
    and insert_old: "invar t \<Longrightarrow> amap t (key d) \<noteq> None \<Longrightarrow> insert t d = (-1, t)"
    and remove: "invar t \<Longrightarrow> invar (remove t d) \<and> amap (remove t d) = (amap t)(key d := None)"
    and remove_room: "invar t \<Longrightarrow> room t \<Longrightarrow> room (remove t d)"
begin

text \<open>Remove and insert again, the way \<open>sht_replace\<close> and \<open>vtable_set\<close> do it, is an update.\<close>

definition replace :: "'t \<Rightarrow> 'a \<Rightarrow> int \<times> 't" where
  "replace t d = insert (if lookup t d \<noteq> None then remove t d else t) d"

lemma replace_update:
  assumes "invar t" and "room t"
  shows "\<exists>t'. replace t d = (0, t') \<and> invar t' \<and> amap t' = (amap t)(key d \<mapsto> d)"
proof -
  let ?t = "if lookup t d \<noteq> None then remove t d else t"
  have "invar ?t" "room ?t" "amap ?t (key d) = None"
    using assms remove remove_room lookup by auto
  from insert_new [OF this] obtain t' where "replace t d = (0, t')" "invar t'"
    and "amap t' = (amap ?t)(key d \<mapsto> d)" by (auto simp: replace_def)
  moreover have "(amap ?t)(key d \<mapsto> d) = (amap t)(key d \<mapsto> d)" using remove [OF assms(1)] by simp
  ultimately show ?thesis by auto
qed

lemma insert_keeps:
  assumes "invar t" and "room t" and "insert t d = (r, t')" and "lookup t e = Some x"
  shows "lookup t' e = Some x"
proof (cases "amap t (key d)")
  case None
  with insert_new [OF assms(1,2) None] assms(3) have "invar t' \<and> amap t' = (amap t)(key d \<mapsto> d)" by auto
  with None assms(1,4) show ?thesis by (auto simp: lookup)
next
  case Some
  with insert_old [OF assms(1)] assms show ?thesis by auto
qed

end

definition ht_room :: "'a ht \<Rightarrow> bool" where
  "ht_room ht \<longleftrightarrow> Suc (ht_size ht) < 2 ^ 30"

interpretation ht: keyed_table key "ht_map key" "ht_ok key" ht_room ht_lookup
  "\<lambda>ht d. (fst (ht_insert [] ht d), fst (snd (ht_insert [] ht d)))" "\<lambda>ht d. snd (ht_remove ht d)"
  for key
proof
  fix t :: "'a ht" and d :: 'a
  assume ok: "ht_ok key t"
  show "ht_lookup t d = ht_map key t (key d)" by (rule ht_lookup_map [OF ok])
  show "\<exists>t'. (fst (ht_insert [] t d), fst (snd (ht_insert [] t d))) = (0, t') \<and> ht_ok key t' \<and>
      ht_map key t' = (ht_map key t)(key d \<mapsto> d)" if "ht_room t" "ht_map key t (key d) = None"
    using ht_insert_new [OF ok _ that(2)] that(1) unfolding ht_room_def by force
  show "(fst (ht_insert [] t d), fst (snd (ht_insert [] t d))) = (-1, t)"
    if "ht_map key t (key d) \<noteq> None"
    using ht_insert_duplicate [OF ok that] by simp
  show "ht_ok key (snd (ht_remove t d)) \<and> ht_map key (snd (ht_remove t d)) = (ht_map key t)(key d := None)"
    using ht_remove_ok [OF ok] by blast
  show "ht_room (snd (ht_remove t d))" if "ht_room t"
    using ht_remove_ok(4) [OF ok, of d] that by (simp add: ht_room_def)
qed

subsection \<open>Properties\<close>

abbreviation ht_add :: "'a ht \<Rightarrow> 'a \<Rightarrow> 'a ht" where
  "ht_add ht d \<equiv> fst (snd (ht_insert [] ht d))"

text \<open>A table of numbers that hash to themselves, for the concrete runs.\<close>

definition nat_table :: "nat \<Rightarrow> nat ht" where
  "nat_table b = the (fst (ht_init [] b of_nat (=) False))"

lemma nat_table_ok: "0 < b \<Longrightarrow> ht_ok id (nat_table b) \<and> ht_head_ok (nat_table b) \<and>
    concat (ht_table (nat_table b)) = []"
  using ht_init_ok [of "(=)" id of_nat "[]" b False "nat_table b" "[]"]
  by (auto simp: nat_table_def ht_init_def)

text \<open>
  C4: Whatever the allocator does, an insertion into a well-formed table of fewer than \<open>2^30 - 1\<close>
  records leaves a well-formed table and either reports success, the key was new and exactly the
  new record has been added to the map, or reports \<open>-1\<close> and the table is as before. A present
  key always gives \<open>-1\<close>; with memory available a new key is always added, however many nested
  resizes that takes.
\<close>

theorem ht_insert_refines_map:
  assumes "ht_ok key ht" and "length (concat (ht_table ht)) + 1 < 2 ^ 30"
    and "ht_insert mem ht d = (r, ht', mem')"
  shows "ht_ok key ht' \<and>
    (r = 0 \<and> ht_map key ht (key d) = None \<and> ht_map key ht' = (ht_map key ht)(key d \<mapsto> d) \<or>
     r = -1 \<and> ht' = ht) \<and>
    (ht_map key ht (key d) \<noteq> None \<longrightarrow> r = -1) \<and>
    (mem = [] \<and> ht_map key ht (key d) = None \<longrightarrow> r = 0)"
proof -
  have post: "insert_post key mem ht d (r, ht', mem')"
    using ht_insert_post [OF assms(1), of mem d] assms(2,3) by simp
  show ?thesis
  proof (cases "r = 0")
    case True
    with post have "ht_ok key ht'" "ht_map key ht (key d) = None"
      "ht_content ht' = add_mset d (ht_content ht)" by (auto simp: insert_post_def simp del: mset_concat)
    with True ht_map_content [OF assms(1), of ht' d] show ?thesis by simp
  next
    case False
    with post assms(1) show ?thesis by (auto simp: insert_post_def)
  qed
qed

theorem ht_insert_refines_map_witness:
  "\<exists>r ht' mem'. ht_insert [True, False] (nat_table 1) 7 = (r, ht', mem') \<and> ht_ok id ht'"
proof -
  obtain r ht' mem' where call: "ht_insert [True, False] (nat_table 1) 7 = (r, ht', mem')"
    by (metis prod_cases3)
  have "ht_ok id (nat_table 1)" and "length (concat (ht_table (nat_table 1))) + 1 < 2 ^ 30"
    using nat_table_ok [of 1] by (simp_all only: zero_less_one list.size) simp_all
  from ht_insert_refines_map [OF this call] call show ?thesis by blast
qed

text \<open>
  A removal from a well-formed table leaves a well-formed table that maps the key to nothing
  and every other key as before; the removed record, if there was one and a delete callback is
  set, is the one thing handed to the callback.
\<close>

theorem ht_remove_refines_map:
  assumes "ht_ok key ht" and "ht_remove ht d = (deleted, ht')"
  shows "ht_ok key ht' \<and> ht_map key ht' = (ht_map key ht)(key d := None) \<and>
    deleted = (case ht_map key ht (key d) of None \<Rightarrow> [] | Some x \<Rightarrow> if ht_del ht then [x] else [])"
proof (cases "ht_map key ht (key d)")
  case None
  with ht_remove_absent [OF assms(1)] assms show ?thesis by (auto simp: fun_upd_idem)
next
  case (Some x)
  with ht_remove_found(1) [OF assms(1) Some] ht_remove_ok [OF assms(1), of d] assms(2) show ?thesis
    by simp
qed

theorem ht_remove_refines_map_witness:
  "\<exists>deleted ht'. ht_remove (nat_table 4) 7 = (deleted, ht') \<and> ht_ok id ht' \<and> ht_map id ht' 7 = None"
proof -
  obtain ds ht' where call: "ht_remove (nat_table 4) 7 = (ds, ht')" by (cases "ht_remove (nat_table 4) 7")
  have ok: "ht_ok id (nat_table 4)" using nat_table_ok [of 4] by auto
  from ht_remove_refines_map [OF ok call] call show ?thesis by simp
qed

lemma ht_fill:
  assumes "ht_ok key ht" and "ht_head_ok ht" and "ht_size ht + length xs < 2 ^ 30"
    and "distinct (map key (concat (ht_table ht) @ xs))"
  shows "ht_ok key (foldl ht_add ht xs) \<and> ht_head_ok (foldl ht_add ht xs) \<and>
    ht_content (foldl ht_add ht xs) = ht_content ht + mset xs"
  using assms
proof (induction xs arbitrary: ht)
  case (Cons x xs)
  have "ht_map key ht (key x) = None" using Cons.prems(4) by (auto simp: ht_map_None)
  moreover have "Suc (ht_size ht) < 2 ^ 30" using Cons.prems(3) by simp
  ultimately obtain ht' where ins: "ht_insert [] ht x = (0, ht', [])" "ht_ok key ht'" "ht_head_ok ht'"
    "ht_content ht' = add_mset x (ht_content ht)"
    using ht_insert_new [OF Cons.prems(1)] Cons.prems(2) by blast
  have "ht_size ht' = Suc (ht_size ht)" using ins(4) by (metis size_add_mset size_mset)
  then have "ht_size ht' + length xs < 2 ^ 30" using Cons.prems(3) by simp
  moreover have "mset (concat (ht_table ht') @ xs) = mset (concat (ht_table ht) @ x # xs)"
    using ins(4) by (simp del: mset_concat)
  then have "distinct (map key (concat (ht_table ht') @ xs))"
    using Cons.prems(4) by (metis distinct_map_mset)
  ultimately have "ht_ok key (foldl ht_add ht' xs) \<and> ht_head_ok (foldl ht_add ht' xs) \<and>
      ht_content (foldl ht_add ht' xs) = ht_content ht' + mset xs"
    using Cons.IH ins(2,3) by blast
  then show ?case using ins(1,4) by (simp del: mset_concat)
qed simp

text \<open>
  A table that has only been filled, from any number of buckets and with any hash function
  that agrees on equal keys, is iterated completely by \<open>ht_start\<close> and \<open>ht_next\<close>: every inserted
  record comes exactly once, through all resizes on the way.
\<close>

theorem ht_fill_iterates_all:
  assumes "ht_init [] b h m del = (Some ht, mem)" and "0 < b"
    and "\<And>x y. m x y \<longleftrightarrow> key x = key y" and "\<And>x y. key x = key y \<Longrightarrow> h x = h y"
    and "distinct (map key xs)" and "length xs < 2 ^ 30"
  shows "mset (ht_elements (foldl ht_add ht xs)) = mset xs"
proof -
  have ht: "ht_ok key ht" "ht_content ht = {#}" "ht_head_ok ht"
    using ht_init_ok [OF assms(3,4,1,2)] by blast+
  then have nil: "concat (ht_table ht) = []" by (simp only: mset_zero_iff)
  have "ht_size ht + length xs < 2 ^ 30" "distinct (map key (concat (ht_table ht) @ xs))"
    using assms(5,6) unfolding nil by simp_all
  from ht_fill [OF ht(1,3) this] have fill: "ht_ok key (foldl ht_add ht xs)"
    "ht_head_ok (foldl ht_add ht xs)" "ht_content (foldl ht_add ht xs) = mset xs"
    using ht(2) by (simp_all del: mset_concat)
  show ?thesis using ht_elements_all [OF fill(1,2)] fill(3) by (simp del: mset_concat)
qed

theorem ht_fill_iterates_all_witness:
  "mset (ht_elements (foldl ht_add (nat_table 1) [3, 1, 4, 15, 9, 2, 6])) = mset [3, 1, 4, 15, 9, 2, 6]"
proof -
  have init: "ht_init [] 1 of_nat (=) False = (Some (nat_table 1), [])"
    by (simp add: nat_table_def ht_init_def)
  have d: "distinct (map id [3, 1, 4, 15, 9, 2, 6 :: nat])" and l: "length [3, 1, 4, 15, 9, 2, 6 :: nat] < 2 ^ 30"
    by simp_all
  show ?thesis by (rule ht_fill_iterates_all [OF init _ _ _ d l]) auto
qed

text \<open>
  C40: A removal can hide all other records from the iteration. When the bucket that \<open>ht_head\<close> names
  holds a single record and that record is removed, the others are still counted and found by
  \<open>ht_lookup\<close>, but a loop with \<open>ht_start\<close> and \<open>ht_next\<close> visits nothing, however many there are.
\<close>

theorem ht_remove_hides_records:
  assumes "ht_ok key ht" and "ht_head ht < ht_buckets ht" and "ht_table ht ! ht_head ht = [x]" and "key d = key x"
  shows "ht_elements (snd (ht_remove ht d)) = [] \<and> ht_records (snd (ht_remove ht d)) = ht_records ht - 1 \<and>
    (\<forall>e. key e \<noteq> key d \<longrightarrow> ht_lookup (snd (ht_remove ht d)) e = ht_lookup ht e)"
proof -
  let ?t = "snd (ht_remove ht d)"
  have "ht_bucket ht x = ht_head ht" using ht_ok_place [OF assms(1,2), of x] assms(3) by simp
  with ht_bucket_key [OF assms(1,4)] have b: "ht_bucket ht d = ht_head ht" by simp
  have len: "ht_head ht < length (ht_table ht)" using assms(2) by (simp add: ht_ok_length [OF assms(1)])
  have t: "ht_table ?t = (ht_table ht)[ht_head ht := []]" "ht_records ?t = ht_records ht - 1" "ht_head ?t = ht_head ht"
    by (simp_all add: ht_remove_def b assms(3,4) ht_ok_match [OF assms(1)])
  have "htp_record (ht_start ?t) = []" using len by (simp add: ht_start_def t)
  then have "ht_elements ?t = []" by (simp add: ht_elements_def ht_next_def)
  moreover have "ht_lookup ?t e = ht_lookup ht e" if "key e \<noteq> key d" for e
    using that ht_remove_ok(3) [OF assms(1), of d] ht_lookup_map [OF ht_remove_ok(1) [OF assms(1)], of d e] ht_lookup_map [OF assms(1), of e]
    by simp
  ultimately show ?thesis using t(2) by blast
qed

theorem ht_remove_hides_records_witness:
  "let ht = foldl ht_add (nat_table 8) [1, 2] in
   ht_table ht ! ht_head ht = [1] \<and> ht_elements (snd (ht_remove ht 1)) = [] \<and>
   ht_records (snd (ht_remove ht 1)) = 1 \<and> ht_lookup (snd (ht_remove ht 1)) 2 = Some 2"
proof -
  let ?ht = "foldl ht_add (nat_table 8) [1, 2]"
  have nil: "concat (ht_table (nat_table 8)) = []" and ok8: "ht_ok id (nat_table 8)" "ht_head_ok (nat_table 8)"
    using nat_table_ok [of 8] by auto
  have ok: "ht_ok id ?ht"
    by (rule ht_fill [THEN conjunct1, OF ok8]) (unfold nil, simp_all)
  have h: "ht_head ?ht < ht_buckets ?ht" "ht_table ?ht ! ht_head ?ht = [1]" by code_simp+
  have r: "ht_records ?ht = 2" "ht_lookup ?ht 2 = Some 2" by code_simp+
  from ht_remove_hides_records [OF ok h, of 1] show ?thesis using h(2) r by (simp add: Let_def)
qed

text \<open>
  The collision count goes wrong as well: the removal from a chain of two decrements it twice, where
  the insertion of the second record has incremented it once.
\<close>

lemma ht_remove_collisions:
  assumes "ht_ok key ht" and "ht_table ht ! ht_bucket ht d = [x, y]" and "key d \<in> {key x, key y}"
  shows "ht_collisions (snd (ht_remove ht d)) = ht_collisions ht - 2"
  using assms by (auto simp: ht_remove_def ht_ok_match [OF assms(1)])

end
