(* ===== verification/String_Table.thy ===== *)
theory String_Table
  imports Hash_Table
begin

section \<open>Tables keyed by strings (sht.c)\<close>

text \<open>
  \<open>src/src/sht.c\<close>: a hash table of records that pair a copied key with a data pointer. The
  records are compared and hashed by the key alone. The data handed to \<open>sht_delete\<close> is part
  of the results. As in C a lookup cannot tell a missing key from a key with a \<open>NULL\<close> data
  pointer: the data of a record is an \<open>option\<close>.
\<close>

record 'd sht_record =
  sr_key :: string
  sr_data :: "'d option"

record 'd sht =
  sht_ht :: "'d sht_record ht"
  sht_del :: bool

definition sht_record_hash :: "'d sht_record \<Rightarrow> u64" where
  "sht_record_hash sr = HASH (bytes_of (sr_key sr))"

definition sht_record_match :: "'d sht_record \<Rightarrow> 'd sht_record \<Rightarrow> bool" where
  "sht_record_match sr1 sr2 \<longleftrightarrow> sr_key sr1 = sr_key sr2"

text \<open>Two allocations: the record and the copy of the key.\<close>

definition sht_record_create :: "mem \<Rightarrow> string \<Rightarrow> 'd option \<Rightarrow> 'd sht_record option \<times> mem" where
  "sht_record_create mem key data =
     (let (ok1, mem1) = malloc mem in
      if \<not> ok1 then (None, mem1)
      else
        (let (ok2, mem2) = malloc mem1 in
         if \<not> ok2 then (None, mem2) else (Some \<lparr>sr_key = key, sr_data = data\<rparr>, mem2)))"

definition sht_init :: "mem \<Rightarrow> nat \<Rightarrow> bool \<Rightarrow> 'd sht option \<times> mem" where
  "sht_init mem buckets del =
     (case ht_create mem buckets sht_record_hash sht_record_match True of
        (None, mem1) \<Rightarrow> (None, mem1)
      | (Some ht, mem1) \<Rightarrow> (Some \<lparr>sht_ht = ht, sht_del = del\<rparr>, mem1))"

text \<open>
  \<open>sht_create\<close>: when \<open>sht_init\<close> fails, the error path deletes a table whose field \<open>sht_delete\<close>
  has not been set, and reads it, which C gives no meaning.
\<close>

definition sht_create :: "mem \<Rightarrow> nat \<Rightarrow> bool \<Rightarrow> ('d sht option \<times> mem) option" where
  "sht_create mem buckets del =
     (let (ok, mem1) = malloc mem in
      if \<not> ok then Some (None, mem1)
      else (case sht_init mem1 buckets del of (None, mem2) \<Rightarrow> None | (Some sht, mem2) \<Rightarrow> Some (Some sht, mem2)))"

definition sht_insert :: "mem \<Rightarrow> 'd sht \<Rightarrow> string \<Rightarrow> 'd option \<Rightarrow> int \<times> 'd sht \<times> mem" where
  "sht_insert mem sht key data =
     (case sht_record_create mem key data of
        (None, mem1) \<Rightarrow> (-1, sht, mem1)
      | (Some sr, mem1) \<Rightarrow>
          (let (r, ht, mem2) = ht_insert mem1 (sht_ht sht) sr in
           if r \<noteq> 0 then (-1, sht\<lparr>sht_ht := ht\<rparr>, mem2) else (0, sht\<lparr>sht_ht := ht\<rparr>, mem2)))"

definition sht_lookup :: "'d sht \<Rightarrow> string \<Rightarrow> 'd option" where
  "sht_lookup sht key =
     (case ht_lookup (sht_ht sht) \<lparr>sr_key = key, sr_data = None\<rparr> of
        None \<Rightarrow> None
      | Some sr \<Rightarrow> sr_data sr)"

text \<open>\<open>sht_remove\<close> calls \<open>sht_delete\<close> on the data, \<open>NULL\<close> or not, then removes the record.\<close>

definition sht_remove :: "'d sht \<Rightarrow> string \<Rightarrow> 'd option list \<times> 'd sht" where
  "sht_remove sht key =
     (case ht_lookup (sht_ht sht) \<lparr>sr_key = key, sr_data = None\<rparr> of
        None \<Rightarrow> ([], sht)
      | Some sr \<Rightarrow>
          (if sht_del sht then [sr_data sr] else [],
           sht\<lparr>sht_ht := snd (ht_remove (sht_ht sht) sr)\<rparr>))"

definition sht_replace ::
  "mem \<Rightarrow> 'd sht \<Rightarrow> string \<Rightarrow> 'd option \<Rightarrow> 'd option list \<times> int \<times> 'd sht \<times> mem" where
  "sht_replace mem sht key data =
     (let (ds, sht1) = sht_remove sht key in (ds, sht_insert mem sht1 key data))"

definition sht_start :: "'d sht \<Rightarrow> 'd sht_record ht_pos" where
  "sht_start sht = ht_start (sht_ht sht)"

definition sht_next ::
  "'d sht \<Rightarrow> 'd sht_record ht_pos \<Rightarrow> 'd option \<times> 'd sht_record ht_pos" where
  "sht_next sht pos =
     (case ht_next (sht_ht sht) pos of
        (None, pos1) \<Rightarrow> (None, pos1)
      | (Some sr, pos1) \<Rightarrow> (sr_data sr, pos1))"

text \<open>\<open>sht_clear\<close>: the data that is not \<open>NULL\<close> goes to \<open>sht_delete\<close> in iteration order.\<close>

definition sht_clear :: "'d sht \<Rightarrow> 'd list" where
  "sht_clear sht =
     (if sht_del sht then List.map_filter sr_data (ht_elements (sht_ht sht)) else [])"

subsection \<open>The map of a string table\<close>

definition sht_ok :: "'d sht \<Rightarrow> bool" where
  "sht_ok sht \<longleftrightarrow> ht_ok sr_key (sht_ht sht)"

definition sht_map :: "'d sht \<Rightarrow> string \<rightharpoonup> 'd sht_record" where
  "sht_map sht = ht_map sr_key (sht_ht sht)"

definition sht_room :: "'d sht \<Rightarrow> bool" where
  "sht_room sht \<longleftrightarrow> ht_room (sht_ht sht)"

lemma sht_create_ok:
  assumes "0 < b"
  shows "\<exists>sht :: 'd sht. sht_create [] b del = Some (Some sht, []) \<and> sht_ok sht \<and> sht_map sht = Map.empty \<and>
    sht_del sht = del \<and> ht_head_ok (sht_ht sht)"
proof -
  obtain ht :: "'d sht_record ht" where ht: "ht_init [] b sht_record_hash sht_record_match True = (Some ht, [])"
    by (simp add: ht_init_def)
  have "ht_ok sr_key ht \<and> ht_content ht = {#} \<and> ht_head_ok ht \<and> ht_buckets ht = b \<and>
    ht_hash ht = sht_record_hash \<and> ht_match ht = sht_record_match \<and> ht_del ht = True"
    by (rule ht_init_ok [OF _ _ ht assms]) (simp_all add: sht_record_match_def sht_record_hash_def)
  then have "ht_ok sr_key ht" "concat (ht_table ht) = []" "ht_head_ok ht" by (simp_all only: mset_zero_iff)
  moreover have "sht_create [] b del = Some (Some \<lparr>sht_ht = ht, sht_del = del\<rparr>, [])"
    using ht by (simp add: sht_create_def sht_init_def ht_create_def)
  ultimately show ?thesis
    by (simp add: sht_ok_def sht_map_def ht_map_def)
qed

lemma sht_lookup_map [table_simps]:
  "sht_ok sht \<Longrightarrow> sht_lookup sht k = Option.bind (sht_map sht k) sr_data"
  by (simp add: sht_lookup_def sht_ok_def sht_map_def ht_lookup_map split: option.splits)

lemma sht_map_key: "sht_ok sht \<Longrightarrow> sht_map sht k = Some sr \<Longrightarrow> sr_key sr = k"
  by (simp add: sht_ok_def sht_map_def ht_map_Some)

lemma sht_insert_new:
  assumes ok: "sht_ok sht" and room: "sht_room sht" and new: "sht_map sht k = None"
  shows "\<exists>sht'. sht_insert [] sht k d = (0, sht', []) \<and> sht_ok sht' \<and>
    sht_map sht' = (sht_map sht)(k \<mapsto> \<lparr>sr_key = k, sr_data = d\<rparr>) \<and> sht_del sht' = sht_del sht \<and>
    (ht_head_ok (sht_ht sht) \<longrightarrow> ht_head_ok (sht_ht sht'))"
proof -
  let ?sr = "\<lparr>sr_key = k, sr_data = d\<rparr>"
  have "ht_map sr_key (sht_ht sht) (sr_key ?sr) = None" using new by (simp add: sht_map_def)
  from ht_insert_new [OF _ _ this] ok room obtain ht' where
    "ht_insert [] (sht_ht sht) ?sr = (0, ht', [])" "ht_ok sr_key ht'"
    "ht_map sr_key ht' = (ht_map sr_key (sht_ht sht))(k \<mapsto> ?sr)"
    "ht_head_ok (sht_ht sht) \<longrightarrow> ht_head_ok ht'"
    by (auto simp: sht_ok_def sht_room_def ht_room_def)
  then show ?thesis
    by (auto simp: sht_insert_def sht_record_create_def sht_ok_def sht_map_def)
qed

text \<open>A table with one record.\<close>

lemma sht_single:
  "\<exists>t :: 'd sht. sht_ok t \<and> ht_head_ok (sht_ht t) \<and> sht_map t = [k \<mapsto> \<lparr>sr_key = k, sr_data = Some d\<rparr>]"
proof -
  obtain t :: "'d sht" where t: "sht_ok t" "sht_map t = Map.empty" "ht_head_ok (sht_ht t)" using sht_create_ok [of 1 True] by auto
  have "concat (ht_table (sht_ht t)) = []"
    using t(2) ht_map_None [of sr_key "sht_ht t"] by (fastforce simp: sht_map_def)
  then have "sht_room t" unfolding sht_room_def ht_room_def by (simp only: list.size) simp
  with sht_insert_new [OF t(1), of k "Some d"] t show ?thesis by auto
qed

lemma sht_insert_old:
  assumes "sht_ok sht" and "sht_map sht k \<noteq> None"
  shows "sht_insert [] sht k d = (-1, sht, [])"
  using assms by (simp add: sht_insert_def sht_record_create_def sht_ok_def sht_map_def
      ht_insert_duplicate)

lemma sht_remove_ok:
  assumes ok: "sht_ok sht"
  shows "sht_ok (snd (sht_remove sht k)) \<and> sht_map (snd (sht_remove sht k)) = (sht_map sht)(k := None)
    \<and> fst (sht_remove sht k) = (case sht_map sht k of None \<Rightarrow> [] | Some sr \<Rightarrow> if sht_del sht then [sr_data sr] else [])
    \<and> (sht_room sht \<longrightarrow> sht_room (snd (sht_remove sht k)))"
proof (cases "sht_map sht k")
  case None
  with ok show ?thesis
    by (simp add: sht_remove_def sht_ok_def sht_map_def ht_lookup_map fun_upd_idem)
next
  case (Some sr)
  then have key: "sr_key sr = k" by (rule sht_map_key [OF ok])
  from ok have ht: "ht_ok sr_key (sht_ht sht)" by (simp add: sht_ok_def)
  show ?thesis
    using Some key ht_remove_ok [OF ht, of sr]
    by (simp add: sht_remove_def sht_ok_def sht_map_def ht_lookup_map [OF ht] sht_room_def ht_room_def)
qed

subsection \<open>Runs of operations\<close>

text \<open>
  A run of calls on a table, and the same run on a map. Data pointers are not \<open>NULL\<close> here, as
  in all callers.
\<close>

datatype 'd sht_op = Insert string 'd | Replace string 'd | Remove string

fun sht_exec :: "'d sht \<Rightarrow> 'd sht_op \<Rightarrow> 'd sht" where
  "sht_exec t (Insert k d) = fst (snd (sht_insert [] t k (Some d)))"
| "sht_exec t (Replace k d) = fst (snd (snd (sht_replace [] t k (Some d))))"
| "sht_exec t (Remove k) = snd (sht_remove t k)"

fun map_exec :: "(string \<rightharpoonup> 'd) \<Rightarrow> 'd sht_op \<Rightarrow> (string \<rightharpoonup> 'd)" where
  "map_exec m (Insert k d) = (if m k = None then m(k \<mapsto> d) else m)"
| "map_exec m (Replace k d) = m(k \<mapsto> d)"
| "map_exec m (Remove k) = m(k := None)"

definition sht_abs :: "'d sht \<Rightarrow> string \<rightharpoonup> 'd" where
  "sht_abs t k = Option.bind (sht_map t k) sr_data"

definition sht_full :: "'d sht \<Rightarrow> bool" where
  "sht_full t \<longleftrightarrow> (\<forall>k sr. sht_map t k = Some sr \<longrightarrow> sr_data sr \<noteq> None)"

abbreviation sht_size :: "'d sht \<Rightarrow> nat" where
  "sht_size t \<equiv> ht_size (sht_ht t)"

lemma sht_full_None: "sht_full t \<Longrightarrow> sht_abs t k = None \<longleftrightarrow> sht_map t k = None"
  by (cases "sht_map t k") (auto simp: sht_full_def sht_abs_def)

lemma sht_insert_exec:
  assumes ok: "sht_ok t" and room: "Suc (sht_size t) < 2 ^ 30" and full: "sht_full t"
  shows "sht_ok (sht_exec t (Insert k d)) \<and> sht_full (sht_exec t (Insert k d)) \<and>
    sht_abs (sht_exec t (Insert k d)) = map_exec (sht_abs t) (Insert k d) \<and>
    sht_size (sht_exec t (Insert k d)) \<le> Suc (sht_size t)"
proof (cases "sht_map t k")
  case None
  let ?sr = "\<lparr>sr_key = k, sr_data = Some d\<rparr>"
  have "ht_map sr_key (sht_ht t) (sr_key ?sr) = None" using None by (simp add: sht_map_def)
  from ht_insert_new [OF _ room this] ok obtain ht' where
    ins: "ht_insert [] (sht_ht t) ?sr = (0, ht', [])" and ok': "ht_ok sr_key ht'"
    and map: "ht_map sr_key ht' = (ht_map sr_key (sht_ht t))(k \<mapsto> ?sr)"
    and content: "ht_content ht' = add_mset ?sr (ht_content (sht_ht t))"
    by (auto simp: sht_ok_def simp del: mset_concat)
  have size: "ht_size ht' = Suc (sht_size t)" using content by (metis size_add_mset size_mset)
  have "sht_exec t (Insert k d) = t\<lparr>sht_ht := ht'\<rparr>"
    using ins by (simp add: sht_insert_def sht_record_create_def)
  with ok' map full None size show ?thesis
    by (auto simp: sht_ok_def sht_full_def sht_map_def sht_abs_def fun_eq_iff simp del: length_concat)
next
  case (Some sr)
  then have "sht_exec t (Insert k d) = t" using sht_insert_old [OF ok, of k "Some d"] by simp
  moreover have "sht_abs t k \<noteq> None" using Some full by (simp add: sht_full_None)
  ultimately show ?thesis using full ok by (auto simp del: sht_exec.simps)
qed

lemma sht_remove_exec:
  assumes ok: "sht_ok t" and full: "sht_full t"
  shows "sht_ok (sht_exec t (Remove k)) \<and> sht_full (sht_exec t (Remove k)) \<and>
    sht_abs (sht_exec t (Remove k)) = map_exec (sht_abs t) (Remove k) \<and>
    sht_size (sht_exec t (Remove k)) \<le> sht_size t"
proof -
  have "sht_size (sht_exec t (Remove k)) \<le> sht_size t"
    using ok ht_remove_ok(4) [of sr_key "sht_ht t"]
    by (auto simp: sht_remove_def sht_ok_def split: option.splits)
  with sht_remove_ok [OF ok, of k] full show ?thesis
    by (auto simp: sht_full_def sht_abs_def fun_eq_iff)
qed

lemma sht_replace_exec: "sht_exec t (Replace k d) = sht_exec (sht_exec t (Remove k)) (Insert k d)"
  by (simp add: sht_replace_def split: prod.splits)

lemma sht_exec_step:
  assumes "sht_ok t" and "Suc (sht_size t) < 2 ^ 30" and "sht_full t"
  shows "sht_ok (sht_exec t op) \<and> sht_full (sht_exec t op) \<and>
    sht_abs (sht_exec t op) = map_exec (sht_abs t) op \<and> sht_size (sht_exec t op) \<le> Suc (sht_size t)"
proof (cases op)
  case (Replace k d)
  let ?t = "sht_exec t (Remove k)"
  from sht_remove_exec [OF assms(1,3), of k] assms(2)
  have rem: "sht_ok ?t" "sht_full ?t" "sht_abs ?t = (sht_abs t)(k := None)"
    "sht_size ?t \<le> sht_size t" "Suc (sht_size ?t) < 2 ^ 30" by auto
  from sht_insert_exec [OF rem(1,5,2), of k d] rem(3,4)
  have ins: "sht_ok (sht_exec ?t (Insert k d))" "sht_full (sht_exec ?t (Insert k d))"
    "sht_abs (sht_exec ?t (Insert k d)) = (sht_abs t)(k \<mapsto> d)"
    "sht_size (sht_exec ?t (Insert k d)) \<le> Suc (sht_size t)" by (auto simp: fun_eq_iff)
  then show ?thesis unfolding Replace sht_replace_exec by simp
qed (use sht_insert_exec [OF assms] sht_remove_exec [OF assms(1,3)] in \<open>auto intro: le_SucI\<close>)

lemma sht_run_ok:
  assumes "sht_ok t" and "sht_size t + length ops < 2 ^ 30" and "sht_full t"
  shows "sht_ok (foldl sht_exec t ops) \<and> sht_full (foldl sht_exec t ops) \<and>
    sht_abs (foldl sht_exec t ops) = foldl map_exec (sht_abs t) ops"
  using assms
proof (induction ops arbitrary: t)
  case (Cons op ops)
  from sht_exec_step [OF Cons.prems(1) _ Cons.prems(3), of op] Cons.prems(2)
  have step: "sht_ok (sht_exec t op)" "sht_full (sht_exec t op)"
    "sht_abs (sht_exec t op) = map_exec (sht_abs t) op" "sht_size (sht_exec t op) \<le> Suc (sht_size t)"
    by auto
  with Cons.IH [of "sht_exec t op"] Cons.prems(2) show ?case by simp
qed simp

text \<open>
  C28: A string table that starts fresh with any positive number of buckets and on which any run
  of fewer than \<open>2^30\<close> insertions, replacements and removals is made answers every lookup as the
  finite map on which the same run is made: an insertion of a key that is present changes
  nothing, a replacement overrides, a removal forgets. Resizes never lose or duplicate a record.
  Memory does not run out during the run.
\<close>

theorem sht_run_refines_map:
  fixes t :: "'d sht"
  assumes "0 < b" and "length ops < 2 ^ 30" and "sht_create [] b del = Some (Some t, m)"
  shows "sht_lookup (foldl sht_exec t ops) k = foldl map_exec Map.empty ops k"
proof -
  have t: "sht_ok t" "sht_map t = Map.empty"
    using sht_create_ok [OF assms(1), where ?'d = 'd, of del] assms(3) by auto
  have abs: "sht_abs t = Map.empty" and full: "sht_full t"
    by (simp_all add: sht_abs_def sht_full_def t(2) fun_eq_iff)
  have "concat (ht_table (sht_ht t)) = []"
    using t(2) by (simp add: sht_map_def ht_map_def map_of_eq_empty_iff del: concat_eq_Nil_conv)
  then have "sht_size t + length ops < 2 ^ 30" using assms(2) by (simp only: list.size add_0)
  from sht_run_ok [OF t(1) this full] abs show ?thesis
    by (simp add: sht_lookup_map) (metis sht_abs_def)
qed

theorem sht_run_refines_map_witness:
  "\<exists>t. sht_create [] 2 True = Some (Some t, []) \<and>
     sht_lookup (foldl sht_exec t [Insert ''a'' (1 :: nat), Insert ''a'' 2, Replace ''b'' 3, Remove ''a'']) ''b'' = Some 3"
proof -
  obtain t :: "nat sht" where t: "sht_create [] 2 True = Some (Some t, [])"
    using sht_create_ok [where ?'d = nat, of 2 True] by auto
  have "sht_lookup (foldl sht_exec t [Insert ''a'' (1 :: nat), Insert ''a'' 2, Replace ''b'' 3, Remove ''a'']) ''b'' =
      foldl map_exec Map.empty [Insert ''a'' (1 :: nat), Insert ''a'' 2, Replace ''b'' 3, Remove ''a''] ''b''"
    by (rule sht_run_refines_map [OF _ _ t]) simp_all
  then show ?thesis using t by simp
qed

end
