(* ===== verification/Linked_List.thy ===== *)
theory Linked_List
  imports Mopher_Prelude
begin

section \<open>Singly linked lists (ll.c)\<close>

text \<open>
  The list of \<open>src/src/ll.c\<close> over an explicit store. An entry is a cell with its data pointer
  (\<open>NULL\<close> is \<open>None\<close>) and the address of its successor; the list header holds the size and the
  addresses of the first and the last entry. An operation that allocates gets the result of
  \<open>malloc\<close> as an argument, \<open>None\<close> for \<open>NULL\<close>. A dereference of an address with no cell has no
  meaning in C: the operation is \<open>None\<close> there.

  The abstraction \<open>ll_rep\<close> reads the header and the store as a list; every operation is
  proved to do on the abstract list what its name says, which is the interface \<open>deque_rep\<close>.
\<close>

record 'a ll_entry =
  lle_data :: "'a option"
  lle_next :: "nat option"

record ll =
  ll_size :: u32
  ll_head :: "nat option"
  ll_tail :: "nat option"

type_synonym 'a heap = "nat \<rightharpoonup> 'a ll_entry"

definition ll_init :: ll where
  "ll_init = \<lparr>ll_size = 0, ll_head = None, ll_tail = None\<rparr>"

text \<open>\<open>ll_create\<close>: the header is allocated, then initialised.\<close>

definition ll_create :: "bool \<Rightarrow> ll option" where
  "ll_create ok = (if ok then Some ll_init else None)"

text \<open>The loop of \<open>ll_walk\<close>: \<open>None\<close> when it does not end or leaves the store.\<close>

partial_function (option) ll_walk_from ::
  "('a option \<Rightarrow> 's \<Rightarrow> 's) \<Rightarrow> 'a heap \<Rightarrow> nat option \<Rightarrow> 's \<Rightarrow> 's option" where
  "ll_walk_from callback h entry s =
     (case entry of
        None \<Rightarrow> Some s
      | Some a \<Rightarrow>
          (case h a of
             None \<Rightarrow> None
           | Some e \<Rightarrow> ll_walk_from callback h (lle_next e) (callback (lle_data e) s)))"

definition ll_walk :: "('a option \<Rightarrow> 's \<Rightarrow> 's) \<Rightarrow> 'a heap \<Rightarrow> ll \<Rightarrow> 's \<Rightarrow> 's option" where
  "ll_walk callback h l s = ll_walk_from callback h (ll_head l) s"

text \<open>
  The loop of \<open>ll_clear\<close>: it hands each data pointer to \<open>destroy\<close> (here: to a list, in the
  order of the calls) and frees the entry, having read its successor before.
\<close>

partial_function (option) ll_clear_from ::
  "bool \<Rightarrow> 'a heap \<Rightarrow> nat option \<Rightarrow> 'a option list \<Rightarrow> ('a option list \<times> 'a heap) option" where
  "ll_clear_from destroy h entry ds =
     (case entry of
        None \<Rightarrow> Some (ds, h)
      | Some a \<Rightarrow>
          (case h a of
             None \<Rightarrow> None
           | Some e \<Rightarrow>
               ll_clear_from destroy (h(a := None)) (lle_next e)
                 (if destroy then ds @ [lle_data e] else ds)))"

definition ll_clear ::
  "bool \<Rightarrow> 'a heap \<Rightarrow> ll \<Rightarrow> ('a option list \<times> 'a heap \<times> ll) option" where
  "ll_clear destroy h l =
     do { (ds, h') \<leftarrow> ll_clear_from destroy h (ll_head l) []; Some (ds, h', ll_init) }"

definition ll_delete :: "bool \<Rightarrow> 'a heap \<Rightarrow> ll \<Rightarrow> ('a option list \<times> 'a heap) option" where
  "ll_delete destroy h l = do { (ds, h', l') \<leftarrow> ll_clear destroy h l; Some (ds, h') }"

definition ll_insert_head ::
  "nat option \<Rightarrow> 'a option \<Rightarrow> 'a heap \<Rightarrow> ll \<Rightarrow> int \<times> 'a heap \<times> ll" where
  "ll_insert_head new data h l =
     (case new of
        None \<Rightarrow> (-1, h, l)
      | Some a \<Rightarrow>
          (let h1 = h(a \<mapsto> \<lparr>lle_data = data, lle_next = ll_head l\<rparr>);
               l1 = l\<lparr>ll_head := Some a\<rparr>;
               l2 = (if ll_tail l1 = None then l1\<lparr>ll_tail := ll_head l1\<rparr> else l1);
               l3 = l2\<lparr>ll_size := ll_size l2 + 1\<rparr>
           in (sint (ll_size l3), h1, l3)))"

definition ll_insert_tail ::
  "nat option \<Rightarrow> 'a option \<Rightarrow> 'a heap \<Rightarrow> ll \<Rightarrow> (int \<times> 'a heap \<times> ll) option" where
  "ll_insert_tail new data h l =
     (case new of
        None \<Rightarrow> Some (-1, h, l)
      | Some a \<Rightarrow>
          (let h1 = h(a \<mapsto> \<lparr>lle_data = data, lle_next = None\<rparr>) in
           do {
             h2 \<leftarrow> (case ll_tail l of
                       None \<Rightarrow> Some h1
                     | Some t \<Rightarrow>
                         (case h1 t of
                            None \<Rightarrow> None
                          | Some e \<Rightarrow> Some (h1(t \<mapsto> e\<lparr>lle_next := Some a\<rparr>))));
             let l1 = l\<lparr>ll_tail := Some a\<rparr>;
             let l2 = (if ll_head l1 = None then l1\<lparr>ll_head := ll_tail l1\<rparr> else l1);
             let l3 = l2\<lparr>ll_size := ll_size l2 + 1\<rparr>;
             Some (sint (ll_size l3), h2, l3) }))"

definition ll_remove_head :: "'a heap \<Rightarrow> ll \<Rightarrow> ('a option \<times> 'a heap \<times> ll) option" where
  "ll_remove_head h l =
     (if ll_size l = 0 then Some (None, h, l)
      else do {
        a \<leftarrow> ll_head l;
        e \<leftarrow> h a;
        let l1 = l\<lparr>ll_head := lle_next e\<rparr>;
        let l2 = (if ll_head l1 = None then l1\<lparr>ll_tail := None\<rparr> else l1);
        Some (lle_data e, h(a := None), l2\<lparr>ll_size := ll_size l2 - 1\<rparr>) })"

text \<open>\<open>LL_START\<close> is the head; \<open>ll_next\<close> returns the data and advances the position.\<close>

definition ll_next :: "'a heap \<Rightarrow> nat option \<Rightarrow> ('a option \<times> nat option) option" where
  "ll_next h position =
     (case position of
        None \<Rightarrow> Some (None, None)
      | Some a \<Rightarrow> (case h a of None \<Rightarrow> None | Some e \<Rightarrow> Some (lle_data e, lle_next e)))"

text \<open>
  The iteration the callers write, \<open>while ((v = ll_next(ll, &pos)))\<close>: it stops at the first
  \<open>NULL\<close>, the end of the list or an entry without data.
\<close>

partial_function (option) ll_items :: "'a heap \<Rightarrow> nat option \<Rightarrow> 'a list \<Rightarrow> 'a list option" where
  "ll_items h pos acc =
     (case ll_next h pos of
        None \<Rightarrow> None
      | Some (v, pos') \<Rightarrow>
          (case v of None \<Rightarrow> Some acc | Some x \<Rightarrow> ll_items h pos' (acc @ [x])))"

subsection \<open>The list a store represents\<close>

fun ll_path :: "'a heap \<Rightarrow> nat option \<Rightarrow> nat list \<Rightarrow> bool" where
  "ll_path h p [] \<longleftrightarrow> p = None"
| "ll_path h p (a # as) \<longleftrightarrow> p = Some a \<and> (\<exists>e. h a = Some e \<and> ll_path h (lle_next e) as)"

definition cell_data :: "'a heap \<Rightarrow> nat \<Rightarrow> 'a option" where
  "cell_data h a = (case h a of None \<Rightarrow> None | Some e \<Rightarrow> lle_data e)"

definition ll_rep :: "'a heap \<Rightarrow> ll \<Rightarrow> nat list \<Rightarrow> bool" where
  "ll_rep h l as \<longleftrightarrow>
     ll_path h (ll_head l) as \<and> distinct as \<and>
     ll_tail l = (if as = [] then None else Some (last as)) \<and>
     length as < 2 ^ 32 \<and> ll_size l = of_nat (length as)"

definition ll_list :: "'a heap \<Rightarrow> nat list \<Rightarrow> 'a option list" where
  "ll_list h as = map (cell_data h) as"

lemma ll_path_upd [simp]: "a \<notin> set as \<Longrightarrow> ll_path (h(a := c)) p as = ll_path h p as"
  by (induction as arbitrary: p) auto

lemma cell_data_upd [simp]: "a \<noteq> b \<Longrightarrow> cell_data (h(a := c)) b = cell_data h b"
  by (simp add: cell_data_def)

lemma ll_list_upd [simp]: "a \<notin> set as \<Longrightarrow> ll_list (h(a := c)) as = ll_list h as"
  by (auto simp: ll_list_def cell_data_def)

lemma ll_path_mapped: "ll_path h p as \<Longrightarrow> a \<in> set as \<Longrightarrow> h a \<noteq> None"
  by (induction as arbitrary: p) auto

lemma ll_path_snoc:
  assumes "ll_path h p (as @ [t])" and "distinct (as @ [t])" and "h t = Some e"
    and "a \<notin> set (as @ [t])"
  shows "ll_path (h(a \<mapsto> \<lparr>lle_data = d, lle_next = None\<rparr>, t \<mapsto> e\<lparr>lle_next := Some a\<rparr>)) p
           (as @ [t, a])"
  using assms by (induction as arbitrary: p) auto

lemma ll_size_0_iff: "ll_rep h l as \<Longrightarrow> ll_size l = 0 \<longleftrightarrow> as = []"
  by (auto simp: ll_rep_def word_of_nat_eq_0_iff dest: nat_dvd_not_less)

subsection \<open>What the operations do\<close>

lemma ll_init_rep: "ll_rep h ll_init []"
  by (simp add: ll_rep_def ll_init_def)

lemma ll_insert_head_rep:
  assumes rep: "ll_rep h l as" and fresh: "h a = None" and room: "Suc (length as) < 2 ^ 32"
  shows "\<exists>n h' l'. ll_insert_head (Some a) d h l = (n, h', l') \<and> ll_rep h' l' (a # as)
           \<and> ll_list h' (a # as) = d # ll_list h as \<and> ll_size l' = of_nat (Suc (length as))"
proof -
  from rep fresh have "a \<notin> set as" by (auto simp: ll_rep_def dest: ll_path_mapped)
  with rep room show ?thesis
    by (auto simp: ll_insert_head_def ll_rep_def Let_def ll_list_def cell_data_def)
qed

lemma ll_insert_tail_rep:
  assumes rep: "ll_rep h l as" and fresh: "h a = None" and room: "Suc (length as) < 2 ^ 32"
  shows "\<exists>n h' l'. ll_insert_tail (Some a) d h l = Some (n, h', l') \<and> ll_rep h' l' (as @ [a])
           \<and> ll_list h' (as @ [a]) = ll_list h as @ [d] \<and> ll_size l' = of_nat (Suc (length as))"
proof (cases as rule: rev_cases)
  case Nil
  with rep room show ?thesis
    by (auto simp: ll_insert_tail_def ll_rep_def Let_def ll_list_def cell_data_def)
next
  case (snoc bs t)
  from rep fresh have new: "a \<notin> set as" by (auto simp: ll_rep_def dest: ll_path_mapped)
  from rep snoc obtain e where e: "h t = Some e"
    by (auto simp: ll_rep_def dest: ll_path_mapped [where a = t])
  let ?h = "h(a \<mapsto> \<lparr>lle_data = d, lle_next = None\<rparr>, t \<mapsto> e\<lparr>lle_next := Some a\<rparr>)"
  have path: "ll_path ?h (ll_head l) (bs @ [t, a])"
    using rep snoc e new by (intro ll_path_snoc) (auto simp: ll_rep_def)
  have head: "ll_head l \<noteq> None" using rep snoc by (cases bs) (auto simp: ll_rep_def)
  have "ll_insert_tail (Some a) d h l =
      Some (sint (ll_size l + 1), ?h, l\<lparr>ll_tail := Some a, ll_size := ll_size l + 1\<rparr>)"
    using rep snoc e new head by (auto simp: ll_insert_tail_def ll_rep_def Let_def)
  moreover have "ll_rep ?h (l\<lparr>ll_tail := Some a, ll_size := ll_size l + 1\<rparr>) (as @ [a])"
    using path rep snoc new room by (auto simp: ll_rep_def)
  moreover have "ll_list ?h (as @ [a]) = ll_list h as @ [d]"
    using new e snoc by (auto simp: ll_list_def cell_data_def)
  ultimately show ?thesis using rep by (auto simp: ll_rep_def)
qed

lemma ll_remove_head_rep:
  assumes rep: "ll_rep h l (a # as)"
  shows "\<exists>h' l'. ll_remove_head h l = Some (cell_data h a, h', l') \<and> ll_rep h' l' as
           \<and> ll_list h' as = ll_list h as \<and> h' = h(a := None)"
proof -
  from rep obtain e where e: "h a = Some e" and path: "ll_path h (lle_next e) as"
    and head: "ll_head l = Some a" by (auto simp: ll_rep_def)
  have size: "ll_size l \<noteq> 0" using ll_size_0_iff [OF rep] by simp
  have "ll_head (l\<lparr>ll_head := lle_next e\<rparr>) = None \<longleftrightarrow> as = []" using path by (cases as) auto
  with rep e path head size show ?thesis
    by (auto simp: ll_remove_head_def ll_rep_def Let_def cell_data_def)
qed

lemma ll_remove_head_empty: "ll_rep h l [] \<Longrightarrow> ll_remove_head h l = Some (None, h, l)"
  by (simp add: ll_remove_head_def ll_rep_def)

lemma ll_walk_from_path:
  "ll_path h p as \<Longrightarrow> ll_walk_from f h p s = Some (fold f (ll_list h as) s)"
  by (induction as arbitrary: p s)
    (auto simp: ll_walk_from.simps ll_list_def cell_data_def)

lemma ll_clear_from_path:
  "ll_path h p as \<Longrightarrow> distinct as \<Longrightarrow>
   ll_clear_from b h p ds = Some (ds @ (if b then ll_list h as else []), h |` (- set as))"
proof (induction as arbitrary: h p ds)
  case Nil
  then show ?case by (simp add: ll_clear_from.simps ll_list_def)
next
  case (Cons a as)
  then obtain e where e: "h a = Some e" "p = Some a" "ll_path h (lle_next e) as" by auto
  have restr: "(h(a := None)) |` (- set as) = h |` (- set (a # as))"
    by (auto simp: restrict_map_def)
  have "ll_clear_from b h p ds =
      ll_clear_from b (h(a := None)) (lle_next e) (if b then ds @ [lle_data e] else ds)"
    using e by (subst ll_clear_from.simps) simp
  also have "\<dots> = Some ((if b then ds @ [lle_data e] else ds) @
      (if b then ll_list (h(a := None)) as else []), (h(a := None)) |` (- set as))"
    using Cons.prems e by (intro Cons.IH ll_path_upd [THEN iffD2]) simp_all
  also have "\<dots> = Some (ds @ (if b then ll_list h (a # as) else []), h |` (- set (a # as)))"
    using Cons.prems e restr by (simp add: ll_list_def cell_data_def)
  finally show ?case .
qed

lemma ll_clear_rep:
  assumes "ll_rep h l as"
  shows "ll_clear b h l = Some (if b then ll_list h as else [], h |` (- set as), ll_init)"
  using assms ll_clear_from_path [of h "ll_head l" as b "[]"]
  by (simp add: ll_clear_def ll_rep_def)

text \<open>The callers' loop sees the data up to the first \<open>NULL\<close>.\<close>

definition until_null :: "'a option list \<Rightarrow> 'a list" where
  "until_null xs = map the (takeWhile (\<lambda>x. x \<noteq> None) xs)"

lemma until_null_simps [simp]:
  "until_null [] = []" "until_null (None # xs) = []" "until_null (Some x # xs) = x # until_null xs"
  by (simp_all add: until_null_def)

lemma until_null_Some [simp]: "until_null (map Some xs) = xs"
  by (induction xs) simp_all

lemma ll_items_path: "ll_path h p as \<Longrightarrow> ll_items h p acc = Some (acc @ until_null (ll_list h as))"
proof (induction as arbitrary: p acc)
  case Nil
  then show ?case by (simp add: ll_items.simps ll_next_def ll_list_def)
next
  case (Cons a as)
  then obtain e where e: "h a = Some e" "p = Some a" "ll_path h (lle_next e) as" by auto
  show ?case
  proof (cases "lle_data e")
    case None
    with e show ?thesis by (simp add: ll_items.simps [of h "Some a"] ll_next_def ll_list_def cell_data_def)
  next
    case (Some x)
    with e Cons.IH [of "lle_next e" "acc @ [x]"] show ?thesis
      by (simp add: ll_items.simps [of h "Some a"] ll_next_def ll_list_def cell_data_def)
  qed
qed

subsection \<open>The double-ended interface\<close>

text \<open>
  What the rest of the program relies on: \<open>LL_INSERT\<close>/\<open>LL_ENQUEUE\<close> (\<open>ll_insert_tail\<close>),
  \<open>LL_PUSH\<close> (\<open>ll_insert_head\<close>) and \<open>LL_DEQUEUE\<close>/\<open>LL_POP\<close> (\<open>ll_remove_head\<close>) on a state
  that represents a sequence. \<open>ok s a\<close> says that the cell \<open>a\<close> is a fresh result of the
  allocator and that the 32-bit size has room.
\<close>

locale deque_rep =
  fixes seq :: "'s \<Rightarrow> 'x list \<Rightarrow> bool"
    and ok :: "'s \<Rightarrow> nat \<Rightarrow> bool"
    and push :: "nat \<Rightarrow> 'x \<Rightarrow> 's \<Rightarrow> 's option"
    and enqueue :: "nat \<Rightarrow> 'x \<Rightarrow> 's \<Rightarrow> 's option"
    and dequeue :: "'s \<Rightarrow> ('x \<times> 's) option"
  assumes push: "seq s xs \<Longrightarrow> ok s a \<Longrightarrow> \<exists>s'. push a x s = Some s' \<and> seq s' (x # xs)"
    and enqueue: "seq s xs \<Longrightarrow> ok s a \<Longrightarrow> \<exists>s'. enqueue a x s = Some s' \<and> seq s' (xs @ [x])"
    and dequeue: "seq s (x # xs) \<Longrightarrow> \<exists>s'. dequeue s = Some (x, s') \<and> seq s' xs"
begin

primrec drain :: "nat \<Rightarrow> 's \<Rightarrow> ('x list \<times> 's) option" where
  "drain 0 s = Some ([], s)"
| "drain (Suc n) s =
     do { (x, s1) \<leftarrow> dequeue s; (xs, s2) \<leftarrow> drain n s1; Some (x # xs, s2) }"

lemma drain_prefix: "seq s (xs @ ys) \<Longrightarrow> \<exists>s'. drain (length xs) s = Some (xs, s') \<and> seq s' ys"
proof (induction xs arbitrary: s)
  case Nil
  then show ?case by simp
next
  case (Cons x xs)
  then obtain s1 where "dequeue s = Some (x, s1)" and "seq s1 (xs @ ys)"
    using dequeue [of s x "xs @ ys"] by auto
  moreover from this(2) obtain s2 where "drain (length xs) s1 = Some (xs, s2)" and "seq s2 ys"
    using Cons.IH by blast
  ultimately show ?case by simp
qed

text \<open>First in, first out: an element enqueued behind \<open>xs\<close> comes out after exactly \<open>xs\<close>.\<close>

lemma fifo:
  assumes "seq s xs" and "ok s a"
  shows "\<exists>s1 s2. enqueue a x s = Some s1 \<and> drain (Suc (length xs)) s1 = Some (xs @ [x], s2) \<and> seq s2 []"
proof -
  from enqueue [OF assms] obtain s1 where s1: "enqueue a x s = Some s1" "seq s1 ((xs @ [x]) @ [])"
    by auto
  from drain_prefix [OF this(2)] s1(1) show ?thesis by auto
qed

text \<open>Last in, first out for \<open>LL_PUSH\<close> and \<open>LL_POP\<close>.\<close>

lemma lifo:
  assumes "seq s xs" and "ok s a"
  shows "\<exists>s1 s2. push a x s = Some s1 \<and> dequeue s1 = Some (x, s2) \<and> seq s2 xs"
  using push [OF assms] dequeue by meson

end

definition ll_seq :: "'a heap \<times> ll \<Rightarrow> 'a option list \<Rightarrow> bool" where
  "ll_seq s xs \<longleftrightarrow> (\<exists>as. ll_rep (fst s) (snd s) as \<and> ll_list (fst s) as = xs)"

definition ll_room :: "'a heap \<times> ll \<Rightarrow> nat \<Rightarrow> bool" where
  "ll_room s a \<longleftrightarrow> fst s a = None \<and> unat (ll_size (snd s)) < 2 ^ 32 - 1"

definition LL_PUSH :: "nat \<Rightarrow> 'a option \<Rightarrow> 'a heap \<times> ll \<Rightarrow> ('a heap \<times> ll) option" where
  "LL_PUSH a x s = Some (snd (ll_insert_head (Some a) x (fst s) (snd s)))"

definition LL_ENQUEUE :: "nat \<Rightarrow> 'a option \<Rightarrow> 'a heap \<times> ll \<Rightarrow> ('a heap \<times> ll) option" where
  "LL_ENQUEUE a x s = map_option snd (ll_insert_tail (Some a) x (fst s) (snd s))"

definition LL_DEQUEUE :: "'a heap \<times> ll \<Rightarrow> ('a option \<times> 'a heap \<times> ll) option" where
  "LL_DEQUEUE s = ll_remove_head (fst s) (snd s)"

lemma ll_room_length:
  "ll_rep h l as \<Longrightarrow> ll_room (h, l) a \<Longrightarrow> h a = None \<and> Suc (length as) < 2 ^ 32"
  by (auto simp: ll_room_def ll_rep_def unsigned_of_nat take_bit_nat_eq_self)

interpretation ll: deque_rep ll_seq ll_room LL_PUSH LL_ENQUEUE LL_DEQUEUE
proof
  fix s :: "'a heap \<times> ll" and xs :: "'a option list" and a x
  assume seq: "ll_seq s xs" and room: "ll_room s a"
  then obtain as where rep: "ll_rep (fst s) (snd s) as" "ll_list (fst s) as = xs"
    by (auto simp: ll_seq_def)
  from ll_room_length [OF rep(1)] room have fresh: "fst s a = None" "Suc (length as) < 2 ^ 32"
    by auto
  show "\<exists>s'. LL_PUSH a x s = Some s' \<and> ll_seq s' (x # xs)"
    using ll_insert_head_rep [OF rep(1) fresh, of x] rep(2)
    by (fastforce simp: LL_PUSH_def ll_seq_def)
  show "\<exists>s'. LL_ENQUEUE a x s = Some s' \<and> ll_seq s' (xs @ [x])"
    using ll_insert_tail_rep [OF rep(1) fresh, of x] rep(2)
    by (fastforce simp: LL_ENQUEUE_def ll_seq_def)
next
  fix s :: "'a heap \<times> ll" and xs x
  assume "ll_seq s (x # xs)"
  then obtain a as where rep: "ll_rep (fst s) (snd s) (a # as)"
    and x: "x = cell_data (fst s) a" and xs: "xs = ll_list (fst s) as"
    by (auto simp: ll_seq_def ll_list_def)
  from ll_remove_head_rep [OF rep] show "\<exists>s'. LL_DEQUEUE s = Some (x, s') \<and> ll_seq s' xs"
    by (fastforce simp: LL_DEQUEUE_def ll_seq_def x xs)
qed

end
