(* ===== verification/Base64.thy ===== *)
theory Base64
  imports Mopher_Prelude
begin

section \<open>Base64 (base64.c)\<close>

text \<open>
  The encoder and decoder of \<open>src/src/base64.c\<close>. Input strings are C strings, buffers are the
  bytes written to them, and a \<open>NULL\<close> argument is \<open>None\<close>. The decoder indexes its table with a
  signed character and counts trailing pad characters without a lower bound: where C would read
  outside an array the model is \<open>None\<close>.
\<close>

unbundle bit_operations_syntax

definition encoder :: string where
  "encoder = ''ABCDEFGHIJKLMNOPQRSTUVWXYZabcdefghijklmnopqrstuvwxyz0123456789+/''"

text \<open>\<open>base64_init_decoder\<close>: the table holds -1 but for the characters of \<open>encoder\<close>.\<close>

definition base64_init_decoder :: "int list" where
  "base64_init_decoder =
     foldl (\<lambda>t i. t[of_char (encoder ! i) := int i]) (replicate 256 (-1)) [0..<64]"

definition base64_encsize :: "int \<Rightarrow> int" where
  "base64_encsize sz = wrap32 (4 * ((sz + 2) div 3))"

text \<open>One round of the loop of \<open>base64_encode\<close>: three bytes make four characters.\<close>

definition enc_triple :: "byte \<Rightarrow> byte \<Rightarrow> byte \<Rightarrow> u32" where
  "enc_triple a b c = push_bit 16 (ucast a) + push_bit 8 (ucast b) + ucast c"

definition enc_round :: "byte \<Rightarrow> byte \<Rightarrow> byte \<Rightarrow> string" where
  "enc_round a b c =
     (let triple = enc_triple a b c in
      [encoder ! unat (drop_bit 18 triple AND 0x3F), encoder ! unat (drop_bit 12 triple AND 0x3F),
       encoder ! unat (drop_bit 6 triple AND 0x3F), encoder ! unat (triple AND 0x3F)])"

fun enc_loop :: "byte list \<Rightarrow> string" where
  "enc_loop [] = []"
| "enc_loop [a] = enc_round a 0 0"
| "enc_loop [a, b] = enc_round a b 0"
| "enc_loop (a # b # c # rest) = enc_round a b c @ enc_loop rest"

text \<open>The \<open>switch\<close> at the end: pad characters over the last one or two.\<close>

definition enc_pad :: "nat \<Rightarrow> string \<Rightarrow> string" where
  "enc_pad slen dest =
     (if slen mod 3 = 1 then dest[length dest - 2 := CHR ''='', length dest - 1 := CHR ''='']
      else if slen mod 3 = 2 then dest[length dest - 1 := CHR ''='']
      else dest)"

text \<open>The return value, and the string the destination holds after it (if it was written).\<close>

definition base64_encode :: "bool \<Rightarrow> int \<Rightarrow> byte list option \<Rightarrow> int \<times> string option" where
  "base64_encode dest sz src =
     (case src of
        None \<Rightarrow> (-1, None)
      | Some bs \<Rightarrow>
          (let dlen = base64_encsize (int (length bs)) in
           if \<not> dest then (-1, None)
           else if dlen + 1 > sz then (-1, None)
           else if bs = [] then (if sz > 0 then (0, Some []) else (-1, None))
           else (dlen, Some (enc_pad (length bs) (enc_loop bs)))))"

definition base64_enc_malloc :: "mem \<Rightarrow> byte list option \<Rightarrow> string option \<times> mem" where
  "base64_enc_malloc mem src =
     (let slen = (case src of None \<Rightarrow> 0 | Some bs \<Rightarrow> int (length bs));
          sz = base64_encsize slen + 1;
          (ok, mem1) = malloc mem in
      if \<not> ok then (None, mem1)
      else (case base64_encode True sz src of
              (r, buffer) \<Rightarrow> (if r = -1 then None else buffer, mem1)))"

text \<open>The trailing pad characters; a string of pad characters only makes C read before it.\<close>

fun pads :: "string \<Rightarrow> nat option" where
  "pads [] = None"
| "pads (c # cs) = (if c = CHR ''='' then map_option Suc (pads cs) else Some 0)"

definition padlen :: "string \<Rightarrow> nat option" where
  "padlen src = pads (rev src)"

definition base64_decsize :: "string option \<Rightarrow> int option" where
  "base64_decsize src =
     (case src of
        None \<Rightarrow> Some 0
      | Some s \<Rightarrow>
          do { i \<leftarrow> padlen s;
               Some (int (length s) div 4 * 3 - (if i \<ge> 2 then 2 else int i)) })"

text \<open>\<open>decoder[(int) c]\<close> as an \<open>uint32_t\<close>: -1 becomes the largest number.\<close>

definition decode_char :: "char \<Rightarrow> u32 option" where
  "decode_char c =
     (if of_char c < (128 :: nat) then Some (of_int (base64_init_decoder ! of_char c)) else None)"

definition dec_triple :: "u32 \<Rightarrow> u32 \<Rightarrow> u32 \<Rightarrow> u32 \<Rightarrow> u32" where
  "dec_triple a b c d = push_bit 18 a + push_bit 12 b + push_bit 6 c + d"

definition dec_bytes :: "u32 \<Rightarrow> byte list" where
  "dec_bytes triple =
     [ucast (drop_bit 16 triple AND 0xFF), ucast (drop_bit 8 triple AND 0xFF), ucast (triple AND 0xFF)]"

text \<open>
  The loop of \<open>base64_decode\<close> over the characters that remain; \<open>Inl ()\<close> is the early return of
  -1. The last quartet may end in pad characters. Bytes beyond the buffer are not written.
\<close>

fun dec_loop :: "nat \<Rightarrow> byte list \<Rightarrow> string \<Rightarrow> (unit + byte list) option" where
  "dec_loop sz dest (w # x # y # z # rest) =
     do {
       a \<leftarrow> decode_char w;
       b \<leftarrow> decode_char x;
       c0 \<leftarrow> decode_char y;
       d0 \<leftarrow> decode_char z;
       let padded = (rest = [] \<and> z = CHR ''='');
       let d = (if padded then 0 else d0);
       let c = (if padded \<and> y = CHR ''='' then 0 else c0);
       if a = -1 \<or> b = -1 \<or> c = -1 \<or> d = -1 then Some (Inl ())
       else dec_loop sz (take sz (dest @ dec_bytes (dec_triple a b c d))) rest }"
| "dec_loop sz dest _ = Some (Inr dest)"

definition base64_decode :: "bool \<Rightarrow> nat \<Rightarrow> string option \<Rightarrow> (int \<times> byte list) option" where
  "base64_decode dest sz src =
     (case src of
        None \<Rightarrow> Some (-1, [])
      | Some s \<Rightarrow>
          if \<not> dest then Some (-1, [])
          else if s = [] then (if sz > 0 then Some (0, [0]) else Some (-1, []))
          else
            do {
              p \<leftarrow> padlen s;
              let slen = (if p > 2 then length s - (p - 2) else length s);
              if slen mod 4 \<noteq> 0 then Some (-1, [])
              else
                do {
                  dlen \<leftarrow> base64_decsize src;
                  if dlen > int sz then Some (-1, [])
                  else
                    do {
                      r \<leftarrow> dec_loop sz [] (take slen s);
                      Some (case r of Inl _ \<Rightarrow> (-1, []) | Inr out \<Rightarrow> (dlen, out)) } } })"

text \<open>The buffer and the size \<open>base64_dec_malloc\<close> returns; the buffer is \<open>NULL\<close> on an error.\<close>

definition base64_dec_malloc :: "mem \<Rightarrow> string option \<Rightarrow> (byte list option \<times> int \<times> mem) option" where
  "base64_dec_malloc mem src =
     do {
       n \<leftarrow> base64_decsize src;
       let sz = n + 1;
       if sz < 0 then Some (None, sz, mem)
       else
         (let (ok, mem1) = malloc mem in
          if \<not> ok then Some (None, sz, mem1)
          else
            do {
              (r, out) \<leftarrow> base64_decode True (nat sz) src;
              Some (if r = -1 then None else Some out, r, mem1) }) }"

subsection \<open>Characters and sextets\<close>

lemma foldl_update_length [simp]: "length (foldl (\<lambda>t i. t[f i := g i]) t xs) = length t"
  by (induction xs arbitrary: t) auto

lemma foldl_update_other: "n \<notin> f ` set xs \<Longrightarrow> foldl (\<lambda>t i. t[f i := g i]) t xs ! n = t ! n"
  by (induction xs arbitrary: t) auto

lemma foldl_update_nth:
  "k \<in> set xs \<Longrightarrow> inj_on f (set xs) \<Longrightarrow> f k < length t \<Longrightarrow>
   foldl (\<lambda>t i. t[f i := g i]) t xs ! f k = g k"
proof (induction xs rule: rev_induct)
  case (snoc x xs)
  then show ?case by (cases "k = x") (auto simp: inj_on_def)
qed simp

lemma length_encoder: "length encoder = 64"
  by (simp add: encoder_def)

lemma distinct_encoder: "distinct encoder"
  by (simp add: encoder_def)

lemma encoder_ascii: "list_all (\<lambda>c. of_char c < (128 :: nat) \<and> c \<noteq> CHR ''='') encoder"
  by (simp add: encoder_def)

lemma encoder_nth:
  assumes "k < 64"
  shows "of_char (encoder ! k) < (128 :: nat)" and "encoder ! k \<noteq> CHR ''=''"
  using encoder_ascii assms by (auto simp: list_all_length length_encoder)

lemma of_char_nat_inj: "(of_char c :: nat) = of_char d \<longleftrightarrow> c = d"
  by (rule of_char_eq_iff)

lemma decoder_nth:
  assumes "k < 64"
  shows "base64_init_decoder ! of_char (encoder ! k) = int k"
proof -
  have "inj_on (\<lambda>i. of_char (encoder ! i) :: nat) (set [0..<64])"
    using distinct_encoder by (auto simp: inj_on_def of_char_nat_inj nth_eq_iff_index_eq length_encoder)
  moreover have "of_char (encoder ! k) < length (replicate 256 (-1 :: int))"
    using encoder_nth(1) [OF assms] by simp
  moreover have "k \<in> set [0..<64]" using assms by simp
  ultimately show ?thesis unfolding base64_init_decoder_def by (intro foldl_update_nth)
qed

lemma decode_encoder: "k < 64 \<Longrightarrow> decode_char (encoder ! k) = Some (of_nat k)"
  by (simp add: decode_char_def encoder_nth decoder_nth)

lemma decode_other:
  assumes "of_char c < (128 :: nat)" and "c \<notin> set encoder"
  shows "decode_char c = Some (-1)"
proof -
  have "of_char c \<notin> (\<lambda>i. of_char (encoder ! i) :: nat) ` set [0..<64]"
    using assms(2) by (auto simp: of_char_nat_inj length_encoder)
  then have "base64_init_decoder ! of_char c = -1"
    unfolding base64_init_decoder_def using assms(1) by (subst foldl_update_other) auto
  with assms(1) show ?thesis by (simp add: decode_char_def)
qed

lemma decode_pad: "decode_char (CHR ''='') = Some (-1)"
  by (rule decode_other) (simp_all add: encoder_def)

subsection \<open>Three bytes and four sextets\<close>

lemma unat_byte_less: "unat (b :: byte) < 256"
proof -
  have "unat b < 2 ^ LENGTH(8)" by (rule unsigned_less)
  then show ?thesis by simp
qed

lemma unat_enc_triple: "unat (enc_triple a b c) = unat a * 65536 + unat b * 256 + unat c"
proof -
  have "unat a < 256" "unat b < 256" "unat c < 256" by (rule unat_byte_less)+
  then show ?thesis
    by (simp add: enc_triple_def unat_word_ariths push_bit_eq_mult unsigned_ucast_eq take_bit_nat_def)
qed

lemma unat_sextet: "unat (drop_bit n t AND 0x3F) = unat t div 2 ^ n mod 64" for t :: u32
proof -
  have "drop_bit n t AND 0x3F = take_bit 6 (drop_bit n t)"
    by (simp add: take_bit_eq_mask mask_eq_exp_minus_1)
  moreover have "unat (take_bit 6 (drop_bit n t)) = take_bit 6 (drop_bit n (unat t))"
    by (simp only: unsigned_take_bit_eq unat_drop_bit_eq)
  ultimately show ?thesis by (simp add: take_bit_eq_mod drop_bit_eq_div)
qed

lemma sextets_join:
  fixes t :: nat
  assumes "t < 2 ^ 24"
  shows "t div 2 ^ 18 mod 64 * 2 ^ 18 + t div 2 ^ 12 mod 64 * 2 ^ 12 + t div 2 ^ 6 mod 64 * 2 ^ 6 + t mod 64 = t"
proof -
  have "t = t div 64 * 64 + t mod 64" by simp
  moreover have "t div 64 = t div 4096 * 64 + t div 64 mod 64"
    using div_mult2_eq [of t 64 64] by simp
  moreover have "t div 4096 = t div 262144 * 64 + t div 4096 mod 64"
    using div_mult2_eq [of t 4096 64] by simp
  moreover have "t div 262144 mod 64 = t div 262144" using assms by simp
  moreover have "(2::nat) ^ 18 = 262144" "(2::nat) ^ 12 = 4096" "(2::nat) ^ 6 = 64" by simp_all
  ultimately show ?thesis by (simp only:)
qed

definition sextet :: "nat \<Rightarrow> u32 \<Rightarrow> nat" where
  "sextet n t = unat (drop_bit n t AND 0x3F)"

lemma sextet_less [simp]: "sextet n t < 64"
  by (simp add: sextet_def unat_sextet)

lemma of_nat_sextet_ne: "(of_nat (sextet n t) :: u32) \<noteq> -1"
proof
  assume "(of_nat (sextet n t) :: u32) = -1"
  then have "unat (of_nat (sextet n t) :: u32) = unat (-1 :: u32)" by simp
  moreover have "unat (of_nat (sextet n t) :: u32) = sextet n t"
  proof -
    have "sextet n t < 2 ^ LENGTH(32)" by (rule less_trans [OF sextet_less]) simp
    then show ?thesis by (simp only: unsigned_of_nat take_bit_nat_eq_self of_nat_id)
  qed
  moreover have "unat (-1 :: u32) = 4294967295" by (simp add: unsigned_minus_1_eq_mask mask_eq_exp_minus_1)
  ultimately show False using sextet_less [of n t] by linarith
qed

lemma enc_triple_less: "unat (enc_triple a b c) < 2 ^ 24"
proof -
  have "unat a < 256" "unat b < 256" "unat c < 256" by (rule unat_byte_less)+
  then show ?thesis unfolding unat_enc_triple by simp
qed

lemma dec_triple_sextets:
  assumes "unat t < 2 ^ 24"
  shows "dec_triple (of_nat (sextet 18 t)) (of_nat (sextet 12 t)) (of_nat (sextet 6 t)) (of_nat (sextet 0 t)) = t"
proof -
  have "dec_triple (of_nat (sextet 18 t)) (of_nat (sextet 12 t)) (of_nat (sextet 6 t)) (of_nat (sextet 0 t)) =
      of_nat (sextet 18 t * 2 ^ 18 + sextet 12 t * 2 ^ 12 + sextet 6 t * 2 ^ 6 + sextet 0 t)"
    by (simp add: dec_triple_def push_bit_eq_mult)
  also have "sextet 18 t * 2 ^ 18 + sextet 12 t * 2 ^ 12 + sextet 6 t * 2 ^ 6 + sextet 0 t = unat t"
    using sextets_join [OF assms] unfolding sextet_def unat_sextet by (simp only: power_0 div_by_1)
  finally show ?thesis by simp
qed

lemma enc_round_sextets:
  "enc_round a b c = map (\<lambda>n. encoder ! sextet n (enc_triple a b c)) [18, 12, 6, 0]"
  by (simp add: enc_round_def Let_def sextet_def)

lemma join_bytes:
  fixes x y z :: nat
  assumes "x < 256" and "y < 256" and "z < 256"
  shows "(x * 65536 + y * 256 + z) div 65536 mod 256 = x"
    and "(x * 65536 + y * 256 + z) div 256 mod 256 = y"
    and "(x * 65536 + y * 256 + z) mod 256 = z"
proof -
  have "(x * 65536 + y * 256 + z) div 256 = x * 256 + y" using assms by simp
  then show "(x * 65536 + y * 256 + z) div 256 mod 256 = y" using assms by simp
  show "(x * 65536 + y * 256 + z) div 65536 mod 256 = x" using assms by simp
  have "x * 65536 + y * 256 + z = z + (x * 256 + y) * 256" by simp
  then show "(x * 65536 + y * 256 + z) mod 256 = z"
    using assms(3) by (simp only: mod_mult_self1 mod_less)
qed

lemma dec_bytes_triple: "dec_bytes (enc_triple a b c) = [a, b, c]"
proof -
  have byte: "ucast (drop_bit n t AND 0xFF) = x" if "unat t div 2 ^ n mod 256 = unat x" for n and t :: u32 and x :: byte
  proof -
    have "drop_bit n t AND 0xFF = take_bit 8 (drop_bit n t)" by (simp add: take_bit_eq_mask mask_eq_exp_minus_1)
    then have "unat (ucast (drop_bit n t AND 0xFF) :: byte) = unat t div 2 ^ n mod 256"
      by (simp only: unsigned_ucast_eq unsigned_take_bit_eq unat_drop_bit_eq)
        (simp add: take_bit_eq_mod drop_bit_eq_div)
    with that show ?thesis by (simp add: word_unat_eq_iff)
  qed
  have "unat a < 256" "unat b < 256" "unat c < 256" by (rule unat_byte_less)+
  from join_bytes [OF this] have "unat (enc_triple a b c) div 2 ^ 16 mod 256 = unat a"
    and "unat (enc_triple a b c) div 2 ^ 8 mod 256 = unat b"
    and "unat (enc_triple a b c) div 2 ^ 0 mod 256 = unat c"
    by (simp_all add: unat_enc_triple)
  from this [THEN byte] show ?thesis by (simp add: dec_bytes_def)
qed

subsection \<open>Padding\<close>

text \<open>The encoded string with its pad characters, by recursion on the bytes.\<close>

fun enc_string :: "byte list \<Rightarrow> string" where
  "enc_string [] = []"
| "enc_string [a] = take 2 (enc_round a 0 0) @ ''==''"
| "enc_string [a, b] = take 3 (enc_round a b 0) @ ''=''"
| "enc_string (a # b # c # rest) = enc_round a b c @ enc_string rest"

lemma length_enc_round [simp]: "length (enc_round a b c) = 4"
  by (simp add: enc_round_def Let_def)

lemma quartets_step: "4 + 4 * ((n + 2) div 3) = 4 * ((n + 3 + 2) div 3)" for n :: nat
  by presburger

lemma length_enc_loop: "length (enc_loop bs) = 4 * ((length bs + 2) div 3)"
proof (induction bs rule: enc_loop.induct)
  case (4 a b c rest)
  then show ?case using quartets_step [of "length rest"] by (simp add: add.commute)
qed simp_all

lemma enc_pad_append:
  "rest \<noteq> [] \<Longrightarrow> enc_pad (length (a # b # c # rest)) (xs @ enc_loop rest) = xs @ enc_pad (length rest) (enc_loop rest)"
proof -
  assume ne: "rest \<noteq> []"
  then have "4 \<le> length (enc_loop rest)" by (cases rest) (simp_all add: length_enc_loop)
  moreover have "length (a # b # c # rest) mod 3 = length rest mod 3"
    by simp
  ultimately show ?thesis by (auto simp: enc_pad_def list_update_append)
qed

lemma enc_string_eq: "enc_pad (length bs) (enc_loop bs) = enc_string bs"
proof (induction bs rule: enc_loop.induct)
  case (4 a b c rest)
  show ?case
  proof (cases "rest = []")
    case True
    then show ?thesis by (simp add: enc_pad_def)
  next
    case False
    with enc_pad_append [OF False, of a b c] 4 show ?thesis by simp
  qed
qed (simp_all add: enc_pad_def enc_round_def Let_def)

lemma length_enc_string: "length (enc_string bs) = 4 * ((length bs + 2) div 3)"
proof (induction bs rule: enc_string.induct)
  case (4 a b c rest)
  then show ?case using quartets_step [of "length rest"] by (simp add: add.commute)
qed simp_all


subsection \<open>Decoding what was encoded\<close>

lemma pads_append: "pads xs = Some n \<Longrightarrow> pads (xs @ ys) = Some n"
  by (induction xs arbitrary: n) (auto split: if_splits)

lemma enc_round_no_pad: "n < 4 \<Longrightarrow> enc_round a b c ! n \<noteq> CHR ''=''"
  unfolding enc_round_sextets by (simp add: encoder_nth less_Suc_eq numeral_eq_Suc) (auto simp: encoder_nth)

lemma enc_roundE:
  obtains w x y z where "enc_round a b c = [w, x, y, z]"
    and "w \<noteq> CHR ''=''" and "x \<noteq> CHR ''=''" and "y \<noteq> CHR ''=''" and "z \<noteq> CHR ''=''"
  by (rule that [of "encoder ! sextet 18 (enc_triple a b c)" "encoder ! sextet 12 (enc_triple a b c)"
        "encoder ! sextet 6 (enc_triple a b c)" "encoder ! sextet 0 (enc_triple a b c)"])
    (simp_all add: enc_round_sextets encoder_nth)

definition pad_count :: "nat \<Rightarrow> nat" where
  "pad_count n = (3 - n mod 3) mod 3"

lemma padlen_enc_string: "bs \<noteq> [] \<Longrightarrow> padlen (enc_string bs) = Some (pad_count (length bs))"
proof (induction bs rule: enc_string.induct)
  case (2 a)
  show ?case by (rule enc_roundE [of a 0 0]) (simp add: padlen_def pad_count_def)
next
  case (3 a b)
  show ?case by (rule enc_roundE [of a b 0]) (simp add: padlen_def pad_count_def)
next
  case (4 a b c rest)
  show ?case
  proof (cases "rest = []")
    case True
    show ?thesis
      by (rule enc_roundE [of a b c]) (simp add: True padlen_def pad_count_def)
  next
    case False
    with 4 have "pads (rev (enc_string rest)) = Some (pad_count (length rest))" by (simp add: padlen_def)
    then show ?thesis by (simp add: padlen_def pads_append) (simp add: pad_count_def)
  qed
qed simp

lemma sextets_padded:
  shows "sextet 0 (enc_triple a b 0) = 0" and "sextet 6 (enc_triple a 0 0) = 0"
proof -
  have "unat a * 65536 + unat b * 256 = (unat a * 1024 + unat b * 4) * 64" by simp
  then have "(unat a * 65536 + unat b * 256) mod 64 = 0" by (simp only: mod_mult_self2_is_0)
  moreover have "sextet 0 (enc_triple a b 0) = (unat a * 65536 + unat b * 256) mod 64"
    unfolding sextet_def unat_sextet unat_enc_triple by simp
  ultimately show "sextet 0 (enc_triple a b 0) = 0" by simp
  have "unat a * 65536 div 64 = unat a * 1024" by simp
  moreover have "unat a * 1024 mod 64 = 0" by simp
  ultimately show "sextet 6 (enc_triple a 0 0) = 0"
    by (simp add: sextet_def unat_sextet unat_enc_triple)
qed

lemma take_take_append: "take n (take n xs @ ys) = take n (xs @ ys)"
  by (simp add: min_def)

lemma replicate_two: "replicate 2 x = [x, x]"
  by (simp add: numeral_2_eq_2)

lemma dec_loop_enc_string:
  "length dest \<le> sz \<Longrightarrow>
   dec_loop sz dest (enc_string bs) = Some (Inr (take sz (dest @ bs @ replicate (pad_count (length bs)) 0)))"
proof (induction bs arbitrary: dest rule: enc_string.induct)
  case (2 a)
  have "dec_triple (of_nat (sextet 18 (enc_triple a 0 0))) (of_nat (sextet 12 (enc_triple a 0 0))) 0 0 =
      enc_triple a 0 0"
    using dec_triple_sextets [OF enc_triple_less [of a 0 0]] by (simp add: sextets_padded)
  then show ?case
    by (simp add: enc_round_sextets decode_encoder decode_pad of_nat_sextet_ne dec_bytes_triple
        pad_count_def replicate_two)
next
  case (3 a b)
  have "dec_triple (of_nat (sextet 18 (enc_triple a b 0))) (of_nat (sextet 12 (enc_triple a b 0)))
        (of_nat (sextet 6 (enc_triple a b 0))) 0 = enc_triple a b 0"
    using dec_triple_sextets [OF enc_triple_less [of a b 0]] by (simp add: sextets_padded)
  then show ?case
    by (simp add: enc_round_sextets decode_encoder decode_pad of_nat_sextet_ne dec_bytes_triple
        pad_count_def replicate_two encoder_nth)
next
  case (4 a b c rest)
  let ?out = "take sz (dest @ [a, b, c])" and ?pad = "replicate (pad_count (length rest)) 0"
  have "dec_loop sz dest (enc_string (a # b # c # rest)) = dec_loop sz ?out (enc_string rest)"
    using dec_triple_sextets [OF enc_triple_less [of a b c]]
    by (simp add: enc_round_sextets decode_encoder of_nat_sextet_ne dec_bytes_triple encoder_nth
        del: take_append)
  also have "\<dots> = Some (Inr (take sz (?out @ rest @ ?pad)))" by (rule "4.IH") simp
  also have "take sz (?out @ rest @ ?pad) = take sz (dest @ (a # b # c # rest) @ ?pad)"
    using take_take_append [of sz "dest @ [a, b, c]" "rest @ ?pad"] by simp
  finally show ?case by (simp add: pad_count_def)
qed (simp add: pad_count_def)


lemma base64_encsize_nat:
  assumes "n < 2 ^ 29"
  shows "base64_encsize (int n) = int (4 * ((n + 2) div 3))"
proof -
  have "int n < 536870912" using assms by simp
  then have "0 \<le> (int n + 2) div 3" and "(int n + 2) div 3 < 536870912" by presburger+
  then have "i32 (4 * ((int n + 2) div 3))" by (simp add: i32_def)
  then show ?thesis by (simp add: base64_encsize_def wrap32_id zdiv_int add.commute)
qed

lemma base64_encode_success:
  assumes "base64_encode True esz (Some bs) = (r, Some s)" and "length bs < 2 ^ 29"
  shows "s = enc_string bs" and "r = int (length s)"
proof -
  have "base64_encode True esz (Some bs) = (r, Some s) \<Longrightarrow> s = enc_string bs \<and> r = int (length (enc_string bs))"
    unfolding length_enc_string enc_string_eq [symmetric]
    by (auto simp: base64_encode_def Let_def base64_encsize_nat [OF assms(2)] enc_pad_def length_enc_loop split: if_splits)
  with assms(1) show "s = enc_string bs" and "r = int (length s)" by auto
qed

lemma pad_count_le: "pad_count n \<le> 2"
  unfolding pad_count_def using mod_less_divisor [of 3 "3 - n mod 3"] by linarith

lemma pad_count_arith: "4 * ((n + 2) div 3) div 4 * 3 = n + pad_count n"
proof -
  have "4 * ((n + 2) div 3) div 4 = (n + 2) div 3" by simp
  moreover have "(n + 2) div 3 * 3 = n + pad_count n"
  proof -
    have "n mod 3 = 0 \<or> n mod 3 = 1 \<or> n mod 3 = 2" by linarith
    moreover have "n = n div 3 * 3 + n mod 3" by simp
    ultimately show ?thesis unfolding pad_count_def by (elim disjE) (simp_all, presburger+)
  qed
  ultimately show ?thesis by simp
qed
lemma base64_decsize_enc_string:
  assumes "bs \<noteq> []"
  shows "base64_decsize (Some (enc_string bs)) = Some (int (length bs))"
proof -
  let ?n = "length bs"
  have "pad_count ?n \<le> 2" by (rule pad_count_le)
  moreover have "int (length (enc_string bs)) div 4 * 3 = int (?n + pad_count ?n)"
    using pad_count_arith [of ?n] 
    by (metis length_enc_string of_nat_mult of_nat_numeral zdiv_int)
  ultimately show ?thesis
    by (auto simp: base64_decsize_def padlen_enc_string [OF assms])
qed

lemma base64_roundtrip_nat:
  assumes "base64_encode True esz (Some bs) = (r, Some s)"
    and "length bs < 2 ^ 29" and "length bs \<le> sz" and "0 < sz"
  shows "r = int (length s) \<and>
    (\<exists>out. base64_decode True sz (Some s) = Some (int (length bs), out) \<and> take (length bs) out = bs)"
proof (cases "bs = []")
  case True
  with assms base64_encode_success [OF assms(1,2)] show ?thesis by (simp add: base64_decode_def)
next
  case False
  let ?p = "pad_count (length bs)"
  have s: "s = enc_string bs" and r: "r = int (length s)"
    using base64_encode_success [OF assms(1,2)] by auto
  have p: "?p \<le> 2" by (rule pad_count_le)
  have len: "length s mod 4 = 0" by (simp add: s length_enc_string)
  have "length s \<noteq> 0" using False by (cases bs) (simp_all add: s length_enc_string)
  then have "s \<noteq> []" by simp
  then have "base64_decode True sz (Some s) =
      Some (int (length bs), take sz (bs @ replicate ?p 0))"
    using p len assms(3) False
    by (simp add: base64_decode_def Let_def s padlen_enc_string base64_decsize_enc_string
        dec_loop_enc_string)
  with r assms(3) show ?thesis by (simp add: min_def)
qed

text \<open>
  C33: base64 round trip. Whatever bytes \<open>base64_encode\<close> accepts (its buffer is large enough and
  the size computation does not overflow), it returns the length of the string it wrote, and
  \<open>base64_decode\<close> of that string into any buffer that holds the bytes returns their number and
  restores them.
\<close>

theorem base64_roundtrip:
  assumes "base64_encode True esz (Some bs) = (r, Some s)"
    and "length bs < 2 ^ 29" and "length bs \<le> sz" and "0 < sz"
  shows "r = int (length s) \<and>
    (\<exists>out. base64_decode True sz (Some s) = Some (int (length bs), out) \<and> take (length bs) out = bs)"
  using assms by (rule base64_roundtrip_nat)

theorem base64_roundtrip_witness:
  "base64_encode True 9 (Some [102, 111, 111, 98]) = (8, Some ''Zm9vYg=='') \<and>
   (\<exists>out. base64_decode True 5 (Some ''Zm9vYg=='') = Some (4, out) \<and> take 4 out = [102, 111, 111, 98])"
proof -
  have enc: "base64_encode True 9 (Some [102, 111, 111, 98]) = (8, Some ''Zm9vYg=='')"
    by (simp add: base64_encode_def enc_round_def encoder_def enc_triple_def base64_encsize_def
        wrap32_def Let_def enc_pad_def)
  have len: "length [102 :: byte, 111, 111, 98] = 4" by simp
  have fits: "4 < (2 :: nat) ^ 29" "4 \<le> (5 :: nat)" "0 < (5 :: nat)" by simp_all
  have n: "int 4 = 4" by (rule of_nat_numeral)
  from base64_roundtrip [OF enc, of 5, unfolded len n, OF fits]
  have "\<exists>out. base64_decode True 5 (Some ''Zm9vYg=='') = Some (4, out) \<and> take 4 out = [102, 111, 111, 98]"
    by (rule conjunct2)
  with enc show ?thesis by (rule conjI)
qed

text \<open>
  \<open>base64_decode\<close> bounds its writes by the buffer, but with more than two pad characters the
  length it returns is computed from the whole string and exceeds what it wrote, and both
  \<open>base64_dec_malloc\<close> of the empty string and of a string of pad characters read before the
  string's first byte.
\<close>

theorem base64_decode_excess_padding:
  "base64_decode True 16 (Some ''QQ======'') = Some (4, [65, 0, 0]) \<and>
   base64_dec_malloc mem (Some ''====='') = None \<and>
   base64_dec_malloc mem (Some []) = None"
proof (intro conjI)
  have "enc_string [65] = ''QQ==''" by (simp add: enc_round_def encoder_def enc_triple_def)
  with dec_loop_enc_string [of "[]" 16 "[65]"]
  show "base64_decode True 16 (Some ''QQ======'') = Some (4, [65, 0, 0])"
    by (simp add: base64_decode_def base64_decsize_def padlen_def pad_count_def replicate_two)
qed (simp_all add: base64_dec_malloc_def base64_decsize_def padlen_def)

end
