(* ===== verification/Blob.thy ===== *)
theory Blob
  imports Base64
begin

section \<open>Binary objects (blob.c)\<close>

text \<open>
  A \<open>blob_t *\<close> points to a \<open>long\<close> that holds the size of the whole object, followed by the data.
  \<open>blob_mem\<close> lists the bytes of the object as they are in memory (a \<open>long\<close> has eight, lowest
  first). Copying more bytes than the source has is \<open>None\<close>; a \<open>NULL\<close> or -1 result is the inner
  \<open>None\<close>.
\<close>

record blob =
  b_size :: int
  b_data :: "byte list"

text \<open>The bytes of a \<open>long\<close> and of an \<open>int\<close>, and the numbers they stand for.\<close>

definition long_bytes :: "int \<Rightarrow> byte list" where
  "long_bytes x = map (\<lambda>i. of_int (x div 256 ^ i)) [0..<8]"

definition bytes_num :: "byte list \<Rightarrow> int" where
  "bytes_num bs = foldr (\<lambda>b acc. uint b + 256 * acc) bs 0"

definition bytes_long :: "byte list \<Rightarrow> int" where
  "bytes_long bs = wrap64 (bytes_num bs)"

definition blob_mem :: "blob \<Rightarrow> byte list" where
  "blob_mem b = long_bytes (b_size b) @ b_data b"

text \<open>\<open>memcmp\<close> returns the difference of the first bytes that differ, as the C library does.\<close>

fun memcmp :: "nat \<Rightarrow> byte list \<Rightarrow> byte list \<Rightarrow> int option" where
  "memcmp 0 _ _ = Some 0"
| "memcmp (Suc n) (x # xs) (y # ys) = (if x = y then memcmp n xs ys else Some (uint x - uint y))"
| "memcmp (Suc n) _ _ = None"

definition blob_size :: "int \<Rightarrow> int" where
  "blob_size datlen = wrap64 (datlen + 8)"

definition blob_data_size :: "blob option \<Rightarrow> int" where
  "blob_data_size b = (case b of None \<Rightarrow> 0 | Some b \<Rightarrow> wrap64 (b_size b - 8))"

definition blob_data :: "blob option \<Rightarrow> byte list option" where
  "blob_data b = map_option b_data b"

text \<open>\<open>memcpy\<close> of \<open>n\<close> bytes; nothing is read from \<open>NULL\<close> when there is nothing to copy.\<close>

definition memcpy :: "byte list option \<Rightarrow> int \<Rightarrow> byte list option" where
  "memcpy src n =
     (if n = 0 then Some []
      else case src of
        None \<Rightarrow> None
      | Some bs \<Rightarrow> if 0 \<le> n \<and> n \<le> int (length bs) then Some (take (nat n) bs) else None)"

definition blob_init :: "int \<Rightarrow> byte list option \<Rightarrow> int \<Rightarrow> blob option option" where
  "blob_init buflen dat datlen =
     (let sz = blob_size datlen in
      if sz > buflen then Some None
      else do {
        bs \<leftarrow> memcpy dat datlen;
        Some (Some \<lparr>b_size = sz, b_data = bs\<rparr>) })"

definition blob_create :: "mem \<Rightarrow> byte list option \<Rightarrow> int \<Rightarrow> (blob option \<times> mem) option" where
  "blob_create mem dat datlen =
     (let sz = blob_size datlen; (ok, mem1) = malloc mem in
      if \<not> ok then Some (None, mem1)
      else do {
        b \<leftarrow> blob_init sz dat datlen;
        Some (b, mem1) })"

definition blob_copy :: "int \<Rightarrow> blob \<Rightarrow> byte list option option" where
  "blob_copy sz b =
     (if b_size b > sz then Some None
      else do {
        bs \<leftarrow> memcpy (Some (blob_mem b)) (b_size b);
        Some (Some bs) })"

definition blob_get_copy :: "mem \<Rightarrow> blob option \<Rightarrow> (blob option \<times> mem) option" where
  "blob_get_copy mem b = blob_create mem (blob_data b) (blob_data_size b)"

definition blob_scan :: "mem \<Rightarrow> string option \<Rightarrow> (blob option \<times> mem) option" where
  "blob_scan mem str =
     do {
       (buffer, sz, mem1) \<leftarrow> base64_dec_malloc mem str;
       (case buffer of
          None \<Rightarrow> Some (None, mem1)
        | Some bs \<Rightarrow> blob_create mem1 (Some bs) sz) }"

definition blob_dump :: "int \<Rightarrow> blob option \<Rightarrow> int \<times> string option" where
  "blob_dump sz b = base64_encode True sz (blob_data b)"

definition blob_compare :: "blob \<Rightarrow> blob \<Rightarrow> int option" where
  "blob_compare left right =
     (if b_size left < b_size right then Some (-1)
      else if b_size left > b_size right then Some 1
      else memcmp (nat (b_size left)) (blob_mem left) (blob_mem right))"

subsection \<open>Well-formed blobs\<close>

text \<open>What \<open>blob_create\<close> makes: the header counts itself and the data.\<close>

definition blob_ok :: "blob \<Rightarrow> bool" where
  "blob_ok b \<longleftrightarrow> b_size b = int (length (b_data b)) + 8 \<and> i64 (b_size b)"

lemma uint_of_int_byte: "uint (of_int x :: byte) = x mod 256"
  by (simp add: uint_word_of_int take_bit_eq_mod)

lemma bytes_num_digits: "bytes_num (map (\<lambda>i. of_int (x div 256 ^ i)) [0..<n]) = x mod 256 ^ n"
proof (induction n arbitrary: x)
  case (Suc n)
  have "map (\<lambda>i. of_int (x div 256 ^ i)) [0..<Suc n] =
      of_int x # (map (\<lambda>i. of_int (x div 256 div 256 ^ i)) [0..<n] :: byte list)"
    by (simp add: upt_conv_Cons map_Suc_upt [symmetric] zdiv_zmult2_eq [symmetric] del: upt_Suc)
  moreover have "x mod 256 + 256 * (x div 256 mod 256 ^ n) = x mod 256 ^ Suc n"
    by (simp add: zmod_zmult2_eq)
  ultimately show ?case using Suc [of "x div 256"] by (simp add: bytes_num_def uint_of_int_byte)
qed (simp add: bytes_num_def)

lemma bytes_num_long_bytes: "bytes_num (long_bytes x) = x mod 2 ^ 64"
  using bytes_num_digits [of x 8] by (simp add: long_bytes_def)

lemma bytes_long_long_bytes:
  assumes "i64 x"
  shows "bytes_long (long_bytes x) = x"
proof -
  have "bytes_long (long_bytes x) = signed_take_bit 63 (take_bit 64 x)"
    by (simp add: bytes_long_def bytes_num_long_bytes wrap64_def take_bit_eq_mod)
  also have "\<dots> = wrap64 x" by (simp add: signed_take_bit_take_bit wrap64_def)
  finally show ?thesis using assms by (simp add: wrap64_id)
qed

lemma length_long_bytes [simp]: "length (long_bytes x) = 8"
  by (simp add: long_bytes_def)

lemma length_blob_mem: "blob_ok b \<Longrightarrow> int (length (blob_mem b)) = b_size b"
  by (simp add: blob_ok_def blob_mem_def)

lemma blob_data_size_ok: "blob_ok b \<Longrightarrow> blob_data_size (Some b) = int (length (b_data b))"
  by (simp add: blob_ok_def blob_data_size_def wrap64_id i64_def)

lemma blob_create_data:
  assumes "i64 (int (length bs) + 8)"
  shows "blob_create [] (Some bs) (int (length bs)) = Some (Some \<lparr>b_size = int (length bs) + 8, b_data = bs\<rparr>, [])"
  using assms by (simp add: blob_create_def blob_init_def blob_size_def wrap64_id memcpy_def)

lemma blob_create_ok:
  assumes "blob_create mem (Some bs) (int (length bs)) = Some (Some b, mem1)" and "i64 (int (length bs) + 8)"
  shows "blob_ok b \<and> b_data b = bs"
  using assms
  by (auto simp: blob_create_def blob_init_def blob_size_def wrap64_id memcpy_def blob_ok_def
      split: prod.splits if_splits)

lemma blob_get_copy_eq:
  assumes "blob_ok b"
  shows "blob_get_copy [] (Some b) = Some (Some b, [])"
proof -
  have "i64 (int (length (b_data b)) + 8)" using assms by (auto simp: blob_ok_def)
  moreover have "b = \<lparr>b_size = int (length (b_data b)) + 8, b_data = b_data b\<rparr>"
    using assms by (cases b) (simp add: blob_ok_def)
  ultimately show ?thesis
    using blob_create_data [of "b_data b"]
    by (simp add: blob_get_copy_def blob_data_def blob_data_size_ok [OF assms])
qed

lemma memcmp_eq_0: "length xs = n \<Longrightarrow> length ys = n \<Longrightarrow> memcmp n xs ys = Some 0 \<longleftrightarrow> xs = ys"
proof (induction n xs ys rule: memcmp.induct)
  case (2 n x xs y ys)
  then show ?case by (simp add: uint_word_ariths) (metis word_uint_eq_iff)
qed auto

lemma memcmp_defined: "length xs = n \<Longrightarrow> length ys = n \<Longrightarrow> \<exists>r. memcmp n xs ys = Some r"
  by (induction n xs ys rule: memcmp.induct) auto

lemma long_bytes_cong: "b_size a = b_size b \<Longrightarrow> blob_mem a = blob_mem b \<longleftrightarrow> b_data a = b_data b"
  by (simp add: blob_mem_def)

text \<open>\<open>blob_compare\<close> returns 0 exactly on equal blobs, and it always returns.\<close>

lemma blob_compare_eq_0:
  assumes "blob_ok a" and "blob_ok b"
  shows "\<exists>r. blob_compare a b = Some r \<and> (r = 0 \<longleftrightarrow> a = b)"
proof (cases "b_size a = b_size b")
  case True
  let ?n = "nat (b_size a)"
  have len: "length (blob_mem a) = ?n" "length (blob_mem b) = ?n"
    using length_blob_mem [OF assms(1)] length_blob_mem [OF assms(2)] True by auto
  obtain r where r: "memcmp ?n (blob_mem a) (blob_mem b) = Some r" using memcmp_defined [OF len] by blast
  have "r = 0 \<longleftrightarrow> b_data a = b_data b" using memcmp_eq_0 [OF len] r long_bytes_cong [OF True] by simp
  also have "\<dots> \<longleftrightarrow> a = b" using True by auto
  finally show ?thesis using True r by (simp add: blob_compare_def)
next
  case False
  then show ?thesis by (auto simp: blob_compare_def)
qed

text \<open>
  dump and scan of a blob. A blob with at least one byte of data that \<open>blob_dump\<close> wrote as
  text is restored by \<open>blob_scan\<close> when memory lasts, so that \<open>blob_compare\<close> finds the two equal.
\<close>

theorem blob_dump_scan:
  assumes "blob_ok b" and "b_data b \<noteq> []" and "length (b_data b) < 2 ^ 29"
    and "blob_dump sz (Some b) = (r, Some s)"
  shows "blob_scan [] (Some s) = Some (Some b, []) \<and> blob_compare b b = Some 0"
proof -
  let ?n = "length (b_data b)"
  have enc: "base64_encode True sz (Some (b_data b)) = (r, Some s)"
    using assms(4) by (simp add: blob_dump_def blob_data_def)
  have s: "s = enc_string (b_data b)" by (rule base64_encode_success [OF enc assms(3)])
  have dsz: "base64_decsize (Some s) = Some (int ?n)"
    using base64_decsize_enc_string [OF assms(2)] by (simp add: s)
  have "?n \<le> nat (int ?n + 1)" and "0 < nat (int ?n + 1)" by linarith+
  then obtain out where out: "base64_decode True (nat (int ?n + 1)) (Some s) = Some (int ?n, out)"
    and pre: "take ?n out = b_data b"
    using base64_roundtrip_nat [OF enc assms(3)] by blast
  have i: "i64 (int ?n + 8)" using assms(1) by (auto simp: blob_ok_def)
  have "int ?n \<le> int (length out)" using pre by (metis of_nat_le_iff length_take min.absorb_iff2 min.cobounded1)
  then have "blob_scan [] (Some s) = Some (Some \<lparr>b_size = int ?n + 8, b_data = b_data b\<rparr>, [])"
    using i pre by (simp add: blob_scan_def base64_dec_malloc_def dsz out blob_create_def blob_init_def
        blob_size_def wrap64_id memcpy_def)
  moreover have "b = \<lparr>b_size = int ?n + 8, b_data = b_data b\<rparr>"
    using assms(1) by (cases b) (simp add: blob_ok_def)
  moreover have "blob_compare b b = Some 0" using blob_compare_eq_0 [OF assms(1) assms(1)] by auto
  ultimately show ?thesis by simp
qed


theorem blob_dump_scan_witness:
  "blob_dump 5 (Some \<lparr>b_size = 9, b_data = [65]\<rparr>) = (4, Some ''QQ=='') \<and>
   blob_scan [] (Some ''QQ=='') = Some (Some \<lparr>b_size = 9, b_data = [65]\<rparr>, [])"
proof -
  let ?b = "\<lparr>b_size = 9, b_data = [65]\<rparr>"
  have dump: "blob_dump 5 (Some ?b) = (4, Some ''QQ=='')"
    by (simp add: blob_dump_def blob_data_def base64_encode_def enc_round_def encoder_def enc_triple_def
        base64_encsize_def wrap32_def Let_def enc_pad_def)
  have "blob_scan [] (Some ''QQ=='') = Some (Some ?b, []) \<and> blob_compare ?b ?b = Some 0"
    by (rule blob_dump_scan [OF _ _ _ dump]) (simp_all add: blob_ok_def i64_def)
  with dump show ?thesis by blast
qed

end
