(* ===== verification/Util.thy ===== *)
theory Util
  imports Blob
begin

section \<open>Strings and addresses (util.c)\<close>

text \<open>
  The pure helpers of \<open>src/src/util.c\<close>: quoting and extraction of strings into caller buffers,
  and the operations on socket addresses that the expression language and greylisting use. A
  function that fills a buffer returns its result and the string the buffer then holds
  (\<open>None\<close> when it was not written); a write outside a buffer is the outer \<open>None\<close>.
\<close>

unbundle bit_operations_syntax

subsection \<open>Searching strings\<close>

text \<open>\<open>strchr\<close> and \<open>strrchr\<close>: the rest of the string from the first or last occurrence.\<close>

fun strchr :: "string \<Rightarrow> char \<Rightarrow> string option" where
  "strchr [] c = None"
| "strchr (x # xs) c = (if x = c then Some (x # xs) else strchr xs c)"

fun strrchr :: "string \<Rightarrow> char \<Rightarrow> string option" where
  "strrchr [] c = None"
| "strrchr (x # xs) c =
     (case strrchr xs c of Some s \<Rightarrow> Some s | None \<Rightarrow> if x = c then Some (x # xs) else None)"

lemma strchr_None: "strchr s c = None \<longleftrightarrow> c \<notin> set s"
  by (induction s) auto

lemma strchr_append: "c \<notin> set p \<Longrightarrow> strchr (p @ c # s) c = Some (c # s)"
  by (induction p) auto

lemma strchr_Some: "strchr s c = Some t \<Longrightarrow> \<exists>p u. s = p @ t \<and> t = c # u \<and> c \<notin> set p"
proof (induction s)
  case (Cons x xs)
  show ?case
  proof (cases "x = c")
    case True
    with Cons.prems show ?thesis by auto
  next
    case False
    with Cons obtain p u where "xs = p @ t" "t = c # u" "c \<notin> set p" by auto
    with False have "x # xs = (x # p) @ t" "t = c # u" "c \<notin> set (x # p)" by simp_all
    then show ?thesis by blast
  qed
qed simp

lemma strrchr_last: "c \<notin> set s \<Longrightarrow> strrchr (p @ c # s) c = Some (c # s)"
proof (induction p)
  case Nil
  then have "strrchr s c = None" by (induction s) auto
  then show ?case by simp
qed simp

subsection \<open>Strings\<close>

text \<open>
  \<open>util_strdupenc\<close>: a string of one character that is both delimiters makes C write before the
  copy.
\<close>

definition util_strdupenc :: "mem \<Rightarrow> string \<Rightarrow> char \<Rightarrow> char \<Rightarrow> (string option \<times> mem) option" where
  "util_strdupenc mem src enc0 enc1 =
     (let (ok, mem1) = malloc mem in
      if \<not> (src \<noteq> [] \<and> hd src = enc0 \<and> last src = enc1) then Some (if ok then Some src else None, mem1)
      else if \<not> ok then Some (None, mem1)
      else if length src < 2 then None
      else Some (Some (take (length src - 2) (tl src)), mem1))"

definition util_quote :: "int \<Rightarrow> string \<Rightarrow> string \<Rightarrow> int \<times> string option" where
  "util_quote sz str quotes =
     (let start = quotes ! 0; fin = (if length quotes = 1 then quotes ! 0 else quotes ! 1) in
      if strchr str start \<noteq> None \<or> strchr str fin \<noteq> None then (-1, None)
      else if int (length str) + 2 \<ge> sz then (-1, None)
      else (0, Some (start # str @ [fin])))"

definition util_strmail :: "int \<Rightarrow> string option \<Rightarrow> (int \<times> string option) option" where
  "util_strmail sz src =
     (case src of
        None \<Rightarrow> Some (-1, None)
      | Some s \<Rightarrow>
          (case strchr s (CHR ''<'') of
             None \<Rightarrow> Some (-1, None)
           | Some start \<Rightarrow>
               (case strchr start (CHR ''>'') of
                  None \<Rightarrow> Some (-1, None)
                | Some fin \<Rightarrow>
                    (let len = int (length start) - int (length fin) - 1 in
                     if len \<ge> sz then Some (-1, None)
                     else Some (len, Some (take (nat len) (tl start)))))))"

text \<open>
  \<open>util_strdomain\<close> compares \<open>len\<close> with \<open>size + 1\<close> where it copies \<open>len + 1\<close> bytes: up to two
  bytes can be written after the buffer.
\<close>

definition util_strdomain :: "int \<Rightarrow> string option \<Rightarrow> (int \<times> string option) option" where
  "util_strdomain sz src =
     (case src of
        None \<Rightarrow> Some (-1, None)
      | Some s \<Rightarrow>
          (case strrchr s (CHR ''@'') of
             None \<Rightarrow> if sz \<noteq> 0 then Some (0, Some []) else Some (-1, None)
           | Some at \<Rightarrow>
               (let start = tl at; len = int (length start) in
                if len > sz + 1 then Some (-1, None)
                else if len + 1 > sz then None
                else Some (len, Some start))))"

text \<open>\<open>util_concat\<close>: the parts until \<open>NULL\<close>; on exhaustion the parts before are in the buffer.\<close>

fun util_concat_from :: "int \<Rightarrow> string \<Rightarrow> string list \<Rightarrow> int \<times> string" where
  "util_concat_from sz buf [] = (int (length buf), buf)"
| "util_concat_from sz buf (part # parts) =
     (if int (length buf) + int (length part) > sz - 1 then (-1, buf)
      else util_concat_from sz (buf @ part) parts)"

definition util_concat :: "int \<Rightarrow> string list \<Rightarrow> int \<times> string" where
  "util_concat sz parts = util_concat_from sz [] parts"

definition util_stripped_filename :: "nat \<Rightarrow> string \<Rightarrow> int \<times> string option" where
  "util_stripped_filename sz path =
     (let strip = (\<lambda>filename.
        if sz \<le> length filename then (-1, None)
        else (0, Some (takeWhile (\<lambda>c. c \<noteq> CHR ''.'') filename))) in
      (case strrchr path (CHR ''/'') of
         None \<Rightarrow> strip path
       | Some f \<Rightarrow> if tl f = [] then (0, Some []) else strip (tl f)))"

text \<open>The character classes of \<open>ctype.h\<close> in the C locale.\<close>

definition isspace :: "char \<Rightarrow> bool" where
  "isspace c \<longleftrightarrow> of_char c \<in> {9 :: nat, 10, 11, 12, 13, 32}"

definition isupper :: "char \<Rightarrow> bool" where
  "isupper c \<longleftrightarrow> (65 :: nat) \<le> of_char c \<and> of_char c \<le> (90 :: nat)"

definition tolower :: "char \<Rightarrow> char" where
  "tolower c = (if isupper c then char_of (of_char c + 32 :: nat) else c)"

definition util_tolower :: "string \<Rightarrow> string" where
  "util_tolower s = map (\<lambda>c. if isupper c then tolower c else c) s"

text \<open>The permission bits \<open>util_chmod\<close> makes of a number written in decimal.\<close>

definition util_chmod_mode :: "nat \<Rightarrow> nat" where
  "util_chmod_mode mode_decimal =
     (let user = mode_decimal div 100 mod 8; group = mode_decimal div 10 mod 10 mod 8;
          others = mode_decimal mod 10 mod 8 in
      (if bit user 2 then 0x100 else 0) + (if bit user 1 then 0x80 else 0) + (if bit user 0 then 0x40 else 0) +
      (if bit group 2 then 0x20 else 0) + (if bit group 1 then 0x10 else 0) + (if bit group 0 then 8 else 0) +
      (if bit others 2 then 4 else 0) + (if bit others 1 then 2 else 0) + (if bit others 0 then 1 else 0))"

subsection \<open>Socket addresses\<close>

text \<open>
  A \<open>sockaddr_storage\<close>: an IPv4 address in host order or the sixteen bytes of an IPv6 address,
  each with a port, or another family with the bytes that lie where an IPv6 address would.
\<close>

datatype sockaddr = Inet u32 nat | Inet6 "byte list" nat | Other_Family nat "byte list"

fun ss_family :: "sockaddr \<Rightarrow> nat" where
  "ss_family (Inet a p) = 2"
| "ss_family (Inet6 a p) = 10"
| "ss_family (Other_Family f a) = f"

definition sockaddr_ok :: "sockaddr \<Rightarrow> bool" where
  "sockaddr_ok ss =
     (case ss of
        Inet a p \<Rightarrow> True
      | Inet6 a p \<Rightarrow> length a = 16
      | Other_Family f a \<Rightarrow> f \<noteq> 2 \<and> f \<noteq> 10 \<and> length a = 16)"

text \<open>\<open>inet_pton\<close> and \<open>inet_ntop\<close> are arguments.\<close>

definition util_strtoaddr ::
  "(string \<Rightarrow> u32 option) \<Rightarrow> (string \<Rightarrow> byte list option) \<Rightarrow> mem \<Rightarrow> string option \<Rightarrow> sockaddr option \<times> mem" where
  "util_strtoaddr pton4 pton6 mem str =
     (case str of
        None \<Rightarrow> (None, mem)
      | Some s \<Rightarrow>
          (let (ok, mem1) = malloc mem in
           if \<not> ok then (None, mem1)
           else (case pton4 s of
                   Some a \<Rightarrow> (Some (Inet a 0), mem1)
                 | None \<Rightarrow>
                     (case pton6 s of
                        Some a \<Rightarrow> (Some (Inet6 a 0), mem1)
                      | None \<Rightarrow> (None, mem1)))))"

definition util_addrtostr ::
  "(u32 \<Rightarrow> string option) \<Rightarrow> (byte list \<Rightarrow> string option) \<Rightarrow> mem \<Rightarrow> sockaddr option \<Rightarrow> string option \<times> mem" where
  "util_addrtostr ntop4 ntop6 mem ss =
     (let p = (case ss of
                 None \<Rightarrow> Some ''(null)''
               | Some (Inet6 a _) \<Rightarrow> ntop6 a
               | Some (Inet a _) \<Rightarrow> ntop4 a
               | Some (Other_Family f _) \<Rightarrow> if f = 1 then Some ''unix domain socket'' else None) in
      (case p of
         None \<Rightarrow> (None, mem)
       | Some s \<Rightarrow> (let (ok, mem1) = malloc mem in (if ok then Some s else None, mem1))))"

definition util_addr_ipv6 :: "sockaddr option \<Rightarrow> int" where
  "util_addr_ipv6 ss = (case ss of None \<Rightarrow> 0 | Some s \<Rightarrow> if ss_family s = 10 then 1 else 0)"

definition util_addrtoint :: "sockaddr option \<Rightarrow> int" where
  "util_addrtoint ss = (case ss of Some (Inet a _) \<Rightarrow> sint a | _ \<Rightarrow> -1)"

text \<open>
  \<open>util_addr_prefix\<close>. The IPv4 mask shifts an \<open>int\<close>: with all 32 bits to clear the shift has no
  meaning in C. The IPv6 loop runs over the bytes from the last to the first.
\<close>

fun prefix6_bytes :: "int \<Rightarrow> byte list \<Rightarrow> byte list" where
  "prefix6_bytes bits [] = []"
| "prefix6_bytes bits (b # bs) =
     (if bits > 0 then (if bits > 8 then 0 else b AND NOT (mask (nat bits))) # prefix6_bytes (bits - 8) bs
      else b # bs)"

definition util_addr_prefix :: "sockaddr \<Rightarrow> int \<Rightarrow> sockaddr option" where
  "util_addr_prefix ss prefix =
     (case ss of
        Inet a p \<Rightarrow>
          (let bits = 32 - prefix in
           if bits \<le> 0 then Some ss
           else if bits \<ge> 32 then None
           else Some (Inet (a AND NOT (mask (nat bits))) p))
      | Inet6 a p \<Rightarrow>
          (let bits = 128 - prefix in
           if bits \<le> 0 then Some ss
           else Some (Inet6 (rev (prefix6_bytes (if bits > 128 then 128 else bits) (rev a))) p))
      | Other_Family _ _ \<Rightarrow> Some ss)"

definition util_hostaddr :: "mem \<Rightarrow> sockaddr option \<Rightarrow> sockaddr option \<times> mem" where
  "util_hostaddr mem ss =
     (case ss of
        None \<Rightarrow> (None, mem)
      | Some s \<Rightarrow>
          (let (ok, mem1) = malloc mem in
           if \<not> ok then (None, mem1)
           else (Some (case s of
                         Inet a _ \<Rightarrow> Inet a 0
                       | Inet6 a _ \<Rightarrow> Inet6 a 0
                       | Other_Family f a \<Rightarrow> Other_Family f a), mem1)))"

text \<open>\<open>util_addrcmp\<close>; the bytes of two IPv6 addresses are compared by \<open>memcmp\<close>.\<close>

definition sign :: "int \<Rightarrow> int" where
  "sign x = (if x < 0 then -1 else if x > 0 then 1 else 0)"

definition util_addrcmp :: "sockaddr option \<Rightarrow> sockaddr option \<Rightarrow> int" where
  "util_addrcmp s1 s2 =
     (case (s1, s2) of
        (None, None) \<Rightarrow> 0
      | (None, Some _) \<Rightarrow> -1
      | (Some _, None) \<Rightarrow> 1
      | (Some ss1, Some ss2) \<Rightarrow>
          if ss_family ss1 < ss_family ss2 then -1
          else if ss_family ss1 > ss_family ss2 then 1
          else (case (ss1, ss2) of
                  (Inet a _, Inet b _) \<Rightarrow> if a < b then -1 else if a > b then 1 else 0
                | (Inet6 a _, Inet6 b _) \<Rightarrow>
                    (case memcmp 16 a b of None \<Rightarrow> 0 | Some cmp \<Rightarrow> sign cmp)
                | _ \<Rightarrow> 0))"

subsection \<open>Facts\<close>

lemma util_concat_from_fits:
  "int (length buf) + (\<Sum>p \<leftarrow> parts. int (length p)) < sz \<Longrightarrow>
   util_concat_from sz buf parts = (int (length (buf @ concat parts)), buf @ concat parts)"
proof (induction parts arbitrary: buf)
  case (Cons part parts)
  have "0 \<le> (\<Sum>p \<leftarrow> parts. int (length p))" by (induction parts) auto
  with Cons show ?case by simp
qed simp

lemma util_concat_from_bounds:
  "int (length buf) < sz \<Longrightarrow> int (length (snd (util_concat_from sz buf parts))) < sz"
  by (induction parts arbitrary: buf) auto

lemma util_addrcmp_0:
  assumes "sockaddr_ok a" and "sockaddr_ok b" and "ss_family a = 2 \<or> ss_family a = 10"
  shows "util_addrcmp (Some a) (Some b) = 0 \<longleftrightarrow> fst (util_hostaddr [] (Some a)) = fst (util_hostaddr [] (Some b))"
proof (cases a; cases b)
  fix x p y q
  assume ab: "a = Inet6 x p" "b = Inet6 y q"
  with assms have len: "length x = 16" "length y = 16" by (simp_all add: sockaddr_ok_def)
  obtain r where "memcmp 16 x y = Some r" using memcmp_defined [OF len] by blast
  with memcmp_eq_0 [OF len] ab show ?thesis
    by (auto simp: util_addrcmp_def util_hostaddr_def sign_def)
qed (use assms in \<open>auto simp: util_addrcmp_def util_hostaddr_def sockaddr_ok_def\<close>)

text \<open>The \<open>i\<close>-th bit of a host address, from the most significant one.\<close>

definition host_bit :: "sockaddr \<Rightarrow> nat \<Rightarrow> bool" where
  "host_bit ss i =
     (case ss of
        Inet a _ \<Rightarrow> bit a (31 - i)
      | Inet6 a _ \<Rightarrow> bit (a ! (i div 8)) (7 - i mod 8)
      | Other_Family _ _ \<Rightarrow> False)"

definition host_width :: "sockaddr \<Rightarrow> nat" where
  "host_width ss = (case ss of Inet _ _ \<Rightarrow> 32 | Inet6 _ _ \<Rightarrow> 128 | Other_Family _ _ \<Rightarrow> 0)"

lemma bit_and_not_mask: "bit (x AND NOT (mask n)) k \<longleftrightarrow> bit x k \<and> n \<le> k" for x :: "'a :: len word"
  by (auto simp: bit_and_iff bit_not_iff bit_mask_iff dest: bit_imp_possible_bit)

lemma length_prefix6_bytes [simp]: "length (prefix6_bytes bits bs) = length bs"
  by (induction bits bs rule: prefix6_bytes.induct) auto

lemma bit_prefix6_bytes:
  "j < length bs \<Longrightarrow> k < 8 \<Longrightarrow>
   bit (prefix6_bytes bits bs ! j) k \<longleftrightarrow> bit (bs ! j) k \<and> bits \<le> int (8 * j + k)"
proof (induction bits bs arbitrary: j rule: prefix6_bytes.induct)
  case (2 bits b bs)
  show ?case
  proof (cases j)
    case 0
    with 2 show ?thesis by (auto simp: bit_and_not_mask nat_le_iff)
  next
    case (Suc i)
    with 2 show ?thesis by (auto simp: algebra_simps)
  qed
qed simp

text \<open>
  \<open>util_addr_prefix\<close> keeps exactly the first \<open>prefix\<close> bits of an IPv4 or IPv6 address and
  clears the others, byte by byte for IPv6, and the port stays. The one case left out is an IPv4
  prefix of zero or less, for which the C expression has no meaning.
\<close>

theorem util_addr_prefix_bits:
  assumes "sockaddr_ok ss" and "ss_family ss = 2 \<longrightarrow> 0 < prefix" and "i < host_width ss"
  shows "\<exists>ss'. util_addr_prefix ss prefix = Some ss' \<and> ss_family ss' = ss_family ss \<and>
    (host_bit ss' i \<longleftrightarrow> host_bit ss i \<and> int i < prefix)"
proof (cases ss)
  case (Inet a p)
  with assms have i: "i < 32" "0 < prefix" by (simp_all add: host_width_def)
  show ?thesis
  proof (cases "32 \<le> prefix")
    case True
    with i Inet show ?thesis by (simp add: util_addr_prefix_def Let_def)
  next
    case False
    with i have "nat (32 - prefix) \<le> 31 - i \<longleftrightarrow> int i < prefix" by linarith
    with False i Inet show ?thesis
      by (simp add: util_addr_prefix_def Let_def host_bit_def bit_and_not_mask)
  qed
next
  case (Inet6 a p)
  with assms have i: "i < 128" and len: "length a = 16" by (simp_all add: host_width_def sockaddr_ok_def)
  let ?bits = "if 128 - prefix > 128 then 128 else 128 - prefix"
  let ?j = "15 - i div 8"
  have j: "i div 8 < 16" "15 - ?j = i div 8" using i by auto
  have "bit (rev (prefix6_bytes ?bits (rev a)) ! (i div 8)) (7 - i mod 8) =
      bit (prefix6_bytes ?bits (rev a) ! ?j) (7 - i mod 8)"
    using j(1) len by (simp add: rev_nth)
  also have "\<dots> \<longleftrightarrow> bit (rev a ! ?j) (7 - i mod 8) \<and> ?bits \<le> int (8 * ?j + (7 - i mod 8))"
    by (rule bit_prefix6_bytes) (simp_all add: len)
  also have "rev a ! ?j = a ! (i div 8)" using j len by (simp add: rev_nth)
  also have "8 * ?j + (7 - i mod 8) = 127 - i" using i by presburger
  finally have "bit (rev (prefix6_bytes ?bits (rev a)) ! (i div 8)) (7 - i mod 8) \<longleftrightarrow>
      bit (a ! (i div 8)) (7 - i mod 8) \<and> int i < prefix"
    using i by (auto split: if_splits)
  then show ?thesis
    using Inet6 i by (cases "128 \<le> prefix") (simp_all add: util_addr_prefix_def Let_def host_bit_def)
next
  case (Other_Family f a)
  with assms show ?thesis by (simp add: host_width_def)
qed

theorem util_addr_prefix_bits_witness:
  "\<exists>ss'. util_addr_prefix (Inet 0xC0A80101 25) 24 = Some ss' \<and> ss_family ss' = 2 \<and> \<not> host_bit ss' 31"
  using util_addr_prefix_bits [of "Inet 0xC0A80101 25" 24 31]
  by (auto simp: sockaddr_ok_def host_width_def)

text \<open>
  \<open>util_strmail\<close> finds the address between the first \<open><\<close> and the next \<open>>\<close> of a header value
  when the buffer can hold it, and returns its length.
\<close>

theorem util_strmail_extracts:
  assumes "CHR ''<'' \<notin> set pre" and "CHR ''>'' \<notin> set addr" and "int (length addr) < sz"
  shows "util_strmail sz (Some (pre @ ''<'' @ addr @ ''>'' @ post)) = Some (int (length addr), Some addr)"
proof -
  have "strchr (pre @ CHR ''<'' # addr @ CHR ''>'' # post) (CHR ''<'') = Some (CHR ''<'' # addr @ CHR ''>'' # post)"
    by (rule strchr_append [OF assms(1)])
  moreover have "strchr (CHR ''<'' # addr @ CHR ''>'' # post) (CHR ''>'') = Some (CHR ''>'' # post)"
    using strchr_append [of "CHR ''>''" "CHR ''<'' # addr" post] assms(2) by simp
  ultimately show ?thesis using assms(3) by (simp add: util_strmail_def Let_def)
qed

theorem util_strmail_extracts_witness:
  "util_strmail 8 (Some (''Bob '' @ ''<'' @ ''b@x.org'' @ ''>'' @ '' x'')) = Some (7, Some ''b@x.org'')"
  using util_strmail_extracts [of "''Bob ''" "''b@x.org''" 8 "'' x''"] by simp

text \<open>
  \<open>util_strdomain\<close> writes outside its buffer when the domain has exactly as many characters
  as the buffer, or one more, and \<open>util_strdupenc\<close> when the string is a single quote character.
\<close>

theorem util_buffer_overflows:
  assumes "CHR ''@'' \<notin> set host" and "int (length host) = sz \<or> int (length host) = sz + 1"
  shows "util_strdomain sz (Some (user @ ''@'' @ host)) = None \<and> util_strdupenc [] [q] q q = None"
  using assms strrchr_last [of "CHR ''@''" host user]
  by (auto simp: util_strdomain_def util_strdupenc_def Let_def)

theorem util_buffer_overflows_witness:
  "util_strdomain 3 (Some (''u'' @ ''@'' @ ''a.b'')) = None \<and> util_strdupenc [] [CHR 0x22] CHR 0x22 CHR 0x22 = None"
  using util_buffer_overflows [of "''a.b''" 3 "''u''" "CHR 0x22"] by simp

end
