(* ===== verification/Regdom.thy ===== *)
theory Regdom
  imports String_Table Util
begin

section \<open>Registered domains (regdom.c)\<close>

text \<open>
  \<open>src/src/regdom.c\<close> loads a list of public suffix rules into a string table and cuts a host
  name down to its registered domain. The conversions of libidn (\<open>stringprep_utf8_to_ucs4\<close>,
  \<open>punycode_encode\<close>) are arguments. \<open>log_die\<close> ends the program: \<open>Inl Died\<close>. When
  \<open>punycode_encode\<close> fails the rest of its buffer is indeterminate: the buffer is then \<open>None\<close>.
\<close>

record regdom_rule =
  r_name :: string
  r_exception :: bool
  r_wildcard :: bool

datatype died = Died

type_synonym regdom_table = "regdom_rule sht"

definition regdom_rule_create :: "mem \<Rightarrow> string \<Rightarrow> bool \<Rightarrow> bool \<Rightarrow> (died + regdom_rule) \<times> mem" where
  "regdom_rule_create mem name wildcard exception =
     (let (ok1, mem1) = malloc mem in
      if \<not> ok1 then (Inl Died, mem1)
      else
        (let (ok2, mem2) = malloc mem1 in
         if \<not> ok2 then (Inl Died, mem2)
         else (Inr \<lparr>r_name = name, r_exception = exception, r_wildcard = wildcard\<rparr>, mem2)))"

definition regdom_has_nonascii :: "string \<Rightarrow> bool" where
  "regdom_has_nonascii name \<longleftrightarrow> (\<exists>c \<in> set name. of_char c > (127 :: nat))"

text \<open>\<open>strtok_r\<close> with one delimiter: the non-empty pieces.\<close>

function tokens :: "char \<Rightarrow> string \<Rightarrow> string list" where
  "tokens c s =
     (let t = dropWhile (\<lambda>x. x = c) s in
      if t = [] then [] else takeWhile (\<lambda>x. x \<noteq> c) t # tokens c (dropWhile (\<lambda>x. x \<noteq> c) t))"
  by pat_completeness auto
termination
proof (relation "measure (\<lambda>(c, s). length s)")
  fix c s t
  assume t: "t = dropWhile (\<lambda>x. x = c) s" and ne: "t \<noteq> []"
  have "hd t \<noteq> c" using hd_dropWhile [of "\<lambda>x. x = c" s] t ne by simp
  then have "dropWhile (\<lambda>x. x \<noteq> c) t = dropWhile (\<lambda>x. x \<noteq> c) (tl t)" using ne by (cases t) auto
  then have "length (dropWhile (\<lambda>x. x \<noteq> c) t) \<le> length (tl t)" by (metis length_dropWhile_le)
  also have "\<dots> < length t" using ne by (cases t) auto
  also have "\<dots> \<le> length s" using t by (simp add: length_dropWhile_le)
  finally show "((c, dropWhile (\<lambda>x. x \<noteq> c) t), c, s) \<in> measure (\<lambda>(c, s). length s)" by simp
qed simp

declare tokens.simps [simp del]

text \<open>\<open>regdom_idna\<close>: one round of its loop per label; the result and the buffer.\<close>

fun idna_labels ::
  "(string \<Rightarrow> nat list option) \<Rightarrow> (nat list \<Rightarrow> nat \<Rightarrow> string option) \<Rightarrow>
   int \<Rightarrow> string \<Rightarrow> string list \<Rightarrow> int \<times> string option" where
  "idna_labels ucs4 punycode sz buf [] = (0, Some buf)"
| "idna_labels ucs4 punycode sz buf (d # ds) =
     (let len = int (length buf) in
      if len \<noteq> 0 \<and> len + 2 > sz then (-1, Some buf)
      else
        (let buf1 = (if len \<noteq> 0 then buf @ ''.'' else buf); len1 = int (length buf1) in
         if \<not> regdom_has_nonascii d then
           (if len1 + int (length d) + 1 > sz then (-1, Some buf1)
            else idna_labels ucs4 punycode sz (buf1 @ d) ds)
         else if len1 + 5 > sz then (-1, Some buf1)
         else
           (case ucs4 d of
              None \<Rightarrow> (-1, Some (buf1 @ ''xn--''))
            | Some u \<Rightarrow>
                (case punycode u (nat (sz - (len1 + 4) - 1)) of
                   None \<Rightarrow> (-1, None)
                 | Some p \<Rightarrow> idna_labels ucs4 punycode sz (buf1 @ ''xn--'' @ p) ds))))"

definition regdom_idna ::
  "(string \<Rightarrow> nat list option) \<Rightarrow> (nat list \<Rightarrow> nat \<Rightarrow> string option) \<Rightarrow>
   mem \<Rightarrow> int \<Rightarrow> string \<Rightarrow> (int \<times> string option) \<times> mem" where
  "regdom_idna ucs4 punycode mem sz input =
     (let (ok, mem1) = malloc mem in
      if \<not> ok then ((-1, Some []), mem1)
      else (idna_labels ucs4 punycode sz [] (tokens (CHR ''.'') input), mem1))"

subsection \<open>Loading rules\<close>

text \<open>\<open>strstr(name, "//")\<close> and the cut.\<close>

fun strip_comment :: "string \<Rightarrow> string" where
  "strip_comment (c # d # cs) = (if c = CHR ''/'' \<and> d = CHR ''/'' then [] else c # strip_comment (d # cs))"
| "strip_comment cs = cs"

text \<open>
  The loop that is to strip trailing spaces starts at the terminating zero of the string, which
  is no space.
\<close>

definition char_at :: "string \<Rightarrow> nat \<Rightarrow> char" where
  "char_at s p = (if p < length s then s ! p else CHR 0x00)"

fun strip_pos :: "string \<Rightarrow> nat \<Rightarrow> nat" where
  "strip_pos s 0 = 0"
| "strip_pos s (Suc p) = (if isspace (char_at s (Suc p)) then strip_pos s p else Suc p)"

definition strip_spaces :: "string \<Rightarrow> string" where
  "strip_spaces s = (let p = strip_pos s (length s) in if p < length s then take (p + 1) s else s)"

text \<open>The flags of a rule and what is left of its line.\<close>

definition rule_of_line :: "string \<Rightarrow> string \<times> bool \<times> bool" where
  "rule_of_line name =
     (let (name1, wildcard) =
        (case name of
           [] \<Rightarrow> (name, False)
         | c # cs \<Rightarrow>
             if c = CHR ''*'' then
               ((case cs of [] \<Rightarrow> [] | d # ds \<Rightarrow> if d = CHR ''.'' then ds else cs), True)
             else (name, False));
        (name2, exception) =
        (case name1 of
           [] \<Rightarrow> (name1, False)
         | c # cs \<Rightarrow> if c = CHR ''!'' then (cs, True) else (name1, False)) in
      (if regdom_has_nonascii name2 then name2 else util_tolower name2, wildcard, exception))"

text \<open>Create a rule and insert it: \<open>log_die\<close> on every failure.\<close>

definition regdom_add ::
  "mem \<Rightarrow> regdom_table \<Rightarrow> string \<Rightarrow> bool \<Rightarrow> bool \<Rightarrow> (died + regdom_table) \<times> mem" where
  "regdom_add mem tbl name wildcard exception =
     (case regdom_rule_create mem name wildcard exception of
        (Inl e, mem1) \<Rightarrow> (Inl e, mem1)
      | (Inr rule, mem1) \<Rightarrow>
          (case sht_insert mem1 tbl (r_name rule) (Some rule) of
             (r, tbl1, mem2) \<Rightarrow> (if r \<noteq> 0 then Inl Died else Inr tbl1, mem2)))"

definition load_line ::
  "(string \<Rightarrow> nat list option) \<Rightarrow> (nat list \<Rightarrow> nat \<Rightarrow> string option) \<Rightarrow>
   mem \<Rightarrow> regdom_table \<Rightarrow> string \<Rightarrow> ((died + regdom_table) \<times> mem) option" where
  "load_line ucs4 punycode mem tbl line =
     (let name = strip_spaces (strip_comment line) in
      if name = [] then Some (Inr tbl, mem)
      else
        (let (name1, wildcard, exception) = rule_of_line name in
         (case regdom_add mem tbl name1 wildcard exception of
            (Inl e, mem1) \<Rightarrow> Some (Inl e, mem1)
          | (Inr tbl1, mem1) \<Rightarrow>
              if regdom_has_nonascii name1 then
                (let ((_, puny), mem2) = regdom_idna ucs4 punycode mem1 1024 name1 in
                 do { p \<leftarrow> puny; Some (regdom_add mem2 tbl1 p wildcard exception) })
              else Some (Inr tbl1, mem1))))"

fun load_lines ::
  "(string \<Rightarrow> nat list option) \<Rightarrow> (nat list \<Rightarrow> nat \<Rightarrow> string option) \<Rightarrow>
   mem \<Rightarrow> regdom_table \<Rightarrow> string list \<Rightarrow> ((died + regdom_table) \<times> mem) option" where
  "load_lines ucs4 punycode mem tbl [] = Some (Inr tbl, mem)"
| "load_lines ucs4 punycode mem tbl (l # ls) =
     do {
       (r, mem1) \<leftarrow> load_line ucs4 punycode mem tbl l;
       (case r of
          Inl e \<Rightarrow> Some (Inl e, mem1)
        | Inr tbl1 \<Rightarrow> load_lines ucs4 punycode mem1 tbl1 ls) }"

text \<open>The content of the rules file; \<open>None\<close> if \<open>util_file\<close> cannot read it.\<close>

definition regdom_load_rules ::
  "(string \<Rightarrow> nat list option) \<Rightarrow> (nat list \<Rightarrow> nat \<Rightarrow> string option) \<Rightarrow>
   mem \<Rightarrow> regdom_table \<Rightarrow> string option \<Rightarrow> ((died + regdom_table) \<times> mem) option" where
  "regdom_load_rules ucs4 punycode mem tbl content =
     (case content of
        None \<Rightarrow> Some (Inl Died, mem)
      | Some s \<Rightarrow>
          if s = [] then Some (Inl Died, mem)
          else load_lines ucs4 punycode mem tbl (tokens (CHR 0x0A) s))"

definition REGDOM_BUCKETS :: nat where
  "REGDOM_BUCKETS = 16384"

definition regdom_init ::
  "(string \<Rightarrow> nat list option) \<Rightarrow> (nat list \<Rightarrow> nat \<Rightarrow> string option) \<Rightarrow>
   mem \<Rightarrow> string option \<Rightarrow> ((died + regdom_table) \<times> mem) option" where
  "regdom_init ucs4 punycode mem content =
     (case sht_init mem REGDOM_BUCKETS True of
        (None, mem1) \<Rightarrow> Some (Inl Died, mem1)
      | (Some tbl, mem1) \<Rightarrow> regdom_load_rules ucs4 punycode mem1 tbl content)"

subsection \<open>The walk\<close>

text \<open>
  \<open>regdom\<close> returns a pointer into its argument, so a suffix of it. \<open>regdom_end\<close> is the code
  after the loop.
\<close>

definition regdom_end :: "string option \<Rightarrow> string option \<Rightarrow> string option" where
  "regdom_end prev cur =
     (case cur of
        None \<Rightarrow> None
      | Some c \<Rightarrow> if strchr c (CHR ''.'') = None then prev else cur)"

lemma strchr_shorter: "strchr s c = Some t \<Longrightarrow> hd s \<noteq> c \<Longrightarrow> length t < length s"
  by (induction s) (auto dest!: strchr_Some split: if_splits)

function regdom_walk ::
  "(string \<Rightarrow> regdom_rule option) \<Rightarrow> string option \<Rightarrow> string option \<Rightarrow> string \<Rightarrow> string option" where
  "regdom_walk lookup prev cur next0 =
     (let next = dropWhile (\<lambda>c. c = CHR ''.'') next0 in
      (case lookup next of
         Some r \<Rightarrow>
           if r_exception r then Some next
           else if r_wildcard r then prev
           else regdom_end prev cur
       | None \<Rightarrow>
           (case strchr next (CHR ''.'') of
              None \<Rightarrow> regdom_end cur (Some next)
            | Some next1 \<Rightarrow> regdom_walk lookup cur (Some next) next1)))"
  by pat_completeness auto
termination
proof (relation "measure (\<lambda>(lookup, prev, cur, s). length s)")
  fix lookup :: "string \<Rightarrow> regdom_rule option" and prev cur :: "string option" and s t u
  assume t: "t = dropWhile (\<lambda>c. c = CHR ''.'') s" and u: "strchr t (CHR ''.'') = Some u"
  have "t \<noteq> []" using u by auto
  then have "hd t \<noteq> CHR ''.''" using hd_dropWhile [of "\<lambda>c. c = CHR ''.''" s] t by simp
  then have "length u < length t" by (rule strchr_shorter [OF u])
  also have "\<dots> \<le> length s" using t by (simp add: length_dropWhile_le)
  finally show "((lookup, cur, Some t, u), lookup, prev, cur, s) \<in> measure (\<lambda>(lookup, prev, cur, s). length s)"
    by simp
qed simp

declare regdom_walk.simps [simp del]

definition regdom :: "(string \<Rightarrow> regdom_rule option) \<Rightarrow> string option \<Rightarrow> string option" where
  "regdom lookup name =
     (case name of
        None \<Rightarrow> None
      | Some s \<Rightarrow> if s \<noteq> [] \<and> hd s = CHR ''.'' then None else regdom_walk lookup None None s)"

text \<open>\<open>regdom_punycode\<close>: the return value and the buffer.\<close>

definition regdom_punycode ::
  "(string \<Rightarrow> nat list option) \<Rightarrow> (nat list \<Rightarrow> nat \<Rightarrow> string option) \<Rightarrow> regdom_table \<Rightarrow>
   mem \<Rightarrow> int \<Rightarrow> string option \<Rightarrow> (int \<times> string \<times> mem) option" where
  "regdom_punycode ucs4 punycode tbl mem sz name =
     (case name of
        None \<Rightarrow> Some (0, [], mem)
      | Some s \<Rightarrow>
          (case regdom_idna ucs4 punycode mem 1024 s of
             ((r, puny), mem1) \<Rightarrow>
               if r \<noteq> 0 then Some (-1, [], mem1)
               else do {
                 p \<leftarrow> puny;
                 Some (case regdom (sht_lookup tbl) (Some p) of
                         None \<Rightarrow> (0, [], mem1)
                       | Some d \<Rightarrow>
                           if int (length d) \<ge> sz then (-1, [], mem1) else (int (length d), d, mem1)) }))"


subsection \<open>Where the walk ends\<close>

lemma strip_spaces_id: "strip_spaces s = s"
proof -
  have "\<not> isspace (char_at s (length s))" by (simp add: isspace_def char_at_def)
  then have "strip_pos s (length s) = length s" by (cases "length s") simp_all
  then show ?thesis by (simp add: strip_spaces_def)
qed

text \<open>A domain name as the list of its labels.\<close>

fun dotted :: "string list \<Rightarrow> string" where
  "dotted [] = []"
| "dotted [l] = l"
| "dotted (l # ls) = l @ CHR ''.'' # dotted ls"

definition label_ok :: "string \<Rightarrow> bool" where
  "label_ok l \<longleftrightarrow> l \<noteq> [] \<and> CHR ''.'' \<notin> set l"

text \<open>
  The answer in terms of labels. The longest suffix that is a rule decides: an exception is the
  registered domain itself, a plain rule needs one more label, a wildcard rule two; with no rule
  at all the last two labels are the answer.
\<close>

definition suffix_opt :: "string list \<Rightarrow> nat \<Rightarrow> nat \<Rightarrow> string option" where
  "suffix_opt labels k i = (if k \<le> i then Some (dotted (drop (i - k) labels)) else None)"

definition regdom_spec :: "(string \<Rightarrow> regdom_rule option) \<Rightarrow> string list \<Rightarrow> string option" where
  "regdom_spec lookup labels =
     (case find (\<lambda>i. lookup (dotted (drop i labels)) \<noteq> None) [0..<length labels] of
        None \<Rightarrow> suffix_opt labels 2 (length labels)
      | Some i \<Rightarrow>
          (case lookup (dotted (drop i labels)) of
             None \<Rightarrow> None
           | Some r \<Rightarrow>
               if r_exception r then suffix_opt labels 0 i
               else if r_wildcard r then suffix_opt labels 2 i
               else suffix_opt labels 1 i))"

lemma dotted_Cons: "ls \<noteq> [] \<Longrightarrow> dotted (l # ls) = l @ CHR ''.'' # dotted ls"
  by (cases ls) simp_all

lemma hd_dotted: "label_ok l \<Longrightarrow> dotted (l # ls) \<noteq> [] \<and> hd (dotted (l # ls)) \<noteq> CHR ''.''"
  by (cases ls; cases l) (auto simp: label_ok_def)

lemma strchr_dotted:
  assumes "label_ok l"
  shows "strchr (dotted (l # ls)) (CHR ''.'') = (if ls = [] then None else Some (CHR ''.'' # dotted ls))"
  using assms by (cases ls) (auto simp: label_ok_def strchr_None strchr_append)

lemma dropWhile_hd: "s = [] \<or> \<not> P (hd s) \<Longrightarrow> dropWhile P s = s"
  by (cases s) auto

lemma walk_dot: "regdom_walk lookup prev cur (CHR ''.'' # s) = regdom_walk lookup prev cur s"
  by (subst (1 2) regdom_walk.simps) simp

lemma find_upt_first:
  assumes "i < n" and "\<And>j. j < i \<Longrightarrow> \<not> P j" and "P i"
  shows "find P [0..<n] = Some i"
proof -
  have "[0..<n] = [0..<i] @ i # [Suc i..<n]"
    using assms(1) by (metis le_add1 less_imp_le_nat plus_nat.add_0 upt_add_eq_append upt_conv_Cons le0 le_add_diff_inverse)
  moreover have "find P [0..<i] = None" using assms(2) by (auto simp: find_None_iff)
  moreover have "find P (xs @ ys) = find P ys" if "find P xs = None" for xs ys
    using that by (induction xs) (auto split: if_splits)
  ultimately show ?thesis using assms(3) by simp
qed

lemma regdom_end_suffix:
  assumes "\<And>l. l \<in> set labels \<Longrightarrow> label_ok l" and "i < length labels"
  shows "regdom_end prev (suffix_opt labels 1 i) = suffix_opt labels 1 i"
proof (cases i)
  case (Suc j)
  with assms(2) have "drop j labels = labels ! j # drop i labels" by (simp add: Cons_nth_drop_Suc)
  moreover have "drop i labels \<noteq> []" using assms(2) by simp
  ultimately show ?thesis
    using Suc strchr_dotted [of "labels ! j" "drop i labels"] assms
    by (simp add: suffix_opt_def regdom_end_def)
qed (simp add: suffix_opt_def regdom_end_def)

lemma walk_from:
  assumes labels: "\<And>l. l \<in> set labels \<Longrightarrow> label_ok l"
    and "i < length labels" and "\<And>j. j < i \<Longrightarrow> lookup (dotted (drop j labels)) = None"
  shows "regdom_walk lookup (suffix_opt labels 2 i) (suffix_opt labels 1 i) (dotted (drop i labels)) =
    regdom_spec lookup labels"
  using assms(2,3)
proof (induction "length labels - i" arbitrary: i)
  case (Suc m)
  let ?s = "dotted (drop i labels)" and ?P = "\<lambda>i. lookup (dotted (drop i labels)) \<noteq> None"
  have drop: "drop i labels = labels ! i # drop (Suc i) labels"
    using Suc.prems(1) by (simp add: Cons_nth_drop_Suc)
  have l: "label_ok (labels ! i)" using labels Suc.prems(1) by simp
  have nodot: "dropWhile (\<lambda>c. c = CHR ''.'') ?s = ?s"
    using hd_dotted [OF l] by (intro dropWhile_hd) (simp add: drop)
  show ?case
  proof (cases "lookup ?s")
    case (Some r)
    have "find ?P [0..<length labels] = Some i"
      by (rule find_upt_first [OF Suc.prems(1)]) (simp_all add: Suc.prems(2) Some)
    then show ?thesis
      using Some nodot regdom_end_suffix [OF labels Suc.prems(1)]
      by (subst regdom_walk.simps) (simp add: regdom_spec_def suffix_opt_def)
  next
    case None
    show ?thesis
    proof (cases "Suc i = length labels")
      case True
      have "find ?P [0..<length labels] = None"
        unfolding True [symmetric] using Suc.prems(2) None by (auto simp: find_None_iff less_Suc_eq)
      moreover have "length labels - 2 = i - Suc 0" using True by linarith
      ultimately show ?thesis
        using None nodot True strchr_dotted [OF l, of "[]"]
        by (subst regdom_walk.simps) (auto simp: drop regdom_spec_def suffix_opt_def regdom_end_def)
    next
      case False
      then have more: "drop (Suc i) labels \<noteq> []" "Suc i < length labels" using Suc.prems(1) by auto
      have "regdom_walk lookup (suffix_opt labels 2 i) (suffix_opt labels 1 i) ?s =
          regdom_walk lookup (suffix_opt labels 1 i) (Some ?s) (dotted (drop (Suc i) labels))"
        using None nodot strchr_dotted [OF l, of "drop (Suc i) labels"] more(1)
        by (subst regdom_walk.simps) (simp add: drop walk_dot)
      moreover have "suffix_opt labels 1 i = suffix_opt labels 2 (Suc i)" "Some ?s = suffix_opt labels 1 (Suc i)"
        by (simp_all add: suffix_opt_def)
      moreover have "lookup (dotted (drop j labels)) = None" if "j < Suc i" for j
        using that None Suc.prems(2) by (cases "j = i") auto
      ultimately show ?thesis using Suc.hyps(1) [of "Suc i"] Suc.hyps(2) more(2) by simp
    qed
  qed
qed simp

lemma regdom_walk_spec:
  assumes "labels \<noteq> []" and "\<forall>l \<in> set labels. label_ok l"
  shows "regdom lookup (Some (dotted labels)) = regdom_spec lookup labels"
proof -
  obtain l ls where "labels = l # ls" using assms(1) by (cases labels) auto
  with assms(2) hd_dotted [of l ls] have "hd (dotted labels) \<noteq> CHR ''.''" by auto
  then show ?thesis
    using walk_from [of labels 0 lookup] assms by (simp add: regdom_def suffix_opt_def)
qed

text \<open>
  C7: On a host name of at least one label, without empty labels, \<open>regdom\<close> computes the
  registered domain of the public suffix rules as \<open>regdom_spec\<close> states it in terms of labels.
\<close>

theorem regdom_correct:
  assumes "labels \<noteq> []" and "\<forall>l \<in> set labels. label_ok l"
  shows "regdom lookup (Some (dotted labels)) = regdom_spec lookup labels"
  using assms by (rule regdom_walk_spec)

definition rule_com :: "string \<Rightarrow> regdom_rule option" where
  "rule_com s = (if s = ''uk'' then Some \<lparr>r_name = ''uk'', r_exception = False, r_wildcard = True\<rparr> else None)"

theorem regdom_correct_witness:
  "regdom rule_com (Some (dotted [''www'', ''mopher'', ''co'', ''uk''])) = Some ''mopher.co.uk''"
proof -
  have "regdom rule_com (Some (dotted [''www'', ''mopher'', ''co'', ''uk''])) =
      regdom_spec rule_com [''www'', ''mopher'', ''co'', ''uk'']"
    by (rule regdom_correct) (simp_all add: label_ok_def)
  also have "\<dots> = Some ''mopher.co.uk''" by (simp add: regdom_spec_def rule_com_def suffix_opt_def upt_rec)
  finally show ?thesis .
qed

text \<open>The pointer the walk holds in \<open>prev\<close> and \<open>cur\<close> is a suffix whose lookup failed.\<close>

definition no_suffix_rule :: "(string \<Rightarrow> regdom_rule option) \<Rightarrow> string \<Rightarrow> string \<Rightarrow> bool" where
  "no_suffix_rule lookup name d \<longleftrightarrow>
     (\<exists>p. name = p @ d) \<and> (case lookup d of None \<Rightarrow> True | Some r \<Rightarrow> r_exception r)"

lemma suffix_trans: "\<exists>p. name = p @ s \<Longrightarrow> \<exists>p. s = p @ t \<Longrightarrow> \<exists>p. name = p @ (t :: string)"
  by (metis append.assoc)

lemma walk_safe:
  "regdom_walk lookup prev cur s = Some d \<Longrightarrow> \<exists>p. name = p @ s \<Longrightarrow>
   (\<And>x. prev = Some x \<Longrightarrow> no_suffix_rule lookup name x) \<Longrightarrow>
   (\<And>x. cur = Some x \<Longrightarrow> no_suffix_rule lookup name x) \<Longrightarrow> no_suffix_rule lookup name d"
proof (induction lookup prev cur s rule: regdom_walk.induct)
  case (1 lookup prev cur s)
  let ?t = "dropWhile (\<lambda>c. c = CHR ''.'') s"
  have "\<exists>p. s = p @ ?t" by (metis takeWhile_dropWhile_id)
  then have t: "\<exists>p. name = p @ ?t" by (rule suffix_trans [OF "1.prems"(2)])
  show ?case
  proof (cases "lookup ?t")
    case (Some r)
    show ?thesis
    proof (cases "r_exception r")
      case True
      with Some "1.prems"(1) have "d = ?t" by (subst (asm) regdom_walk.simps) simp
      with True Some t show ?thesis by (simp add: no_suffix_rule_def)
    next
      case False
      with Some "1.prems" show ?thesis
        by (subst (asm) regdom_walk.simps) (auto simp: regdom_end_def split: if_splits option.splits)
    qed
  next
    case None
    with t have nt: "no_suffix_rule lookup name ?t" by (simp add: no_suffix_rule_def)
    show ?thesis
    proof (cases "strchr ?t (CHR ''.'')")
      case None': None
      with None "1.prems" nt show ?thesis
        by (subst (asm) regdom_walk.simps) (auto simp: regdom_end_def)
    next
      case (Some u)
      have "\<exists>p. ?t = p @ u" using strchr_Some [OF Some] by blast
      then have "\<exists>p. name = p @ u" by (rule suffix_trans [OF t])
      moreover have "regdom_walk lookup cur (Some ?t) u = Some d"
        using "1.prems"(1) None Some by (subst (asm) regdom_walk.simps) simp
      ultimately show ?thesis using "1.IH" [OF refl None Some] "1.prems"(4) nt by auto
    qed
  qed
qed

text \<open>
  For every name at all, what \<open>regdom\<close> returns is a suffix of the name, and it is never a
  public suffix: it has no rule, or its rule is an exception.
\<close>

theorem regdom_never_public_suffix:
  assumes "regdom lookup (Some name) = Some d"
  shows "(\<exists>p. name = p @ d) \<and> (case lookup d of None \<Rightarrow> True | Some r \<Rightarrow> r_exception r)"
  using assms walk_safe [of lookup None None name d name]
  by (auto simp: regdom_def no_suffix_rule_def split: if_splits)

theorem regdom_never_public_suffix_witness:
  "regdom rule_com (Some (dotted [''a'', ''b'', ''uk''])) = Some ''a.b.uk'' \<and>
   (\<exists>p. ''a.b.uk'' = p @ ''a.b.uk'') \<and> rule_com ''a.b.uk'' = None"
proof -
  have "regdom rule_com (Some (dotted [''a'', ''b'', ''uk''])) = regdom_spec rule_com [''a'', ''b'', ''uk'']"
    by (rule regdom_walk_spec) (simp_all add: label_ok_def)
  also have "\<dots> = Some ''a.b.uk''" by (simp add: regdom_spec_def rule_com_def suffix_opt_def upt_rec)
  finally have r: "regdom rule_com (Some ''a.b.uk'') = Some ''a.b.uk''" by simp
  from regdom_never_public_suffix [OF r] r show ?thesis by (simp add: rule_com_def)
qed

subsection \<open>Loaded rules\<close>

lemma regdom_add_exec:
  assumes "sht_ok t" and "Suc (sht_size t) < 2 ^ 30" and "sht_full t"
  shows "regdom_add [] t name w e =
    (if sht_abs t name = None
     then Inr (sht_exec t (Insert name \<lparr>r_name = name, r_exception = e, r_wildcard = w\<rparr>)) else Inl Died, [])"
proof (cases "sht_map t name")
  case None
  let ?rule = "\<lparr>r_name = name, r_exception = e, r_wildcard = w\<rparr>"
  obtain t' where "sht_insert [] t name (Some ?rule) = (0, t', [])"
    using sht_insert_new [OF _ _ None, of "Some ?rule"] assms(1,2) by (auto simp: sht_room_def ht_room_def)
  with None assms(3) show ?thesis
    by (simp add: regdom_add_def regdom_rule_create_def sht_full_None)
next
  case (Some sr)
  with assms(3) have "sht_abs t name \<noteq> None" by (simp add: sht_full_None)
  with Some sht_insert_old [OF assms(1), of name] show ?thesis
    by (simp add: regdom_add_def regdom_rule_create_def)
qed

lemma regdom_add_ok:
  assumes "sht_ok t" and "Suc (sht_size t) < 2 ^ 30" and "sht_full t"
    and "regdom_add [] t name w e = (Inr t', mem)"
  shows "mem = [] \<and> sht_ok t' \<and> sht_full t' \<and> sht_size t' \<le> Suc (sht_size t) \<and>
    sht_abs t name = None \<and>
    sht_abs t' = (sht_abs t)(name \<mapsto> \<lparr>r_name = name, r_exception = e, r_wildcard = w\<rparr>)"
  using assms(4) regdom_add_exec [OF assms(1-3), of name w e]
    sht_insert_exec [OF assms(1-3), of name "\<lparr>r_name = name, r_exception = e, r_wildcard = w\<rparr>"]
  by (auto split: if_splits)


text \<open>The rule a line stands for, once its comment is cut off.\<close>

definition line_rule :: "string \<Rightarrow> regdom_rule" where
  "line_rule line =
     (let (n, w, e) = rule_of_line (strip_comment line) in \<lparr>r_name = n, r_exception = e, r_wildcard = w\<rparr>)"

lemma load_line_ok:
  assumes ok: "sht_ok t" "sht_full t" and room: "Suc (Suc (sht_size t)) < 2 ^ 30"
    and load: "load_line ucs4 punycode [] t line = Some (Inr t', mem)"
  shows "mem = [] \<and> sht_ok t' \<and> sht_full t' \<and> sht_size t' \<le> Suc (Suc (sht_size t)) \<and>
    sht_abs t \<subseteq>\<^sub>m sht_abs t' \<and>
    (strip_comment line \<noteq> [] \<longrightarrow> sht_abs t' (r_name (line_rule line)) = Some (line_rule line))"
proof (cases "strip_comment line = []")
  case True
  with load ok show ?thesis by (simp add: load_line_def strip_spaces_id)
next
  case False
  obtain n w e where rule: "rule_of_line (strip_comment line) = (n, w, e)" by (cases "rule_of_line (strip_comment line)")
  have lr: "line_rule line = \<lparr>r_name = n, r_exception = e, r_wildcard = w\<rparr>" by (simp add: line_rule_def rule)
  obtain t1 m1 where add: "regdom_add [] t n w e = (Inr t1, m1)"
    using load False by (auto simp: load_line_def strip_spaces_id rule split: prod.splits sum.splits)
  note t1 = regdom_add_ok [OF ok(1) _ ok(2) add]
  have m1: "m1 = []" and ok1: "sht_ok t1" "sht_full t1" and size1: "sht_size t1 \<le> Suc (sht_size t)"
    and abs1: "sht_abs t n = None" "sht_abs t1 = (sht_abs t)(n \<mapsto> line_rule line)"
    using t1 room lr by auto
  show ?thesis
  proof (cases "regdom_has_nonascii n")
    case nonascii: True
    obtain r puny m2 where idna: "regdom_idna ucs4 punycode m1 1024 n = ((r, puny), m2)"
      by (metis prod.exhaust)
    with load False add nonascii obtain p where "puny = Some p" "regdom_add m2 t1 p w e = (Inr t', mem)"
      by (auto simp: load_line_def strip_spaces_id rule bind_eq_Some_conv)
    moreover have "m2 = []" using idna m1 by (simp add: regdom_idna_def)
    ultimately have "mem = [] \<and> sht_ok t' \<and> sht_full t' \<and> sht_size t' \<le> Suc (sht_size t1) \<and>
        sht_abs t1 p = None \<and> sht_abs t' = (sht_abs t1)(p \<mapsto> \<lparr>r_name = p, r_exception = e, r_wildcard = w\<rparr>)"
      using regdom_add_ok [OF ok1(1) _ ok1(2)] size1 room by simp
    with abs1 size1 lr show ?thesis by (auto simp: map_le_def fun_upd_def)
  next
    case False
    with load \<open>strip_comment line \<noteq> []\<close> add have "t' = t1" "mem = m1"
      by (auto simp: load_line_def strip_spaces_id rule)
    with m1 ok1 size1 abs1 lr show ?thesis by (auto simp: map_le_def)
  qed
qed

lemma load_lines_ok:
  assumes "sht_ok t" and "sht_full t" and "sht_size t + 2 * length ls < 2 ^ 30"
    and "load_lines ucs4 punycode [] t ls = Some (Inr t', mem)"
  shows "sht_ok t' \<and> sht_abs t \<subseteq>\<^sub>m sht_abs t' \<and>
    (\<forall>l \<in> set ls. strip_comment l \<noteq> [] \<longrightarrow> sht_abs t' (r_name (line_rule l)) = Some (line_rule l))"
  using assms
proof (induction ls arbitrary: t)
  case (Cons l ls)
  from Cons.prems(4) obtain r m1 where r: "load_line ucs4 punycode [] t l = Some (r, m1)"
    and c: "(case r of Inl e \<Rightarrow> Some (Inl e, m1) | Inr t1 \<Rightarrow> load_lines ucs4 punycode m1 t1 ls) = Some (Inr t', mem)"
    by (auto simp: bind_eq_Some_conv)
  then obtain t1 where load: "load_line ucs4 punycode [] t l = Some (Inr t1, m1)"
    and rest: "load_lines ucs4 punycode m1 t1 ls = Some (Inr t', mem)"
    by (cases r) auto
  have step: "m1 = []" "sht_ok t1" "sht_full t1" "sht_size t1 \<le> Suc (Suc (sht_size t))" "sht_abs t \<subseteq>\<^sub>m sht_abs t1"
    "strip_comment l \<noteq> [] \<longrightarrow> sht_abs t1 (r_name (line_rule l)) = Some (line_rule l)"
    using load_line_ok [OF Cons.prems(1,2) _ load] Cons.prems(3) by auto
  with Cons.IH [OF step(2,3)] rest Cons.prems(3)
  have ih: "sht_ok t'" "sht_abs t1 \<subseteq>\<^sub>m sht_abs t'"
    "\<forall>l \<in> set ls. strip_comment l \<noteq> [] \<longrightarrow> sht_abs t' (r_name (line_rule l)) = Some (line_rule l)" by auto
  have "sht_abs t \<subseteq>\<^sub>m sht_abs t'" using step(5) ih(2) by (rule map_le_trans)
  moreover have "strip_comment l \<noteq> [] \<longrightarrow> sht_abs t' (r_name (line_rule l)) = Some (line_rule l)"
    using step(6) ih(2) by (auto simp: map_le_def dom_def)
  ultimately show ?case using ih by simp
qed (auto simp: map_le_def)

lemma regdom_fresh:
  obtains t :: regdom_table where "sht_init [] REGDOM_BUCKETS True = (Some t, [])" and "sht_ok t" and "sht_full t"
    and "sht_abs t = Map.empty" and "sht_size t = 0"
proof -
  obtain t :: regdom_table where t: "sht_create [] REGDOM_BUCKETS True = Some (Some t, [])" "sht_ok t" "sht_map t = Map.empty"
    using sht_create_ok [where ?'d = regdom_rule, of REGDOM_BUCKETS True] by (auto simp: REGDOM_BUCKETS_def)
  have "concat (ht_table (sht_ht t)) = []"
    using t(3) by (simp add: sht_map_def ht_map_def map_of_eq_empty_iff del: concat_eq_Nil_conv)
  then have "sht_size t = 0" by (simp only: list.size)
  moreover have "sht_full t" "sht_abs t = Map.empty" by (simp_all add: sht_full_def sht_abs_def t(3) fun_eq_iff)
  ultimately show ?thesis using t that by (auto simp: sht_create_def split: option.splits prod.splits)
qed

text \<open>
  When \<open>regdom_init\<close> returns (it ends the program on duplicate rules), the table finds the
  rule of every line of the file that is not empty or a comment, with the wildcard and exception
  flags of the line.
\<close>

theorem regdom_rules_loaded:
  assumes "regdom_init ucs4 punycode [] (Some content) = Some (Inr tbl, mem)"
    and "length (tokens (CHR 0x0A) content) < 2 ^ 28"
    and "line \<in> set (tokens (CHR 0x0A) content)" and "strip_comment line \<noteq> []"
  shows "sht_lookup tbl (r_name (line_rule line)) = Some (line_rule line)"
proof -
  obtain t :: regdom_table where t: "sht_init [] REGDOM_BUCKETS True = (Some t, [])" "sht_ok t" "sht_full t" "sht_size t = 0"
    by (rule regdom_fresh) blast
  with assms(1) have load: "load_lines ucs4 punycode [] t (tokens (CHR 0x0A) content) = Some (Inr tbl, mem)"
    by (auto simp: regdom_init_def regdom_load_rules_def split: if_splits)
  have "2 * length (tokens (CHR 0x0A) content) < 2 ^ 30" using assms(2) by simp
  then have "sht_size t + 2 * length (tokens (CHR 0x0A) content) < 2 ^ 30" unfolding t(4) by (simp only: add_0)
  from load_lines_ok [OF t(2,3) this load] assms(3,4)
  have "sht_ok tbl" "sht_abs tbl (r_name (line_rule line)) = Some (line_rule line)" by auto
  then show ?thesis by (simp add: sht_lookup_map sht_abs_def)
qed


theorem regdom_rules_loaded_witness:
  "\<exists>tbl. regdom_init (\<lambda>_. None) (\<lambda>_ _. None) [] (Some ''*.uk // x'') = Some (Inr tbl, []) \<and>
     sht_lookup tbl ''uk '' = Some \<lparr>r_name = ''uk '', r_exception = False, r_wildcard = True\<rparr>"
proof -
  obtain t :: regdom_table where t: "sht_init [] REGDOM_BUCKETS True = (Some t, [])" "sht_ok t" "sht_full t"
    "sht_abs t = Map.empty" "sht_size t = 0"
    by (rule regdom_fresh)
  have toks: "tokens (CHR 0x0A) ''*.uk // x'' = [''*.uk // x'']" by (simp add: tokens.simps)
  have rule: "rule_of_line ''*.uk '' = (''uk '', True, False)"
    by (simp add: rule_of_line_def regdom_has_nonascii_def util_tolower_def isupper_def)
  have ascii: "\<not> regdom_has_nonascii ''uk ''" by (simp add: regdom_has_nonascii_def)
  have "load_line (\<lambda>_. None) (\<lambda>_ _. None) [] t ''*.uk // x'' = Some (regdom_add [] t ''uk '' True False)"
    using ascii by (simp add: load_line_def strip_spaces_id rule split: sum.split prod.split)
  also have "regdom_add [] t ''uk '' True False =
      (Inr (sht_exec t (Insert ''uk '' \<lparr>r_name = ''uk '', r_exception = False, r_wildcard = True\<rparr>)), [])"
    using regdom_add_exec [OF t(2) _ t(3)] t(4,5) by simp
  finally obtain tbl where init: "regdom_init (\<lambda>_. None) (\<lambda>_ _. None) [] (Some ''*.uk // x'') = Some (Inr tbl, [])"
    by (simp add: regdom_init_def regdom_load_rules_def t(1) toks)
  have "sht_lookup tbl (r_name (line_rule ''*.uk // x'')) = Some (line_rule ''*.uk // x'')"
    by (rule regdom_rules_loaded [OF init]) (simp_all add: toks)
  then show ?thesis using init by (simp add: line_rule_def rule)
qed

end
