(* ===== verification/Var.thy ===== *)
theory Var
  imports Util
begin

section \<open>Typed values (var.c)\<close>

text \<open>
  The values that mailspecs, rules and database records are made of: \<open>src/src/var.c\<close>. A
  \<open>var_t\<close> is a type tag, a name, a data pointer that may be \<open>NULL\<close> and flags. The order of the
  type tags decides which operand of an operation is cast. From here on every allocation
  succeeds: its failure is one more error return everywhere.

  Doubles are their 64 bits; the operations on them, the conversions of addresses to text and the
  layout of a \<open>sockaddr_storage\<close> are fields of the record \<open>libc\<close>, an argument of the operations
  that use them. Data whose constructor does not fit the type tag makes an operation fail: C
  gives such an access no meaning, and no operation creates such data.
\<close>

type_synonym double = u64

record libc =
  fl_lt :: "double \<Rightarrow> double \<Rightarrow> bool"
  fl_add :: "double \<Rightarrow> double \<Rightarrow> double"
  fl_sub :: "double \<Rightarrow> double \<Rightarrow> double"
  fl_mul :: "double \<Rightarrow> double \<Rightarrow> double"
  fl_div :: "double \<Rightarrow> double \<Rightarrow> double"
  fl_of_int :: "int \<Rightarrow> double"
  fl_to_int :: "double \<Rightarrow> int option"
  fl_is_zero :: "double \<Rightarrow> bool"
  fl_show :: "double \<Rightarrow> string"
  fl_strtof :: "string \<Rightarrow> double"
  fl_atof :: "string \<Rightarrow> double"
  ntop4 :: "u32 \<Rightarrow> string option"
  ntop6 :: "byte list \<Rightarrow> string option"
  pton4 :: "string \<Rightarrow> u32 option"
  pton6 :: "string \<Rightarrow> byte list option"
  ptr_show :: "nat \<Rightarrow> string"
  ss_bytes :: "sockaddr \<Rightarrow> byte list"
  ss_read :: "byte list \<Rightarrow> sockaddr"

subsection \<open>Types and values\<close>

datatype vtype =
  VT_NULL | VT_TABLE | VT_LIST | VT_ADDR | VT_INT | VT_FLOAT | VT_POINTER | VT_STRING | VT_BLOB

fun vt_num :: "vtype \<Rightarrow> nat" where
  "vt_num VT_NULL = 0"
| "vt_num VT_TABLE = 1"
| "vt_num VT_LIST = 2"
| "vt_num VT_ADDR = 3"
| "vt_num VT_INT = 4"
| "vt_num VT_FLOAT = 5"
| "vt_num VT_POINTER = 6"
| "vt_num VT_STRING = 7"
| "vt_num VT_BLOB = 8"

lemma vt_num_inj [simp]: "vt_num s = vt_num t \<longleftrightarrow> s = t"
  by (cases s; cases t) simp_all

instantiation vtype :: linorder
begin

definition less_eq_vtype :: "vtype \<Rightarrow> vtype \<Rightarrow> bool" where
  "less_eq_vtype s t \<longleftrightarrow> vt_num s \<le> vt_num t"

definition less_vtype :: "vtype \<Rightarrow> vtype \<Rightarrow> bool" where
  "less_vtype s t \<longleftrightarrow> vt_num s < vt_num t"

instance
  by standard (auto simp: less_eq_vtype_def less_vtype_def)

end

text \<open>Items of a list may be \<open>NULL\<close> pointers; a table holds variables with distinct names.\<close>

datatype vdata =
    DInt int
  | DFloat double
  | DString string
  | DAddr sockaddr
  | DBlob blob
  | DList "var option list"
  | DTable "var list"
  | DPointer nat
and var = Var (v_type: vtype) (v_name: "string option") (v_data: "vdata option") (v_flags: u32)

text \<open>What a data pointer of a type points to; \<open>None\<close> for \<open>NULL\<close>, which only addresses may be.\<close>

definition as_int :: "vdata option \<Rightarrow> int option" where
  "as_int d = (case d of Some (DInt i) \<Rightarrow> Some i | _ \<Rightarrow> None)"

definition as_float :: "vdata option \<Rightarrow> double option" where
  "as_float d = (case d of Some (DFloat f) \<Rightarrow> Some f | _ \<Rightarrow> None)"

definition as_string :: "vdata option \<Rightarrow> string option" where
  "as_string d = (case d of Some (DString s) \<Rightarrow> Some s | _ \<Rightarrow> None)"

definition as_blob :: "vdata option \<Rightarrow> blob option" where
  "as_blob d = (case d of Some (DBlob b) \<Rightarrow> Some b | _ \<Rightarrow> None)"

definition as_addr :: "vdata option \<Rightarrow> sockaddr option option" where
  "as_addr d = (case d of None \<Rightarrow> Some None | Some (DAddr a) \<Rightarrow> Some (Some a) | _ \<Rightarrow> None)"

lemmas as_defs = as_int_def as_float_def as_string_def as_blob_def as_addr_def

definition VF_COPYNAME :: u32 where "VF_COPYNAME = 1"
definition VF_COPYDATA :: u32 where "VF_COPYDATA = 2"
definition VF_KEEPNAME :: u32 where "VF_KEEPNAME = 4"
definition VF_KEEPDATA :: u32 where "VF_KEEPDATA = 8"
definition VF_CREATE :: u32 where "VF_CREATE = 16"
definition VF_KEY :: u32 where "VF_KEY = 32"
definition VF_EXP_FREE :: u32 where "VF_EXP_FREE = 64"
definition VF_KEEP :: u32 where "VF_KEEP = VF_KEEPNAME OR VF_KEEPDATA"
definition VF_COPY :: u32 where "VF_COPY = VF_COPYNAME OR VF_COPYDATA"

lemmas vf_defs = VF_COPYNAME_def VF_COPYDATA_def VF_KEEPNAME_def VF_KEEPDATA_def VF_CREATE_def
  VF_KEY_def VF_EXP_FREE_def VF_KEEP_def VF_COPY_def

definition has_flag :: "u32 \<Rightarrow> u32 \<Rightarrow> bool" where
  "has_flag flags f \<longleftrightarrow> flags AND f \<noteq> 0"

subsection \<open>Creating and copying\<close>

definition sanitize :: "u32 \<Rightarrow> u32" where
  "sanitize flags =
     (let f1 = (if has_flag flags VF_COPYNAME \<and> has_flag flags VF_KEEPNAME then flags XOR VF_KEEPNAME else flags) in
      if has_flag f1 VF_COPYDATA \<and> has_flag f1 VF_KEEPDATA then f1 XOR VF_KEEPDATA else f1)"

text \<open>
  \<open>var_data_create\<close> for lists and tables, which are created empty: only they are created with \<open>VF_CREATE\<close>. The
  buffers that it allocates for the other types have no contents yet and no value here.
\<close>

fun var_data_create :: "vtype \<Rightarrow> vdata option" where
  "var_data_create VT_LIST = Some (DList [])"
| "var_data_create VT_TABLE = Some (DTable [])"
| "var_data_create _ = None"

text \<open>
  \<open>var_copy_data\<close>, \<open>var_copy_list_or_table\<close> and the \<open>var_create\<close> call in it. The copy of a list
  ends at its first \<open>NULL\<close> item. Pointers cannot be copied.
\<close>

fun var_copy_data :: "vtype \<Rightarrow> vdata \<Rightarrow> vdata option"
  and copy_items :: "var option list \<Rightarrow> var option list option"
  and copy_vars :: "var list \<Rightarrow> var list option"
  and copy_var :: "var \<Rightarrow> var option" where
  "var_copy_data t (DList xs) = (if t = VT_LIST then map_option DList (copy_items xs) else None)"
| "var_copy_data t (DTable xs) = (if t = VT_TABLE then map_option DTable (copy_vars xs) else None)"
| "var_copy_data t (DInt i) = (if t = VT_INT then Some (DInt i) else None)"
| "var_copy_data t (DFloat f) = (if t = VT_FLOAT then Some (DFloat f) else None)"
| "var_copy_data t (DString s) = (if t = VT_STRING then Some (DString s) else None)"
| "var_copy_data t (DAddr a) = (if t = VT_ADDR then Some (DAddr a) else None)"
| "var_copy_data t (DBlob b) = (if t = VT_BLOB then Some (DBlob b) else None)"
| "var_copy_data t (DPointer p) = None"
| "copy_items [] = Some []"
| "copy_items (None # xs) = Some []"
| "copy_items (Some v # xs) = do { c \<leftarrow> copy_var v; cs \<leftarrow> copy_items xs; Some (Some c # cs) }"
| "copy_vars [] = Some []"
| "copy_vars (v # vs) = do { c \<leftarrow> copy_var v; cs \<leftarrow> copy_vars vs; Some (c # cs) }"
| "copy_var (Var t n d f) =
     (let f1 = sanitize (f OR VF_COPY) in
      case d of
        None \<Rightarrow> Some (Var t n (if has_flag f1 VF_CREATE then var_data_create t else None) f1)
      | Some x \<Rightarrow> do { y \<leftarrow> var_copy_data t x; Some (Var t n (Some y) f1) })"

definition var_data_init :: "vtype \<Rightarrow> vdata option \<Rightarrow> u32 \<Rightarrow> vdata option" where
  "var_data_init t d flags =
     (if d = None \<and> has_flag flags VF_CREATE then var_data_create t
      else if \<not> has_flag flags VF_COPYDATA then d
      else case d of None \<Rightarrow> None | Some x \<Rightarrow> var_copy_data t x)"

definition var_init :: "vtype \<Rightarrow> string option \<Rightarrow> vdata option \<Rightarrow> u32 \<Rightarrow> var option" where
  "var_init t name d flags =
     (let f = sanitize flags; x = var_data_init t d f in
      if d \<noteq> None \<and> x = None then None else Some (Var t name x f))"

definition var_create :: "vtype \<Rightarrow> string option \<Rightarrow> vdata option \<Rightarrow> u32 \<Rightarrow> var option" where
  "var_create t name d flags = var_init t name d flags"

definition VAR_COPY :: "var \<Rightarrow> var option" where
  "VAR_COPY v = var_create (v_type v) (v_name v) (v_data v) VF_COPY"

definition var_rename :: "var \<Rightarrow> string option \<Rightarrow> u32 \<Rightarrow> var" where
  "var_rename v name flags =
     Var (v_type v) name (v_data v)
       (v_flags v AND NOT (VF_COPYNAME OR VF_KEEPNAME) OR (flags AND (VF_COPYNAME OR VF_KEEPNAME)))"

subsection \<open>Numbers as text\<close>

fun show_nat :: "nat \<Rightarrow> string" where
  "show_nat n = (if n < 10 then [char_of (48 + n)] else show_nat (n div 10) @ [char_of (48 + n mod 10)])"

declare show_nat.simps [simp del]

text \<open>\<open>%ld\<close>.\<close>

definition show_int :: "int \<Rightarrow> string" where
  "show_int i = (if i < 0 then CHR ''-'' # show_nat (nat (- i)) else show_nat (nat i))"

definition isdigit :: "char \<Rightarrow> bool" where
  "isdigit c \<longleftrightarrow> (48 :: nat) \<le> of_char c \<and> of_char c \<le> (57 :: nat)"

definition read_nat :: "string \<Rightarrow> nat" where
  "read_nat s = foldl (\<lambda>n c. 10 * n + (of_char c - 48)) 0 s"

text \<open>\<open>strtol\<close> in base 10: the number, and whether \<open>errno\<close> was set to \<open>ERANGE\<close>.\<close>

definition strtol :: "string \<Rightarrow> int \<times> bool" where
  "strtol s =
     (let t = dropWhile isspace s;
          (neg, u) = (case t of
                        [] \<Rightarrow> (False, [])
                      | c # cs \<Rightarrow> if c = CHR ''-'' then (True, cs) else if c = CHR ''+'' then (False, cs) else (False, t));
          n = int (read_nat (takeWhile isdigit u));
          x = (if neg then - n else n) in
      if x < - (2 ^ 63) then (- (2 ^ 63), True)
      else if x \<ge> 2 ^ 63 then (2 ^ 63 - 1, True)
      else (x, False))"

subsection \<open>Dumping\<close>

text \<open>
  \<open>var_dump_data\<close>, \<open>var_dump\<close> and \<open>var_dump_list_or_table\<close>: the return value and the characters
  they put in a buffer of the given size, or \<open>None\<close> when they write after its end. \<open>null\<close> is
  returned as four characters even where the buffer has no room for them, and the -1 of
  \<open>var_dump_data\<close> is added to the length in \<open>var_dump\<close>.
\<close>

definition dump_str :: "int \<Rightarrow> string \<Rightarrow> int \<times> string" where
  "dump_str sz s = (if int (length s) \<ge> sz then (-1, []) else (int (length s), s))"

type_synonym dumper = "int \<Rightarrow> (int \<times> string) option"

text \<open>
  The loop of \<open>var_dump_list_or_table\<close> over the dump functions of the items, then its end. Each
  piece is written at its position: what an item left behind it is overwritten.
\<close>

definition write_at :: "string \<Rightarrow> int \<Rightarrow> string \<Rightarrow> string" where
  "write_at buf len s = take (nat len) buf @ s"

fun dump_items :: "dumper option list \<Rightarrow> int \<Rightarrow> int \<Rightarrow> string \<Rightarrow> (int \<times> string) option" where
  "dump_items (Some item # items) sz len0 buf0 =
     (if len0 < sz then
        (let (len, buf) = (if len0 > 1 \<and> sz > len0 + 1 then (len0 + 1, write_at buf0 len0 '','') else (len0, buf0)) in
         do {
           (n, s) \<leftarrow> item (sz - len);
           if n = -1 then Some (-1, []) else dump_items items sz (len + n) (write_at buf len s) })
      else Some (len0, buf0))"
| "dump_items _ sz len buf = Some (len, buf)"

definition var_dump_list_or_table :: "char \<Rightarrow> char \<Rightarrow> dumper option list \<Rightarrow> dumper" where
  "var_dump_list_or_table opening closing items sz =
     do {
       (len, buf) \<leftarrow> dump_items items sz 1 (if sz > 1 then [opening] else []);
       Some (if len = -1 then (-1, [])
             else if sz > len + 1 then (len + 1, write_at buf len [closing])
             else (len, buf)) }"

definition dump_check :: "int \<Rightarrow> int \<times> string \<Rightarrow> int \<times> string" where
  "dump_check sz r = (if fst r \<ge> sz then (-1, []) else r)"

text \<open>\<open>var_dump\<close>, given the function that dumps the data.\<close>

definition dump_named :: "string option \<Rightarrow> dumper \<Rightarrow> dumper" where
  "dump_named n item sz =
     (let name = (case n of None \<Rightarrow> [] | Some x \<Rightarrow> x); nl = int (length name) in
      if n \<noteq> None \<and> nl \<ge> sz then Some (-1, [])
      else if nl + 1 \<ge> sz then None
      else do { (r, s) \<leftarrow> item (sz - (nl + 1)); Some (nl + 1 + r, name @ ''='' @ s) })"

primrec dump_vdata :: "libc \<Rightarrow> vdata \<Rightarrow> vtype \<Rightarrow> dumper"
  and dump_var :: "libc \<Rightarrow> var \<Rightarrow> string option \<times> dumper" where
  "dump_vdata L (DInt i) = (\<lambda>t sz. Some (if t = VT_INT then dump_str sz (show_int i) else (-1, [])))"
| "dump_vdata L (DFloat x) = (\<lambda>t sz. Some (if t = VT_FLOAT then dump_str sz (fl_show L x) else (-1, [])))"
| "dump_vdata L (DString s) = (\<lambda>t sz. Some (if t = VT_STRING then dump_str sz s else (-1, [])))"
| "dump_vdata L (DAddr a) = (\<lambda>t sz.
     Some (if t = VT_ADDR then
             (case (case a of Inet x _ \<Rightarrow> ntop4 L x | Inet6 x _ \<Rightarrow> ntop6 L x | Other_Family _ _ \<Rightarrow> None) of
                None \<Rightarrow> (-1, [])
              | Some s \<Rightarrow> dump_str sz s)
           else (-1, [])))"
| "dump_vdata L (DBlob b) = (\<lambda>t sz.
     Some (if t = VT_BLOB then
             (case blob_dump sz (Some b) of
                (r, s) \<Rightarrow> if r = -1 then (-1, []) else dump_check sz (r, case s of None \<Rightarrow> [] | Some x \<Rightarrow> x))
           else (-1, [])))"
| "dump_vdata L (DPointer p) = (\<lambda>t sz.
     Some (if t = VT_POINTER then dump_str sz (''('' @ ptr_show L p @ '')'') else (-1, [])))"
| "dump_vdata L (DList xs) = (\<lambda>t sz.
     if t = VT_LIST then
       map_option (dump_check sz)
         (var_dump_list_or_table (CHR ''('') (CHR '')'') (map (map_option (snd \<circ> dump_var L)) xs) sz)
     else Some (-1, []))"
| "dump_vdata L (DTable vs) = (\<lambda>t sz.
     if t = VT_TABLE then
       map_option (dump_check sz)
         (var_dump_list_or_table (CHR ''{'') (CHR ''}'')
           (map ((\<lambda>(n, item). Some (dump_named n item)) \<circ> dump_var L) vs) sz)
     else Some (-1, []))"
| "dump_var L (Var t n d f) =
     (n, \<lambda>sz. case map_option (dump_vdata L) d of
                 None \<Rightarrow> Some (4, take (nat (sz - 1)) ''null'')
               | Some item \<Rightarrow> item t sz)"

definition var_dump_data :: "libc \<Rightarrow> var \<Rightarrow> int \<Rightarrow> (int \<times> string) option" where
  "var_dump_data L v sz = snd (dump_var L v) sz"

definition var_dump :: "libc \<Rightarrow> var \<Rightarrow> int \<Rightarrow> (int \<times> string) option" where
  "var_dump L v sz = dump_named (v_name v) (var_dump_data L v) sz"

subsection \<open>Scanning\<close>

text \<open>\<open>var_scan_data\<close>: the data pointer, inside the option that is \<open>None\<close> where blob scanning is undefined.\<close>

definition var_scan_data :: "libc \<Rightarrow> vtype \<Rightarrow> string \<Rightarrow> vdata option option" where
  "var_scan_data L t str =
     (if str = ''null'' then Some None
      else case t of
        VT_STRING \<Rightarrow> Some (Some (DString str))
      | VT_INT \<Rightarrow> Some (Some (DInt (fst (strtol str))))
      | VT_FLOAT \<Rightarrow> Some (Some (DFloat (fl_atof L str)))
      | VT_ADDR \<Rightarrow> Some (map_option DAddr (fst (util_strtoaddr (pton4 L) (pton6 L) [] (Some str))))
      | VT_BLOB \<Rightarrow> do { (b, _) \<leftarrow> blob_scan [] (Some str); Some (map_option DBlob b) }
      | _ \<Rightarrow> Some None)"

definition var_scan :: "libc \<Rightarrow> vtype \<Rightarrow> string option \<Rightarrow> string option \<Rightarrow> var option option" where
  "var_scan L t name str =
     (case str of
        None \<Rightarrow> Some (var_create t name None VF_COPYNAME)
      | Some s \<Rightarrow>
          do {
            d \<leftarrow> var_scan_data L t s;
            Some (case d of None \<Rightarrow> None | Some x \<Rightarrow> var_create t name (Some x) VF_COPYNAME) })"

text \<open>\<open>var_scan_scheme\<close>: the fields of \<open>name=(a,b,c)\<close>, typed by a scheme.\<close>

fun scan_fields :: "libc \<Rightarrow> var option list \<Rightarrow> string option \<Rightarrow> var option list option option" where
  "scan_fields L (Some v # vs) (Some p) =
     (let field = takeWhile (\<lambda>c. c \<noteq> CHR '','') p;
          rest = map_option tl (strchr p (CHR '','')) in
      do {
        d \<leftarrow> var_scan_data L (v_type v) field;
        (case d of
           None \<Rightarrow> Some None
         | Some x \<Rightarrow>
             (case var_create (v_type v) (v_name v) (Some x) VF_KEEPNAME of
                None \<Rightarrow> Some None
              | Some item \<Rightarrow>
                  do {
                    r \<leftarrow> scan_fields L vs rest;
                    Some (map_option (\<lambda>items. Some item # items) r) })) })"
| "scan_fields L (Some v # vs) None = Some None"
| "scan_fields L _ (Some p) = Some None"
| "scan_fields L _ None = Some (Some [])"

definition var_scan_scheme :: "libc \<Rightarrow> var \<Rightarrow> string \<Rightarrow> var option option" where
  "var_scan_scheme L scheme str =
     (case strchr str (CHR ''='') of
        None \<Rightarrow> Some None
      | Some p \<Rightarrow>
          do {
            (copy, _) \<leftarrow> util_strdupenc [] (tl p) (CHR ''('') (CHR '')'');
            (case (copy, v_data scheme) of
               (Some s, Some (DList flds)) \<Rightarrow>
                 do {
                   items \<leftarrow> scan_fields L flds (Some s);
                   Some (map_option (\<lambda>xs. Var VT_LIST (v_name scheme) (Some (DList xs)) (VF_KEEPNAME OR VF_CREATE)) items) }
             | _ \<Rightarrow> None) })"


subsection \<open>Sizes and casts\<close>

text \<open>The bytes a data pointer points to.\<close>

definition double_bytes :: "double \<Rightarrow> byte list" where
  "double_bytes x = long_bytes (uint x)"

fun data_bytes :: "libc \<Rightarrow> vdata \<Rightarrow> byte list" where
  "data_bytes L (DInt i) = long_bytes i"
| "data_bytes L (DFloat x) = double_bytes x"
| "data_bytes L (DString s) = bytes_of s @ [0]"
| "data_bytes L (DAddr a) = ss_bytes L a"
| "data_bytes L (DBlob b) = blob_mem b"
| "data_bytes L _ = []"

definition sizeof_sockaddr :: int where
  "sizeof_sockaddr = 128"

definition var_data_size :: "var \<Rightarrow> int" where
  "var_data_size v =
     (case v_data v of
        None \<Rightarrow> 0
      | Some d \<Rightarrow>
          (case (v_type v, d) of
             (VT_STRING, DString s) \<Rightarrow> int (length s) + 1
           | (VT_INT, _) \<Rightarrow> 8
           | (VT_FLOAT, _) \<Rightarrow> 8
           | (VT_ADDR, _) \<Rightarrow> sizeof_sockaddr
           | (VT_BLOB, DBlob b) \<Rightarrow> b_size b
           | _ \<Rightarrow> 0))"

text \<open>
  The casts. The outer option is \<open>None\<close> where C has no meaning (a double outside the range of
  \<open>long\<close>), the inner one for a \<open>NULL\<close> result.
\<close>

definition var_as_int :: "libc \<Rightarrow> var \<Rightarrow> var option option" where
  "var_as_int L v =
     (let make = (\<lambda>i. var_create VT_INT (v_name v) (Some (DInt i)) VF_COPY) in
      case (v_type v, v_data v) of
        (VT_FLOAT, Some (DFloat f)) \<Rightarrow> do { i \<leftarrow> fl_to_int L f; Some (make i) }
      | (VT_STRING, Some (DString s)) \<Rightarrow>
          (case strtol s of (i, erange) \<Rightarrow> Some (make (if erange \<and> s \<noteq> ''0'' then int (length s) else i)))
      | (VT_ADDR, Some (DAddr a)) \<Rightarrow>
          (let i = util_addrtoint (Some a) in Some (if i \<noteq> -1 then make i else None))
      | _ \<Rightarrow> Some None)"

definition var_as_float :: "libc \<Rightarrow> var \<Rightarrow> var option option" where
  "var_as_float L v =
     (let make = (\<lambda>f. var_create VT_FLOAT (v_name v) (Some (DFloat f)) VF_COPY) in
      case (v_type v, v_data v) of
        (VT_INT, Some (DInt i)) \<Rightarrow> Some (make (fl_of_int L i))
      | (VT_STRING, Some (DString s)) \<Rightarrow> Some (make (fl_strtof L s))
      | _ \<Rightarrow> Some None)"

definition var_as_string :: "libc \<Rightarrow> var \<Rightarrow> var option option" where
  "var_as_string L v =
     do {
       (r, buffer) \<leftarrow> var_dump_data L v 1024;
       Some (if r = -1 then None else var_create VT_STRING (v_name v) (Some (DString buffer)) VF_COPY) }"

definition var_as_blob :: "libc \<Rightarrow> var \<Rightarrow> var option option" where
  "var_as_blob L v =
     (if v_type v \<in> {VT_INT, VT_FLOAT, VT_STRING, VT_ADDR} then
        do {
          (b, _) \<leftarrow> blob_create [] (map_option (data_bytes L) (v_data v)) (var_data_size v);
          Some (case b of None \<Rightarrow> None | Some x \<Rightarrow> var_create VT_BLOB (v_name v) (Some (DBlob x)) VF_COPYNAME) }
      else Some None)"

definition var_cast_copy :: "libc \<Rightarrow> vtype \<Rightarrow> var \<Rightarrow> var option option" where
  "var_cast_copy L t v =
     (if t = v_type v then Some (VAR_COPY v)
      else if v_data v = None then Some (var_create t (v_name v) None VF_COPYNAME)
      else case t of
        VT_INT \<Rightarrow> var_as_int L v
      | VT_FLOAT \<Rightarrow> var_as_float L v
      | VT_STRING \<Rightarrow> var_as_string L v
      | VT_BLOB \<Rightarrow> var_as_blob L v
      | _ \<Rightarrow> Some None)"

text \<open>\<open>var_intval\<close>; reading through a \<open>NULL\<close> data pointer is \<open>None\<close>.\<close>

definition var_intval :: "libc \<Rightarrow> var \<Rightarrow> int option" where
  "var_intval L v =
     (if v_type v = VT_INT then as_int (v_data v)
      else do {
        copy \<leftarrow> var_cast_copy L VT_INT v;
        (case copy of None \<Rightarrow> Some 0 | Some c \<Rightarrow> as_int (v_data c)) })"

subsection \<open>Comparison and truth\<close>

fun strcmp :: "string \<Rightarrow> string \<Rightarrow> int" where
  "strcmp [] [] = 0"
| "strcmp [] (y # ys) = - of_char y"
| "strcmp (x # xs) [] = of_char x"
| "strcmp (x # xs) (y # ys) = (if x = y then strcmp xs ys else of_char x - of_char y)"

definition var_compare_int :: "int \<Rightarrow> int \<Rightarrow> int" where
  "var_compare_int l r = (if l < r then -1 else if l > r then 1 else 0)"

definition var_compare_float :: "libc \<Rightarrow> double \<Rightarrow> double \<Rightarrow> int" where
  "var_compare_float L l r = (if fl_lt L l r then -1 else if fl_lt L r l then 1 else 0)"

text \<open>The \<open>switch\<close> of \<open>var_compare\<close>, on two values of the same type.\<close>

definition compare_data :: "libc \<Rightarrow> vtype \<Rightarrow> vdata option \<Rightarrow> vdata option \<Rightarrow> int option option" where
  "compare_data L t l r =
     (case t of
        VT_INT \<Rightarrow> do { x \<leftarrow> as_int l; y \<leftarrow> as_int r; Some (Some (var_compare_int x y)) }
      | VT_FLOAT \<Rightarrow> do { x \<leftarrow> as_float l; y \<leftarrow> as_float r; Some (Some (var_compare_float L x y)) }
      | VT_STRING \<Rightarrow> do { x \<leftarrow> as_string l; y \<leftarrow> as_string r; Some (Some (sign (strcmp x y))) }
      | VT_ADDR \<Rightarrow> do { x \<leftarrow> as_addr l; y \<leftarrow> as_addr r; Some (Some (util_addrcmp x y)) }
      | VT_BLOB \<Rightarrow> do { x \<leftarrow> as_blob l; y \<leftarrow> as_blob r; c \<leftarrow> blob_compare x y; Some (Some c) }
      | _ \<Rightarrow> Some None)"

definition var_compare :: "libc \<Rightarrow> var \<Rightarrow> var \<Rightarrow> int option option" where
  "var_compare L v1 v2 =
     (let t = max (v_type v1) (v_type v2) in
      if v_type v1 = v_type v2 then compare_data L t (v_data v1) (v_data v2)
      else if v_type v1 \<noteq> t then
        do {
          copy \<leftarrow> var_cast_copy L t v1;
          (case copy of None \<Rightarrow> Some None | Some left \<Rightarrow> compare_data L t (v_data left) (v_data v2)) }
      else
        do {
          copy \<leftarrow> var_cast_copy L t v2;
          (case copy of None \<Rightarrow> Some None | Some right \<Rightarrow> compare_data L t (v_data v1) (v_data right)) })"

text \<open>A zero address of the family, as \<open>var_true\<close> makes it.\<close>

fun zero_addr :: "sockaddr \<Rightarrow> sockaddr" where
  "zero_addr (Inet a p) = Inet 0 0"
| "zero_addr (Inet6 a p) = Inet6 (replicate 16 0) 0"
| "zero_addr (Other_Family f a) = Other_Family f (replicate 16 0)"

definition var_true :: "libc \<Rightarrow> var \<Rightarrow> bool" where
  "var_true L v =
     (case v_data v of
        None \<Rightarrow> False
      | Some d \<Rightarrow>
          (case (v_type v, d) of
             (VT_INT, DInt i) \<Rightarrow> i \<noteq> 0
           | (VT_FLOAT, DFloat f) \<Rightarrow> \<not> fl_is_zero L f
           | (VT_STRING, DString s) \<Rightarrow> if s = ''0'' then False else s \<noteq> []
           | (VT_ADDR, DAddr a) \<Rightarrow> util_addrcmp (Some a) (Some (zero_addr a)) \<noteq> 0
           | (VT_LIST, DList xs) \<Rightarrow> xs \<noteq> []
           | (VT_TABLE, DTable vs) \<Rightarrow> vs \<noteq> []
           | (VT_BLOB, DBlob b) \<Rightarrow> b_size b \<noteq> 0
           | (VT_POINTER, _) \<Rightarrow> True
           | _ \<Rightarrow> False))"

definition var_type_string :: "var \<Rightarrow> string" where
  "var_type_string v =
     (case v_type v of
        VT_INT \<Rightarrow> ''INT'' | VT_FLOAT \<Rightarrow> ''FLOAT'' | VT_STRING \<Rightarrow> ''STRING'' | VT_ADDR \<Rightarrow> ''ADDR''
      | VT_LIST \<Rightarrow> ''LIST'' | VT_TABLE \<Rightarrow> ''TABLE'' | VT_POINTER \<Rightarrow> ''POINTER'' | VT_BLOB \<Rightarrow> ''BLOB''
      | VT_NULL \<Rightarrow> ''!ERROR!'')"


subsection \<open>Comparison is antisymmetric\<close>

lemma memcmp_swap: "memcmp n ys xs = map_option uminus (memcmp n xs ys)"
  by (induction n xs ys rule: memcmp.induct) auto

lemma sign_uminus [simp]: "sign (- x) = - sign x"
  by (auto simp: sign_def)

lemma strcmp_swap: "strcmp ys xs = - strcmp xs ys"
  by (induction xs ys rule: strcmp.induct) auto

lemma strcmp_refl: "strcmp xs xs = 0"
  by (induction xs) simp_all

lemma util_addrcmp_swap: "util_addrcmp b a = - util_addrcmp a b"
proof (cases a; cases b)
  fix x y
  assume ab: "a = Some x" "b = Some y"
  show ?thesis
  proof (cases x; cases y)
    fix p q m n
    assume xy: "x = Inet6 p m" "y = Inet6 q n"
    show ?thesis
      using memcmp_swap [of 16 q p] by (cases "memcmp 16 p q") (simp_all add: util_addrcmp_def ab xy)
  qed (auto simp: util_addrcmp_def ab)
qed (simp_all add: util_addrcmp_def)

lemma blob_compare_swap: "blob_compare b a = map_option uminus (blob_compare a b)"
  unfolding blob_compare_def
  by (cases "b_size a" "b_size b" rule: linorder_cases) (simp_all add: memcmp_swap [of _ "blob_mem b" "blob_mem a"])

lemma bind_swap:
  assumes "\<And>x y. f y x = map_option (map_option uminus) (f x y)"
  shows "do { y \<leftarrow> r; x \<leftarrow> l; f y x } = map_option (map_option uminus) (do { x \<leftarrow> l; y \<leftarrow> r; f x y })"
  by (cases l; cases r; simp; rule assms)

lemma compare_data_swap:
  assumes "\<And>x y. fl_lt L x y \<Longrightarrow> \<not> fl_lt L y x"
  shows "compare_data L t r l = map_option (map_option uminus) (compare_data L t l r)"
proof (cases t)
  case VT_INT
  then show ?thesis by (simp add: compare_data_def) (rule bind_swap, simp add: var_compare_int_def)
next
  case VT_FLOAT
  then show ?thesis
    using assms by (simp add: compare_data_def) (rule bind_swap, auto simp: var_compare_float_def)
next
  case VT_STRING
  have swap: "sign (strcmp y x) = - sign (strcmp x y)" for x y by (metis sign_uminus strcmp_swap)
  from VT_STRING show ?thesis by (simp add: compare_data_def) (rule bind_swap, simp, rule swap)
next
  case VT_ADDR
  then show ?thesis by (simp add: compare_data_def) (rule bind_swap, simp, rule util_addrcmp_swap)
next
  case VT_BLOB
  have swap: "(blob_compare y x \<bind> (\<lambda>c. Some (Some c))) =
      map_option (map_option uminus) (blob_compare x y \<bind> (\<lambda>c. Some (Some c)))" for x y
    using blob_compare_swap [of y x] by (cases "blob_compare x y") simp_all
  from VT_BLOB show ?thesis by (simp add: compare_data_def) (rule bind_swap, rule swap)
qed (simp_all add: compare_data_def)

lemma util_addrcmp_range: "util_addrcmp a b \<in> {-1, 0, 1}"
  by (auto simp: util_addrcmp_def sign_def split: option.split sockaddr.split)

lemma compare_ranges:
  "sign x \<in> {-1, 0, 1}" "var_compare_int i j \<in> {-1, 0, 1}" "var_compare_float L f g \<in> {-1, 0, 1}"
  by (simp_all add: sign_def var_compare_int_def var_compare_float_def)

lemma compare_data_range:
  assumes "compare_data L t l r = Some (Some c)" and "t \<noteq> VT_BLOB"
  shows "c \<in> {-1, 0, 1}"
proof -
  from assms have "(\<exists>x. c = sign x) \<or> (\<exists>i j. c = var_compare_int i j) \<or>
      (\<exists>f g. c = var_compare_float L f g) \<or> (\<exists>a b. c = util_addrcmp a b)"
    by (cases t) (auto simp: compare_data_def bind_eq_Some_conv)
  then show ?thesis using compare_ranges util_addrcmp_range by (elim disjE exE) (simp_all only:)
qed

lemma var_compare_range:
  assumes "var_compare L v w = Some (Some c)" and "v_type v \<noteq> VT_BLOB" and "v_type w \<noteq> VT_BLOB"
  shows "c \<in> {-1, 0, 1}"
proof -
  have "max (v_type v) (v_type w) \<noteq> VT_BLOB" using assms(2,3) by (simp add: max_def)
  moreover obtain l r where "compare_data L (max (v_type v) (v_type w)) l r = Some (Some c)"
    using assms(1) by (auto simp: var_compare_def Let_def bind_eq_Some_conv split: if_split_asm option.split_asm)
  ultimately show ?thesis by (intro compare_data_range)
qed

lemma var_compare_swap:
  assumes "\<forall>x y. fl_lt L x y \<longrightarrow> \<not> fl_lt L y x"
  shows "var_compare L w v = map_option (map_option uminus) (var_compare L v w)"
proof -
  have swap: "compare_data L t r l = map_option (map_option uminus) (compare_data L t l r)" for t l r
    using assms by (intro compare_data_swap) auto
  have mx: "max (v_type w) (v_type v) = max (v_type v) (v_type w)" by (simp add: max.commute)
  show ?thesis
  proof (cases "v_type v = v_type w")
    case True
    then show ?thesis unfolding var_compare_def Let_def mx by (simp only: refl if_True) (rule swap)
  next
    case False
    let ?t = "max (v_type v) (v_type w)"
    have "v_type v = ?t \<and> v_type w \<noteq> ?t \<or> v_type v \<noteq> ?t \<and> v_type w = ?t"
      using False by (auto simp: max_def)
    then show ?thesis
    proof (elim disjE conjE)
      assume "v_type v = ?t" "v_type w \<noteq> ?t"
      with False show ?thesis unfolding var_compare_def Let_def mx
        by (cases "var_cast_copy L ?t w") (auto split: option.split intro: swap)
    next
      assume "v_type v \<noteq> ?t" "v_type w = ?t"
      with False show ?thesis unfolding var_compare_def Let_def mx
        by (cases "var_cast_copy L ?t v") (auto split: option.split intro: swap)
    qed
  qed
qed


text \<open>
  \<open>var_compare\<close> is antisymmetric on all pairs of values, whatever their types and whichever
  of the two has to be cast: exchanging the operands negates the result, and it is an error or
  undefined for one order exactly when it is for the other. Of the floating point comparison it
  is only used that it is asymmetric.
\<close>

theorem var_compare_antisym:
  assumes "\<forall>x y. fl_lt L x y \<longrightarrow> \<not> fl_lt L y x"
  shows "var_compare L w v = map_option (map_option uminus) (var_compare L v w)"
  using assms by (rule var_compare_swap)

text \<open>A \<open>libc\<close> whose doubles are their bits as unsigned numbers, to evaluate examples with.\<close>

definition word_libc :: libc where
  "word_libc = \<lparr>fl_lt = (<), fl_add = (+), fl_sub = (-), fl_mul = (*), fl_div = (\<lambda>x y. x),
     fl_of_int = of_int, fl_to_int = (\<lambda>x. Some (sint x)), fl_is_zero = (\<lambda>x. x = 0),
     fl_show = (\<lambda>x. show_int (sint x)), fl_strtof = (\<lambda>s. of_int (fst (strtol s))),
     fl_atof = (\<lambda>s. of_int (fst (strtol s))), ntop4 = (\<lambda>a. Some (show_nat (unat a))), ntop6 = (\<lambda>_. None),
     pton4 = (\<lambda>s. None), pton6 = (\<lambda>s. None), ptr_show = show_nat,
     ss_bytes = (\<lambda>_. replicate 128 0), ss_read = (\<lambda>_. Inet 0 0)\<rparr>"

lemma word_libc_asym: "\<forall>x y. fl_lt word_libc x y \<longrightarrow> \<not> fl_lt word_libc y x"
  by (auto simp: word_libc_def)

theorem var_compare_antisym_witness:
  "var_compare word_libc (Var VT_STRING None (Some (DString ''b'')) 0) (Var VT_INT None (Some (DInt 5)) 0) =
   map_option (map_option uminus)
     (var_compare word_libc (Var VT_INT None (Some (DInt 5)) 0) (Var VT_STRING None (Some (DString ''b'')) 0))"
  by (rule var_compare_antisym [OF word_libc_asym])

subsection \<open>Integers as text and back\<close>

lemma isdigit_char_of: "d < 10 \<Longrightarrow> isdigit (char_of (48 + d :: nat))"
  by (simp add: isdigit_def)

lemma digit_value: "d < 10 \<Longrightarrow> of_char (char_of (48 + d :: nat)) - (48 :: nat) = d"
  by simp

lemma digits_show_nat: "list_all isdigit (show_nat n)"
  by (induction n rule: show_nat.induct) (subst show_nat.simps, simp add: isdigit_char_of)

lemma read_nat_snoc: "read_nat (s @ [c]) = 10 * read_nat s + (of_char c - 48)"
  by (simp add: read_nat_def)

lemma read_show_nat: "read_nat (show_nat n) = n"
proof (induction n rule: show_nat.induct)
  case (1 n)
  show ?case
  proof (cases "n < 10")
    case True
    then show ?thesis by (subst show_nat.simps) (simp add: read_nat_def)
  next
    case False
    with 1 show ?thesis by (subst show_nat.simps) (simp add: read_nat_snoc)
  qed
qed

lemma show_nat_nonempty: "show_nat n \<noteq> []"
  by (subst show_nat.simps) simp

lemma length_show_nat: "n < 10 ^ Suc k \<Longrightarrow> length (show_nat n) \<le> Suc k"
proof (induction k arbitrary: n)
  case 0
  then show ?case by (subst show_nat.simps) simp
next
  case (Suc k)
  show ?case
  proof (cases "n < 10")
    case False
    have "n div 10 < 10 ^ Suc k" using Suc.prems by (simp add: div_less_iff_less_mult mult.commute)
    with Suc.IH False show ?thesis by (subst show_nat.simps) simp
  qed (subst show_nat.simps, simp)
qed

lemma isdigit_not: "isdigit c \<Longrightarrow> c \<noteq> CHR ''-'' \<and> c \<noteq> CHR ''+'' \<and> \<not> isspace c"
  by (auto simp: isdigit_def isspace_def)

lemma strtol_show_int:
  assumes "i64 i"
  shows "strtol (show_int i) = (i, False)"
proof -
  have digits: "takeWhile isdigit (show_nat n) = show_nat n" for n
    using digits_show_nat [of n] by (simp add: takeWhile_eq_all_conv list_all_iff)
  obtain c cs where c: "show_nat (nat i) = c # cs" by (metis list.exhaust show_nat_nonempty)
  then have "isdigit c" using digits_show_nat [of "nat i"] by simp
  note c' = isdigit_not [OF this]
  have range: "\<not> i < - (2 ^ 63)" "\<not> 2 ^ 63 \<le> i" using assms by (simp_all add: i64_def)
  show ?thesis
  proof (cases "i < 0")
    case True
    then have "\<not> isspace (CHR ''-'')" by (simp add: isspace_def)
    with True range show ?thesis
      by (simp add: strtol_def show_int_def digits read_show_nat Let_def)
  next
    case False
    then have "show_int i = c # cs" by (simp add: show_int_def c)
    moreover have "takeWhile isdigit (c # cs) = c # cs" using digits [of "nat i"] c by simp
    moreover have "int (read_nat (c # cs)) = i" using read_show_nat [of "nat i"] c False by simp
    ultimately show ?thesis using c' range by (simp add: strtol_def Let_def)
  qed
qed

lemma length_show_int: "i64 i \<Longrightarrow> length (show_int i) \<le> 20"
proof -
  assume "i64 i"
  then have "i < 9223372036854775808" "- i < 9223372036854775809" by (simp_all add: i64_def)
  then have "nat i < 10 ^ Suc 18" "nat (- i) < 10 ^ Suc 18" by simp_all
  from this [THEN length_show_nat] show ?thesis by (simp add: show_int_def)
qed

text \<open>
  Casting a \<open>VT_INT\<close> to a string and the string back to \<open>VT_INT\<close> gives the number again, for
  every 64-bit number, and \<open>var_compare\<close> finds an integer equal to its own text.
\<close>

theorem var_int_string_roundtrip:
  assumes "i64 i"
  shows "\<exists>str. var_cast_copy L VT_STRING (Var VT_INT n (Some (DInt i)) f) = Some (Some str) \<and>
    v_type str = VT_STRING \<and>
    var_cast_copy L VT_INT str = Some (Some (Var VT_INT n (Some (DInt i)) VF_COPY)) \<and>
    var_compare L (Var VT_INT n (Some (DInt i)) f) str = Some (Some 0)"
proof -
  let ?str = "Var VT_STRING n (Some (DString (show_int i))) VF_COPY"
  have flags: "sanitize VF_COPY = VF_COPY" "has_flag VF_COPY VF_COPYDATA" "\<not> has_flag VF_COPY VF_CREATE"
    by (simp_all add: sanitize_def has_flag_def vf_defs)
  have str: "var_cast_copy L VT_STRING (Var VT_INT n (Some (DInt i)) f) = Some (Some ?str)"
    using length_show_int [OF assms]
    by (simp add: var_cast_copy_def var_as_string_def var_dump_data_def dump_str_def var_create_def
        var_init_def var_data_init_def flags)
  moreover have "var_cast_copy L VT_INT ?str = Some (Some (Var VT_INT n (Some (DInt i)) VF_COPY))"
    by (simp add: var_cast_copy_def var_as_int_def strtol_show_int [OF assms] var_create_def
        var_init_def var_data_init_def flags)
  moreover have "max VT_INT VT_STRING = VT_STRING" by (simp add: max_def less_eq_vtype_def)
  then have "var_compare L (Var VT_INT n (Some (DInt i)) f) ?str = Some (Some 0)"
    using str by (simp add: var_compare_def compare_data_def as_defs strcmp_refl sign_def)
  ultimately show ?thesis by auto
qed

theorem var_int_string_roundtrip_witness:
  "\<exists>str. var_cast_copy word_libc VT_STRING (Var VT_INT None (Some (DInt (-42))) 0) = Some (Some str) \<and>
    var_cast_copy word_libc VT_INT str = Some (Some (Var VT_INT None (Some (DInt (-42))) VF_COPY))"
  using var_int_string_roundtrip [of "-42" word_libc None 0] by (auto simp: i64_def)

text \<open>
  \<open>var_dump\<close> hides errors. Where the dump of the data fails, \<open>var_dump\<close> adds the -1 to the
  length of what it wrote before and returns the length of the name, a value that no caller takes
  for an error; and a name that fills the buffer but for one byte is followed by a write after
  the buffer's end.
\<close>

theorem var_dump_hides_errors:
  assumes "var_dump_data L (Var t (Some name) d f) (sz - (int (length name) + 1)) = Some (-1, [])"
    and "int (length name) + 1 < sz"
  shows "var_dump L (Var t (Some name) d f) sz = Some (int (length name), name @ ''='') \<and>
    var_dump L (Var t (Some name) d f) (int (length name) + 1) = None"
  using assms by (simp add: var_dump_def dump_named_def)

theorem var_dump_hides_errors_witness:
  "var_dump word_libc (Var VT_INT (Some ''n'') (Some (DInt 1234)) 0) 6 = Some (1, ''n='') \<and>
   var_dump word_libc (Var VT_INT (Some ''n'') (Some (DInt 1234)) 0) 2 = None"
proof -
  have "show_nat 1234 = ''1234''" by (simp add: show_nat.simps) code_simp
  then have "var_dump_data word_libc (Var VT_INT (Some ''n'') (Some (DInt 1234)) 0) (6 - (int (length ''n'') + 1)) = Some (-1, [])"
    by (simp add: var_dump_data_def dump_str_def show_int_def)
  from var_dump_hides_errors [OF this] show ?thesis by simp
qed

end
