(* ===== verification/Vtable.thy ===== *)
theory Vtable
  imports Var String_Table
begin

section \<open>Records and tables of values (vlist.c, vtable.c)\<close>

text \<open>
  Lists of values that serve as database schemes and records (\<open>src/src/vlist.c\<close>), and the tables
  of named values that every message carries (\<open>src/src/vtable.c\<close>). A table is the hash table of
  \<open>Hash_Table\<close> with the name of a value as its key; \<open>vtab_map\<close> is the finite map it stands for.
  Arguments of functions with variable argument lists are lists.
\<close>

subsection \<open>Lists\<close>

definition vlist_create :: "string option \<Rightarrow> u32 \<Rightarrow> var option" where
  "vlist_create name flags = var_create VT_LIST name None (flags OR VF_CREATE)"

text \<open>The items of a list value; no list behind the data pointer is \<open>None\<close>.\<close>

definition vlist_items :: "var \<Rightarrow> var option list option" where
  "vlist_items v = (case v_data v of Some (DList xs) \<Rightarrow> Some xs | _ \<Rightarrow> None)"

text \<open>What an iteration with \<open>ll_next\<close> sees: it ends at the first \<open>NULL\<close> item.\<close>

fun visible :: "var option list \<Rightarrow> var list" where
  "visible (Some v # xs) = v # visible xs"
| "visible _ = []"

definition vlist_append :: "var \<Rightarrow> var option \<Rightarrow> var option" where
  "vlist_append list item =
     do { xs \<leftarrow> vlist_items list;
          Some (Var (v_type list) (v_name list) (Some (DList (xs @ [item]))) (v_flags list)) }"

definition vlist_append_new ::
  "var \<Rightarrow> vtype \<Rightarrow> string option \<Rightarrow> vdata option \<Rightarrow> u32 \<Rightarrow> (int \<times> var) option" where
  "vlist_append_new list t name d flags =
     (case var_create t name d flags of
        None \<Rightarrow> Some (-1, list)
      | Some v \<Rightarrow> do { list1 \<leftarrow> vlist_append list (Some v); Some (0, list1) })"

text \<open>The loop of \<open>vlist_scheme\<close>, \<open>vlist_record\<close> and \<open>vlist_record_from_table\<close>: append or give up.\<close>

fun append_all ::
  "var \<Rightarrow> (vtype \<times> string option \<times> vdata option \<times> u32) list \<Rightarrow> var option option" where
  "append_all list [] = Some (Some list)"
| "append_all list ((t, name, d, flags) # args) =
     do {
       (r, list1) \<leftarrow> vlist_append_new list t name d flags;
       if r = -1 then Some None else append_all list1 args }"

definition vlist_scheme :: "string \<Rightarrow> (string \<times> vtype \<times> u32) list \<Rightarrow> var option option" where
  "vlist_scheme scheme args =
     (case vlist_create (Some scheme) VF_COPYNAME of
        None \<Rightarrow> Some None
      | Some record0 \<Rightarrow> append_all record0 (map (\<lambda>(name, t, flags). (t, Some name, None, flags)) args))"

definition record_flags :: "u32 \<Rightarrow> u32" where
  "record_flags flags = (flags OR VF_KEEPDATA OR VF_KEEPNAME) AND NOT (VF_COPYNAME OR VF_COPYDATA)"

definition vlist_record :: "var \<Rightarrow> vdata option list \<Rightarrow> var option option" where
  "vlist_record scheme args =
     (case vlist_create (v_name scheme) VF_KEEPNAME of
        None \<Rightarrow> Some None
      | Some record0 \<Rightarrow>
          do {
            xs \<leftarrow> vlist_items scheme;
            if length args < length (visible xs) then None
            else append_all record0
              (map2 (\<lambda>v d. (v_type v, v_name v, d, record_flags (v_flags v))) (visible xs) args) })"

fun vlist_record_lookup_in :: "var list \<Rightarrow> string \<Rightarrow> var option" where
  "vlist_record_lookup_in [] key = None"
| "vlist_record_lookup_in (v # vs) key = (if v_name v = Some key then Some v else vlist_record_lookup_in vs key)"

definition vlist_record_lookup :: "var \<Rightarrow> string \<Rightarrow> var option option" where
  "vlist_record_lookup record0 key =
     do { xs \<leftarrow> vlist_items record0; Some (vlist_record_lookup_in (visible xs) key) }"

definition vlist_record_get :: "var \<Rightarrow> string \<Rightarrow> vdata option option" where
  "vlist_record_get record0 key =
     do { v \<leftarrow> vlist_record_lookup record0 key; Some (case v of None \<Rightarrow> None | Some x \<Rightarrow> v_data x) }"

text \<open>
  \<open>vlist_record_get_combine_key\<close> bounds each part, not the whole: a key of more than 1023
  characters is written after the buffer.
\<close>

definition vlist_record_get_combine_key :: "var \<Rightarrow> string list \<Rightarrow> vdata option option" where
  "vlist_record_get_combine_key record0 parts =
     (let key = concat (map (take 1023) parts) in
      if length key > 1023 then None else vlist_record_get record0 key)"

definition vlist_dereference :: "var \<Rightarrow> vdata option list option" where
  "vlist_dereference list = do { xs \<leftarrow> vlist_items list; Some (map v_data (visible xs)) }"

subsection \<open>Tables\<close>

type_synonym vtab = "var ht"

definition v_key :: "var \<Rightarrow> string" where
  "v_key v = (case v_name v of None \<Rightarrow> [] | Some n \<Rightarrow> n)"

definition var_hash :: "var \<Rightarrow> u64" where
  "var_hash v = HASH (bytes_of (v_key v))"

definition var_match :: "var \<Rightarrow> var \<Rightarrow> bool" where
  "var_match v1 v2 \<longleftrightarrow> v_key v1 = v_key v2"

definition vtable_create :: "nat \<Rightarrow> vtab" where
  "vtable_create buckets =
     \<lparr>ht_table = replicate buckets [], ht_buckets = buckets, ht_records = 0, ht_collisions = 0,
      ht_hash = var_hash, ht_match = var_match, ht_del = True, ht_head = 0\<rparr>"

definition vtable_lookup :: "vtab \<Rightarrow> string \<Rightarrow> var option" where
  "vtable_lookup table name = ht_lookup table (Var VT_NULL (Some name) None 0)"

definition vtable_get :: "vtab \<Rightarrow> string \<Rightarrow> vdata option" where
  "vtable_get table name = (case vtable_lookup table name of None \<Rightarrow> None | Some v \<Rightarrow> v_data v)"

definition vtable_insert :: "vtab \<Rightarrow> var \<Rightarrow> int \<times> vtab" where
  "vtable_insert table v =
     (case ht_insert [] table v of (r, table1, _) \<Rightarrow> (if r \<noteq> 0 then -1 else 0, table1))"

definition vtable_set :: "vtab \<Rightarrow> var \<Rightarrow> int \<times> vtab" where
  "vtable_set table v =
     (let table1 = (if ht_lookup table v \<noteq> None then snd (ht_remove table v) else table) in
      case ht_insert [] table1 v of (r, table2, _) \<Rightarrow> (if r \<noteq> 0 then -1 else 0, table2))"

definition vtable_remove :: "vtab \<Rightarrow> string \<Rightarrow> vtab" where
  "vtable_remove table name =
     (case vtable_lookup table name of None \<Rightarrow> table | Some v \<Rightarrow> snd (ht_remove table v))"

definition vtable_remv :: "vtab \<Rightarrow> string list \<Rightarrow> vtab" where
  "vtable_remv table names = foldl vtable_remove table names"

definition vtable_set_new :: "vtab \<Rightarrow> vtype \<Rightarrow> string option \<Rightarrow> vdata option \<Rightarrow> u32 \<Rightarrow> int \<times> vtab" where
  "vtable_set_new table t name d flags =
     (case var_create t name d flags of None \<Rightarrow> (-1, table) | Some v \<Rightarrow> vtable_set table v)"

fun vtable_setv :: "vtab \<Rightarrow> (vtype \<times> string \<times> vdata option \<times> u32) list \<Rightarrow> int \<times> vtab" where
  "vtable_setv table [] = (0, table)"
| "vtable_setv table ((t, name, d, flags) # args) =
     (if t = VT_NULL then (0, table)
      else case vtable_set_new table t (Some name) d flags of
        (r, table1) \<Rightarrow> if r \<noteq> 0 then (-1, table1) else vtable_setv table1 args)"

text \<open>
  \<open>vtable_rename\<close>: when both names are equal, \<open>vtable_set_new\<close> frees the record that is removed
  afterwards.
\<close>

definition vtable_rename :: "vtab \<Rightarrow> string \<Rightarrow> string \<Rightarrow> (int \<times> vtab) option" where
  "vtable_rename table old new =
     (case vtable_lookup table old of
        None \<Rightarrow> Some (-1, table)
      | Some rec0 \<Rightarrow>
          (case vtable_set_new table (v_type rec0) (Some new) (v_data rec0) VF_COPY of
             (r, table1) \<Rightarrow>
               if r \<noteq> 0 then Some (-1, table1)
               else if old = new then None
               else Some (0, snd (ht_remove table1 rec0))))"

text \<open>The value of a name is changed in place.\<close>

definition vtab_update :: "vtab \<Rightarrow> string \<Rightarrow> var \<Rightarrow> vtab" where
  "vtab_update table name v =
     table\<lparr>ht_table := map (map (\<lambda>w. if v_key w = name then v else w)) (ht_table table)\<rparr>"

definition vtable_list_get :: "vtab \<Rightarrow> string \<Rightarrow> var option \<times> vtab" where
  "vtable_list_get table listname =
     (case vtable_lookup table listname of
        Some l \<Rightarrow> (Some l, table)
      | None \<Rightarrow>
          (case vlist_create (Some listname) VF_COPYNAME of
             None \<Rightarrow> (None, table)
           | Some l \<Rightarrow>
               (case vtable_set table l of
                  (r, table1) \<Rightarrow> if r \<noteq> 0 then (None, table1) else (Some l, table1))))"

definition vtable_list_append :: "vtab \<Rightarrow> string \<Rightarrow> var \<Rightarrow> (int \<times> vtab) option" where
  "vtable_list_append table listname v =
     (case vtable_list_get table listname of
        (None, table1) \<Rightarrow> Some (-1, table1)
      | (Some l, table1) \<Rightarrow> do { l1 \<leftarrow> vlist_append l (Some v); Some (0, vtab_update table1 listname l1) })"

definition vtable_list_append_new ::
  "vtab \<Rightarrow> vtype \<Rightarrow> string \<Rightarrow> vdata option \<Rightarrow> u32 \<Rightarrow> (int \<times> vtab) option" where
  "vtable_list_append_new table t name d flags =
     (case vtable_list_get table name of
        (None, table1) \<Rightarrow> Some (-1, table1)
      | (Some l, table1) \<Rightarrow>
          do {
            (r, l1) \<leftarrow> vlist_append_new l t None d flags;
            Some (if r \<noteq> 0 then (-1, table1) else (0, vtab_update table1 name l1)) })"

definition vtable_dereference :: "vtab \<Rightarrow> string list \<Rightarrow> int \<times> vdata option list" where
  "vtable_dereference table names =
     (let ds = map (vtable_get table) names in (int (length (filter (\<lambda>d. d \<noteq> None) ds)), ds))"

fun add_items :: "vtab \<Rightarrow> var list \<Rightarrow> int \<times> vtab" where
  "add_items table [] = (0, table)"
| "add_items table (v # vs) =
     (case vtable_set_new table (v_type v) (v_name v) (v_data v) VF_COPY of
        (r, table1) \<Rightarrow> if r \<noteq> 0 then (-1, table1) else add_items table1 vs)"

definition vtable_add_record :: "vtab \<Rightarrow> var \<Rightarrow> (int \<times> vtab) option" where
  "vtable_add_record table record0 =
     do { xs \<leftarrow> vlist_items record0; Some (add_items table (visible xs)) }"

definition vtable_set_null :: "vtab \<Rightarrow> string \<Rightarrow> u32 \<Rightarrow> int \<times> vtab" where
  "vtable_set_null table name flags = vtable_set_new table VT_INT (Some name) None (flags OR VF_KEEPDATA)"

definition vtable_is_null :: "vtab \<Rightarrow> string \<Rightarrow> bool" where
  "vtable_is_null table name = (vtable_get table name = None)"

text \<open>\<open>vtable_getva\<close>: a path of names through nested tables, then the type check.\<close>

fun table_walk :: "var \<Rightarrow> string list \<Rightarrow> var option" where
  "table_walk v [] = Some v"
| "table_walk v (key # keys) =
     (case (v_type v, v_data v) of
        (VT_TABLE, Some (DTable vs)) \<Rightarrow>
          (case find (\<lambda>w. v_key w = key) vs of None \<Rightarrow> None | Some w \<Rightarrow> table_walk w keys)
      | _ \<Rightarrow> None)"

definition vtable_getva :: "vtype \<Rightarrow> var \<Rightarrow> string list \<Rightarrow> var option" where
  "vtable_getva t table keys =
     (case table_walk table keys of None \<Rightarrow> None | Some v \<Rightarrow> if v_type v \<noteq> t then None else Some v)"

text \<open>Records filled from a table by name.\<close>

definition vlist_record_from_table :: "var \<Rightarrow> vtab \<Rightarrow> var option option" where
  "vlist_record_from_table scheme table =
     (case vlist_create (v_name scheme) VF_KEEPNAME of
        None \<Rightarrow> Some None
      | Some record0 \<Rightarrow>
          do {
            xs \<leftarrow> vlist_items scheme;
            if \<exists>v \<in> set (visible xs). vtable_lookup table (v_key v) = None \<and> has_flag (v_flags v) VF_KEY
            then Some None
            else append_all record0
              (map (\<lambda>v. case vtable_lookup table (v_key v) of
                          None \<Rightarrow> (VT_NULL, v_name v, None, VF_COPY OR v_flags v)
                        | Some w \<Rightarrow> (v_type w, v_name v, v_data w, VF_COPY OR v_flags v)) (visible xs)) })"

definition vlist_record_keys_missing :: "var \<Rightarrow> vtab \<Rightarrow> int option" where
  "vlist_record_keys_missing record0 table =
     do {
       xs \<leftarrow> vlist_items record0;
       Some (if \<exists>v \<in> set (visible xs). has_flag (v_flags v) VF_KEY \<and> vtable_lookup table (v_key v) = None
             then -1 else 0) }"


subsection \<open>The map of a table\<close>

definition vtab_ok :: "vtab \<Rightarrow> bool" where
  "vtab_ok t \<longleftrightarrow> ht_ok v_key t"

definition vtab_map :: "vtab \<Rightarrow> string \<rightharpoonup> var" where
  "vtab_map t = ht_map v_key t"

abbreviation vtab_size :: "vtab \<Rightarrow> nat" where
  "vtab_size t \<equiv> ht_size t"

lemma v_key_Var [simp]: "v_key (Var t (Some n) d f) = n"
  by (simp add: v_key_def)

lemma vtable_create_ok: "0 < b \<Longrightarrow> vtab_ok (vtable_create b) \<and> vtab_map (vtable_create b) = Map.empty \<and>
    vtab_size (vtable_create b) = 0"
proof -
  assume b: "0 < b"
  have init: "ht_init [] b var_hash var_match True = (Some (vtable_create b), [])"
    by (simp add: ht_init_def vtable_create_def)
  have "concat (ht_table (vtable_create b)) = []" by (simp add: vtable_create_def)
  moreover have "ht_ok v_key (vtable_create b)"
    using ht_init_ok [OF _ _ init b, of v_key] by (simp add: var_match_def var_hash_def)
  ultimately show ?thesis by (simp only: vtab_ok_def vtab_map_def ht_map_def list.map map_of.simps list.size)
qed

lemma vtable_create_small: "vtab_size (vtable_create b) < 2"
  by (simp add: vtable_create_def)

lemma vtable_lookup_map [table_simps]: "vtab_ok t \<Longrightarrow> vtable_lookup t n = vtab_map t n"
  by (simp add: vtable_lookup_def vtab_ok_def vtab_map_def ht_lookup_map)

lemma vtab_map_key: "vtab_ok t \<Longrightarrow> vtab_map t n = Some v \<Longrightarrow> v_key v = n"
  by (simp add: vtab_ok_def vtab_map_def ht_map_Some)

lemma vtable_set_map:
  assumes ok: "vtab_ok t" and room: "Suc (vtab_size t) < 2 ^ 30"
  obtains t' where "vtable_set t v = (0, t')" and "vtab_ok t'"
    and "vtab_map t' = (vtab_map t)(v_key v \<mapsto> v)" and "vtab_size t' \<le> Suc (vtab_size t)"
proof -
  let ?t = "if ht_lookup t v \<noteq> None then snd (ht_remove t v) else t"
  have ht: "ht_ok v_key t" using ok by (simp add: vtab_ok_def)
  have t: "ht_ok v_key ?t" "ht_map v_key ?t (v_key v) = None" "ht_size ?t \<le> ht_size t"
    "(ht_map v_key ?t)(v_key v \<mapsto> v) = (ht_map v_key t)(v_key v \<mapsto> v)"
    using ht_remove_ok [OF ht, of v] ht by (auto simp: ht_lookup_map [OF ht] simp del: length_concat)
  have "Suc (ht_size ?t) < 2 ^ 30" using t(3) room by linarith
  from ht_insert_new [OF t(1) this t(2)] obtain t' where ins: "ht_insert [] ?t v = (0, t', [])" "ht_ok v_key t'"
    "ht_content t' = add_mset v (ht_content ?t)" "ht_map v_key t' = (ht_map v_key ?t)(v_key v \<mapsto> v)" by blast
  have "ht_size t' = Suc (ht_size ?t)" using ins(3) by (metis size_add_mset size_mset)
  then have "ht_size t' \<le> Suc (ht_size t)" using t(3) by linarith
  with ins(1,2,4) t(4) show ?thesis by (intro that [of t']) (simp_all add: vtable_set_def vtab_ok_def vtab_map_def)
qed

lemma vtable_remove_map:
  assumes "vtab_ok t"
  shows "vtab_ok (vtable_remove t n) \<and> vtab_map (vtable_remove t n) = (vtab_map t)(n := None) \<and>
    vtab_size (vtable_remove t n) \<le> vtab_size t"
proof (cases "vtab_map t n")
  case None
  with assms show ?thesis by (simp add: vtable_remove_def vtable_lookup_map fun_upd_idem)
next
  case (Some v)
  moreover have "v_key v = n" by (rule vtab_map_key [OF assms Some])
  ultimately show ?thesis
    using assms ht_remove_ok [of v_key t v]
    by (simp add: vtable_remove_def vtable_lookup_map vtab_ok_def vtab_map_def)
qed

lemma vtable_remv_map:
  "vtab_ok t \<Longrightarrow> vtab_ok (vtable_remv t ns) \<and> vtab_map (vtable_remv t ns) = (\<lambda>n. if n \<in> set ns then None else vtab_map t n)"
proof (induction ns arbitrary: t)
  case (Cons n ns)
  with vtable_remove_map [OF Cons.prems, of n] Cons.IH [of "vtable_remove t n"] show ?case
    by (auto simp: vtable_remv_def fun_eq_iff)
qed (simp add: vtable_remv_def)

lemma vtable_set_new_map:
  assumes "vtab_ok t" and "Suc (vtab_size t) < 2 ^ 30" and "var_create ty (Some n) d f = Some v"
  obtains t' where "vtable_set_new t ty (Some n) d f = (0, t')" and "vtab_ok t'"
    and "vtab_map t' = (vtab_map t)(n \<mapsto> v)" and "vtab_size t' \<le> Suc (vtab_size t)"
proof -
  have "v_key v = n"
    using assms(3) by (auto simp: var_create_def var_init_def Let_def split: if_splits)
  with vtable_set_map [OF assms(1,2), of v] that assms(3) show ?thesis
    by (metis option.simps(5) vtable_set_new_def)
qed

fun assign :: "(string \<rightharpoonup> var) \<Rightarrow> vtype \<times> string \<times> vdata option \<times> u32 \<Rightarrow> (string \<rightharpoonup> var)" where
  "assign m (t, n, d, f) = m(n := var_create t (Some n) d f)"

text \<open>
  A table of attributes starts empty, and after \<open>vtable_setv\<close> of any argument list whose
  values can be created (that is, without pointers to copy) every lookup answers as if the values
  had been assigned one after the other to a map: the last assignment to a name wins and the
  other names keep their values.
\<close>

theorem vtable_setv_assigns:
  assumes "vtab_ok table" and "length (concat (ht_table table)) + length args + 1 < 2 ^ 30"
    and "\<forall>(t, n, d, f) \<in> set args. t \<noteq> VT_NULL \<and> var_create t (Some n) d f \<noteq> None"
  shows "\<exists>table'. vtable_setv table args = (0, table') \<and> vtab_ok table' \<and>
    (\<forall>n. vtable_lookup table' n =
       foldl assign (vtab_map table) args n)"
  using assms
proof (induction args arbitrary: table)
  case Nil
  then show ?case by (simp add: vtable_lookup_map)
next
  case (Cons a args)
  obtain t n d f where a: "a = (t, n, d, f)" by (cases a)
  then obtain v where v: "var_create t (Some n) d f = Some v" "t \<noteq> VT_NULL" using Cons.prems(3) by auto
  have room: "Suc (vtab_size table) < 2 ^ 30" using Cons.prems(2) by (simp del: length_concat)
  obtain t1 where t1: "vtable_set_new table t (Some n) d f = (0, t1)" "vtab_ok t1"
    "vtab_map t1 = (vtab_map table)(n \<mapsto> v)" "vtab_size t1 \<le> Suc (vtab_size table)"
    by (rule vtable_set_new_map [OF Cons.prems(1) room v(1)])
  have sz: "vtab_size t1 + length args + 1 < 2 ^ 30" using t1(4) Cons.prems(2) by (simp del: length_concat)
  have "\<forall>(t, n, d, f) \<in> set args. t \<noteq> VT_NULL \<and> var_create t (Some n) d f \<noteq> None"
    using Cons.prems(3) by simp
  from Cons.IH [OF t1(2) sz this] obtain t2 where
    "vtable_setv t1 args = (0, t2)" "vtab_ok t2"
    "\<forall>k. vtable_lookup t2 k = foldl assign (vtab_map t1) args k"
    by blast
  then show ?case using t1 v a by simp
qed

theorem vtable_setv_assigns_witness:
  "\<exists>table'. vtable_setv (vtable_create 4) [(VT_INT, ''stage'', Some (DInt 1), VF_KEEPNAME),
      (VT_STRING, ''helo'', Some (DString ''x''), VF_KEEPNAME), (VT_INT, ''stage'', Some (DInt 2), VF_KEEPNAME)] = (0, table') \<and>
    vtable_lookup table' ''stage'' = Some (Var VT_INT (Some ''stage'') (Some (DInt 2)) VF_KEEPNAME)"
proof -
  let ?args = "[(VT_INT, ''stage'', Some (DInt 1), VF_KEEPNAME),
      (VT_STRING, ''helo'', Some (DString ''x''), VF_KEEPNAME), (VT_INT, ''stage'', Some (DInt 2), VF_KEEPNAME)]"
  have keep: "sanitize VF_KEEPNAME = VF_KEEPNAME" "\<not> has_flag VF_KEEPNAME VF_COPYDATA" "\<not> has_flag VF_KEEPNAME VF_CREATE"
    by (simp_all add: sanitize_def has_flag_def vf_defs)
  have ok: "vtab_ok (vtable_create 4)" "vtab_size (vtable_create 4) < 2"
    using vtable_create_ok [of 4] vtable_create_small [of 4] by auto
  have "\<exists>table'. vtable_setv (vtable_create 4) ?args = (0, table') \<and> vtab_ok table' \<and>
    (\<forall>n. vtable_lookup table' n =
       foldl assign (vtab_map (vtable_create 4)) ?args n)"
    by (rule vtable_setv_assigns)
      (use ok in \<open>simp_all add: var_create_def var_init_def var_data_init_def keep del: length_concat\<close>)
  then show ?thesis by (auto simp: var_create_def var_init_def var_data_init_def keep)
qed

text \<open>
  Renaming an attribute to a different name moves a copy of its value there, forgets the old
  name and keeps all others; renaming it to its own name has no meaning, because the record that
  is removed last has been freed by then.
\<close>

theorem vtable_rename_moves:
  assumes "vtab_ok table" and "length (concat (ht_table table)) + 1 < 2 ^ 30"
    and "vtable_lookup table old = Some v" and "var_create (v_type v) (Some new) (v_data v) VF_COPY = Some c"
  shows "if old = new then vtable_rename table old new = None
    else \<exists>table'. vtable_rename table old new = Some (0, table') \<and> vtab_ok table' \<and>
      (\<forall>n. vtable_lookup table' n = (if n = old then None else if n = new then Some c else vtable_lookup table n))"
proof -
  have room: "Suc (vtab_size table) < 2 ^ 30" using assms(2) by (simp del: length_concat)
  obtain t1 where t1: "vtable_set_new table (v_type v) (Some new) (v_data v) VF_COPY = (0, t1)" "vtab_ok t1"
    "vtab_map t1 = (vtab_map table)(new \<mapsto> c)"
    by (rule vtable_set_new_map [OF assms(1) room assms(4)])
  have "v_key v = old" using assms(1,3) by (simp add: vtable_lookup_map vtab_map_key)
  with t1(2) ht_remove_ok [of v_key t1 v]
  have t2: "vtab_ok (snd (ht_remove t1 v))" "vtab_map (snd (ht_remove t1 v)) = (vtab_map t1)(old := None)"
    by (simp_all add: vtab_ok_def vtab_map_def)
  show ?thesis
    using t1 t2 assms(1,3) by (cases "old = new") (simp_all add: vtable_rename_def vtable_lookup_map)
qed

theorem vtable_rename_moves_witness:
  "\<exists>t c. vtable_lookup t ''a'' = Some (Var VT_INT (Some ''a'') (Some (DInt 1)) VF_KEEPNAME) \<and>
    (\<exists>t'. vtable_rename t ''a'' ''b'' = Some (0, t') \<and> vtable_lookup t' ''b'' = Some c \<and> vtable_lookup t' ''a'' = None)"
proof -
  have ok: "vtab_ok (vtable_create 4)" "vtab_map (vtable_create 4) = Map.empty" "vtab_size (vtable_create 4) < 2"
    using vtable_create_ok [of 4] vtable_create_small [of 4] by auto
  let ?v = "Var VT_INT (Some ''a'') (Some (DInt 1)) VF_KEEPNAME"
  obtain t where t: "vtab_ok t" "vtab_map t = [''a'' \<mapsto> ?v]" "vtab_size t \<le> 2"
    by (rule vtable_set_map [of "vtable_create 4" ?v]) (use ok in \<open>simp_all del: length_concat\<close>)
  let ?c = "Var VT_INT (Some ''b'') (Some (DInt 1)) VF_COPY"
  have c: "var_create (v_type ?v) (Some ''b'') (v_data ?v) VF_COPY = Some ?c"
    by (simp add: var_create_def var_init_def var_data_init_def sanitize_def has_flag_def vf_defs)
  have look: "vtable_lookup t ''a'' = Some ?v" using t by (simp add: vtable_lookup_map)
  have "vtab_size t + 1 < 2 ^ 30" using t(3) by (simp del: length_concat)
  from vtable_rename_moves [OF t(1) this look c] look show ?thesis by auto
qed

end
