(* ===== verification/Vp.thy ===== *)
theory Vp
  imports Vtable
begin

section \<open>Packing records for storage (vp.c)\<close>

text \<open>
  \<open>src/src/vp.c\<close> turns a record into two byte strings for a key-value store and back: the
  concatenated key fields, and eight bytes with one bit per \<open>NULL\<close> field followed by the
  other fields. \<open>vp_null_fields\<close> and \<open>vp_fields\<close> are offsets into the data. Reading behind the
  end of a buffer, and unpacking a list or table from raw bytes, is \<open>None\<close>.
\<close>

record vp =
  vp_data :: "byte list"
  vp_key :: "byte list"
  vp_null_fields :: "nat option"
  vp_fields :: "nat option"

definition VP_FIELD_LIMIT :: nat where
  "VP_FIELD_LIMIT = 64"

definition vp_init :: "byte list \<Rightarrow> byte list \<Rightarrow> vp" where
  "vp_init key dat = \<lparr>vp_data = dat, vp_key = key, vp_null_fields = Some 0, vp_fields = Some 8\<rparr>"

text \<open>The \<open>unsigned long long\<close> at the start of the data.\<close>

definition null_word :: "byte list \<Rightarrow> u64" where
  "null_word dat = of_int (bytes_num (take 8 dat))"

definition vp_field_is_null :: "vp \<Rightarrow> nat \<Rightarrow> bool option" where
  "vp_field_is_null vp n = (if n < 64 \<and> 8 \<le> length (vp_data vp) then Some (bit (null_word (vp_data vp)) n) else None)"

definition vp_set_null :: "byte list \<Rightarrow> nat \<Rightarrow> byte list" where
  "vp_set_null dat n = long_bytes (uint (null_word dat OR push_bit n 1)) @ drop 8 dat"

definition vp_prepend_meta :: "byte list" where
  "vp_prepend_meta = long_bytes 0"

text \<open>
  \<open>vp_pack_data\<close>: the buffer with the field appended; lists and tables as strings. The length of a
  buffer is an \<open>int\<close>: a sum out of its range has no meaning. \<open>realloc\<close> may fail.
\<close>

definition vp_pack_data :: "libc \<Rightarrow> mem \<Rightarrow> byte list \<Rightarrow> var \<Rightarrow> (byte list option \<times> mem) option" where
  "vp_pack_data L mem buffer v =
     do {
       src \<leftarrow>
         (if v_type v = VT_LIST \<or> v_type v = VT_TABLE then
            do {
              (r, dump) \<leftarrow> var_dump_data L v 8192;
              Some (if r = -1 then None else Some (r + 1, Some (bytes_of dump @ [0]))) }
          else Some (Some (wrap32 (var_data_size v), map_option (data_bytes L) (v_data v))));
       (case src of
          None \<Rightarrow> Some (None, mem)
        | Some (sz, dat) \<Rightarrow>
            if \<not> i32 (int (length buffer) + sz) then None
            else
              (let (ok, mem1) = malloc mem in
               if \<not> ok then Some (None, mem1)
               else do { bs \<leftarrow> memcpy dat sz; Some (Some (buffer @ bs), mem1) })) }"

text \<open>The loop of \<open>vp_pack\<close> from field \<open>n\<close> on: the key and the data so far.\<close>

fun pack_fields ::
  "libc \<Rightarrow> nat \<Rightarrow> mem \<Rightarrow> byte list \<Rightarrow> byte list \<Rightarrow> var list \<Rightarrow> ((byte list \<times> byte list) option \<times> mem) option" where
  "pack_fields L n mem key dat [] = Some (Some (key, dat), mem)"
| "pack_fields L n mem key dat (item # items) =
     (let is_key = has_flag (v_flags item) VF_KEY in
      if v_data item = None then
        (if is_key then Some (None, mem) else pack_fields L (Suc n) mem key (vp_set_null dat n) items)
      else if is_key then
        do {
          (r, mem1) \<leftarrow> vp_pack_data L mem key item;
          (case r of None \<Rightarrow> Some (None, mem1) | Some key1 \<Rightarrow> pack_fields L (Suc n) mem1 key1 dat items) }
      else
        do {
          (r, mem1) \<leftarrow> vp_pack_data L mem dat item;
          (case r of None \<Rightarrow> Some (None, mem1) | Some dat1 \<Rightarrow> pack_fields L (Suc n) mem1 key dat1 items) })"

text \<open>\<open>vp_pack\<close> on any allocator; \<open>vp_create\<close> and \<open>vp_prepend_meta\<close> allocate first.\<close>

definition vp_pack_mem :: "libc \<Rightarrow> mem \<Rightarrow> var \<Rightarrow> (vp option \<times> mem) option" where
  "vp_pack_mem L mem record0 =
     (if v_type record0 \<noteq> VT_LIST then Some (None, mem)
      else do {
        xs \<leftarrow> vlist_items record0;
        if length xs > VP_FIELD_LIMIT then Some (None, mem)
        else
          (let (ok, mem1) = malloc mem in
           if \<not> ok then Some (None, mem1)
           else
             (let (ok, mem2) = malloc mem1 in
              if \<not> ok then Some (None, mem2)
              else do {
                (r, mem3) \<leftarrow> pack_fields L 0 mem2 [] vp_prepend_meta (visible xs);
                Some (map_option (\<lambda>(key, dat). vp_init key dat) r, mem3) })) })"

text \<open>Its callers are modelled with memory available.\<close>

definition vp_pack :: "libc \<Rightarrow> var \<Rightarrow> vp option option" where
  "vp_pack L record0 = map_option fst (vp_pack_mem L [] record0)"

text \<open>What \<open>var_create\<close> with \<open>VF_COPYDATA\<close> copies from a pointer into a byte buffer.\<close>

definition read_bytes :: "nat \<Rightarrow> byte list \<Rightarrow> byte list option" where
  "read_bytes n bs = (if n \<le> length bs then Some (take n bs) else None)"

definition byte_char :: "byte \<Rightarrow> char" where
  "byte_char b = char_of (unat b)"

definition copy_raw :: "libc \<Rightarrow> vtype \<Rightarrow> byte list \<Rightarrow> vdata option option" where
  "copy_raw L t bs =
     (case t of
        VT_INT \<Rightarrow> do { x \<leftarrow> read_bytes 8 bs; Some (Some (DInt (bytes_long x))) }
      | VT_FLOAT \<Rightarrow> do { x \<leftarrow> read_bytes 8 bs; Some (Some (DFloat (of_int (bytes_num x)))) }
      | VT_STRING \<Rightarrow>
          if 0 \<in> set bs then Some (Some (DString (map byte_char (takeWhile (\<lambda>b. b \<noteq> 0) bs)))) else None
      | VT_ADDR \<Rightarrow> do { x \<leftarrow> read_bytes 128 bs; Some (Some (DAddr (ss_read L x))) }
      | VT_BLOB \<Rightarrow>
          do {
            h \<leftarrow> read_bytes 8 bs;
            let sz = bytes_long h;
            if sz < 8 then None
            else do { x \<leftarrow> read_bytes (nat sz) bs; Some (Some (DBlob \<lparr>b_size = sz, b_data = drop 8 x\<rparr>)) } }
      | VT_LIST \<Rightarrow> None
      | VT_TABLE \<Rightarrow> None
      | _ \<Rightarrow> Some None)"

text \<open>The loop of \<open>vp_unpack\<close>, with the two offsets.\<close>

fun unpack_fields ::
  "libc \<Rightarrow> vp \<Rightarrow> nat \<Rightarrow> nat \<Rightarrow> nat \<Rightarrow> nat \<Rightarrow> var list \<Rightarrow> var option list option option" where
  "unpack_fields L vp base n koff foff [] = Some (Some [])"
| "unpack_fields L vp base n koff foff (item # items) =
     do {
       null \<leftarrow> vp_field_is_null vp n;
       let is_key = has_flag (v_flags item) VF_KEY;
       if null \<and> is_key then Some None
       else do {
         d \<leftarrow> (if is_key then
                 (if koff \<le> length (vp_key vp) then copy_raw L (v_type item) (drop koff (vp_key vp)) else None)
               else if null then Some None
               else if base + foff \<le> length (vp_data vp) then copy_raw L (v_type item) (drop (base + foff) (vp_data vp))
               else None);
         if d = None \<and> \<not> (null \<and> \<not> is_key) then Some None
         else do {
           let v = Var (v_type item) (v_name item) d VF_COPY;
           let sz = nat (var_data_size v);
           r \<leftarrow> unpack_fields L vp base (Suc n) (if is_key then koff + sz else koff)
                  (if is_key then foff else foff + sz) items;
           Some (map_option
             (\<lambda>vs. Some (if is_key then Var (v_type item) (v_name item) d (VF_COPY OR VF_KEY) else v) # vs) r) } } }"

definition vp_unpack :: "libc \<Rightarrow> vp \<Rightarrow> var \<Rightarrow> var option option" where
  "vp_unpack L vp scheme =
     (if v_type scheme \<noteq> VT_LIST then Some None
      else
        (case (vp_null_fields vp, vp_fields vp) of
           (Some _, Some base) \<Rightarrow>
             do {
               xs \<leftarrow> vlist_items scheme;
               r \<leftarrow> unpack_fields L vp base 0 0 0 (visible xs);
               Some (map_option
                 (\<lambda>vs. Var VT_LIST (v_name scheme) (Some (DList vs)) (VF_COPYNAME OR VF_CREATE)) r) }
         | _ \<Rightarrow> Some None))"

subsection \<open>One field\<close>

text \<open>The fields that can be stored, and what the layout of an address has to satisfy.\<close>

definition storable :: "libc \<Rightarrow> vtype \<Rightarrow> vdata \<Rightarrow> bool" where
  "storable L t d =
     (case d of
        DInt i \<Rightarrow> t = VT_INT \<and> i64 i
      | DFloat x \<Rightarrow> t = VT_FLOAT
      | DString s \<Rightarrow> t = VT_STRING \<and> CHR 0x00 \<notin> set s \<and> length s < 2 ^ 31 - 1
      | DAddr a \<Rightarrow> t = VT_ADDR \<and> length (ss_bytes L a) = 128 \<and> ss_read L (ss_bytes L a) = a
      | DBlob b \<Rightarrow> t = VT_BLOB \<and> blob_ok b \<and> b_size b < 2 ^ 31
      | _ \<Rightarrow> False)"

lemma unat_of_char: "unat (of_char c :: byte) = of_char c"
proof -
  have "(of_char c :: byte) = of_nat (of_char c)" by (rule of_nat_of_char [symmetric])
  moreover have "(of_char c :: nat) < 2 ^ LENGTH(8)" by simp
  ultimately show ?thesis by (simp only: unsigned_of_nat take_bit_nat_eq_self of_nat_id)
qed

lemma of_char_byte_0: "(of_char c :: byte) = 0 \<longleftrightarrow> c = CHR 0x00"
proof -
  have "(of_char c :: byte) = 0 \<longleftrightarrow> unat (of_char c :: byte) = 0" by (simp add: unat_eq_zero)
  also have "\<dots> \<longleftrightarrow> (of_char c :: nat) = of_char (CHR 0x00)" by (simp add: unat_of_char)
  finally show ?thesis by (simp only: of_char_eq_iff)
qed

lemma takeWhile_bytes_of:
  "CHR 0x00 \<notin> set s \<Longrightarrow> takeWhile (\<lambda>b. b \<noteq> 0) (bytes_of s @ 0 # rest) = bytes_of s"
  by (induction s) (auto simp: bytes_of_def of_char_byte_0)

lemma byte_char_bytes_of: "map byte_char (bytes_of s) = s"
  by (simp add: bytes_of_def comp_def byte_char_def unat_of_char)

lemma of_int_bytes_num: "of_int (bytes_num (long_bytes (uint w))) = (w :: u64)"
proof -
  have "uint w < 2 ^ LENGTH(64)" "0 \<le> uint w" by (rule unsigned_less) simp
  then have "bytes_num (long_bytes (uint w)) = uint w" by (simp add: bytes_num_long_bytes)
  then show ?thesis by simp
qed

lemma length_data_bytes:
  assumes "storable L t d"
  shows "int (length (data_bytes L d)) = var_data_size (Var t n (Some d) f)"
    and "wrap32 (var_data_size (Var t n (Some d) f)) = var_data_size (Var t n (Some d) f)"
proof -
  show "int (length (data_bytes L d)) = var_data_size (Var t n (Some d) f)"
    using assms by (cases d) (auto simp: storable_def var_data_size_def double_bytes_def sizeof_sockaddr_def length_blob_mem)
  have "i32 (var_data_size (Var t n (Some d) f))"
    using assms by (cases d) (auto simp: storable_def var_data_size_def sizeof_sockaddr_def i32_def blob_ok_def)
  then show "wrap32 (var_data_size (Var t n (Some d) f)) = var_data_size (Var t n (Some d) f)"
    by (rule wrap32_id)
qed

lemma pack_data_storable:
  assumes "storable L t d" and "length buffer + length (data_bytes L d) < 2 ^ 31"
  shows "vp_pack_data L mem buffer (Var t n (Some d) f) =
    (let (ok, mem1) = malloc mem in Some (if ok then Some (buffer @ data_bytes L d) else None, mem1))"
proof -
  have "t \<noteq> VT_LIST" "t \<noteq> VT_TABLE" using assms(1) by (auto simp: storable_def split: vdata.splits)
  moreover have "memcpy (Some (data_bytes L d)) (var_data_size (Var t n (Some d) f)) = Some (data_bytes L d)"
    unfolding length_data_bytes(1) [OF assms(1), symmetric] by (simp add: memcpy_def)
  moreover have "i32 (int (length buffer) + var_data_size (Var t n (Some d) f))"
    unfolding length_data_bytes(1) [OF assms(1), symmetric] using assms(2) by (simp add: i32_def)
  ultimately show ?thesis by (simp add: vp_pack_data_def length_data_bytes(2) [OF assms(1)] Let_def split: prod.split)
qed

lemma copy_raw_storable:
  assumes "storable L t d"
  shows "copy_raw L t (data_bytes L d @ rest) = Some (Some d)"
proof (cases d)
  case (DBlob b)
  with assms have ok: "blob_ok b" and t: "t = VT_BLOB" by (auto simp: storable_def)
  have h: "bytes_long (long_bytes (b_size b)) = b_size b" using ok unfolding blob_ok_def by (intro bytes_long_long_bytes) blast
  have sz: "nat (b_size b) = 8 + length (b_data b)" "\<not> b_size b < 8" using ok by (auto simp: blob_ok_def)
  have "\<lparr>b_size = b_size b, b_data = b_data b\<rparr> = b" by simp
  then show ?thesis by (simp add: DBlob t copy_raw_def read_bytes_def blob_mem_def h sz)
next
  case (DString s)
  with assms show ?thesis
    by (simp add: copy_raw_def storable_def takeWhile_bytes_of byte_char_bytes_of)
qed (use assms in \<open>auto simp: storable_def copy_raw_def read_bytes_def double_bytes_def of_int_bytes_num bytes_long_long_bytes\<close>)


subsection \<open>All fields\<close>

definition is_key :: "var \<Rightarrow> bool" where
  "is_key v \<longleftrightarrow> has_flag (v_flags v) VF_KEY"

definition field_ok :: "libc \<Rightarrow> var \<Rightarrow> bool" where
  "field_ok L v = (case v_data v of None \<Rightarrow> \<not> is_key v | Some d \<Rightarrow> storable L (v_type v) d)"

definition field_bytes :: "libc \<Rightarrow> var \<Rightarrow> byte list" where
  "field_bytes L v = (case v_data v of None \<Rightarrow> [] | Some d \<Rightarrow> data_bytes L d)"

definition key_bytes :: "libc \<Rightarrow> var list \<Rightarrow> byte list" where
  "key_bytes L vs = concat (map (field_bytes L) (filter is_key vs))"

definition rest_bytes :: "libc \<Rightarrow> var list \<Rightarrow> byte list" where
  "rest_bytes L vs = concat (map (field_bytes L) (filter (\<lambda>v. \<not> is_key v) vs))"

fun null_bits :: "nat \<Rightarrow> u64 \<Rightarrow> var list \<Rightarrow> u64" where
  "null_bits n w [] = w"
| "null_bits n w (v # vs) = null_bits (Suc n) (if v_data v = None then w OR push_bit n 1 else w) vs"

lemma null_word_bytes [simp]: "null_word (long_bytes (uint w) @ fs) = w"
  by (simp add: null_word_def of_int_bytes_num)

lemma set_null_bytes [simp]:
  "vp_set_null (long_bytes (uint w) @ fs) n = long_bytes (uint (w OR push_bit n 1)) @ fs" for w :: u64
  unfolding vp_set_null_def null_word_bytes by simp

text \<open>A record fits: its key and its data are not longer than an \<open>int\<close> can tell.\<close>

definition vp_fits :: "libc \<Rightarrow> var list \<Rightarrow> bool" where
  "vp_fits L vs \<longleftrightarrow> length (key_bytes L vs) < 2 ^ 31 \<and> 8 + length (rest_bytes L vs) < 2 ^ 31"

lemmas vp_fits_defs = vp_fits_def key_bytes_def rest_bytes_def field_bytes_def

lemma key_bytes_data: "key_bytes L vs = concat (map (case_option [] (data_bytes L)) (map v_data (filter is_key vs)))"
  by (simp add: key_bytes_def field_bytes_def [abs_def] comp_def)

text \<open>In the tables of the modules all fields but the keys are numbers, and only the keys can be long.\<close>

lemma ints_fit:
  assumes "length vs \<le> 64" and "\<forall>v \<in> set vs. is_key v \<or> (\<exists>i. v_data v = map_option DInt i)" and "length (key_bytes L vs) < 2 ^ 31"
  shows "vp_fits L vs"
proof -
  have "length (rest_bytes L vs) \<le> 8 * length vs"
    using assms(2)
  proof (induction vs)
    case (Cons v vs)
    then show ?case by (auto simp: rest_bytes_def field_bytes_def split: option.splits)
  qed (simp add: rest_bytes_def)
  with assms(1,3) show ?thesis by (simp add: vp_fits_def)
qed

lemma malloc_failed: "malloc mem = (a, mem1) \<Longrightarrow> \<not> a \<Longrightarrow> False \<in> set mem"
  by (cases mem) auto

lemma malloc_rest: "malloc mem = (a, mem1) \<Longrightarrow> set mem1 \<subseteq> set mem"
  by (cases mem) auto

text \<open>Packing gives the bytes of all fields, unless an allocation fails.\<close>

lemma pack_fields_ok:
  assumes "\<forall>v \<in> set vs. field_ok L v" and "length key + length (key_bytes L vs) < 2 ^ 31"
    and "8 + length fs + length (rest_bytes L vs) < 2 ^ 31"
  shows "\<exists>r mem'. pack_fields L n mem key (long_bytes (uint w) @ fs) vs = Some (r, mem') \<and>
    (r = None \<or> r = Some (key @ key_bytes L vs, long_bytes (uint (null_bits n w vs)) @ fs @ rest_bytes L vs)) \<and>
    (r = None \<longrightarrow> False \<in> set mem)"
  using assms
proof (induction vs arbitrary: n mem key w fs)
  case (Cons v vs)
  obtain t nm d f where v: "v = Var t nm d f" by (cases v)
  have ok: "field_ok L v" "\<forall>v \<in> set vs. field_ok L v" using Cons.prems by auto
  show ?case
  proof (cases d)
    case None
    with ok(1) v have "\<not> is_key v" by (simp add: field_ok_def)
    with None v Cons.IH [OF ok(2), of key fs "Suc n" mem "w OR push_bit n 1"] Cons.prems(2,3) show ?thesis
      by (simp add: is_key_def key_bytes_def rest_bytes_def field_bytes_def)
  next
    case (Some x)
    with ok(1) v have st: "storable L t x" by (simp add: field_ok_def)
    obtain a mem1 where m: "malloc mem = (a, mem1)" by (cases "malloc mem")
    note nil = malloc_failed [OF m] malloc_rest [OF m]
    show ?thesis
    proof (cases "is_key v")
      case True
      have len: "length key + length (data_bytes L x) < 2 ^ 31" "length (key @ data_bytes L x) + length (key_bytes L vs) < 2 ^ 31"
        "8 + length fs + length (rest_bytes L vs) < 2 ^ 31"
        using Cons.prems(2,3) Some v True by (simp_all add: key_bytes_def rest_bytes_def field_bytes_def)
      show ?thesis
        using Some v True nil pack_data_storable [OF st len(1)] Cons.IH [OF ok(2) len(2,3), of "Suc n" mem1 w]
        by (simp add: m is_key_def key_bytes_def rest_bytes_def field_bytes_def) blast
    next
      case False
      have len: "length (long_bytes (uint w) @ fs) + length (data_bytes L x) < 2 ^ 31" "length key + length (key_bytes L vs) < 2 ^ 31"
        "8 + length (fs @ data_bytes L x) + length (rest_bytes L vs) < 2 ^ 31"
        using Cons.prems(2,3) Some v False by (simp_all add: key_bytes_def rest_bytes_def field_bytes_def)
      show ?thesis
        using Some v False nil pack_data_storable [OF st len(1)] Cons.IH [OF ok(2) len(2,3), of "Suc n" mem1 w]
        by (simp add: m is_key_def key_bytes_def rest_bytes_def field_bytes_def) blast
    qed
  qed
qed (simp add: key_bytes_def rest_bytes_def)

lemma bit_set: "bit (w OR 2 ^ n) k \<longleftrightarrow> bit w k \<or> k = n \<and> n < 64" for w :: u64
  by (auto simp: bit_or_iff bit_exp_iff)

lemma null_bits_low: "k < n \<Longrightarrow> bit (null_bits n w vs) k = bit w k"
  by (induction vs arbitrary: n w) (auto simp: bit_set)

lemma null_bits_bit:
  "i < length vs \<Longrightarrow> n + i < 64 \<Longrightarrow> \<not> bit w (n + i) \<Longrightarrow>
   bit (null_bits n w vs) (n + i) \<longleftrightarrow> v_data (vs ! i) = None"
proof (induction vs arbitrary: n w i)
  case (Cons v vs)
  show ?case
  proof (cases i)
    case 0
    with Cons.prems show ?thesis by (simp add: null_bits_low bit_set)
  next
    case (Suc j)
    with Cons.prems Cons.IH [of j "Suc n" "if v_data v = None then w OR push_bit n 1 else w"] show ?thesis
      by (simp add: bit_set)
  qed
qed simp

text \<open>What comes back of a stored field: a copy, with the key flag where the scheme has it.\<close>

definition unpacked :: "var \<Rightarrow> var" where
  "unpacked v = Var (v_type v) (v_name v) (v_data v) (if is_key v then VF_COPY OR VF_KEY else VF_COPY)"

definition same_field :: "var \<Rightarrow> var \<Rightarrow> bool" where
  "same_field s v \<longleftrightarrow> v_type s = v_type v \<and> v_name s = v_name v \<and> is_key s = is_key v"

lemma unpack_fields_ok:
  assumes "list_all2 same_field ss vs" and "\<forall>v \<in> set vs. field_ok L v"
    and "n + length vs \<le> 64" and "8 \<le> length (vp_data vp)"
    and "\<And>i. i < length vs \<Longrightarrow> bit (null_word (vp_data vp)) (n + i) \<longleftrightarrow> v_data (vs ! i) = None"
    and "koff \<le> length (vp_key vp)" and "drop koff (vp_key vp) = key_bytes L vs @ krest"
    and "8 + foff \<le> length (vp_data vp)" and "drop (8 + foff) (vp_data vp) = rest_bytes L vs @ frest"
  shows "unpack_fields L vp 8 n koff foff ss = Some (Some (map (Some \<circ> unpacked) vs))"
  using assms
proof (induction ss vs arbitrary: n koff foff rule: list_all2_induct)
  case (Cons s ss v vs)
  obtain t nm d f where v: "v = Var t nm d f" by (cases v)
  have s: "v_type s = t" "v_name s = nm" "has_flag (v_flags s) VF_KEY = is_key v"
    using Cons.hyps(1) v by (auto simp: same_field_def is_key_def)
  have ok: "field_ok L v" "\<forall>v \<in> set vs. field_ok L v" using Cons.prems(1) by auto
  have null: "vp_field_is_null vp n = Some (d = None)"
    using Cons.prems(2,3) Cons.prems(4) [of 0] v by (simp add: vp_field_is_null_def)
  have bits: "bit (null_word (vp_data vp)) (Suc n + i) \<longleftrightarrow> v_data (vs ! i) = None" if "i < length vs" for i
    using Cons.prems(4) [of "Suc i"] that by simp
  show ?case
  proof (cases d)
    case None
    with ok(1) v have k: "\<not> is_key v" by (simp add: field_ok_def)
    have "unpack_fields L vp 8 (Suc n) koff foff ss = Some (Some (map (Some \<circ> unpacked) vs))"
      by (rule Cons.IH [OF ok(2) _ Cons.prems(3) bits Cons.prems(5) _ Cons.prems(7)])
        (use Cons.prems(2,6,8) None v k in \<open>simp_all add: key_bytes_def rest_bytes_def field_bytes_def\<close>)
    then show ?thesis
      using None v s null k by (simp add: unpacked_def var_data_size_def Let_def)
  next
    case (Some x)
    with ok(1) v have st: "storable L t x" by (simp add: field_ok_def)
    have sz: "nat (var_data_size (Var t nm (Some x) f')) = length (field_bytes L v)" for f'
      using length_data_bytes(1) [OF st, of nm f'] Some v by (simp add: field_bytes_def flip: of_nat_eq_iff)
    have fb: "field_bytes L v = data_bytes L x" using Some v by (simp add: field_bytes_def)
    show ?thesis
    proof (cases "is_key v")
      case True
      have drop: "drop koff (vp_key vp) = data_bytes L x @ key_bytes L vs @ krest"
        using Cons.prems(6) True fb by (simp add: key_bytes_def)
      have "koff + length (field_bytes L v) \<le> length (vp_key vp)"
        using arg_cong [OF drop, of length] Cons.prems(5) fb by simp
      moreover have "drop (koff + length (field_bytes L v)) (vp_key vp) = key_bytes L vs @ krest"
        using drop fb by (metis add.commute append_eq_conv_conj drop_drop)
      moreover have "drop (8 + foff) (vp_data vp) = rest_bytes L vs @ frest"
        using Cons.prems(8) True by (simp add: rest_bytes_def)
      ultimately have "unpack_fields L vp 8 (Suc n) (koff + length (field_bytes L v)) foff ss =
          Some (Some (map (Some \<circ> unpacked) vs))"
        using Cons.prems(2) by (intro Cons.IH [OF ok(2) _ Cons.prems(3) bits _ _ Cons.prems(7)]) simp_all
      then show ?thesis
        using Some v s null True Cons.prems(5) copy_raw_storable [OF st] drop sz by (simp add: unpacked_def Let_def)
    next
      case False
      have drop: "drop (8 + foff) (vp_data vp) = data_bytes L x @ rest_bytes L vs @ frest"
        using Cons.prems(8) False fb by (simp add: rest_bytes_def)
      have "8 + (foff + length (field_bytes L v)) \<le> length (vp_data vp)"
        using arg_cong [OF drop, of length] Cons.prems(7) fb by simp
      moreover have "drop (8 + (foff + length (field_bytes L v))) (vp_data vp) = rest_bytes L vs @ frest"
        using drop fb by (metis add.assoc add.commute append_eq_conv_conj drop_drop)
      moreover have "drop koff (vp_key vp) = key_bytes L vs @ krest"
        using Cons.prems(6) False by (simp add: key_bytes_def)
      ultimately have "unpack_fields L vp 8 (Suc n) koff (foff + length (field_bytes L v)) ss =
          Some (Some (map (Some \<circ> unpacked) vs))"
        using Cons.prems(2) by (intro Cons.IH [OF ok(2) _ Cons.prems(3) bits Cons.prems(5)]) simp_all
      then show ?thesis
        using Some v s null False Cons.prems(7) copy_raw_storable [OF st] drop sz by (simp add: unpacked_def Let_def)
    qed
  qed
qed simp


text \<open>The packed form of a record.\<close>

definition packed :: "libc \<Rightarrow> var list \<Rightarrow> vp" where
  "packed L vs = vp_init (key_bytes L vs) (long_bytes (uint (null_bits 0 0 vs)) @ rest_bytes L vs)"

lemma visible_Some [simp]: "visible (map Some xs) = xs"
  by (induction xs) auto

lemma vp_pack_mem_packed:
  assumes "length vs \<le> 64" and "\<forall>v \<in> set vs. field_ok L v" and "vp_fits L vs"
  shows "\<exists>r mem'. vp_pack_mem L mem (Var VT_LIST rname (Some (DList (map Some vs))) rf) = Some (r, mem') \<and>
    (r = None \<or> r = Some (packed L vs)) \<and> (r = None \<longrightarrow> False \<in> set mem)"
proof -
  obtain a mem1 where m1: "malloc mem = (a, mem1)" by (cases "malloc mem")
  obtain b mem2 where m2: "malloc mem1 = (b, mem2)" by (cases "malloc mem1")
  note nil = malloc_failed [OF m1] malloc_rest [OF m1] malloc_failed [OF m2] malloc_rest [OF m2]
  have "vp_prepend_meta = long_bytes (uint (0 :: u64)) @ []" by (simp add: vp_prepend_meta_def)
  with pack_fields_ok [OF assms(2), of "[]" "[]" 0 mem2 0] assms(3) obtain r mem' where
    "pack_fields L 0 mem2 [] vp_prepend_meta vs = Some (r, mem')"
    "r = None \<or> r = Some (key_bytes L vs, long_bytes (uint (null_bits 0 0 vs)) @ rest_bytes L vs)" "r = None \<longrightarrow> False \<in> set mem2"
    by (auto simp: vp_fits_def)
  then show ?thesis
    using assms(1) nil by (auto simp: vp_pack_mem_def vlist_items_def VP_FIELD_LIMIT_def packed_def m1 m2)
qed

lemma vp_pack_packed:
  assumes "length vs \<le> 64" and "\<forall>v \<in> set vs. field_ok L v" and "vp_fits L vs"
  shows "vp_pack L (Var VT_LIST rname (Some (DList (map Some vs))) rf) = Some (Some (packed L vs))"
  using vp_pack_mem_packed [OF assms, of "[]" rname rf] by (auto simp: vp_pack_def)

lemma vp_unpack_packed:
  assumes "length vs \<le> 64" and "\<forall>v \<in> set vs. field_ok L v" and "list_all2 same_field ss vs"
  shows "vp_unpack L (packed L vs) (Var VT_LIST sname (Some (DList (map Some ss))) sf) =
    Some (Some (Var VT_LIST sname (Some (DList (map (Some \<circ> unpacked) vs))) (VF_COPYNAME OR VF_CREATE)))"
proof -
  have "unpack_fields L (packed L vs) 8 0 0 0 ss = Some (Some (map (Some \<circ> unpacked) vs))"
  proof (rule unpack_fields_ok [OF assms(3,2), where krest = "[]" and frest = "[]"])
    show "bit (null_word (vp_data (packed L vs))) (0 + i) \<longleftrightarrow> v_data (vs ! i) = None" if "i < length vs" for i
      using null_bits_bit [of i vs 0 0] that assms(1) by (simp add: vp_init_def packed_def)
  qed (use assms(1) in \<open>simp_all add: vp_init_def packed_def\<close>)
  then show ?thesis by (simp add: vp_unpack_def vlist_items_def vp_init_def packed_def)
qed

text \<open>Keys of the same fields end where their last field ends: none is a prefix of another.\<close>

lemma data_bytes_inj:
  assumes "storable L t d" and "storable L t d'" and "data_bytes L d @ r = data_bytes L d' @ r'"
  shows "d = d' \<and> r = r'"
proof -
  have "Some (Some d) = Some (Some d')"
    using copy_raw_storable [OF assms(1), of r] copy_raw_storable [OF assms(2), of r'] assms(3) by simp
  with assms(3) show ?thesis by simp
qed

lemma key_bytes_prefix:
  assumes "list_all2 same_field ss vs" and "list_all2 same_field ss vs'"
    and "\<forall>v \<in> set vs. field_ok L v" and "\<forall>v \<in> set vs'. field_ok L v"
    and "key_bytes L vs @ r = key_bytes L vs' @ r'"
  shows "map v_data (filter is_key vs) = map v_data (filter is_key vs') \<and> r = r'"
  using assms
proof (induction ss arbitrary: vs vs')
  case Nil
  then show ?case by (simp add: key_bytes_def)
next
  case (Cons s ss)
  obtain v ws v' ws' where vs: "vs = v # ws" "vs' = v' # ws'" using Cons.prems(1,2) by (auto simp: list_all2_Cons1)
  have same: "same_field s v" "same_field s v'" "list_all2 same_field ss ws" "list_all2 same_field ss ws'"
    using Cons.prems(1,2) by (simp_all add: vs)
  have ok: "field_ok L v" "field_ok L v'" "\<forall>v \<in> set ws. field_ok L v" "\<forall>v \<in> set ws'. field_ok L v"
    using Cons.prems(3,4) by (simp_all add: vs)
  show ?case
  proof (cases "is_key s")
    case False
    then have "\<not> is_key v" "\<not> is_key v'" using same by (simp_all add: same_field_def)
    with Cons.IH [OF same(3,4) ok(3,4)] Cons.prems(5) show ?thesis by (simp add: vs key_bytes_def)
  next
    case True
    then have key: "is_key v" "is_key v'" using same by (simp_all add: same_field_def)
    then obtain d d' where d: "v_data v = Some d" "v_data v' = Some d'" "storable L (v_type v) d" "storable L (v_type v') d'"
      using ok(1,2) by (auto simp: field_ok_def split: option.split_asm)
    have "v_type v = v_type v'" using same by (simp add: same_field_def)
    then have "d = d' \<and> key_bytes L ws @ r = key_bytes L ws' @ r'"
      using data_bytes_inj [of L "v_type v" d d' "key_bytes L ws @ r" "key_bytes L ws' @ r'"] d key Cons.prems(5)
      by (simp add: vs key_bytes_def field_bytes_def)
    with Cons.IH [OF same(3,4) ok(3,4)] d key show ?thesis by (simp add: vs)
  qed
qed

text \<open>
  C8: packing and unpacking a record. Take a record of at most 64 fields of the types \<open>VT_INT\<close>,
  \<open>VT_FLOAT\<close>, \<open>VT_STRING\<close>, \<open>VT_ADDR\<close> and \<open>VT_BLOB\<close>, any of which may be \<open>NULL\<close> unless it is part of the key;
  each value is one of its C type (64-bit integers, strings without \<open>NUL\<close>, blobs with their size),
  and the bytes of the key, and those of the other fields with the eight in front, are fewer than
  \<open>2 ^ 31\<close>. Whatever allocations fail, \<open>vp_pack\<close> returns \<open>NULL\<close> or a packed record from which \<open>vp_unpack\<close>,
  with a scheme of the same names, types and key flags, restores every field with its data; it
  returns \<open>NULL\<close> only when an allocation failed. Of addresses it is used that their 128 bytes
  determine them.
\<close>

theorem vp_pack_unpack:
  assumes "length vs \<le> 64" and "\<forall>v \<in> set vs. field_ok L v" and "vp_fits L vs" and "list_all2 same_field ss vs"
  shows "\<exists>r mem'. vp_pack_mem L mem (Var VT_LIST rname (Some (DList (map Some vs))) rf) = Some (r, mem') \<and>
    (case r of
       None \<Rightarrow> False \<in> set mem
     | Some vp \<Rightarrow> vp_unpack L vp (Var VT_LIST sname (Some (DList (map Some ss))) sf) =
         Some (Some (Var VT_LIST sname (Some (DList (map (Some \<circ> unpacked) vs))) (VF_COPYNAME OR VF_CREATE))))"
  using vp_pack_mem_packed [OF assms(1-3), of mem rname rf] vp_unpack_packed [OF assms(1,2,4)] by auto

theorem vp_pack_unpack_witness:
  "\<exists>vp mem'. vp_pack_mem word_libc [] (Var VT_LIST None (Some (DList [Some (Var VT_STRING (Some ''k'') (Some (DString ''ab'')) VF_KEY),
        Some (Var VT_INT (Some ''n'') None 0), Some (Var VT_INT (Some ''m'') (Some (DInt (-7))) 0)])) 0) = Some (Some vp, mem') \<and>
    vp_unpack word_libc vp (Var VT_LIST None (Some (DList [Some (Var VT_STRING (Some ''k'') None VF_KEY),
        Some (Var VT_INT (Some ''n'') None 0), Some (Var VT_INT (Some ''m'') None 0)])) 0) =
      Some (Some (Var VT_LIST None (Some (DList [Some (Var VT_STRING (Some ''k'') (Some (DString ''ab'')) (VF_COPY OR VF_KEY)),
        Some (Var VT_INT (Some ''n'') None VF_COPY), Some (Var VT_INT (Some ''m'') (Some (DInt (-7))) VF_COPY)]))
        (VF_COPYNAME OR VF_CREATE)))"
proof -
  let ?vs = "[Var VT_STRING (Some ''k'') (Some (DString ''ab'')) VF_KEY, Var VT_INT (Some ''n'') None 0,
    Var VT_INT (Some ''m'') (Some (DInt (-7))) 0]"
  let ?ss = "[Var VT_STRING (Some ''k'') None VF_KEY, Var VT_INT (Some ''n'') None 0, Var VT_INT (Some ''m'') None 0]"
  have key: "has_flag VF_KEY VF_KEY" "\<not> has_flag 0 VF_KEY" by (simp_all add: has_flag_def VF_KEY_def)
  have "\<forall>v \<in> set ?vs. field_ok word_libc v"
    by (simp add: field_ok_def is_key_def key storable_def i64_def)
  moreover have "list_all2 same_field ?ss ?vs" by (simp add: same_field_def is_key_def)
  moreover have "vp_fits word_libc ?vs" by (simp add: vp_fits_def key_bytes_def rest_bytes_def field_bytes_def is_key_def key)
  ultimately have "\<exists>r mem'. vp_pack_mem word_libc [] (Var VT_LIST None (Some (DList (map Some ?vs))) 0) = Some (r, mem') \<and>
    (case r of
       None \<Rightarrow> False \<in> set ([] :: mem)
     | Some vp \<Rightarrow> vp_unpack word_libc vp (Var VT_LIST None (Some (DList (map Some ?ss))) 0) =
         Some (Some (Var VT_LIST None (Some (DList (map (Some \<circ> unpacked) ?vs))) (VF_COPYNAME OR VF_CREATE))))"
    by (intro vp_pack_unpack) simp_all
  then show ?thesis by (auto simp: unpacked_def is_key_def key split: option.splits)
qed

text \<open>
  A record with a list field can be packed (as text) but not unpacked: \<open>vp_unpack\<close> follows the
  text as if it were a list.
\<close>

theorem vp_unpack_list_undefined:
  "\<exists>vp. vp_pack word_libc (Var VT_LIST None (Some (DList [Some (Var VT_LIST (Some ''l'') (Some (DList [])) 0)])) 0) =
      Some (Some vp) \<and>
    vp_unpack word_libc vp (Var VT_LIST None (Some (DList [Some (Var VT_LIST (Some ''l'') None 0)])) 0) = None"
proof -
  have nokey: "\<not> has_flag 0 VF_KEY" by (simp add: has_flag_def)
  have dump: "var_dump_data word_libc (Var VT_LIST (Some ''l'') (Some (DList [])) 0) 8192 = Some (2, ''()'')"
    by (simp add: var_dump_data_def var_dump_list_or_table_def write_at_def dump_check_def)
  have "vp_pack_data word_libc [] vp_prepend_meta (Var VT_LIST (Some ''l'') (Some (DList [])) 0) =
      Some (Some (long_bytes (uint (0 :: u64)) @ bytes_of ''()'' @ [0]), [])"
    by (simp add: vp_pack_data_def dump memcpy_def vp_prepend_meta_def i32_def)
  moreover have "null_word (long_bytes 0 @ bytes_of ''()'' @ [0]) = 0"
    using null_word_bytes [of 0 "bytes_of ''()'' @ [0]"] by simp
  ultimately show ?thesis
    by (simp add: vp_pack_def vp_pack_mem_def vlist_items_def VP_FIELD_LIMIT_def nokey vp_unpack_def vp_init_def
        vp_field_is_null_def copy_raw_def)
qed

end
