(* ===== verification/Symbols.thy ===== *)
theory Symbols
  imports Vtable
begin

section \<open>Symbols and variables of a message (acl.c)\<close>

text \<open>
  The part of \<open>src/src/acl.c\<close> that expressions rest on: registered symbols, constants and
  functions, and the variables that rules assign. The attributes of a message (the \<open>mailspec\<close>)
  are a map from names to values; \<open>Vtable\<close> shows that the hash table behind it is one. Values
  that rules mention literally, and registered constants, live in a store of their own, because
  the prefix operator changes them in place.

  Callbacks of symbols and of functions are arguments: they are the modules. A simple function gets
  pointers to the data of its arguments and may change it; what its argument vector points to
  afterwards is its second result. Complex functions only read their arguments. The outer option is
  \<open>None\<close> where a function reads through a \<open>NULL\<close> pointer.
\<close>

type_synonym mailspec = "string \<rightharpoonup> var"

record xstate =
  xs_spec :: mailspec
  xs_const :: "nat \<Rightarrow> var"

text \<open>A \<open>var_t *\<close> that an evaluation returns: whose variable it points to.\<close>

datatype vref =
    Fresh var
  | Static var
  | Const nat
  | Sym string
  | Variable string

type_synonym symbol_callback = "int \<Rightarrow> string \<Rightarrow> mailspec \<Rightarrow> int \<times> mailspec"

datatype acl_function =
    AF_SIMPLE "vtype list" "vdata option list \<Rightarrow> (var option \<times> vdata option list) option"
  | AF_COMPLEX "var option list \<Rightarrow> var option option"

datatype acl_symbol_data =
    AS_CONSTANT nat
  | AS_SYMBOL "symbol_callback option" bool
  | AS_FUNCTION acl_function
  | AS_MACRO

text \<open>\<open>AS_SYMBOL callback nocache\<close>.\<close>

record acl_symbol =
  as_stages :: int
  as_data :: acl_symbol_data

record xenv =
  x_libc :: libc
  x_symbols :: "string \<Rightarrow> acl_symbol option"
  x_regex :: "bool \<Rightarrow> string \<Rightarrow> string \<Rightarrow> bool option"
  x_getsymval :: "vdata \<Rightarrow> string \<Rightarrow> string option"

definition EXP_EMPTY :: var where
  "EXP_EMPTY = Var VT_INT None None VF_KEEP"

definition EXP_TRUE :: var where
  "EXP_TRUE = Var VT_INT None (Some (DInt 1)) VF_KEEP"

definition EXP_FALSE :: var where
  "EXP_FALSE = Var VT_INT None (Some (DInt 0)) VF_KEEP"

subsection \<open>The attributes of a message\<close>

definition spec_get :: "mailspec \<Rightarrow> string \<Rightarrow> vdata option" where
  "spec_get m name = (case m name of None \<Rightarrow> None | Some v \<Rightarrow> v_data v)"

definition spec_set_new :: "mailspec \<Rightarrow> vtype \<Rightarrow> string \<Rightarrow> vdata option \<Rightarrow> u32 \<Rightarrow> int \<times> mailspec" where
  "spec_set_new m t name d flags =
     (case var_create t (Some name) d flags of None \<Rightarrow> (-1, m) | Some v \<Rightarrow> (0, m(name \<mapsto> v)))"

text \<open>These are the table operations, seen through the map of the table.\<close>

lemma spec_get_vtable: "vtab_ok t \<Longrightarrow> vtable_get t name = spec_get (vtab_map t) name"
  by (simp add: vtable_get_def spec_get_def vtable_lookup_map)

lemma spec_set_new_vtable:
  assumes "vtab_ok t" and "Suc (vtab_size t) < 2 ^ 30"
  shows "\<exists>t'. vtable_set_new t ty (Some name) d f = (fst (spec_set_new (vtab_map t) ty name d f), t') \<and>
    vtab_ok t' \<and> vtab_map t' = snd (spec_set_new (vtab_map t) ty name d f)"
proof (cases "var_create ty (Some name) d f")
  case None
  with assms(1) show ?thesis by (simp add: vtable_set_new_def spec_set_new_def)
next
  case (Some v)
  obtain t' where "vtable_set_new t ty (Some name) d f = (0, t')" "vtab_ok t'" "vtab_map t' = (vtab_map t)(name \<mapsto> v)"
    by (rule vtable_set_new_map [OF assms Some])
  with Some show ?thesis by (simp add: spec_set_new_def)
qed

subsection \<open>Variables\<close>

definition ACL_VARIABLES :: string where
  "ACL_VARIABLES = ''VARIABLES''"

definition tbl_lookup :: "var list \<Rightarrow> string \<Rightarrow> var option" where
  "tbl_lookup vs name = find (\<lambda>v. v_key v = name) vs"

definition tbl_set :: "var list \<Rightarrow> var \<Rightarrow> var list" where
  "tbl_set vs v = filter (\<lambda>w. v_key w \<noteq> v_key v) vs @ [v]"

text \<open>\<open>acl_variables\<close>: the table, created when there is none yet; data that is no table is \<open>None\<close>.\<close>

definition acl_variables :: "mailspec \<Rightarrow> (var list \<times> mailspec) option" where
  "acl_variables m =
     (case m ACL_VARIABLES of
        Some v \<Rightarrow> (case v_data v of Some (DTable vs) \<Rightarrow> Some (vs, m) | _ \<Rightarrow> None)
      | None \<Rightarrow>
          Some ([], m(ACL_VARIABLES \<mapsto> Var VT_TABLE (Some ACL_VARIABLES) (Some (DTable [])) (VF_KEEPNAME OR VF_CREATE))))"

definition put_variables :: "mailspec \<Rightarrow> var list \<Rightarrow> mailspec" where
  "put_variables m vs =
     (case m ACL_VARIABLES of
        None \<Rightarrow> m
      | Some v \<Rightarrow> m(ACL_VARIABLES \<mapsto> Var (v_type v) (v_name v) (Some (DTable vs)) (v_flags v)))"

definition strip_dollar :: "string \<Rightarrow> string" where
  "strip_dollar name = dropWhile (\<lambda>c. c = CHR ''$'') name"

definition acl_variable_assign :: "mailspec \<Rightarrow> string \<Rightarrow> var \<Rightarrow> (int \<times> mailspec) option" where
  "acl_variable_assign m name val =
     do {
       (vs, m1) \<leftarrow> acl_variables m;
       Some (case var_create (v_type val) (Some (strip_dollar name)) (v_data val) VF_COPY of
               None \<Rightarrow> (-1, m1)
             | Some copy \<Rightarrow> (0, put_variables m1 (tbl_set vs copy))) }"

definition acl_variable_get :: "mailspec \<Rightarrow> string \<Rightarrow> (var option \<times> mailspec) option" where
  "acl_variable_get m name =
     do { (vs, m1) \<leftarrow> acl_variables m; Some (tbl_lookup vs (strip_dollar name), m1) }"

subsection \<open>References\<close>

definition deref :: "xstate \<Rightarrow> vref \<Rightarrow> var option" where
  "deref st r =
     (case r of
        Fresh v \<Rightarrow> Some v
      | Static v \<Rightarrow> Some v
      | Const n \<Rightarrow> Some (xs_const st n)
      | Sym name \<Rightarrow> xs_spec st name
      | Variable name \<Rightarrow>
          (case xs_spec st ACL_VARIABLES of
             Some (Var _ _ (Some (DTable vs)) _) \<Rightarrow> tbl_lookup vs name
           | _ \<Rightarrow> None))"

text \<open>A pointer that may be \<open>NULL\<close>.\<close>

definition deref_opt :: "xstate \<Rightarrow> vref option \<Rightarrow> var option option" where
  "deref_opt st r = (case r of None \<Rightarrow> Some None | Some x \<Rightarrow> map_option Some (deref st x))"

text \<open>Change of the value in place.\<close>

definition write_ref :: "xstate \<Rightarrow> vref \<Rightarrow> var \<Rightarrow> vref \<times> xstate" where
  "write_ref st r v =
     (case r of
        Fresh _ \<Rightarrow> (Fresh v, st)
      | Static _ \<Rightarrow> (Static v, st)
      | Const n \<Rightarrow> (r, st\<lparr>xs_const := (xs_const st)(n := v)\<rparr>)
      | Sym name \<Rightarrow> (r, st\<lparr>xs_spec := (xs_spec st)(name \<mapsto> v)\<rparr>)
      | Variable name \<Rightarrow>
          (r, st\<lparr>xs_spec := put_variables (xs_spec st)
             (case acl_variables (xs_spec st) of None \<Rightarrow> [] | Some (vs, _) \<Rightarrow>
                map (\<lambda>w. if v_key w = name then v else w) vs)\<rparr>))"

text \<open>What \<open>exp_free\<close> frees.\<close>

definition owned :: "vref \<Rightarrow> bool" where
  "owned r = (case r of Fresh v \<Rightarrow> has_flag (v_flags v) VF_EXP_FREE | _ \<Rightarrow> False)"

subsection \<open>Symbols\<close>

definition acl_function_lookup :: "xenv \<Rightarrow> string \<Rightarrow> acl_function option" where
  "acl_function_lookup E name =
     (case x_symbols E name of
        None \<Rightarrow> None
      | Some as \<Rightarrow> (case as_data as of AS_FUNCTION af \<Rightarrow> Some af | _ \<Rightarrow> None))"

definition acl_symbol_lookup :: "xenv \<Rightarrow> string \<Rightarrow> acl_symbol option" where
  "acl_symbol_lookup E name = x_symbols E name"

definition acl_symbol_get :: "xenv \<Rightarrow> xstate \<Rightarrow> string \<Rightarrow> (vref option \<times> xstate) option" where
  "acl_symbol_get E st name =
     (case acl_symbol_lookup E name of
        None \<Rightarrow> Some (None, st)
      | Some as \<Rightarrow>
          (case spec_get (xs_spec st) ''stage'' of
             None \<Rightarrow> Some (None, st)
           | Some d \<Rightarrow>
               do {
                 stage \<leftarrow> as_int (Some d);
                 if as_stages as AND stage = 0 then Some (None, st)
                 else
                   (case as_data as of
                      AS_CONSTANT n \<Rightarrow> Some (Some (Const n), st)
                    | AS_SYMBOL callback nocache \<Rightarrow>
                        if \<not> nocache \<and> xs_spec st name \<noteq> None then Some (Some (Sym name), st)
                        else
                          (let (r, m) = (case callback of
                                           None \<Rightarrow> spec_set_new (xs_spec st) VT_INT name None (VF_COPYNAME OR VF_KEEPDATA)
                                         | Some cb \<Rightarrow> cb stage name (xs_spec st));
                               st1 = st\<lparr>xs_spec := m\<rparr> in
                           Some (if r \<noteq> 0 then None else if m name = None then None else Some (Sym name), st1))
                    | _ \<Rightarrow> Some (None, st)) }))"

text \<open>\<open>acl_symbol_dereference\<close>: the number of failures and the data pointers.\<close>

fun acl_symbol_dereference ::
  "xenv \<Rightarrow> xstate \<Rightarrow> string list \<Rightarrow> (int \<times> vdata option list \<times> xstate) option" where
  "acl_symbol_dereference E st [] = Some (0, [], st)"
| "acl_symbol_dereference E st (name # names) =
     do {
       (r, st1) \<leftarrow> acl_symbol_get E st name;
       v \<leftarrow> deref_opt st1 r;
       (errors, ds, st2) \<leftarrow> acl_symbol_dereference E st1 names;
       Some (case v of None \<Rightarrow> (errors + 1, None # ds, st2) | Some x \<Rightarrow> (errors, v_data x # ds, st2)) }"

end
