(* ===== verification/Exp.thy ===== *)
theory Exp
  imports Symbols "HOL-Library.Signed_Division"
begin

section \<open>Expressions (exp.c)\<close>

text \<open>
  The expressions of the ACL language and their evaluation, \<open>src/src/exp.c\<close>. \<open>exp_eval\<close> returns
  a reference (a pointer that may be \<open>NULL\<close>) and the new state, or \<open>None\<close> where the C program
  reads freed or missing memory, divides by zero or frees twice. A value with a \<open>NULL\<close> data
  pointer is the unknown of a three-valued logic.

  The value behind a reference is read when the operator is applied, after all its operands have
  been evaluated, as the C code follows the pointer. Items of a list are read when the list is
  complete.
\<close>

datatype oper =
    OAssign | OIsSet | OAnd | OOr | ONot | OIsNull
  | OLt | OGt | OLe | OGe | OEq | ONe | OMatch | ONoMatch | OIn
  | OAdd | OSub | OMul | ODiv | OMod

datatype exp =
    EX_PARENTHESES exp
  | EX_CONSTANT nat
  | EX_LIST "exp list"
  | EX_SYMBOL string
  | EX_FUNCTION string "exp option"
  | EX_VARIABLE string
  | EX_OPERATION oper exp "exp option"
  | EX_TERNARY_COND exp exp exp
  | EX_MACRO string

text \<open>\<open>exp_list\<close>: the comma of the grammar.\<close>

definition exp_list :: "exp \<Rightarrow> exp \<Rightarrow> exp" where
  "exp_list l e = (case l of EX_LIST es \<Rightarrow> EX_LIST (es @ [e]) | _ \<Rightarrow> EX_LIST [l, e])"

subsection \<open>Operators on values\<close>

definition exp_compare :: "libc \<Rightarrow> oper \<Rightarrow> var option \<Rightarrow> var option \<Rightarrow> vref option option" where
  "exp_compare L op left right =
     (case (left, right) of
        (Some l, Some r) \<Rightarrow>
          if v_data l = None \<or> v_data r = None then Some (Some (Static EXP_EMPTY))
          else
            do {
              c \<leftarrow> var_compare L l r;
              Some (case c of
                      None \<Rightarrow> None
                    | Some cmp \<Rightarrow>
                        (let yes = Some (Static EXP_TRUE); no = Some (Static EXP_FALSE) in
                         if cmp = -1 then (if op \<in> {OLt, OLe, ONe} then yes else no)
                         else if cmp = 0 then (if op \<in> {OLe, OGe, OEq} then yes else no)
                         else if cmp = 1 then (if op \<in> {OGt, OGe, ONe} then yes else no)
                         else None)) }
      | _ \<Rightarrow> Some (Some (Static EXP_EMPTY)))"

definition fresh :: "vtype \<Rightarrow> vdata \<Rightarrow> vref option" where
  "fresh t d = map_option Fresh (var_create t None (Some d) (VF_COPYDATA OR VF_EXP_FREE))"

text \<open>\<open>long\<close> division: a zero divisor and the quotient out of range trap.\<close>

definition long_div :: "(int \<Rightarrow> int \<Rightarrow> int) \<Rightarrow> int \<Rightarrow> int \<Rightarrow> int option" where
  "long_div f l r = (if r = 0 \<or> l = - (2 ^ 63) \<and> r = -1 then None else Some (f l r))"

definition exp_math_int :: "oper \<Rightarrow> var \<Rightarrow> var \<Rightarrow> vref option option" where
  "exp_math_int op left right =
     (if v_data left = None \<or> v_data right = None then Some (Some (Static EXP_EMPTY))
      else do {
        l \<leftarrow> as_int (v_data left);
        r \<leftarrow> as_int (v_data right);
        (case op of
           OAdd \<Rightarrow> Some (fresh VT_INT (DInt (wrap64 (l + r))))
         | OSub \<Rightarrow> Some (fresh VT_INT (DInt (wrap64 (l - r))))
         | OMul \<Rightarrow> Some (fresh VT_INT (DInt (wrap64 (l * r))))
         | ODiv \<Rightarrow> do { x \<leftarrow> long_div (sdiv) l r; Some (fresh VT_INT (DInt x)) }
         | OMod \<Rightarrow> do { x \<leftarrow> long_div (smod) l r; Some (fresh VT_INT (DInt x)) }
         | _ \<Rightarrow> Some None) })"

definition exp_math_float :: "libc \<Rightarrow> oper \<Rightarrow> var \<Rightarrow> var \<Rightarrow> vref option option" where
  "exp_math_float L op left right =
     (if v_data left = None \<or> v_data right = None then Some (Some (Static EXP_EMPTY))
      else do {
        l \<leftarrow> as_float (v_data left);
        r \<leftarrow> as_float (v_data right);
        Some (case op of
                OAdd \<Rightarrow> fresh VT_FLOAT (DFloat (fl_add L l r))
              | OSub \<Rightarrow> fresh VT_FLOAT (DFloat (fl_sub L l r))
              | OMul \<Rightarrow> fresh VT_FLOAT (DFloat (fl_mul L l r))
              | ODiv \<Rightarrow> fresh VT_FLOAT (DFloat (fl_div L l r))
              | _ \<Rightarrow> None) })"

definition exp_math_string :: "oper \<Rightarrow> var \<Rightarrow> var \<Rightarrow> vref option option" where
  "exp_math_string op left right =
     (let text0 = (\<lambda>v. case v_data v of None \<Rightarrow> Some ''(null)'' | Some d \<Rightarrow> as_string (Some d)) in
      do {
        l \<leftarrow> text0 left;
        r \<leftarrow> text0 right;
        Some (if op \<noteq> OAdd then None
              else (case util_concat 1024 [l, r] of
                      (n, x) \<Rightarrow> if n = -1 then None else fresh VT_STRING (DString x))) })"

definition exp_is_null :: "var option \<Rightarrow> var" where
  "exp_is_null v = (case v of None \<Rightarrow> EXP_TRUE | Some x \<Rightarrow> if v_data x = None then EXP_TRUE else EXP_FALSE)"

definition exp_not :: "libc \<Rightarrow> var option \<Rightarrow> var" where
  "exp_not L v =
     (case v of
        None \<Rightarrow> EXP_EMPTY
      | Some x \<Rightarrow> if v_data x = None then EXP_EMPTY else if var_true L x then EXP_FALSE else EXP_TRUE)"

text \<open>The string a regular expression operand stands for.\<close>

definition regex_text :: "libc \<Rightarrow> var \<Rightarrow> string option option" where
  "regex_text L v =
     (if v_type v \<noteq> VT_STRING then
        do {
          c \<leftarrow> var_cast_copy L VT_STRING v;
          (case c of None \<Rightarrow> Some None | Some x \<Rightarrow> map_option Some (as_string (v_data x))) }
      else map_option Some (as_string (v_data v)))"

definition exp_eval_regex :: "xenv \<Rightarrow> oper \<Rightarrow> var option \<Rightarrow> var option \<Rightarrow> vref option option" where
  "exp_eval_regex E op left right =
     (case (left, right) of
        (Some l, Some r) \<Rightarrow>
          if v_data l = None \<or> v_data r = None then Some (Some (Static EXP_EMPTY))
          else
            do {
              s \<leftarrow> regex_text (x_libc E) l;
              (case s of
                 None \<Rightarrow> Some None
               | Some str \<Rightarrow>
                   do {
                     p \<leftarrow> regex_text (x_libc E) r;
                     Some (case p of
                             None \<Rightarrow> None
                           | Some pattern \<Rightarrow>
                               (case x_regex E (\<forall>c \<in> set pattern. \<not> isupper c) pattern str of
                                  None \<Rightarrow> None
                                | Some matched \<Rightarrow>
                                    Some (Static (if matched = (op \<noteq> ONoMatch) then EXP_TRUE else EXP_FALSE)))) }) }
      | _ \<Rightarrow> Some (Some (Static EXP_EMPTY)))"

text \<open>
  The loop of \<open>exp_eval_in\<close>. A comparison that fails leaves \<open>cmp\<close> as it was, which is
  indeterminate before the first one that succeeds.
\<close>

fun eval_in_loop :: "libc \<Rightarrow> var \<Rightarrow> int option \<Rightarrow> var list \<Rightarrow> var option" where
  "eval_in_loop L needle cmp [] = Some EXP_FALSE"
| "eval_in_loop L needle cmp (v # vs) =
     do {
       r \<leftarrow> var_compare L needle v;
       c \<leftarrow> (case r of None \<Rightarrow> cmp | Some x \<Rightarrow> Some x);
       if c = 0 then Some EXP_TRUE else eval_in_loop L needle (Some c) vs }"

definition exp_eval_in :: "libc \<Rightarrow> var option \<Rightarrow> var option \<Rightarrow> vref option option" where
  "exp_eval_in L needle haystack =
     (case (needle, haystack) of
        (Some n, Some h) \<Rightarrow>
          if v_data n = None \<or> v_data h = None then Some (Some (Static EXP_EMPTY))
          else if v_type h \<noteq> VT_LIST then Some None
          else do {
            xs \<leftarrow> vlist_items h;
            r \<leftarrow> eval_in_loop L n None (visible xs);
            Some (Some (Static r)) }
      | _ \<Rightarrow> Some (Some (Static EXP_EMPTY)))"

text \<open>\<open>exp_addr_prefix\<close> changes the address in place and returns it.\<close>

definition exp_addr_prefix :: "xstate \<Rightarrow> vref \<Rightarrow> var \<Rightarrow> var \<Rightarrow> (vref \<times> xstate) option" where
  "exp_addr_prefix st ref addr prefix =
     do {
       a \<leftarrow> as_addr (v_data addr);
       ss \<leftarrow> a;
       p \<leftarrow> as_int (v_data prefix);
       ss1 \<leftarrow> util_addr_prefix ss (wrap32 p);
       Some (write_ref st ref (Var (v_type addr) (v_name addr) (Some (DAddr ss1)) (v_flags addr))) }"

text \<open>The end of \<open>exp_eval_operation\<close>: both operands get the larger type, then the arithmetic.\<close>

definition exp_math :: "libc \<Rightarrow> oper \<Rightarrow> var \<Rightarrow> var \<Rightarrow> vref option option" where
  "exp_math L op left right =
     (let math = (\<lambda>l r. case v_type l of
                          VT_INT \<Rightarrow> exp_math_int op l r
                        | VT_FLOAT \<Rightarrow> exp_math_float L op l r
                        | VT_STRING \<Rightarrow> exp_math_string op l r
                        | _ \<Rightarrow> Some None);
          t = max (v_type left) (v_type right) in
      if v_type left = v_type right then math left right
      else if t = v_type left then
        do { c \<leftarrow> var_cast_copy L t right; (case c of None \<Rightarrow> Some None | Some r \<Rightarrow> math left r) }
      else
        do { c \<leftarrow> var_cast_copy L t left; (case c of None \<Rightarrow> Some None | Some l \<Rightarrow> math l right) })"

definition exp_binary :: "xenv \<Rightarrow> oper \<Rightarrow> xstate \<Rightarrow> vref option \<Rightarrow> vref option \<Rightarrow> (vref option \<times> xstate) option" where
  "exp_binary E op st lref rref =
     do {
       left \<leftarrow> deref_opt st lref;
       right \<leftarrow> deref_opt st rref;
       (let pure = (\<lambda>r. do { x \<leftarrow> r; Some (x, st) });
            math = (case (left, right) of
                      (Some l, Some r) \<Rightarrow> pure (exp_math (x_libc E) op l r)
                    | _ \<Rightarrow> Some (Some (Static EXP_EMPTY), st)) in
        if op \<in> {OLt, OGt, OLe, OGe, OEq, ONe} then pure (exp_compare (x_libc E) op left right)
        else if op \<in> {OMatch, ONoMatch} then pure (exp_eval_regex E op left right)
        else if op = OIn then pure (exp_eval_in (x_libc E) left right)
        else if op = ODiv then
          (case (lref, left, right) of
             (Some ref, Some l, Some r) \<Rightarrow>
               if v_type l = VT_ADDR \<and> v_type r = VT_INT then
                 (if owned ref then None
                  else do { (x, st1) \<leftarrow> exp_addr_prefix st ref l r; Some (Some x, st1) })
               else math
           | _ \<Rightarrow> math)
        else math) }"

subsection \<open>Functions and macros\<close>

text \<open>The argument vector of a simple function: casts where the types differ.\<close>

fun simple_args :: "libc \<Rightarrow> vtype list \<Rightarrow> var list \<Rightarrow> vdata option list option option" where
  "simple_args L (t # ts) (v # vs) =
     do {
       d \<leftarrow> (if t = v_type v then Some (Some (v_data v))
             else do { c \<leftarrow> var_cast_copy L t v; Some (map_option v_data c) });
       (case d of
          None \<Rightarrow> Some None
        | Some x \<Rightarrow> do { r \<leftarrow> simple_args L ts vs; Some (map_option (\<lambda>ds. x # ds) r) }) }"
| "simple_args L ts _ = Some (Some (replicate (length ts) None))"

text \<open>The arguments after the call: data of the type that the function expects was passed itself, not a copy.\<close>

fun after_call :: "vtype list \<Rightarrow> var option list \<Rightarrow> vdata option list \<Rightarrow> var option list" where
  "after_call (t # ts) (Some v # vs) (d # ds) =
     Some (if t = v_type v then Var (v_type v) (v_name v) d (v_flags v) else v) # after_call ts vs ds"
| "after_call _ vs _ = vs"

definition exp_eval_function_simple ::
  "libc \<Rightarrow> vtype list \<Rightarrow> (vdata option list \<Rightarrow> (var option \<times> vdata option list) option) \<Rightarrow> var option list \<Rightarrow>
    (var option \<times> var option list) option" where
  "exp_eval_function_simple L types callback args =
     (if length args \<noteq> length types then Some (None, args)
      else do {
        argv \<leftarrow> simple_args L types (visible args);
        (case argv of
           None \<Rightarrow> Some (None, args)
         | Some ds \<Rightarrow> do { (r, ds') \<leftarrow> callback ds; Some (r, after_call types args ds') }) })"

text \<open>The result, and the arguments after the call.\<close>

definition call_function :: "libc \<Rightarrow> acl_function \<Rightarrow> var option list \<Rightarrow> (vref option \<times> var option list) option" where
  "call_function L af args =
     (let wrap = map_option (\<lambda>v. if has_flag (v_flags v) VF_EXP_FREE then Fresh v else Static v) in
      case af of
        AF_SIMPLE types callback \<Rightarrow> do { (r, args') \<leftarrow> exp_eval_function_simple L types callback args; Some (wrap r, args') }
      | AF_COMPLEX callback \<Rightarrow> do { r \<leftarrow> callback args; Some (wrap r, args) })"

text \<open>
  Changes of arguments reach the variables that they refer to: the items of a list that the call
  itself has built, or the single value, which may be a list.
\<close>

fun write_refs :: "xstate \<Rightarrow> vref option list \<Rightarrow> var option list \<Rightarrow> var option list \<Rightarrow> xstate" where
  "write_refs st (Some r # rs) (Some v # vs) (Some v' # vs') =
     write_refs (if v' = v then st else snd (write_ref st r v')) rs vs vs'"
| "write_refs st _ _ _ = st"

definition write_arg :: "xstate \<Rightarrow> vref \<Rightarrow> var \<Rightarrow> var option list \<Rightarrow> var option list \<Rightarrow> xstate" where
  "write_arg st ref v xs xs' =
     (if xs' = xs then st
      else if v_type v = VT_LIST then snd (write_ref st ref (Var (v_type v) (v_name v) (Some (DList xs')) (v_flags v)))
      else (case xs' of Some v' # _ \<Rightarrow> snd (write_ref st ref v') | _ \<Rightarrow> st))"

text \<open>A list of arguments.\<close>

fun list_args :: "exp \<Rightarrow> exp list option" where
  "list_args (EX_LIST es) = Some es"
| "list_args _ = None"

lemma list_args_Some: "list_args e = Some es \<Longrightarrow> e = EX_LIST es"
  by (cases e) auto

lemma list_args_size [termination_simp]: "list_args e = Some es \<Longrightarrow> size_list size es < size e"
  by (auto dest: list_args_Some)

definition milter_macro_lookup :: "xenv \<Rightarrow> xstate \<Rightarrow> string \<Rightarrow> (string option \<times> xstate) option" where
  "milter_macro_lookup E st macro =
     do {
       (errors, ds, st1) \<leftarrow> acl_symbol_dereference E st [''milter_ctx'', ''stagename''];
       Some (if errors \<noteq> 0 then (None, st1)
             else (case hd ds of None \<Rightarrow> (None, st1) | Some ctx \<Rightarrow> (x_getsymval E ctx macro, st1))) }"

definition exp_eval_macro :: "xenv \<Rightarrow> xstate \<Rightarrow> string \<Rightarrow> (vref option \<times> xstate) option" where
  "exp_eval_macro E st macro =
     (if spec_get (xs_spec st) ''stage'' = None then Some (None, st)
      else do {
        (val, st1) \<leftarrow> milter_macro_lookup E st macro;
        Some (case val of
                None \<Rightarrow> (Some (Static EXP_EMPTY), st1)
              | Some s \<Rightarrow>
                  (map_option Fresh
                     (var_create VT_STRING (Some macro) (Some (DString s)) (VF_KEEPNAME OR VF_COPYDATA OR VF_EXP_FREE)),
                   st1)) })"

definition exp_eval_variable :: "xstate \<Rightarrow> string \<Rightarrow> (vref option \<times> xstate) option" where
  "exp_eval_variable st name =
     do {
       (v, m) \<leftarrow> acl_variable_get (xs_spec st) name;
       Some (Some (case v of None \<Rightarrow> Static EXP_EMPTY | Some _ \<Rightarrow> Variable (strip_dollar name)), st\<lparr>xs_spec := m\<rparr>) }"

definition exp_isset :: "xstate \<Rightarrow> exp \<Rightarrow> vref option" where
  "exp_isset st e =
     (case e of
        EX_SYMBOL name \<Rightarrow> Some (Static (if xs_spec st name \<noteq> None then EXP_TRUE else EXP_FALSE))
      | _ \<Rightarrow> None)"

text \<open>\<open>exp_assign\<close> once the right side has been evaluated.\<close>

definition assign_value :: "xstate \<Rightarrow> exp \<Rightarrow> vref option \<Rightarrow> (vref option \<times> xstate) option" where
  "assign_value st left r =
     (case (left, r) of
        (EX_VARIABLE name, Some ref) \<Rightarrow>
          do {
            v \<leftarrow> deref st ref;
            (e, m) \<leftarrow> acl_variable_assign (xs_spec st) name v;
            Some (if e \<noteq> 0 then None else Some ref, st\<lparr>xs_spec := m\<rparr>) }
      | _ \<Rightarrow> Some (None, st))"

subsection \<open>Boolean operators\<close>

text \<open>
  The steps of \<open>exp_bool\<close> after the left operand, and after the right one; \<open>known\<close> and \<open>true\<close>
  of an operand are the truth of its data pointer and of its value.
\<close>

definition bool_left :: "libc \<Rightarrow> oper \<Rightarrow> vref \<Rightarrow> var \<Rightarrow> vref option" where
  "bool_left L op lref left =
     (let known = (v_data left \<noteq> None); true = (known \<and> var_true L left) in
      if op = OOr \<and> known \<and> true then Some lref
      else if op = OAnd \<and> known \<and> \<not> true then Some (Static EXP_FALSE)
      else None)"

definition bool_right :: "libc \<Rightarrow> oper \<Rightarrow> var \<Rightarrow> vref \<Rightarrow> var \<Rightarrow> vref option" where
  "bool_right L op left rref right =
     (let lk = (v_data left \<noteq> None); lt = (lk \<and> var_true L left);
          rk = (v_data right \<noteq> None); rt = (rk \<and> var_true L right) in
      if op = OOr \<and> \<not> lt then Some rref
      else if \<not> lk \<and> \<not> rk then Some (Static EXP_EMPTY)
      else if \<not> lk \<or> \<not> rk then
        (let kv = (if lk then lt else rt) in
         if op = OAnd \<and> \<not> kv then Some (Static EXP_FALSE)
         else if op = OOr \<and> kv then None
         else Some (Static EXP_EMPTY))
      else if (if op = OAnd then lt \<and> rt else lt \<or> rt) then Some (Static EXP_TRUE)
      else Some (Static EXP_FALSE))"

subsection \<open>Evaluation\<close>

function exp_eval :: "xenv \<Rightarrow> exp \<Rightarrow> xstate \<Rightarrow> (vref option \<times> xstate) option"
  and exp_eval_items :: "xenv \<Rightarrow> exp list \<Rightarrow> xstate \<Rightarrow> (vref option list \<times> xstate) option" where
  "exp_eval E (EX_PARENTHESES e) st = exp_eval E e st"
| "exp_eval E (EX_CONSTANT n) st = Some (Some (Const n), st)"
| "exp_eval E (EX_LIST es) st =
     do {
       (rs, st1) \<leftarrow> exp_eval_items E es st;
       vs \<leftarrow> those (map (deref_opt st1) rs);
       Some (Some (Fresh (Var VT_LIST None (Some (DList vs)) (VF_EXP_FREE OR VF_CREATE))), st1) }"
| "exp_eval E (EX_SYMBOL name) st = acl_symbol_get E st name"
| "exp_eval E (EX_FUNCTION name args) st =
     (case acl_function_lookup E name of
        None \<Rightarrow> Some (None, st)
      | Some af \<Rightarrow>
          (case args of
             None \<Rightarrow> do { (r, _) \<leftarrow> call_function (x_libc E) af []; Some (r, st) }
           | Some e \<Rightarrow>
               (case list_args e of
                  Some es \<Rightarrow>
                    do {
                      (rs, st1) \<leftarrow> exp_eval_items E es st;
                      xs \<leftarrow> those (map (deref_opt st1) rs);
                      (x, xs') \<leftarrow> call_function (x_libc E) af xs;
                      Some (x, write_refs st1 rs xs xs') }
                | None \<Rightarrow>
                    do {
                      (r, st1) \<leftarrow> exp_eval E e st;
                      (case r of
                         None \<Rightarrow> Some (None, st1)
                       | Some ref \<Rightarrow>
                           do {
                             v \<leftarrow> deref st1 ref;
                             xs \<leftarrow> (if v_type v \<noteq> VT_LIST then Some [Some v] else vlist_items v);
                             (x, xs') \<leftarrow> call_function (x_libc E) af xs;
                             Some (x, write_arg st1 ref v xs xs') }) })))"
| "exp_eval E (EX_VARIABLE name) st = exp_eval_variable st name"
| "exp_eval E (EX_MACRO name) st = exp_eval_macro E st name"
| "exp_eval E (EX_TERNARY_COND c t f) st =
     do {
       (r, st1) \<leftarrow> exp_eval E c st;
       (case r of
          None \<Rightarrow> Some (None, st1)
        | Some ref \<Rightarrow>
            do {
              v \<leftarrow> deref st1 ref;
              (if var_true (x_libc E) v then exp_eval E t st1 else exp_eval E f st1) }) }"
| "exp_eval E (EX_OPERATION op e1 e2) st =
     (if op = OAssign then
        (case (e1, e2) of
           (EX_VARIABLE _, Some right) \<Rightarrow> do { (r, st1) \<leftarrow> exp_eval E right st; assign_value st1 e1 r }
         | _ \<Rightarrow> Some (None, st))
      else if op = OIsSet then Some (exp_isset st e1, st)
      else if op = OAnd \<or> op = OOr then
        (case e2 of
           None \<Rightarrow> Some (None, st)
         | Some right \<Rightarrow>
             do {
               (lref, st1) \<leftarrow> exp_eval E e1 st;
               (case lref of
                  None \<Rightarrow> Some (None, st1)
                | Some lr \<Rightarrow>
                    do {
                      l \<leftarrow> deref st1 lr;
                      (case bool_left (x_libc E) op lr l of
                         Some res \<Rightarrow> Some (Some res, st1)
                       | None \<Rightarrow>
                           do {
                             (rref, st2) \<leftarrow> exp_eval E right st1;
                             (case rref of
                                None \<Rightarrow> Some (None, st2)
                              | Some rr \<Rightarrow>
                                  do {
                                    r \<leftarrow> deref st2 rr;
                                    Some (bool_right (x_libc E) op l rr r, st2) }) }) }) })
      else
        do {
          (lref, st1) \<leftarrow> exp_eval E e1 st;
          (if op = ONot then do { l \<leftarrow> deref_opt st1 lref; Some (Some (Static (exp_not (x_libc E) l)), st1) }
           else if op = OIsNull then
             (if (case lref of None \<Rightarrow> False | Some r \<Rightarrow> owned r) then None
              else do { l \<leftarrow> deref_opt st1 lref; Some (Some (Static (exp_is_null l)), st1) })
           else
             (case e2 of
                None \<Rightarrow> exp_binary E op st1 lref None
              | Some right \<Rightarrow>
                  do { (rref, st2) \<leftarrow> exp_eval E right st1; exp_binary E op st2 lref rref })) })"
| "exp_eval_items E [] st = Some ([], st)"
| "exp_eval_items E (e # es) st =
     do {
       (r, st1) \<leftarrow> exp_eval E e st;
       (rs, st2) \<leftarrow> exp_eval_items E es st1;
       Some (r # rs, st2) }"
  by pat_completeness auto
termination
  by (relation "measure (\<lambda>x. case x of Inl (E, e, st) \<Rightarrow> size e | Inr (E, es, st) \<Rightarrow> size_list size es)")
    (auto dest: list_args_size)

text \<open>\<open>exp_is_true\<close>: 1, 0, or -1 when the evaluation failed. No expression is true.\<close>

definition exp_is_true :: "xenv \<Rightarrow> exp option \<Rightarrow> xstate \<Rightarrow> (int \<times> xstate) option" where
  "exp_is_true E e st =
     (case e of
        None \<Rightarrow> Some (1, st)
      | Some x \<Rightarrow>
          do {
            (r, st1) \<leftarrow> exp_eval E x st;
            (case r of
               None \<Rightarrow> Some (-1, st1)
             | Some ref \<Rightarrow> do { v \<leftarrow> deref st1 ref; Some (if var_true (x_libc E) v then 1 else 0, st1) }) })"


subsection \<open>Three-valued logic\<close>

definition truth3 :: "libc \<Rightarrow> var \<Rightarrow> bool option" where
  "truth3 L v = (if v_data v = None then None else Some (var_true L v))"

definition and3 :: "bool option \<Rightarrow> bool option \<Rightarrow> bool option" where
  "and3 a b =
     (if a = Some False \<or> b = Some False then Some False
      else if a = Some True \<and> b = Some True then Some True else None)"

lemma truth3_constants [simp]:
  "truth3 L EXP_TRUE = Some True" "truth3 L EXP_FALSE = Some False" "truth3 L EXP_EMPTY = None"
  by (simp_all add: truth3_def EXP_TRUE_def EXP_FALSE_def EXP_EMPTY_def var_true_def)

lemma deref_Static [simp]: "deref st (Static v) = Some v"
  by (simp add: deref_def)

lemmas bool_defs = bool_left_def bool_right_def Let_def truth3_def and3_def

text \<open>
  C9: \<open>and\<close> is the conjunction of Kleene's three-valued logic, where an expression without a value
  is unknown: false as soon as one side is false, unknown when the other side does not decide it.
  The right side is not evaluated when the left one is false.
\<close>

theorem exp_and_kleene:
  assumes "exp_eval E e1 st = Some (Some r1, st1)" and "deref st1 r1 = Some v1"
    and "exp_eval E e2 st1 = Some (Some r2, st2)" and "deref st2 r2 = Some v2"
  shows "\<exists>r st'. exp_eval E (EX_OPERATION OAnd e1 (Some e2)) st = Some (Some r, st') \<and>
    (\<exists>v. deref st' r = Some v \<and> truth3 (x_libc E) v = and3 (truth3 (x_libc E) v1) (truth3 (x_libc E) v2)) \<and>
    st' = (if truth3 (x_libc E) v1 = Some False then st1 else st2)"
proof (cases "truth3 (x_libc E) v1 = Some False")
  case True
  then have "bool_left (x_libc E) OAnd r1 v1 = Some (Static EXP_FALSE)"
    by (auto simp: bool_left_def truth3_def Let_def split: if_splits)
  with True assms(1,2) show ?thesis by (simp add: and3_def)
next
  case False
  then have "bool_left (x_libc E) OAnd r1 v1 = None"
    by (auto simp: bool_left_def truth3_def Let_def)
  moreover obtain v where "bool_right (x_libc E) OAnd v1 r2 v2 = Some (Static v)"
    and "truth3 (x_libc E) v = and3 (truth3 (x_libc E) v1) (truth3 (x_libc E) v2)"
  proof -
    let ?v = "if truth3 (x_libc E) v2 = Some False then EXP_FALSE
      else if truth3 (x_libc E) v1 = None \<or> truth3 (x_libc E) v2 = None then EXP_EMPTY else EXP_TRUE"
    have "bool_right (x_libc E) OAnd v1 r2 v2 = Some (Static ?v)"
      using False by (auto simp: bool_right_def truth3_def Let_def split: if_splits)
    moreover have "truth3 (x_libc E) ?v = and3 (truth3 (x_libc E) v1) (truth3 (x_libc E) v2)"
      using False by (auto simp: and3_def)
    ultimately show ?thesis using that by blast
  qed
  ultimately show ?thesis using False assms by simp
qed

text \<open>
  \<open>or\<close> returns its left side when that is true and its right side otherwise, so it is a Perl-like
  choice and not Kleene's disjunction: unknown or false is false, although false or unknown is
  unknown.
\<close>

theorem exp_or_choice:
  assumes "exp_eval E e1 st = Some (Some r1, st1)" and "deref st1 r1 = Some v1"
    and "exp_eval E e2 st1 = Some (Some r2, st2)" and "deref st2 r2 = Some v2"
  shows "exp_eval E (EX_OPERATION OOr e1 (Some e2)) st =
    (if truth3 (x_libc E) v1 = Some True then Some (Some r1, st1) else Some (Some r2, st2))"
proof (cases "truth3 (x_libc E) v1 = Some True")
  case True
  then have "bool_left (x_libc E) OOr r1 v1 = Some r1"
    by (auto simp: bool_left_def truth3_def Let_def split: if_splits)
  with True assms(1,2) show ?thesis by simp
next
  case False
  then have "bool_left (x_libc E) OOr r1 v1 = None" "bool_right (x_libc E) OOr v1 r2 v2 = Some r2"
    by (auto simp: bool_left_def bool_right_def truth3_def Let_def)
  with False assms show ?thesis by simp
qed

text \<open>A state and an environment to evaluate examples in: three constants and no symbols.\<close>

definition demo_env :: xenv where
  "demo_env = \<lparr>x_libc = word_libc, x_symbols = (\<lambda>_. None), x_regex = (\<lambda>_ _ _. None), x_getsymval = (\<lambda>_ _. None)\<rparr>"

definition demo_state :: xstate where
  "demo_state = \<lparr>xs_spec = Map.empty,
     xs_const = (\<lambda>n. if n = 0 then Var VT_INT None None VF_KEEP else Var VT_INT None (Some (DInt (int n - 1))) VF_KEEP)\<rparr>"

lemma demo_consts:
  "exp_eval demo_env (EX_CONSTANT n) demo_state = Some (Some (Const n), demo_state)"
  "deref demo_state (Const 0) = Some (Var VT_INT None None VF_KEEP)"
  "deref demo_state (Const (Suc k)) = Some (Var VT_INT None (Some (DInt (int k))) VF_KEEP)"
  by (simp_all add: deref_def demo_state_def)

theorem exp_and_kleene_witness:
  "\<exists>r st'. exp_eval demo_env (EX_OPERATION OAnd (EX_CONSTANT 0) (Some (EX_CONSTANT (Suc 0)))) demo_state = Some (Some r, st') \<and>
    (\<exists>v. deref st' r = Some v \<and> truth3 word_libc v = Some False)"
proof -
  have "x_libc demo_env = word_libc" by (simp add: demo_env_def)
  moreover have "truth3 word_libc (Var VT_INT None None VF_KEEP) = None"
    "truth3 word_libc (Var VT_INT None (Some (DInt (int 0))) VF_KEEP) = Some False"
    by (simp_all add: truth3_def var_true_def)
  moreover note exp_and_kleene [OF demo_consts(1) demo_consts(2) demo_consts(1) demo_consts(3) [of 0]]
  ultimately show ?thesis by (auto simp: and3_def simp del: exp_eval.simps)
qed

theorem exp_or_choice_witness:
  "exp_eval demo_env (EX_OPERATION OOr (EX_CONSTANT 0) (Some (EX_CONSTANT (Suc 0)))) demo_state = Some (Some (Const (Suc 0)), demo_state) \<and>
   truth3 word_libc (Var VT_INT None (Some (DInt (int 0))) VF_KEEP) = Some False"
  using exp_or_choice [OF demo_consts(1) demo_consts(2) demo_consts(1) demo_consts(3) [of 0]]
  by (simp add: truth3_def var_true_def)

subsection \<open>Comparisons\<close>

definition cmp_holds :: "libc \<Rightarrow> oper \<Rightarrow> var \<Rightarrow> var \<Rightarrow> bool" where
  "cmp_holds L op a b \<longleftrightarrow> exp_compare L op (Some a) (Some b) = Some (Some (Static EXP_TRUE))"

lemma exp_compare_cases:
  assumes "v_data l \<noteq> None" and "v_data r \<noteq> None" and "var_compare L l r = Some (Some c)" and "c \<in> {-1, 0, 1}"
  shows "exp_compare L op (Some l) (Some r) =
    Some (Some (Static (if (c = -1 \<and> op \<in> {OLt, OLe, ONe}) \<or> (c = 0 \<and> op \<in> {OLe, OGe, OEq}) \<or>
      (c = 1 \<and> op \<in> {OGt, OGe, ONe}) then EXP_TRUE else EXP_FALSE)))"
  using assms by (auto simp: exp_compare_def Let_def)

lemma exp_true_false: "EXP_TRUE \<noteq> EXP_FALSE"
  by (simp add: EXP_TRUE_def EXP_FALSE_def)

text \<open>
  For two values that can be compared and are no blobs, exactly one of \<open><\<close>, \<open>==\<close> and \<open>>\<close>
  holds, \<open><=\<close> and \<open>>=\<close> are the two disjunctions and \<open>!=\<close> is the negation; exchanging the operands
  exchanges \<open><\<close> and \<open>>\<close>.
\<close>

theorem exp_compare_trichotomy:
  assumes "\<forall>x y. fl_lt L x y \<longrightarrow> \<not> fl_lt L y x"
    and "v_data l \<noteq> None" and "v_data r \<noteq> None" and "v_type l \<noteq> VT_BLOB" and "v_type r \<noteq> VT_BLOB"
    and "var_compare L l r = Some (Some c)"
  shows "(cmp_holds L OLt l r \<or> cmp_holds L OEq l r \<or> cmp_holds L OGt l r) \<and>
    \<not> (cmp_holds L OLt l r \<and> cmp_holds L OEq l r) \<and> \<not> (cmp_holds L OEq l r \<and> cmp_holds L OGt l r) \<and>
    \<not> (cmp_holds L OLt l r \<and> cmp_holds L OGt l r) \<and>
    (cmp_holds L OLe l r \<longleftrightarrow> cmp_holds L OLt l r \<or> cmp_holds L OEq l r) \<and>
    (cmp_holds L OGe l r \<longleftrightarrow> cmp_holds L OGt l r \<or> cmp_holds L OEq l r) \<and>
    (cmp_holds L ONe l r \<longleftrightarrow> \<not> cmp_holds L OEq l r) \<and> (cmp_holds L OLt l r \<longleftrightarrow> cmp_holds L OGt r l)"
proof -
  have c: "c \<in> {-1, 0, 1}" by (rule var_compare_range [OF assms(6,4,5)])
  then have c': "- c \<in> {-1, 0, 1}" by auto
  have "var_compare L r l = Some (Some (- c))"
    using var_compare_swap [OF assms(1), of r l] assms(6) by simp
  note lr = exp_compare_cases [OF assms(2,3,6) c] and rl = exp_compare_cases [OF assms(3,2) this c']
  have [simp]: "EXP_FALSE \<noteq> EXP_TRUE" using exp_true_false by simp
  show ?thesis using c by (auto simp: cmp_holds_def lr rl)
qed

theorem exp_compare_trichotomy_witness:
  "cmp_holds word_libc OLt (Var VT_INT None (Some (DInt 3)) 0) (Var VT_INT None (Some (DInt 4)) 0) \<longleftrightarrow>
   cmp_holds word_libc OGt (Var VT_INT None (Some (DInt 4)) 0) (Var VT_INT None (Some (DInt 3)) 0)"
proof -
  have "var_compare word_libc (Var VT_INT None (Some (DInt 3)) 0) (Var VT_INT None (Some (DInt 4)) 0) = Some (Some (-1))"
    by (simp add: var_compare_def compare_data_def as_defs var_compare_int_def)
  from exp_compare_trichotomy [OF word_libc_asym _ _ _ _ this] show ?thesis by simp
qed

subsection \<open>What an evaluation changes\<close>

text \<open>No division: the operator that may be the address prefix.\<close>

fun no_div :: "exp \<Rightarrow> bool" where
  "no_div (EX_PARENTHESES e) = no_div e"
| "no_div (EX_CONSTANT n) = True"
| "no_div (EX_LIST es) = list_all no_div es"
| "no_div (EX_SYMBOL s) = True"
| "no_div (EX_FUNCTION s a) = (case a of None \<Rightarrow> True | Some e \<Rightarrow> no_div e)"
| "no_div (EX_VARIABLE s) = True"
| "no_div (EX_OPERATION op a b) = (op \<noteq> ODiv \<and> no_div a \<and> (case b of None \<Rightarrow> True | Some e \<Rightarrow> no_div e))"
| "no_div (EX_TERNARY_COND a b c) = (no_div a \<and> no_div b \<and> no_div c)"
| "no_div (EX_MACRO s) = True"

lemma acl_symbol_get_const:
  assumes "acl_symbol_get E st name = Some (r, st')"
  shows "xs_const st' = xs_const st"
proof (cases "acl_symbol_lookup E name")
  case None
  with assms show ?thesis by (simp add: acl_symbol_get_def)
next
  case (Some as)
  note look = this
  show ?thesis
  proof (cases "spec_get (xs_spec st) ''stage'' = None \<or> as_int (spec_get (xs_spec st) ''stage'') = None")
    case True
    with assms look show ?thesis by (cases "spec_get (xs_spec st) ''stage''") (simp_all add: acl_symbol_get_def)
  next
    case False
    with assms look show ?thesis
      by (cases "as_data as") (auto simp: acl_symbol_get_def Let_def bind_eq_Some_conv split: if_split_asm prod.split_asm)
  qed
qed

lemma acl_symbol_dereference_const:
  "acl_symbol_dereference E st names = Some (n, ds, st') \<Longrightarrow> xs_const st' = xs_const st"
proof (induction names arbitrary: st n ds st')
  case (Cons name names)
  then show ?case
    by (auto simp: bind_eq_Some_conv split: option.split_asm dest!: acl_symbol_get_const)
qed simp

lemma exp_eval_macro_const: "exp_eval_macro E st name = Some (r, st') \<Longrightarrow> xs_const st' = xs_const st"
  by (auto simp: exp_eval_macro_def milter_macro_lookup_def bind_eq_Some_conv
      simp del: acl_symbol_dereference.simps split: if_split_asm option.split_asm
      dest!: acl_symbol_dereference_const)

lemma exp_eval_variable_const: "exp_eval_variable st name = Some (r, st') \<Longrightarrow> xs_const st' = xs_const st"
  by (auto simp: exp_eval_variable_def bind_eq_Some_conv)

lemma assign_value_const: "assign_value st e r = Some (r', st') \<Longrightarrow> xs_const st' = xs_const st"
  by (auto simp: assign_value_def bind_eq_Some_conv split: exp.split_asm option.split_asm)

lemma exp_binary_state: "exp_binary E op st l r = Some (x, st') \<Longrightarrow> op \<noteq> ODiv \<Longrightarrow> st' = st"
  by (auto simp: exp_binary_def Let_def bind_eq_Some_conv split: if_split_asm option.split_asm)

lemmas const_frame = acl_symbol_get_const exp_eval_macro_const exp_eval_variable_const assign_value_const
  exp_binary_state


text \<open>The ways an operation ends, by the sub-expressions that were evaluated.\<close>

lemma exp_eval_operation_cases:
  assumes "exp_eval E (EX_OPERATION op e1 e2) st = Some (r, st')"
  obtains (same) "st' = st"
  | (assign) right r1 st1 where "e2 = Some right" and "exp_eval E right st = Some (r1, st1)"
      and "assign_value st1 e1 r1 = Some (r, st')"
  | (left) l where "exp_eval E e1 st = Some (l, st')"
  | (both) l st1 right x where "e2 = Some right" and "exp_eval E e1 st = Some (l, st1)"
      and "exp_eval E right st1 = Some (x, st')"
  | (unary) l st1 where "exp_eval E e1 st = Some (l, st1)" and "exp_binary E op st1 l None = Some (r, st')"
  | (binary) l st1 right x st2 where "e2 = Some right" and "exp_eval E e1 st = Some (l, st1)"
      and "exp_eval E right st1 = Some (x, st2)" and "exp_binary E op st2 l x = Some (r, st')"
proof -
  consider "op = OAssign" | "op = OIsSet" | "op = OAnd \<or> op = OOr" | "op \<notin> {OAssign, OIsSet, OAnd, OOr}" by auto
  then show thesis
  proof cases
    case 1
    show thesis
    proof (cases "\<exists>name right. e1 = EX_VARIABLE name \<and> e2 = Some right")
      case True
      then obtain name right where e: "e1 = EX_VARIABLE name" "e2 = Some right" by blast
      show thesis
      proof (cases "exp_eval E right st")
        case None
        with 1 e assms show thesis by simp
      next
        case (Some p)
        with 1 e assms show thesis by (cases p) (auto intro: assign)
      qed
    next
      case False
      with 1 assms have "st' = st" by (cases e1; cases e2) simp_all
      then show thesis by (rule same)
    qed
  next
    case 2
    with assms show thesis by (auto intro: same)
  next
    case 3
    show thesis
    proof (cases e2)
      case None
      with 3 assms show thesis by (auto intro: same)
    next
      case right: (Some right)
      with 3 assms obtain l st1 where l: "exp_eval E e1 st = Some (l, st1)"
        by (auto simp: bind_eq_Some_conv)
      show thesis
      proof (cases "l = None \<or> (\<exists>lr v res. l = Some lr \<and> deref st1 lr = Some v \<and> bool_left (x_libc E) op lr v = Some res)")
        case True
        with 3 right l assms have "st' = st1" by auto
        with l show thesis by (auto intro: left)
      next
        case False
        with 3 right l assms obtain lr v where lr: "l = Some lr" "deref st1 lr = Some v"
          by (cases l) (auto simp: bind_eq_Some_conv)
        with False have "bool_left (x_libc E) op lr v = None" by (auto simp: option.discI)
        with 3 right l assms lr obtain x where "exp_eval E right st1 = Some (x, st')"
          by (cases "exp_eval E right st1") (auto simp: bind_eq_Some_conv split: option.split_asm)
        from both [OF right l this] show thesis .
      qed
    qed
  next
    case 4
    with assms obtain l st1 where l: "exp_eval E e1 st = Some (l, st1)"
      by (cases "exp_eval E e1 st") auto
    show thesis
    proof (cases "op = ONot \<or> op = OIsNull")
      case True
      with 4 l assms have "st' = st1" by (auto simp: bind_eq_Some_conv split: if_split_asm)
      with l show thesis by (auto intro: left)
    next
      case False
      show thesis
      proof (cases e2)
        case None
        with 4 False l assms show thesis by (auto intro: unary)
      next
        case (Some right)
        with 4 False l assms show thesis
          by (cases "exp_eval E right st1") (auto intro: binary)
      qed
    qed
  qed
qed

lemma exp_eval_items_const:
  assumes "exp_eval_items E es st = Some (rs, st')"
    and "\<And>e st r st'. e \<in> set es \<Longrightarrow> exp_eval E e st = Some (r, st') \<Longrightarrow> xs_const st' = xs_const st"
  shows "xs_const st' = xs_const st"
  using assms
proof (induction es arbitrary: st rs)
  case (Cons e es)
  from Cons.prems(1) obtain r st1 rs1 where "exp_eval E e st = Some (r, st1)"
    and "exp_eval_items E es st1 = Some (rs1, st')" by (auto simp: bind_eq_Some_conv)
  with Cons.IH [of st1 rs1] Cons.prems(2) show ?case by (metis list.set_intros)
qed simp

text \<open>Functions that leave the data of their arguments alone.\<close>

definition functions_pure :: "xenv \<Rightarrow> bool" where
  "functions_pure E \<longleftrightarrow>
     (\<forall>name types callback ds r ds'. acl_function_lookup E name = Some (AF_SIMPLE types callback) \<longrightarrow>
        callback ds = Some (r, ds') \<longrightarrow> ds' = ds)"

lemma after_call_same: "simple_args L ts (visible vs) = Some (Some ds) \<Longrightarrow> after_call ts vs ds = vs"
proof (induction ts arbitrary: vs ds)
  case (Cons t ts)
  show ?case
  proof (cases "\<exists>v ws. vs = Some v # ws")
    case True
    then obtain v ws where vs: "vs = Some v # ws" by blast
    with Cons.prems obtain d ds' where ds: "ds = d # ds'" "simple_args L ts (visible ws) = Some (Some ds')"
      "t = v_type v \<longrightarrow> d = v_data v"
      by (auto simp: bind_eq_Some_conv split: option.split_asm if_split_asm)
    with Cons.IH [OF ds(2)] show ?thesis by (simp add: vs)
  next
    case False
    then show ?thesis by (cases vs) (auto elim: option.exhaust)
  qed
qed simp

lemma call_function_pure:
  assumes "call_function L af xs = Some (x, xs')" and "functions_pure E" and "acl_function_lookup E name = Some af"
  shows "xs' = xs"
proof (cases af)
  case (AF_SIMPLE types callback)
  have pure: "callback ds = Some (r, ds') \<Longrightarrow> ds' = ds" for ds r ds' using assms(2,3) AF_SIMPLE unfolding functions_pure_def by blast
  from AF_SIMPLE assms(1) obtain y where y: "exp_eval_function_simple L types callback xs = Some (y, xs')"
    by (auto simp: call_function_def Let_def bind_eq_Some_conv)
  show ?thesis
  proof (cases "length xs = length types \<and> (\<exists>ds. simple_args L types (visible xs) = Some (Some ds))")
    case True
    then obtain ds where ds: "length xs = length types" "simple_args L types (visible xs) = Some (Some ds)" by blast
    then have "xs' = after_call types xs ds"
      using y pure by (auto simp: exp_eval_function_simple_def bind_eq_Some_conv)
    then show ?thesis unfolding after_call_same [OF ds(2)] .
  next
    case False
    then show ?thesis
      using y by (cases "simple_args L types (visible xs)") (auto simp: exp_eval_function_simple_def split: if_split_asm)
  qed
qed (use assms(1) in \<open>auto simp: call_function_def Let_def bind_eq_Some_conv\<close>)

lemma write_refs_same [simp]: "write_refs st rs xs xs = st"
proof (induction rs arbitrary: xs)
  case (Cons r rs)
  show ?case
  proof (cases xs)
    case (Cons y ys)
    with Cons.IH show ?thesis by (cases r; cases y) simp_all
  qed simp
qed simp

lemma write_arg_same [simp]: "write_arg st ref v xs xs = st"
  by (simp add: write_arg_def)

lemma exp_eval_function_const:
  assumes "exp_eval E (EX_FUNCTION name args) st = Some (r, st')" and "functions_pure E"
    and "\<And>e r st1. args = Some e \<Longrightarrow> exp_eval E e st = Some (r, st1) \<Longrightarrow> xs_const st1 = xs_const st"
  shows "xs_const st' = xs_const st"
proof (cases "acl_function_lookup E name")
  case None
  with assms(1) show ?thesis by simp
next
  case (Some af)
  note pure = call_function_pure [OF _ assms(2) Some]
  show ?thesis
  proof (cases args)
    case None
    with assms(1) Some show ?thesis by (auto simp: bind_eq_Some_conv)
  next
    case e: (Some e)
    show ?thesis
    proof (cases "list_args e")
      case None
      with assms(1) Some e show ?thesis
        by (auto simp: bind_eq_Some_conv assms(3) split: option.split_asm dest!: pure)
    next
      case (Some es)
      with assms(1) \<open>acl_function_lookup E name = Some af\<close> e obtain rs xs where
        "exp_eval_items E es st = Some (rs, st')" "those (map (deref_opt st') rs) = Some xs"
        by (auto simp: bind_eq_Some_conv dest!: pure)
      then have "exp_eval E (EX_LIST es) st = Some (Some (Fresh (Var VT_LIST None (Some (DList xs)) (VF_EXP_FREE OR VF_CREATE))), st')"
        by simp
      with assms(3) e list_args_Some [OF Some] show ?thesis by blast
    qed
  qed
qed

lemma exp_eval_const:
  assumes "functions_pure E"
  shows "exp_eval E e st = Some (r, st') \<Longrightarrow> no_div e \<Longrightarrow> xs_const st' = xs_const st"
proof (induction e arbitrary: st r st')
  case (EX_LIST es)
  from EX_LIST.prems(1) obtain rs where "exp_eval_items E es st = Some (rs, st')"
    by (auto simp: bind_eq_Some_conv)
  then show ?case
    by (rule exp_eval_items_const) (use EX_LIST in \<open>auto simp: list_all_iff\<close>)
next
  case (EX_FUNCTION name args)
  show ?case
    by (rule exp_eval_function_const [OF EX_FUNCTION.prems(1) assms]) (use EX_FUNCTION in auto)
next
  case (EX_OPERATION op e1 e2)
  from EX_OPERATION.prems(1) show ?case
  proof (cases rule: exp_eval_operation_cases)
    case (assign right r1 st1)
    with EX_OPERATION.IH(2) [of right st r1 st1] EX_OPERATION.prems(2) show ?thesis
      by (auto dest!: assign_value_const)
  next
    case (unary l st1)
    with EX_OPERATION.prems(2) have "st' = st1" by (auto dest: exp_binary_state)
    with unary EX_OPERATION.IH(1) [of st l st1] EX_OPERATION.prems(2) show ?thesis by simp
  next
    case (binary l st1 right x st2)
    with EX_OPERATION.prems(2) have "st' = st2" by (auto dest: exp_binary_state)
    with binary EX_OPERATION.IH(1) [of st l st1] EX_OPERATION.IH(2) [of right st1 x st2] EX_OPERATION.prems(2)
    show ?thesis by simp
  next
    case (both l st1 right x)
    with EX_OPERATION.IH(1) [of st l st1] EX_OPERATION.IH(2) [of right st1 x st'] EX_OPERATION.prems(2)
    show ?thesis by simp
  qed (use EX_OPERATION in auto)
next
  case (EX_TERNARY_COND c t f)
  from EX_TERNARY_COND.prems(1) obtain r1 st1 where c: "exp_eval E c st = Some (r1, st1)"
    and "st' = st1 \<or> exp_eval E t st1 = Some (r, st') \<or> exp_eval E f st1 = Some (r, st')"
    by (auto simp: bind_eq_Some_conv split: option.split_asm if_split_asm)
  then show ?case
    using EX_TERNARY_COND.IH(1) [OF c] EX_TERNARY_COND.IH(2,3) [of st1 r st'] EX_TERNARY_COND.prems(2) by auto
qed (auto dest: const_frame)

text \<open>
  Evaluating an expression without the operator \<open>/\<close> leaves every literal of the rules and every
  registered constant as it was, whatever symbols, macros, assignments and functions that do not
  write to their arguments it uses.
\<close>

theorem exp_literals_unchanged:
  assumes "exp_eval E e st = Some (r, st')" and "no_div e" and "functions_pure E"
  shows "deref st' (Const n) = deref st (Const n)"
  using exp_eval_const [OF assms(3,1,2)] by (simp add: deref_def)

theorem exp_literals_unchanged_witness:
  "deref demo_state (Const 7) = deref demo_state (Const 7) \<and>
   exp_eval demo_env (EX_OPERATION OLt (EX_CONSTANT 1) (Some (EX_CONSTANT 2))) demo_state =
     Some (Some (Static EXP_TRUE), demo_state)"
proof -
  have ev: "exp_eval demo_env (EX_OPERATION OLt (EX_CONSTANT 1) (Some (EX_CONSTANT 2))) demo_state =
     Some (Some (Static EXP_TRUE), demo_state)"
    by (simp add: exp_binary_def deref_opt_def deref_def demo_state_def demo_env_def exp_compare_def
        var_compare_def compare_data_def as_defs var_compare_int_def)
  have "functions_pure demo_env" by (simp add: functions_pure_def acl_function_lookup_def demo_env_def)
  with exp_literals_unchanged [OF ev, of 7] ev show ?thesis by (simp del: exp_eval.simps)
qed

lemma fresh_int: "fresh VT_INT (DInt x) = Some (Fresh (Var VT_INT None (Some (DInt x)) (sanitize (VF_COPYDATA OR VF_EXP_FREE))))"
  by (simp add: fresh_def var_create_def var_init_def var_data_init_def Let_def)

lemma smod_sign:
  assumes "b \<noteq> (0 :: int)"
  shows "\<bar>a smod b\<bar> < \<bar>b\<bar> \<and> (a smod b = 0 \<or> sgn (a smod b) = sgn a)"
proof -
  obtain k where "a smod b = sgn a * k" and "0 \<le> k" and "k < \<bar>b\<bar>"
    using assms by (metis abs_ge_zero abs_not_less_zero pos_mod_bound pos_mod_sign smod_int_alt_def
        less_le zero_less_abs_iff)
  then show ?thesis by (auto simp: abs_mult sgn_mult sgn_if)
qed

lemma util_addrcmp_refl: "util_addrcmp a a = 0"
proof -
  have "util_addrcmp a a = - util_addrcmp a a" by (rule util_addrcmp_swap)
  then show ?thesis by linarith
qed

text \<open>
  The operator \<open>/\<close> on an address is no pure expression. It truncates the attribute of the
  message itself, which stays truncated for every later rule, and a comparison of an address with
  its own network is true for every address, because both sides are the same object.
\<close>

theorem exp_prefix_aliases:
  assumes "acl_symbol_get E st name = Some (Some (Sym name), st)"
    and "xs_spec st name = Some (Var VT_ADDR nm (Some (DAddr a)) f)"
    and "xs_const st n = Var VT_INT nm2 (Some (DInt p)) f2"
    and "util_addr_prefix a (wrap32 p) = Some a'"
  shows "exp_eval E (EX_OPERATION OEq (EX_SYMBOL name)
      (Some (EX_OPERATION ODiv (EX_SYMBOL name) (Some (EX_CONSTANT n))))) st =
    Some (Some (Static EXP_TRUE), st\<lparr>xs_spec := (xs_spec st)(name \<mapsto> Var VT_ADDR nm (Some (DAddr a')) f)\<rparr>)"
proof -
  let ?st = "st\<lparr>xs_spec := (xs_spec st)(name \<mapsto> Var VT_ADDR nm (Some (DAddr a')) f)\<rparr>"
  have d: "deref_opt st (Some (Sym name)) = Some (Some (Var VT_ADDR nm (Some (DAddr a)) f))"
    "deref_opt st (Some (Const n)) = Some (Some (Var VT_INT nm2 (Some (DInt p)) f2))"
    "deref_opt ?st (Some (Sym name)) = Some (Some (Var VT_ADDR nm (Some (DAddr a')) f))"
    using assms(2,3) by (simp_all add: deref_opt_def deref_def)
  have "exp_binary E ODiv st (Some (Sym name)) (Some (Const n)) = Some (Some (Sym name), ?st)"
    using assms(4) by (simp add: exp_binary_def d Let_def owned_def exp_addr_prefix_def as_defs write_ref_def)
  moreover have "exp_binary E OEq ?st (Some (Sym name)) (Some (Sym name)) = Some (Some (Static EXP_TRUE), ?st)"
    by (simp add: exp_binary_def d exp_compare_def var_compare_def compare_data_def as_defs util_addrcmp_refl)
  ultimately show ?thesis using assms(1) by simp
qed

definition addr_env :: xenv where
  "addr_env = demo_env\<lparr>x_symbols := [''hostaddr'' \<mapsto> \<lparr>as_stages = 1, as_data = AS_SYMBOL None False\<rparr>]\<rparr>"

definition addr_state :: xstate where
  "addr_state = demo_state\<lparr>xs_spec :=
     [''stage'' \<mapsto> Var VT_INT (Some ''stage'') (Some (DInt 1)) 0,
      ''hostaddr'' \<mapsto> Var VT_ADDR (Some ''hostaddr'') (Some (DAddr (Inet 0xC0A80107 0))) 0]\<rparr>"

theorem exp_prefix_aliases_witness:
  "exp_eval addr_env (EX_OPERATION OEq (EX_SYMBOL ''hostaddr'')
      (Some (EX_OPERATION ODiv (EX_SYMBOL ''hostaddr'') (Some (EX_CONSTANT 25))))) addr_state =
   Some (Some (Static EXP_TRUE), addr_state\<lparr>xs_spec := (xs_spec addr_state)
     (''hostaddr'' \<mapsto> Var VT_ADDR (Some ''hostaddr'') (Some (DAddr (Inet 0xC0A80100 0))) 0)\<rparr>)"
proof (rule exp_prefix_aliases)
  show "acl_symbol_get addr_env addr_state ''hostaddr'' = Some (Some (Sym ''hostaddr''), addr_state)"
    by (simp add: acl_symbol_get_def acl_symbol_lookup_def addr_env_def addr_state_def demo_env_def spec_get_def as_defs)
  show "xs_spec addr_state ''hostaddr'' = Some (Var VT_ADDR (Some ''hostaddr'') (Some (DAddr (Inet 0xC0A80107 0))) 0)"
    by (simp add: addr_state_def)
  show "xs_const addr_state 25 = Var VT_INT None (Some (DInt 24)) VF_KEEP"
    by (simp add: addr_state_def demo_state_def)
  show "util_addr_prefix (Inet 0xC0A80107 0) (wrap32 24) = Some (Inet 0xC0A80100 0)"
    by (simp add: util_addr_prefix_def wrap32_def mask_eq_exp_minus_1)
qed

text \<open>
  C38: Integer arithmetic is that of a 64-bit \<open>long\<close>: sum, difference and product are exact when
  they fit and wrapped otherwise, quotient and remainder truncate towards zero with
  \<open>q * b + m = a\<close>, and a division by zero, or of the least integer by -1, stops the program.
\<close>

theorem exp_int_arithmetic:
  assumes "v_type l = VT_INT" and "v_data l = Some (DInt a)" and "v_type r = VT_INT" and "v_data r = Some (DInt b)"
  shows "(\<forall>(op, f) \<in> {(OAdd, a + b), (OSub, a - b), (OMul, a * b)}. \<exists>v x. exp_math L op l r = Some (Some (Fresh v)) \<and>
      v_type v = VT_INT \<and> v_data v = Some (DInt x) \<and> i64 x \<and> x mod 2 ^ 64 = f mod 2 ^ 64 \<and> (i64 f \<longrightarrow> x = f)) \<and>
    (if b = 0 \<or> a = - (2 ^ 63) \<and> b = -1 then exp_math L ODiv l r = None \<and> exp_math L OMod l r = None
     else \<exists>v w q m. exp_math L ODiv l r = Some (Some (Fresh v)) \<and> v_data v = Some (DInt q) \<and>
       exp_math L OMod l r = Some (Some (Fresh w)) \<and> v_data w = Some (DInt m) \<and>
       q * b + m = a \<and> \<bar>m\<bar> < \<bar>b\<bar> \<and> (m = 0 \<or> sgn m = sgn a))"
proof -
  have mod: "wrap64 f mod 2 ^ 64 = f mod 2 ^ 64" for f
    using take_bit_signed_take_bit [of 64 63 f] by (simp add: wrap64_def take_bit_eq_mod)
  note m = exp_math_def exp_math_int_def assms as_defs fresh_int
  show ?thesis
  proof (intro conjI)
    show "\<forall>(op, f) \<in> {(OAdd, a + b), (OSub, a - b), (OMul, a * b)}. \<exists>v x. exp_math L op l r = Some (Some (Fresh v)) \<and>
      v_type v = VT_INT \<and> v_data v = Some (DInt x) \<and> i64 x \<and> x mod 2 ^ 64 = f mod 2 ^ 64 \<and> (i64 f \<longrightarrow> x = f)"
      using mod by (simp add: m wrap64_id)
    show "if b = 0 \<or> a = - (2 ^ 63) \<and> b = -1 then exp_math L ODiv l r = None \<and> exp_math L OMod l r = None
     else \<exists>v w q m. exp_math L ODiv l r = Some (Some (Fresh v)) \<and> v_data v = Some (DInt q) \<and>
       exp_math L OMod l r = Some (Some (Fresh w)) \<and> v_data w = Some (DInt m) \<and>
       q * b + m = a \<and> \<bar>m\<bar> < \<bar>b\<bar> \<and> (m = 0 \<or> sgn m = sgn a)"
    proof (cases "b = 0 \<or> a = - (2 ^ 63) \<and> b = -1")
      case True
      then show ?thesis by (simp add: m long_div_def)
    next
      case False
      then have "long_div (sdiv) a b = Some (a sdiv b)" "long_div (smod) a b = Some (a smod b)" "b \<noteq> 0"
        by (simp_all add: long_div_def)
      with smod_sign [of b a] show ?thesis by (subst if_not_P [OF False]) (simp add: m sdiv_mult_smod_eq)
    qed
  qed
qed

theorem exp_int_arithmetic_witness:
  "\<exists>v w q m. exp_math word_libc ODiv (Var VT_INT None (Some (DInt (-7))) 0) (Var VT_INT None (Some (DInt 2)) 0) =
      Some (Some (Fresh v)) \<and> v_data v = Some (DInt q) \<and> v_data w = Some (DInt m) \<and> q * 2 + m = -7 \<and> \<bar>m\<bar> < 2"
  using exp_int_arithmetic [of "Var VT_INT None (Some (DInt (-7))) 0" "-7" "Var VT_INT None (Some (DInt 2)) 0" 2 word_libc]
  by auto

end
