(* ===== verification/Mailspec.thy ===== *)
theory Mailspec
  imports Symbols
begin

section \<open>The attributes of a message as a map (vtable.c)\<close>

text \<open>
  The operations of \<open>src/src/vtable.c\<close> that the stages of a message and the actions of rules use,
  on the finite map that a table of attributes stands for. Each comes with the lemma that the
  operation on the hash table computes it (\<open>vtab_rep\<close> relates a table to its map), as long as a
  table has fewer than \<open>2 ^ 30\<close> attributes, the limit that \<open>Hash_Table\<close> needs for its counters.
\<close>

fun spec_setv :: "mailspec \<Rightarrow> (vtype \<times> string \<times> vdata option \<times> u32) list \<Rightarrow> int \<times> mailspec" where
  "spec_setv m [] = (0, m)"
| "spec_setv m ((t, name, d, flags) # args) =
     (if t = VT_NULL then (0, m)
      else case spec_set_new m t name d flags of
        (r, m1) \<Rightarrow> if r \<noteq> 0 then (-1, m1) else spec_setv m1 args)"

definition spec_remove :: "mailspec \<Rightarrow> string \<Rightarrow> mailspec" where
  "spec_remove m name = m(name := None)"

definition spec_rename :: "mailspec \<Rightarrow> string \<Rightarrow> string \<Rightarrow> (int \<times> mailspec) option" where
  "spec_rename m old new =
     (case m old of
        None \<Rightarrow> Some (-1, m)
      | Some v \<Rightarrow>
          (case spec_set_new m (v_type v) new (v_data v) VF_COPY of
             (r, m1) \<Rightarrow>
               if r \<noteq> 0 then Some (-1, m1)
               else if old = new then None
               else Some (0, spec_remove m1 old)))"

definition spec_list_get :: "mailspec \<Rightarrow> string \<Rightarrow> var option \<times> mailspec" where
  "spec_list_get m name =
     (case m name of
        Some l \<Rightarrow> (Some l, m)
      | None \<Rightarrow>
          (case vlist_create (Some name) VF_COPYNAME of None \<Rightarrow> (None, m) | Some l \<Rightarrow> (Some l, m(name \<mapsto> l))))"

definition spec_list_append_new ::
  "mailspec \<Rightarrow> vtype \<Rightarrow> string \<Rightarrow> vdata option \<Rightarrow> u32 \<Rightarrow> (int \<times> mailspec) option" where
  "spec_list_append_new m t name d flags =
     (case spec_list_get m name of
        (None, m1) \<Rightarrow> Some (-1, m1)
      | (Some l, m1) \<Rightarrow>
          do {
            (r, l1) \<leftarrow> vlist_append_new l t None d flags;
            Some (if r \<noteq> 0 then (-1, m1) else (0, m1(name \<mapsto> l1))) })"

definition spec_dereference :: "mailspec \<Rightarrow> string list \<Rightarrow> int \<times> vdata option list" where
  "spec_dereference m names =
     (let ds = map (spec_get m) names in (int (length (filter (\<lambda>d. d \<noteq> None) ds)), ds))"

subsection \<open>Setting attributes\<close>

text \<open>The flags that the program uses: the name is kept, the data copied or kept.\<close>

lemma attribute_flags:
  "sanitize (VF_KEEPNAME OR VF_COPYDATA) = VF_KEEPNAME OR VF_COPYDATA" "has_flag (VF_KEEPNAME OR VF_COPYDATA) VF_COPYDATA"
  "\<not> has_flag (VF_KEEPNAME OR VF_COPYDATA) VF_CREATE" "sanitize VF_KEEP = VF_KEEP" "\<not> has_flag VF_KEEP VF_COPYDATA"
  "\<not> has_flag VF_KEEP VF_CREATE" "sanitize VF_KEEPNAME = VF_KEEPNAME" "\<not> has_flag VF_KEEPNAME VF_COPYDATA"
  "\<not> has_flag VF_KEEPNAME VF_CREATE"
  by (simp_all add: sanitize_def has_flag_def vf_defs)

lemma spec_set_new_copy [simp]:
  "var_copy_data t d = Some d' \<Longrightarrow> spec_set_new m t name (Some d) (VF_KEEPNAME OR VF_COPYDATA) =
    (0, m(name \<mapsto> Var t (Some name) (Some d') (VF_KEEPNAME OR VF_COPYDATA)))"
  by (simp add: spec_set_new_def var_create_def var_init_def var_data_init_def attribute_flags)

lemma spec_set_new_null [simp]:
  "spec_set_new m t name None (VF_KEEPNAME OR VF_COPYDATA) = (0, m(name \<mapsto> Var t (Some name) None (VF_KEEPNAME OR VF_COPYDATA)))"
  by (simp add: spec_set_new_def var_create_def var_init_def var_data_init_def attribute_flags)

lemma spec_set_new_keep [simp]: "spec_set_new m t name d VF_KEEP = (0, m(name \<mapsto> Var t (Some name) d VF_KEEP))"
  by (cases d) (simp_all add: spec_set_new_def var_create_def var_init_def var_data_init_def attribute_flags)

lemma spec_set_new_keepname [simp]:
  "spec_set_new m t name d VF_KEEPNAME = (0, m(name \<mapsto> Var t (Some name) d VF_KEEPNAME))"
  by (cases d) (simp_all add: spec_set_new_def var_create_def var_init_def var_data_init_def attribute_flags)

lemma spec_get_upd [simp]: "spec_get (m(name \<mapsto> v)) k = (if k = name then v_data v else spec_get m k)"
  by (simp add: spec_get_def)

subsection \<open>Changing a value in place\<close>

lemma v_key_name: "v_name l = v_name l' \<Longrightarrow> v_key l = v_key l'"
  by (simp add: v_key_def)

lemma vtab_update_assign: "vtab_update t n v = ht_assign (\<lambda>w. if v_key w = n then v else w) t"
  by (simp add: vtab_update_def ht_assign_def)

lemma vtab_update_ok:
  assumes "vtab_ok t" and "v_key v = n"
  shows "vtab_ok (vtab_update t n v)"
  using assms unfolding vtab_ok_def vtab_update_assign by (intro ht_assign_ok) simp_all

lemma vtab_update_map:
  assumes "vtab_ok t" and "v_key v = n" and "vtab_map t n \<noteq> None"
  shows "vtab_map (vtab_update t n v) = (vtab_map t)(n \<mapsto> v)"
proof (rule ext)
  fix k
  have key: "v_key w = k" if "vtab_map t k = Some w" for w
    using that assms(1) by (simp add: vtab_map_def vtab_ok_def ht_map_Some)
  show "vtab_map (vtab_update t n v) k = ((vtab_map t)(n \<mapsto> v)) k"
    using assms(2,3) key
    by (cases "vtab_map t k") (auto simp: vtab_map_def vtab_update_assign ht_assign_map)
qed

subsection \<open>The operations of the table compute those of the map\<close>

definition vtab_rep :: "nat \<Rightarrow> vtab \<Rightarrow> mailspec \<Rightarrow> bool" where
  "vtab_rep n t m \<longleftrightarrow> vtab_ok t \<and> vtab_map t = m \<and> vtab_size t \<le> n"

lemma vtab_repD: "vtab_rep n t m \<Longrightarrow> vtab_ok t" "vtab_rep n t m \<Longrightarrow> vtab_map t = m"
  "vtab_rep n t m \<Longrightarrow> vtab_size t \<le> n"
  by (simp_all add: vtab_rep_def)

lemma vtable_create_rep: "0 < b \<Longrightarrow> vtab_rep 0 (vtable_create b) Map.empty"
  using vtable_create_ok [of b] by (simp add: vtab_rep_def del: length_concat)

lemma vtable_get_rep: "vtab_rep n t m \<Longrightarrow> vtable_get t name = spec_get m name"
  using spec_get_vtable by (auto simp: vtab_rep_def)

lemma vtable_dereference_rep: "vtab_rep n t m \<Longrightarrow> vtable_dereference t names = spec_dereference m names"
  by (simp add: vtable_dereference_def spec_dereference_def vtable_get_rep fun_eq_iff cong: map_cong)

lemma vtable_set_new_rep:
  assumes "vtab_rep n t m" and "Suc n < 2 ^ 30"
  shows "\<exists>t'. vtable_set_new t ty (Some name) d f = (fst (spec_set_new m ty name d f), t') \<and>
    vtab_rep (Suc n) t' (snd (spec_set_new m ty name d f))"
proof (cases "var_create ty (Some name) d f")
  case None
  with assms(1) show ?thesis by (simp add: vtable_set_new_def spec_set_new_def vtab_rep_def)
next
  case (Some v)
  from assms have "Suc (vtab_size t) < 2 ^ 30" by (simp add: vtab_rep_def del: length_concat)
  from vtable_set_new_map [OF vtab_repD(1) [OF assms(1)] this Some] obtain t' where
    "vtable_set_new t ty (Some name) d f = (0, t')" "vtab_ok t'" "vtab_map t' = (vtab_map t)(name \<mapsto> v)"
    "vtab_size t' \<le> Suc (vtab_size t)" by blast
  with Some assms(1) show ?thesis by (auto simp: spec_set_new_def vtab_rep_def simp del: length_concat)
qed

lemma vtable_setv_rep:
  assumes "vtab_rep n t m" and "n + length args < 2 ^ 30"
  shows "\<exists>t'. vtable_setv t args = (fst (spec_setv m args), t') \<and>
    vtab_rep (n + length args) t' (snd (spec_setv m args))"
  using assms
proof (induction args arbitrary: t m n)
  case (Cons a args)
  obtain ty name d f where a: "a = (ty, name, d, f)" by (cases a)
  show ?case
  proof (cases "ty = VT_NULL")
    case True
    with Cons.prems a show ?thesis by (auto simp: vtab_rep_def simp del: length_concat)
  next
    case False
    obtain r m1 where sp: "spec_set_new m ty name d f = (r, m1)" by (cases "spec_set_new m ty name d f")
    obtain t1 where t1: "vtable_set_new t ty (Some name) d f = (r, t1)" "vtab_rep (Suc n) t1 m1"
      using vtable_set_new_rep [OF Cons.prems(1), of ty name d f] Cons.prems(2) sp by auto
    show ?thesis
    proof (cases "r = 0")
      case True
      with Cons.IH [OF t1(2)] Cons.prems(2) a False sp t1(1) show ?thesis by auto
    next
      case False2: False
      with t1 a False sp show ?thesis by (auto simp: vtab_rep_def simp del: length_concat)
    qed
  qed
qed auto

lemma vtable_remove_rep: "vtab_rep n t m \<Longrightarrow> vtab_rep n (vtable_remove t name) (spec_remove m name)"
  using vtable_remove_map [of t name] by (auto simp: vtab_rep_def spec_remove_def simp del: length_concat)

lemma vtable_rename_rep:
  assumes "vtab_rep n t m" and "Suc n < 2 ^ 30"
  shows "case spec_rename m old new of
      None \<Rightarrow> vtable_rename t old new = None
    | Some (r, m') \<Rightarrow> \<exists>t'. vtable_rename t old new = Some (r, t') \<and> vtab_rep (Suc n) t' m'"
proof (cases "m old")
  case None
  with assms(1) show ?thesis
    by (auto simp: spec_rename_def vtable_rename_def vtable_lookup_map vtab_rep_def simp del: length_concat)
next
  case (Some v)
  then have look: "vtable_lookup t old = Some v" using assms(1) by (simp add: vtable_lookup_map vtab_rep_def)
  have key: "v_key v = old" using assms(1) Some by (auto simp: vtab_rep_def dest: vtab_map_key)
  obtain r m1 where sp: "spec_set_new m (v_type v) new (v_data v) VF_COPY = (r, m1)"
    by (cases "spec_set_new m (v_type v) new (v_data v) VF_COPY")
  obtain t1 where t1: "vtable_set_new t (v_type v) (Some new) (v_data v) VF_COPY = (r, t1)" "vtab_rep (Suc n) t1 m1"
    using vtable_set_new_rep [OF assms, of "v_type v" new "v_data v" VF_COPY] sp by auto
  have "vtab_rep (Suc n) (snd (ht_remove t1 v)) (spec_remove m1 old)"
    using t1(2) ht_remove_ok [of v_key t1 v] key
    by (auto simp: vtab_rep_def vtab_ok_def vtab_map_def spec_remove_def simp del: length_concat)
  with look Some sp t1 show ?thesis by (cases "old = new") (simp_all add: spec_rename_def vtable_rename_def)
qed

lemma vlist_append_new_key: "vlist_append_new l ty nm d f = Some (r, l1) \<Longrightarrow> v_key l1 = v_key l"
  by (auto simp: vlist_append_new_def vlist_append_def bind_eq_Some_conv v_key_def split: option.splits)

lemma vtable_list_append_new_rep:
  assumes "vtab_rep n t m" and "Suc n < 2 ^ 30"
  shows "case spec_list_append_new m ty name d f of
      None \<Rightarrow> vtable_list_append_new t ty name d f = None
    | Some (r, m') \<Rightarrow> \<exists>t'. vtable_list_append_new t ty name d f = Some (r, t') \<and> vtab_rep (Suc n) t' m'"
proof -
  have "\<exists>l t1. spec_list_get m name = (Some l, m(name \<mapsto> l)) \<and> vtable_list_get t name = (Some l, t1) \<and>
    vtab_rep (Suc n) t1 (m(name \<mapsto> l)) \<and> v_key l = name"
  proof (cases "m name")
    case (Some l)
    with assms(1) have "v_key l = name" by (auto simp: vtab_rep_def dest: vtab_map_key)
    with Some assms(1) show ?thesis
      by (auto simp: spec_list_get_def vtable_list_get_def vtable_lookup_map vtab_rep_def fun_upd_idem
          simp del: length_concat)
  next
    case None
    let ?l = "Var VT_LIST (Some name) (Some (DList [])) (sanitize (VF_COPYNAME OR VF_CREATE))"
    have l: "vlist_create (Some name) VF_COPYNAME = Some ?l"
      by (simp add: vlist_create_def var_create_def var_init_def var_data_init_def Let_def
          sanitize_def has_flag_def vf_defs)
    have "Suc (vtab_size t) < 2 ^ 30" using assms by (simp add: vtab_rep_def del: length_concat)
    from vtable_set_map [OF vtab_repD(1) [OF assms(1)] this, of ?l] obtain t1 where
      "vtable_set t ?l = (0, t1)" "vtab_ok t1" "vtab_map t1 = (vtab_map t)(name \<mapsto> ?l)"
      "vtab_size t1 \<le> Suc (vtab_size t)" by (metis v_key_Var)
    with l None assms(1) show ?thesis
      by (auto simp: spec_list_get_def vtable_list_get_def vtable_lookup_map vtab_rep_def simp del: length_concat)
  qed
  then obtain l t1 where l: "spec_list_get m name = (Some l, m(name \<mapsto> l))" "vtable_list_get t name = (Some l, t1)"
    "vtab_rep (Suc n) t1 (m(name \<mapsto> l))" "v_key l = name" by blast
  show ?thesis
  proof (cases "vlist_append_new l ty None d f")
    case None
    with l show ?thesis by (simp add: spec_list_append_new_def vtable_list_append_new_def)
  next
    case (Some p)
    then obtain r l1 where p: "vlist_append_new l ty None d f = Some (r, l1)" by (cases p) simp
    have key: "v_key l1 = name" using vlist_append_new_key [OF p] l(4) by simp
    have "vtab_rep (Suc n) (vtab_update t1 name l1) (m(name \<mapsto> l1))"
      using l(3) key vtab_update_ok [of t1 l1 name] vtab_update_map [of t1 l1 name]
      by (auto simp: vtab_rep_def vtab_update_def length_concat comp_def)
    with l p show ?thesis by (simp add: spec_list_append_new_def vtable_list_append_new_def)
  qed
qed

end
