(* ===== verification/World.thy ===== *)
theory World
  imports Exp Mailspec
begin

section \<open>The state behind the actions\<close>

text \<open>
  What the actions of rules and the stages of a message work on: the attributes of the message and
  the literals of the rules (\<open>xstate\<close>), the handle of the greylist database, and the calls to the
  mail server and the operating system made so far, the latest first. The answers to such calls
  are a function of the environment that sees all calls before, so every behaviour of the outside
  is covered.

  A result \<open>None\<close> means that the program does not continue: it has called \<open>log_die\<close>, loops
  forever, or has done something that C gives no meaning.
\<close>

datatype call =
    C_Log int "string option"
  | C_Setreply string "string option" string
  | C_Progress
  | C_Sleep int
  | C_Running
  | C_Addheader "string option" "string option"
  | C_Chgheader "string option" int "string option"
  | C_Insheader int "string option" "string option"
  | C_Chgfrom "string option" "string option"
  | C_Addrcpt "string option"
  | C_Addrcpt_par "string option" "string option"
  | C_Delrcpt "string option"
  | C_Replacebody string int
  | C_Sock_connect string
  | C_Write string int
  | C_Popen string
  | C_Fwrite string int
  | C_Pclose
  | C_Sync var
  | C_Time

datatype acl_action_type =
    ACL_ERROR | ACL_NULL | ACL_NONE | ACL_RETURN | ACL_CONTINUE | ACL_REJECT | ACL_DISCARD | ACL_ACCEPT
  | ACL_TEMPFAIL | ACL_JUMP | ACL_CALL | ACL_SET | ACL_LOG | ACL_GREYLIST | ACL_TARPIT | ACL_MOD | ACL_PIPE

fun action_int :: "acl_action_type \<Rightarrow> int" where
  "action_int ACL_ERROR = -1"
| "action_int ACL_NULL = 0"
| "action_int ACL_NONE = 1"
| "action_int ACL_RETURN = 2"
| "action_int ACL_CONTINUE = 3"
| "action_int ACL_REJECT = 4"
| "action_int ACL_DISCARD = 5"
| "action_int ACL_ACCEPT = 6"
| "action_int ACL_TEMPFAIL = 7"
| "action_int ACL_JUMP = 8"
| "action_int ACL_CALL = 9"
| "action_int ACL_SET = 10"
| "action_int ACL_LOG = 11"
| "action_int ACL_GREYLIST = 12"
| "action_int ACL_TARPIT = 13"
| "action_int ACL_MOD = 14"
| "action_int ACL_PIPE = 15"

definition MI_SUCCESS :: int where
  "MI_SUCCESS = 0"

text \<open>The stages of a connection, as bits: \<open>milter_stage_t\<close>.\<close>

definition MS_INIT :: int where "MS_INIT = 1"
definition MS_CONNECT :: int where "MS_CONNECT = 2"
definition MS_UNKNOWN :: int where "MS_UNKNOWN = 4"
definition MS_HELO :: int where "MS_HELO = 8"
definition MS_ENVFROM :: int where "MS_ENVFROM = 16"
definition MS_ENVRCPT :: int where "MS_ENVRCPT = 32"
definition MS_DATA :: int where "MS_DATA = 64"
definition MS_HEADER :: int where "MS_HEADER = 128"
definition MS_EOH :: int where "MS_EOH = 256"
definition MS_BODY :: int where "MS_BODY = 512"
definition MS_EOM :: int where "MS_EOM = 1024"
definition MS_ABORT :: int where "MS_ABORT = 2048"
definition MS_CLOSE :: int where "MS_CLOSE = 4096"

lemmas ms_defs = MS_INIT_def MS_CONNECT_def MS_UNKNOWN_def MS_HELO_def MS_ENVFROM_def MS_ENVRCPT_def MS_DATA_def
  MS_HEADER_def MS_EOH_def MS_BODY_def MS_EOM_def MS_ABORT_def MS_CLOSE_def

definition MS_OFF_EOM :: int where "MS_OFF_EOM = MS_EOM OR MS_ABORT OR MS_CLOSE"
definition MS_OFF_BODY :: int where "MS_OFF_BODY = MS_BODY OR MS_OFF_EOM"
definition MS_OFF_EOH :: int where "MS_OFF_EOH = MS_EOH OR MS_OFF_BODY"
definition MS_OFF_HEADER :: int where "MS_OFF_HEADER = MS_HEADER OR MS_OFF_EOH"
definition MS_OFF_DATA :: int where "MS_OFF_DATA = MS_DATA OR MS_OFF_HEADER"
definition MS_OFF_ENVRCPT :: int where "MS_OFF_ENVRCPT = MS_ENVRCPT OR MS_OFF_DATA"
definition MS_OFF_ENVFROM :: int where "MS_OFF_ENVFROM = MS_ENVFROM OR MS_OFF_ENVRCPT"
definition MS_OFF_HELO :: int where "MS_OFF_HELO = MS_HELO OR MS_OFF_ENVFROM"
definition MS_ANY :: int where "MS_ANY = MS_CONNECT OR MS_OFF_HELO"
definition MS_OFF_CONNECT :: int where "MS_OFF_CONNECT = MS_ANY"

lemmas ms_off_defs = MS_OFF_EOM_def MS_OFF_BODY_def MS_OFF_EOH_def MS_OFF_HEADER_def MS_OFF_DATA_def
  MS_OFF_ENVRCPT_def MS_OFF_ENVFROM_def MS_OFF_HELO_def MS_ANY_def MS_OFF_CONNECT_def

text \<open>The functions of a database driver that the tables use: \<open>dbt_driver_t\<close>.\<close>

record 'h dbt_driver =
  dd_get :: "'h \<Rightarrow> var \<Rightarrow> (int \<times> var option) option"
  dd_set :: "'h \<Rightarrow> var \<Rightarrow> (int \<times> 'h) option"
  dd_del :: "'h \<Rightarrow> var \<Rightarrow> (int \<times> 'h) option"

record 'h world =
  w_x :: xstate
  w_db :: 'h
  w_calls :: "call list"

text \<open>
  The environment: symbols may read the database, so that of expressions depends on its handle;
  then the driver, the answers of the outside, and the configuration.
\<close>

record 'h env =
  e_x :: "'h \<Rightarrow> xenv"
  e_driver :: "'h dbt_driver"
  e_answer :: "call list \<Rightarrow> call \<Rightarrow> int"
  cf_acl_log_level :: int
  cf_greylist_deadline :: int
  cf_greylist_visa :: int
  cf_tarpit_progress_interval :: int
  cf_dbt_fatal_errors :: bool

definition ask :: "'h env \<Rightarrow> call \<Rightarrow> 'h world \<Rightarrow> int \<times> 'h world" where
  "ask E c w = (e_answer E (w_calls w) c, w\<lparr>w_calls := c # w_calls w\<rparr>)"

abbreviation w_spec :: "'h world \<Rightarrow> mailspec" where
  "w_spec w \<equiv> xs_spec (w_x w)"

definition set_spec :: "'h world \<Rightarrow> mailspec \<Rightarrow> 'h world" where
  "set_spec w m = w\<lparr>w_x := (w_x w)\<lparr>xs_spec := m\<rparr>\<rparr>"

abbreviation E_libc :: "'h env \<Rightarrow> 'h world \<Rightarrow> libc" where
  "E_libc E w \<equiv> x_libc (e_x E (w_db w))"

text \<open>The value an expression returns, \<open>NULL\<close> when the evaluation fails.\<close>

definition w_eval :: "'h env \<Rightarrow> exp \<Rightarrow> 'h world \<Rightarrow> (var option \<times> 'h world) option" where
  "w_eval E e w =
     do {
       (r, st) \<leftarrow> exp_eval (e_x E (w_db w)) e (w_x w);
       v \<leftarrow> deref_opt st r;
       Some (v, w\<lparr>w_x := st\<rparr>) }"

definition w_is_true :: "'h env \<Rightarrow> exp option \<Rightarrow> 'h world \<Rightarrow> (int \<times> 'h world) option" where
  "w_is_true E e w =
     do { (r, st) \<leftarrow> exp_is_true (e_x E (w_db w)) e (w_x w); Some (r, w\<lparr>w_x := st\<rparr>) }"

lemma set_spec_simps [simp]:
  "w_spec (set_spec w m) = m" "w_db (set_spec w m) = w_db w" "w_calls (set_spec w m) = w_calls w"
  "xs_const (w_x (set_spec w m)) = xs_const (w_x w)" "set_spec (set_spec w m) m' = set_spec w m'"
  by (simp_all add: set_spec_def)

lemma ask_simps [simp]:
  "w_x (snd (ask E c w)) = w_x w" "w_db (snd (ask E c w)) = w_db w" "w_calls (snd (ask E c w)) = c # w_calls w"
  "fst (ask E c w) = e_answer E (w_calls w) c"
  by (simp_all add: ask_def)

subsection \<open>Access to the database (dbt.c)\<close>

text \<open>
  \<open>dbt_db_get\<close> and \<open>dbt_db_set\<close>. The lock of a table is recursive and is released
  on every path, so the operations run one after the other. \<open>dbt_db_set\<close> first queues the record
  for the other servers.
\<close>

definition dbt_db_get :: "'h env \<Rightarrow> 'h world \<Rightarrow> var \<Rightarrow> (int \<times> var option) option" where
  "dbt_db_get E w record0 =
     do {
       (r, result) \<leftarrow> dd_get (e_driver E) (w_db w) record0;
       if r < 0 \<and> cf_dbt_fatal_errors E then None else Some (r, result) }"

definition dbt_db_set :: "'h env \<Rightarrow> 'h world \<Rightarrow> var \<Rightarrow> (int \<times> 'h world) option" where
  "dbt_db_set E w record0 =
     (let w1 = snd (ask E (C_Sync record0) w) in
      do {
        (r, h) \<leftarrow> dd_set (e_driver E) (w_db w1) record0;
        if r < 0 \<and> cf_dbt_fatal_errors E then None else Some (r, w1\<lparr>w_db := h\<rparr>) })"

text \<open>
  \<open>dbt_db_get_from_table\<close>: the key fields of the scheme are looked up among the attributes. The
  attributes are those of the message, so that their data are the pointers in the record. Copies
  of the scheme lose the key flag, which is set again.
\<close>

fun lookup_fields :: "mailspec \<Rightarrow> var list \<Rightarrow> var option list option option" where
  "lookup_fields m [] = Some (Some [])"
| "lookup_fields m (template # ts) =
     (if \<not> has_flag (v_flags template) VF_KEY then
        do { r \<leftarrow> lookup_fields m ts;
             Some (map_option (\<lambda>vs. Some (Var (v_type template) (v_name template) (v_data template) VF_COPY) # vs) r) }
      else if v_data template \<noteq> None then Some None
      else
        (case v_name template of
           None \<Rightarrow> None
         | Some name \<Rightarrow>
             (case spec_get m name of
                None \<Rightarrow> Some None
              | Some d \<Rightarrow>
                  do { r \<leftarrow> lookup_fields m ts;
                       Some (map_option (\<lambda>vs. Some (Var (v_type template) (Some name) (Some d)
                         (VF_COPY OR VF_KEY OR VF_KEEPDATA)) # vs) r) })))"

definition dbt_db_get_from_table ::
  "(var \<Rightarrow> (int \<times> var option) option) \<Rightarrow> var \<Rightarrow> mailspec \<Rightarrow> (int \<times> var option) option" where
  "dbt_db_get_from_table get scheme m =
     do {
       xs \<leftarrow> vlist_items scheme;
       l \<leftarrow> lookup_fields m (visible xs);
       (case l of
          None \<Rightarrow> Some (-1, None)
        | Some vs \<Rightarrow>
            do {
              (r, result) \<leftarrow> get (Var VT_LIST (v_name scheme) (Some (DList vs)) VF_COPY);
              Some (if r \<noteq> 0 then (-1, None) else (0, result)) }) }"

text \<open>\<open>dbt_db_load_into_table\<close>: fields that the message does not have yet become attributes.\<close>

fun load_fields :: "bool \<Rightarrow> var list \<Rightarrow> mailspec \<Rightarrow> (int \<times> mailspec) option" where
  "load_fields found [] m = Some (0, m)"
| "load_fields found (v # vs) m =
     (if has_flag (v_flags v) VF_KEY then load_fields found vs m
      else
        (case v_name v of
           None \<Rightarrow> None
         | Some name \<Rightarrow>
             if spec_get m name \<noteq> None then load_fields found vs m
             else
               (case spec_set_new m (v_type v) name (if found then v_data v else None) VF_COPY of
                  (r, m1) \<Rightarrow> if r \<noteq> 0 then Some (-1, m1) else load_fields found vs m1)))"

definition dbt_db_load_into_table ::
  "(var \<Rightarrow> (int \<times> var option) option) \<Rightarrow> var \<Rightarrow> mailspec \<Rightarrow> (int \<times> mailspec) option" where
  "dbt_db_load_into_table get scheme m =
     do {
       (r, result) \<leftarrow> dbt_db_get_from_table get scheme m;
       if r \<noteq> 0 then Some (-1, m)
       else do {
         xs \<leftarrow> vlist_items (case result of None \<Rightarrow> scheme | Some record0 \<Rightarrow> record0);
         load_fields (result \<noteq> None) (visible xs) m } }"

end
