(* ===== verification/Greylist.thy ===== *)
theory Greylist
  imports World
begin

section \<open>Greylisting (greylist.c)\<close>

text \<open>
  \<open>src/src/greylist.c\<close>: the action that defers unknown combinations of origin, sender and
  recipient until they have been tried often and long enough.
\<close>

record greylist =
  gl_flags :: u32
  gl_deadline :: "exp option"
  gl_delay :: "exp option"
  gl_attempts :: "exp option"
  gl_visa :: "exp option"

definition GLF_DEADLINE :: u32 where "GLF_DEADLINE = 1"
definition GLF_DELAY :: u32 where "GLF_DELAY = 2"
definition GLF_ATTEMPTS :: u32 where "GLF_ATTEMPTS = 4"
definition GLF_VISA :: u32 where "GLF_VISA = 8"

lemmas glf_defs = GLF_DEADLINE_def GLF_DELAY_def GLF_ATTEMPTS_def GLF_VISA_def

definition greylist_create :: greylist where
  "greylist_create = \<lparr>gl_flags = 0, gl_deadline = None, gl_delay = None, gl_attempts = None, gl_visa = None\<rparr>"

definition greylist_deadline :: "greylist \<Rightarrow> exp \<Rightarrow> greylist" where
  "greylist_deadline gl e = gl\<lparr>gl_flags := gl_flags gl OR GLF_DEADLINE, gl_deadline := Some e\<rparr>"

definition greylist_delay :: "greylist \<Rightarrow> exp \<Rightarrow> greylist" where
  "greylist_delay gl e = gl\<lparr>gl_flags := gl_flags gl OR GLF_DELAY, gl_delay := Some e\<rparr>"

definition greylist_attempts :: "greylist \<Rightarrow> exp \<Rightarrow> greylist" where
  "greylist_attempts gl e = gl\<lparr>gl_flags := gl_flags gl OR GLF_ATTEMPTS, gl_attempts := Some e\<rparr>"

definition greylist_visa :: "greylist \<Rightarrow> exp \<Rightarrow> greylist" where
  "greylist_visa gl e = gl\<lparr>gl_flags := gl_flags gl OR GLF_VISA, gl_visa := Some e\<rparr>"

subsection \<open>Records of the table\<close>

definition greylist_fields :: "(string \<times> vtype \<times> u32) list" where
  "greylist_fields =
     [(''origin'', VT_STRING, VF_KEEPNAME OR VF_KEY), (''envfrom_addr'', VT_STRING, VF_KEEPNAME OR VF_KEY),
      (''envrcpt_addr'', VT_STRING, VF_KEEPNAME OR VF_KEY),
      (''greylist_created'', VT_INT, VF_KEEPNAME), (''greylist_updated'', VT_INT, VF_KEEPNAME),
      (''greylist_expire'', VT_INT, VF_KEEPNAME), (''greylist_connections'', VT_INT, VF_KEEPNAME),
      (''greylist_deadline'', VT_INT, VF_KEEPNAME), (''greylist_delay'', VT_INT, VF_KEEPNAME),
      (''greylist_attempts'', VT_INT, VF_KEEPNAME), (''greylist_visa'', VT_INT, VF_KEEPNAME),
      (''greylist_passed'', VT_INT, VF_KEEPNAME)]"

text \<open>\<open>greylist_init\<close> makes the scheme of the table from them.\<close>

definition greylist_scheme :: var where
  "greylist_scheme =
     (case vlist_scheme ''greylist'' greylist_fields of
        Some (Some scheme) \<Rightarrow> scheme
      | _ \<Rightarrow> Var VT_NULL None None 0)"

text \<open>The nine numbers that \<open>vlist_dereference\<close> finds in a record, and writing them back.\<close>

record tuple =
  t_created :: int
  t_updated :: int
  t_expire :: int
  t_connections :: int
  t_deadline :: int
  t_delay :: int
  t_attempts :: int
  t_visa :: int
  t_passed :: int

definition read_tuple :: "var \<Rightarrow> tuple option" where
  "read_tuple record0 =
     do {
       ds \<leftarrow> vlist_dereference record0;
       is \<leftarrow> those (map as_int (drop 3 ds));
       (case is of
          [a, b, c, d, e, f, g, h, i] \<Rightarrow>
            Some \<lparr>t_created = a, t_updated = b, t_expire = c, t_connections = d, t_deadline = e, t_delay = f,
                  t_attempts = g, t_visa = h, t_passed = i\<rparr>
        | _ \<Rightarrow> None) }"

definition tuple_ints :: "tuple \<Rightarrow> int list" where
  "tuple_ints t = [t_created t, t_updated t, t_expire t, t_connections t, t_deadline t, t_delay t, t_attempts t,
     t_visa t, t_passed t]"

definition put_int :: "var \<Rightarrow> int \<Rightarrow> var" where
  "put_int v i = Var (v_type v) (v_name v) (Some (DInt i)) (v_flags v)"

definition write_tuple :: "var \<Rightarrow> tuple \<Rightarrow> var option" where
  "write_tuple record0 t =
     do {
       xs \<leftarrow> vlist_items record0;
       Some (Var (v_type record0) (v_name record0)
         (Some (DList (take 3 xs @ map2 (\<lambda>x i. map_option (\<lambda>v. put_int v i) x) (drop 3 xs) (tuple_ints t))))
         (v_flags record0)) }"

subsection \<open>Properties of the rule\<close>

definition greylist_eval :: "'h env \<Rightarrow> exp option \<Rightarrow> 'h world \<Rightarrow> (int option \<times> 'h world) option" where
  "greylist_eval E e w =
     (case e of
        None \<Rightarrow> Some (Some 0, w)
      | Some x \<Rightarrow>
          do {
            (v, w1) \<leftarrow> w_eval E x w;
            (case v of
               None \<Rightarrow> Some (None, w1)
             | Some v \<Rightarrow>
                 if v_data v = None \<or> v_type v \<noteq> VT_INT then Some (None, w1)
                 else do { i \<leftarrow> as_int (v_data v); Some (Some i, w1) }) })"

text \<open>One round of the loop: the flag, the expression and the value it replaces.\<close>

definition property :: "'h env \<Rightarrow> greylist \<Rightarrow> u32 \<Rightarrow> exp option \<Rightarrow> int \<Rightarrow> 'h world \<Rightarrow> (int option \<times> 'h world) option" where
  "property E gl flag e old w =
     (if gl_flags gl AND flag = 0 then Some (Some old, w) else greylist_eval E e w)"

definition greylist_properties ::
  "'h env \<Rightarrow> greylist \<Rightarrow> tuple \<Rightarrow> 'h world \<Rightarrow> (tuple option \<times> 'h world) option" where
  "greylist_properties E gl t w =
     do {
       (r1, w1) \<leftarrow> property E gl GLF_DEADLINE (gl_deadline gl) (t_deadline t) w;
       (case r1 of None \<Rightarrow> Some (None, w1) | Some deadline \<Rightarrow>
       do {
         (r2, w2) \<leftarrow> property E gl GLF_DELAY (gl_delay gl) (t_delay t) w1;
         (case r2 of None \<Rightarrow> Some (None, w2) | Some delay \<Rightarrow>
         do {
           (r3, w3) \<leftarrow> property E gl GLF_ATTEMPTS (gl_attempts gl) (t_attempts t) w2;
           (case r3 of None \<Rightarrow> Some (None, w3) | Some attempts \<Rightarrow>
           do {
             (r4, w4) \<leftarrow> property E gl GLF_VISA (gl_visa gl) (t_visa t) w3;
             (case r4 of None \<Rightarrow> Some (None, w4) | Some visa \<Rightarrow>
                Some (Some (t\<lparr>t_deadline := deadline, t_delay := delay, t_attempts := attempts, t_visa := visa,
                  t_expire := (if gl_flags gl AND GLF_DEADLINE \<noteq> 0 then wrap64 (t_created t + deadline)
                    else t_expire t)\<rparr>), w4)) }) }) }) }"

subsection \<open>Counting\<close>

text \<open>
  \<open>greylist_tuple_counted\<close>: 1 when the recipient is in the list, else 0 and it is appended; -1 for
  an error.
\<close>

fun counted_in :: "string \<Rightarrow> var list \<Rightarrow> int option" where
  "counted_in needle [] = Some 0"
| "counted_in needle (v # vs) =
     (if v_type v \<noteq> VT_STRING then Some (-1)
      else do { s \<leftarrow> as_string (v_data v); if s = needle then Some 1 else counted_in needle vs })"

definition greylist_tuple_counted :: "mailspec \<Rightarrow> string \<Rightarrow> string \<Rightarrow> (int \<times> mailspec) option" where
  "greylist_tuple_counted m haystack needle =
     (let append = do {
            (r, m1) \<leftarrow> spec_list_append_new m VT_STRING haystack (Some (DString needle)) (VF_KEEPNAME OR VF_COPYDATA);
            Some (if r \<noteq> 0 then (-1, m1) else (0, m1)) } in
      case spec_get m haystack of
        None \<Rightarrow> append
      | Some (DList xs) \<Rightarrow> do { c \<leftarrow> counted_in needle (visible xs); if c = 0 then append else Some (c, m) }
      | Some _ \<Rightarrow> None)"

subsection \<open>The decision for one recipient\<close>

definition greylist_record :: "string option \<Rightarrow> string option \<Rightarrow> string option \<Rightarrow> int option list \<Rightarrow> var option option" where
  "greylist_record origin envfrom envrcpt is =
     vlist_record greylist_scheme (map (map_option DString) [origin, envfrom, envrcpt] @ map (map_option DInt) is)"

definition greylist_add ::
  "'h env \<Rightarrow> greylist \<Rightarrow> string option \<Rightarrow> string option \<Rightarrow> string option \<Rightarrow> int \<Rightarrow> 'h world \<Rightarrow> (int \<times> 'h world) option" where
  "greylist_add E gl origin envfrom envrcpt received w =
     do {
       (p, w1) \<leftarrow> greylist_properties E gl
         \<lparr>t_created = received, t_updated = received, t_expire = 0, t_connections = 1, t_deadline = 0, t_delay = 0,
          t_attempts = 0, t_visa = 0, t_passed = 0\<rparr> w;
       (case p of
          None \<Rightarrow> Some (-1, w1)
        | Some t \<Rightarrow>
            (let deadline = (if t_deadline t = 0 then cf_greylist_deadline E else t_deadline t);
                 visa = (if t_visa t = 0 then cf_greylist_visa E else t_visa t);
                 t1 = t\<lparr>t_deadline := deadline, t_visa := visa, t_expire := wrap64 (received + deadline)\<rparr> in
             do {
               r \<leftarrow> greylist_record origin envfrom envrcpt (map Some (tuple_ints t1));
               (case r of
                  None \<Rightarrow> Some (-1, w1)
                | Some record0 \<Rightarrow>
                    do {
                      (r, w2) \<leftarrow> dbt_db_set E w1 record0;
                      Some (if r \<noteq> 0 then -1 else 1, w2) }) })) }"

text \<open>
  The part of \<open>greylist_recipient\<close> for a record that has not expired, once the properties of the
  rule have been applied: the answer and the delay that the message has survived.
\<close>

definition greylist_known ::
  "'h env \<Rightarrow> var \<Rightarrow> tuple \<Rightarrow> string \<Rightarrow> int \<Rightarrow> 'h world \<Rightarrow> (int \<times> int \<times> 'h world) option" where
  "greylist_known E record0 t envrcpt received w =
     do {
       (c, m1) \<leftarrow> greylist_tuple_counted (w_spec w) ''greylist_connection_counted'' envrcpt;
       let w1 = set_spec w m1;
       let t1 = (if c = 0 then t\<lparr>t_connections := wrap64 (t_connections t + 1)\<rparr> else t);
       let passed_delay = wrap32 (received - t_created t1);
       (defer, delayed, t2, w2) \<leftarrow>
         (if passed_delay > t_delay t1 \<and> t_connections t1 > t_attempts t1 then
            do {
              (p, m2) \<leftarrow> greylist_tuple_counted (w_spec w1) ''greylist_passed_counted'' envrcpt;
              let passed = (if p = 0 then wrap64 (t_passed t1 + 1) else t_passed t1);
              Some (0, if passed = 1 then passed_delay else 0,
                t1\<lparr>t_expire := wrap64 (received + t_visa t1), t_passed := passed\<rparr>, set_spec w1 m2) }
          else Some (1, 0, t1\<lparr>t_expire := wrap64 (t_created t1 + t_deadline t1), t_passed := 0\<rparr>, w1));
       record1 \<leftarrow> write_tuple record0 (t2\<lparr>t_updated := received\<rparr>);
       (r, w3) \<leftarrow> dbt_db_set E w2 record1;
       Some (if r \<noteq> 0 then -1 else defer, delayed, w3) }"

definition greylist_recipient ::
  "'h env \<Rightarrow> greylist \<Rightarrow> string option \<Rightarrow> string option \<Rightarrow> string option \<Rightarrow> int \<Rightarrow> 'h world \<Rightarrow>
   (int \<times> int \<times> 'h world) option" where
  "greylist_recipient E gl origin envfrom envrcpt received w =
     (let add = (\<lambda>w. do { (r, w1) \<leftarrow> greylist_add E gl origin envfrom envrcpt received w; Some (r, 0, w1) }) in
      do {
        l \<leftarrow> greylist_record origin envfrom envrcpt (replicate 9 None);
        (case l of
           None \<Rightarrow> Some (-1, 0, w)
         | Some lookup \<Rightarrow>
             do {
               (r, result) \<leftarrow> dbt_db_get E w lookup;
               if r \<noteq> 0 then Some (-1, 0, w)
               else
                 (case result of
                    None \<Rightarrow> if gl_flags gl = 0 then Some (0, 0, w) else add w
                  | Some record0 \<Rightarrow>
                      do {
                        t \<leftarrow> read_tuple record0;
                        if t_expire t < received then add w
                        else do {
                          (p, w1) \<leftarrow> greylist_properties E gl t w;
                          (case (p, envrcpt) of
                             (None, _) \<Rightarrow> Some (-1, 0, w1)
                           | (Some t1, Some rcpt) \<Rightarrow> greylist_known E record0 t1 rcpt received w1
                           | _ \<Rightarrow> None) } }) }) })"

subsection \<open>The action\<close>

text \<open>
  The loop over the recipients. The first component stays \<open>None\<close> when there are none: \<open>defer\<close>
  has no value then.
\<close>

fun greylist_loop ::
  "'h env \<Rightarrow> greylist \<Rightarrow> string option \<Rightarrow> string option \<Rightarrow> int \<Rightarrow> var list \<Rightarrow> int option \<Rightarrow> int \<Rightarrow> 'h world \<Rightarrow>
   (int option \<times> int \<times> 'h world) option" where
  "greylist_loop E gl origin envfrom received [] defer max_delay w = Some (defer, max_delay, w)"
| "greylist_loop E gl origin envfrom received (v # vs) defer max_delay w =
     do {
       rcpt \<leftarrow> (case v_data v of None \<Rightarrow> Some None | d \<Rightarrow> map_option Some (as_string d));
       (d, delay, w1) \<leftarrow> greylist_recipient E gl origin envfrom rcpt received w;
       if d \<noteq> 0 then Some (Some d, max_delay, w1)
       else greylist_loop E gl origin envfrom received vs (Some 0) (max max_delay delay) w1 }"

definition greylist_action :: "'h env \<Rightarrow> int \<Rightarrow> greylist \<Rightarrow> 'h world \<Rightarrow> (acl_action_type \<times> 'h world) option" where
  "greylist_action E stage gl w =
     (let str = (\<lambda>d. case d of None \<Rightarrow> Some None | d \<Rightarrow> map_option Some (as_string d)) in
      case spec_dereference (w_spec w) [''origin'', ''envfrom_addr'', ''envrcpt_addr'', ''recipient_list'', ''received''] of
        (n, [orig, from, r, l, t]) \<Rightarrow>
          if n < 4 then Some (ACL_ERROR, w)
          else do {
            origin \<leftarrow> str orig;
            envfrom \<leftarrow> str from;
            received \<leftarrow> as_int t;
            (defer, max_delay, w1) \<leftarrow>
              (if stage = MS_ENVRCPT then
                 do {
                   envrcpt \<leftarrow> str r;
                   (d, delay, w1) \<leftarrow> greylist_recipient E gl origin envfrom envrcpt received w;
                   Some (Some d, delay, w1) }
               else
                 (case l of
                    Some (DList xs) \<Rightarrow> greylist_loop E gl origin envfrom received (visible xs) None 0 w
                  | _ \<Rightarrow> None));
            d \<leftarrow> defer;
            Some (if d = -1 then (ACL_ERROR, w1)
                  else if d \<noteq> 0 then (ACL_GREYLIST, w1)
                  else if max_delay = 0 then (ACL_NONE, w1)
                  else (ACL_NONE, set_spec w1 (snd (spec_set_new (w_spec w1) VT_INT ''greylist_delayed''
                    (Some (DInt max_delay)) (VF_KEEPNAME OR VF_COPYDATA))))) }
      | _ \<Rightarrow> None)"

text \<open>\<open>greylist_pass\<close> lets a deferred combination through at its next attempt.\<close>

definition greylist_pass ::
  "'h env \<Rightarrow> string option \<Rightarrow> string option \<Rightarrow> string option \<Rightarrow> 'h world \<Rightarrow> (int \<times> 'h world) option" where
  "greylist_pass E origin envfrom envrcpt w =
     do {
       l \<leftarrow> greylist_record origin envfrom envrcpt (replicate 9 None);
       (case l of
          None \<Rightarrow> Some (-1, w)
        | Some lookup \<Rightarrow>
            do {
              (r, result) \<leftarrow> dbt_db_get E w lookup;
              if r \<noteq> 0 then Some (-1, w)
              else
                (case result of
                   None \<Rightarrow> Some (0, w)
                 | Some record0 \<Rightarrow>
                     do {
                       t \<leftarrow> read_tuple record0;
                       if t_passed t > 0 then Some (0, w)
                       else
                         (let (now0, w1) = ask E C_Time w;
                              now = wrap32 now0;
                              t1 = t\<lparr>t_created := wrap64 (now - t_delay t), t_connections := t_attempts t,
                                t_expire := wrap64 (now + t_visa t), t_updated := now\<rparr> in
                          do {
                            record1 \<leftarrow> write_tuple record0 t1;
                            (r, w2) \<leftarrow> dbt_db_set E w1 record1;
                            Some (if r \<noteq> 0 then -1 else 1, w2) }) }) }) }"

subsection \<open>Symbols\<close>

definition greylist_delayed :: "string \<Rightarrow> mailspec \<Rightarrow> int \<times> mailspec" where
  "greylist_delayed name m =
     (case spec_set_new m VT_INT name None VF_COPYNAME of (r, m1) \<Rightarrow> (if r \<noteq> 0 then -1 else 0, m1))"

definition greylist_listed ::
  "(var \<Rightarrow> (int \<times> var option) option) \<Rightarrow> int \<Rightarrow> string \<Rightarrow> mailspec \<Rightarrow> (int \<times> mailspec) option" where
  "greylist_listed get stage name m =
     (let set0 = (\<lambda>d. Some (case spec_set_new m VT_INT name d VF_COPY of (r, m1) \<Rightarrow> (if r \<noteq> 0 then -1 else 0, m1)));
          load = do {
            (r, result) \<leftarrow> dbt_db_get_from_table get greylist_scheme m;
            if r \<noteq> 0 then Some (-1, m) else set0 (Some (DInt (if result \<noteq> None then 1 else 0))) } in
      if stage = MS_ENVFROM then load
      else
        (case spec_get m ''recipients'' of
           None \<Rightarrow> Some (-1, m)
         | d \<Rightarrow> do { n \<leftarrow> as_int d; if n = 1 then load else set0 None }))"

definition greylist_tuple_symbol ::
  "(var \<Rightarrow> (int \<times> var option) option) \<Rightarrow> int \<Rightarrow> string \<Rightarrow> mailspec \<Rightarrow> (int \<times> mailspec) option" where
  "greylist_tuple_symbol get stage name m =
     (let load = do {
            (r, m1) \<leftarrow> dbt_db_load_into_table get greylist_scheme m;
            Some (if r \<noteq> 0 then -1 else 0, m1) } in
      if stage = MS_ENVRCPT then load
      else
        (case spec_get m ''recipients'' of
           None \<Rightarrow> Some (-1, m)
         | d \<Rightarrow>
             do {
               n \<leftarrow> as_int d;
               if n = 1 then load
               else Some (case spec_set_new m VT_INT name None VF_COPYNAME of (r, m1) \<Rightarrow> (if r \<noteq> 0 then -1 else 0, m1)) }))"

end
