(* ===== verification/Actions.thy ===== *)
theory Actions
  imports World
begin

section \<open>Tarpit, message modification and pipes (tarpit.c, msgmod.c, pipe.c)\<close>

text \<open>
  The actions that make the mail server wait (\<open>src/src/tarpit.c\<close>), change the message
  (\<open>src/src/msgmod.c\<close>) or hand it to another program (\<open>src/src/pipe.c\<close>). What they do to the
  outside is the list of calls they make.
\<close>

subsection \<open>Tarpit\<close>

definition TARPIT_SYMBOL :: string where
  "TARPIT_SYMBOL = ''tarpit_delayed''"

text \<open>\<open>while ((nap = sleep(nap)) && milter_running);\<close>\<close>

partial_function (option) nap_loop :: "'h env \<Rightarrow> int \<Rightarrow> 'h world \<Rightarrow> 'h world option" where
  "nap_loop E nap w =
     (let (left, w1) = ask E (C_Sleep nap) w in
      if wrap32 left = 0 then Some w1
      else
        (let (running, w2) = ask E C_Running w1 in
         if running = 0 then Some w2 else nap_loop E (wrap32 left) w2))"

text \<open>The loop of naps; the first component is an early return.\<close>

partial_function (option) tarpit_loop ::
  "'h env \<Rightarrow> int \<Rightarrow> 'h world \<Rightarrow> (acl_action_type option \<times> 'h world) option" where
  "tarpit_loop E remaining w =
     (let nap = wrap32 (min remaining (cf_tarpit_progress_interval E));
          remaining1 = wrap64 (remaining - nap) in
      Option.bind (nap_loop E nap w) (\<lambda>w1.
        if remaining1 \<le> 0 then Some (None, w1)
        else
          (let (running, w2) = ask E C_Running w1 in
           if running = 0 then Some (Some ACL_ERROR, w2)
           else
             (let (r, w3) = ask E C_Progress w2 in
              if r \<noteq> MI_SUCCESS then Some (Some ACL_TEMPFAIL, w3) else tarpit_loop E remaining1 w3))))"

definition tarpit_store :: "int \<Rightarrow> 'h world \<Rightarrow> (acl_action_type \<times> 'h world) option" where
  "tarpit_store delay w =
     (case w_spec w TARPIT_SYMBOL of
        Some (Var t n (Some d) f) \<Rightarrow>
          do {
            stored \<leftarrow> as_int (Some d);
            Some (ACL_NONE, set_spec w ((w_spec w)(TARPIT_SYMBOL \<mapsto> Var t n (Some (DInt (wrap64 (stored + delay)))) f))) }
      | _ \<Rightarrow>
          (case spec_set_new (w_spec w) VT_INT TARPIT_SYMBOL (Some (DInt delay)) (VF_KEEPNAME OR VF_COPYDATA) of
             (r, m) \<Rightarrow> Some (if r \<noteq> 0 then ACL_ERROR else ACL_NONE, set_spec w m)))"

definition tarpit :: "'h env \<Rightarrow> exp \<Rightarrow> 'h world \<Rightarrow> (acl_action_type \<times> 'h world) option" where
  "tarpit E e w =
     do {
       (r, w1) \<leftarrow> w_eval E e w;
       (case r of
          None \<Rightarrow> Some (ACL_ERROR, w1)
        | Some v \<Rightarrow>
            if v_type v \<noteq> VT_INT then Some (ACL_ERROR, w1)
            else do {
              delay \<leftarrow> as_int (v_data v);
              if delay \<le> 0 then Some (ACL_NONE, w1)
              else if spec_get (w_spec w1) ''milter_ctx'' = None then Some (ACL_ERROR, w1)
              else do {
                (early, w2) \<leftarrow> tarpit_loop E delay w1;
                (case early of Some a \<Rightarrow> Some (a, w2) | None \<Rightarrow> tarpit_store delay w2) } }) }"

text \<open>The callback of the symbol, for messages that were never delayed.\<close>

definition tarpit_delay :: "mailspec \<Rightarrow> int \<times> mailspec" where
  "tarpit_delay m =
     (case spec_set_new m VT_INT TARPIT_SYMBOL (Some (DInt 0)) (VF_KEEPNAME OR VF_COPYDATA) of
        (r, m1) \<Rightarrow> (if r \<noteq> 0 then -1 else 0, m1))"

subsection \<open>Modification of messages\<close>

datatype msgmod_mod = MO_ADD | MO_INS | MO_CHG | MO_DEL

datatype msgmod_target = MT_FROM | MT_RCPT | MT_HEADER | MT_BODY

datatype msgmod_callback_t =
    MM_add_header | MM_change_header | MM_delete_header | MM_insert_header | MM_change_from
  | MM_add_rcpt | MM_delete_rcpt | MM_change_body

record msgmod_t =
  mm_args :: "exp list"
  mm_callback :: msgmod_callback_t

text \<open>\<open>msgmod_get_target\<close>; an unknown word ends the parser.\<close>

definition msgmod_get_target :: "string \<Rightarrow> msgmod_target option" where
  "msgmod_get_target ident =
     map_of [(''from'', MT_FROM), (''rcpt'', MT_RCPT), (''header'', MT_HEADER), (''body'', MT_BODY)] (map tolower ident)"

fun msgmod_get_callback :: "msgmod_mod \<Rightarrow> msgmod_target \<Rightarrow> msgmod_callback_t option" where
  "msgmod_get_callback MO_ADD MT_RCPT = Some MM_add_rcpt"
| "msgmod_get_callback MO_ADD MT_HEADER = Some MM_add_header"
| "msgmod_get_callback MO_INS MT_HEADER = Some MM_insert_header"
| "msgmod_get_callback MO_CHG MT_FROM = Some MM_change_from"
| "msgmod_get_callback MO_CHG MT_HEADER = Some MM_change_header"
| "msgmod_get_callback MO_CHG MT_BODY = Some MM_change_body"
| "msgmod_get_callback MO_DEL MT_RCPT = Some MM_delete_rcpt"
| "msgmod_get_callback MO_DEL MT_HEADER = Some MM_delete_header"
| "msgmod_get_callback _ _ = None"

definition msgmod_create :: "msgmod_mod \<Rightarrow> msgmod_target \<Rightarrow> exp list \<Rightarrow> msgmod_t option" where
  "msgmod_create md target es =
     (case msgmod_get_callback md target of
        None \<Rightarrow> None
      | Some cb \<Rightarrow> Some \<lparr>mm_args = es, mm_callback = cb\<rparr>)"

text \<open>
  The data of an argument, a string or \<open>NULL\<close>; \<open>atol\<close> follows the pointer, and so does \<open>strlen\<close>.
\<close>

definition arg_text :: "var \<Rightarrow> string option option" where
  "arg_text v = (case v_data v of None \<Rightarrow> Some None | d \<Rightarrow> map_option Some (as_string d))"

definition call_ok :: "'h env \<Rightarrow> call \<Rightarrow> 'h world \<Rightarrow> (int \<times> 'h world) option" where
  "call_ok E c w = (let (r, w1) = ask E c w in Some (if r \<noteq> MI_SUCCESS then -1 else 0, w1))"

definition arg_index :: "string option list \<Rightarrow> int \<Rightarrow> int option" where
  "arg_index args deflt =
     (if length args < 3 then Some deflt else do { s \<leftarrow> args ! 2; Some (wrap32 (fst (strtol s))) })"

definition msgmod_callback :: "'h env \<Rightarrow> msgmod_callback_t \<Rightarrow> string option list \<Rightarrow> 'h world \<Rightarrow> (int \<times> 'h world) option" where
  "msgmod_callback E cb args w =
     (let argc = length args in
      case cb of
        MM_add_header \<Rightarrow>
          if argc \<noteq> 2 then Some (-1, w) else call_ok E (C_Addheader (args ! 0) (args ! 1)) w
      | MM_change_header \<Rightarrow>
          if argc < 2 \<or> argc > 3 then Some (-1, w)
          else do { index \<leftarrow> arg_index args 1; call_ok E (C_Chgheader (args ! 0) index (args ! 1)) w }
      | MM_delete_header \<Rightarrow>
          if argc \<noteq> 1 then Some (-1, w) else call_ok E (C_Chgheader (args ! 0) 1 None) w
      | MM_insert_header \<Rightarrow>
          if argc < 2 \<or> argc > 3 then Some (-1, w)
          else do { index \<leftarrow> arg_index args 0; call_ok E (C_Insheader index (args ! 0) (args ! 1)) w }
      | MM_change_from \<Rightarrow>
          if argc < 1 \<or> argc > 2 then Some (-1, w)
          else call_ok E (C_Chgfrom (args ! 0) (if argc = 2 then args ! 1 else None)) w
      | MM_add_rcpt \<Rightarrow>
          if argc < 1 \<or> argc > 2 then Some (-1, w)
          else call_ok E (if argc = 2 then C_Addrcpt_par (args ! 0) (args ! 1) else C_Addrcpt (args ! 0)) w
      | MM_delete_rcpt \<Rightarrow>
          if argc \<noteq> 1 then Some (-1, w) else call_ok E (C_Delrcpt (args ! 0)) w
      | MM_change_body \<Rightarrow>
          if argc \<noteq> 1 then Some (-1, w)
          else do { body \<leftarrow> args ! 0; call_ok E (C_Replacebody body (int (length body))) w })"

text \<open>
  The argument vector: strings stay where they are and are read when the callback runs, values of
  other types are cast at once.
\<close>

fun msgmod_args :: "'h env \<Rightarrow> exp list \<Rightarrow> 'h world \<Rightarrow> (vref list option \<times> 'h world) option" where
  "msgmod_args E [] w = Some (Some [], w)"
| "msgmod_args E (e # es) w =
     do {
       (r, st) \<leftarrow> exp_eval (e_x E (w_db w)) e (w_x w);
       let w1 = w\<lparr>w_x := st\<rparr>;
       (case r of
          None \<Rightarrow> Some (None, w1)
        | Some ref \<Rightarrow>
            do {
              v \<leftarrow> deref st ref;
              a \<leftarrow> (if v_type v = VT_STRING then Some (Some ref)
                    else do { c \<leftarrow> var_cast_copy (E_libc E w) VT_STRING v; Some (map_option Fresh c) });
              (case a of
                 None \<Rightarrow> Some (None, w1)
               | Some x \<Rightarrow>
                   do { (rs, w2) \<leftarrow> msgmod_args E es w1; Some (map_option (\<lambda>xs. x # xs) rs, w2) }) }) }"

definition msgmod :: "'h env \<Rightarrow> msgmod_t \<Rightarrow> 'h world \<Rightarrow> (acl_action_type \<times> 'h world) option" where
  "msgmod E mm w =
     (if spec_get (w_spec w) ''milter_ctx'' = None then None
      else do {
        (rs, w1) \<leftarrow> msgmod_args E (mm_args mm) w;
        (case rs of
           None \<Rightarrow> Some (ACL_ERROR, w1)
         | Some refs \<Rightarrow>
             do {
               vs \<leftarrow> those (map (deref (w_x w1)) refs);
               args \<leftarrow> those (map arg_text vs);
               (r, w2) \<leftarrow> msgmod_callback E (mm_callback mm) args w1;
               Some (if r \<noteq> 0 then ACL_ERROR else ACL_NONE, w2) }) })"

subsection \<open>The message as text (milter.c)\<close>

definition crlf :: string where
  "crlf = [CHR 0x0D, CHR 0x0A]"

text \<open>
  \<open>milter_dump_message\<close>: the headers, an empty line and the body, placed by their sizes. Reading
  behind a string, and bytes that were never written, are \<open>None\<close>.
\<close>

definition milter_dump_message :: "'h env \<Rightarrow> int \<Rightarrow> 'h world \<Rightarrow> ((int \<times> string) \<times> 'h world) option" where
  "milter_dump_message E bufsize w =
     do {
       (errors, ds, st) \<leftarrow> acl_symbol_dereference (e_x E (w_db w)) (w_x w)
         [''headers'', ''headers_size'', ''body'', ''body_size''];
       let w1 = w\<lparr>w_x := st\<rparr>;
       if errors \<noteq> 0 then Some ((-1, []), w1)
       else do {
         hsize \<leftarrow> as_int (ds ! 1);
         bsize \<leftarrow> as_int (ds ! 3);
         let total = wrap32 (hsize + 2 + bsize);
         if bufsize < total + 1 then Some ((-1, []), w1)
         else do {
           header \<leftarrow> as_string (ds ! 0);
           body \<leftarrow> (if bsize = 0 then Some [] else as_string (ds ! 2));
           if bsize < 0 \<or> int (length body) + 1 < bsize \<or> int (length header) < hsize \<or> hsize < 0 then None
           else Some ((total, take (nat hsize + 2) (header @ crlf) @ take (nat bsize) body), w1) } } }"

definition milter_message :: "'h env \<Rightarrow> 'h world \<Rightarrow> ((int \<times> string) \<times> 'h world) option" where
  "milter_message E w =
     (case spec_get (w_spec w) ''message_size'' of
        None \<Rightarrow> Some ((-1, []), w)
      | d \<Rightarrow> do { n \<leftarrow> as_int d; milter_dump_message E (wrap32 (n + 1)) w })"

subsection \<open>Pipes\<close>

definition pipe_socket :: "'h env \<Rightarrow> string \<Rightarrow> string \<Rightarrow> int \<Rightarrow> 'h world \<Rightarrow> acl_action_type \<times> 'h world" where
  "pipe_socket E dest message n w =
     (let (sock, w1) = ask E (C_Sock_connect dest) w in
      if sock = -1 then (ACL_ERROR, w1)
      else
        (let (r, w2) = ask E (C_Write message n) w1 in
         (if r = -1 then ACL_ERROR else ACL_NONE, w2)))"

definition pipe_exec :: "'h env \<Rightarrow> string \<Rightarrow> string \<Rightarrow> int \<Rightarrow> 'h world \<Rightarrow> acl_action_type \<times> 'h world" where
  "pipe_exec E dest message n w =
     (let (fp, w1) = ask E (C_Popen dest) w in
      if fp = 0 then (ACL_ERROR, w1)
      else
        (let (items, w2) = ask E (C_Fwrite message n) w1;
             (status, w3) = ask E C_Pclose w2 in
         (if items \<noteq> 1 \<or> status \<noteq> 0 then ACL_ERROR else ACL_NONE, w3)))"

definition pipe_action :: "'h env \<Rightarrow> exp \<Rightarrow> 'h world \<Rightarrow> (acl_action_type \<times> 'h world) option" where
  "pipe_action E e w =
     do {
       (r, w1) \<leftarrow> w_eval E e w;
       (case r of
          None \<Rightarrow> Some (ACL_ERROR, w1)
        | Some v \<Rightarrow>
            if v_type v \<noteq> VT_STRING then Some (ACL_ERROR, w1)
            else do {
              ((n, message), w2) \<leftarrow> milter_message E w1;
              if n = -1 then Some (ACL_ERROR, w2)
              else do {
                dest \<leftarrow> as_string (v_data v);
                Some (if take 5 dest = ''inet:'' \<or> take 5 dest = ''unix:'' then pipe_socket E dest message n w2
                      else pipe_exec E dest message n w2) } }) }"

subsection \<open>How long a tarpit takes\<close>

definition total_sleep :: "call list \<Rightarrow> int" where
  "total_sleep cs = (\<Sum>c \<leftarrow> cs. case c of C_Sleep n \<Rightarrow> n | _ \<Rightarrow> 0)"

lemma total_sleep_simps [simp]: "total_sleep [] = 0" "total_sleep (C_Sleep n # cs) = n + total_sleep cs"
  "total_sleep (C_Progress # cs) = total_sleep cs" "total_sleep (C_Running # cs) = total_sleep cs"
  "total_sleep (cs @ ds) = total_sleep cs + total_sleep ds"
  by (simp_all add: total_sleep_def)

text \<open>Nobody interrupts: sleeps last, the server is running and the connection stays up.\<close>

definition undisturbed :: "'h env \<Rightarrow> bool" where
  "undisturbed E \<longleftrightarrow> (\<forall>cs. (\<forall>n. e_answer E cs (C_Sleep n) = 0) \<and> e_answer E cs C_Running \<noteq> 0 \<and>
     e_answer E cs C_Progress = MI_SUCCESS)"

lemma nap_undisturbed: "undisturbed E \<Longrightarrow> nap_loop E n w = Some (w\<lparr>w_calls := C_Sleep n # w_calls w\<rparr>)"
  by (subst nap_loop.simps) (simp add: ask_def undisturbed_def wrap32_def)

text \<open>
  The calls of a tarpit that sleeps the given numbers of seconds, the latest first: between two sleeps
  it checks that the program is still running and reports progress to the mail server.
\<close>

fun naps :: "int list \<Rightarrow> call list" where
  "naps [] = []"
| "naps (k # ks) = (if ks = [] then [C_Sleep k] else naps ks @ [C_Progress, C_Running, C_Sleep k])"

lemma total_sleep_naps: "total_sleep (naps ks) = sum_list ks"
  by (induction ks) auto

lemma tarpit_loop_sleeps:
  assumes "undisturbed E" and "0 < cf_tarpit_progress_interval E" and "cf_tarpit_progress_interval E < 2 ^ 31"
    and "0 < r" and "r < 2 ^ 63"
  shows "\<exists>ks. tarpit_loop E r w = Some (None, w\<lparr>w_calls := naps ks @ w_calls w\<rparr>) \<and> sum_list ks = r \<and> ks \<noteq> [] \<and>
    (\<forall>k \<in> set (butlast ks). k = cf_tarpit_progress_interval E) \<and> (\<forall>k \<in> set ks. 0 < k \<and> k \<le> cf_tarpit_progress_interval E)"
  using assms(4,5)
proof (induction "nat r" arbitrary: r w rule: less_induct)
  case less
  let ?i = "cf_tarpit_progress_interval E"
  define k where "k = min r ?i"
  have n: "wrap32 (min r ?i) = k" "wrap64 (r - k) = r - k" "0 < k" "k \<le> r" "k \<le> ?i"
    using less.prems assms(2,3) by (auto simp: k_def i32_def i64_def intro!: wrap32_id wrap64_id)
  let ?w = "w\<lparr>w_calls := C_Progress # C_Running # C_Sleep k # w_calls w\<rparr>"
  have step: "tarpit_loop E r w =
    (if r - k \<le> 0 then Some (None, w\<lparr>w_calls := C_Sleep k # w_calls w\<rparr>) else tarpit_loop E (r - k) ?w)"
    using assms(1) by (subst tarpit_loop.simps) (simp add: n nap_undisturbed ask_def undisturbed_def Let_def)
  show ?case
  proof (cases "r - k \<le> 0")
    case True
    with step n show ?thesis by (intro exI [of _ "[k]"]) auto
  next
    case False
    then have "k = ?i" by (simp add: k_def min_def split: if_split_asm)
    from False less.hyps [of "r - k" ?w] less.prems n obtain ks where
      "tarpit_loop E (r - k) ?w = Some (None, ?w\<lparr>w_calls := naps ks @ w_calls ?w\<rparr>)" "sum_list ks = r - k" "ks \<noteq> []"
      "\<forall>k \<in> set (butlast ks). k = ?i" "\<forall>m \<in> set ks. 0 < m \<and> m \<le> ?i" by auto
    with step False n \<open>k = ?i\<close> show ?thesis by (intro exI [of _ "k # ks"]) auto
  qed
qed

text \<open>With an interval of zero the loop makes no progress and never ends.\<close>

lemma tarpit_loop_hangs:
  assumes "undisturbed E" and "cf_tarpit_progress_interval E = 0" and "0 < r" and "r < 2 ^ 63"
  shows "tarpit_loop E r w = None"
proof (rule ccontr)
  assume "tarpit_loop E r w \<noteq> None"
  then obtain p where "tarpit_loop E r w = Some p" by auto
  then have "\<not> (undisturbed E \<and> cf_tarpit_progress_interval E = 0 \<and> 0 < r \<and> r < 2 ^ 63)"
  proof (rule tarpit_loop.raw_induct [rotated])
    fix f :: "'a env \<Rightarrow> int \<Rightarrow> 'a world \<Rightarrow> (acl_action_type option \<times> 'a world) option" and E :: "'a env" and r w p
    assume IH: "\<And>E r w p. f E r w = Some p \<Longrightarrow> \<not> (undisturbed E \<and> cf_tarpit_progress_interval E = 0 \<and> 0 < r \<and> r < 2 ^ 63)"
      and body: "(let nap = wrap32 (min r (cf_tarpit_progress_interval E)); remaining1 = wrap64 (r - nap) in
        Option.bind (nap_loop E nap w) (\<lambda>w1. if remaining1 \<le> 0 then Some (None, w1)
          else (let (running, w2) = ask E C_Running w1 in if running = 0 then Some (Some ACL_ERROR, w2)
            else (let (r, w3) = ask E C_Progress w2 in if r \<noteq> MI_SUCCESS then Some (Some ACL_TEMPFAIL, w3)
              else f E remaining1 w3)))) = Some p"
    show "\<not> (undisturbed E \<and> cf_tarpit_progress_interval E = 0 \<and> 0 < r \<and> r < 2 ^ 63)"
    proof
      assume q: "undisturbed E \<and> cf_tarpit_progress_interval E = 0 \<and> 0 < r \<and> r < 2 ^ 63"
      then have "wrap64 r = r" by (auto simp: i64_def intro: wrap64_id)
      with q body have "\<exists>w'. f E r w' = Some p"
        by (auto simp: Let_def nap_undisturbed ask_def undisturbed_def wrap32_def min_def)
      with IH q show False by blast
    qed
  qed
  with assms show False by simp
qed

text \<open>
  C30: A tarpit of \<open>d\<close> seconds ends when the progress interval is positive. Undisturbed, it sleeps
  \<open>d\<close> seconds in naps of the interval, the last of which may be shorter; between every two naps it checks
  that the program is still running and reports progress to the mail server, and it makes no other call. Then it lets the rules go
  on, and adds \<open>d\<close> to the attribute that counts the delay.
\<close>

theorem tarpit_sleeps:
  assumes "undisturbed E" and "0 < cf_tarpit_progress_interval E" and "cf_tarpit_progress_interval E < 2 ^ 31"
    and "w_eval E e w = Some (Some v, w1)" and "v_type v = VT_INT" and "v_data v = Some (DInt d)"
    and "0 < d" and "d < 2 ^ 63" and "spec_get (w_spec w1) ''milter_ctx'' \<noteq> None"
    and "spec_get (w_spec w1) TARPIT_SYMBOL = None \<or> (\<exists>s. spec_get (w_spec w1) TARPIT_SYMBOL = Some (DInt s))"
  shows "\<exists>w' ks. tarpit E e w = Some (ACL_NONE, w') \<and> w_calls w' = naps ks @ w_calls w1 \<and> sum_list ks = d \<and> ks \<noteq> [] \<and>
    (\<forall>k \<in> set (butlast ks). k = cf_tarpit_progress_interval E) \<and> (\<forall>k \<in> set ks. 0 < k \<and> k \<le> cf_tarpit_progress_interval E) \<and>
    spec_get (w_spec w') TARPIT_SYMBOL =
      Some (DInt (case spec_get (w_spec w1) TARPIT_SYMBOL of Some (DInt s) \<Rightarrow> wrap64 (s + d) | _ \<Rightarrow> d))"
proof -
  obtain ks where cs: "tarpit_loop E d w1 = Some (None, w1\<lparr>w_calls := naps ks @ w_calls w1\<rparr>)" "sum_list ks = d" "ks \<noteq> []"
    "\<forall>k \<in> set (butlast ks). k = cf_tarpit_progress_interval E" "\<forall>k \<in> set ks. 0 < k \<and> k \<le> cf_tarpit_progress_interval E"
    using tarpit_loop_sleeps [OF assms(1-3,7,8)] by blast
  let ?w = "w1\<lparr>w_calls := naps ks @ w_calls w1\<rparr>"
  have t: "tarpit E e w = tarpit_store d ?w"
    using assms cs(1) by (auto simp: tarpit_def as_defs)
  have "\<exists>w'. tarpit_store d ?w = Some (ACL_NONE, w') \<and> w_calls w' = w_calls ?w \<and>
    spec_get (w_spec w') TARPIT_SYMBOL =
      Some (DInt (case spec_get (w_spec w1) TARPIT_SYMBOL of Some (DInt s) \<Rightarrow> wrap64 (s + d) | _ \<Rightarrow> d))"
  proof (cases "spec_get (w_spec w1) TARPIT_SYMBOL")
    case None
    then show ?thesis
      by (cases "w_spec w1 TARPIT_SYMBOL" rule: option.exhaust)
        (auto simp: tarpit_store_def spec_get_def set_spec_def split: var.splits)
  next
    case (Some x)
    with assms(10) obtain s where "x = DInt s" by auto
    with Some obtain v0 where "w_spec w1 TARPIT_SYMBOL = Some v0" "v_data v0 = Some (DInt s)"
      by (auto simp: spec_get_def split: option.split_asm)
    then obtain t n f where "w_spec w1 TARPIT_SYMBOL = Some (Var t n (Some (DInt s)) f)" by (cases v0) auto
    then show ?thesis by (simp add: tarpit_store_def as_defs spec_get_def set_spec_def)
  qed
  with t cs(2-) show ?thesis by auto
qed

text \<open>An environment without a database, in which the outside does all it is asked for.\<close>

definition quiet_env :: "unit env" where
  "quiet_env = \<lparr>e_x = (\<lambda>_. demo_env),
     e_driver = \<lparr>dd_get = (\<lambda>_ _. Some (0, None)), dd_set = (\<lambda>_ _. Some (0, ())), dd_del = (\<lambda>_ _. Some (0, ()))\<rparr>,
     e_answer = (\<lambda>_ c. if c = C_Running then 1 else 0), cf_acl_log_level = 6, cf_greylist_deadline = 3600,
     cf_greylist_visa = 7200, cf_tarpit_progress_interval = 10, cf_dbt_fatal_errors = False\<rparr>"

definition connected_world :: "unit world" where
  "connected_world = \<lparr>w_x = demo_state\<lparr>xs_spec := [''milter_ctx'' \<mapsto> Var VT_POINTER (Some ''milter_ctx'') (Some (DPointer 1)) 0]\<rparr>,
     w_db = (), w_calls = []\<rparr>"

theorem tarpit_sleeps_witness:
  "\<exists>w'. tarpit quiet_env (EX_CONSTANT 26) connected_world = Some (ACL_NONE, w') \<and> total_sleep (w_calls w') = 25 \<and>
    spec_get (w_spec w') TARPIT_SYMBOL = Some (DInt 25)"
proof -
  have q: "undisturbed quiet_env" by (simp add: undisturbed_def quiet_env_def MI_SUCCESS_def)
  have ev: "w_eval quiet_env (EX_CONSTANT 26) connected_world =
    Some (Some (Var VT_INT None (Some (DInt 25)) VF_KEEP), connected_world)"
    by (simp add: w_eval_def deref_opt_def deref_def connected_world_def demo_state_def)
  have sp: "spec_get (w_spec connected_world) ''milter_ctx'' \<noteq> None" "spec_get (w_spec connected_world) TARPIT_SYMBOL = None"
    "w_calls connected_world = []"
    by (simp_all add: connected_world_def spec_get_def TARPIT_SYMBOL_def)
  have i: "0 < cf_tarpit_progress_interval quiet_env" "cf_tarpit_progress_interval quiet_env < 2 ^ 31"
    by (simp_all add: quiet_env_def)
  from tarpit_sleeps [OF q i ev _ _ _ _ sp(1)] sp show ?thesis by (auto simp: total_sleep_naps)
qed

end
