(* ===== verification/Acl.thy ===== *)
theory Acl
  imports Greylist Actions
begin

section \<open>Rules (acl.c)\<close>

text \<open>
  \<open>src/src/acl.c\<close>: tables of rules, their actions and the interpreter \<open>acl\<close>. A table is found by
  its name; each rule has a condition and an action, and an action may carry a reply for the mail
  server. Tables can jump to and call other tables, to a depth of \<open>MAX_RECURSION\<close>.
\<close>

record acl_reply =
  ar_code :: "exp option"
  ar_xcode :: "exp option"
  ar_message :: "exp option"

record acl_log_t =
  al_message :: exp
  al_level :: "exp option"

text \<open>The data pointer of an action, by the type of what it points to.\<close>

datatype aa_data =
    AD_NULL
  | AD_table string
  | AD_exp exp
  | AD_log acl_log_t
  | AD_greylist greylist
  | AD_msgmod msgmod_t

record acl_action =
  aa_type :: acl_action_type
  aa_data :: aa_data
  aa_reply :: "acl_reply option"
  aa_filename :: string
  aa_line :: int

record acl_rule =
  ar_expression :: "exp option"
  ar_action :: acl_action

type_synonym acl_tables = "string \<rightharpoonup> acl_rule list"

definition MAX_RECURSION :: nat where
  "MAX_RECURSION = 256"

definition ACL_LOGLEN :: int where
  "ACL_LOGLEN = 1024"

definition acl_action_create :: "acl_action_type \<Rightarrow> aa_data \<Rightarrow> string \<Rightarrow> int \<Rightarrow> acl_action" where
  "acl_action_create t d filename line =
     \<lparr>aa_type = t, aa_data = d, aa_reply = None, aa_filename = filename, aa_line = line\<rparr>"

definition acl_action_reply :: "acl_action \<Rightarrow> acl_reply \<Rightarrow> acl_action" where
  "acl_action_reply aa ar = aa\<lparr>aa_reply := Some ar\<rparr>"

text \<open>\<open>acl_append\<close>: the table is created with its first rule.\<close>

definition acl_append :: "acl_tables \<Rightarrow> string \<Rightarrow> exp option \<Rightarrow> acl_action \<Rightarrow> acl_tables" where
  "acl_append tables table e aa =
     tables(table \<mapsto> (case tables table of None \<Rightarrow> [] | Some rules \<Rightarrow> rules) @
       [\<lparr>ar_expression = e, ar_action = aa\<rparr>])"

text \<open>
  \<open>acl_action_handlers\<close>: the stages at which an action is allowed. There is no entry for the error.
\<close>

fun ah_stages :: "acl_action_type \<Rightarrow> int option" where
  "ah_stages ACL_ERROR = None"
| "ah_stages ACL_REJECT = Some MS_ANY"
| "ah_stages ACL_DISCARD = Some MS_ANY"
| "ah_stages ACL_ACCEPT = Some MS_ANY"
| "ah_stages ACL_TEMPFAIL = Some MS_ANY"
| "ah_stages ACL_GREYLIST = Some MS_OFF_ENVRCPT"
| "ah_stages ACL_TARPIT = Some MS_ANY"
| "ah_stages ACL_MOD = Some MS_EOM"
| "ah_stages ACL_PIPE = Some MS_EOM"
| "ah_stages _ = Some (MS_ANY OR MS_INIT)"

fun acl_stati :: "acl_action_type \<Rightarrow> string option" where
  "acl_stati ACL_ERROR = None"
| "acl_stati ACL_NULL = Some ''NULL''"
| "acl_stati ACL_NONE = Some ''NONE''"
| "acl_stati ACL_RETURN = Some ''RETURN''"
| "acl_stati ACL_CONTINUE = Some ''CONTINUE''"
| "acl_stati ACL_REJECT = Some ''REJECT''"
| "acl_stati ACL_DISCARD = Some ''DISCARD''"
| "acl_stati ACL_ACCEPT = Some ''ACCEPT''"
| "acl_stati ACL_TEMPFAIL = Some ''TEMPFAIL''"
| "acl_stati ACL_JUMP = Some ''JUMP''"
| "acl_stati ACL_CALL = Some ''CALL''"
| "acl_stati ACL_SET = Some ''SET''"
| "acl_stati ACL_LOG = Some ''LOG''"
| "acl_stati ACL_GREYLIST = Some ''GREYLIST''"
| "acl_stati ACL_TARPIT = Some ''TARPIT''"
| "acl_stati ACL_MOD = Some ''MOD''"
| "acl_stati ACL_PIPE = Some ''PIPE''"

subsection \<open>Actions\<close>

definition acl_log :: "'h env \<Rightarrow> acl_log_t \<Rightarrow> 'h world \<Rightarrow> (acl_action_type \<times> 'h world) option" where
  "acl_log E al w =
     do {
       (level, w1) \<leftarrow>
         (case al_level al of
            None \<Rightarrow> Some (Some (cf_acl_log_level E), w)
          | Some e \<Rightarrow>
              do {
                (r, w1) \<leftarrow> w_eval E e w;
                (case r of
                   None \<Rightarrow> Some (None, w1)
                 | Some v \<Rightarrow> do { i \<leftarrow> var_intval (E_libc E w) v; Some (Some i, w1) }) });
       (case level of
          None \<Rightarrow> Some (ACL_ERROR, w1)
        | Some l \<Rightarrow>
            do {
              (r, w2) \<leftarrow> w_eval E (al_message al) w1;
              (case r of
                 None \<Rightarrow> Some (ACL_ERROR, w2)
               | Some v \<Rightarrow>
                   do {
                     message \<leftarrow>
                       (if v_type v = VT_STRING then
                          (case v_data v of None \<Rightarrow> Some (Some None) | d \<Rightarrow> map_option (Some \<circ> Some) (as_string d))
                        else do {
                          (n, text) \<leftarrow> var_dump_data (E_libc E w) v ACL_LOGLEN;
                          Some (if n = -1 then None else Some (Some text)) });
                     Some (case message of
                             None \<Rightarrow> (ACL_ERROR, w2)
                           | Some m \<Rightarrow> (ACL_NONE, snd (ask E (C_Log l m) w2))) }) }) }"

definition acl_set :: "'h env \<Rightarrow> exp \<Rightarrow> 'h world \<Rightarrow> (acl_action_type \<times> 'h world) option" where
  "acl_set E e w = do { (r, w1) \<leftarrow> w_eval E e w; Some (if r = None then ACL_ERROR else ACL_NONE, w1) }"

subsection \<open>What matched\<close>

definition acl_match ::
  "mailspec \<Rightarrow> int \<Rightarrow> int \<Rightarrow> int option \<Rightarrow> string option \<Rightarrow> int option \<Rightarrow> string option \<Rightarrow> mailspec option" where
  "acl_match m matched stage rule filename line response =
     (let set0 = snd (spec_setv m
        [(VT_INT, ''acl_matched'', Some (DInt matched), VF_KEEPNAME OR VF_COPYDATA),
         (VT_INT, ''acl_stage_matched'', Some (DInt stage), VF_KEEPNAME OR VF_COPYDATA),
         (VT_INT, ''acl_rule'', map_option DInt rule, VF_KEEPNAME OR VF_COPYDATA),
         (VT_STRING, ''acl_filename'', map_option DString filename, VF_KEEP),
         (VT_INT, ''acl_line'', map_option DInt line, VF_KEEPNAME OR VF_COPYDATA),
         (VT_STRING, ''acl_response'', map_option DString response, VF_KEEP)]) in
      case (spec_get m ''acl_matched'', spec_get m ''acl_stage_matched'') of
        (Some a, Some s) \<Rightarrow>
          do {
            stage_matched \<leftarrow> as_int (Some s);
            if stage_matched < stage then Some set0
            else do { acl_matched \<leftarrow> as_int (Some a); Some (if acl_matched \<noteq> 0 then m else set0) } }
      | _ \<Rightarrow> Some set0)"

subsection \<open>Replies\<close>

definition acl_eval_reply :: "'h env \<Rightarrow> exp option \<Rightarrow> 'h world \<Rightarrow> (string option \<times> 'h world) option" where
  "acl_eval_reply E e w =
     (case e of
        None \<Rightarrow> Some (None, w)
      | Some x \<Rightarrow>
          do {
            (r, w1) \<leftarrow> w_eval E x w;
            (case r of
               None \<Rightarrow> Some (None, w1)
             | Some v \<Rightarrow>
                 if v_data v = None then Some (None, w1)
                 else if v_type v = VT_STRING then do { s \<leftarrow> as_string (v_data v); Some (Some s, w1) }
                 else do {
                   c \<leftarrow> var_cast_copy (E_libc E w) VT_STRING v;
                   (case c of
                      None \<Rightarrow> Some (None, w1)
                    | Some x \<Rightarrow> do { s \<leftarrow> as_string (v_data x); Some (Some s, w1) }) }) })"

definition milter_set_reply ::
  "'h env \<Rightarrow> string \<Rightarrow> string option \<Rightarrow> string \<Rightarrow> 'h world \<Rightarrow> int \<times> 'h world" where
  "milter_set_reply E code xcode message w =
     (if spec_get (w_spec w) ''milter_ctx'' = None then (-1, w)
      else
        (let (r, w1) = ask E (C_Setreply code xcode message) w in
         (if r \<noteq> MI_SUCCESS then -1 else 0, w1)))"

text \<open>The class of reply codes an action needs; the others ignore the reply.\<close>

fun reply_class :: "acl_action_type \<Rightarrow> char option" where
  "reply_class ACL_REJECT = Some (CHR ''5'')"
| "reply_class ACL_TEMPFAIL = Some (CHR ''4'')"
| "reply_class ACL_GREYLIST = Some (CHR ''4'')"
| "reply_class _ = None"

definition acl_set_reply :: "'h env \<Rightarrow> acl_reply \<Rightarrow> acl_action_type \<Rightarrow> 'h world \<Rightarrow> (int \<times> 'h world) option" where
  "acl_set_reply E ar t w =
     do {
       (c, w1) \<leftarrow> acl_eval_reply E (ar_code ar) w;
       (case c of
          None \<Rightarrow> Some (-1, w1)
        | Some code \<Rightarrow>
            (case reply_class t of
               None \<Rightarrow> Some (0, w1)
             | Some cls \<Rightarrow>
                 if code = [] \<or> hd code \<noteq> cls then Some (-1, w1)
                 else do {
                   (m, w2) \<leftarrow> acl_eval_reply E (ar_message ar) w1;
                   (case m of
                      None \<Rightarrow> Some (-1, w2)
                    | Some message \<Rightarrow>
                        if ar_xcode ar = None then Some (milter_set_reply E code None message w2)
                        else do {
                          (x, w3) \<leftarrow> acl_eval_reply E (ar_xcode ar) w2;
                          Some (case x of
                                  None \<Rightarrow> (-1, w3)
                                | Some xcode \<Rightarrow> milter_set_reply E code (Some xcode) message w3) }) })) }"

subsection \<open>The interpreter\<close>

text \<open>The handlers that do not evaluate another table; \<open>None\<close> when the data is of another type.\<close>

definition plain_handler ::
  "'h env \<Rightarrow> int \<Rightarrow> acl_action_type \<Rightarrow> aa_data \<Rightarrow> 'h world \<Rightarrow> (acl_action_type \<times> 'h world) option" where
  "plain_handler E stage t d w =
     (case t of
        ACL_SET \<Rightarrow> (case d of AD_exp e \<Rightarrow> acl_set E e w | _ \<Rightarrow> None)
      | ACL_LOG \<Rightarrow> (case d of AD_log al \<Rightarrow> acl_log E al w | _ \<Rightarrow> None)
      | ACL_GREYLIST \<Rightarrow> (case d of AD_greylist gl \<Rightarrow> greylist_action E stage gl w | _ \<Rightarrow> None)
      | ACL_TARPIT \<Rightarrow> (case d of AD_exp e \<Rightarrow> tarpit E e w | _ \<Rightarrow> None)
      | ACL_MOD \<Rightarrow> (case d of AD_msgmod mm \<Rightarrow> msgmod E mm w | _ \<Rightarrow> None)
      | ACL_PIPE \<Rightarrow> (case d of AD_exp e \<Rightarrow> pipe_action E e w | _ \<Rightarrow> None)
      | _ \<Rightarrow> Some (t, w))"

text \<open>
  What \<open>acl_jump\<close> makes of the answer of the table it jumps to: it never comes back. \<open>acl_call\<close>
  returns the answer as it is.
\<close>

definition acl_jump :: "acl_action_type \<Rightarrow> acl_action_type" where
  "acl_jump a = (if a = ACL_NONE then ACL_CONTINUE else a)"

text \<open>A rule with a decision: the reply is set, the match recorded.\<close>

definition acl_decide ::
  "'h env \<Rightarrow> int \<Rightarrow> nat \<Rightarrow> acl_action \<Rightarrow> acl_action_type \<Rightarrow> 'h world \<Rightarrow> (acl_action_type \<times> 'h world) option" where
  "acl_decide E stage i aa response w =
     do {
       (r, w1) \<leftarrow> (case aa_reply aa of None \<Rightarrow> Some (0, w) | Some ar \<Rightarrow> acl_set_reply E ar response w);
       if r \<noteq> 0 then Some (ACL_ERROR, w1)
       else do {
         name \<leftarrow> acl_stati response;
         m \<leftarrow> acl_match (w_spec w1) 1 stage (Some (int i)) (Some (aa_filename aa)) (Some (aa_line aa)) (Some name);
         Some (response, set_spec w1 m) } }"

function acl :: "'h env \<Rightarrow> acl_tables \<Rightarrow> int \<Rightarrow> string \<Rightarrow> nat \<Rightarrow> 'h world \<Rightarrow> (acl_action_type \<times> 'h world) option"
  and acl_rules ::
    "'h env \<Rightarrow> acl_tables \<Rightarrow> int \<Rightarrow> nat \<Rightarrow> nat \<Rightarrow> acl_rule list \<Rightarrow> 'h world \<Rightarrow> (acl_action_type \<times> 'h world) option" where
  "acl E tables stage stagename depth w =
     (if Suc depth \<ge> MAX_RECURSION then Some (ACL_ERROR, w)
      else
        (case tables stagename of
           None \<Rightarrow> Some (ACL_NONE, w)
         | Some rules \<Rightarrow> acl_rules E tables stage (Suc depth) 1 rules w))"
| "acl_rules E tables stage depth i [] w = Some (ACL_NONE, w)"
| "acl_rules E tables stage depth i (ar # rules) w =
     do {
       (t, w1) \<leftarrow> w_is_true E (ar_expression ar) w;
       if t = 0 then acl_rules E tables stage depth (Suc i) rules w1
       else if t = -1 then Some (ACL_ERROR, w1)
       else
         (let aa = ar_action ar in
          do {
            stages \<leftarrow> ah_stages (aa_type aa);
            if stages AND stage = 0 then Some (ACL_ERROR, w1)
            else do {
              (response, w2) \<leftarrow>
                (if aa_type aa = ACL_JUMP \<or> aa_type aa = ACL_CALL then
                   (case aa_data aa of
                      AD_table table \<Rightarrow>
                        do {
                          (a, w2) \<leftarrow> acl E tables stage table depth w1;
                          Some (if aa_type aa = ACL_JUMP then acl_jump a else a, w2) }
                    | _ \<Rightarrow> None)
                 else plain_handler E stage (aa_type aa) (aa_data aa) w1);
              if response = ACL_NONE then acl_rules E tables stage depth (Suc i) rules w2
              else if response = ACL_RETURN then Some (ACL_NONE, w2)
              else if response = ACL_ERROR then Some (ACL_ERROR, w2)
              else acl_decide E stage i aa response w2 } }) }"
  by pat_completeness auto
termination
  by (relation "measures [\<lambda>x. case x of Inl (E, tables, stage, name, depth, w) \<Rightarrow> 2 * (256 - depth)
      | Inr (E, tables, stage, depth, i, rules, w) \<Rightarrow> 2 * (256 - depth) + 1,
    \<lambda>x. case x of Inl _ \<Rightarrow> 0 | Inr (E, tables, stage, depth, i, rules, w) \<Rightarrow> length rules]")
    (auto simp: MAX_RECURSION_def)

declare acl.simps [simp del] acl_rules.simps [simp del]

subsection \<open>What the rules mean\<close>

text \<open>
  The rules as a big-step semantics, without a limit on the nesting; the last argument is the
  nesting that was needed. \<open>does\<close> is the effect of the action of one rule.
\<close>

definition is_call :: "acl_action \<Rightarrow> bool" where
  "is_call aa \<longleftrightarrow> aa_type aa = ACL_JUMP \<or> aa_type aa = ACL_CALL"

definition allowed :: "int \<Rightarrow> acl_action \<Rightarrow> bool" where
  "allowed stage aa \<longleftrightarrow> (\<exists>stages. ah_stages (aa_type aa) = Some stages \<and> stages AND stage \<noteq> 0)"

inductive runs :: "'h env \<Rightarrow> acl_tables \<Rightarrow> int \<Rightarrow> string \<Rightarrow> 'h world \<Rightarrow> acl_action_type \<Rightarrow> 'h world \<Rightarrow> nat \<Rightarrow> bool"
  and runs_rules ::
    "'h env \<Rightarrow> acl_tables \<Rightarrow> int \<Rightarrow> nat \<Rightarrow> acl_rule list \<Rightarrow> 'h world \<Rightarrow> acl_action_type \<Rightarrow> 'h world \<Rightarrow> nat \<Rightarrow> bool"
  and does :: "'h env \<Rightarrow> acl_tables \<Rightarrow> int \<Rightarrow> acl_action \<Rightarrow> 'h world \<Rightarrow> acl_action_type \<Rightarrow> 'h world \<Rightarrow> nat \<Rightarrow> bool"
  for E tables stage where
  no_table: "tables name = None \<Longrightarrow> runs E tables stage name w ACL_NONE w 1"
| table: "tables name = Some rules \<Longrightarrow> runs_rules E tables stage 1 rules w a w' n \<Longrightarrow>
    runs E tables stage name w a w' (Suc n)"
| at_end: "runs_rules E tables stage i [] w ACL_NONE w 0"
| no_match: "w_is_true E (ar_expression ar) w = Some (0, w1) \<Longrightarrow> runs_rules E tables stage (Suc i) rules w1 a w' n \<Longrightarrow>
    runs_rules E tables stage i (ar # rules) w a w' n"
| goes_on: "w_is_true E (ar_expression ar) w = Some (t, w1) \<Longrightarrow> t \<notin> {0, -1} \<Longrightarrow> allowed stage (ar_action ar) \<Longrightarrow>
    does E tables stage (ar_action ar) w1 ACL_NONE w2 k \<Longrightarrow> runs_rules E tables stage (Suc i) rules w2 a w' n \<Longrightarrow>
    runs_rules E tables stage i (ar # rules) w a w' (max k n)"
| returns: "w_is_true E (ar_expression ar) w = Some (t, w1) \<Longrightarrow> t \<notin> {0, -1} \<Longrightarrow> allowed stage (ar_action ar) \<Longrightarrow>
    does E tables stage (ar_action ar) w1 ACL_RETURN w2 k \<Longrightarrow>
    runs_rules E tables stage i (ar # rules) w ACL_NONE w2 k"
| decides: "w_is_true E (ar_expression ar) w = Some (t, w1) \<Longrightarrow> t \<notin> {0, -1} \<Longrightarrow> allowed stage (ar_action ar) \<Longrightarrow>
    does E tables stage (ar_action ar) w1 response w2 k \<Longrightarrow> response \<notin> {ACL_NONE, ACL_RETURN, ACL_ERROR} \<Longrightarrow>
    acl_decide E stage i (ar_action ar) response w2 = Some (a, w') \<Longrightarrow>
    runs_rules E tables stage i (ar # rules) w a w' k"
| plain: "\<not> is_call aa \<Longrightarrow> plain_handler E stage (aa_type aa) (aa_data aa) w = Some (a, w') \<Longrightarrow>
    does E tables stage aa w a w' 0"
| jumps: "aa_type aa = ACL_JUMP \<Longrightarrow> aa_data aa = AD_table name \<Longrightarrow> runs E tables stage name w a w' n \<Longrightarrow>
    does E tables stage aa w (if a = ACL_NONE then ACL_CONTINUE else a) w' n"
| calls: "aa_type aa = ACL_CALL \<Longrightarrow> aa_data aa = AD_table name \<Longrightarrow> runs E tables stage name w a w' n \<Longrightarrow>
    does E tables stage aa w a w' n"

text \<open>The semantics determines the answer and the state after it.\<close>

inductive_cases runs_E: "runs E tables stage name w a w' n"
inductive_cases rules_NilE: "runs_rules E tables stage i [] w a w' n"
inductive_cases rules_ConsE: "runs_rules E tables stage i (ar # rules) w a w' n"
inductive_cases does_E: "does E tables stage aa w a w' n"

lemma runs_deterministic:
  "runs E tables stage name w a w' n \<Longrightarrow> \<forall>b v m. runs E tables stage name w b v m \<longrightarrow> b = a \<and> v = w'"
  "runs_rules E tables stage i rules w a w' n \<Longrightarrow> \<forall>b v m. runs_rules E tables stage i rules w b v m \<longrightarrow> b = a \<and> v = w'"
  "does E tables stage aa w a w' n \<Longrightarrow> \<forall>b v m. does E tables stage aa w b v m \<longrightarrow> b = a \<and> v = w'"
proof (induction rule: runs_runs_rules_does.inducts)
  case (no_table name w)
  then show ?case by (auto elim: runs_E)
next
  case (table name rules w a w' n)
  show ?case
  proof (intro allI impI)
    fix b v m
    assume "runs E tables stage name w b v m"
    then show "b = a \<and> v = w'"
      by (rule runs_E) (use table in fastforce)+
  qed
next
  case (at_end i w)
  then show ?case by (auto elim: rules_NilE)
next
  case (no_match ar w w1 i rules a w' n)
  show ?case
  proof (intro allI impI)
    fix b v m
    assume "runs_rules E tables stage i (ar # rules) w b v m"
    then show "b = a \<and> v = w'"
      by (rule rules_ConsE) (use no_match in fastforce)+
  qed
next
  case (goes_on ar w t w1 w2 k i rules a w' n)
  show ?case
  proof (intro allI impI)
    fix b v m
    assume "runs_rules E tables stage i (ar # rules) w b v m"
    then show "b = a \<and> v = w'"
      by (rule rules_ConsE) (use goes_on in fastforce)+
  qed
next
  case (returns ar w t w1 w2 k i rules)
  show ?case
  proof (intro allI impI)
    fix b v m
    assume "runs_rules E tables stage i (ar # rules) w b v m"
    then show "b = ACL_NONE \<and> v = w2"
      by (rule rules_ConsE) (use returns in fastforce)+
  qed
next
  case (decides ar w t w1 response w2 k i a w' rules)
  show ?case
  proof (intro allI impI)
    fix b v m
    assume "runs_rules E tables stage i (ar # rules) w b v m"
    then show "b = a \<and> v = w'"
      by (rule rules_ConsE) (use decides in fastforce)+
  qed
next
  case (plain aa w a w')
  then show ?case by (auto simp: is_call_def elim!: does_E)
next
  case (jumps aa name w a w' n)
  show ?case
  proof (intro allI impI)
    fix b v m
    assume "does E tables stage aa w b v m"
    then show "b = (if a = ACL_NONE then ACL_CONTINUE else a) \<and> v = w'"
      by (rule does_E) (use jumps in \<open>auto simp: is_call_def\<close>)
  qed
next
  case (calls aa name w a w' n)
  show ?case
  proof (intro allI impI)
    fix b v m
    assume "does E tables stage aa w b v m"
    then show "b = a \<and> v = w'"
      by (rule does_E) (use calls in \<open>auto simp: is_call_def\<close>)
  qed
qed

text \<open>The handler of a rule in the interpreter.\<close>

definition handle ::
  "'h env \<Rightarrow> acl_tables \<Rightarrow> int \<Rightarrow> nat \<Rightarrow> acl_action \<Rightarrow> 'h world \<Rightarrow> (acl_action_type \<times> 'h world) option" where
  "handle E tables stage depth aa w =
     (if is_call aa then
        (case aa_data aa of
           AD_table table \<Rightarrow>
             do {
               (a, w2) \<leftarrow> acl E tables stage table depth w;
               Some (if aa_type aa = ACL_JUMP then acl_jump a else a, w2) }
         | _ \<Rightarrow> None)
      else plain_handler E stage (aa_type aa) (aa_data aa) w)"

lemma acl_rules_Cons:
  "acl_rules E tables stage depth i (ar # rules) w =
     do {
       (t, w1) \<leftarrow> w_is_true E (ar_expression ar) w;
       if t = 0 then acl_rules E tables stage depth (Suc i) rules w1
       else if t = -1 then Some (ACL_ERROR, w1)
       else do {
         stages \<leftarrow> ah_stages (aa_type (ar_action ar));
         if stages AND stage = 0 then Some (ACL_ERROR, w1)
         else do {
           (response, w2) \<leftarrow> handle E tables stage depth (ar_action ar) w1;
           if response = ACL_NONE then acl_rules E tables stage depth (Suc i) rules w2
           else if response = ACL_RETURN then Some (ACL_NONE, w2)
           else if response = ACL_ERROR then Some (ACL_ERROR, w2)
           else acl_decide E stage i (ar_action ar) response w2 } } }"
  unfolding acl_rules.simps handle_def is_call_def Let_def ..

lemma acl_rules_matched:
  assumes "w_is_true E (ar_expression ar) w = Some (t, w1)" and "t \<notin> {0, -1}" and "allowed stage (ar_action ar)"
    and "handle E tables stage depth (ar_action ar) w1 = Some (response, w2)"
  shows "acl_rules E tables stage depth i (ar # rules) w =
    (if response = ACL_NONE then acl_rules E tables stage depth (Suc i) rules w2
     else if response = ACL_RETURN then Some (ACL_NONE, w2)
     else if response = ACL_ERROR then Some (ACL_ERROR, w2)
     else acl_decide E stage i (ar_action ar) response w2)"
proof -
  from assms(3) obtain stages where "ah_stages (aa_type (ar_action ar)) = Some stages" "stages AND stage \<noteq> 0"
    by (auto simp: allowed_def)
  with assms(1,2,4) show ?thesis by (simp add: acl_rules_Cons)
qed

lemma runs_sound:
  "runs E tables stage name w a w' n \<Longrightarrow>
    \<forall>depth. depth + n < 256 \<longrightarrow> acl E tables stage name depth w = Some (a, w')"
  "runs_rules E tables stage i rules w a w' n \<Longrightarrow>
    \<forall>depth. depth + n < 256 \<longrightarrow> acl_rules E tables stage depth i rules w = Some (a, w')"
  "does E tables stage aa w a w' n \<Longrightarrow>
    \<forall>depth. depth + n < 256 \<longrightarrow> handle E tables stage depth aa w = Some (a, w')"
proof (induction rule: runs_runs_rules_does.inducts)
  case (goes_on ar w t w1 w2 k i rules a w' n)
  show ?case
  proof (intro allI impI)
    fix depth
    assume "depth + max k n < 256"
    with goes_on.IH have h: "handle E tables stage depth (ar_action ar) w1 = Some (ACL_NONE, w2)"
      and "acl_rules E tables stage depth (Suc i) rules w2 = Some (a, w')" by simp_all
    then show "acl_rules E tables stage depth i (ar # rules) w = Some (a, w')"
      using goes_on by (simp add: acl_rules_matched)
  qed
next
  case (returns ar w t w1 w2 k i rules)
  then show ?case by (auto simp: acl_rules_matched)
next
  case (decides ar w t w1 response w2 k i a w' rules)
  then show ?case by (auto simp: acl_rules_matched)
qed (auto simp: acl.simps acl_rules.simps(1) MAX_RECURSION_def acl_rules_Cons handle_def is_call_def acl_jump_def)

definition complete_at :: "'h env \<Rightarrow> acl_tables \<Rightarrow> int \<Rightarrow> nat \<Rightarrow> bool" where
  "complete_at E tables stage depth \<longleftrightarrow>
     (\<forall>i rules w a w'. acl_rules E tables stage depth i rules w = Some (a, w') \<longrightarrow> a \<noteq> ACL_ERROR \<longrightarrow>
       (\<exists>n. depth + n < 256 \<and> runs_rules E tables stage i rules w a w' n))"

lemma acl_complete:
  assumes "Suc depth < 256 \<Longrightarrow> complete_at E tables stage (Suc depth)"
    and "acl E tables stage name depth w = Some (a, w')" and "a \<noteq> ACL_ERROR"
  shows "\<exists>n. depth + n < 256 \<and> runs E tables stage name w a w' n"
proof -
  have d: "Suc depth < 256" using assms(2,3) by (auto simp: acl.simps MAX_RECURSION_def split: if_splits)
  show ?thesis
  proof (cases "tables name")
    case None
    with assms(2) d have "a = ACL_NONE \<and> w' = w" by (simp add: acl.simps MAX_RECURSION_def)
    with None d show ?thesis by (auto intro!: exI [of _ 1] no_table)
  next
    case (Some rules)
    with assms(2) d have "acl_rules E tables stage (Suc depth) 1 rules w = Some (a, w')"
      by (simp add: acl.simps MAX_RECURSION_def)
    with assms(1,3) d obtain n where "Suc depth + n < 256" "runs_rules E tables stage 1 rules w a w' n"
      unfolding complete_at_def by blast
    with Some show ?thesis by (auto intro!: exI [of _ "Suc n"] table)
  qed
qed

lemma handle_complete:
  assumes "Suc depth < 256 \<Longrightarrow> complete_at E tables stage (Suc depth)" and "depth < 256"
    and "handle E tables stage depth aa w = Some (a, w')" and "a \<noteq> ACL_ERROR"
  shows "\<exists>n. depth + n < 256 \<and> does E tables stage aa w a w' n"
proof (cases "is_call aa")
  case False
  with assms(2,3) show ?thesis by (auto simp: handle_def intro!: exI [of _ 0] plain)
next
  case True
  with assms(3) obtain name where name: "aa_data aa = AD_table name"
    by (cases "aa_data aa") (simp_all add: handle_def)
  with True assms(3) obtain b where b: "acl E tables stage name depth w = Some (b, w')"
    and a: "a = (if aa_type aa = ACL_JUMP then acl_jump b else b)"
    by (cases "acl E tables stage name depth w") (auto simp: handle_def split: if_splits)
  have "b \<noteq> ACL_ERROR" using a assms(4) by (auto simp: acl_jump_def split: if_splits)
  from acl_complete [OF assms(1) b this] obtain n where "depth + n < 256" "runs E tables stage name w b w' n"
    by blast
  moreover from this have "does E tables stage aa w a w' n"
    using a name True jumps [OF _ name, of E tables stage w b w' n] calls [OF _ name, of E tables stage w b w' n]
    by (auto simp: is_call_def acl_jump_def)
  ultimately show ?thesis by blast
qed

lemma complete_at_step:
  assumes "Suc depth < 256 \<Longrightarrow> complete_at E tables stage (Suc depth)" and "depth < 256"
  shows "complete_at E tables stage depth"
proof -
  have "\<exists>n. depth + n < 256 \<and> runs_rules E tables stage i rules w a w' n"
    if "acl_rules E tables stage depth i rules w = Some (a, w')" and "a \<noteq> ACL_ERROR" for i rules w a w'
    using that
  proof (induction rules arbitrary: i w)
    case Nil
    with assms(2) show ?case by (auto simp: acl_rules.simps(1) intro!: exI [of _ 0] at_end)
  next
    case (Cons ar rules)
    from Cons.prems(1) obtain t w1 where t: "w_is_true E (ar_expression ar) w = Some (t, w1)"
      by (auto simp: acl_rules_Cons bind_eq_Some_conv)
    show ?case
    proof (cases "t = 0")
      case True
      with t Cons.prems Cons.IH [of "Suc i" w1] show ?thesis
        by (auto simp: acl_rules_Cons intro: no_match)
    next
      case False
      with t Cons.prems obtain response w2 where al: "t \<notin> {0, -1}" "allowed stage (ar_action ar)"
        and h: "handle E tables stage depth (ar_action ar) w1 = Some (response, w2)"
        by (auto simp: acl_rules_Cons allowed_def bind_eq_Some_conv split: if_splits)
      note step = acl_rules_matched [OF t al h, of i rules]
      have "response \<noteq> ACL_ERROR" using step Cons.prems by auto
      from handle_complete [OF assms h this] obtain k where k: "depth + k < 256"
        "does E tables stage (ar_action ar) w1 response w2 k" by blast
      show ?thesis
      proof (cases "response = ACL_NONE")
        case True
        with step Cons.prems Cons.IH [of "Suc i" w2] obtain n where "depth + n < 256"
          "runs_rules E tables stage (Suc i) rules w2 a w' n" by auto
        with k True goes_on [OF t al] show ?thesis by (metis max_def)
      next
        case False
        then show ?thesis
          using step Cons.prems k returns [OF t al] decides [OF t al] \<open>response \<noteq> ACL_ERROR\<close>
          by (cases "response = ACL_RETURN") auto
      qed
    qed
  qed
  then show ?thesis by (simp add: complete_at_def)
qed

lemma complete_below: "depth < 256 \<Longrightarrow> complete_at E tables stage depth"
proof (induction "256 - depth" arbitrary: depth)
  case 0
  then show ?case by simp
next
  case (Suc k)
  have "complete_at E tables stage (Suc depth)" if "Suc depth < 256"
    using Suc.hyps(1) [of "Suc depth"] Suc.hyps(2) that by simp
  then show ?case by (rule complete_at_step [OF _ Suc.prems])
qed

text \<open>
  The errors of the rules, with the number of tables that may still be nested: a table that may not
  be opened any more, a condition that fails, an action that the stage does not allow, a handler or a
  table that fails, and a reply that cannot be set. Rules before the failing one went on.
\<close>

inductive errs :: "'h env \<Rightarrow> acl_tables \<Rightarrow> int \<Rightarrow> nat \<Rightarrow> string \<Rightarrow> 'h world \<Rightarrow> 'h world \<Rightarrow> bool"
  and errs_rules :: "'h env \<Rightarrow> acl_tables \<Rightarrow> int \<Rightarrow> nat \<Rightarrow> nat \<Rightarrow> acl_rule list \<Rightarrow> 'h world \<Rightarrow> 'h world \<Rightarrow> bool"
  for E tables stage where
  too_deep: "errs E tables stage 0 name w w"
| in_table: "tables name = Some rules \<Longrightarrow> errs_rules E tables stage d 1 rules w w' \<Longrightarrow> errs E tables stage (Suc d) name w w'"
| after_no_match: "w_is_true E (ar_expression ar) w = Some (0, w1) \<Longrightarrow> errs_rules E tables stage d (Suc i) rules w1 w' \<Longrightarrow>
    errs_rules E tables stage d i (ar # rules) w w'"
| after_goes_on: "w_is_true E (ar_expression ar) w = Some (t, w1) \<Longrightarrow> t \<notin> {0, -1} \<Longrightarrow> allowed stage (ar_action ar) \<Longrightarrow>
    does E tables stage (ar_action ar) w1 ACL_NONE w2 k \<Longrightarrow> k \<le> d \<Longrightarrow> errs_rules E tables stage d (Suc i) rules w2 w' \<Longrightarrow>
    errs_rules E tables stage d i (ar # rules) w w'"
| condition_fails: "w_is_true E (ar_expression ar) w = Some (-1, w') \<Longrightarrow> errs_rules E tables stage d i (ar # rules) w w'"
| not_allowed: "w_is_true E (ar_expression ar) w = Some (t, w') \<Longrightarrow> t \<notin> {0, -1} \<Longrightarrow>
    ah_stages (aa_type (ar_action ar)) = Some stages \<Longrightarrow> stages AND stage = 0 \<Longrightarrow>
    errs_rules E tables stage d i (ar # rules) w w'"
| handler_fails: "w_is_true E (ar_expression ar) w = Some (t, w1) \<Longrightarrow> t \<notin> {0, -1} \<Longrightarrow> allowed stage (ar_action ar) \<Longrightarrow>
    \<not> is_call (ar_action ar) \<Longrightarrow> plain_handler E stage (aa_type (ar_action ar)) (aa_data (ar_action ar)) w1 = Some (ACL_ERROR, w') \<Longrightarrow>
    errs_rules E tables stage d i (ar # rules) w w'"
| table_fails: "w_is_true E (ar_expression ar) w = Some (t, w1) \<Longrightarrow> t \<notin> {0, -1} \<Longrightarrow> allowed stage (ar_action ar) \<Longrightarrow>
    is_call (ar_action ar) \<Longrightarrow> aa_data (ar_action ar) = AD_table name \<Longrightarrow> errs E tables stage d name w1 w' \<Longrightarrow>
    errs_rules E tables stage d i (ar # rules) w w'"
| reply_fails: "w_is_true E (ar_expression ar) w = Some (t, w1) \<Longrightarrow> t \<notin> {0, -1} \<Longrightarrow> allowed stage (ar_action ar) \<Longrightarrow>
    does E tables stage (ar_action ar) w1 response w2 k \<Longrightarrow> k \<le> d \<Longrightarrow> response \<notin> {ACL_NONE, ACL_RETURN, ACL_ERROR} \<Longrightarrow>
    acl_decide E stage i (ar_action ar) response w2 = Some (ACL_ERROR, w') \<Longrightarrow>
    errs_rules E tables stage d i (ar # rules) w w'"

lemma errs_sound:
  "errs E tables stage d name w w' \<Longrightarrow> \<forall>depth. depth + d = 255 \<longrightarrow> acl E tables stage name depth w = Some (ACL_ERROR, w')"
  "errs_rules E tables stage d i rules w w' \<Longrightarrow>
    \<forall>depth. depth + d = 255 \<longrightarrow> acl_rules E tables stage depth i rules w = Some (ACL_ERROR, w')"
proof (induction rule: errs_errs_rules.inducts)
  case (after_goes_on ar w t w1 w2 k d i rules w')
  with runs_sound(3) [of E tables stage "ar_action ar" w1 ACL_NONE w2 k] show ?case by (auto simp: acl_rules_matched)
next
  case (reply_fails ar w t w1 response w2 k d i w' rules)
  with runs_sound(3) [of E tables stage "ar_action ar" w1 response w2 k] show ?case by (auto simp: acl_rules_matched)
next
  case (table_fails ar w t w1 name d w' i rules)
  then have "handle E tables stage depth (ar_action ar) w1 = Some (ACL_ERROR, w')" if "depth + d = 255" for depth
    using that by (auto simp: handle_def acl_jump_def)
  with table_fails show ?case by (auto simp: acl_rules_matched)
next
  case (handler_fails ar w t w1 w' d i rules)
  then show ?case by (auto simp: acl_rules_matched handle_def)
qed (auto simp: acl.simps MAX_RECURSION_def acl_rules_Cons)

lemma errs_rules_complete:
  assumes "\<And>name w w'. acl E tables stage name depth w = Some (ACL_ERROR, w') \<Longrightarrow> errs E tables stage (255 - depth) name w w'"
    and "depth < 256"
  shows "acl_rules E tables stage depth i rules w = Some (ACL_ERROR, w') \<Longrightarrow> errs_rules E tables stage (255 - depth) i rules w w'"
proof (induction rules arbitrary: i w)
  case (Cons ar rules)
  from Cons.prems obtain t w1 where t: "w_is_true E (ar_expression ar) w = Some (t, w1)"
    by (auto simp: acl_rules_Cons bind_eq_Some_conv)
  consider "t = 0" | "t = -1" | "t \<notin> {0, -1}" "\<not> allowed stage (ar_action ar)" | "t \<notin> {0, -1}" "allowed stage (ar_action ar)" by blast
  then show ?case
  proof cases
    case 4
    with t Cons.prems obtain response w2 where h: "handle E tables stage depth (ar_action ar) w1 = Some (response, w2)"
      by (auto simp: acl_rules_Cons allowed_def bind_eq_Some_conv split: if_splits)
    note step = acl_rules_matched [OF t 4 h, of i rules]
    show ?thesis
    proof (cases "response = ACL_ERROR")
      case True
      then have w2: "w2 = w'" using step Cons.prems by simp
      show ?thesis
      proof (cases "is_call (ar_action ar)")
        case call: True
        with h True w2 obtain name where "aa_data (ar_action ar) = AD_table name" "acl E tables stage name depth w1 = Some (ACL_ERROR, w')"
          by (auto simp: handle_def acl_jump_def bind_eq_Some_conv split: aa_data.splits if_splits)
        with table_fails [OF t 4 call] assms(1) show ?thesis by blast
      qed (use handler_fails [OF t 4] h True w2 in \<open>simp add: handle_def\<close>)
    next
      case False
      then have "\<exists>k. depth + k < 256 \<and> does E tables stage (ar_action ar) w1 response w2 k"
        using handle_complete [OF complete_below assms(2) h] by blast
      then obtain k where "depth + k < 256" and does: "does E tables stage (ar_action ar) w1 response w2 k" by blast
      then have k: "k \<le> 255 - depth" "does E tables stage (ar_action ar) w1 response w2 k" by simp_all
      show ?thesis
      proof (cases "response = ACL_NONE")
        case True
        with step Cons.prems Cons.IH have "errs_rules E tables stage (255 - depth) (Suc i) rules w2 w'" by simp
        with after_goes_on [OF t 4] k True show ?thesis by blast
      qed (use step Cons.prems False reply_fails [OF t 4 k(2,1)] in \<open>auto split: if_splits\<close>)
    qed
  qed (use t Cons in \<open>auto simp: acl_rules_Cons allowed_def bind_eq_Some_conv
      intro: after_no_match condition_fails not_allowed split: if_splits\<close>)
qed (simp add: acl_rules.simps(1))

lemma errs_complete:
  assumes "acl E tables stage name depth w = Some (ACL_ERROR, w')" and "depth < 256"
  shows "errs E tables stage (255 - depth) name w w'"
  using assms
proof (induction "255 - depth" arbitrary: depth name w w')
  case 0
  then show ?case by (auto simp: acl.simps MAX_RECURSION_def intro: too_deep)
next
  case (Suc d)
  then have d: "d = 255 - Suc depth" "Suc depth < 256" by simp_all
  from Suc.prems(1) d(2) obtain rules where "tables name = Some rules"
    "acl_rules E tables stage (Suc depth) 1 rules w = Some (ACL_ERROR, w')"
    by (auto simp: acl.simps MAX_RECURSION_def split: option.splits)
  with errs_rules_complete [OF Suc.hyps(1) [OF d(1) _ d(2)] d(2)] in_table show ?case
    unfolding Suc.hyps(2) [symmetric] d(1) by blast
qed

text \<open>
  C1: The interpreter implements the rules. A table decides \<open>a\<close> for a message exactly when the
  semantics of rules derives it with a nesting of at most 255 tables, and the message, the
  database and the calls to the mail server are those of the derivation. The answer is the error
  exactly when the semantics derives a failure: a 256th nested table is refused, a condition, a
  handler, a nested table or the reply of a rule fails, or the stage does not allow its action, after
  rules that went on; then, too, the effects are those of the rules up to the failure.
\<close>

theorem acl_implements_rules:
  "acl E tables stage name 0 w = Some (a, w') \<longleftrightarrow>
    (if a = ACL_ERROR then errs E tables stage 255 name w w' else \<exists>n < 256. runs E tables stage name w a w' n)"
proof (cases "a = ACL_ERROR")
  case True
  with errs_complete [of E tables stage name 0 w w'] errs_sound(1) [of E tables stage 255 name w w'] show ?thesis by auto
next
  case False
  have "\<exists>n < 256. runs E tables stage name w a w' n" if "acl E tables stage name 0 w = Some (a, w')"
    using acl_complete [OF complete_below that False] by auto
  moreover have "acl E tables stage name 0 w = Some (a, w')" if "runs E tables stage name w a w' n" "n < 256" for n
    using runs_sound(1) [OF that(1)] that(2) by simp
  ultimately show ?thesis using False by auto
qed

definition quiet_world :: "unit world" where
  "quiet_world = \<lparr>w_x = demo_state, w_db = (), w_calls = []\<rparr>"

definition rule :: "acl_action_type \<Rightarrow> aa_data \<Rightarrow> acl_rule" where
  "rule t d = \<lparr>ar_expression = None, ar_action = acl_action_create t d ''mopherd.acl'' 1\<rparr>"

lemma rule_simps [simp]: "ar_expression (rule t d) = None" "aa_type (ar_action (rule t d)) = t"
  "aa_data (ar_action (rule t d)) = d" "aa_reply (ar_action (rule t d)) = None"
  by (simp_all add: rule_def acl_action_create_def)

lemma unconditional: "w_is_true E None w = Some (1, w)"
  by (simp add: w_is_true_def exp_is_true_def)

text \<open>
  Rules cannot loop. When the first rule of every table of some set jumps to or calls a table of
  the set unconditionally, the evaluation of any of them ends with the error and has changed
  nothing, whatever else the tables hold.
\<close>

theorem acl_cycle_error:
  assumes "\<forall>name \<in> S. \<exists>ar rules next. tables name = Some (ar # rules) \<and> ar_expression ar = None \<and>
      aa_type (ar_action ar) \<in> {ACL_JUMP, ACL_CALL} \<and> aa_data (ar_action ar) = AD_table next \<and> next \<in> S"
    and "name \<in> S" and "(MS_ANY OR MS_INIT) AND stage \<noteq> 0"
  shows "acl E tables stage name depth w = Some (ACL_ERROR, w)"
  using assms(2)
proof (induction "256 - depth" arbitrary: depth name)
  case 0
  then show ?case by (simp add: acl.simps MAX_RECURSION_def)
next
  case (Suc k)
  show ?case
  proof (cases "Suc depth < 256")
    case True
    from assms(1) Suc.prems obtain ar rules "next" where r: "tables name = Some (ar # rules)" "ar_expression ar = None"
      "aa_type (ar_action ar) \<in> {ACL_JUMP, ACL_CALL}" "aa_data (ar_action ar) = AD_table next" "next \<in> S" by metis
    have al: "allowed stage (ar_action ar)" using r(3) assms(3) by (auto simp: allowed_def)
    have "acl E tables stage next (Suc depth) w = Some (ACL_ERROR, w)"
      using Suc.hyps(1) [of "Suc depth" "next"] Suc.hyps(2) r(5) by simp
    then have "handle E tables stage (Suc depth) (ar_action ar) w = Some (ACL_ERROR, w)"
      using r(3,4) by (auto simp: handle_def is_call_def acl_jump_def)
    with acl_rules_matched [of E ar w 1 w stage tables "Suc depth" ACL_ERROR w 1 rules] al True r(1,2)
    show ?thesis by (simp add: acl.simps MAX_RECURSION_def unconditional)
  qed (simp add: acl.simps MAX_RECURSION_def)
qed

theorem acl_cycle_error_witness:
  "acl quiet_env [''a'' \<mapsto> [rule ACL_JUMP (AD_table ''b'')], ''b'' \<mapsto> [rule ACL_CALL (AD_table ''a''), rule ACL_ACCEPT AD_NULL]]
     MS_CONNECT ''a'' 0 quiet_world = Some (ACL_ERROR, quiet_world)"
  by (rule acl_cycle_error [where S = "{''a'', ''b''}"]) (auto simp: ms_defs ms_off_defs)

theorem acl_implements_rules_witness:
  "\<exists>w' n. acl quiet_env [''connect'' \<mapsto> [rule ACL_REJECT AD_NULL]] MS_CONNECT ''connect'' 0 quiet_world = Some (ACL_REJECT, w') \<and>
    n < 256 \<and> runs quiet_env [''connect'' \<mapsto> [rule ACL_REJECT AD_NULL]] MS_CONNECT ''connect'' quiet_world ACL_REJECT w' n"
proof -
  have "\<exists>w'. acl quiet_env [''connect'' \<mapsto> [rule ACL_REJECT AD_NULL]] MS_CONNECT ''connect'' 0 quiet_world = Some (ACL_REJECT, w')"
    by (simp add: acl.simps acl_rules_Cons MAX_RECURSION_def unconditional handle_def is_call_def plain_handler_def
        ms_defs ms_off_defs acl_decide_def acl_match_def quiet_world_def demo_state_def spec_get_def)
  then obtain w' where w': "acl quiet_env [''connect'' \<mapsto> [rule ACL_REJECT AD_NULL]] MS_CONNECT ''connect'' 0 quiet_world = Some (ACL_REJECT, w')" ..
  with acl_implements_rules [of quiet_env _ MS_CONNECT _ quiet_world ACL_REJECT w'] show ?thesis by auto
qed

subsection \<open>Answers\<close>

definition final_answer :: "acl_action_type \<Rightarrow> bool" where
  "final_answer a \<longleftrightarrow> a \<in> {ACL_ERROR, ACL_NULL, ACL_NONE, ACL_CONTINUE, ACL_REJECT, ACL_DISCARD, ACL_ACCEPT,
     ACL_TEMPFAIL, ACL_GREYLIST}"

lemma tarpit_loop_answer:
  assumes "tarpit_loop E remaining w = Some (early, w')"
  shows "early \<in> {None, Some ACL_ERROR, Some ACL_TEMPFAIL}"
proof -
  define S where "S = {None, Some ACL_ERROR, Some ACL_TEMPFAIL}"
  then have S: "None \<in> S" "Some ACL_ERROR \<in> S" "Some ACL_TEMPFAIL \<in> S" by simp_all
  have "fst (early, w') \<in> S"
    by (rule tarpit_loop.raw_induct [OF _ assms])
      (auto simp: Let_def bind_eq_Some_conv ask_def S split: if_split_asm)
  then show ?thesis by (simp add: S_def)
qed

lemma tarpit_store_answer: "tarpit_store delay w = Some (a, w') \<Longrightarrow> final_answer a"
  by (auto simp: tarpit_store_def final_answer_def bind_eq_Some_conv
      split: if_split_asm option.split_asm var.split_asm prod.split_asm)

lemma tarpit_answer: "tarpit E e w = Some (a, w') \<Longrightarrow> final_answer a"
  by (auto simp: tarpit_def bind_eq_Some_conv final_answer_def
      split: if_split_asm option.split_asm dest!: tarpit_loop_answer tarpit_store_answer)

lemma greylist_action_answer: "greylist_action E stage gl w = Some (a, w') \<Longrightarrow> final_answer a"
  by (auto simp: greylist_action_def spec_dereference_def Let_def final_answer_def bind_eq_Some_conv
      split: if_splits)

lemma msgmod_answer: "msgmod E mm w = Some (a, w') \<Longrightarrow> final_answer a"
  by (auto simp: msgmod_def final_answer_def bind_eq_Some_conv split: if_split_asm option.split_asm)

lemma pipe_answer: "pipe_action E e w = Some (a, w') \<Longrightarrow> final_answer a"
  by (auto simp: pipe_action_def pipe_socket_def pipe_exec_def ask_def Let_def final_answer_def bind_eq_Some_conv
      split: if_splits option.splits)

lemma acl_set_answer: "acl_set E e w = Some (a, w') \<Longrightarrow> final_answer a"
  by (auto simp: acl_set_def final_answer_def bind_eq_Some_conv split: if_splits)

lemma acl_log_answer: "acl_log E al w = Some (a, w') \<Longrightarrow> final_answer a"
  by (auto simp: acl_log_def final_answer_def bind_eq_Some_conv split: option.splits if_splits)

lemma plain_handler_answer:
  assumes "plain_handler E stage (aa_type aa) d w = Some (a, w')" and "\<not> is_call aa"
  shows "final_answer a \<or> a = ACL_RETURN"
  using assms unfolding plain_handler_def is_call_def
  by (cases "aa_type aa"; cases d)
    (auto simp: final_answer_def dest: tarpit_answer greylist_action_answer msgmod_answer pipe_answer
      acl_set_answer acl_log_answer)

lemma acl_decide_answer: "acl_decide E stage i aa response w = Some (a, w') \<Longrightarrow> a = response \<or> a = ACL_ERROR"
  by (auto simp: acl_decide_def bind_eq_Some_conv split: if_splits)

lemma runs_answer:
  "runs E tables stage name w a w' n \<Longrightarrow> final_answer a"
  "runs_rules E tables stage i rules w a w' n \<Longrightarrow> final_answer a"
  "does E tables stage aa w a w' n \<Longrightarrow> final_answer a \<or> a = ACL_RETURN"
proof (induction rule: runs_runs_rules_does.inducts)
  case (decides ar w t w1 response w2 k i a w' rules)
  then show ?case by (auto simp: final_answer_def dest: acl_decide_answer)
next
  case (plain aa w a w')
  then show ?case by (blast dest: plain_handler_answer)
qed (auto simp: final_answer_def acl_jump_def)

text \<open>
  C32: Whatever the rules are, the interpreter answers with a decision for the mail server, with
  none, or with the error, and never with the type of an internal action; so the table of their
  names is only read inside its bounds and no message falls into the default case of
  \<open>milter_acl\<close> but through a rule without an action type.
\<close>

theorem acl_answers:
  assumes "acl E tables stage name depth w = Some (a, w')"
  shows "a \<in> {ACL_ERROR, ACL_NULL, ACL_NONE, ACL_CONTINUE, ACL_REJECT, ACL_DISCARD, ACL_ACCEPT, ACL_TEMPFAIL,
    ACL_GREYLIST}"
proof (cases "a = ACL_ERROR")
  case False
  from acl_complete [OF complete_below assms False] obtain n where "runs E tables stage name w a w' n" by blast
  from runs_answer(1) [OF this] show ?thesis by (simp add: final_answer_def)
qed simp

theorem acl_answers_witness:
  "\<exists>a. acl quiet_env [''a'' \<mapsto> [rule ACL_RETURN AD_NULL]] MS_CONNECT ''a'' 0 quiet_world = Some (a, quiet_world) \<and>
    a \<in> {ACL_ERROR, ACL_NULL, ACL_NONE, ACL_CONTINUE, ACL_REJECT, ACL_DISCARD, ACL_ACCEPT, ACL_TEMPFAIL, ACL_GREYLIST}"
proof -
  have "acl quiet_env [''a'' \<mapsto> [rule ACL_RETURN AD_NULL]] MS_CONNECT ''a'' 0 quiet_world = Some (ACL_NONE, quiet_world)"
    by (simp add: acl.simps acl_rules_Cons MAX_RECURSION_def unconditional handle_def is_call_def plain_handler_def
        ms_defs ms_off_defs)
  with acl_answers [OF this] show ?thesis by blast
qed

subsection \<open>Replies and matches\<close>

lemma w_eval_frame: "w_eval E e w = Some (r, w') \<Longrightarrow> w_calls w' = w_calls w \<and> w_db w' = w_db w"
  by (auto simp: w_eval_def bind_eq_Some_conv)

lemma acl_eval_reply_calls:
  assumes "acl_eval_reply E e w = Some (r, w')"
  shows "w_calls w' = w_calls w"
proof (cases e)
  case (Some x)
  with assms obtain u w1 where u: "w_eval E x w = Some (u, w1)"
    by (auto simp: acl_eval_reply_def bind_eq_Some_conv)
  have "w' = w1"
  proof (cases u)
    case (Some v)
    with u \<open>e = Some x\<close> assms show ?thesis
      by (cases "v_data v = None"; cases "v_type v = VT_STRING")
        (auto simp: acl_eval_reply_def bind_eq_Some_conv split: option.split_asm)
  qed (use u Some assms in \<open>simp add: acl_eval_reply_def\<close>)
  with w_eval_frame [OF u] show ?thesis by simp
qed (use assms in \<open>simp add: acl_eval_reply_def\<close>)

lemma milter_set_reply_calls:
  assumes "milter_set_reply E code xcode message v = (r, w')"
  shows "r \<noteq> 0 \<and> w_calls w' = w_calls v \<or>
    w_calls w' = C_Setreply code xcode message # w_calls v \<and> (r = 0 \<longleftrightarrow> e_answer E (w_calls v) (C_Setreply code xcode message) = MI_SUCCESS)"
  using assms by (auto simp: milter_set_reply_def ask_def Let_def split: if_split_asm)

text \<open>
  Setting a reply calls the mail server at most once, with the code of the rule, and only when the
  code is of the class that the response needs.
\<close>

lemma acl_set_reply_calls:
  assumes "acl_set_reply E ar t w = Some (r, w')"
  shows "case reply_class t of
      None \<Rightarrow> w_calls w' = w_calls w
    | Some c \<Rightarrow> r \<noteq> 0 \<and> w_calls w' = w_calls w \<or>
        (\<exists>code xcode message v. acl_eval_reply E (ar_code ar) w = Some (Some (c # code), v) \<and>
          w_calls w' = C_Setreply (c # code) xcode message # w_calls w \<and>
          (r = 0 \<longleftrightarrow> e_answer E (w_calls w) (C_Setreply (c # code) xcode message) = MI_SUCCESS))"
proof -
  note eval = acl_eval_reply_calls
  from assms obtain r1 v1 where r1: "acl_eval_reply E (ar_code ar) w = Some (r1, v1)"
    by (auto simp: acl_set_reply_def bind_eq_Some_conv)
  show ?thesis
  proof (cases "\<exists>c code. reply_class t = Some c \<and> r1 = Some (c # code)")
    case True
    then obtain c code where c: "reply_class t = Some c" "r1 = Some (c # code)" by blast
    with assms r1 obtain r2 v2 where r2: "acl_eval_reply E (ar_message ar) v1 = Some (r2, v2)"
      by (auto simp: acl_set_reply_def bind_eq_Some_conv)
    have "r \<noteq> 0 \<and> w_calls w' = w_calls v2 \<or>
        (\<exists>xcode message v3. milter_set_reply E (c # code) xcode message v3 = (r, w') \<and> w_calls v3 = w_calls v2)"
    proof (cases "ar_xcode ar")
      case None
      with assms r1 r2 c show ?thesis by (auto simp: acl_set_reply_def split: option.split_asm)
    next
      case (Some e)
      with assms r1 r2 c show ?thesis
        by (auto simp: acl_set_reply_def bind_eq_Some_conv split: option.split_asm dest!: eval)
    qed
    moreover have "w_calls v2 = w_calls w" using eval [OF r1] eval [OF r2] by simp
    ultimately show ?thesis using c r1 by (auto dest!: milter_set_reply_calls)
  qed (use assms r1 eval [OF r1] in \<open>auto simp: acl_set_reply_def neq_Nil_conv split: option.splits if_split_asm\<close>)
qed

text \<open>
  C29: A rule with a reply calls the mail server at most once, and only with a reply whose code, the one
  its expression has, is of the class of the decision: 5 for a rejection, 4 for a temporary failure and for
  greylisting. The rule decides exactly when the mail server accepts that reply; a code of another
  class is never sent, and the answer is then the error, as it is when the reply cannot be
  evaluated or is refused. Decisions of other kinds make no call.
\<close>

theorem acl_reply_class:
  assumes "acl_decide E stage i aa response w = Some (a, w')" and "aa_reply aa = Some ar"
  shows "(a = response \<or> a = ACL_ERROR) \<and>
    (if response \<in> {ACL_REJECT, ACL_TEMPFAIL, ACL_GREYLIST}
     then a = ACL_ERROR \<and> w_calls w' = w_calls w \<or>
       (\<exists>code xcode message v.
         acl_eval_reply E (ar_code ar) w = Some (Some ((if response = ACL_REJECT then CHR ''5'' else CHR ''4'') # code), v) \<and>
         w_calls w' = C_Setreply ((if response = ACL_REJECT then CHR ''5'' else CHR ''4'') # code) xcode message # w_calls w \<and>
         (a = response \<longleftrightarrow>
           e_answer E (w_calls w) (C_Setreply ((if response = ACL_REJECT then CHR ''5'' else CHR ''4'') # code) xcode message) = MI_SUCCESS))
     else w_calls w' = w_calls w)"
proof -
  from assms obtain r w1 where r: "acl_set_reply E ar response w = Some (r, w1)"
    and a: "w_calls w' = w_calls w1" "a = (if r \<noteq> 0 then ACL_ERROR else response)"
    by (auto simp: acl_decide_def bind_eq_Some_conv split: if_split_asm)
  from acl_set_reply_calls [OF r] show ?thesis
    unfolding a by (cases response) (auto simp: a)
qed

definition reply_world :: "unit world" where
  "reply_world = \<lparr>w_x = \<lparr>xs_spec = [''milter_ctx'' \<mapsto> Var VT_POINTER (Some ''milter_ctx'') (Some (DPointer 1)) 0],
     xs_const = (\<lambda>n. Var VT_STRING None (Some (DString (if n = 0 then ''550'' else ''no''))) 0)\<rparr>, w_db = (), w_calls = []\<rparr>"

theorem acl_reply_class_witness:
  "\<exists>w' code xcode message. acl_decide quiet_env MS_CONNECT 1 (acl_action_reply (acl_action_create ACL_REJECT AD_NULL ''acl'' 3)
      \<lparr>ar_code = Some (EX_CONSTANT 0), ar_xcode = None, ar_message = Some (EX_CONSTANT 1)\<rparr>) ACL_REJECT reply_world =
      Some (ACL_REJECT, w') \<and> w_calls w' = [C_Setreply (CHR ''5'' # code) xcode message]"
proof -
  let ?ar = "\<lparr>ar_code = Some (EX_CONSTANT 0), ar_xcode = None, ar_message = Some (EX_CONSTANT 1)\<rparr>"
  let ?aa = "acl_action_reply (acl_action_create ACL_REJECT AD_NULL ''acl'' 3) ?ar"
  have "\<exists>w'. acl_decide quiet_env MS_CONNECT 1 ?aa ACL_REJECT reply_world = Some (ACL_REJECT, w')"
    by (simp add: acl_decide_def acl_action_reply_def acl_action_create_def acl_set_reply_def acl_eval_reply_def
        w_eval_def deref_opt_def deref_def reply_world_def quiet_env_def as_defs milter_set_reply_def ask_def
        spec_get_def MI_SUCCESS_def acl_match_def)
  then obtain w' where w': "acl_decide quiet_env MS_CONNECT 1 ?aa ACL_REJECT reply_world = Some (ACL_REJECT, w')" ..
  have "aa_reply ?aa = Some ?ar" by (simp add: acl_action_reply_def)
  from acl_reply_class [OF w' this] w' show ?thesis by (auto simp: reply_world_def)
qed

text \<open>
  The attributes of a match are those of the first rule that decides in a stage: a further
  match in the same stage, such as that of the rule which called the table, leaves them alone, and
  one in a later stage replaces them. An earlier stage leaves them alone too, so a decision at the
  start of the second message of a connection is not recorded when the first message had one at
  its end.
\<close>

theorem acl_match_first:
  assumes "spec_get m ''acl_matched'' = Some (DInt 0)" and "spec_get m ''acl_stage_matched'' = Some (DInt s)"
    and "acl_match m 1 stage (Some i) (Some file) (Some line) (Some answer) = Some m1"
  shows "spec_get m1 ''acl_rule'' = Some (DInt i) \<and> spec_get m1 ''acl_filename'' = Some (DString file) \<and>
    spec_get m1 ''acl_line'' = Some (DInt line) \<and> spec_get m1 ''acl_response'' = Some (DString answer) \<and>
    (\<forall>stage' j file' line' answer'.
       (stage' \<le> stage \<longrightarrow> acl_match m1 1 stage' (Some j) (Some file') (Some line') (Some answer') = Some m1) \<and>
       (stage < stage' \<longrightarrow> (\<exists>m2. acl_match m1 1 stage' (Some j) (Some file') (Some line') (Some answer') = Some m2 \<and>
         spec_get m2 ''acl_rule'' = Some (DInt j) \<and> spec_get m2 ''acl_response'' = Some (DString answer'))))"
proof -
  have m1: "m1 = snd (spec_setv m
        [(VT_INT, ''acl_matched'', Some (DInt 1), VF_KEEPNAME OR VF_COPYDATA),
         (VT_INT, ''acl_stage_matched'', Some (DInt stage), VF_KEEPNAME OR VF_COPYDATA),
         (VT_INT, ''acl_rule'', Some (DInt i), VF_KEEPNAME OR VF_COPYDATA),
         (VT_STRING, ''acl_filename'', Some (DString file), VF_KEEP),
         (VT_INT, ''acl_line'', Some (DInt line), VF_KEEPNAME OR VF_COPYDATA),
         (VT_STRING, ''acl_response'', Some (DString answer), VF_KEEP)])"
    using assms by (cases "s < stage") (simp_all add: acl_match_def as_defs)
  have "spec_get m1 ''acl_matched'' = Some (DInt 1)" "spec_get m1 ''acl_stage_matched'' = Some (DInt stage)"
    by (simp_all add: m1)
  then show ?thesis by (simp add: m1 acl_match_def as_defs)
qed

theorem acl_match_first_witness:
  "\<exists>m1. acl_match [''acl_matched'' \<mapsto> Var VT_INT None (Some (DInt 0)) 0, ''acl_stage_matched'' \<mapsto> Var VT_INT None (Some (DInt 0)) 0]
      1 MS_EOM (Some 4) (Some ''f'') (Some 9) (Some ''REJECT'') = Some m1 \<and>
    acl_match m1 1 MS_ENVFROM (Some 2) (Some ''f'') (Some 3) (Some ''ACCEPT'') = Some m1"
proof -
  let ?m = "[''acl_matched'' \<mapsto> Var VT_INT None (Some (DInt 0)) 0, ''acl_stage_matched'' \<mapsto> Var VT_INT None (Some (DInt 0)) 0]"
  have g: "spec_get ?m ''acl_matched'' = Some (DInt 0)" "spec_get ?m ''acl_stage_matched'' = Some (DInt 0)"
    by simp_all
  obtain m1 where m1: "acl_match ?m 1 MS_EOM (Some 4) (Some ''f'') (Some 9) (Some ''REJECT'') = Some m1"
    using g by (simp add: acl_match_def as_defs MS_EOM_def Let_def)
  have "MS_ENVFROM \<le> MS_EOM" by (simp add: ms_defs)
  with acl_match_first [OF g m1] have "acl_match m1 1 MS_ENVFROM (Some 2) (Some ''f'') (Some 3) (Some ''ACCEPT'') = Some m1"
    by simp
  with m1 show ?thesis by blast
qed

end
