(* ===== verification/Record_Store.thy ===== *)
theory Record_Store
  imports Vp
begin

section \<open>The contract of a database driver\<close>

text \<open>
  What the tables of \<open>dbt.c\<close> rely on: a driver of \<open>dbt_driver_t\<close> keeps records of the fields of a
  scheme, one for each key. The contract is over the bytes of the key; records of the same scheme
  with the same key bytes have the same key fields. \<open>room n\<close> means that there is space for \<open>n\<close>
  more records.
\<close>

definition conforms :: "libc \<Rightarrow> var list \<Rightarrow> var list \<Rightarrow> bool" where
  "conforms L ss vs \<longleftrightarrow> length vs \<le> 64 \<and> (\<forall>v \<in> set vs. field_ok L v) \<and> vp_fits L vs \<and>
     list_all2 same_field ss vs"

text \<open>A record with its name and flags, as the callers of a driver make it.\<close>

definition record_of :: "string option \<Rightarrow> u32 \<Rightarrow> var list \<Rightarrow> var" where
  "record_of name flags vs = Var VT_LIST name (Some (DList (map Some vs))) flags"

lemma conforms_pack: "conforms L ss vs \<Longrightarrow> vp_pack L (record_of name flags vs) = Some (Some (packed L vs))"
  by (simp add: conforms_def record_of_def vp_pack_packed)

lemma conforms_unpack:
  "conforms L ss vs \<Longrightarrow> vp_unpack L (packed L vs) (record_of name flags ss) =
    Some (Some (record_of name (VF_COPYNAME OR VF_CREATE) (map unpacked vs)))"
  by (simp add: conforms_def record_of_def vp_unpack_packed)

lemma key_bytes_prefix_iff:
  assumes "conforms L ss vs" and "conforms L ss vs'"
  shows "(\<exists>r. key_bytes L vs @ r = key_bytes L vs') \<longleftrightarrow> key_bytes L vs = key_bytes L vs'"
  using assms key_bytes_prefix [of ss vs vs' L _ "[]"] by (fastforce simp: conforms_def)

lemma key_bytes_fields:
  assumes "conforms L ss vs" and "conforms L ss vs'"
  shows "key_bytes L vs = key_bytes L vs' \<longleftrightarrow> map v_data (filter is_key vs) = map v_data (filter is_key vs')"
proof
  assume "key_bytes L vs = key_bytes L vs'"
  then show "map v_data (filter is_key vs) = map v_data (filter is_key vs')"
    using assms key_bytes_prefix [of ss vs vs' L "[]" "[]"] by (simp add: conforms_def)
next
  have "map (field_bytes L) xs = map (\<lambda>d. case d of None \<Rightarrow> [] | Some d \<Rightarrow> data_bytes L d) (map v_data xs)" for xs
    by (simp add: field_bytes_def comp_def)
  then show "key_bytes L vs = key_bytes L vs'" if "map v_data (filter is_key vs) = map v_data (filter is_key vs')"
    using that by (simp only: key_bytes_def)
qed

text \<open>A record is made of its fields one after the other; names and data are kept, not copied.\<close>

lemma append_all_kept:
  assumes "\<forall>(t, name, d, flags) \<in> set args. var_create t name d flags = Some (Var t name d flags)"
  shows "append_all (record_of n f vs) args =
    Some (Some (record_of n f (vs @ map (\<lambda>(t, name, d, flags). Var t name d flags) args)))"
  using assms
proof (induction args arbitrary: vs)
  case (Cons a args)
  obtain t name d flags where a: "a = (t, name, d, flags)" by (cases a)
  have "vlist_append_new (record_of n f vs) t name d flags = Some (0, record_of n f (vs @ [Var t name d flags]))"
    using Cons.prems by (simp add: a vlist_append_new_def vlist_append_def vlist_items_def record_of_def)
  with Cons show ?case by (simp add: a)
qed simp

lemma create_kept:
  assumes "sanitize f = f" and "\<not> has_flag f VF_COPYDATA" and "\<not> has_flag f VF_CREATE"
  shows "var_create t name d f = Some (Var t name d f)"
  using assms by (cases d) (simp_all add: var_create_def var_init_def var_data_init_def)

lemma storable_copy: "storable L t d \<Longrightarrow> var_copy_data t d = Some d"
  by (cases d) (auto simp: storable_def)

lemma append_item:
  "var_create t n d f = Some v \<Longrightarrow> vlist_append_new (record_of nm g vs) t n d f = Some (0, record_of nm g (vs @ [v]))"
  by (simp add: vlist_append_new_def vlist_append_def vlist_items_def record_of_def)

text \<open>Rows carry the key flag where the scheme has it, with whatever other flags.\<close>

definition keyed :: "u32 \<Rightarrow> u32 \<Rightarrow> bool" where
  "keyed kf ff \<longleftrightarrow> has_flag kf VF_KEY \<and> \<not> has_flag ff VF_KEY"

locale record_store =
  fixes L :: libc and sname :: "string option" and ss :: "var list"
    and get :: "'h \<Rightarrow> var \<Rightarrow> (int \<times> var option) option"
    and set :: "'h \<Rightarrow> var \<Rightarrow> (int \<times> 'h) option"
    and del :: "'h \<Rightarrow> var \<Rightarrow> (int \<times> 'h) option"
    and ok :: "'h \<Rightarrow> bool" and room :: "nat \<Rightarrow> 'h \<Rightarrow> bool"
    and stored :: "'h \<Rightarrow> byte list \<rightharpoonup> var list"
  assumes get: "ok h \<Longrightarrow> conforms L ss vs \<Longrightarrow> get h (record_of name flags vs) =
      Some (0, map_option (record_of sname (VF_COPYNAME OR VF_CREATE)) (stored h (key_bytes L vs)))"
    and set: "ok h \<Longrightarrow> room (Suc n) h \<Longrightarrow> conforms L ss vs \<Longrightarrow>
      \<exists>h'. set h (record_of name flags vs) = Some (0, h') \<and> ok h' \<and> room n h' \<and>
        stored h' = (stored h)(key_bytes L vs \<mapsto> map unpacked vs)"
    and del: "ok h \<Longrightarrow> conforms L ss vs \<Longrightarrow>
      \<exists>h'. del h (record_of name flags vs) = Some (0, h') \<and> ok h' \<and> (room n h \<longrightarrow> room n h') \<and>
        stored h' = (stored h)(key_bytes L vs := None)"
begin

text \<open>What a later lookup finds after a record has been stored, or deleted.\<close>

lemma get_set:
  assumes "ok h" and "room (Suc n) h" and "conforms L ss vs" and "conforms L ss ws"
  shows "\<exists>h'. set h (record_of name flags vs) = Some (0, h') \<and> ok h' \<and>
    get h' (record_of name' flags' ws) =
      (if map v_data (filter is_key ws) = map v_data (filter is_key vs)
       then Some (0, Some (record_of sname (VF_COPYNAME OR VF_CREATE) (map unpacked vs)))
       else get h (record_of name' flags' ws))"
proof -
  obtain h' where h': "set h (record_of name flags vs) = Some (0, h')" "ok h'"
    "stored h' = (stored h)(key_bytes L vs \<mapsto> map unpacked vs)"
    using set [OF assms(1-3)] by blast
  with get [OF assms(1,4)] get [OF h'(2) assms(4)] key_bytes_fields [OF assms(4,3)] show ?thesis by auto
qed

lemma get_del:
  assumes "ok h" and "conforms L ss vs" and "conforms L ss ws"
  shows "\<exists>h'. del h (record_of name flags vs) = Some (0, h') \<and> ok h' \<and>
    get h' (record_of name' flags' ws) =
      (if map v_data (filter is_key ws) = map v_data (filter is_key vs) then Some (0, None)
       else get h (record_of name' flags' ws))"
proof -
  obtain h' where h': "del h (record_of name flags vs) = Some (0, h')" "ok h'"
    "stored h' = (stored h)(key_bytes L vs := None)"
    using del [OF assms(1,2)] by blast
  with get [OF assms(1,3)] get [OF h'(2) assms(3)] key_bytes_fields [OF assms(3,2)] show ?thesis by auto
qed

end

end
