(* ===== verification/Memdb.thy ===== *)
theory Memdb
  imports Record_Store
begin

section \<open>The database in memory (modules/memdb.c)\<close>

text \<open>
  \<open>src/src/modules/memdb.c\<close> keeps packed records in a hash table. Its match function compares as
  many bytes as the \<^emph>\<open>first\<close> key has, so it is equality only among keys none of which is a prefix
  of another. That is so for the records of one table: keys of the same fields end where their
  last field ends.
\<close>

definition MEMDB_BUCKETS :: nat where
  "MEMDB_BUCKETS = 4096"

definition memdb_record_hash :: "vp \<Rightarrow> u64" where
  "memdb_record_hash vp = HASH (vp_key vp)"

definition memdb_record_match :: "vp \<Rightarrow> vp \<Rightarrow> bool" where
  "memdb_record_match vp1 vp2 \<longleftrightarrow> memcmp (length (vp_key vp1)) (vp_key vp1) (vp_key vp2) = Some 0"

definition memdb_open :: "vp ht" where
  "memdb_open =
     \<lparr>ht_table = replicate MEMDB_BUCKETS [], ht_buckets = MEMDB_BUCKETS, ht_records = 0, ht_collisions = 0,
      ht_hash = memdb_record_hash, ht_match = memdb_record_match, ht_del = True, ht_head = 0\<rparr>"

definition memdb_get :: "libc \<Rightarrow> var \<Rightarrow> vp ht \<Rightarrow> var \<Rightarrow> (int \<times> var option) option" where
  "memdb_get L scheme ht record0 =
     do {
       key \<leftarrow> vp_pack L record0;
       (case key of
          None \<Rightarrow> Some (-1, None)
        | Some key \<Rightarrow>
            (case ht_lookup ht key of
               None \<Rightarrow> Some (0, None)
             | Some dat \<Rightarrow>
                 do { r \<leftarrow> vp_unpack L dat scheme; Some (case r of None \<Rightarrow> (-1, None) | Some v \<Rightarrow> (0, Some v)) })) }"

definition memdb_set :: "libc \<Rightarrow> vp ht \<Rightarrow> var \<Rightarrow> (int \<times> vp ht) option" where
  "memdb_set L ht record0 =
     do {
       p \<leftarrow> vp_pack L record0;
       Some (case p of
               None \<Rightarrow> (-1, ht)
             | Some vp \<Rightarrow>
                 (case ht_insert [] (snd (ht_remove ht vp)) vp of (r, ht1, _) \<Rightarrow> (if r \<noteq> 0 then -1 else 0, ht1))) }"

definition memdb_del :: "libc \<Rightarrow> vp ht \<Rightarrow> var \<Rightarrow> (int \<times> vp ht) option" where
  "memdb_del L ht record0 =
     do {
       p \<leftarrow> vp_pack L record0;
       Some (case p of None \<Rightarrow> (-1, ht) | Some vp \<Rightarrow> (0, snd (ht_remove ht vp))) }"

text \<open>
  \<open>memdb_walk\<close>: the callback may change the table, as that of the janitor does when it deletes the
  record it is called with; \<open>ht_next\<close> has moved on by then. A result other than 0 of the callback
  is only logged. At most \<open>n\<close> steps are made, one more than there are records, which is enough for
  callbacks that store no records (\<open>memdb_walk_all\<close>); a walk that needs more has no result.
\<close>

fun memdb_walk_from ::
  "libc \<Rightarrow> var \<Rightarrow> (var \<Rightarrow> vp ht \<Rightarrow> 's \<Rightarrow> (int \<times> vp ht \<times> 's) option) \<Rightarrow> nat \<Rightarrow> vp ht \<Rightarrow> vp ht_pos \<Rightarrow> 's \<Rightarrow>
    (int \<times> vp ht \<times> 's) option" where
  "memdb_walk_from L scheme callback 0 ht pos s = None"
| "memdb_walk_from L scheme callback (Suc n) ht pos s =
     (case ht_next ht pos of
        (None, _) \<Rightarrow> Some (0, ht, s)
      | (Some vp, pos1) \<Rightarrow>
          do {
            r \<leftarrow> vp_unpack L vp scheme;
            (case r of
               None \<Rightarrow> Some (-1, ht, s)
             | Some record0 \<Rightarrow>
                 do {
                   (_, ht1, s1) \<leftarrow> callback record0 ht s;
                   memdb_walk_from L scheme callback n ht1 pos1 s1 }) })"

definition memdb_walk ::
  "libc \<Rightarrow> var \<Rightarrow> (var \<Rightarrow> vp ht \<Rightarrow> 's \<Rightarrow> (int \<times> vp ht \<times> 's) option) \<Rightarrow> vp ht \<Rightarrow> 's \<Rightarrow> (int \<times> vp ht \<times> 's) option" where
  "memdb_walk L scheme callback ht s =
     memdb_walk_from L scheme callback (Suc (length (concat (ht_table ht)))) ht (ht_start ht) s"

subsection \<open>A match function that is equality on the records in use\<close>

text \<open>
  \<open>C\<close> are the records in use, \<open>m\<close> the match function of the table and \<open>ht\<close> the table with a match
  function that is equality of keys everywhere. All operations do the same with both.
\<close>

definition matched :: "('a \<Rightarrow> 'a \<Rightarrow> bool) \<Rightarrow> 'a ht \<Rightarrow> 'a ht" where
  "matched m ht = ht\<lparr>ht_match := m\<rparr>"

definition within :: "'a set \<Rightarrow> 'a ht \<Rightarrow> bool" where
  "within C ht \<longleftrightarrow> set (concat (ht_table ht)) \<subseteq> C"

lemma matched_simps [simp]:
  "ht_table (matched m ht) = ht_table ht" "ht_buckets (matched m ht) = ht_buckets ht"
  "ht_records (matched m ht) = ht_records ht" "ht_hash (matched m ht) = ht_hash ht" "ht_match (matched m ht) = m"
  "ht_del (matched m ht) = ht_del ht" "ht_bucket (matched m ht) d = ht_bucket ht d"
  "ht_overloaded (matched m ht) = ht_overloaded ht" "ht_link (matched m ht) d = matched m (ht_link ht d)"
  "(matched m ht)\<lparr>ht_del := b\<rparr> = matched m (ht\<lparr>ht_del := b\<rparr>)"
  by (simp_all add: matched_def ht_bucket_def ht_overloaded_def ht_link_def Let_def)

lemma within_content: "within C ht \<longleftrightarrow> set_mset (ht_content ht) \<subseteq> C"
  by (simp only: within_def set_mset_mset)

lemma find_agree: "(\<And>x. x \<in> set xs \<Longrightarrow> p x = q x) \<Longrightarrow> find p xs = find q xs"
  by (induction xs) auto

lemma unlink_agree: "(\<And>x. x \<in> set xs \<Longrightarrow> p x = q x) \<Longrightarrow> unlink p xs = unlink q xs"
  by (induction xs) auto

lemma chain_within:
  assumes "ht_ok key ht" and "within C ht" and "x \<in> set (ht_table ht ! ht_bucket ht d)"
  shows "x \<in> C"
  using assms nth_in_concat [OF assms(1,3)] by (auto simp: within_def)

lemma lookup_matched:
  assumes "ht_ok key ht" and "within C ht" and "d \<in> C" and "\<And>x y. x \<in> C \<Longrightarrow> y \<in> C \<Longrightarrow> m x y \<longleftrightarrow> key x = key y"
  shows "ht_lookup (matched m ht) d = ht_lookup ht d"
  unfolding ht_lookup_def matched_simps
  by (rule find_agree) (use assms chain_within [OF assms(1,2)] ht_ok_match [OF assms(1)] in auto)

lemma remove_matched:
  assumes "ht_ok key ht" and "within C ht" and "d \<in> C" and "\<And>x y. x \<in> C \<Longrightarrow> y \<in> C \<Longrightarrow> m x y \<longleftrightarrow> key x = key y"
  shows "ht_remove (matched m ht) d = (fst (ht_remove ht d), matched m (snd (ht_remove ht d)))"
proof -
  let ?chain = "ht_table ht ! ht_bucket ht d"
  have "m d x \<longleftrightarrow> ht_match ht d x" if "x \<in> set ?chain" for x
    using assms chain_within [OF assms(1,2) that] ht_ok_match [OF assms(1)] by auto
  then have agree: "find (m d) ?chain = find (ht_match ht d) ?chain" "unlink (m d) ?chain = unlink (ht_match ht d) ?chain"
    by (auto intro: find_agree unlink_agree)
  show ?thesis
    unfolding ht_remove_def Let_def matched_simps agree
    by (cases "find (ht_match ht d) ?chain"; cases ?chain) (simp_all add: matched_def)
qed

text \<open>Insertion, through all resizes.\<close>

definition same_insert :: "('a \<Rightarrow> 'a \<Rightarrow> bool) \<Rightarrow> nat \<Rightarrow> mem \<Rightarrow> 'a ht \<Rightarrow> 'a \<Rightarrow> bool" where
  "same_insert m depth mem ht d \<longleftrightarrow>
     ht_insert_rec depth mem (matched m ht) d =
       map_option (\<lambda>(r, t, mem'). (r, matched m t, mem')) (ht_insert_rec depth mem ht d)"

lemma reinsert_matched:
  assumes ins: "\<And>mem ht d. ht_ok key ht \<Longrightarrow> B \<le> ht_buckets ht \<Longrightarrow> ht_size ht < N \<Longrightarrow> within C ht \<Longrightarrow> d \<in> C \<Longrightarrow>
      same_insert m depth mem ht d \<and> (\<exists>res. ht_insert_rec depth mem ht d = Some res \<and> insert_post key mem ht d res)"
    and "ht_ok key new" and "B \<le> ht_buckets new" and "ht_size new + length xs \<le> N" and "within C new" and "set xs \<subseteq> C"
  shows "ht_reinsert (ht_insert_rec depth) mem (matched m new) xs =
    map_option (\<lambda>(r, mem'). (map_option (matched m) r, mem')) (ht_reinsert (ht_insert_rec depth) mem new xs)"
  using assms(2-)
proof (induction xs arbitrary: new mem)
  case (Cons x xs)
  have "ht_size new < N" "x \<in> C" using Cons.prems(3,5) by simp_all
  from ins [OF Cons.prems(1,2) this(1) Cons.prems(4) this(2), of mem] obtain r new1 mem1
    where same: "same_insert m depth mem new x" and call: "ht_insert_rec depth mem new x = Some (r, new1, mem1)"
      and post: "insert_post key mem new x (r, new1, mem1)" by (metis prod_cases3)
  from same call have call': "ht_insert_rec depth mem (matched m new) x = Some (r, matched m new1, mem1)"
    by (simp add: same_insert_def)
  show ?case
  proof (cases "r = 0")
    case False
    with call call' show ?thesis by simp
  next
    case True
    with post have p: "ht_ok key new1" "ht_buckets new \<le> ht_buckets new1" "ht_content new1 = add_mset x (ht_content new)"
      by (auto simp: insert_post_def simp del: mset_concat)
    have "within C new1" using p(3) Cons.prems(4) \<open>x \<in> C\<close> by (simp add: within_content del: mset_concat)
    moreover have "ht_size new1 + length xs \<le> N"
      using Cons.prems(3) p(3) by (metis add_Suc_right add_Suc length_Cons mset.simps(2) size_mset)
    ultimately show ?thesis
      using Cons.IH [OF p(1) le_trans [OF Cons.prems(2) p(2)], of mem1] Cons.prems(5) call call' True by simp
  qed
qed simp

lemma resize_matched:
  assumes ok: "ht_ok key ht" and small: "ht_size ht < 2 ^ 30" and over: "ht_buckets ht < 2 * ht_size ht"
    and "within C ht"
    and ins: "\<And>mem new d. ht_ok key new \<Longrightarrow> 2 * ht_buckets ht \<le> ht_buckets new \<Longrightarrow> ht_size new < ht_size ht \<Longrightarrow>
      within C new \<Longrightarrow> d \<in> C \<Longrightarrow>
      same_insert m depth mem new d \<and> (\<exists>res. ht_insert_rec depth mem new d = Some res \<and> insert_post key mem new d res)"
  shows "ht_resize (ht_insert_rec depth) mem (matched m ht) =
    map_option (\<lambda>(r, t, mem'). (r, matched m t, mem')) (ht_resize (ht_insert_rec depth) mem ht)"
proof -
  have buckets: "ht_buckets ht * 2 mod 4294967296 = 2 * ht_buckets ht"
    using over small by simp
  obtain a mem1 where mal: "malloc mem = (a, mem1)" by (cases "malloc mem")
  let ?new = "\<lparr>ht_table = replicate (2 * ht_buckets ht) [], ht_buckets = 2 * ht_buckets ht, ht_records = 0,
    ht_collisions = 0, ht_hash = ht_hash ht, ht_match = ht_match ht, ht_del = False, ht_head = 0\<rparr>"
  show ?thesis
  proof (cases a)
    case False
    with mal show ?thesis by (simp add: ht_resize_def ht_init_def buckets)
  next
    case True
    have init: "ht_init [] (2 * ht_buckets ht) (ht_hash ht) (ht_match ht) False = (Some ?new, [])"
      by (simp add: ht_init_def)
    have new: "ht_ok key ?new"
      using ht_init_ok [OF ht_ok_match [OF ok] ht_ok_hash [OF ok] init] ht_ok_buckets [OF ok] by simp
    have nil: "concat (ht_table ?new) = []" by simp
    have w: "within C ?new" unfolding within_def nil by simp
    have n: "ht_size ?new + length (concat (ht_table ht)) \<le> ht_size ht" unfolding nil by simp
    have c: "set (concat (ht_table ht)) \<subseteq> C" using assms(4) by (simp only: within_def)
    have b: "2 * ht_buckets ht \<le> ht_buckets ?new" by simp
    have "ht_reinsert (ht_insert_rec depth) mem1 (matched m ?new) (concat (ht_table ht)) =
      map_option (\<lambda>(r, mem'). (map_option (matched m) r, mem'))
        (ht_reinsert (ht_insert_rec depth) mem1 ?new (concat (ht_table ht)))"
      by (rule reinsert_matched [OF ins new b n w c])
    moreover have "matched m ?new = ?new\<lparr>ht_match := m\<rparr>" by (simp add: matched_def)
    ultimately show ?thesis
      using True mal
      by (cases "ht_reinsert (ht_insert_rec depth) mem1 ?new (concat (ht_table ht))")
        (auto simp: ht_resize_def ht_init_def buckets Let_def split: option.split)
  qed
qed

lemma insert_rec_matched:
  assumes "ht_ok key ht" and "Suc (ht_size ht) < 2 ^ 30" and "depth_ok depth ht" and "within C ht" and "d \<in> C"
    and eq: "\<And>x y. x \<in> C \<Longrightarrow> y \<in> C \<Longrightarrow> m x y \<longleftrightarrow> key x = key y"
  shows "same_insert m depth mem ht d"
  using assms(1-5)
proof (induction depth arbitrary: mem ht d)
  case 0
  then show ?case by (simp add: same_insert_def)
next
  case (Suc depth)
  note ok = Suc.prems(1)
  have look: "ht_lookup (matched m ht) d = ht_lookup ht d"
    by (rule lookup_matched [OF ok Suc.prems(4,5) eq])
  obtain a mem1 where m: "malloc mem = (a, mem1)" by (cases "malloc mem")
  show ?case
  proof (cases "ht_lookup ht d = None \<and> a \<and> ht_overloaded (ht_link ht d)")
    case False
    with m look show ?thesis by (auto simp: same_insert_def)
  next
    case True
    let ?l = "ht_link ht d"
    have fresh: "ht_map key ht (key d) = None" using True ht_lookup_map [OF ok] by simp
    have l: "ht_ok key ?l" "ht_content ?l = add_mset d (ht_content ht)"
      using fresh ok by (auto intro: ht_link_ok ht_link_content simp del: mset_concat)
    have size: "ht_size ?l = Suc (ht_size ht)" using l(2) by (metis size_add_mset size_mset)
    have b: "ht_buckets ht < 2 * Suc (ht_size ht)" using True by (simp add: ht_overloaded_link [OF ok])
    have lb: "ht_buckets ?l = ht_buckets ht" by (simp add: ht_link_def Let_def)
    have "within C ?l" using l(2) Suc.prems(4,5) by (simp add: within_content del: mset_concat)
    moreover have "same_insert m depth mem' new d' \<and>
        (\<exists>res. ht_insert_rec depth mem' new d' = Some res \<and> insert_post key mem' new d' res)"
      if "ht_ok key new" "2 * ht_buckets ?l \<le> ht_buckets new" "ht_size new < ht_size ?l" "within C new" "d' \<in> C"
      for mem' new d'
    proof -
      have "Suc (ht_size new) < 2 ^ 30" using that(3) Suc.prems(2) size by simp
      moreover have "depth_ok depth new"
        using that(2,3) Suc.prems(3) b size lb ht_ok_buckets [OF ok] by (auto simp: depth_ok_def)
      ultimately show ?thesis
        using that Suc.IH [of new d' mem'] ht_insert_rec_ok [of key new depth mem' d'] by blast
    qed
    ultimately have "ht_resize (ht_insert_rec depth) mem1 (matched m ?l) =
      map_option (\<lambda>(r, t, mem'). (r, matched m t, mem')) (ht_resize (ht_insert_rec depth) mem1 ?l)"
      using l(1) size b lb Suc.prems(2) by (intro resize_matched [of key]) simp_all
    with True m look show ?thesis
      by (auto simp: same_insert_def split: option.split)
  qed
qed

lemma insert_matched:
  assumes "ht_ok key ht" and "Suc (ht_size ht) < 2 ^ 30" and "within C ht" and "d \<in> C"
    and "\<And>x y. x \<in> C \<Longrightarrow> y \<in> C \<Longrightarrow> m x y \<longleftrightarrow> key x = key y"
  shows "ht_insert mem (matched m ht) d = (case ht_insert mem ht d of (r, t, mem') \<Rightarrow> (r, matched m t, mem'))"
proof -
  have "depth_ok (nat (ht_records ht) + 3) ht"
    using ht_ok_records [OF assms(1)] by (auto simp: depth_ok_def simp del: length_concat)
  from insert_rec_matched [OF assms(1,2) this assms(3-)] show ?thesis
    by (auto simp: ht_insert_def same_insert_def split: option.split)
qed

subsection \<open>The contract of a driver\<close>

lemma memcmp_prefix: "memcmp (length xs) xs ys = Some 0 \<longleftrightarrow> (\<exists>r. xs @ r = ys)"
proof (induction xs arbitrary: ys)
  case (Cons x xs)
  then show ?case by (cases ys) (auto simp: word_uint_eq_iff)
qed simp

definition key_equal :: "vp \<Rightarrow> vp \<Rightarrow> bool" where
  "key_equal x y \<longleftrightarrow> vp_key x = vp_key y"

definition memdb_records :: "libc \<Rightarrow> var list \<Rightarrow> vp set" where
  "memdb_records L ss = {packed L vs | vs. conforms L ss vs}"

definition memdb_ok :: "libc \<Rightarrow> var list \<Rightarrow> vp ht \<Rightarrow> bool" where
  "memdb_ok L ss ht \<longleftrightarrow> ht_match ht = memdb_record_match \<and> ht_ok vp_key (matched key_equal ht) \<and>
     within (memdb_records L ss) ht"

text \<open>The fields that are stored under a key, as \<open>vp_unpack\<close> gives them back.\<close>

definition fields_of :: "libc \<Rightarrow> var list \<Rightarrow> vp \<Rightarrow> var list option" where
  "fields_of L ss vp =
     do { r \<leftarrow> vp_unpack L vp (record_of None 0 ss); v \<leftarrow> r; xs \<leftarrow> vlist_items v; Some (visible xs) }"

definition memdb_stored :: "libc \<Rightarrow> var list \<Rightarrow> vp ht \<Rightarrow> byte list \<rightharpoonup> var list" where
  "memdb_stored L ss ht k = Option.bind (ht_map vp_key (matched key_equal ht) k) (fields_of L ss)"

lemma vp_key_packed [simp]: "vp_key (packed L vs) = key_bytes L vs"
  by (simp add: packed_def vp_init_def)

lemma fields_of_packed: "conforms L ss vs \<Longrightarrow> fields_of L ss (packed L vs) = Some (map unpacked vs)"
  unfolding fields_of_def by (subst conforms_unpack) (auto simp: record_of_def vlist_items_def simp del: map_map)

lemma memdb_match:
  assumes "x \<in> memdb_records L ss" and "y \<in> memdb_records L ss"
  shows "memdb_record_match x y \<longleftrightarrow> vp_key x = vp_key y"
proof -
  obtain vs ws where "x = packed L vs" "y = packed L ws" "conforms L ss vs" "conforms L ss ws"
    using assms unfolding memdb_records_def by blast
  with key_bytes_prefix_iff [of L ss vs ws] show ?thesis
    by (simp only: memdb_record_match_def memcmp_prefix vp_key_packed)
qed

lemma memdb_okE:
  assumes "memdb_ok L ss ht"
  obtains t where "ht = matched memdb_record_match t" "ht_ok vp_key t" "within (memdb_records L ss) t"
    "matched key_equal ht = t"
proof
  show "ht = matched memdb_record_match (matched key_equal ht)" using assms by (simp add: memdb_ok_def matched_def)
qed (use assms in \<open>simp_all add: memdb_ok_def within_def\<close>)

lemma memdb_okI:
  assumes "ht_ok vp_key t" and "within (memdb_records L ss) t"
  shows "memdb_ok L ss (matched memdb_record_match t) \<and> matched key_equal (matched memdb_record_match t) = t"
proof -
  have "ht_match t = key_equal" using ht_ok_match [OF assms(1)] by (intro ext) (simp add: key_equal_def)
  then have "matched key_equal (matched memdb_record_match t) = t" by (simp add: matched_def)
  with assms show ?thesis by (simp add: memdb_ok_def within_def)
qed

lemma packed_record: "conforms L ss vs \<Longrightarrow> packed L vs \<in> memdb_records L ss"
  by (auto simp: memdb_records_def)

lemma remove_within: "ht_ok key t \<Longrightarrow> within C t \<Longrightarrow> within C (snd (ht_remove t d))"
proof (cases "ht_map key t (key d)")
  case (Some x)
  assume "ht_ok key t" "within C t"
  with ht_remove_found(2) [OF _ Some] show ?thesis unfolding within_content by auto
qed (simp add: ht_remove_absent)

definition memdb_room :: "nat \<Rightarrow> vp ht \<Rightarrow> bool" where
  "memdb_room n ht \<longleftrightarrow> ht_size ht + n < 2 ^ 30"

lemma memdb_get_stored:
  assumes "memdb_ok L ss h" and "conforms L ss vs"
  shows "memdb_get L (record_of sname sf ss) h (record_of name flags vs) =
    Some (0, map_option (record_of sname (VF_COPYNAME OR VF_CREATE)) (memdb_stored L ss h (key_bytes L vs)))"
proof -
  from memdb_okE [OF assms(1)] obtain t where t: "h = matched memdb_record_match t" "ht_ok vp_key t"
    "within (memdb_records L ss) t" "matched key_equal h = t" .
  have look: "ht_lookup h (packed L vs) = ht_map vp_key t (key_bytes L vs)"
    unfolding t(1) by (simp add: lookup_matched [OF t(2,3) packed_record [OF assms(2)] memdb_match] ht_lookup_map [OF t(2)])
  show ?thesis
  proof (cases "ht_map vp_key t (key_bytes L vs)")
    case None
    then show ?thesis
      unfolding memdb_get_def by (simp add: conforms_pack [OF assms(2)] look memdb_stored_def t(4))
  next
    case (Some vp)
    then have "vp \<in> set (concat (ht_table t))" by (simp add: ht_map_Some [OF t(2)])
    then obtain ws where ws: "vp = packed L ws" "conforms L ss ws" using t(3) by (auto simp: within_def memdb_records_def)
    with Some show ?thesis
      unfolding memdb_get_def
      by (simp add: conforms_pack [OF assms(2)] look memdb_stored_def t(4) conforms_unpack fields_of_packed)
  qed
qed

lemma memdb_remove:
  assumes "memdb_ok L ss h" and "conforms L ss vs"
  shows "\<exists>t. snd (ht_remove h (packed L vs)) = matched memdb_record_match t \<and> ht_ok vp_key t \<and>
    within (memdb_records L ss) t \<and> ht_size t \<le> ht_size h \<and>
    ht_map vp_key t = (ht_map vp_key (matched key_equal h))(key_bytes L vs := None)"
proof -
  from memdb_okE [OF assms(1)] obtain t where t: "h = matched memdb_record_match t" "ht_ok vp_key t"
    "within (memdb_records L ss) t" "matched key_equal h = t" .
  let ?t = "snd (ht_remove t (packed L vs))"
  have "snd (ht_remove h (packed L vs)) = matched memdb_record_match ?t"
    unfolding t(1) by (simp add: remove_matched [OF t(2,3) packed_record [OF assms(2)] memdb_match])
  moreover have "ht_size ?t \<le> ht_size h" using ht_remove_ok(4) [OF t(2)] by (simp only: t(1) matched_simps)
  ultimately show ?thesis
    using ht_remove_ok(1,3) [OF t(2), of "packed L vs"] remove_within [OF t(2,3), of "packed L vs"] t(4) by auto
qed

lemma memdb_set_stored:
  assumes "memdb_ok L ss h" and "memdb_room (Suc n) h" and "conforms L ss vs"
  shows "\<exists>h'. memdb_set L h (record_of name flags vs) = Some (0, h') \<and> memdb_ok L ss h' \<and> memdb_room n h' \<and>
    memdb_stored L ss h' = (memdb_stored L ss h)(key_bytes L vs \<mapsto> map unpacked vs)"
proof -
  obtain t where t: "snd (ht_remove h (packed L vs)) = matched memdb_record_match t" "ht_ok vp_key t"
    "within (memdb_records L ss) t" "ht_size t \<le> ht_size h"
    "ht_map vp_key t = (ht_map vp_key (matched key_equal h))(key_bytes L vs := None)"
    using memdb_remove [OF assms(1,3)] by blast
  have room: "Suc (ht_size t) + n < 2 ^ 30"
    using le_less_trans [OF add_le_mono1 [OF t(4)] assms(2) [unfolded memdb_room_def]] by simp
  obtain t' where t': "ht_insert [] t (packed L vs) = (0, t', [])" "ht_ok vp_key t'"
    "ht_content t' = add_mset (packed L vs) (ht_content t)" "ht_map vp_key t' = (ht_map vp_key t)(key_bytes L vs \<mapsto> packed L vs)"
    using ht_insert_new [OF t(2) add_lessD1 [OF room], of "packed L vs"] t(5) by auto
  have "ht_insert [] (matched memdb_record_match t) (packed L vs) = (0, matched memdb_record_match t', [])"
    using insert_matched [OF t(2) add_lessD1 [OF room] t(3) packed_record [OF assms(3)] memdb_match] t'(1) by simp
  then have "memdb_set L h (record_of name flags vs) = Some (0, matched memdb_record_match t')"
    unfolding memdb_set_def by (simp add: conforms_pack [OF assms(3)] t(1))
  moreover have "memdb_room n (matched memdb_record_match t')"
    using room t'(3) unfolding memdb_room_def matched_simps by (metis size_add_mset size_mset)
  moreover have "within (memdb_records L ss) t'"
    using t(3) packed_record [OF assms(3)] unfolding within_content t'(3) by auto
  moreover have "memdb_stored L ss (matched memdb_record_match t') = (memdb_stored L ss h)(key_bytes L vs \<mapsto> map unpacked vs)"
    if "matched key_equal (matched memdb_record_match t') = t'"
    unfolding memdb_stored_def fun_eq_iff that t'(4) t(5) by (simp add: fields_of_packed [OF assms(3)])
  ultimately show ?thesis using memdb_okI [OF t'(2), of L ss] by blast
qed

lemma memdb_del_stored:
  assumes "memdb_ok L ss h" and "conforms L ss vs"
  shows "\<exists>h'. memdb_del L h (record_of name flags vs) = Some (0, h') \<and> memdb_ok L ss h' \<and>
    (memdb_room n h \<longrightarrow> memdb_room n h') \<and> memdb_stored L ss h' = (memdb_stored L ss h)(key_bytes L vs := None)"
proof -
  obtain t where t: "snd (ht_remove h (packed L vs)) = matched memdb_record_match t" "ht_ok vp_key t"
    "within (memdb_records L ss) t" "ht_size t \<le> ht_size h"
    "ht_map vp_key t = (ht_map vp_key (matched key_equal h))(key_bytes L vs := None)"
    using memdb_remove [OF assms] by blast
  have "memdb_del L h (record_of name flags vs) = Some (0, matched memdb_record_match t)"
    unfolding memdb_del_def by (simp add: conforms_pack [OF assms(2)] t(1))
  moreover have "memdb_stored L ss (matched memdb_record_match t) = (memdb_stored L ss h)(key_bytes L vs := None)"
    if "matched key_equal (matched memdb_record_match t) = t"
    unfolding memdb_stored_def fun_eq_iff that t(5) by simp
  moreover have "memdb_room n h \<longrightarrow> memdb_room n (matched memdb_record_match t)"
    using t(4) unfolding memdb_room_def matched_simps by linarith
  ultimately show ?thesis using memdb_okI [OF t(2,3)] by blast
qed

interpretation memdb: record_store L sname ss "memdb_get L (record_of sname sf ss)" "memdb_set L" "memdb_del L"
  "memdb_ok L ss" memdb_room "memdb_stored L ss"
  for L sname sf ss
proof
  fix h vs name flags n
  assume ok: "memdb_ok L ss h" and vs: "conforms L ss vs"
  show "memdb_get L (record_of sname sf ss) h (record_of name flags vs) =
      Some (0, map_option (record_of sname (VF_COPYNAME OR VF_CREATE)) (memdb_stored L ss h (key_bytes L vs)))"
    by (rule memdb_get_stored [OF ok vs])
  show "\<exists>h'. memdb_set L h (record_of name flags vs) = Some (0, h') \<and> memdb_ok L ss h' \<and> memdb_room n h' \<and>
      memdb_stored L ss h' = (memdb_stored L ss h)(key_bytes L vs \<mapsto> map unpacked vs)" if "memdb_room (Suc n) h"
    by (rule memdb_set_stored [OF ok that vs])
  show "\<exists>h'. memdb_del L h (record_of name flags vs) = Some (0, h') \<and> memdb_ok L ss h' \<and>
      (memdb_room n h \<longrightarrow> memdb_room n h') \<and> memdb_stored L ss h' = (memdb_stored L ss h)(key_bytes L vs := None)"
    by (rule memdb_del_stored [OF ok vs])
qed

lemma memdb_open_ok: "memdb_ok L ss memdb_open" and memdb_open_room: "n < 2 ^ 30 \<Longrightarrow> memdb_room n memdb_open"
proof -
  have nil: "concat (ht_table memdb_open) = []" by (simp add: memdb_open_def)
  have init: "ht_init [] MEMDB_BUCKETS memdb_record_hash key_equal True = (Some (matched key_equal memdb_open), [])"
    by (simp add: ht_init_def memdb_open_def matched_def)
  have "ht_ok vp_key (matched key_equal memdb_open)"
    using ht_init_ok [OF _ _ init, of vp_key] by (simp add: key_equal_def memdb_record_hash_def MEMDB_BUCKETS_def)
  then show "memdb_ok L ss memdb_open" unfolding memdb_ok_def within_def nil by (simp add: memdb_open_def)
  show "memdb_room n memdb_open" if "n < 2 ^ 30" using that unfolding memdb_room_def nil by simp
qed

lemma memdb_open_stored: "memdb_stored L ss memdb_open k = None"
proof -
  have "concat (ht_table (matched key_equal memdb_open)) = []" by (simp add: memdb_open_def)
  then have "ht_map vp_key (matched key_equal memdb_open) k = None" by (simp only: ht_map_None) simp
  then show ?thesis by (simp add: memdb_stored_def)
qed

text \<open>
  C18: the database in memory keeps what is stored. In a well-formed table of records of one
  scheme, \<open>memdb_set\<close> of a record succeeds; after it \<open>memdb_get\<close> of a record with the same key
  fields returns that record, and of any other key what it returned before, although the match
  function of the table compares no more bytes than the key it looks for has.
\<close>

theorem memdb_get_set:
  assumes "memdb_ok L ss h" and "memdb_room 1 h" and "conforms L ss vs" and "conforms L ss ws"
  shows "\<exists>h'. memdb_set L h (record_of name flags vs) = Some (0, h') \<and> memdb_ok L ss h' \<and>
    memdb_get L (record_of sname sf ss) h' (record_of name' flags' ws) =
      (if map v_data (filter is_key ws) = map v_data (filter is_key vs)
       then Some (0, Some (record_of sname (VF_COPYNAME OR VF_CREATE) (map unpacked vs)))
       else memdb_get L (record_of sname sf ss) h (record_of name' flags' ws))"
  by (rule memdb.get_set [OF assms(1) _ assms(3,4), of 0]) (use assms(2) in simp)

theorem memdb_get_set_witness:
  "\<exists>h'. memdb_set word_libc memdb_open (record_of None 0 [Var VT_STRING (Some ''k'') (Some (DString ''ab'')) VF_KEY,
        Var VT_INT (Some ''n'') (Some (DInt 7)) 0]) = Some (0, h') \<and>
    memdb_get word_libc (record_of None 0 [Var VT_STRING (Some ''k'') None VF_KEY, Var VT_INT (Some ''n'') None 0]) h'
        (record_of None 0 [Var VT_STRING (Some ''k'') (Some (DString ''ab'')) VF_KEY, Var VT_INT (Some ''n'') None 0]) =
      Some (0, Some (record_of None (VF_COPYNAME OR VF_CREATE)
        [Var VT_STRING (Some ''k'') (Some (DString ''ab'')) (VF_COPY OR VF_KEY), Var VT_INT (Some ''n'') (Some (DInt 7)) VF_COPY]))"
proof -
  let ?ss = "[Var VT_STRING (Some ''k'') None VF_KEY, Var VT_INT (Some ''n'') None 0]"
  let ?rec = "\<lambda>d. [Var VT_STRING (Some ''k'') (Some (DString ''ab'')) VF_KEY, Var VT_INT (Some ''n'') d 0]"
  have key: "has_flag VF_KEY VF_KEY" "\<not> has_flag 0 VF_KEY" by (simp_all add: has_flag_def VF_KEY_def)
  have "conforms word_libc ?ss (?rec d)" if "d = None \<or> d = Some (DInt 7)" for d
    using that by (auto simp: conforms_def field_ok_def same_field_def is_key_def key storable_def i64_def vp_fits_defs)
  then have "conforms word_libc ?ss (?rec (Some (DInt 7)))" "conforms word_libc ?ss (?rec None)" by blast+
  from memdb_get_set [OF memdb_open_ok memdb_open_room this, simplified, of None 0 None 0 None 0] show ?thesis
    by (auto simp: unpacked_def is_key_def key)
qed

end
