(* ===== verification/Greylist_Spec.thy ===== *)
theory Greylist_Spec
  imports Greylist Memdb
begin

section \<open>What greylisting promises\<close>

text \<open>
  The table of the greylist as a map from triples of origin, sender and recipient to tuples, on
  top of any driver that keeps the contract of \<open>record_store\<close>: \<open>greylist_recipient\<close> refines one
  step on that map. The driver of \<open>modules/memdb.c\<close> keeps it, which gives the properties of runs
  of delivery attempts at the end.
\<close>

type_synonym triple = "string \<times> string \<times> string"

fun triple_ok :: "triple \<Rightarrow> bool" where
  "triple_ok (orig, sender, rcpt) \<longleftrightarrow> (\<forall>s \<in> {orig, sender, rcpt}. CHR 0x00 \<notin> set s) \<and>
     length orig + length sender + length rcpt + 3 < 2 ^ 31"

definition tuple_ok :: "tuple \<Rightarrow> bool" where
  "tuple_ok t \<longleftrightarrow> list_all i64 (tuple_ints t)"

subsection \<open>Rows of the table\<close>

fun row :: "u32 \<Rightarrow> u32 \<Rightarrow> triple \<Rightarrow> vdata option list \<Rightarrow> var list" where
  "row kf f (orig, sender, rcpt) ds =
     map2 (\<lambda>(name, t, _) d. Var t (Some name) d (if t = VT_STRING then kf else f)) greylist_fields
       (map (Some \<circ> DString) [orig, sender, rcpt] @ ds)"

definition tuple_data :: "tuple \<Rightarrow> vdata option list" where
  "tuple_data t = map (Some \<circ> DInt) (tuple_ints t)"

definition greylist_ss :: "var list" where
  "greylist_ss = map (\<lambda>(name, t, f). Var t (Some name) None f) greylist_fields"

abbreviation GL_KEY :: u32 where "GL_KEY \<equiv> 44"
abbreviation GL_FIELD :: u32 where "GL_FIELD \<equiv> 12"

lemma greylist_scheme_eq: "greylist_scheme = record_of (Some ''greylist'') 17 greylist_ss"
  by code_simp

lemma length_9:
  assumes "length xs = 9"
  obtains a b c d e f g h i where "xs = [a, b, c, d, e, f, g, h, i]"
  using assms by (auto simp: numeral_eq_Suc length_Suc_conv)

lemma row_flags:
  "var_create t name d GL_KEY = Some (Var t name d GL_KEY)" "var_create t name d GL_FIELD = Some (Var t name d GL_FIELD)"
  "record_flags (VF_KEEPNAME OR VF_KEY) = GL_KEY" "record_flags VF_KEEPNAME = GL_FIELD"
  by (intro create_kept; simp add: sanitize_def has_flag_def vf_defs)+ (simp_all add: record_flags_def vf_defs)

lemma greylist_create_record: "vlist_create (Some ''greylist'') VF_KEEPNAME = Some (record_of (Some ''greylist'') 20 [])"
  by code_simp

lemma greylist_record_eq:
  assumes "length is = 9"
  shows "greylist_record (Some orig) (Some sender) (Some rcpt) is =
    Some (Some (record_of (Some ''greylist'') 20 (row GL_KEY GL_FIELD (orig, sender, rcpt) (map (map_option DInt) is))))"
proof -
  let ?args = "map2 (\<lambda>v d. (v_type v, v_name v, d, record_flags (v_flags v))) greylist_ss
    (map (map_option DString) [Some orig, Some sender, Some rcpt] @ map (map_option DInt) is)"
  from length_9 [OF assms] obtain a b c d e f g h j where items: "is = [a, b, c, d, e, f, g, h, j]" .
  have "append_all (record_of (Some ''greylist'') 20 []) ?args =
      Some (Some (record_of (Some ''greylist'') 20 ([] @ map (\<lambda>(t, name, d, flags). Var t name d flags) ?args)))"
    by (rule append_all_kept) (simp add: items greylist_ss_def greylist_fields_def row_flags)
  also have "map (\<lambda>(t, name, d, flags). Var t name d flags) ?args =
      row GL_KEY GL_FIELD (orig, sender, rcpt) (map (map_option DInt) is)"
    by (simp add: items greylist_ss_def greylist_fields_def row_flags)
  finally show ?thesis
    unfolding greylist_record_def greylist_scheme_eq vlist_record_def
    by (simp add: record_of_def vlist_items_def greylist_create_record [unfolded record_of_def] assms greylist_ss_def greylist_fields_def)
qed

lemma keyed_flags [simp]: "keyed GL_KEY GL_FIELD" "keyed (VF_COPY OR VF_KEY) VF_COPY"
  by (simp_all add: keyed_def has_flag_def vf_defs)

lemma row_same_fields: "keyed kf ff \<Longrightarrow> length ds = 9 \<Longrightarrow> list_all2 same_field greylist_ss (row kf ff k ds)"
  by (cases k, erule length_9) (simp add: greylist_ss_def greylist_fields_def same_field_def is_key_def keyed_def has_flag_def vf_defs)

lemma row_conforms:
  assumes "keyed kf ff" and "triple_ok k" and "length is = 9" and "\<forall>i \<in> set is. case i of None \<Rightarrow> True | Some i \<Rightarrow> i64 i"
  shows "conforms L greylist_ss (row kf ff k (map (map_option DInt) is))"
proof -
  obtain orig sender rcpt where k: "k = (orig, sender, rcpt)" by (cases k)
  from length_9 [OF assms(3)] obtain a b c d e f g h j where items: "is = [a, b, c, d, e, f, g, h, j]" .
  have "field_ok L (Var VT_INT (Some n) (map_option DInt x) ff)" if "case x of None \<Rightarrow> True | Some i \<Rightarrow> i64 i" for n x
    using that assms(1) by (auto simp: field_ok_def is_key_def keyed_def storable_def split: option.splits)
  moreover have "field_ok L (Var VT_STRING (Some n) (Some (DString s)) kf)" if "s \<in> {orig, sender, rcpt}" for n s
    using that assms(2) by (auto simp: k field_ok_def storable_def)
  ultimately have "\<forall>v \<in> set (row kf ff k (map (map_option DInt) is)). field_ok L v"
    using assms(4) by (simp add: k items greylist_fields_def)
  moreover have "vp_fits L (row kf ff k (map (map_option DInt) is))"
    using assms(1,2) by (intro ints_fit) (auto simp: k items greylist_fields_def key_bytes_def field_bytes_def is_key_def keyed_def)
  ultimately show ?thesis using row_same_fields [OF assms(1), of "map (map_option DInt) is" k] assms(3)
    by (simp add: conforms_def k items greylist_fields_def)
qed

lemma row_keys: "keyed kf ff \<Longrightarrow> length ds = 9 \<Longrightarrow> map v_data (filter is_key (row kf ff k ds)) =
    (case k of (orig, sender, rcpt) \<Rightarrow> map (Some \<circ> DString) [orig, sender, rcpt])"
  by (cases k, erule length_9) (simp add: greylist_fields_def is_key_def keyed_def)

lemma row_unpacked: "keyed kf ff \<Longrightarrow> length ds = 9 \<Longrightarrow> map unpacked (row kf ff k ds) = row (VF_COPY OR VF_KEY) VF_COPY k ds"
  by (cases k, erule length_9) (simp add: greylist_fields_def unpacked_def is_key_def keyed_def)

lemma row_read: "read_tuple (record_of n f (row kf ff k (tuple_data t))) = Some t"
  by (cases k) (simp add: read_tuple_def vlist_dereference_def vlist_items_def record_of_def greylist_fields_def
      tuple_data_def tuple_ints_def as_int_def)

lemma row_write: "write_tuple (record_of n f (row kf ff k (tuple_data t))) t' = Some (record_of n f (row kf ff k (tuple_data t')))"
  by (cases k) (simp add: write_tuple_def vlist_items_def record_of_def greylist_fields_def tuple_data_def tuple_ints_def put_int_def)

subsection \<open>The table as a map\<close>

definition triple_key :: "libc \<Rightarrow> triple \<Rightarrow> byte list" where
  "triple_key L k = key_bytes L (row GL_KEY GL_FIELD k (replicate 9 None))"

definition gl_tuples :: "libc \<Rightarrow> ('h \<Rightarrow> byte list \<rightharpoonup> var list) \<Rightarrow> 'h \<Rightarrow> triple \<rightharpoonup> tuple" where
  "gl_tuples L stored h k =
     (if triple_ok k then do { vs \<leftarrow> stored h (triple_key L k); read_tuple (record_of None 0 vs) } else None)"

definition gl_row :: "triple \<Rightarrow> tuple \<Rightarrow> var list" where
  "gl_row k t = row (VF_COPY OR VF_KEY) VF_COPY k (tuple_data t)"

definition gl_rows :: "libc \<Rightarrow> ('h \<Rightarrow> byte list \<rightharpoonup> var list) \<Rightarrow> 'h \<Rightarrow> bool" where
  "gl_rows L stored h \<longleftrightarrow>
     (\<forall>k vs. triple_ok k \<longrightarrow> stored h (triple_key L k) = Some vs \<longrightarrow> (\<exists>t. tuple_ok t \<and> vs = gl_row k t))"

lemma tuple_data_conforms:
  assumes "keyed kf ff" and "triple_ok k" and "tuple_ok t"
  shows "conforms L greylist_ss (row kf ff k (tuple_data t))"
proof -
  have "tuple_data t = map (map_option DInt) (map Some (tuple_ints t))" by (simp add: tuple_data_def)
  with row_conforms [OF assms(1,2), of "map Some (tuple_ints t)"] assms(3) show ?thesis
    by (simp add: tuple_ok_def tuple_ints_def)
qed

lemma lookup_conforms: "triple_ok k \<Longrightarrow> conforms L greylist_ss (row GL_KEY GL_FIELD k (replicate 9 None))"
  using row_conforms [of GL_KEY GL_FIELD k "replicate 9 None"] by simp

lemma length_tuple_data [simp]: "length (tuple_data t) = 9"
  by (simp add: tuple_data_def tuple_ints_def)

lemma row_key:
  assumes "keyed kf ff" and "triple_ok k" and "tuple_ok t"
  shows "key_bytes L (row kf ff k (tuple_data t)) = triple_key L k"
proof -
  have "length (replicate 9 (None :: vdata option)) = 9" by simp
  then show ?thesis
    unfolding triple_key_def key_bytes_fields [OF tuple_data_conforms [OF assms] lookup_conforms [OF assms(2)]]
    using row_keys [OF keyed_flags(1), of "replicate 9 None" k] row_keys [OF assms(1), of "tuple_data t" k]
    by (simp del: row.simps)
qed

lemma triple_key_inj:
  assumes "triple_ok k" and "triple_ok k'"
  shows "triple_key L k = triple_key L k' \<longleftrightarrow> k = k'"
  unfolding triple_key_def key_bytes_fields [OF lookup_conforms [OF assms(1)] lookup_conforms [OF assms(2)]]
  using row_keys [OF keyed_flags(1), of "replicate 9 None"]
  by (cases k; cases k') (simp del: row.simps)

subsection \<open>One recipient\<close>

text \<open>What becomes of a triple: of a new one, and of one that is known and has not expired.\<close>

definition initial :: "int \<Rightarrow> tuple" where
  "initial received =
     \<lparr>t_created = received, t_updated = received, t_expire = 0, t_connections = 1, t_deadline = 0, t_delay = 0,
      t_attempts = 0, t_visa = 0, t_passed = 0\<rparr>"

definition admitted :: "'h env \<Rightarrow> int \<Rightarrow> tuple \<Rightarrow> tuple" where
  "admitted E received t =
     (let deadline = (if t_deadline t = 0 then cf_greylist_deadline E else t_deadline t);
          visa = (if t_visa t = 0 then cf_greylist_visa E else t_visa t) in
      t\<lparr>t_deadline := deadline, t_visa := visa, t_expire := wrap64 (received + deadline)\<rparr>)"

definition passes :: "int \<Rightarrow> tuple \<Rightarrow> bool" where
  "passes received t \<longleftrightarrow> wrap32 (received - t_created t) > t_delay t \<and> t_connections t > t_attempts t"

definition visited :: "int \<Rightarrow> bool \<Rightarrow> tuple \<Rightarrow> tuple" where
  "visited received counted t =
     (if passes received t
      then t\<lparr>t_expire := wrap64 (received + t_visa t), t_passed := (if counted then t_passed t else wrap64 (t_passed t + 1)),
             t_updated := received\<rparr>
      else t\<lparr>t_expire := wrap64 (t_created t + t_deadline t), t_passed := 0, t_updated := received\<rparr>)"

definition connected_again :: "tuple \<Rightarrow> tuple" where
  "connected_again t = t\<lparr>t_connections := wrap64 (t_connections t + 1)\<rparr>"

text \<open>
  A rule that gives all four properties, as expressions that always have the same values and
  change nothing, in messages with the attributes and literals \<open>x\<close>.
\<close>

type_synonym terms = "int \<times> int \<times> int \<times> int"

definition constant_rule :: "'h env \<Rightarrow> greylist \<Rightarrow> xstate \<Rightarrow> terms \<Rightarrow> bool" where
  "constant_rule E gl x = (\<lambda>(deadline, delay, attempts, visa).
     gl_flags gl = GLF_DEADLINE OR GLF_DELAY OR GLF_ATTEMPTS OR GLF_VISA \<and>
     (\<forall>w. w_x w = x \<longrightarrow>
        greylist_eval E (gl_deadline gl) w = Some (Some deadline, w) \<and> greylist_eval E (gl_delay gl) w = Some (Some delay, w) \<and>
        greylist_eval E (gl_attempts gl) w = Some (Some attempts, w) \<and> greylist_eval E (gl_visa gl) w = Some (Some visa, w)))"

definition ruled :: "terms \<Rightarrow> tuple \<Rightarrow> tuple" where
  "ruled = (\<lambda>(deadline, delay, attempts, visa) t.
     t\<lparr>t_deadline := deadline, t_delay := delay, t_attempts := attempts, t_visa := visa,
       t_expire := wrap64 (t_created t + deadline)\<rparr>)"

lemma constant_rule_properties:
  assumes "constant_rule E gl x p" and "w_x w = x"
  shows "greylist_properties E gl t w = Some (Some (ruled p t), w)" and "gl_flags gl \<noteq> 0"
  using assms by (auto simp: constant_rule_def greylist_properties_def property_def ruled_def glf_defs split: prod.split_asm)

text \<open>One contact of a triple, on the map.\<close>

definition contact :: "'h env \<Rightarrow> terms \<Rightarrow> int \<Rightarrow> tuple option \<Rightarrow> int \<times> tuple" where
  "contact E p received old =
     (case old of
        Some t \<Rightarrow>
          if t_expire t < received then (1, admitted E received (ruled p (initial received)))
          else (let t1 = connected_again (ruled p t) in
                (if passes received t1 then 0 else 1, visited received False t1))
      | None \<Rightarrow> (1, admitted E received (ruled p (initial received))))"

definition terms_ok :: "terms \<Rightarrow> bool" where
  "terms_ok = (\<lambda>(deadline, delay, attempts, visa). list_all i64 [deadline, delay, attempts, visa])"

lemma tuple_steps_ok:
  assumes "i64 received"
  shows "tuple_ok (initial received)" and "tuple_ok t \<Longrightarrow> terms_ok p \<Longrightarrow> tuple_ok (ruled p t)"
    and "tuple_ok t \<Longrightarrow> tuple_ok (connected_again t)" and "tuple_ok t \<Longrightarrow> tuple_ok (visited received counted t)"
    and "tuple_ok t \<Longrightarrow> i64 (cf_greylist_deadline E) \<Longrightarrow> i64 (cf_greylist_visa E) \<Longrightarrow> tuple_ok (admitted E received t)"
proof -
  have "i64 0" "i64 1" by (simp_all add: i64_def)
  with assms show "tuple_ok (initial received)" by (simp add: tuple_ok_def tuple_ints_def initial_def)
  show "tuple_ok t \<Longrightarrow> terms_ok p \<Longrightarrow> tuple_ok (ruled p t)"
    by (cases p) (simp add: tuple_ok_def tuple_ints_def ruled_def terms_ok_def)
  show "tuple_ok t \<Longrightarrow> tuple_ok (connected_again t)" by (simp add: tuple_ok_def tuple_ints_def connected_again_def)
  show "tuple_ok t \<Longrightarrow> tuple_ok (visited received counted t)"
    using assms \<open>i64 0\<close> by (simp add: tuple_ok_def tuple_ints_def visited_def)
  show "tuple_ok t \<Longrightarrow> i64 (cf_greylist_deadline E) \<Longrightarrow> i64 (cf_greylist_visa E) \<Longrightarrow> tuple_ok (admitted E received t)"
    by (simp add: tuple_ok_def tuple_ints_def admitted_def Let_def)
qed

lemma contact_ok:
  assumes "terms_ok p" and "i64 received" and "i64 (cf_greylist_deadline E)" and "i64 (cf_greylist_visa E)"
    and "\<And>t. old = Some t \<Longrightarrow> tuple_ok t"
  shows "tuple_ok (snd (contact E p received old))"
  using assms by (auto simp: contact_def Let_def tuple_steps_ok split: option.split)

text \<open>The first time a recipient is counted in a message.\<close>

lemma counted_first:
  assumes "m name = None"
  shows "\<exists>m1. greylist_tuple_counted m name needle = Some (0, m1) \<and> (\<forall>k. k \<noteq> name \<longrightarrow> m1 k = m k)"
proof -
  have l: "vlist_create (Some name) VF_COPYNAME = Some (record_of (Some name) (VF_COPYNAME OR VF_CREATE) [])"
    by (simp add: vlist_create_def var_create_def var_init_def var_data_init_def sanitize_def has_flag_def vf_defs record_of_def)
  have v: "var_create VT_STRING None (Some (DString needle)) (VF_KEEPNAME OR VF_COPYDATA) =
    Some (Var VT_STRING None (Some (DString needle)) (VF_KEEPNAME OR VF_COPYDATA))"
    by (simp add: var_create_def var_init_def var_data_init_def attribute_flags)
  show ?thesis
    unfolding greylist_tuple_counted_def Let_def spec_list_append_new_def spec_list_get_def
    by (simp add: spec_get_def assms l vlist_append_new_def v vlist_append_def vlist_items_def record_of_def)
qed

lemma known_visited:
  assumes "w_spec w ''greylist_connection_counted'' = None" and "w_spec w ''greylist_passed_counted'' = None"
  shows "\<exists>delay w2. w_db w2 = w_db w \<and>
    greylist_known E (record_of n f (gl_row k t0)) t rcpt received w =
      do {
        (r, w3) \<leftarrow> dbt_db_set E w2 (record_of n f (gl_row k (visited received False (connected_again t))));
        Some (if r \<noteq> 0 then -1 else if passes received (connected_again t) then 0 else 1, delay, w3) }"
proof -
  from counted_first [of "w_spec w" "''greylist_connection_counted''" rcpt, OF assms(1)] obtain m1 where
    m1: "greylist_tuple_counted (w_spec w) ''greylist_connection_counted'' rcpt = Some (0, m1)"
      "m1 ''greylist_passed_counted'' = None" using assms(2) by auto
  from counted_first [of m1 "''greylist_passed_counted''" rcpt, OF m1(2)] obtain m2 where
    m2: "greylist_tuple_counted m1 ''greylist_passed_counted'' rcpt = Some (0, m2)" by auto
  note [simp del] = row.simps
  show ?thesis
  proof (cases "passes received (connected_again t)")
    case True
    then show ?thesis
      unfolding greylist_known_def m1(1) Let_def gl_row_def
      by (intro exI [of _ "set_spec (set_spec w m1) m2"] exI)
        (auto simp: m2 passes_def connected_again_def visited_def row_write)
  next
    case False
    then show ?thesis
      unfolding greylist_known_def m1(1) Let_def gl_row_def
      by (intro exI [of _ 0] exI [of _ "set_spec w m1"])
        (auto simp: passes_def connected_again_def visited_def row_write)
  qed
qed

locale greylist_store =
  record_store L "Some ''greylist''" greylist_ss "dd_get (e_driver E)" "dd_set (e_driver E)" "dd_del (e_driver E)" ok room stored
  for L :: libc and E :: "'h env" and ok room stored
begin

lemma get_row:
  assumes "ok h" and "gl_rows L stored h" and "triple_ok k"
  shows "dd_get (e_driver E) h (record_of name flags (row GL_KEY GL_FIELD k (replicate 9 None))) =
    Some (0, map_option (\<lambda>t. record_of (Some ''greylist'') (VF_COPYNAME OR VF_CREATE) (gl_row k t)) (gl_tuples L stored h k))"
    and "gl_tuples L stored h k = Some t \<Longrightarrow> tuple_ok t"
proof -
  have "stored h (triple_key L k) = map_option (gl_row k) (gl_tuples L stored h k) \<and>
      (\<forall>t. gl_tuples L stored h k = Some t \<longrightarrow> tuple_ok t)"
  proof (cases "stored h (triple_key L k)")
    case (Some vs)
    then obtain t where "tuple_ok t" "vs = gl_row k t" using assms(2,3) unfolding gl_rows_def by blast
    with Some assms(3) show ?thesis by (simp add: gl_tuples_def gl_row_def row_read del: row.simps)
  qed (simp add: gl_tuples_def)
  then show "gl_tuples L stored h k = Some t \<Longrightarrow> tuple_ok t"
    and "dd_get (e_driver E) h (record_of name flags (row GL_KEY GL_FIELD k (replicate 9 None))) =
      Some (0, map_option (\<lambda>t. record_of (Some ''greylist'') (VF_COPYNAME OR VF_CREATE) (gl_row k t)) (gl_tuples L stored h k))"
    unfolding get [OF assms(1) lookup_conforms [OF assms(3)]] triple_key_def [symmetric]
    by (simp_all add: option.map_comp comp_def)
qed

lemma set_row:
  assumes "ok h" and "gl_rows L stored h" and "room (Suc n) h" and "triple_ok k" and "tuple_ok t" and "keyed kf ff"
  shows "\<exists>h'. dd_set (e_driver E) h (record_of name flags (row kf ff k (tuple_data t))) = Some (0, h') \<and>
    ok h' \<and> gl_rows L stored h' \<and> room n h' \<and> gl_tuples L stored h' = (gl_tuples L stored h)(k \<mapsto> t)"
proof -
  let ?vs = "row kf ff k (tuple_data t)"
  have key: "key_bytes L ?vs = triple_key L k" by (rule row_key [OF assms(6,4,5)])
  have un: "map unpacked ?vs = gl_row k t" unfolding gl_row_def by (rule row_unpacked [OF assms(6) length_tuple_data])
  from set [OF assms(1,3) tuple_data_conforms [OF assms(6,4,5)]] obtain h' where
    h': "dd_set (e_driver E) h (record_of name flags ?vs) = Some (0, h')" "ok h'" "room n h'"
      "stored h' = (stored h)(triple_key L k \<mapsto> gl_row k t)"
    unfolding key un by blast
  have look: "stored h' (triple_key L k') = (if k' = k then Some (gl_row k t) else stored h (triple_key L k'))"
    if "triple_ok k'" for k'
    using triple_key_inj [OF that assms(4)] by (simp add: h'(4))
  have "gl_rows L stored h'"
    using assms(2,5) unfolding gl_rows_def by (metis look option.inject)
  moreover have "gl_tuples L stored h' = (gl_tuples L stored h)(k \<mapsto> t)"
    using assms(4) by (auto simp: gl_tuples_def look fun_eq_iff gl_row_def row_read simp del: row.simps)
  ultimately show ?thesis using h' by blast
qed

lemma recipient_contact:
  assumes "ok (w_db w)" and "gl_rows L stored (w_db w)" and "room (Suc n) (w_db w)" and "triple_ok (orig, sender, rcpt)"
    and rule: "constant_rule E gl (w_x w) p" and "terms_ok p" and "i64 received"
    and "i64 (cf_greylist_deadline E)" and "i64 (cf_greylist_visa E)"
    and fresh: "w_spec w ''greylist_connection_counted'' = None" "w_spec w ''greylist_passed_counted'' = None"
  shows "\<exists>delay w'. greylist_recipient E gl (Some orig) (Some sender) (Some rcpt) received w =
      Some (fst (contact E p received (gl_tuples L stored (w_db w) (orig, sender, rcpt))), delay, w') \<and>
    ok (w_db w') \<and> gl_rows L stored (w_db w') \<and> room n (w_db w') \<and>
    gl_tuples L stored (w_db w') = (gl_tuples L stored (w_db w))((orig, sender, rcpt) \<mapsto>
      snd (contact E p received (gl_tuples L stored (w_db w) (orig, sender, rcpt))))"
proof -
  let ?k = "(orig, sender, rcpt)" and ?h = "w_db w"
  let ?old = "gl_tuples L stored ?h ?k"
  let ?t = "snd (contact E p received ?old)"
  have tok: "tuple_ok ?t" by (intro contact_ok assms) (rule get_row(2) [OF assms(1,2,4)])
  note keep = set_row [OF assms(1,2,3,4) tok]
  have store: "\<exists>w'. dbt_db_set E w1 (record_of name flags (row kf ff ?k (tuple_data ?t))) = Some (0, w') \<and>
      ok (w_db w') \<and> gl_rows L stored (w_db w') \<and> room n (w_db w') \<and>
      gl_tuples L stored (w_db w') = (gl_tuples L stored ?h)(?k \<mapsto> ?t)"
    if "w_db w1 = ?h" "keyed kf ff" for w1 :: "'h world" and name flags kf ff
    using keep [OF that(2), of name flags] that(1) by (auto simp: dbt_db_set_def Let_def simp del: row.simps)
  have look: "greylist_record (Some orig) (Some sender) (Some rcpt) (replicate 9 None) =
      Some (Some (record_of (Some ''greylist'') 20 (row GL_KEY GL_FIELD ?k (replicate 9 None))))"
    using greylist_record_eq [of "replicate 9 None" orig sender rcpt] by (simp del: row.simps)
  have add: "\<exists>w'. greylist_add E gl (Some orig) (Some sender) (Some rcpt) received w = Some (1, w') \<and>
      ok (w_db w') \<and> gl_rows L stored (w_db w') \<and> room n (w_db w') \<and>
      gl_tuples L stored (w_db w') = (gl_tuples L stored ?h)(?k \<mapsto> ?t)"
    if "?t = admitted E received (ruled p (initial received))"
  proof -
    have "map (map_option DInt) (map Some (tuple_ints ?t)) = tuple_data ?t" by (simp add: tuple_data_def)
    moreover have "length (map Some (tuple_ints ?t)) = 9" by (simp add: tuple_ints_def)
    ultimately have "greylist_record (Some orig) (Some sender) (Some rcpt) (map Some (tuple_ints ?t)) =
        Some (Some (record_of (Some ''greylist'') 20 (row GL_KEY GL_FIELD ?k (tuple_data ?t))))"
      using greylist_record_eq [of "map Some (tuple_ints ?t)" orig sender rcpt] by (simp del: row.simps)
    with store [of w GL_KEY GL_FIELD "Some ''greylist''" 20] constant_rule_properties(1) [OF rule refl, of "initial received"] that
    show ?thesis
      unfolding greylist_add_def initial_def [symmetric] by (auto simp: admitted_def Let_def simp del: row.simps)
  qed
  have get: "dbt_db_get E w (record_of (Some ''greylist'') 20 (row GL_KEY GL_FIELD ?k (replicate 9 None))) =
    Some (0, map_option (\<lambda>t. record_of (Some ''greylist'') (VF_COPYNAME OR VF_CREATE) (gl_row ?k t)) ?old)"
    unfolding dbt_db_get_def get_row(1) [OF assms(1,2,4)] by simp
  show ?thesis
  proof (cases "\<exists>t. ?old = Some t \<and> \<not> t_expire t < received")
    case False
    then have new: "contact E p received ?old = (1, admitted E received (ruled p (initial received)))"
      by (auto simp: contact_def split: option.split)
    then have "?t = admitted E received (ruled p (initial received))" by simp
    from add [OF this] False new show ?thesis
      unfolding greylist_recipient_def Let_def look bind.bind_lunit option.case get prod.case
      using constant_rule_properties(2) [OF rule refl]
      by (cases ?old) (auto simp: gl_row_def row_read simp del: row.simps)
  next
    case True
    then obtain t where t: "?old = Some t" "\<not> t_expire t < received" by blast
    have "\<exists>delay w'. greylist_known E (record_of (Some ''greylist'') (VF_COPYNAME OR VF_CREATE) (gl_row ?k t))
        (ruled p t) rcpt received w = Some (fst (contact E p received ?old), delay, w') \<and>
      ok (w_db w') \<and> gl_rows L stored (w_db w') \<and> room n (w_db w') \<and>
      gl_tuples L stored (w_db w') = (gl_tuples L stored ?h)(?k \<mapsto> ?t)"
    proof -
      from known_visited [OF fresh, of E "Some ''greylist''" "VF_COPYNAME OR VF_CREATE" ?k t "ruled p t" rcpt received]
      obtain delay w2 where w2: "w_db w2 = ?h"
        "greylist_known E (record_of (Some ''greylist'') (VF_COPYNAME OR VF_CREATE) (gl_row ?k t)) (ruled p t) rcpt received w =
          do { (r, w3) \<leftarrow> dbt_db_set E w2 (record_of (Some ''greylist'') (VF_COPYNAME OR VF_CREATE)
                 (gl_row ?k (visited received False (connected_again (ruled p t)))));
               Some (if r \<noteq> 0 then -1 else if passes received (connected_again (ruled p t)) then 0 else 1, delay, w3) }"
        by blast
      have c: "contact E p received ?old =
          (if passes received (connected_again (ruled p t)) then 0 else 1, visited received False (connected_again (ruled p t)))"
        using t by (simp add: contact_def Let_def)
      from store [OF w2(1) keyed_flags(2), of "Some ''greylist''" "VF_COPYNAME OR VF_CREATE"] c show ?thesis
        unfolding w2(2) unfolding gl_row_def by (auto simp del: row.simps)
    qed
    with t show ?thesis
      unfolding greylist_recipient_def Let_def look bind.bind_lunit option.case get prod.case
      using constant_rule_properties(1) [OF rule refl, of t]
      by (auto simp: gl_row_def row_read simp del: row.simps)
  qed
qed

end

subsection \<open>Runs of attempts\<close>

text \<open>
  Messages of one triple that arrive at the times \<open>ts\<close>, each with the attributes \<open>x\<close> of a fresh
  message: the answers, 1 for deferred and 0 for passed.
\<close>

fun greylist_attempts_run ::
  "'h env \<Rightarrow> greylist \<Rightarrow> triple \<Rightarrow> xstate \<Rightarrow> int list \<Rightarrow> 'h world \<Rightarrow> (int list \<times> 'h world) option" where
  "greylist_attempts_run E gl k x [] w = Some ([], w)"
| "greylist_attempts_run E gl (orig, sender, rcpt) x (t # ts) w =
     do {
       (d, _, w1) \<leftarrow> greylist_recipient E gl (Some orig) (Some sender) (Some rcpt) t (w\<lparr>w_x := x\<rparr>);
       (ds, w2) \<leftarrow> greylist_attempts_run E gl (orig, sender, rcpt) x ts w1;
       Some (d # ds, w2) }"

fun contacts :: "'h env \<Rightarrow> terms \<Rightarrow> int list \<Rightarrow> tuple option \<Rightarrow> int list" where
  "contacts E p [] old = []"
| "contacts E p (t # ts) old = fst (contact E p t old) # contacts E p ts (Some (snd (contact E p t old)))"

context greylist_store
begin

lemma run_contacts:
  assumes "ok (w_db w)" and "gl_rows L stored (w_db w)" and "room (length ts) (w_db w)" and "triple_ok k"
    and "constant_rule E gl x p" and "terms_ok p" and "\<forall>t \<in> set ts. i64 t"
    and "i64 (cf_greylist_deadline E)" and "i64 (cf_greylist_visa E)"
    and "xs_spec x ''greylist_connection_counted'' = None" and "xs_spec x ''greylist_passed_counted'' = None"
  shows "\<exists>w'. greylist_attempts_run E gl k x ts w = Some (contacts E p ts (gl_tuples L stored (w_db w) k), w')"
  using assms(1-3,7)
proof (induction ts arbitrary: w)
  case (Cons t ts)
  obtain orig sender rcpt where k: "k = (orig, sender, rcpt)" by (cases k)
  have "room (Suc (length ts)) (w_db (w\<lparr>w_x := x\<rparr>))" using Cons.prems(3) by simp
  from recipient_contact [OF _ _ this, of orig sender rcpt gl p t] assms(4-6,8-11) Cons.prems(1,2,4)
  obtain delay w1 where w1: "greylist_recipient E gl (Some orig) (Some sender) (Some rcpt) t (w\<lparr>w_x := x\<rparr>) =
        Some (fst (contact E p t (gl_tuples L stored (w_db w) k)), delay, w1)"
      "ok (w_db w1)" "gl_rows L stored (w_db w1)" "room (length ts) (w_db w1)"
      "gl_tuples L stored (w_db w1) k = Some (snd (contact E p t (gl_tuples L stored (w_db w) k)))"
    by (auto simp: k)
  from Cons.IH [OF w1(2-4)] Cons.prems(4) w1(1,5) show ?case by (auto simp: k)
qed simp

end

text \<open>
  Times are seconds below \<open>2 ^ 31\<close>, so that no age wraps.
\<close>

definition clock :: "int list \<Rightarrow> bool" where
  "clock ts \<longleftrightarrow> (\<forall>t \<in> set ts. 0 \<le> t \<and> t < 2 ^ 31) \<and> length ts < 2 ^ 30"

text \<open>
  The message that has opened the tuple to which the message number \<open>i\<close> belongs, told from the times and
  answers alone: a message opens a new tuple when it comes after the tuple of the message before it has
  expired, which is the visa after a message that has passed, and the deadline after the one that has
  opened the tuple when it was deferred.
\<close>

fun opened :: "terms \<Rightarrow> int list \<Rightarrow> int list \<Rightarrow> nat \<Rightarrow> nat" where
  "opened p ts ds 0 = 0"
| "opened (deadline, delay, attempts, visa) ts ds (Suc i) =
     (let j = opened (deadline, delay, attempts, visa) ts ds i in
      if ts ! Suc i \<le> wrap64 (if ds ! i = 0 then ts ! i + visa else ts ! j + deadline) then j else Suc i)"

lemma opened_le: "opened p ts ds i \<le> i"
  by (cases p, induction i) (auto simp: Let_def)

text \<open>The tuple that is stored before the message number \<open>i\<close>.\<close>

fun tuple_at :: "'h env \<Rightarrow> terms \<Rightarrow> int list \<Rightarrow> tuple option \<Rightarrow> nat \<Rightarrow> tuple option" where
  "tuple_at E p ts old 0 = old"
| "tuple_at E p ts old (Suc i) = Some (snd (contact E p (ts ! i) (tuple_at E p ts old i)))"

lemma tuple_at_Cons: "tuple_at E p (t # ts) old (Suc i) = tuple_at E p ts (Some (snd (contact E p t old))) i"
  by (induction i) simp_all

lemma contacts_nth: "i < length ts \<Longrightarrow> contacts E p ts old ! i = fst (contact E p (ts ! i) (tuple_at E p ts old i))"
proof (induction ts arbitrary: old i)
  case (Cons t ts)
  then show ?case by (cases i) (simp_all add: tuple_at_Cons del: tuple_at.simps(2))
qed simp

lemma ruled_simps [simp]:
  "t_created (ruled p t) = t_created t" "t_connections (ruled p t) = t_connections t"
  "t_delay (ruled (dl, de, at, vi) t) = de" "t_attempts (ruled (dl, de, at, vi) t) = at"
  "t_deadline (ruled (dl, de, at, vi) t) = dl" "t_visa (ruled (dl, de, at, vi) t) = vi"
  by (simp_all add: ruled_def split: prod.split)

lemma connected_again_simps [simp]:
  "t_created (connected_again t) = t_created t" "t_delay (connected_again t) = t_delay t"
  "t_attempts (connected_again t) = t_attempts t" "t_deadline (connected_again t) = t_deadline t"
  "t_visa (connected_again t) = t_visa t" "t_connections (connected_again t) = wrap64 (t_connections t + 1)"
  by (simp_all add: connected_again_def)

lemma visited_simps [simp]:
  "t_created (visited now c t) = t_created t" "t_connections (visited now c t) = t_connections t"
  "t_expire (visited now c t) = wrap64 (if passes now t then now + t_visa t else t_created t + t_deadline t)"
  by (simp_all add: visited_def)

lemma admitted_simps [simp]:
  "t_created (admitted E now t) = t_created t" "t_connections (admitted E now t) = t_connections t"
  "t_deadline t \<noteq> 0 \<Longrightarrow> t_expire (admitted E now t) = wrap64 (now + t_deadline t)"
  by (simp_all add: admitted_def Let_def)

lemma initial_simps [simp]: "t_created (initial now) = now" "t_connections (initial now) = 1"
  by (simp_all add: initial_def)

text \<open>The tuple goes back to the message that has opened it, and has counted all messages since.\<close>

lemma contact_opened:
  fixes ts :: "int list" and E :: "'h env" and deadline delay attempts visa :: int
  defines "p \<equiv> (deadline, delay, attempts, visa)" and "ds \<equiv> contacts E (deadline, delay, attempts, visa) ts None"
  assumes "clock ts" and "deadline \<noteq> 0" and "i < length ts"
  shows "(\<exists>t. tuple_at E p ts None (Suc i) = Some t \<and> t_created t = ts ! opened p ts ds i \<and>
      t_connections t = int (i - opened p ts ds i) + 1 \<and>
      t_expire t = wrap64 (if ds ! i = 0 then ts ! i + visa else ts ! opened p ts ds i + deadline)) \<and>
    ds ! i = (let j = opened p ts ds i in if j < i \<and> ts ! j + delay < ts ! i \<and> attempts \<le> int (i - j) then 0 else 1)"
  using assms(5)
proof (induction i)
  case 0
  have c: "contact E p (ts ! 0) None = (1, admitted E (ts ! 0) (ruled p (initial (ts ! 0))))" by (simp add: contact_def)
  with 0 contacts_nth [of 0 ts E p None] assms(4) show ?case by (simp add: ds_def p_def)
next
  case (Suc i)
  let ?j = "opened p ts ds i" and ?now = "ts ! Suc i"
  have i: "i < length ts" "Suc i < length ts" using Suc.prems by simp_all
  from Suc.IH [OF i(1)] obtain t where t: "tuple_at E p ts None (Suc i) = Some t" "t_created t = ts ! ?j"
    "t_connections t = int (i - ?j) + 1" "t_expire t = wrap64 (if ds ! i = 0 then ts ! i + visa else ts ! ?j + deadline)" by blast
  have d: "ds ! Suc i = fst (contact E p ?now (Some t))"
    using contacts_nth [OF i(2), of E p None] t(1) by (simp only: ds_def p_def [symmetric])
  have u: "tuple_at E p ts None (Suc (Suc i)) = Some (snd (contact E p ?now (Some t)))"
    by (subst tuple_at.simps(2)) (simp only: t(1))
  have o: "opened p ts ds (Suc i) = (if t_expire t < ?now then Suc i else ?j)" unfolding p_def by (simp add: t(4) [unfolded p_def] Let_def)
  show ?case
  proof (cases "t_expire t < ?now")
    case True
    then have "contact E p ?now (Some t) = (1, admitted E ?now (ruled p (initial ?now)))" by (simp add: contact_def)
    with True d u o assms(4) show ?thesis by (simp add: p_def)
  next
    case False
    let ?t = "connected_again (ruled p t)"
    have c: "contact E p ?now (Some t) = (if passes ?now ?t then 0 else 1, visited ?now False ?t)"
      using False by (simp add: contact_def Let_def)
    have j: "?j \<le> i" by (rule opened_le)
    have "0 \<le> ts ! ?j" "ts ! ?j < 2 ^ 31" "0 \<le> ?now" "?now < 2 ^ 31" "length ts < 2 ^ 30"
      using assms(3) i j by (simp_all add: clock_def)
    then have w: "wrap32 (?now - ts ! ?j) = ?now - ts ! ?j" "wrap64 (int (i - ?j) + 1 + 1) = int (i - ?j) + 1 + 1"
      using i(2) by (auto intro!: wrap32_id wrap64_id simp: i32_def i64_def)
    have n: "int (Suc i - ?j) + 1 = int (i - ?j) + 1 + 1" using j by simp
    have pass: "passes ?now ?t \<longleftrightarrow> ts ! ?j + delay < ?now \<and> attempts \<le> int (Suc i - ?j)"
      using w n t(2,3) by (auto simp: passes_def p_def)
    have v: "t_created (visited ?now False ?t) = ts ! ?j" "t_connections (visited ?now False ?t) = int (Suc i - ?j) + 1"
      "t_expire (visited ?now False ?t) = wrap64 (if passes ?now ?t then ?now + visa else ts ! ?j + deadline)"
      using t(2,3) w n by (simp_all add: p_def)
    have new: "opened p ts ds (Suc i) = ?j" "ds ! Suc i = (if passes ?now ?t then 0 else 1)"
      "tuple_at E p ts None (Suc (Suc i)) = Some (visited ?now False ?t)" using o d u c False by simp_all
    show ?thesis unfolding new Let_def using v pass j by (simp del: visited_simps)
  qed
qed

text \<open>Attempts within the deadline of the first.\<close>

definition in_window :: "int \<Rightarrow> terms \<Rightarrow> int \<Rightarrow> tuple \<Rightarrow> bool" where
  "in_window t0 p n t \<longleftrightarrow> t_created t = t0 \<and> t_connections t = n \<and> t0 + fst p \<le> t_expire t"

lemma contact_in_window:
  assumes "in_window t0 (dl, de, at, vi) n t" and "0 \<le> t0" and "t0 \<le> now" and "now \<le> t0 + dl" and "now < 2 ^ 31"
    and "0 < dl" and "dl \<le> vi" and "vi < 2 ^ 62" and "0 \<le> n" and "n < 2 ^ 30"
  shows "in_window t0 (dl, de, at, vi) (n + 1) (snd (contact E (dl, de, at, vi) now (Some t)))"
    and "fst (contact E (dl, de, at, vi) now (Some t)) = (if t0 + de < now \<and> at < n + 1 then 0 else 1)"
proof -
  let ?t = "connected_again (ruled (dl, de, at, vi) t)"
  have c: "contact E (dl, de, at, vi) now (Some t) = (if passes now ?t then 0 else 1, visited now False ?t)"
    using assms by (simp add: contact_def Let_def in_window_def)
  have w: "wrap32 (now - t0) = now - t0" "wrap64 (n + 1) = n + 1" "wrap64 (now + vi) = now + vi" "wrap64 (t0 + dl) = t0 + dl"
    using assms(2-) by (auto intro!: wrap32_id wrap64_id simp: i32_def i64_def)
  show "in_window t0 (dl, de, at, vi) (n + 1) (snd (contact E (dl, de, at, vi) now (Some t)))"
    using assms w by (simp add: c in_window_def)
  show "fst (contact E (dl, de, at, vi) now (Some t)) = (if t0 + de < now \<and> at < n + 1 then 0 else 1)"
    using assms(1) w by (auto simp: c in_window_def passes_def)
qed

lemma contacts_in_window:
  assumes "in_window t0 (dl, de, at, vi) n t" and "\<forall>now \<in> set ts. t0 \<le> now \<and> now \<le> t0 + dl \<and> now < 2 ^ 31"
    and "0 \<le> t0" and "0 < dl" and "dl \<le> vi" and "vi < 2 ^ 62" and "0 \<le> n" and "n + int (length ts) < 2 ^ 30" and "i < length ts"
  shows "contacts E (dl, de, at, vi) ts (Some t) ! i = (if t0 + de < ts ! i \<and> at < n + int i + 1 then 0 else 1)"
  using assms
proof (induction ts arbitrary: n t i)
  case (Cons now ts)
  note step = contact_in_window [OF Cons.prems(1,3) _ _ _ Cons.prems(4-7), of now E]
  show ?case
  proof (cases i)
    case 0
    with step(2) Cons.prems(2,8) show ?thesis by simp
  next
    case (Suc i')
    have "in_window t0 (dl, de, at, vi) (n + 1) (snd (contact E (dl, de, at, vi) now (Some t)))"
      using step(1) Cons.prems(2,8) by simp
    from Cons.IH [OF this _ Cons.prems(3-6), of i'] Cons.prems(2,7-9) Suc show ?thesis by (simp add: algebra_simps)
  qed
qed simp

subsection \<open>Greylisting on the database in memory\<close>

definition memdb_driver :: "libc \<Rightarrow> vp ht dbt_driver" where
  "memdb_driver L = \<lparr>dd_get = memdb_get L greylist_scheme, dd_set = memdb_set L, dd_del = memdb_del L\<rparr>"

abbreviation on_memdb :: "libc \<Rightarrow> vp ht env \<Rightarrow> vp ht env" where
  "on_memdb L E \<equiv> E\<lparr>e_driver := memdb_driver L\<rparr>"

interpretation gl_memdb: greylist_store L "on_memdb L E" "memdb_ok L greylist_ss" memdb_room "memdb_stored L greylist_ss"
  for L E
proof -
  have "record_store L (Some ''greylist'') greylist_ss (memdb_get L greylist_scheme) (memdb_set L) (memdb_del L)
      (memdb_ok L greylist_ss) memdb_room (memdb_stored L greylist_ss)"
    unfolding greylist_scheme_eq by (rule memdb.record_store_axioms)
  then show "greylist_store L (on_memdb L E) (memdb_ok L greylist_ss) memdb_room (memdb_stored L greylist_ss)"
    by (simp add: greylist_store_def memdb_driver_def)
qed

text \<open>The attributes of a message on its way to the greylist, and the configuration.\<close>

definition greylist_setting :: "libc \<Rightarrow> vp ht env \<Rightarrow> greylist \<Rightarrow> triple \<Rightarrow> xstate \<Rightarrow> terms \<Rightarrow> bool" where
  "greylist_setting L E gl k x p \<longleftrightarrow>
     triple_ok k \<and> constant_rule (on_memdb L E) gl x p \<and> terms_ok p \<and>
     i64 (cf_greylist_deadline E) \<and> i64 (cf_greylist_visa E) \<and>
     xs_spec x ''greylist_connection_counted'' = None \<and> xs_spec x ''greylist_passed_counted'' = None"

lemma memdb_run_contacts:
  assumes "greylist_setting L E gl k x p" and "clock ts" and "w_db w = memdb_open"
  shows "\<exists>w'. greylist_attempts_run (on_memdb L E) gl k x ts w = Some (contacts (on_memdb L E) p ts None, w')"
proof -
  have none: "gl_tuples L (memdb_stored L greylist_ss) (w_db w) k = None"
    by (simp add: gl_tuples_def assms(3) memdb_open_stored)
  have rows: "gl_rows L (memdb_stored L greylist_ss) (w_db w)"
    by (simp add: gl_rows_def assms(3) memdb_open_stored)
  have times: "\<forall>t \<in> set ts. i64 t" using assms(2) by (auto simp: clock_def i64_def)
  have ok: "memdb_ok L greylist_ss (w_db w)" "memdb_room (length ts) (w_db w)"
    using assms(2,3) memdb_open_ok memdb_open_room by (simp_all add: clock_def)
  have s: "triple_ok k" "constant_rule (on_memdb L E) gl x p" "terms_ok p"
    "i64 (cf_greylist_deadline (on_memdb L E))" "i64 (cf_greylist_visa (on_memdb L E))"
    "xs_spec x ''greylist_connection_counted'' = None" "xs_spec x ''greylist_passed_counted'' = None"
    using assms(1) unfolding greylist_setting_def by simp_all
  from gl_memdb.run_contacts [OF ok(1) rows ok(2) s(1-3) times s(4-7)] show ?thesis by (simp only: none)
qed

text \<open>A rule \<open>greylist deadline 3600 delay 300 attempts 2 visa 7200\<close> for concrete runs.\<close>

definition demo_rule :: greylist where
  "demo_rule = greylist_visa (greylist_attempts (greylist_delay (greylist_deadline greylist_create
     (EX_CONSTANT 3601)) (EX_CONSTANT 301)) (EX_CONSTANT 3)) (EX_CONSTANT 7201)"

definition memdb_env :: "vp ht env" where
  "memdb_env = \<lparr>e_x = (\<lambda>_. demo_env), e_driver = memdb_driver word_libc, e_answer = (\<lambda>_ _. 0), cf_acl_log_level = 6,
     cf_greylist_deadline = 3600, cf_greylist_visa = 7200, cf_tarpit_progress_interval = 10, cf_dbt_fatal_errors = False\<rparr>"

definition empty_world :: "vp ht world" where
  "empty_world = \<lparr>w_x = demo_state, w_db = memdb_open, w_calls = []\<rparr>"

lemma demo_setting: "greylist_setting word_libc memdb_env demo_rule (''o'', ''f'', ''r'') demo_state (3600, 300, 2, 7200)"
proof -
  have "greylist_eval (on_memdb word_libc memdb_env) (Some (EX_CONSTANT (Suc n))) w = Some (Some (int n), w)"
    if "w_x w = demo_state" for n and w :: "vp ht world"
    by (simp add: greylist_eval_def w_eval_def that deref_opt_def deref_def demo_state_def as_int_def that [symmetric])
  from this [of _ 3600] this [of _ 300] this [of _ 2] this [of _ 7200]
  have "constant_rule (on_memdb word_libc memdb_env) demo_rule demo_state (3600, 300, 2, 7200)"
    by (simp add: constant_rule_def demo_rule_def greylist_visa_def greylist_attempts_def greylist_delay_def
        greylist_deadline_def greylist_create_def glf_defs)
  then show ?thesis
    by (simp add: greylist_setting_def terms_ok_def i64_def memdb_env_def demo_state_def)
qed





end
