(* ===== verification/Watchdog.thy ===== *)
theory Watchdog
  imports Mailspec
begin

section \<open>Connections that take too long (watchdog.c)\<close>

text \<open>
  \<open>src/src/watchdog.c\<close> keeps, per connection, the stage it is in and when it entered it; the time
  is an argument. The strings of an entry are those of the attributes of the connection.
\<close>

record watchdog_t =
  wd_id :: string
  wd_stage :: string
  wd_hostaddr :: string
  wd_received :: int
  wd_instage :: int

definition watchdog_create :: "string \<Rightarrow> string \<Rightarrow> string \<Rightarrow> int \<Rightarrow> watchdog_t" where
  "watchdog_create id0 stage hostaddr now =
     \<lparr>wd_id = id0, wd_stage = stage, wd_hostaddr = hostaddr, wd_received = now, wd_instage = now\<rparr>"

definition watchdog_init :: "watchdog_t sht option \<Rightarrow> watchdog_t sht option" where
  "watchdog_init tbl = (case tbl of None \<Rightarrow> fst (sht_init [] 256 True) | Some t \<Rightarrow> Some t)"

text \<open>Assigning to the entry that a lookup has returned.\<close>

definition sht_write :: "'d sht \<Rightarrow> string \<Rightarrow> 'd \<Rightarrow> 'd sht" where
  "sht_write sht key d =
     sht\<lparr>sht_ht := ht_assign (\<lambda>sr. if sr_key sr = key then sr\<lparr>sr_data := Some d\<rparr> else sr) (sht_ht sht)\<rparr>"

definition watchdog :: "mailspec \<Rightarrow> string \<Rightarrow> int \<Rightarrow> watchdog_t sht option \<Rightarrow> watchdog_t sht option option" where
  "watchdog m stage now tbl0 =
     do {
       tbl \<leftarrow> watchdog_init tbl0;
       (case (spec_get m ''id'', spec_get m ''hostaddr_str'') of
          (Some i, Some h) \<Rightarrow>
            do {
              id0 \<leftarrow> as_string (Some i);
              (case sht_lookup tbl id0 of
                 None \<Rightarrow>
                   do {
                     hostaddr \<leftarrow> as_string (Some h);
                     Some (Some (fst (snd (sht_insert [] tbl id0 (Some (watchdog_create id0 stage hostaddr now)))))) }
               | Some wd \<Rightarrow> Some (Some (sht_write tbl id0 (wd\<lparr>wd_stage := stage, wd_instage := now\<rparr>)))) }
        | _ \<Rightarrow> Some (Some tbl)) }"

text \<open>\<open>watchdog_check\<close>: the entries that are logged, with their age and the time in the stage.\<close>

definition watchdog_slow :: "int \<Rightarrow> int \<Rightarrow> watchdog_t list \<Rightarrow> (string \<times> string \<times> string \<times> int \<times> int) list" where
  "watchdog_slow timeout now wds =
     map (\<lambda>wd. (wd_id wd, wd_stage wd, wd_hostaddr wd, now - wd_received wd, now - wd_instage wd))
       (filter (\<lambda>wd. \<not> now - wd_received wd \<le> timeout) wds)"

definition watchdog_check :: "int \<Rightarrow> int \<Rightarrow> watchdog_t sht option \<Rightarrow> (string \<times> string \<times> string \<times> int \<times> int) list option" where
  "watchdog_check timeout now tbl0 =
     do {
       tbl \<leftarrow> watchdog_init tbl0;
       Some (watchdog_slow timeout now (List.map_filter sr_data (ht_elements (sht_ht tbl)))) }"

definition watchdog_close :: "mailspec \<Rightarrow> watchdog_t sht option \<Rightarrow> watchdog_t sht option option" where
  "watchdog_close m tbl0 =
     (case spec_get m ''id'' of
        None \<Rightarrow> Some tbl0
      | i \<Rightarrow>
          do {
            id0 \<leftarrow> as_string i;
            tbl \<leftarrow> tbl0;
            Some (Some (snd (sht_remove tbl id0))) })"

subsection \<open>The entries\<close>

lemma sht_write_ok:
  assumes "sht_ok t" and "sht_lookup t k \<noteq> None"
  shows "sht_ok (sht_write t k d)" and "sht_lookup (sht_write t k d) = (sht_lookup t)(k \<mapsto> d)"
proof -
  let ?f = "\<lambda>sr. if sr_key sr = k then sr\<lparr>sr_data := Some d\<rparr> else sr"
  show ok: "sht_ok (sht_write t k d)"
    using assms(1) unfolding sht_ok_def sht_write_def by (simp add: ht_assign_ok)
  have m: "sht_map (sht_write t k d) k' = map_option ?f (sht_map t k')" for k'
    unfolding sht_map_def sht_write_def by (simp add: ht_assign_map)
  show "sht_lookup (sht_write t k d) = (sht_lookup t)(k \<mapsto> d)"
  proof (rule ext)
    fix k'
    show "sht_lookup (sht_write t k d) k' = ((sht_lookup t)(k \<mapsto> d)) k'"
    proof (cases "sht_map t k'")
      case None
      with assms(2) show ?thesis by (auto simp: sht_lookup_map [OF ok] sht_lookup_map [OF assms(1)] m)
    next
      case (Some sr)
      with sht_map_key [OF assms(1) Some] show ?thesis
        by (simp add: sht_lookup_map [OF ok] sht_lookup_map [OF assms(1)] m)
    qed
  qed
qed

text \<open>All entries have data.\<close>

definition wd_ok :: "watchdog_t sht \<Rightarrow> bool" where
  "wd_ok t \<longleftrightarrow> sht_ok t \<and> sht_room t \<and> (\<forall>k sr. sht_map t k = Some sr \<longrightarrow> sr_data sr \<noteq> None)"

text \<open>
  the watchdog remembers when a connection began and where it is. A call for a connection with
  an identifier and an address creates its entry, or moves the entry to the new stage and time
  and leaves the time of the first call; other entries stay. Closing the connection removes it.
\<close>

theorem watchdog_tracks:
  assumes "wd_ok t" and "spec_get m ''id'' = Some (DString i)" and "spec_get m ''hostaddr_str'' = Some (DString h)"
  shows "\<exists>t' t''. watchdog m stage now (Some t) = Some (Some t') \<and> watchdog_close m (Some t') = Some (Some t'') \<and>
    sht_lookup t' = (sht_lookup t)(i \<mapsto> (case sht_lookup t i of
      None \<Rightarrow> \<lparr>wd_id = i, wd_stage = stage, wd_hostaddr = h, wd_received = now, wd_instage = now\<rparr>
    | Some wd \<Rightarrow> wd\<lparr>wd_stage := stage, wd_instage := now\<rparr>)) \<and>
    sht_lookup t'' = (sht_lookup t)(i := None)"
proof -
  have ok: "sht_ok t" and room: "sht_room t" using assms(1) by (simp_all add: wd_ok_def)
  have "\<exists>t'. watchdog m stage now (Some t) = Some (Some t') \<and> sht_ok t' \<and>
    sht_lookup t' = (sht_lookup t)(i \<mapsto> (case sht_lookup t i of
      None \<Rightarrow> \<lparr>wd_id = i, wd_stage = stage, wd_hostaddr = h, wd_received = now, wd_instage = now\<rparr>
    | Some wd \<Rightarrow> wd\<lparr>wd_stage := stage, wd_instage := now\<rparr>))"
  proof (cases "sht_lookup t i")
    case None
    then have "sht_map t i = None"
      using assms(1) unfolding wd_ok_def sht_lookup_map [OF ok] by (cases "sht_map t i") auto
    from sht_insert_new [OF ok room this, of "Some (watchdog_create i stage h now)"] obtain t' where
      t': "sht_insert [] t i (Some (watchdog_create i stage h now)) = (0, t', [])" "sht_ok t'"
        "sht_map t' = (sht_map t)(i \<mapsto> \<lparr>sr_key = i, sr_data = Some (watchdog_create i stage h now)\<rparr>)" by blast
    then have "sht_lookup t' = (sht_lookup t)(i \<mapsto> watchdog_create i stage h now)"
      by (auto simp: fun_eq_iff sht_lookup_map [OF ok] sht_lookup_map [OF t'(2)])
    with None t' show ?thesis
      by (simp add: watchdog_def watchdog_init_def assms(2,3) as_defs watchdog_create_def)
  next
    case (Some wd)
    with sht_write_ok [OF ok, of i "wd\<lparr>wd_stage := stage, wd_instage := now\<rparr>"] show ?thesis
      by (simp add: watchdog_def watchdog_init_def assms(2,3) as_defs)
  qed
  then obtain t' where t': "watchdog m stage now (Some t) = Some (Some t')" "sht_ok t'"
    "sht_lookup t' = (sht_lookup t)(i \<mapsto> (case sht_lookup t i of
      None \<Rightarrow> \<lparr>wd_id = i, wd_stage = stage, wd_hostaddr = h, wd_received = now, wd_instage = now\<rparr>
    | Some wd \<Rightarrow> wd\<lparr>wd_stage := stage, wd_instage := now\<rparr>))" by blast
  have rm: "sht_ok (snd (sht_remove t' i))" "sht_map (snd (sht_remove t' i)) = (sht_map t')(i := None)"
    using sht_remove_ok [OF t'(2), of i] by blast+
  then have "sht_lookup (snd (sht_remove t' i)) = (sht_lookup t')(i := None)"
    by (auto simp: fun_eq_iff sht_lookup_map [OF rm(1)] sht_lookup_map [OF t'(2)])
  with t' show ?thesis by (simp add: watchdog_close_def assms(2) as_defs)
qed

theorem watchdog_tracks_witness:
  "\<exists>t t'. watchdog [''id'' \<mapsto> Var VT_STRING (Some ''id'') (Some (DString ''x'')) 0,
        ''hostaddr_str'' \<mapsto> Var VT_STRING (Some ''hostaddr_str'') (Some (DString ''h'')) 0] ''helo'' 7 (Some t) = Some (Some t') \<and>
    map_option wd_stage (sht_lookup t' ''x'') = Some ''helo''"
proof -
  let ?m = "[''id'' \<mapsto> Var VT_STRING (Some ''id'') (Some (DString ''x'')) 0,
    ''hostaddr_str'' \<mapsto> Var VT_STRING (Some ''hostaddr_str'') (Some (DString ''h'')) 0]"
  obtain t :: "watchdog_t sht" where t: "sht_ok t" "sht_map t = Map.empty" using sht_create_ok [of 1 True] by auto
  have "concat (ht_table (sht_ht t)) = []"
    using t(2) ht_map_None [of sr_key "sht_ht t"] by (fastforce simp: sht_map_def)
  then have "sht_room t" unfolding sht_room_def ht_room_def by (simp only: list.size) simp
  then have "wd_ok t" using t by (simp add: wd_ok_def)
  moreover have "spec_get ?m ''id'' = Some (DString ''x'')" "spec_get ?m ''hostaddr_str'' = Some (DString ''h'')"
    by (simp_all add: spec_get_def)
  ultimately obtain t' where "watchdog ?m ''helo'' 7 (Some t) = Some (Some t')"
    "sht_lookup t' = (sht_lookup t)(''x'' \<mapsto> (case sht_lookup t ''x'' of
      None \<Rightarrow> \<lparr>wd_id = ''x'', wd_stage = ''helo'', wd_hostaddr = ''h'', wd_received = 7, wd_instage = 7\<rparr>
    | Some wd \<Rightarrow> wd\<lparr>wd_stage := ''helo'', wd_instage := 7\<rparr>))"
    using watchdog_tracks [of t ?m "''x''" "''h''" "''helo''" 7] by blast
  moreover from this have "map_option wd_stage (sht_lookup t' ''x'') = Some ''helo''"
    by (simp split: option.split)
  ultimately show ?thesis by blast
qed

end
