(* ===== verification/Milter.thy ===== *)
theory Milter
  imports Acl Watchdog Regdom
begin

section \<open>The stages of a connection (milter.c)\<close>

text \<open>
  \<open>src/src/milter.c\<close>: the callbacks that libmilter calls for every stage of a connection. Each
  sets the attributes of its stage, evaluates the table of rules with the name of the stage and
  translates the answer. A connection has the private data of \<open>smfi_setpriv\<close>, whose attributes
  \<open>mp_table\<close> are those of the \<open>world\<close>.

  Attributes can lack memory, and \<open>realloc\<close> can fail for the buffers of a message; other allocations
  succeed here. The strings \<open>headers\<close> and \<open>body\<close> of a message are not copied into its
  attributes; when their buffers are freed or moved the attributes keep the old pointer, which is
  written as a pointer that is no string. The attribute \<open>body\<close> has all bytes of the body, also
  those after a \<open>NUL\<close>.
\<close>

datatype sfsistat = SMFIS_CONTINUE | SMFIS_REJECT | SMFIS_DISCARD | SMFIS_ACCEPT | SMFIS_TEMPFAIL

record milter_priv =
  mp_recipients :: int
  mp_header :: "string option"
  mp_headerlen :: int
  mp_body :: "string option"
  mp_bodylen :: int
  mp_eom_complete :: int

record 'h conn =
  c_priv :: "milter_priv option"
  c_world :: "'h world"
  c_watchdog :: "watchdog_t sht option"

text \<open>
  The callbacks of modules after a stage, the macros of the mail server, the clock, random numbers,
  the registered domains and the allocator are arguments: which allocation fails when an attribute
  is set, whether a buffer can grow to a size, and what fresh memory holds.
\<close>

datatype grant = Granted | No_variable | No_record

record 'h milter_env =
  m_env :: "'h env"
  m_tables :: acl_tables
  m_update :: "int \<Rightarrow> acl_action_type \<Rightarrow> 'h world \<Rightarrow> 'h world option"
  m_getsymval :: "call list \<Rightarrow> string \<Rightarrow> string option"
  m_gettimeofday :: "call list \<Rightarrow> (int \<times> int) option"
  m_rand :: "call list \<Rightarrow> u32"
  m_ucs4 :: "string \<Rightarrow> nat list option"
  m_punycode :: "nat list \<Rightarrow> nat \<Rightarrow> string option"
  m_regdom :: regdom_table
  m_grant :: "call list \<Rightarrow> mailspec \<Rightarrow> string \<Rightarrow> grant"
  m_realloc :: "call list \<Rightarrow> int \<Rightarrow> bool"
  m_memory :: "call list \<Rightarrow> nat \<Rightarrow> char"
  cf_watchdog_stage_timeout :: int

definition milter_symbols :: "(string \<times> int) list" where
  "milter_symbols =
     [(''milter_ctx'', MS_ANY), (''action'', MS_OFF_CONNECT), (''id'', MS_ANY OR MS_INIT), (''stage'', MS_ANY),
      (''stagename'', MS_ANY), (''unknown_command'', MS_UNKNOWN), (''received'', MS_ANY OR MS_INIT), (''hostaddr'', MS_ANY),
      (''hostaddr_str'', MS_ANY), (''ipv6'', MS_ANY), (''hostname'', MS_ANY), (''origin'', MS_ANY), (''helo'', MS_OFF_HELO),
      (''envfrom'', MS_OFF_ENVFROM), (''envfrom_addr'', MS_OFF_ENVFROM), (''envfrom_domain'', MS_OFF_ENVFROM),
      (''envrcpt'', MS_OFF_ENVRCPT), (''envrcpt_addr'', MS_OFF_ENVRCPT), (''envrcpt_domain'', MS_OFF_ENVRCPT),
      (''recipients'', MS_OFF_ENVRCPT), (''recipient_list'', MS_OFF_DATA), (''header_name'', MS_HEADER),
      (''header_value'', MS_HEADER), (''headers'', MS_OFF_EOH), (''headers_size'', MS_OFF_EOH), (''message_id'', MS_OFF_EOH),
      (''queue_id'', MS_OFF_DATA), (''subject'', MS_OFF_EOH), (''body'', MS_OFF_EOM), (''body_size'', MS_OFF_EOM),
      (''message_size'', MS_OFF_EOM), (''eom_complete'', MS_ANY)]"

text \<open>
  Registration of symbols (\<open>acl.c\<close>): a name that is taken ends the program. \<open>milter_load_symbols\<close>
  registers those of the stages, without callbacks.
\<close>

type_synonym symbol_table = "string \<rightharpoonup> acl_symbol"

definition acl_symbol_insert :: "symbol_table \<Rightarrow> string \<Rightarrow> acl_symbol \<Rightarrow> symbol_table option" where
  "acl_symbol_insert tbl name as = (if tbl name \<noteq> None then None else Some (tbl(name \<mapsto> as)))"

definition acl_symbol_register ::
  "symbol_table \<Rightarrow> string \<Rightarrow> int \<Rightarrow> symbol_callback option \<Rightarrow> bool \<Rightarrow> symbol_table option" where
  "acl_symbol_register tbl name stages callback nocache =
     acl_symbol_insert tbl name \<lparr>as_stages = stages, as_data = AS_SYMBOL callback nocache\<rparr>"

fun load_symbols :: "(string \<times> int) list \<Rightarrow> symbol_table \<Rightarrow> symbol_table option" where
  "load_symbols [] tbl = Some tbl"
| "load_symbols ((name, stage) # ms) tbl =
     do { tbl1 \<leftarrow> acl_symbol_register tbl name stage None False; load_symbols ms tbl1 }"

definition milter_load_symbols :: "symbol_table \<Rightarrow> symbol_table option" where
  "milter_load_symbols tbl = load_symbols milter_symbols tbl"

subsection \<open>Attributes\<close>

text \<open>
  \<open>vtable_set_new\<close> and \<open>vtable_setv\<close> as the callbacks use them. Without memory for the variable the
  table stays as it is; without memory for its record the old value has been removed already.
\<close>

definition milter_set_new ::
  "'h milter_env \<Rightarrow> call list \<Rightarrow> mailspec \<Rightarrow> vtype \<Rightarrow> string \<Rightarrow> vdata option \<Rightarrow> u32 \<Rightarrow> int \<times> mailspec" where
  "milter_set_new M cs m t name d flags =
     (case m_grant M cs m name of
        Granted \<Rightarrow> spec_set_new m t name d flags
      | No_variable \<Rightarrow> (-1, m)
      | No_record \<Rightarrow> (-1, spec_remove m name))"

fun milter_setv ::
  "'h milter_env \<Rightarrow> call list \<Rightarrow> mailspec \<Rightarrow> (vtype \<times> string \<times> vdata option \<times> u32) list \<Rightarrow> int \<times> mailspec" where
  "milter_setv M cs m [] = (0, m)"
| "milter_setv M cs m ((t, name, d, flags) # args) =
     (if t = VT_NULL then (0, m)
      else case milter_set_new M cs m t name d flags of
        (r, m1) \<Rightarrow> if r \<noteq> 0 then (-1, m1) else milter_setv M cs m1 args)"

declare milter_setv.simps [simp del]

text \<open>\<open>vtable_rename\<close> and \<open>vtable_list_append_new\<close> on the same terms; a new list stays when its item fails.\<close>

definition milter_rename :: "'h milter_env \<Rightarrow> call list \<Rightarrow> mailspec \<Rightarrow> string \<Rightarrow> string \<Rightarrow> (int \<times> mailspec) option" where
  "milter_rename M cs m old new =
     (if m old = None then Some (-1, m)
      else case m_grant M cs m new of
        Granted \<Rightarrow> spec_rename m old new
      | No_variable \<Rightarrow> Some (-1, m)
      | No_record \<Rightarrow> Some (-1, spec_remove m new))"

definition milter_list_append_new ::
  "'h milter_env \<Rightarrow> call list \<Rightarrow> mailspec \<Rightarrow> vtype \<Rightarrow> string \<Rightarrow> vdata option \<Rightarrow> u32 \<Rightarrow> (int \<times> mailspec) option" where
  "milter_list_append_new M cs m t name d flags =
     (case m_grant M cs m name of
        Granted \<Rightarrow> spec_list_append_new m t name d flags
      | No_variable \<Rightarrow> Some (-1, snd (spec_list_get m name))
      | No_record \<Rightarrow> Some (-1, m))"

subsection \<open>Identifiers and origins\<close>

definition milter_alpha62 :: string where
  "milter_alpha62 = ''0123456789abcdefghijklmnopqrstuvwxyzABCDEFGHIJKLMNOPQRSTUVWXYZ''"

fun id_chars :: "nat \<Rightarrow> u64 \<Rightarrow> string" where
  "id_chars 0 x = []"
| "id_chars (Suc n) x = milter_alpha62 ! unat (x mod 62) # id_chars n (x div 62)"

text \<open>\<open>milter_get_id\<close> with a buffer of \<open>IDLEN\<close> bytes; \<open>None\<close> is its error.\<close>

definition milter_get_id :: "'h milter_env \<Rightarrow> 'h world \<Rightarrow> string option" where
  "milter_get_id M w =
     (case m_gettimeofday M (w_calls w) of
        None \<Rightarrow> None
      | Some (sec, usec) \<Rightarrow>
          Some (id_chars 5 (ucast (m_rand M (w_calls w))) @ id_chars 11 (push_bit 32 (of_int sec) OR of_int usec)))"

definition milter_origin :: "'h milter_env \<Rightarrow> int \<Rightarrow> string \<Rightarrow> string \<Rightarrow> (int \<times> string) option" where
  "milter_origin M bufsize hostname hostaddr =
     (let copy = (let len = int (length hostaddr) in Some (if len \<ge> bufsize then (-1, []) else (len, hostaddr))) in
      if hostaddr = ''(null)'' then copy
      else if hostname = [] then None
      else if take (length hostaddr) (tl hostname) \<noteq> hostaddr then
        do {
          (len, buffer, _) \<leftarrow> regdom_punycode (m_ucs4 M) (m_punycode M) (m_regdom M) [] bufsize (Some hostname);
          Some (len, buffer) }
      else copy)"

subsection \<open>The private data\<close>

definition milter_priv_create :: milter_priv where
  "milter_priv_create =
     \<lparr>mp_recipients = 0, mp_header = None, mp_headerlen = 0, mp_body = None, mp_bodylen = 0, mp_eom_complete = 0\<rparr>"

text \<open>An attribute whose buffer is gone.\<close>

definition spec_dangle :: "mailspec \<Rightarrow> string \<Rightarrow> mailspec" where
  "spec_dangle m name =
     (case m name of
        Some (Var t n (Some _) f) \<Rightarrow> m(name \<mapsto> Var t n (Some (DPointer 0)) f)
      | _ \<Rightarrow> m)"

fun clear_symbols :: "int \<Rightarrow> (string \<times> int) list \<Rightarrow> mailspec \<Rightarrow> mailspec" where
  "clear_symbols stages [] m = m"
| "clear_symbols stages ((name, stage) # ms) m =
     clear_symbols stages ms (if stage OR stages \<noteq> 0 then m else spec_remove m name)"

definition milter_priv_clear_msg :: "milter_priv \<Rightarrow> mailspec \<Rightarrow> milter_priv \<times> mailspec" where
  "milter_priv_clear_msg mp m =
     (let m1 = clear_symbols (MS_CONNECT OR MS_UNKNOWN OR MS_HELO) milter_symbols m;
          m2 = (if mp_header mp \<noteq> None then spec_dangle m1 ''headers'' else m1);
          m3 = (if mp_body mp \<noteq> None then spec_dangle m2 ''body'' else m2) in
      (mp\<lparr>mp_header := None, mp_body := None, mp_recipients := 0, mp_headerlen := 0, mp_bodylen := 0\<rparr>, m3))"

definition c_set_spec :: "'h conn \<Rightarrow> mailspec \<Rightarrow> 'h conn" where
  "c_set_spec c m = c\<lparr>c_world := set_spec (c_world c) m\<rparr>"

abbreviation c_spec :: "'h conn \<Rightarrow> mailspec" where
  "c_spec c \<equiv> w_spec (c_world c)"

definition milter_priv_delete :: "'h conn \<Rightarrow> 'h conn" where
  "milter_priv_delete c = (c_set_spec c Map.empty)\<lparr>c_priv := None\<rparr>"

abbreviation KEEP_COPY :: u32 where "KEEP_COPY \<equiv> VF_KEEPNAME OR VF_COPYDATA"

subsection \<open>Begin and end of a stage\<close>

text \<open>\<open>milter_common_init\<close>: the private data, or \<open>None\<close> for \<open>NULL\<close>, and the connection.\<close>

definition milter_common_init ::
  "'h milter_env \<Rightarrow> int \<Rightarrow> string \<Rightarrow> 'h conn \<Rightarrow> (milter_priv option \<times> 'h conn) option" where
  "milter_common_init M stage stagename c =
     (let error = (\<lambda>c. Some (None, milter_priv_delete c));
          c1 = (if stage = MS_INIT then (c_set_spec c Map.empty)\<lparr>c_priv := Some milter_priv_create\<rparr> else c) in
      case c_priv c1 of
        None \<Rightarrow> Some (None, c1)
      | Some mp \<Rightarrow>
          do {
            (r, m2) \<leftarrow> (if stage = MS_INIT then Some (0, c_spec c1)
                        else milter_rename M (w_calls (c_world c1)) (c_spec c1) ''stage'' ''laststage'');
            if r \<noteq> 0 then error c1
            else
              (case milter_setv M (w_calls (c_world c1)) m2
                 [(VT_POINTER, ''milter_ctx'', Some (DPointer 1), VF_KEEP), (VT_INT, ''stage'', Some (DInt stage), KEEP_COPY),
                  (VT_STRING, ''stagename'', Some (DString stagename), VF_KEEP)] of
                 (r3, m3) \<Rightarrow>
                   if r3 \<noteq> 0 then error c1
                   else do {
                     let c3 = c_set_spec c1 m3;
                     c4 \<leftarrow>
                       (if cf_watchdog_stage_timeout M \<noteq> 0 then
                          (let (now, w4) = ask (m_env M) C_Time (c_world c3) in
                           do { wd \<leftarrow> watchdog m3 stagename now (c_watchdog c3); Some (c3\<lparr>c_world := w4, c_watchdog := wd\<rparr>) })
                        else Some c3);
                     if m3 ''queue_id'' \<noteq> None then Some (Some mp, c4)
                     else
                       (case m_getsymval M (w_calls (c_world c4)) ''i'' of
                          None \<Rightarrow> Some (Some mp, c4)
                        | Some queue_id \<Rightarrow>
                            (case milter_set_new M (w_calls (c_world c4)) m3 VT_STRING ''queue_id'' (Some (DString queue_id)) KEEP_COPY of
                               (r5, m5) \<Rightarrow> if r5 \<noteq> 0 then error c4 else Some (Some mp, c_set_spec c4 m5))) }) })"

definition milter_common_fini :: "milter_priv option \<Rightarrow> int \<Rightarrow> 'h conn \<Rightarrow> 'h conn" where
  "milter_common_fini mp stage c = (if mp \<noteq> None \<and> stage = MS_CLOSE then milter_priv_delete c else c)"

subsection \<open>The verdict of a stage\<close>

definition verdict :: "acl_action_type \<Rightarrow> sfsistat" where
  "verdict action =
     (case action of
        ACL_NONE \<Rightarrow> SMFIS_CONTINUE
      | ACL_CONTINUE \<Rightarrow> SMFIS_CONTINUE
      | ACL_REJECT \<Rightarrow> SMFIS_REJECT
      | ACL_DISCARD \<Rightarrow> SMFIS_DISCARD
      | ACL_ACCEPT \<Rightarrow> SMFIS_ACCEPT
      | _ \<Rightarrow> SMFIS_TEMPFAIL)"

definition milter_acl :: "'h milter_env \<Rightarrow> int \<Rightarrow> string \<Rightarrow> 'h conn \<Rightarrow> (sfsistat \<times> 'h conn) option" where
  "milter_acl M stage stagename c =
     do {
       (action, w1) \<leftarrow> acl (m_env M) (m_tables M) stage stagename 0 (c_world c);
       (case milter_setv M (w_calls w1) (w_spec w1) [(VT_INT, ''action'', Some (DInt (action_int action)), KEEP_COPY)] of
          (r, m2) \<Rightarrow>
            if r \<noteq> 0 then Some (SMFIS_TEMPFAIL, c\<lparr>c_world := set_spec w1 m2\<rparr>)
            else do { w3 \<leftarrow> m_update M stage action (set_spec w1 m2); Some (verdict action, c\<lparr>c_world := w3\<rparr>) }) }"

subsection \<open>The stages\<close>

text \<open>
  \<open>milter_init_stage\<close>, at the begin of \<open>milter_connect\<close>; the answer of the rules is not used. Its
  errors leave the private data in place.
\<close>

definition milter_init_stage :: "'h milter_env \<Rightarrow> 'h conn \<Rightarrow> (int \<times> 'h conn) option" where
  "milter_init_stage M c =
     do {
       (mp, c1) \<leftarrow> milter_common_init M MS_INIT ''init'' c;
       if mp = None then Some (-1, c1)
       else
         (case milter_get_id M (c_world c1) of
            None \<Rightarrow> Some (-1, c1)
          | Some id0 \<Rightarrow>
              (let (now, w2) = ask (m_env M) C_Time (c_world c1); c2 = c1\<lparr>c_world := w2\<rparr> in
               if now = -1 then Some (-1, c2)
               else
                 (case milter_setv M (w_calls (c_world c2)) (c_spec c2) [(VT_STRING, ''id'', Some (DString id0), KEEP_COPY),
                    (VT_INT, ''received'', Some (DInt now), KEEP_COPY)] of
                    (r, m3) \<Rightarrow>
                      if r \<noteq> 0 then Some (-1, c_set_spec c2 m3)
                      else do {
                        m4 \<leftarrow> acl_match m3 0 0 None None None None;
                        (_, c5) \<leftarrow> milter_acl M MS_INIT ''init'' (c_set_spec c2 m4);
                        Some (0, c5) }))) }"

text \<open>
  What all stages do with the attributes they set: an error of \<open>vtable_setv\<close> is a temporary
  failure, otherwise the rules of the stage decide.
\<close>

definition set_and_decide ::
  "'h milter_env \<Rightarrow> int \<Rightarrow> string \<Rightarrow> (vtype \<times> string \<times> vdata option \<times> u32) list \<Rightarrow> 'h conn \<Rightarrow> (sfsistat \<times> 'h conn) option" where
  "set_and_decide M stage stagename attrs c =
     (case milter_setv M (w_calls (c_world c)) (c_spec c) attrs of
        (r, m1) \<Rightarrow>
          if r \<noteq> 0 then Some (SMFIS_TEMPFAIL, c_set_spec c m1) else milter_acl M stage stagename (c_set_spec c m1))"

definition milter_connect ::
  "'h milter_env \<Rightarrow> string \<Rightarrow> sockaddr option \<Rightarrow> 'h conn \<Rightarrow> (sfsistat \<times> 'h conn) option" where
  "milter_connect M hostname hostaddr c =
     do {
       (r, c1) \<leftarrow> milter_init_stage M c;
       if r \<noteq> 0 then Some (SMFIS_TEMPFAIL, c1)
       else do {
         (mp, c2) \<leftarrow> milter_common_init M MS_CONNECT ''connect'' c1;
         (stat, c3) \<leftarrow>
           (if mp = None then Some (SMFIS_TEMPFAIL, c2)
            else
              (let L = E_libc (m_env M) (c_world c2);
                   ha_clean = fst (util_hostaddr [] hostaddr) in
               case fst (util_addrtostr (ntop4 L) (ntop6 L) [] ha_clean) of
                 None \<Rightarrow> Some (SMFIS_TEMPFAIL, c2)
               | Some hostaddr_str \<Rightarrow>
                   do {
                     (len, origin) \<leftarrow> milter_origin M 256 hostname hostaddr_str;
                     if len = -1 then Some (SMFIS_TEMPFAIL, c2)
                     else set_and_decide M MS_CONNECT ''connect''
                       [(VT_STRING, ''hostname'', Some (DString hostname), KEEP_COPY),
                        (VT_INT, ''ipv6'', Some (DInt (util_addr_ipv6 hostaddr)), KEEP_COPY),
                        (VT_ADDR, ''hostaddr'', map_option DAddr ha_clean, VF_KEEPNAME),
                        (VT_STRING, ''hostaddr_str'', Some (DString hostaddr_str), VF_KEEPNAME),
                        (VT_STRING, ''origin'', Some (DString origin), KEEP_COPY),
                        (VT_INT, ''eom_complete'', Some (DInt 0), KEEP_COPY)] c2 }));
         Some (stat, milter_common_fini mp MS_CONNECT c3) } }"

definition milter_unknown :: "'h milter_env \<Rightarrow> string \<Rightarrow> 'h conn \<Rightarrow> (sfsistat \<times> 'h conn) option" where
  "milter_unknown M cmd c =
     do {
       (mp, c1) \<leftarrow> milter_common_init M MS_UNKNOWN ''unknown'' c;
       (stat, c2) \<leftarrow>
         (if mp = None then Some (SMFIS_TEMPFAIL, c1)
          else set_and_decide M MS_UNKNOWN ''unknown'' [(VT_STRING, ''unknown_command'', Some (DString cmd), KEEP_COPY)] c1);
       Some (stat, milter_common_fini mp MS_UNKNOWN c2) }"

definition milter_helo :: "'h milter_env \<Rightarrow> string \<Rightarrow> 'h conn \<Rightarrow> (sfsistat \<times> 'h conn) option" where
  "milter_helo M helostr c =
     do {
       (mp, c1) \<leftarrow> milter_common_init M MS_HELO ''helo'' c;
       (stat, c2) \<leftarrow>
         (if mp = None then Some (SMFIS_TEMPFAIL, c1)
          else set_and_decide M MS_HELO ''helo'' [(VT_STRING, ''helo'', Some (DString helostr), KEEP_COPY)] c1);
       Some (stat, milter_common_fini mp MS_HELO c2) }"

definition MAILADDRLEN :: int where
  "MAILADDRLEN = 512"

text \<open>The address and the domain in lower case of an argument; \<open>None\<close> inside is an error.\<close>

definition mail_parts :: "string \<Rightarrow> (string \<times> string) option option" where
  "mail_parts arg =
     do {
       (r, addr) \<leftarrow> util_strmail MAILADDRLEN (Some arg);
       if r = -1 then Some None
       else do {
         addr \<leftarrow> addr;
         (r2, domain) \<leftarrow> util_strdomain MAILADDRLEN (Some addr);
         if r2 = -1 then Some None else do { d \<leftarrow> domain; Some (Some (addr, util_tolower d)) } } }"

definition milter_envfrom :: "'h milter_env \<Rightarrow> string \<Rightarrow> 'h conn \<Rightarrow> (sfsistat \<times> 'h conn) option" where
  "milter_envfrom M arg c =
     do {
       (mp, c1) \<leftarrow> milter_common_init M MS_ENVFROM ''envfrom'' c;
       (stat, c2) \<leftarrow>
         (if mp = None then Some (SMFIS_TEMPFAIL, c1)
          else do {
            parts \<leftarrow> mail_parts arg;
            (case parts of
               None \<Rightarrow> Some (SMFIS_TEMPFAIL, c1)
             | Some (addr, domain) \<Rightarrow>
                 set_and_decide M MS_ENVFROM ''envfrom''
                   [(VT_STRING, ''envfrom'', Some (DString arg), KEEP_COPY),
                    (VT_STRING, ''envfrom_addr'', Some (DString addr), KEEP_COPY),
                    (VT_STRING, ''envfrom_domain'', Some (DString domain), KEEP_COPY)] c1) });
       Some (stat, milter_common_fini mp MS_ENVFROM c2) }"

definition c_set_priv :: "'h conn \<Rightarrow> milter_priv \<Rightarrow> 'h conn" where
  "c_set_priv c mp = c\<lparr>c_priv := Some mp\<rparr>"

definition milter_envrcpt :: "'h milter_env \<Rightarrow> string \<Rightarrow> 'h conn \<Rightarrow> (sfsistat \<times> 'h conn) option" where
  "milter_envrcpt M arg c =
     do {
       (mp, c1) \<leftarrow> milter_common_init M MS_ENVRCPT ''envrcpt'' c;
       (stat, c2) \<leftarrow>
         (case mp of
            None \<Rightarrow> Some (SMFIS_TEMPFAIL, c1)
          | Some p \<Rightarrow>
              do {
                let p1 = p\<lparr>mp_recipients := wrap64 (mp_recipients p + 1)\<rparr>;
                let c2 = c_set_priv c1 p1;
                parts \<leftarrow> mail_parts arg;
                (case parts of
                   None \<Rightarrow> Some (SMFIS_TEMPFAIL, c2)
                 | Some (addr, domain) \<Rightarrow>
                     do {
                       (stat, c3) \<leftarrow> set_and_decide M MS_ENVRCPT ''envrcpt''
                         [(VT_STRING, ''envrcpt'', Some (DString arg), KEEP_COPY),
                          (VT_STRING, ''envrcpt_addr'', Some (DString addr), KEEP_COPY),
                          (VT_STRING, ''envrcpt_domain'', Some (DString domain), KEEP_COPY),
                          (VT_INT, ''recipients'', Some (DInt (mp_recipients p1)), KEEP_COPY)] c2;
                       if stat \<noteq> SMFIS_CONTINUE \<and> stat \<noteq> SMFIS_ACCEPT then Some (stat, c3)
                       else do {
                         (r, m4) \<leftarrow> milter_list_append_new M (w_calls (c_world c3)) (c_spec c3) VT_STRING ''recipient_list'' (Some (DString addr)) KEEP_COPY;
                         Some (if r \<noteq> 0 then SMFIS_TEMPFAIL else stat, c_set_spec c3 m4) } }) });
       Some (stat, milter_common_fini mp MS_ENVRCPT c2) }"

definition milter_data :: "'h milter_env \<Rightarrow> 'h conn \<Rightarrow> (sfsistat \<times> 'h conn) option" where
  "milter_data M c =
     do {
       (mp, c1) \<leftarrow> milter_common_init M MS_DATA ''data'' c;
       (stat, c2) \<leftarrow>
         (case mp of
            None \<Rightarrow> Some (SMFIS_TEMPFAIL, c1)
          | Some p \<Rightarrow>
              set_and_decide M MS_DATA ''data'' [(VT_INT, ''recipients'', Some (DInt (mp_recipients p)), KEEP_COPY)] c1);
       Some (stat, milter_common_fini mp MS_DATA c2) }"

text \<open>
  \<open>milter_header\<close> and \<open>milter_body\<close> append to a buffer, which \<open>realloc\<close> may move and for which it may fail:
  then the private data loses the buffer, which stays allocated, but keeps its length, and the
  next part is appended after as many bytes of fresh memory. No object has \<open>2 ^ 63\<close> bytes. A name or
  value of a header with a \<open>NUL\<close> byte does not exist: they are strings. The length of a header is an
  \<open>int32_t\<close>, and a longer one is written over the end of the buffer, which has no meaning here.
\<close>

definition realloc_ok :: "'h milter_env \<Rightarrow> call list \<Rightarrow> int \<Rightarrow> bool" where
  "realloc_ok M cs size0 \<longleftrightarrow> 0 \<le> size0 \<and> size0 < 2 ^ 63 \<and> m_realloc M cs size0"

definition grown :: "'h milter_env \<Rightarrow> call list \<Rightarrow> string option \<Rightarrow> int \<Rightarrow> string" where
  "grown M cs buffer len = (case buffer of Some b \<Rightarrow> b | None \<Rightarrow> map (m_memory M cs) [0..<nat len])"

definition append_header :: "'h milter_env \<Rightarrow> call list \<Rightarrow> milter_priv \<Rightarrow> string \<Rightarrow> string \<Rightarrow> (bool \<times> milter_priv) option" where
  "append_header M cs p headerf headerv =
     (let len = int (length headerf) + int (length headerv) + 5 in
      if \<not> i32 len then None
      else if \<not> realloc_ok M cs (mp_headerlen p + len) then Some (False, p\<lparr>mp_header := None\<rparr>)
      else Some (True, p\<lparr>mp_header := Some (grown M cs (mp_header p) (mp_headerlen p) @ headerf @ '': '' @ headerv @ crlf),
             mp_headerlen := wrap64 (mp_headerlen p + len - 1)\<rparr>))"

definition milter_header :: "'h milter_env \<Rightarrow> string \<Rightarrow> string \<Rightarrow> 'h conn \<Rightarrow> (sfsistat \<times> 'h conn) option" where
  "milter_header M headerf headerv c =
     do {
       (mp, c1) \<leftarrow> milter_common_init M MS_HEADER ''header'' c;
       (stat, c2) \<leftarrow>
         (case mp of
            None \<Rightarrow> Some (SMFIS_TEMPFAIL, c1)
          | Some p \<Rightarrow>
              do {
                (done0, p2) \<leftarrow> append_header M (w_calls (c_world c1)) p headerf headerv;
                if \<not> done0 then Some (SMFIS_TEMPFAIL, c_set_priv c1 p2)
                else
                  (let c2 = c_set_priv (if mp_header p = None then c1 else c_set_spec c1 (spec_dangle (c_spec c1) ''headers'')) p2 in
                   case milter_setv M (w_calls (c_world c2)) (c_spec c2)
                       [(VT_STRING, ''header_name'', Some (DString headerf), KEEP_COPY),
                        (VT_STRING, ''header_value'', Some (DString headerv), KEEP_COPY)] of
                     (r, m3) \<Rightarrow>
                       if r \<noteq> 0 then Some (SMFIS_TEMPFAIL, c_set_spec c2 m3)
                       else do {
                         attrs \<leftarrow>
                           (if map tolower headerf = ''message-id'' then
                              do {
                                (message_id, _) \<leftarrow> util_strdupenc [] headerv (CHR ''<'') (CHR ''>'');
                                Some (case message_id of
                                        None \<Rightarrow> []
                                      | Some i \<Rightarrow> [(VT_STRING, ''message_id'', Some (DString i), VF_KEEPNAME)]) }
                            else Some []);
                         set_and_decide M MS_HEADER ''header''
                           (attrs @ (if map tolower headerf = ''subject''
                                     then [(VT_STRING, ''subject'', Some (DString headerv), KEEP_COPY)] else [])) (c_set_spec c2 m3) }) });
       Some (stat, milter_common_fini mp MS_HEADER c2) }"

definition milter_eoh :: "'h milter_env \<Rightarrow> 'h conn \<Rightarrow> (sfsistat \<times> 'h conn) option" where
  "milter_eoh M c =
     do {
       (mp, c1) \<leftarrow> milter_common_init M MS_EOH ''eoh'' c;
       (stat, c2) \<leftarrow>
         (case mp of
            None \<Rightarrow> Some (SMFIS_TEMPFAIL, c1)
          | Some p \<Rightarrow>
              set_and_decide M MS_EOH ''eoh''
                [(VT_STRING, ''headers'', map_option DString (mp_header p), VF_KEEP),
                 (VT_INT, ''headers_size'', Some (DInt (mp_headerlen p)), KEEP_COPY)] c1);
       Some (stat, milter_common_fini mp MS_EOH c2) }"

definition append_body :: "'h milter_env \<Rightarrow> call list \<Rightarrow> milter_priv \<Rightarrow> string \<Rightarrow> bool \<times> milter_priv" where
  "append_body M cs p body =
     (if \<not> realloc_ok M cs (mp_bodylen p + int (length body) + 1) then (False, p\<lparr>mp_body := None\<rparr>)
      else (True, p\<lparr>mp_body := Some (grown M cs (mp_body p) (mp_bodylen p) @ body),
             mp_bodylen := wrap64 (mp_bodylen p + int (length body))\<rparr>))"

definition milter_body :: "'h milter_env \<Rightarrow> string \<Rightarrow> 'h conn \<Rightarrow> (sfsistat \<times> 'h conn) option" where
  "milter_body M body c =
     do {
       (mp, c1) \<leftarrow> milter_common_init M MS_BODY ''body'' c;
       (stat, c2) \<leftarrow>
         (case mp of
            None \<Rightarrow> Some (SMFIS_TEMPFAIL, c1)
          | Some p \<Rightarrow>
              (case append_body M (w_calls (c_world c1)) p body of
                 (done0, p2) \<Rightarrow>
                   if \<not> done0 then Some (SMFIS_TEMPFAIL, c_set_priv c1 p2)
                   else milter_acl M MS_BODY ''body''
                     (c_set_priv (if mp_body p = None then c1 else c_set_spec c1 (spec_dangle (c_spec c1) ''body'')) p2)));
       Some (stat, milter_common_fini mp MS_BODY c2) }"

text \<open>\<open>milter_eom\<close> and \<open>milter_abort\<close> end with a call of \<open>milter_priv_clear_msg\<close>, also for \<open>NULL\<close>.\<close>

definition clear_msg :: "'h conn \<Rightarrow> 'h conn option" where
  "clear_msg c =
     do { p \<leftarrow> c_priv c; (case milter_priv_clear_msg p (c_spec c) of (p1, m1) \<Rightarrow> Some (c_set_priv (c_set_spec c m1) p1)) }"

definition milter_eom :: "'h milter_env \<Rightarrow> 'h conn \<Rightarrow> (sfsistat \<times> 'h conn) option" where
  "milter_eom M c =
     do {
       (mp, c1) \<leftarrow> milter_common_init M MS_EOM ''eom'' c;
       (stat, c2) \<leftarrow>
         (case mp of
            None \<Rightarrow> Some (SMFIS_TEMPFAIL, c1)
          | Some p \<Rightarrow>
              set_and_decide M MS_EOM ''eom''
                [(VT_INT, ''body_size'', Some (DInt (mp_bodylen p)), KEEP_COPY),
                 (VT_INT, ''message_size'', Some (DInt (wrap64 (mp_bodylen p + mp_headerlen p + 2))), KEEP_COPY),
                 (VT_STRING, ''body'', map_option DString (mp_body p), VF_KEEP),
                 (VT_INT, ''eom_complete'', Some (DInt 1), KEEP_COPY)] (c_set_priv c1 (p\<lparr>mp_eom_complete := 1\<rparr>)));
       c3 \<leftarrow> clear_msg (milter_common_fini mp MS_EOM c2);
       Some (stat, c3) }"

definition milter_abort :: "'h milter_env \<Rightarrow> 'h conn \<Rightarrow> (sfsistat \<times> 'h conn) option" where
  "milter_abort M c =
     do {
       (mp, c1) \<leftarrow> milter_common_init M MS_ABORT ''abort'' c;
       c2 \<leftarrow> (if mp = None then Some c1 else do { (_, c2) \<leftarrow> milter_acl M MS_ABORT ''abort'' c1; Some c2 });
       c3 \<leftarrow> clear_msg (milter_common_fini mp MS_ABORT c2);
       Some (SMFIS_CONTINUE, c3) }"

definition milter_close :: "'h milter_env \<Rightarrow> 'h conn \<Rightarrow> (sfsistat \<times> 'h conn) option" where
  "milter_close M c =
     do {
       (mp, c1) \<leftarrow> milter_common_init M MS_CLOSE ''close'' c;
       c2 \<leftarrow>
         (if mp = None then Some c1
          else do {
            (_, c2) \<leftarrow> milter_acl M MS_CLOSE ''close'' c1;
            if cf_watchdog_stage_timeout M \<noteq> 0 then
              do { wd \<leftarrow> watchdog_close (c_spec c2) (c_watchdog c2); Some (c2\<lparr>c_watchdog := wd\<rparr>) }
            else Some c2 });
       Some (SMFIS_CONTINUE, milter_common_fini mp MS_CLOSE c2) }"

text \<open>The callbacks that \<open>milter\<close> registers with libmilter.\<close>

datatype event =
    Connect string "sockaddr option" | Unknown string | Helo string | Envfrom string | Envrcpt string | Data
  | Header string string | Eoh | Body string | Eom | Abort | Close

fun milter_callback :: "'h milter_env \<Rightarrow> event \<Rightarrow> 'h conn \<Rightarrow> (sfsistat \<times> 'h conn) option" where
  "milter_callback M (Connect hostname hostaddr) c = milter_connect M hostname hostaddr c"
| "milter_callback M (Unknown cmd) c = milter_unknown M cmd c"
| "milter_callback M (Helo helostr) c = milter_helo M helostr c"
| "milter_callback M (Envfrom arg) c = milter_envfrom M arg c"
| "milter_callback M (Envrcpt arg) c = milter_envrcpt M arg c"
| "milter_callback M Data c = milter_data M c"
| "milter_callback M (Header headerf headerv) c = milter_header M headerf headerv c"
| "milter_callback M Eoh c = milter_eoh M c"
| "milter_callback M (Body body) c = milter_body M body c"
| "milter_callback M Eom c = milter_eom M c"
| "milter_callback M Abort c = milter_abort M c"
| "milter_callback M Close c = milter_close M c"

fun stage_of :: "event \<Rightarrow> int \<times> string" where
  "stage_of (Connect _ _) = (MS_CONNECT, ''connect'')"
| "stage_of (Unknown _) = (MS_UNKNOWN, ''unknown'')"
| "stage_of (Helo _) = (MS_HELO, ''helo'')"
| "stage_of (Envfrom _) = (MS_ENVFROM, ''envfrom'')"
| "stage_of (Envrcpt _) = (MS_ENVRCPT, ''envrcpt'')"
| "stage_of Data = (MS_DATA, ''data'')"
| "stage_of (Header _ _) = (MS_HEADER, ''header'')"
| "stage_of Eoh = (MS_EOH, ''eoh'')"
| "stage_of (Body _) = (MS_BODY, ''body'')"
| "stage_of Eom = (MS_EOM, ''eom'')"
| "stage_of Abort = (MS_ABORT, ''abort'')"
| "stage_of Close = (MS_CLOSE, ''close'')"

subsection \<open>Verdicts\<close>

text \<open>Facts about the result of a call, if it returns, and their composition.\<close>

lemma post_bind: "pred_option P r \<Longrightarrow> (\<And>x. P x \<Longrightarrow> pred_option Q (f x)) \<Longrightarrow> pred_option Q (Option.bind r f)"
  by (cases r) auto

lemma post_bind_any: "(\<And>x. pred_option Q (f x)) \<Longrightarrow> pred_option Q (Option.bind r f)"
  by (cases r) auto

lemma c_set_simps [simp]:
  "c_priv (c_set_spec c m) = c_priv c" "c_spec (c_set_spec c m) = m" "c_priv (c_set_priv c p) = Some p"
  "c_spec (c_set_priv c p) = c_spec c" "c_priv (milter_priv_delete c) = None"
  "c_world (c_set_priv c p) = c_world c" "w_calls (c_world (c_set_spec c m)) = w_calls (c_world c)"
  "w_db (c_world (c_set_spec c m)) = w_db (c_world c)"
  by (simp_all add: c_set_spec_def c_set_priv_def milter_priv_delete_def)

text \<open>When all attributes could be set, each has the value it was given, and the others are untouched.\<close>

lemma milter_setv_sets:
  assumes "milter_setv M cs m args = (0, m')" and "distinct (map (\<lambda>a. fst (snd a)) args)"
    and "\<forall>(t, n, d, f) \<in> set args. t \<noteq> VT_NULL \<and> (\<forall>v. var_create t (Some n) d f = Some v \<longrightarrow> v_data v = d)"
  shows "(\<forall>(t, n, d, f) \<in> set args. spec_get m' n = d) \<and> (\<forall>k. k \<notin> set (map (\<lambda>a. fst (snd a)) args) \<longrightarrow> m' k = m k)"
  using assms
proof (induction args arbitrary: m)
  case (Cons a args)
  obtain t n d f where a: "a = (t, n, d, f)" by (cases a)
  from Cons.prems(1,3) obtain v where v: "var_create t (Some n) d f = Some v" "milter_setv M cs (m(n \<mapsto> v)) args = (0, m')"
    by (auto simp: a milter_setv.simps milter_set_new_def spec_set_new_def split: grant.split_asm option.split_asm)
  have IH: "(\<forall>(t, n, d, f) \<in> set args. spec_get m' n = d) \<and>
      (\<forall>k. k \<notin> set (map (\<lambda>a. fst (snd a)) args) \<longrightarrow> m' k = (m(n \<mapsto> v)) k)"
    by (rule Cons.IH [OF v(2)]) (use Cons.prems(2,3) in simp_all)
  then have "spec_get m' n = d" using Cons.prems(2,3) v(1) by (simp add: a spec_get_def)
  with IH show ?case by (auto simp: a)
qed (simp add: milter_setv.simps)

lemma attr_kept:
  "var_create VT_STRING n (Some (DString s)) KEEP_COPY = Some v \<Longrightarrow> v_data v = Some (DString s)"
  "var_create VT_INT n (Some (DInt i)) KEEP_COPY = Some v \<Longrightarrow> v_data v = Some (DInt i)"
  "var_create t n d VF_KEEP = Some v \<Longrightarrow> v_data v = d"
  "var_create t n d VF_KEEPNAME = Some v \<Longrightarrow> v_data v = d"
  by (auto simp: var_create_def var_init_def var_data_init_def Let_def sanitize_def has_flag_def vf_defs split: if_split_asm)

text \<open>
  What the rules of a stage see: the private data and the attributes have what the mail server has
  passed to the callback.
\<close>

fun stage_sees :: "event \<Rightarrow> milter_priv \<Rightarrow> mailspec \<Rightarrow> bool" where
  "stage_sees (Connect hostname _) p m \<longleftrightarrow> spec_get m ''hostname'' = Some (DString hostname) \<and> spec_get m ''eom_complete'' = Some (DInt 0)"
| "stage_sees (Unknown cmd) p m \<longleftrightarrow> spec_get m ''unknown_command'' = Some (DString cmd)"
| "stage_sees (Helo helostr) p m \<longleftrightarrow> spec_get m ''helo'' = Some (DString helostr)"
| "stage_sees (Envfrom arg) p m \<longleftrightarrow> spec_get m ''envfrom'' = Some (DString arg) \<and>
     (\<exists>addr domain. mail_parts arg = Some (Some (addr, domain)) \<and> spec_get m ''envfrom_addr'' = Some (DString addr) \<and>
       spec_get m ''envfrom_domain'' = Some (DString domain))"
| "stage_sees (Envrcpt arg) p m \<longleftrightarrow> spec_get m ''envrcpt'' = Some (DString arg) \<and>
     spec_get m ''recipients'' = Some (DInt (mp_recipients p)) \<and>
     (\<exists>addr domain. mail_parts arg = Some (Some (addr, domain)) \<and> spec_get m ''envrcpt_addr'' = Some (DString addr) \<and>
       spec_get m ''envrcpt_domain'' = Some (DString domain))"
| "stage_sees Data p m \<longleftrightarrow> spec_get m ''recipients'' = Some (DInt (mp_recipients p))"
| "stage_sees (Header headerf headerv) p m \<longleftrightarrow> spec_get m ''header_name'' = Some (DString headerf) \<and>
     spec_get m ''header_value'' = Some (DString headerv) \<and> (\<exists>h. mp_header p = Some (h @ headerf @ '': '' @ headerv @ crlf)) \<and>
     (map tolower headerf = ''subject'' \<longrightarrow> spec_get m ''subject'' = Some (DString headerv))"
| "stage_sees Eoh p m \<longleftrightarrow> spec_get m ''headers'' = map_option DString (mp_header p) \<and>
     spec_get m ''headers_size'' = Some (DInt (mp_headerlen p))"
| "stage_sees (Body body) p m \<longleftrightarrow> (\<exists>b. mp_body p = Some (b @ body))"
| "stage_sees Eom p m \<longleftrightarrow> spec_get m ''body'' = map_option DString (mp_body p) \<and> spec_get m ''body_size'' = Some (DInt (mp_bodylen p)) \<and>
     spec_get m ''message_size'' = Some (DInt (wrap64 (mp_bodylen p + mp_headerlen p + 2))) \<and> spec_get m ''eom_complete'' = Some (DInt 1)"
| "stage_sees Abort p m \<longleftrightarrow> True"
| "stage_sees Close p m \<longleftrightarrow> True"

text \<open>
  A connection whose stage is ready for its rules: \<open>milter_common_init\<close> has begun the stage, and the
  attributes of the stage have been set. A new connection has passed the stage \<open>init\<close> before.
\<close>

definition stage_ready :: "'h milter_env \<Rightarrow> event \<Rightarrow> 'h conn \<Rightarrow> 'h conn \<Rightarrow> bool" where
  "stage_ready M ev c c2 \<longleftrightarrow>
     (\<exists>c0 p0 c1 p. (case ev of Connect _ _ \<Rightarrow> milter_init_stage M c = Some (0, c0) | _ \<Rightarrow> c0 = c) \<and>
       milter_common_init M (fst (stage_of ev)) (snd (stage_of ev)) c0 = Some (Some p0, c1) \<and>
       w_calls (c_world c2) = w_calls (c_world c1) \<and> w_db (c_world c2) = w_db (c_world c1) \<and>
       c_priv c2 = Some p \<and> stage_sees ev p (c_spec c2))"

text \<open>The rules decide: their answer is recorded in the attributes, and the modules have been told.\<close>

definition decides_as :: "'h milter_env \<Rightarrow> int \<times> string \<Rightarrow> 'h conn \<Rightarrow> acl_action_type \<Rightarrow> 'h world \<Rightarrow> bool" where
  "decides_as M st c2 action w4 \<longleftrightarrow>
     (\<exists>w3 m3. acl (m_env M) (m_tables M) (fst st) (snd st) 0 (c_world c2) = Some (action, w3) \<and>
       milter_setv M (w_calls w3) (w_spec w3) [(VT_INT, ''action'', Some (DInt (action_int action)), KEEP_COPY)] = (0, m3) \<and>
       m_update M (fst st) action (set_spec w3 m3) = Some w4)"

lemma milter_acl_decides:
  assumes "milter_acl M stage stagename c = Some (stat, c')" and "stat \<noteq> SMFIS_TEMPFAIL"
  shows "c_priv c' = c_priv c \<and> (\<exists>action. decides_as M (stage, stagename) c action (c_world c') \<and> stat = verdict action)"
proof -
  from assms(1) obtain action w3 where acl: "acl (m_env M) (m_tables M) stage stagename 0 (c_world c) = Some (action, w3)"
    by (auto simp: milter_acl_def bind_eq_Some_conv)
  obtain r m3 where set: "milter_setv M (w_calls w3) (w_spec w3) [(VT_INT, ''action'', Some (DInt (action_int action)), KEEP_COPY)] = (r, m3)"
    by fastforce
  with assms acl obtain w4 where "r = 0" "m_update M stage action (set_spec w3 m3) = Some w4" "c' = c\<lparr>c_world := w4\<rparr>" "stat = verdict action"
    by (auto simp: milter_acl_def bind_eq_Some_conv split: if_split_asm)
  with acl set show ?thesis by (auto simp: decides_as_def)
qed

lemma set_and_decide_decides:
  assumes "set_and_decide M stage stagename attrs c = Some (stat, c')" and "stat \<noteq> SMFIS_TEMPFAIL"
  shows "\<exists>m1 action. milter_setv M (w_calls (c_world c)) (c_spec c) attrs = (0, m1) \<and>
    decides_as M (stage, stagename) (c_set_spec c m1) action (c_world c') \<and> stat = verdict action"
  using assms milter_acl_decides [of M stage stagename _ stat c']
  by (auto simp: set_and_decide_def split: prod.split_asm if_split_asm)

definition decided :: "'h milter_env \<Rightarrow> event \<Rightarrow> 'h conn \<Rightarrow> sfsistat \<Rightarrow> 'h conn \<Rightarrow> bool" where
  "decided M ev c stat c' \<longleftrightarrow>
     (\<exists>c2 action w4. stage_ready M ev c c2 \<and> decides_as M (stage_of ev) c2 action w4 \<and> stat = verdict action \<and>
       w_calls (c_world c') = w_calls w4 \<and> w_db (c_world c') = w_db w4)"

lemma decidedI:
  assumes "case ev of Connect _ _ \<Rightarrow> milter_init_stage M c = Some (0, c0) | _ \<Rightarrow> c0 = c"
    and "milter_common_init M (fst (stage_of ev)) (snd (stage_of ev)) c0 = Some (Some p0, c1)"
    and "w_calls (c_world c2) = w_calls (c_world c1)" "w_db (c_world c2) = w_db (c_world c1)"
    and "c_priv c2 = Some p" "stage_sees ev p (c_spec c2)" "decides_as M (stage_of ev) c2 action w4" "stat = verdict action"
    and "w_calls (c_world c') = w_calls w4" "w_db (c_world c') = w_db w4"
  shows "decided M ev c stat c'"
  using assms unfolding decided_def stage_ready_def by blast

lemma set_and_decide_decided:
  assumes "case ev of Connect _ _ \<Rightarrow> milter_init_stage M c = Some (0, c0) | _ \<Rightarrow> c0 = c" and "stage_of ev = (stage, stagename)"
    and "milter_common_init M stage stagename c0 = Some (Some p0, c1)"
    and "set_and_decide M stage stagename attrs c2 = Some (stat, c3)" "stat \<noteq> SMFIS_TEMPFAIL"
    and "w_calls (c_world c2) = w_calls (c_world c1)" "w_db (c_world c2) = w_db (c_world c1)" "c_priv c2 = Some p"
    and "\<And>m1. milter_setv M (w_calls (c_world c2)) (c_spec c2) attrs = (0, m1) \<Longrightarrow> stage_sees ev p m1"
    and "w_calls (c_world c') = w_calls (c_world c3)" "w_db (c_world c') = w_db (c_world c3)"
  shows "decided M ev c stat c'"
proof -
  from set_and_decide_decides [OF assms(4,5)] obtain m1 action where
    "milter_setv M (w_calls (c_world c2)) (c_spec c2) attrs = (0, m1)"
    "decides_as M (stage, stagename) (c_set_spec c2 m1) action (c_world c3)" "stat = verdict action" by blast
  with assms show ?thesis by (intro decidedI [OF assms(1), of p0 c1 "c_set_spec c2 m1" p action "c_world c3"]) simp_all
qed

text \<open>The private data of a stage is that of the connection; there is none after an error.\<close>

lemma common_init_priv:
  "stage \<noteq> MS_INIT \<Longrightarrow> pred_option (\<lambda>(mp, c1). c_priv c1 = mp \<and> (mp = None \<or> mp = c_priv c)) (milter_common_init M stage stagename c)"
  "pred_option (\<lambda>(mp, c1). c_priv c1 = mp \<and> (mp = None \<or> mp = Some milter_priv_create)) (milter_common_init M MS_INIT stagename c)"
  unfolding milter_common_init_def Let_def
  by (auto split: option.split prod.split intro!: post_bind_any)

lemma common_init_get: "milter_common_init M stage stagename c = Some (mp, c1) \<Longrightarrow> c_priv c1 = mp"
  using common_init_priv(1) [where stage = stage and c = c and M = M and stagename = stagename]
    common_init_priv(2) [where c = c and M = M and stagename = stagename] by (cases "stage = MS_INIT") auto

text \<open>A stage that does not fail has begun.\<close>

lemma stage_begun:
  assumes "Option.bind (milter_common_init M stage stagename c) (\<lambda>(mp, c1).
      Option.bind (f mp c1) (\<lambda>(stat, c2). Some (stat, milter_common_fini mp stage' c2))) = Some (stat, c')"
    and "stat \<noteq> SMFIS_TEMPFAIL" and "stage' \<noteq> MS_CLOSE" and "\<And>c1. f None c1 = Some (SMFIS_TEMPFAIL, c1)"
  obtains p c1 where "milter_common_init M stage stagename c = Some (Some p, c1)" "c_priv c1 = Some p" "f (Some p) c1 = Some (stat, c')"
proof -
  from assms(1) obtain mp c1 where init: "milter_common_init M stage stagename c = Some (mp, c1)" and f: "f mp c1 = Some (stat, c')"
    using assms(3) by (auto simp: bind_eq_Some_conv milter_common_fini_def)
  with assms(2,4) obtain p where "mp = Some p" by (cases mp) auto
  with init f common_init_get [OF init] show thesis by (intro that) simp_all
qed

lemma init_stage_ok: "milter_connect M hostname hostaddr c = Some (stat, c') \<Longrightarrow> stat \<noteq> SMFIS_TEMPFAIL \<Longrightarrow>
    \<exists>c0. milter_init_stage M c = Some (0, c0)"
  by (auto simp: milter_connect_def bind_eq_Some_conv split: if_split_asm)

lemma not_close: "MS_CONNECT \<noteq> MS_CLOSE" "MS_UNKNOWN \<noteq> MS_CLOSE" "MS_HELO \<noteq> MS_CLOSE" "MS_ENVFROM \<noteq> MS_CLOSE" "MS_ENVRCPT \<noteq> MS_CLOSE"
  "MS_DATA \<noteq> MS_CLOSE" "MS_HEADER \<noteq> MS_CLOSE" "MS_EOH \<noteq> MS_CLOSE" "MS_BODY \<noteq> MS_CLOSE" "MS_EOM \<noteq> MS_CLOSE"
  by (simp_all add: ms_defs)

lemma connect_decided:
  assumes "milter_connect M hostname hostaddr c = Some (stat, c')" and "stat \<noteq> SMFIS_TEMPFAIL"
  shows "decided M (Connect hostname hostaddr) c stat c'"
proof -
  from init_stage_ok [OF assms] obtain c0 where c0: "milter_init_stage M c = Some (0, c0)" ..
  let ?L = "\<lambda>c2. E_libc (m_env M) (c_world c2)" and ?ha = "fst (util_hostaddr [] hostaddr)"
  let ?attrs = "\<lambda>a origin. [(VT_STRING, ''hostname'', Some (DString hostname), KEEP_COPY),
    (VT_INT, ''ipv6'', Some (DInt (util_addr_ipv6 hostaddr)), KEEP_COPY), (VT_ADDR, ''hostaddr'', map_option DAddr ?ha, VF_KEEPNAME),
    (VT_STRING, ''hostaddr_str'', Some (DString a), VF_KEEPNAME), (VT_STRING, ''origin'', Some (DString origin), KEEP_COPY),
    (VT_INT, ''eom_complete'', Some (DInt 0), KEEP_COPY)]"
  from assms(1) c0 obtain p c1 where init: "milter_common_init M MS_CONNECT ''connect'' c0 = Some (Some p, c1)" "c_priv c1 = Some p"
    and a: "\<exists>a origin. set_and_decide M MS_CONNECT ''connect'' (?attrs a origin) c1 = Some (stat, c')"
    unfolding milter_connect_def
    by (simp only: option.simps bind.simps prod.case if_False simp_thms)
      (erule stage_begun [OF _ assms(2) not_close(1)];
        use assms(2) in \<open>fastforce simp: Let_def bind_eq_Some_conv split: option.split_asm if_split_asm\<close>)
  from a obtain a origin where set: "set_and_decide M MS_CONNECT ''connect'' (?attrs a origin) c1 = Some (stat, c')" by blast
  show ?thesis
  proof (rule set_and_decide_decided [OF _ _ init(1) set assms(2) refl refl init(2)])
    fix m1
    assume "milter_setv M (w_calls (c_world c1)) (c_spec c1) (?attrs a origin) = (0, m1)"
    from milter_setv_sets [OF this] show "stage_sees (Connect hostname hostaddr) p m1" by (simp add: attr_kept)
  qed (use c0 in simp_all)
qed

lemma header_decided:
  assumes "milter_header M headerf headerv c = Some (stat, c')" and "stat \<noteq> SMFIS_TEMPFAIL"
  shows "decided M (Header headerf headerv) c stat c'"
proof -
  define msgid subj where "msgid \<longleftrightarrow> map tolower headerf = ''message-id''" and "subj \<longleftrightarrow> map tolower headerf = ''subject''"
  let ?names = "[(VT_STRING, ''header_name'', Some (DString headerf), KEEP_COPY), (VT_STRING, ''header_value'', Some (DString headerv), KEEP_COPY)]"
  let ?id = "\<lambda>i. case i of None \<Rightarrow> [] | Some i \<Rightarrow> [(VT_STRING, ''message_id'', Some (DString i), VF_KEEPNAME)]"
  let ?subject = "if subj then [(VT_STRING, ''subject'', Some (DString headerv), KEEP_COPY)] else []"
  let ?tail = "\<lambda>c2. case milter_setv M (w_calls (c_world c2)) (c_spec c2) ?names of (r, m3) \<Rightarrow>
    if r \<noteq> 0 then Some (SMFIS_TEMPFAIL, c_set_spec c2 m3)
    else do {
      attrs \<leftarrow> (if msgid then do { (i, _) \<leftarrow> util_strdupenc [] headerv (CHR ''<'') (CHR ''>''); Some (?id i) } else Some []);
      set_and_decide M MS_HEADER ''header'' (attrs @ ?subject) (c_set_spec c2 m3) }"
  let ?c2 = "\<lambda>p c1. c_set_priv (if mp_header p = None then c1 else c_set_spec c1 (spec_dangle (c_spec c1) ''headers''))"
  obtain p c1 where init: "milter_common_init M MS_HEADER ''header'' c = Some (Some p, c1)" "c_priv c1 = Some p"
    and body: "do { (done0, p2) \<leftarrow> append_header M (w_calls (c_world c1)) p headerf headerv;
      if \<not> done0 then Some (SMFIS_TEMPFAIL, c_set_priv c1 p2) else ?tail (?c2 p c1 p2) } = Some (stat, c')"
    by (rule stage_begun [OF assms(1) [unfolded milter_header_def Let_def, folded msgid_def subj_def] assms(2) not_close(7)]) simp_all
  obtain b p2 where b: "append_header M (w_calls (c_world c1)) p headerf headerv = Some (b, p2)"
    using body by (cases "append_header M (w_calls (c_world c1)) p headerf headerv") (simp only: Option.bind.simps option.simps, fastforce)
  have tail: "(if \<not> b then Some (SMFIS_TEMPFAIL, c_set_priv c1 p2) else ?tail (?c2 p c1 p2)) = Some (stat, c')"
    using body unfolding b by (simp only: Option.bind.simps prod.case)
  have "b" using tail assms(2) by (cases b) (simp_all only: simp_thms if_True option.inject prod.inject)
  with b tail have p2: "append_header M (w_calls (c_world c1)) p headerf headerv = Some (True, p2)" and tail: "?tail (?c2 p c1 p2) = Some (stat, c')"
    by (simp_all only: simp_thms if_False)
  define c2 where "c2 = ?c2 p c1 p2"
  have same: "w_calls (c_world c2) = w_calls (c_world c1)" "w_db (c_world c2) = w_db (c_world c1)" "c_priv c2 = Some p2"
    by (simp_all add: c2_def)
  obtain r m3 where m3: "milter_setv M (w_calls (c_world c2)) (c_spec c2) ?names = (r, m3)" by fastforce
  from tail [folded c2_def] m3 assms(2) have "r = 0" by (auto split: if_split_asm)
  with tail [folded c2_def] m3 have "do {
      attrs \<leftarrow> (if msgid then do { (i, _) \<leftarrow> util_strdupenc [] headerv (CHR ''<'') (CHR ''>''); Some (?id i) } else Some []);
      set_and_decide M MS_HEADER ''header'' (attrs @ ?subject) (c_set_spec c2 m3) } = Some (stat, c')" by simp
  then obtain attrs where attrs: "(if msgid then do { (i, _) \<leftarrow> util_strdupenc [] headerv (CHR ''<'') (CHR ''>''); Some (?id i) } else Some []) = Some attrs"
    and set0: "set_and_decide M MS_HEADER ''header'' (attrs @ ?subject) (c_set_spec c2 m3) = Some (stat, c')"
    by (simp only: bind_eq_Some_conv) blast
  obtain i where "attrs = ?id i"
  proof (cases msgid)
    case True
    with attrs show thesis by (auto simp: bind_eq_Some_conv intro: that)
  qed (use attrs that [of None] in simp)
  with set0 have set: "set_and_decide M MS_HEADER ''header'' (?id i @ ?subject) (c_set_spec c2 m3) = Some (stat, c')" by simp
  show ?thesis
  proof (rule set_and_decide_decided [OF _ _ init(1) set assms(2)])
    fix m1
    assume "milter_setv M (w_calls (c_world (c_set_spec c2 m3))) (c_spec (c_set_spec c2 m3)) (?id i @ ?subject) = (0, m1)"
    then have "(subj \<longrightarrow> spec_get m1 ''subject'' = Some (DString headerv)) \<and> (\<forall>k. k \<notin> {''message_id'', ''subject''} \<longrightarrow> m1 k = m3 k)"
      using milter_setv_sets [of M _ m3 "?id i @ ?subject" m1] by (cases subj; cases i) (auto simp: attr_kept)
    moreover have "\<exists>h. mp_header p2 = Some (h @ headerf @ '': '' @ headerv @ crlf)"
      using p2 by (auto simp: append_header_def Let_def split: if_split_asm)
    moreover have "spec_get m3 ''header_name'' = Some (DString headerf)" "spec_get m3 ''header_value'' = Some (DString headerv)"
      using milter_setv_sets [OF m3 [unfolded \<open>r = 0\<close>]] by (simp_all add: attr_kept)
    ultimately show "stage_sees (Header headerf headerv) p2 m1" by (simp add: subj_def spec_get_def)
  qed (simp_all add: same)
qed

lemma envfrom_decided:
  assumes "milter_envfrom M arg c = Some (stat, c')" and "stat \<noteq> SMFIS_TEMPFAIL"
  shows "decided M (Envfrom arg) c stat c'"
proof -
  let ?attrs = "\<lambda>addr domain. [(VT_STRING, ''envfrom'', Some (DString arg), KEEP_COPY),
    (VT_STRING, ''envfrom_addr'', Some (DString addr), KEEP_COPY), (VT_STRING, ''envfrom_domain'', Some (DString domain), KEEP_COPY)]"
  obtain p c1 where init: "milter_common_init M MS_ENVFROM ''envfrom'' c = Some (Some p, c1)" "c_priv c1 = Some p"
    and "\<exists>addr domain. mail_parts arg = Some (Some (addr, domain)) \<and>
      set_and_decide M MS_ENVFROM ''envfrom'' (?attrs addr domain) c1 = Some (stat, c')"
    by (rule stage_begun [OF assms(1) [unfolded milter_envfrom_def] assms(2) not_close(4)])
      (use assms(2) in \<open>auto simp: bind_eq_Some_conv split: option.split_asm\<close>)
  then obtain addr domain where parts: "mail_parts arg = Some (Some (addr, domain))"
    and set: "set_and_decide M MS_ENVFROM ''envfrom'' (?attrs addr domain) c1 = Some (stat, c')" by blast
  show ?thesis
  proof (rule set_and_decide_decided [OF _ _ init(1) set assms(2) refl refl init(2)])
    fix m1
    assume "milter_setv M (w_calls (c_world c1)) (c_spec c1) (?attrs addr domain) = (0, m1)"
    from milter_setv_sets [OF this] show "stage_sees (Envfrom arg) p m1" by (simp add: attr_kept parts)
  qed simp_all
qed

lemma envrcpt_decided:
  assumes "milter_envrcpt M arg c = Some (stat, c')" and "stat \<noteq> SMFIS_TEMPFAIL"
  shows "decided M (Envrcpt arg) c stat c'"
proof -
  let ?p1 = "\<lambda>p. p\<lparr>mp_recipients := wrap64 (mp_recipients p + 1)\<rparr>"
  let ?attrs = "\<lambda>p addr domain. [(VT_STRING, ''envrcpt'', Some (DString arg), KEEP_COPY),
    (VT_STRING, ''envrcpt_addr'', Some (DString addr), KEEP_COPY), (VT_STRING, ''envrcpt_domain'', Some (DString domain), KEEP_COPY),
    (VT_INT, ''recipients'', Some (DInt (mp_recipients (?p1 p))), KEEP_COPY)]"
  obtain p c1 where init: "milter_common_init M MS_ENVRCPT ''envrcpt'' c = Some (Some p, c1)" "c_priv c1 = Some p"
    and "\<exists>addr domain c3. mail_parts arg = Some (Some (addr, domain)) \<and>
      set_and_decide M MS_ENVRCPT ''envrcpt'' (?attrs p addr domain) (c_set_priv c1 (?p1 p)) = Some (stat, c3) \<and>
      w_calls (c_world c') = w_calls (c_world c3) \<and> w_db (c_world c') = w_db (c_world c3)"
    by (rule stage_begun [OF assms(1) [unfolded milter_envrcpt_def] assms(2) not_close(5)])
      (use assms(2) in \<open>auto simp: Let_def bind_eq_Some_conv split: option.split_asm prod.split_asm if_split_asm\<close>)
  then obtain addr domain c3 where parts: "mail_parts arg = Some (Some (addr, domain))"
    and set: "set_and_decide M MS_ENVRCPT ''envrcpt'' (?attrs p addr domain) (c_set_priv c1 (?p1 p)) = Some (stat, c3)"
    and same: "w_calls (c_world c') = w_calls (c_world c3)" "w_db (c_world c') = w_db (c_world c3)" by blast
  show ?thesis
  proof (rule set_and_decide_decided [OF _ _ init(1) set assms(2)])
    fix m1
    assume "milter_setv M (w_calls (c_world (c_set_priv c1 (?p1 p)))) (c_spec (c_set_priv c1 (?p1 p))) (?attrs p addr domain) = (0, m1)"
    from milter_setv_sets [OF this] show "stage_sees (Envrcpt arg) (?p1 p) m1" by (simp add: attr_kept parts)
  qed (simp_all add: same)
qed

lemma clear_world: "clear_msg c = Some c' \<Longrightarrow> w_calls (c_world c') = w_calls (c_world c) \<and> w_db (c_world c') = w_db (c_world c)"
  by (cases "c_priv c"; cases "milter_priv_clear_msg (the (c_priv c)) (c_spec c)") (auto simp: clear_msg_def)

lemma eom_decided:
  assumes "milter_eom M c = Some (stat, c')" and "stat \<noteq> SMFIS_TEMPFAIL"
  shows "decided M Eom c stat c'"
proof -
  let ?p1 = "\<lambda>p. p\<lparr>mp_eom_complete := 1\<rparr>"
  let ?attrs = "\<lambda>p. [(VT_INT, ''body_size'', Some (DInt (mp_bodylen p)), KEEP_COPY),
    (VT_INT, ''message_size'', Some (DInt (wrap64 (mp_bodylen p + mp_headerlen p + 2))), KEEP_COPY),
    (VT_STRING, ''body'', map_option DString (mp_body p), VF_KEEP), (VT_INT, ''eom_complete'', Some (DInt 1), KEEP_COPY)]"
  from assms obtain p c1 c2 where init: "milter_common_init M MS_EOM ''eom'' c = Some (Some p, c1)"
    and set: "set_and_decide M MS_EOM ''eom'' (?attrs p) (c_set_priv c1 (?p1 p)) = Some (stat, c2)" and "clear_msg c2 = Some c'"
    by (auto simp: milter_eom_def bind_eq_Some_conv milter_common_fini_def not_close split: option.split_asm)
  show ?thesis
  proof (rule set_and_decide_decided [OF _ _ init set assms(2)])
    fix m1
    assume "milter_setv M (w_calls (c_world (c_set_priv c1 (?p1 p)))) (c_spec (c_set_priv c1 (?p1 p))) (?attrs p) = (0, m1)"
    from milter_setv_sets [OF this] show "stage_sees Eom (?p1 p) m1" by (simp add: attr_kept)
  qed (use clear_world [OF \<open>clear_msg c2 = Some c'\<close>] in simp_all)
qed

lemma body_decided:
  assumes "milter_body M body c = Some (stat, c')" and "stat \<noteq> SMFIS_TEMPFAIL"
  shows "decided M (Body body) c stat c'"
proof -
  obtain p c1 where init: "milter_common_init M MS_BODY ''body'' c = Some (Some p, c1)"
    and "\<exists>p2. append_body M (w_calls (c_world c1)) p body = (True, p2) \<and> milter_acl M MS_BODY ''body''
      (c_set_priv (if mp_body p = None then c1 else c_set_spec c1 (spec_dangle (c_spec c1) ''body'')) p2) = Some (stat, c')"
    by (rule stage_begun [OF assms(1) [unfolded milter_body_def] assms(2) not_close(9)])
      (use assms(2) in \<open>auto split: prod.split_asm if_split_asm\<close>)
  then obtain p2 where p2: "append_body M (w_calls (c_world c1)) p body = (True, p2)" and acl: "milter_acl M MS_BODY ''body''
      (c_set_priv (if mp_body p = None then c1 else c_set_spec c1 (spec_dangle (c_spec c1) ''body'')) p2) = Some (stat, c')" by blast
  from milter_acl_decides [OF acl assms(2)] obtain action where "decides_as M (MS_BODY, ''body'')
      (c_set_priv (if mp_body p = None then c1 else c_set_spec c1 (spec_dangle (c_spec c1) ''body'')) p2) action (c_world c')"
    "stat = verdict action" by blast
  moreover have "\<exists>b. mp_body p2 = Some (b @ body)" using p2 by (auto simp: append_body_def split: if_split_asm)
  ultimately show ?thesis using init by (intro decidedI [of M c c "Body body" p c1 _ p2 action]) simp_all
qed

text \<open>The other stages only set attributes.\<close>

lemma callback_decided:
  assumes "milter_callback M ev c = Some (stat, c')" and "stat \<noteq> SMFIS_TEMPFAIL" and "ev \<notin> {Abort, Close}"
  shows "decided M ev c stat c'"
proof -
  have simple: "decided M ev c stat c'"
    if prems: "Option.bind (milter_common_init M stage stagename c) (\<lambda>(mp, c1).
        Option.bind (f mp c1) (\<lambda>(stat, c2). Some (stat, milter_common_fini mp stage c2))) = Some (stat, c')"
      "\<And>c1. f None c1 = Some (SMFIS_TEMPFAIL, c1)" "stage \<noteq> MS_CLOSE" "stage_of ev = (stage, stagename)" "\<And>h a. ev \<noteq> Connect h a"
      "\<And>p c1. f (Some p) c1 = Some (stat, c') \<Longrightarrow> \<exists>attrs. set_and_decide M stage stagename attrs c1 = Some (stat, c') \<and>
        (\<forall>m1. milter_setv M (w_calls (c_world c1)) (c_spec c1) attrs = (0, m1) \<longrightarrow> stage_sees ev p m1)" for stage stagename f
  proof -
    obtain p c1 where init: "milter_common_init M stage stagename c = Some (Some p, c1)" "c_priv c1 = Some p"
      and "f (Some p) c1 = Some (stat, c')" by (rule stage_begun [OF prems(1) assms(2) prems(3,2)])
    from prems(6) [OF this(3)] obtain attrs where set: "set_and_decide M stage stagename attrs c1 = Some (stat, c')"
      and "\<forall>m1. milter_setv M (w_calls (c_world c1)) (c_spec c1) attrs = (0, m1) \<longrightarrow> stage_sees ev p m1" by blast
    moreover have "case ev of Connect _ _ \<Rightarrow> milter_init_stage M c = Some (0, c) | _ \<Rightarrow> c = c" using prems(5) by (cases ev) auto
    ultimately show ?thesis
      by (intro set_and_decide_decided [OF _ prems(4) init(1) set assms(2) refl refl init(2) _ refl refl]) simp_all
  qed
  have sets: "milter_setv M cs m args = (0, m1) \<Longrightarrow> distinct (map (\<lambda>a. fst (snd a)) args) \<Longrightarrow>
    \<forall>(t, n, d, f) \<in> set args. t \<noteq> VT_NULL \<and> (\<forall>v. var_create t (Some n) d f = Some v \<longrightarrow> v_data v = d) \<Longrightarrow>
    \<forall>(t, n, d, f) \<in> set args. spec_get m1 n = d" for cs m args m1
    by (rule milter_setv_sets [THEN conjunct1])
  show ?thesis
  proof (cases ev)
    case (Unknown cmd)
    then show ?thesis
      by (intro simple [OF assms(1) [unfolded Unknown milter_callback.simps milter_unknown_def]])
        (auto simp: not_close attr_kept intro!: exI dest!: sets)
  next
    case (Helo helostr)
    then show ?thesis
      by (intro simple [OF assms(1) [unfolded Helo milter_callback.simps milter_helo_def]])
        (auto simp: not_close attr_kept intro!: exI dest!: sets)
  next
    case Data
    then show ?thesis
      by (intro simple [OF assms(1) [unfolded Data milter_callback.simps milter_data_def]])
        (auto simp: not_close attr_kept intro!: exI dest!: sets)
  next
    case Eoh
    then show ?thesis
      by (intro simple [OF assms(1) [unfolded Eoh milter_callback.simps milter_eoh_def]])
        (auto simp: not_close attr_kept intro!: exI dest!: sets)
  qed (use assms in \<open>simp_all add: connect_decided header_decided envfrom_decided envrcpt_decided eom_decided body_decided\<close>)
qed


text \<open>A server without rules, macros and modules, and connections to it, for concrete runs.\<close>

definition quiet_milter :: "unit milter_env" where
  "quiet_milter = \<lparr>m_env = quiet_env, m_tables = Map.empty, m_update = (\<lambda>_ _ w. Some w), m_getsymval = (\<lambda>_ _. None),
     m_gettimeofday = (\<lambda>cs. Some (1000 + int (length cs), 7)), m_rand = (\<lambda>_. 5), m_ucs4 = (\<lambda>_. None), m_punycode = (\<lambda>_ _. None),
     m_regdom = \<lparr>sht_ht = \<lparr>ht_table = [[]], ht_buckets = 1, ht_records = 0, ht_collisions = 0, ht_hash = sht_record_hash,
       ht_match = sht_record_match, ht_del = True, ht_head = 0\<rparr>, sht_del = True\<rparr>,
     m_grant = (\<lambda>_ _ _. Granted), m_realloc = (\<lambda>_ n. n < 2 ^ 40), m_memory = (\<lambda>_ _. CHR 0x00), cf_watchdog_stage_timeout = 0\<rparr>"

definition fresh_conn :: "unit conn" where
  "fresh_conn = \<lparr>c_priv = None, c_world = \<lparr>w_x = demo_state, w_db = (), w_calls = []\<rparr>, c_watchdog = None\<rparr>"

lemma quiet_connect:
  "\<exists>c p. milter_callback quiet_milter (Connect ''h'' None) fresh_conn = Some (SMFIS_CONTINUE, c) \<and> c_priv c = Some p"
proof -
  have "(case milter_callback quiet_milter (Connect ''h'' None) fresh_conn of
      None \<Rightarrow> False | Some (stat, c) \<Rightarrow> stat = SMFIS_CONTINUE \<and> \<not> Option.is_none (c_priv c))"
    by code_simp
  then show ?thesis by (auto simp: Option.is_none_def split: option.split_asm)
qed


end
