(* ===== verification/Milter_Spec.thy ===== *)
theory Milter_Spec
  imports Milter
begin

section \<open>What the stages promise\<close>

text \<open>
  Properties of the callbacks of \<open>Milter\<close>: an invariant of the private data over all orders of
  events, the message that rules see at its end, identifiers, and what is left of a message when
  the next one begins.
\<close>

subsection \<open>Sizes\<close>

text \<open>
  The stored lengths are those of the buffers. When a buffer was lost to a failed \<open>realloc\<close> the length of
  what it held is kept; in a \<open>whole\<close> message nothing was lost, and no buffer means no bytes.
\<close>

definition length_ok :: "bool \<Rightarrow> string option \<Rightarrow> int \<Rightarrow> bool" where
  "length_ok whole buffer len \<longleftrightarrow> 0 \<le> len \<and> (case buffer of None \<Rightarrow> whole \<longrightarrow> len = 0 | Some b \<Rightarrow> len = int (length b))"

definition sizes_ok :: "bool \<Rightarrow> milter_priv \<Rightarrow> bool" where
  "sizes_ok whole p \<longleftrightarrow> length_ok whole (mp_header p) (mp_headerlen p) \<and> length_ok whole (mp_body p) (mp_bodylen p)"

definition conn_ok :: "bool \<Rightarrow> 'h conn \<Rightarrow> bool" where
  "conn_ok whole c \<longleftrightarrow> pred_option (sizes_ok whole) (c_priv c)"

text \<open>
  Whether the message is whole after a callback: a new connection, the end and the abort of a message
  begin a new one, and a header or a part of the body that is refused may have been lost.
\<close>

fun whole_after :: "bool \<Rightarrow> event \<Rightarrow> sfsistat \<Rightarrow> bool" where
  "whole_after whole (Connect _ _) stat = True"
| "whole_after whole Eom stat = True"
| "whole_after whole Abort stat = True"
| "whole_after whole (Header _ _) stat = (whole \<and> stat \<noteq> SMFIS_TEMPFAIL)"
| "whole_after whole (Body _) stat = (whole \<and> stat \<noteq> SMFIS_TEMPFAIL)"
| "whole_after whole _ stat = whole"

lemma milter_acl_priv: "pred_option (\<lambda>(stat, c'). c_priv c' = c_priv c) (milter_acl M stage stagename c)"
  unfolding milter_acl_def
  by (auto split: prod.split intro!: post_bind_any)

lemma set_and_decide_priv: "pred_option (\<lambda>(stat, c'). c_priv c' = c_priv c) (set_and_decide M stage stagename attrs c)"
  using milter_acl_priv [of "c_set_spec c m" M stage stagename for m]
  by (auto simp: set_and_decide_def split: prod.split)

lemma fini_priv: "c_priv (milter_common_fini mp stage c) = (if mp \<noteq> None \<and> stage = MS_CLOSE then None else c_priv c)"
  by (simp add: milter_common_fini_def)

lemma conn_ok_less: "conn_ok b c \<Longrightarrow> conn_ok (b \<and> a) c"
  by (cases "c_priv c") (auto simp: conn_ok_def sizes_ok_def length_ok_def split: option.splits)

lemma sizes_create: "sizes_ok b milter_priv_create"
  by (simp add: sizes_ok_def length_ok_def milter_priv_create_def)

lemma init_ok:
  "stage = MS_INIT \<or> conn_ok b c \<Longrightarrow> pred_option (\<lambda>(mp, c1). c_priv c1 = mp \<and> conn_ok b c1) (milter_common_init M stage stagename c)"
  using common_init_priv(1) [where stage = stage and c = c and M = M and stagename = stagename]
    common_init_priv(2) [where c = c and M = M and stagename = stagename] sizes_create [of b]
  by (cases "stage = MS_INIT"; cases "milter_common_init M stage stagename c") (auto simp: conn_ok_def)

lemma acl_ok: "conn_ok b c \<Longrightarrow> pred_option (\<lambda>(stat, c'). conn_ok b c') (milter_acl M stage stagename c)"
  using milter_acl_priv [of c M stage stagename] by (cases "milter_acl M stage stagename c") (auto simp: conn_ok_def)

lemma decide_ok: "conn_ok b c \<Longrightarrow> pred_option (\<lambda>(stat, c'). conn_ok b c') (set_and_decide M stage stagename attrs c)"
  using set_and_decide_priv [of c M stage stagename attrs]
  by (cases "set_and_decide M stage stagename attrs c") (auto simp: conn_ok_def)

lemma fini_ok: "conn_ok b c \<Longrightarrow> conn_ok b (milter_common_fini mp stage c)"
  by (simp add: conn_ok_def fini_priv)

lemma clear_ok: "pred_option (conn_ok b) (clear_msg c)"
  unfolding clear_msg_def
  by (auto simp: milter_priv_clear_msg_def Let_def conn_ok_def sizes_ok_def length_ok_def intro!: post_bind_any)

lemma conn_ok_spec [simp]: "conn_ok b (c_set_spec c m) = conn_ok b c"
  by (simp add: conn_ok_def)

lemma conn_ok_priv [simp]: "conn_ok b (c_set_priv c p) = sizes_ok b p"
  by (simp add: conn_ok_def)

lemma conn_ok_get: "conn_ok b c \<Longrightarrow> c_priv c = Some p \<Longrightarrow> sizes_ok b p"
  by (simp add: conn_ok_def)

text \<open>Appending a header and a part of the body: what is appended follows as many bytes as the length says.\<close>

lemma length_grown: "length_ok b buffer len \<Longrightarrow> int (length (grown M cs buffer len)) = len"
  by (cases buffer) (auto simp: length_ok_def grown_def)

lemma length_ok_append:
  assumes "length_ok b buffer len" and "realloc_ok M cs size0" and "len + int (length xs) < size0"
  shows "length_ok b (Some (grown M cs buffer len @ xs)) (wrap64 (len + int (length xs)))"
proof -
  have "0 \<le> len" using assms(1) by (simp add: length_ok_def)
  with assms(2,3) have "wrap64 (len + int (length xs)) = len + int (length xs)"
    by (intro wrap64_id) (simp add: i64_def realloc_ok_def)
  moreover have "int (length (grown M cs buffer len)) = len" by (rule length_grown [OF assms(1)])
  ultimately show ?thesis using \<open>0 \<le> len\<close> by (simp add: length_ok_def)
qed

lemma sizes_header:
  assumes "sizes_ok b p" and "append_header M cs p headerf headerv = Some (done0, p2)"
  shows "sizes_ok (b \<and> done0) p2"
proof -
  let ?len = "int (length headerf) + int (length headerv) + 5" and ?xs = "headerf @ '': '' @ headerv @ crlf"
  have len: "mp_headerlen p + ?len - 1 = mp_headerlen p + int (length ?xs)" by (simp add: crlf_def)
  show ?thesis
  proof (cases "realloc_ok M cs (mp_headerlen p + ?len)")
    case True
    have "length_ok b (Some (grown M cs (mp_header p) (mp_headerlen p) @ ?xs)) (wrap64 (mp_headerlen p + int (length ?xs)))"
      by (rule length_ok_append [OF _ True]) (use assms(1) in \<open>simp_all add: sizes_ok_def crlf_def\<close>)
    with assms True show ?thesis
      unfolding append_header_def Let_def len by (auto simp: sizes_ok_def simp del: length_append split: if_split_asm)
  next
    case False
    with assms show ?thesis by (auto simp: append_header_def Let_def sizes_ok_def length_ok_def split: if_split_asm option.split_asm)
  qed
qed

lemma sizes_body: "sizes_ok b p \<Longrightarrow> append_body M cs p body = (done0, p2) \<Longrightarrow> sizes_ok (b \<and> done0) p2"
  using length_ok_append [of b "mp_body p" "mp_bodylen p" M cs "mp_bodylen p + int (length body) + 1" body]
  by (auto simp: append_body_def sizes_ok_def length_ok_def split: if_split_asm option.splits)

lemma sizes_simps [simp]:
  "sizes_ok b (p\<lparr>mp_recipients := n\<rparr>) = sizes_ok b p" "sizes_ok b (p\<lparr>mp_eom_complete := n\<rparr>) = sizes_ok b p"
  by (simp_all add: sizes_ok_def)

lemma stage_ok:
  assumes "pred_option (\<lambda>(stat, c'). conn_ok (b stat) c') r"
  shows "pred_option (\<lambda>(stat, c'). conn_ok (b stat) c') (Option.bind r (\<lambda>(stat, c2). Some (stat, milter_common_fini mp stage c2)))"
  using assms by (cases r) (auto intro: fini_ok)

lemma event_stage_ok:
  assumes "conn_ok a c" and "\<And>mp c1. c_priv c1 = mp \<Longrightarrow> conn_ok a c1 \<Longrightarrow> pred_option (\<lambda>(stat, c'). conn_ok (b stat) c') (f mp c1)"
  shows "pred_option (\<lambda>(stat, c'). conn_ok (b stat) c') (Option.bind (milter_common_init M stage stagename c)
    (\<lambda>(mp, c1). Option.bind (f mp c1) (\<lambda>(stat, c2). Some (stat, milter_common_fini mp stage' c2))))"
  by (rule post_bind [OF init_ok [OF disjI2 [OF assms(1)]]]) (auto intro!: stage_ok assms(2))

lemma connect_ok: "pred_option (\<lambda>(stat, c'). conn_ok True c') (milter_connect M hostname hostaddr c)"
proof -
  have acl: "pred_option (\<lambda>(r, c'). conn_ok True c') (Option.bind (milter_acl M stage stagename c1) (\<lambda>(_, c5). Some (0 :: int, c5)))"
    if "conn_ok True c1" for stage stagename c1
    by (rule post_bind [OF acl_ok [OF that]]) auto
  have world: "conn_ok True (c1\<lparr>c_world := w\<rparr>) = conn_ok True c1" for c1 and w :: "'a world" by (simp add: conn_ok_def)
  have "pred_option (\<lambda>(r, c1). conn_ok True c1) (milter_init_stage M c)"
    unfolding milter_init_stage_def
    by (rule post_bind [OF init_ok [OF disjI1 [OF refl]]])
      (auto simp: Let_def world acl split: option.split prod.split
        intro!: post_bind_any [where r = "acl_match m a b d e f g" for m a b d e f g])
  then show ?thesis
    unfolding milter_connect_def
    by (rule post_bind)
      (auto simp: Let_def intro!: event_stage_ok post_bind_any [where r = "milter_origin M a b c" for a b c] decide_ok split: option.split)
qed

lemma clear_then: "pred_option (\<lambda>(stat, c'). conn_ok b c') (Option.bind (clear_msg c) (\<lambda>c'. Some (stat, c')))"
  by (rule post_bind [OF clear_ok]) simp

lemma less_ok: "pred_option (\<lambda>(stat, c'). conn_ok b c') r \<Longrightarrow> pred_option (\<lambda>(stat, c'). conn_ok (b \<and> stat \<noteq> SMFIS_TEMPFAIL) c') r"
  by (cases r) (auto intro: conn_ok_less)

lemma header_appended:
  "c_priv c = Some p \<Longrightarrow> conn_ok b c \<Longrightarrow> pred_option (\<lambda>(d, p2). sizes_ok (b \<and> d) p2) (append_header M cs p headerf headerv)"
  using sizes_header [of b p M cs headerf headerv] by (cases "append_header M cs p headerf headerv") (auto simp: conn_ok_get)

lemma header_ok:
  assumes "conn_ok b c"
  shows "pred_option (\<lambda>(stat, c'). conn_ok (b \<and> stat \<noteq> SMFIS_TEMPFAIL) c') (milter_header M headerf headerv c)"
proof -
  have lost: "sizes_ok False p" if "sizes_ok b p" for p using that by (auto simp: sizes_ok_def length_ok_def split: option.splits)
  have lost': "conn_ok False c" if "conn_ok b c" for c :: "'a conn" using conn_ok_less [OF that, of False] by simp
  show ?thesis
    unfolding milter_header_def
    by (rule event_stage_ok [OF assms], split option.split, intro conjI allI impI, simp add: lost', rule post_bind [OF header_appended])
      (auto simp: Let_def lost split: prod.split
        intro!: less_ok [OF decide_ok] post_bind_any [where r = "util_strdupenc a d e f" for a d e f])
qed

lemma body_appended:
  "c_priv c = Some p \<Longrightarrow> conn_ok b c \<Longrightarrow> append_body M cs p body = (d, p2) \<Longrightarrow> sizes_ok (b \<and> d) p2"
  using sizes_body [of b p] by (simp add: conn_ok_get)

lemma body_ok:
  assumes "conn_ok b c"
  shows "pred_option (\<lambda>(stat, c'). conn_ok (b \<and> stat \<noteq> SMFIS_TEMPFAIL) c') (milter_body M body c)"
proof -
  have lost: "conn_ok False c" if "conn_ok b c" for c :: "'a conn" using conn_ok_less [OF that, of False] by simp
  show ?thesis
    unfolding milter_body_def
    by (rule event_stage_ok [OF assms])
      (auto simp: lost split: option.split prod.split intro!: less_ok [OF acl_ok] dest: body_appended)
qed

lemma callback_ok:
  assumes "conn_ok b c"
  shows "pred_option (\<lambda>(stat, c'). conn_ok (whole_after b ev stat) c') (milter_callback M ev c)"
proof (cases ev)
  case (Envrcpt arg)
  show ?thesis
    unfolding Envrcpt milter_callback.simps milter_envrcpt_def whole_after.simps
    by (rule event_stage_ok [OF assms], auto simp: Let_def split: option.split intro!: post_bind_any [where r = "mail_parts a" for a]
        post_bind_any [where r = "milter_list_append_new M a b c d f g" for a b c d f g] post_bind [OF decide_ok])
      (simp_all add: conn_ok_def)
next
  case Eom
  show ?thesis
    unfolding Eom milter_callback.simps milter_eom_def whole_after.simps
    by (rule post_bind_any, split prod.split, intro allI impI, rule post_bind_any, split prod.split, intro allI impI clear_then)
next
  case Abort
  show ?thesis
    unfolding Abort milter_callback.simps milter_abort_def whole_after.simps
    by (rule post_bind_any, split prod.split, intro allI impI, rule post_bind_any, rule clear_then)
next
  case Close
  have "pred_option (\<lambda>(stat, c'). conn_ok b c') (Option.bind (if mp = None then Some c1 else r)
      (\<lambda>c2. Some (SMFIS_CONTINUE, milter_common_fini mp MS_CLOSE c2)))" if "conn_ok b c1" for mp c1 and r :: "'a conn option"
    using that by (cases mp) (auto simp: conn_ok_def fini_priv intro: post_bind_any)
  then show ?thesis
    unfolding Close milter_callback.simps milter_close_def whole_after.simps
    by (intro post_bind [OF init_ok [OF disjI2 [OF assms]]]) auto
qed (use assms in \<open>auto simp: connect_ok header_ok body_ok milter_unknown_def milter_helo_def milter_envfrom_def milter_data_def
    milter_eoh_def intro!: event_stage_ok decide_ok post_bind_any [where r = "mail_parts a" for a] split: option.split\<close>)

text \<open>Connections that libmilter can bring about, by any callbacks in any order, and whether their message is whole.\<close>

inductive reachable :: "'h milter_env \<Rightarrow> bool \<Rightarrow> 'h conn \<Rightarrow> bool" for M where
  start: "c_priv c = None \<Longrightarrow> reachable M True c"
| step: "reachable M whole c \<Longrightarrow> milter_callback M ev c = Some (stat, c') \<Longrightarrow> reachable M (whole_after whole ev stat) c'"

lemma reachable_ok: "reachable M whole c \<Longrightarrow> conn_ok whole c"
proof (induction rule: reachable.induct)
  case (step whole c ev stat c')
  with callback_ok [OF step.IH, of ev M] show ?case by simp
qed (simp add: conn_ok_def)

text \<open>
  C27: the sizes of a message. In every connection that can come about, by any callbacks in any
  order and with any answers of \<open>realloc\<close>, the stored length of the headers and that of the body, of which
  the attributes \<open>headers_size\<close>, \<open>body_size\<close> and \<open>message_size\<close> are made, are those of the buffers. When there
  is no buffer the length is 0 in a message of which no header and no part of the body has been refused with
  a temporary failure. After a refusal it need not be: a failed \<open>realloc\<close> loses the buffer and keeps its length.
\<close>

theorem milter_sizes_invariant:
  assumes "reachable M whole c" and "c_priv c = Some p"
  shows "(case mp_header p of None \<Rightarrow> whole \<longrightarrow> mp_headerlen p = 0 | Some h \<Rightarrow> mp_headerlen p = int (length h)) \<and>
    (case mp_body p of None \<Rightarrow> whole \<longrightarrow> mp_bodylen p = 0 | Some b \<Rightarrow> mp_bodylen p = int (length b))"
  using conn_ok_get [OF reachable_ok [OF assms(1)] assms(2)] by (auto simp: sizes_ok_def length_ok_def split: option.split)

theorem milter_sizes_invariant_witness:
  "\<exists>c p. reachable quiet_milter True c \<and> c_priv c = Some p \<and> (mp_header p = None \<and> mp_headerlen p = 0 \<or>
    (\<exists>h. mp_header p = Some h \<and> mp_headerlen p = int (length h)))"
proof -
  obtain stat c p where c: "milter_callback quiet_milter (Connect ''h'' None) fresh_conn = Some (stat, c)" "c_priv c = Some p"
    using quiet_connect by blast
  have r: "reachable quiet_milter True c"
    using reachable.step [OF reachable.start c(1)] by (simp add: fresh_conn_def)
  from milter_sizes_invariant [OF r c(2)] r c(2) show ?thesis by (cases "mp_header p") auto
qed

text \<open>
  The length that is kept is no longer that of any buffer: the next header follows bytes of
  fresh memory, which the rules and the content filters then see as headers of the message.
\<close>

theorem milter_lost_headers:
  assumes "append_header M cs p f v = Some (False, p1)" and "append_header M cs' p1 f' v' = Some (True, p2)"
  shows "mp_header p1 = None \<and> mp_headerlen p1 = mp_headerlen p \<and>
    mp_header p2 = Some (map (m_memory M cs') [0..<nat (mp_headerlen p)] @ f' @ '': '' @ v' @ crlf)"
  using assms by (auto simp: append_header_def grown_def Let_def split: if_split_asm)

theorem milter_lost_headers_witness:
  "\<exists>(M :: unit milter_env) p1 p2. append_header M [] (milter_priv_create\<lparr>mp_header := Some ''ab'', mp_headerlen := 2\<rparr>) ''a'' ''b'' = Some (False, p1) \<and>
    append_header M [C_Time] p1 ''a'' ''b'' = Some (True, p2) \<and> mp_header p2 = Some (''xxa: b'' @ crlf)"
proof -
  let ?M = "quiet_milter\<lparr>m_realloc := (\<lambda>cs n. cs \<noteq> []), m_memory := (\<lambda>_ _. CHR ''x'')\<rparr>"
  let ?p = "milter_priv_create\<lparr>mp_header := Some ''ab'', mp_headerlen := 2\<rparr>"
  have "append_header ?M [] ?p ''a'' ''b'' = Some (False, ?p\<lparr>mp_header := None\<rparr>)"
    by (simp add: append_header_def realloc_ok_def i32_def)
  moreover have "\<exists>p2. append_header ?M [C_Time] (?p\<lparr>mp_header := None\<rparr>) ''a'' ''b'' = Some (True, p2)"
    by (simp add: append_header_def realloc_ok_def i32_def)
  ultimately obtain p1 p2 where p1: "append_header ?M [] ?p ''a'' ''b'' = Some (False, p1)"
    and p2: "append_header ?M [C_Time] p1 ''a'' ''b'' = Some (True, p2)" by blast
  have "[0..<2] = [0, Suc 0]" by (simp add: upt_rec)
  with milter_lost_headers [OF p1 p2] have "mp_header p2 = Some (''xxa: b'' @ crlf)" by simp
  with p1 p2 show ?thesis by blast
qed

subsection \<open>Identifiers\<close>

lemma alpha62_distinct: "distinct milter_alpha62" and length_alpha62: "length milter_alpha62 = 62"
  by (simp_all add: milter_alpha62_def)

lemma length_id_chars [simp]: "length (id_chars n x) = n"
  by (induction n arbitrary: x) simp_all

lemma mod_62: "unat (x mod 62) = unat x mod 62" "unat (x mod 62) < 62" "unat (x div 62) = unat x div 62" for x :: u64
  by (simp_all add: unat_mod unat_div)

lemma id_chars_set: "set (id_chars n x) \<subseteq> set milter_alpha62"
  using mod_62(2) by (induction n arbitrary: x) (auto simp: length_alpha62)

text \<open>The characters are the digits to the base 62.\<close>

lemma id_chars_inj:
  "id_chars n x = id_chars n y \<Longrightarrow> unat x < 62 ^ n \<Longrightarrow> unat y < 62 ^ n \<Longrightarrow> x = y"
proof (induction n arbitrary: x y)
  case 0
  then show ?case by (simp add: unat_eq_zero)
next
  case (Suc n)
  have "x mod 62 = y mod 62"
    using Suc.prems(1) nth_eq_iff_index_eq [OF alpha62_distinct, of "unat (x mod 62)" "unat (y mod 62)"] mod_62(2)
    by (simp add: length_alpha62 word_unat_eq_iff)
  moreover have "unat (z div 62) < 62 ^ n" if "unat z < 62 ^ Suc n" for z :: u64
    using that by (simp add: mod_62(3) less_mult_imp_div_less mult.commute)
  then have "x div 62 = y div 62" using Suc.prems by (intro Suc.IH) simp_all
  ultimately show ?case by (metis div_mult_mod_eq)
qed

lemma timestamp_inj:
  assumes "0 \<le> sec" and "sec < 2 ^ 32" and "0 \<le> usec" and "usec < 2 ^ 32"
    and "0 \<le> sec'" and "sec' < 2 ^ 32" and "0 \<le> usec'" and "usec' < 2 ^ 32"
    and "(push_bit 32 (of_int sec) OR of_int usec :: u64) = push_bit 32 (of_int sec') OR of_int usec'"
  shows "sec = sec' \<and> usec = usec'"
proof -
  have num: "uint (push_bit 32 (of_int s) OR of_int u :: u64) = s * 2 ^ 32 + u"
    if "0 \<le> s" "s < 2 ^ 32" "0 \<le> u" "u < 2 ^ 32" for s u :: int
  proof -
    have u: "take_bit 32 u = u" using that(3,4) by (simp add: take_bit_int_eq_self)
    have s: "take_bit 64 (push_bit 32 s) = push_bit 32 s" "take_bit 64 u = u"
      using that by (simp_all add: take_bit_int_eq_self push_bit_eq_mult)
    have "uint (push_bit 32 (of_int s) OR of_int u :: u64) = push_bit 32 s OR u"
      using s that(3) by (simp add: unsigned_or_eq unsigned_push_bit_eq unsigned_of_int take_bit_push_bit)
    also have "\<dots> = push_bit 32 s + u"
    proof -
      have "\<not> (bit (push_bit 32 s) n \<and> bit u n)" for n
        using u by (metis bit_push_bit_iff bit_take_bit_iff leD)
      then show ?thesis by (simp add: disjunctive_add)
    qed
    finally show ?thesis by (simp add: push_bit_eq_mult)
  qed
  have "sec * 2 ^ 32 + usec = sec' * 2 ^ 32 + usec'" using num [OF assms(1-4)] num [OF assms(5-8)] assms(9) by simp
  moreover have "(s * 2 ^ 32 + u) div 2 ^ 32 = s" "(s * 2 ^ 32 + u) mod 2 ^ 32 = u" if "0 \<le> u" "u < 2 ^ 32" for s u :: int
    using that by (simp_all add: div_pos_pos_trivial mod_pos_pos_trivial)
  ultimately show ?thesis using assms(3,4,7,8) by metis
qed

text \<open>
  identifiers of messages. \<open>milter_get_id\<close> makes 16 characters of letters and digits, and
  identifiers made at different times, to the microsecond, are different whatever the random
  numbers are. Times are those of a clock before the year 2106.
\<close>

theorem milter_id_unique:
  assumes "milter_get_id M w = Some i" and "milter_get_id M w' = Some i'"
    and "m_gettimeofday M (w_calls w) = Some (sec, usec)" and "m_gettimeofday M (w_calls w') = Some (sec', usec')"
    and "0 \<le> sec" "sec < 2 ^ 32" "0 \<le> usec" "usec < 1000000" "0 \<le> sec'" "sec' < 2 ^ 32" "0 \<le> usec'" "usec' < 1000000"
  shows "length i = 16 \<and> set i \<subseteq> set milter_alpha62 \<and> (i = i' \<longrightarrow> (sec, usec) = (sec', usec'))"
proof -
  let ?t = "push_bit 32 (of_int sec) OR of_int usec :: u64" and ?t' = "push_bit 32 (of_int sec') OR of_int usec' :: u64"
  have i: "i = id_chars 5 (ucast (m_rand M (w_calls w))) @ id_chars 11 ?t"
    and i': "i' = id_chars 5 (ucast (m_rand M (w_calls w'))) @ id_chars 11 ?t'"
    using assms(1-4) by (simp_all add: milter_get_id_def)
  have small: "unat x < 62 ^ 11" for x :: u64
  proof -
    have "unat x < 2 ^ LENGTH(64)" by (rule unsigned_less)
    then show ?thesis by simp
  qed
  have "(sec, usec) = (sec', usec')" if "i = i'"
  proof -
    from that have "id_chars 11 ?t = id_chars 11 ?t'" by (simp add: i i' append_eq_append_conv)
    then have "?t = ?t'" by (rule id_chars_inj [OF _ small small])
    with timestamp_inj [of sec usec sec' usec'] assms(5-) show ?thesis by simp
  qed
  moreover have "length i = 16" by (simp add: i)
  moreover have "set i \<subseteq> set milter_alpha62" using id_chars_set by (simp add: i)
  ultimately show ?thesis by blast
qed

theorem milter_id_unique_witness:
  "\<exists>i i'. milter_get_id quiet_milter (c_world fresh_conn) = Some i \<and>
    milter_get_id quiet_milter (snd (ask quiet_env C_Time (c_world fresh_conn))) = Some i' \<and> length i = 16 \<and> i \<noteq> i'"
proof -
  let ?w = "c_world fresh_conn" and ?w' = "snd (ask quiet_env C_Time (c_world fresh_conn))"
  have t: "m_gettimeofday quiet_milter (w_calls ?w) = Some (1000, 7)" "m_gettimeofday quiet_milter (w_calls ?w') = Some (1001, 7)"
    by (simp_all add: quiet_milter_def fresh_conn_def)
  then obtain i i' where i: "milter_get_id quiet_milter ?w = Some i" "milter_get_id quiet_milter ?w' = Some i'"
    by (simp add: milter_get_id_def)
  from milter_id_unique [OF i t] i show ?thesis by auto
qed

subsection \<open>The end of a message\<close>

lemma clear_symbols_nothing: "(\<forall>(name, stage) \<in> set ms. stage OR stages \<noteq> 0) \<Longrightarrow> clear_symbols stages ms m = m"
  by (induction ms arbitrary: m) auto

lemma spec_dangle_other: "k \<noteq> name \<Longrightarrow> spec_dangle m name k = m k"
  by (auto simp: spec_dangle_def split: option.split var.split)

lemma spec_dangle_get: "spec_get m name = Some d \<Longrightarrow> spec_get (spec_dangle m name) name = Some (DPointer 0)"
  by (auto simp: spec_dangle_def spec_get_def split: option.split_asm var.split option.split)

text \<open>
  C34: the attributes of a message outlive it. \<open>milter_priv_clear_msg\<close>, which is to remove at the end
  of a message all attributes of later stages than \<open>helo\<close>, removes none: its test combines the
  stages with \<open>|\<close>. The recipients, the sender, the queue identifier and the subject of a message are
  still there when the next message of the connection begins; the attributes \<open>headers\<close> and \<open>body\<close> are
  there, too, but the buffers they point to, which they share with the private data, have been
  freed: each is a dangling pointer, which \<open>spec_dangle\<close> writes as \<open>DPointer 0\<close>, and no longer a string.
\<close>

theorem milter_attributes_survive:
  assumes "clear_msg c = Some c'"
  shows "(\<forall>k. k \<notin> {''headers'', ''body''} \<longrightarrow> c_spec c' k = c_spec c k) \<and>
    (\<forall>p d. c_priv c = Some p \<and> mp_header p \<noteq> None \<and> spec_get (c_spec c) ''headers'' = Some d \<longrightarrow>
      spec_get (c_spec c') ''headers'' = Some (DPointer 0)) \<and>
    (\<forall>p d. c_priv c = Some p \<and> mp_body p \<noteq> None \<and> spec_get (c_spec c) ''body'' = Some d \<longrightarrow>
      spec_get (c_spec c') ''body'' = Some (DPointer 0)) \<and>
    (\<forall>p. c_priv c' = Some p \<longrightarrow> mp_header p = None \<and> mp_body p = None \<and> mp_recipients p = 0)"
proof -
  from assms obtain p where p: "c_priv c = Some p" by (auto simp: clear_msg_def split: bind_splits)
  have nz: "a OR (MS_CONNECT OR MS_UNKNOWN OR MS_HELO) \<noteq> 0" for a :: int
  proof
    assume "a OR (MS_CONNECT OR MS_UNKNOWN OR MS_HELO) = 0"
    then have "\<not> bit (a OR (MS_CONNECT OR MS_UNKNOWN OR MS_HELO)) 1" by simp
    then show False by (simp add: bit_or_iff ms_defs)
  qed
  have clear: "clear_symbols (MS_CONNECT OR MS_UNKNOWN OR MS_HELO) milter_symbols m = m" for m
    by (rule clear_symbols_nothing) (use nz in auto)
  have c': "c' = c_set_priv (c_set_spec c (snd (milter_priv_clear_msg p (c_spec c)))) (fst (milter_priv_clear_msg p (c_spec c)))"
    using assms p by (auto simp: clear_msg_def split: prod.split_asm)
  have "spec_get (spec_dangle m ''body'') ''headers'' = spec_get m ''headers''"
    "spec_get (spec_dangle m ''headers'') ''body'' = spec_get m ''body''" for m
    by (simp_all add: spec_get_def spec_dangle_other)
  then show ?thesis
    using p by (auto simp: c' milter_priv_clear_msg_def Let_def clear spec_dangle_other spec_dangle_get)
qed

definition sent_conn :: "unit conn" where
  "sent_conn = \<lparr>c_priv = Some (milter_priv_create\<lparr>mp_header := Some ''a'', mp_headerlen := 1, mp_body := Some ''b'', mp_bodylen := 1, mp_recipients := 1\<rparr>),
     c_world = \<lparr>w_x = demo_state\<lparr>xs_spec := [''headers'' \<mapsto> Var VT_STRING (Some ''headers'') (Some (DString ''a'')) VF_KEEP,
       ''body'' \<mapsto> Var VT_STRING (Some ''body'') (Some (DString ''b'')) VF_KEEP,
       ''envrcpt_addr'' \<mapsto> Var VT_STRING (Some ''envrcpt_addr'') (Some (DString ''r@d'')) KEEP_COPY]\<rparr>, w_db = (), w_calls = []\<rparr>,
     c_watchdog = None\<rparr>"

theorem milter_attributes_survive_witness:
  "\<exists>c'. clear_msg sent_conn = Some c' \<and> c_spec c' ''envrcpt_addr'' = c_spec sent_conn ''envrcpt_addr'' \<and>
    spec_get (c_spec c') ''headers'' = Some (DPointer 0) \<and> spec_get (c_spec c') ''body'' = Some (DPointer 0)"
proof -
  have "clear_msg sent_conn \<noteq> None" by (auto simp: clear_msg_def sent_conn_def split: prod.split)
  then obtain c' where c': "clear_msg sent_conn = Some c'" by blast
  from milter_attributes_survive [OF c'] c' show ?thesis by (simp add: sent_conn_def spec_get_def)
qed

subsection \<open>Unknown commands\<close>

lemma unknown_not_allowed: "ah_stages t = Some stages \<Longrightarrow> stages AND MS_UNKNOWN = 0"
  by (cases t) (auto simp: ms_off_defs ms_defs)

text \<open>The conditions of all rules are evaluated, one after the other, and none holds.\<close>

fun none_holds :: "'h env \<Rightarrow> acl_rule list \<Rightarrow> 'h world \<Rightarrow> 'h world \<Rightarrow> bool" where
  "none_holds E [] w w' \<longleftrightarrow> w' = w"
| "none_holds E (ar # rules) w w' \<longleftrightarrow>
     (case w_is_true E (ar_expression ar) w of None \<Rightarrow> False | Some (t, w1) \<Rightarrow> t = 0 \<and> none_holds E rules w1 w')"

lemma acl_rules_unknown:
  "acl_rules E tables MS_UNKNOWN depth i rules w = Some (a, w') \<Longrightarrow> a = ACL_ERROR \<or> a = ACL_NONE \<and> none_holds E rules w w'"
proof (induction rules arbitrary: i w)
  case (Cons ar rules)
  from Cons.prems obtain t w1 where t: "w_is_true E (ar_expression ar) w = Some (t, w1)" by (auto simp: acl_rules_Cons bind_eq_Some_conv)
  show ?case
  proof (cases "t = 0")
    case True
    with t Cons.prems Cons.IH show ?thesis by (simp add: acl_rules_Cons)
  qed (use t Cons.prems in \<open>auto simp: acl_rules_Cons bind_eq_Some_conv unknown_not_allowed split: if_split_asm\<close>)
qed (simp add: acl_rules.simps(1))

lemma acl_unknown:
  "acl E tables MS_UNKNOWN name 0 w = Some (a, w') \<Longrightarrow>
    a = ACL_ERROR \<or> a = ACL_NONE \<and> none_holds E (case tables name of None \<Rightarrow> [] | Some rules \<Rightarrow> rules) w w'"
  using acl_rules_unknown by (fastforce simp: acl.simps MAX_RECURSION_def split: option.split_asm)

text \<open>
  C37: rules for unknown commands cannot decide anything. \<open>MS_ANY\<close> and with it every entry of
  \<open>acl_action_handlers\<close> lacks the stage of unknown commands, so that a rule of the table \<open>unknown\<close>
  whose condition holds is an error whatever its action is: \<open>milter_unknown\<close> never rejects, accepts or
  discards, and it goes on only when the conditions of all rules of the table have been evaluated on the attributes
  of the stage and none holds. As soon as one holds, the answer is a temporary failure.
\<close>

theorem milter_unknown_rules_fail:
  assumes "milter_unknown M cmd c = Some (stat, c')"
  shows "stat = SMFIS_TEMPFAIL \<or>
    stat = SMFIS_CONTINUE \<and> (\<exists>c2 w'. stage_ready M (Unknown cmd) c c2 \<and>
      none_holds (m_env M) (case m_tables M ''unknown'' of None \<Rightarrow> [] | Some rules \<Rightarrow> rules) (c_world c2) w')"
proof (cases "stat = SMFIS_TEMPFAIL")
  case False
  from callback_decided [of M "Unknown cmd" c stat c'] assms False obtain c2 action w3 where c2: "stage_ready M (Unknown cmd) c c2"
    and acl: "acl (m_env M) (m_tables M) MS_UNKNOWN ''unknown'' 0 (c_world c2) = Some (action, w3)" and stat: "stat = verdict action"
    by (auto simp: decided_def decides_as_def)
  from acl_unknown [OF acl] False stat have "action = ACL_NONE"
    "none_holds (m_env M) (case m_tables M ''unknown'' of None \<Rightarrow> [] | Some rules \<Rightarrow> rules) (c_world c2) w3"
    by (auto simp: verdict_def)
  with c2 stat show ?thesis by (auto simp: verdict_def)
qed simp

text \<open>A server whose table \<open>unknown\<close> accepts, and a command that it does not know.\<close>

definition unknown_milter :: "unit milter_env" where
  "unknown_milter = quiet_milter\<lparr>m_tables := [''unknown'' \<mapsto> [rule ACL_ACCEPT AD_NULL]]\<rparr>"

theorem milter_unknown_rules_fail_witness:
  "\<exists>c c'. milter_unknown unknown_milter ''XYZ'' c = Some (SMFIS_TEMPFAIL, c')"
proof -
  have "\<not> Option.is_none (do { (_, c) \<leftarrow> milter_callback unknown_milter (Connect ''h'' None) fresh_conn; milter_unknown unknown_milter ''XYZ'' c })"
    by code_simp
  then obtain c stat c' where c: "milter_unknown unknown_milter ''XYZ'' c = Some (stat, c')"
    by (auto simp: Option.is_none_def split: bind_splits)
  have "\<not> none_holds E [rule ACL_ACCEPT AD_NULL] w w'" for E :: "unit env" and w w' by (simp add: unconditional)
  with milter_unknown_rules_fail [OF c] c show ?thesis by (auto simp: unknown_milter_def)
qed

subsection \<open>The message that the rules see\<close>

text \<open>What \<open>milter_eom\<close> sets, on attributes with the headers as \<open>milter_eoh\<close> has set them.\<close>

definition eom_spec :: "milter_priv \<Rightarrow> mailspec \<Rightarrow> bool" where
  "eom_spec p m \<longleftrightarrow>
     m ''headers'' = Some (Var VT_STRING (Some ''headers'') (map_option DString (mp_header p)) VF_KEEP) \<and>
     m ''headers_size'' = Some (Var VT_INT (Some ''headers_size'') (Some (DInt (mp_headerlen p))) KEEP_COPY) \<and>
     m ''body'' = Some (Var VT_STRING (Some ''body'') (map_option DString (mp_body p)) VF_KEEP) \<and>
     m ''body_size'' = Some (Var VT_INT (Some ''body_size'') (Some (DInt (mp_bodylen p))) KEEP_COPY) \<and>
     m ''message_size'' = Some (Var VT_INT (Some ''message_size'') (Some (DInt (wrap64 (mp_bodylen p + mp_headerlen p + 2)))) KEEP_COPY) \<and>
     spec_get m ''stage'' = Some (DInt MS_EOM)"

lemma load_symbols_entry:
  assumes "load_symbols ms tbl = Some tbl'"
  shows "(\<forall>k. tbl k \<noteq> None \<longrightarrow> tbl' k = tbl k) \<and>
    (\<forall>(name, stage) \<in> set ms. tbl' name = Some \<lparr>as_stages = stage, as_data = AS_SYMBOL None False\<rparr>)"
  using assms
proof (induction ms arbitrary: tbl)
  case (Cons nm ms)
  obtain name stage where nm: "nm = (name, stage)" by (cases nm)
  let ?as = "\<lparr>as_stages = stage, as_data = AS_SYMBOL None False\<rparr>"
  have "tbl name = None" "load_symbols ms (tbl(name \<mapsto> ?as)) = Some tbl'"
    using Cons.prems by (auto simp: nm acl_symbol_register_def acl_symbol_insert_def split: if_split_asm)
  with Cons.IH [OF this(2)] show ?case by (auto simp: nm)
qed simp

text \<open>A symbol of \<open>milter_symbols\<close> that has been set is read from the attributes.\<close>

lemma symbol_get_set:
  assumes "x_symbols X name = Some \<lparr>as_stages = stages, as_data = AS_SYMBOL None False\<rparr>"
    and "spec_get (xs_spec st) ''stage'' = Some (DInt stage)" and "stages AND stage \<noteq> 0" and "xs_spec st name = Some v"
  shows "acl_symbol_get X st name = Some (Some (Sym name), st)"
  using assms by (simp add: acl_symbol_get_def acl_symbol_lookup_def as_int_def)

text \<open>
  the message at its end. With the symbols that \<open>milter_load_symbols\<close> registers, and the attributes
  as the stages set them for a message of which the sizes are right, \<open>milter_message\<close>, which pipes
  and content filters use, returns exactly the headers, an empty line and the body.
\<close>

theorem milter_message_complete:
  assumes "milter_load_symbols tbl = Some tbl'" and "\<forall>k. tbl' k \<noteq> None \<longrightarrow> x_symbols (e_x E (w_db w)) k = tbl' k"
    and "eom_spec p (w_spec w)" and "mp_header p = Some h" and "mp_headerlen p = int (length h)"
    and "mp_body p = Some b" and "mp_bodylen p = int (length b)" and "length h + length b + 3 < 2 ^ 31"
  shows "milter_message E w = Some ((int (length h) + 2 + int (length b), h @ crlf @ b), w)"
proof -
  let ?X = "e_x E (w_db w)"
  note spec = assms(3) [unfolded eom_spec_def assms(4-7)]
  have sym: "x_symbols ?X name = Some \<lparr>as_stages = stage, as_data = AS_SYMBOL None False\<rparr>" if "(name, stage) \<in> set milter_symbols" for name stage
    using load_symbols_entry [OF assms(1) [unfolded milter_load_symbols_def]] assms(2) that by fastforce
  have "acl_symbol_get ?X (w_x w) name = Some (Some (Sym name), w_x w)"
    if "(name, stage) \<in> set milter_symbols" "stage AND MS_EOM \<noteq> 0" "w_spec w name = Some v" for name stage v
    by (rule symbol_get_set [OF sym [OF that(1)] _ that(2,3)]) (use spec in simp)
  from this [of "''headers''" MS_OFF_EOH] this [of "''headers_size''" MS_OFF_EOH] this [of "''body''" MS_OFF_EOM]
    this [of "''body_size''" MS_OFF_EOM]
  have get: "acl_symbol_get ?X (w_x w) name = Some (Some (Sym name), w_x w)"
    if "name \<in> {''headers'', ''headers_size'', ''body'', ''body_size''}" for name
    using that spec by (auto simp: milter_symbols_def ms_off_defs ms_defs)
  have deref: "acl_symbol_dereference ?X (w_x w) [''headers'', ''headers_size'', ''body'', ''body_size''] =
    Some (0, [Some (DString h), Some (DInt (int (length h))), Some (DString b), Some (DInt (int (length b)))], w_x w)"
    using get spec by (simp add: deref_opt_def deref_def)
  have w: "wrap32 (int (length h) + 2 + int (length b)) = int (length h) + 2 + int (length b)"
    "wrap64 (int (length b) + int (length h) + 2) = int (length b) + int (length h) + 2"
    "wrap32 (3 + (int (length b) + int (length h))) = 3 + (int (length b) + int (length h))"
    using assms(8) by (auto intro!: wrap32_id [THEN trans] wrap64_id simp: i32_def i64_def)
  have "spec_get (w_spec w) ''message_size'' = Some (DInt (int (length b) + int (length h) + 2))"
    using spec w(2) by (simp add: spec_get_def)
  then show ?thesis
    using w(1,3)
    by (simp add: milter_message_def milter_dump_message_def deref as_defs crlf_def del: acl_symbol_dereference.simps)
qed

definition sent_priv :: milter_priv where
  "sent_priv = milter_priv_create\<lparr>mp_header := Some ''ab'', mp_headerlen := 2, mp_body := Some ''c'', mp_bodylen := 1\<rparr>"

definition sent_world :: "unit world" where
  "sent_world = \<lparr>w_x = demo_state\<lparr>xs_spec :=
       [''headers'' \<mapsto> Var VT_STRING (Some ''headers'') (Some (DString ''ab'')) VF_KEEP,
        ''headers_size'' \<mapsto> Var VT_INT (Some ''headers_size'') (Some (DInt 2)) KEEP_COPY,
        ''body'' \<mapsto> Var VT_STRING (Some ''body'') (Some (DString ''c'')) VF_KEEP,
        ''body_size'' \<mapsto> Var VT_INT (Some ''body_size'') (Some (DInt 1)) KEEP_COPY,
        ''message_size'' \<mapsto> Var VT_INT (Some ''message_size'') (Some (DInt 5)) KEEP_COPY,
        ''stage'' \<mapsto> Var VT_INT (Some ''stage'') (Some (DInt MS_EOM)) KEEP_COPY]\<rparr>, w_db = (), w_calls = []\<rparr>"

theorem milter_message_complete_witness:
  "\<exists>E. milter_message E sent_world = Some ((5, ''ab'' @ crlf @ ''c''), sent_world)"
proof -
  have "\<not> Option.is_none (milter_load_symbols Map.empty)" by code_simp
  then obtain tbl where tbl: "milter_load_symbols Map.empty = Some tbl" by (auto simp: Option.is_none_def)
  let ?E = "quiet_env\<lparr>e_x := \<lambda>_. demo_env\<lparr>x_symbols := tbl\<rparr>\<rparr>"
  have "wrap64 5 = 5" by (intro wrap64_id) (simp add: i64_def)
  then have "eom_spec sent_priv (w_spec sent_world)"
    by (simp add: eom_spec_def sent_priv_def sent_world_def milter_priv_create_def spec_get_def)
  from milter_message_complete [OF tbl _ this, of ?E "''ab''" "''c''"] show ?thesis
    by (intro exI [of _ ?E]) (simp add: sent_priv_def)
qed

end
