(* ===== verification/Dbt.thy ===== *)
theory Dbt
  imports Memdb World Watchdog
begin

section \<open>Database tables and their janitor (dbt.c)\<close>

text \<open>
  The table of drivers and the table of database tables, the operations that work on a whole
  table, and the cycles of the janitor, which deletes the records that have expired. The functions
  of a driver are those for one table, closed over its configuration; a driver is looked up by
  name and applied to the configuration of the table. The locks of tables are recursive and are
  released on every path.
\<close>

text \<open>What the callbacks of a walk keep outside the records.\<close>

record walk_state =
  dbt_cleanup_deleted :: int
  dbt_dump_buffer :: "string option"
  dbt_dump_buffer_size :: int

type_synonym 'h walk_callback = "var \<Rightarrow> 'h \<Rightarrow> walk_state \<Rightarrow> (int \<times> 'h \<times> walk_state) option"

record 'h table_driver = "'h dbt_driver" +
  dd_open :: "(int \<times> 'h) option"
  dd_sql_open :: "('h \<Rightarrow> 'h option) option"
  dd_walk :: "('h walk_callback \<Rightarrow> 'h \<Rightarrow> walk_state \<Rightarrow> (int \<times> 'h \<times> walk_state) option) option"
  dd_expire :: "('h \<Rightarrow> (int \<times> 'h) option) option"
  dd_sync :: "('h \<Rightarrow> (int \<times> 'h) option) option"

text \<open>
  \<open>dbt_t\<close>. \<open>dbt_validate\<close> is \<open>dbt_common_validate\<close> in every table of the program, or \<open>NULL\<close>. The
  driver is \<open>NULL\<close> until the table is opened.
\<close>

record dbt_config =
  dbt_name :: string
  dbt_config_key :: "string option"
  dbt_drivername :: "vdata option"
  dbt_path :: "vdata option"
  dbt_host :: "vdata option"
  dbt_port :: "vdata option"
  dbt_user :: "vdata option"
  dbt_pass :: "vdata option"
  dbt_database :: "vdata option"
  dbt_scheme :: var
  dbt_cleanup_interval :: int
  dbt_cleanup_schedule :: int
  dbt_validate :: bool
  dbt_expire_field :: string

record 'h dbt = dbt_config +
  dbt_driver :: "'h table_driver option"
  dbt_handle :: 'h
  dbt_open :: bool

subsection \<open>Operations on a table\<close>

text \<open>An error of the driver ends the program when \<open>cf_dbt_fatal_errors\<close> is set (\<open>fatal\<close>).\<close>

definition fatal_errors :: "bool \<Rightarrow> (int \<times> 'a) option \<Rightarrow> (int \<times> 'a) option" where
  "fatal_errors fatal res = do { (r, x) \<leftarrow> res; if r < 0 \<and> fatal then None else Some (r, x) }"

definition dbt_db_del :: "bool \<Rightarrow> 'h table_driver \<Rightarrow> 'h \<Rightarrow> var \<Rightarrow> (int \<times> 'h) option" where
  "dbt_db_del fatal dd h record0 = fatal_errors fatal (dd_del dd h record0)"

definition dbt_db_walk ::
  "bool \<Rightarrow> 'h table_driver \<Rightarrow> 'h walk_callback \<Rightarrow> 'h \<Rightarrow> walk_state \<Rightarrow> (int \<times> 'h \<times> walk_state) option" where
  "dbt_db_walk fatal dd callback h s = do { walk \<leftarrow> dd_walk dd; fatal_errors fatal (walk callback h s) }"

definition dbt_db_sync :: "'h table_driver \<Rightarrow> 'h \<Rightarrow> (int \<times> 'h) option" where
  "dbt_db_sync dd h = (case dd_sync dd of None \<Rightarrow> Some (0, h) | Some sync \<Rightarrow> sync h)"

definition dbt_db_expire :: "bool \<Rightarrow> 'h table_driver \<Rightarrow> 'h \<Rightarrow> (int \<times> 'h) option" where
  "dbt_db_expire fatal dd h = do { expire \<leftarrow> dd_expire dd; fatal_errors fatal (expire h) }"

subsection \<open>The janitor\<close>

text \<open>\<open>dbt_common_validate\<close> returns 0 for a record that has expired and ends the program when a record has no expiry.\<close>

definition dbt_common_validate :: "string \<Rightarrow> int \<Rightarrow> var \<Rightarrow> int option" where
  "dbt_common_validate expire_field schedule record0 =
     do {
       d \<leftarrow> vlist_record_get record0 expire_field;
       expire \<leftarrow> as_int d;
       Some (if schedule > expire then 0 else 1) }"

definition dbt_janitor_validate :: "bool \<Rightarrow> string \<Rightarrow> int \<Rightarrow> 'h table_driver \<Rightarrow> 'h walk_callback" where
  "dbt_janitor_validate fatal expire_field schedule dd record0 h s =
     do {
       expire \<leftarrow> dbt_common_validate expire_field schedule record0;
       if expire = -1 then Some (-1, h, s)
       else if expire \<noteq> 0 then Some (0, h, s)
       else
         do {
           (r, h1) \<leftarrow> dbt_db_del fatal dd h record0;
           Some (if r \<noteq> 0 then (-1, h1, s)
                 else (0, h1, s\<lparr>dbt_cleanup_deleted := wrap32 (dbt_cleanup_deleted s + 1)\<rparr>)) } }"

definition dbt_janitor_cleanup_expire :: "bool \<Rightarrow> 'h table_driver \<Rightarrow> 'h \<Rightarrow> (int \<times> 'h) option" where
  "dbt_janitor_cleanup_expire fatal dd h = dbt_db_expire fatal dd h"

definition dbt_janitor_cleanup_walk :: "bool \<Rightarrow> 'h dbt \<Rightarrow> 'h table_driver \<Rightarrow> (int \<times> 'h) option" where
  "dbt_janitor_cleanup_walk fatal dbt dd =
     do {
       (r, h, s) \<leftarrow> dbt_db_walk fatal dd (dbt_janitor_validate fatal (dbt_expire_field dbt) (dbt_cleanup_schedule dbt) dd)
         (dbt_handle dbt) \<lparr>dbt_cleanup_deleted = 0, dbt_dump_buffer = None, dbt_dump_buffer_size = 0\<rparr>;
       if r \<noteq> 0 then Some (-1, h)
       else do { (_, h1) \<leftarrow> dbt_db_sync dd h; Some (dbt_cleanup_deleted s, h1) } }"

definition dbt_janitor_cleanup :: "bool \<Rightarrow> 'h dbt \<Rightarrow> (int \<times> 'h dbt) option" where
  "dbt_janitor_cleanup fatal dbt =
     (case dbt_driver dbt of
        None \<Rightarrow> Some (0, dbt)
      | Some dd \<Rightarrow>
          if dd_expire dd \<noteq> None then
            do { (deleted, h) \<leftarrow> dbt_janitor_cleanup_expire fatal dd (dbt_handle dbt); Some (deleted, dbt\<lparr>dbt_handle := h\<rparr>) }
          else if dd_walk dd \<noteq> None then
            if dbt_validate dbt then
              do { (deleted, h) \<leftarrow> dbt_janitor_cleanup_walk fatal dbt dd; Some (deleted, dbt\<lparr>dbt_handle := h\<rparr>) }
            else Some (0, dbt)
          else Some (-1, dbt))"

text \<open>One table in a cycle of \<open>dbt_janitor\<close>; \<open>now\<close> is the time of the cycle.\<close>

definition janitor_table :: "bool \<Rightarrow> int \<Rightarrow> 'h dbt \<Rightarrow> (int \<times> 'h dbt) option" where
  "janitor_table fatal now dbt0 =
     (if dbt_cleanup_interval dbt0 = -1 then Some (0, dbt0)
      else
        let dbt = (if dbt_cleanup_schedule dbt0 = 0 then dbt0\<lparr>dbt_cleanup_schedule := wrap32 now\<rparr> else dbt0) in
        if now < dbt_cleanup_schedule dbt then Some (0, dbt)
        else
          do {
            (deleted, dbt1) \<leftarrow> dbt_janitor_cleanup fatal dbt;
            Some (deleted, dbt1\<lparr>dbt_cleanup_schedule := wrap32 (now + dbt_cleanup_interval dbt1)\<rparr>) })"

text \<open>The buffer for the message about deleted records has 8192 bytes and starts again when it is full.\<close>

definition log_deleted :: "string \<Rightarrow> int \<Rightarrow> string \<Rightarrow> string" where
  "log_deleted name deleted msg =
     (if deleted > 0 then
        (let msg1 = msg @ '' '' @ name @ ''='' @ show_int deleted in if length msg1 \<ge> 8192 then [] else msg1)
      else msg)"

fun janitor_tables :: "bool \<Rightarrow> int \<Rightarrow> string list \<Rightarrow> 'h dbt sht \<Rightarrow> string \<Rightarrow> ('h dbt sht \<times> string) option" where
  "janitor_tables fatal now [] tables msg = Some (tables, msg)"
| "janitor_tables fatal now (k # ks) tables msg =
     (case sht_lookup tables k of
        None \<Rightarrow> Some (tables, msg)
      | Some dbt \<Rightarrow>
          do {
            (deleted, dbt1) \<leftarrow> janitor_table fatal now dbt;
            janitor_tables fatal now ks (sht_write tables k dbt1) (log_deleted (dbt_name dbt) deleted msg) })"

text \<open>The time of the next cycle, an \<open>unsigned long\<close> to which the \<open>int\<close> of a table is converted.\<close>

definition janitor_schedule :: "int \<Rightarrow> 'h dbt list \<Rightarrow> int" where
  "janitor_schedule now dbts =
     (let schedule = foldl (\<lambda>schedule dbt.
            if dbt_cleanup_interval dbt = -1 then schedule
            else min schedule (take_bit 64 (dbt_cleanup_schedule dbt))) 0xffffffff dbts
      in if schedule = 0xffffffff then now + 1 else schedule)"

text \<open>
  A cycle of \<open>dbt_janitor\<close>: the connections that the watchdog reports, the message about deleted
  records, the tables and the time at which it wakes up again, if it is not woken before.
\<close>

definition sht_values :: "'d sht \<Rightarrow> 'd list" where
  "sht_values sht = List.map_filter sr_data (ht_elements (sht_ht sht))"

definition dbt_janitor ::
  "int \<Rightarrow> bool \<Rightarrow> int \<Rightarrow> watchdog_t sht option \<Rightarrow> 'h dbt sht \<Rightarrow>
    ((string \<times> string \<times> string \<times> int \<times> int) list \<times> string \<times> 'h dbt sht \<times> int) option" where
  "dbt_janitor timeout fatal now wd tables0 =
     do {
       slow \<leftarrow> if timeout \<noteq> 0 then watchdog_check timeout now wd else Some [];
       (tables, msg) \<leftarrow> janitor_tables fatal now (map sr_key (ht_elements (sht_ht tables0))) tables0 [];
       Some (slow, msg, tables, janitor_schedule now (sht_values tables)) }"

subsection \<open>Registration, opening and text dumps\<close>

text \<open>
  \<open>dbt_init\<close> creates the two tables. \<open>dbt_driver_register\<close> ends the program when a driver of that
  name exists; the functions that SQL drivers share are those that the driver is given with.
\<close>

definition dbt_init :: "((dbt_config \<Rightarrow> 'h table_driver) sht \<times> 'h dbt sht) option" where
  "dbt_init = 
     do {
       (drivers, _) \<leftarrow> sht_create [] 64 True;
       (tables, _) \<leftarrow> sht_create [] 64 True;
       d \<leftarrow> drivers;
       t \<leftarrow> tables;
       Some (d, t) }"

definition dbt_driver_register ::
  "(dbt_config \<Rightarrow> 'h table_driver) sht \<Rightarrow> string \<Rightarrow> (dbt_config \<Rightarrow> 'h table_driver) \<Rightarrow>
    (dbt_config \<Rightarrow> 'h table_driver) sht option" where
  "dbt_driver_register drivers dd_name dd =
     (case sht_insert [] drivers dd_name (Some dd) of (r, drivers1, _) \<Rightarrow> if r = -1 then None else Some drivers1)"

text \<open>
  \<open>dbt_register\<close>. The configuration is found in the table \<open>table\<close> of the configuration file under
  the key of the database table (\<open>cf\<close>), or in the default database. The fields are pointers into
  it, the port too, although the field is an integer and the drivers take it for the number.
\<close>

definition dbt_register ::
  "(string \<Rightarrow> vtab option) \<Rightarrow> vtab option \<Rightarrow> int \<Rightarrow> string \<Rightarrow> 'h dbt \<Rightarrow> 'h dbt sht \<Rightarrow> int \<times> 'h dbt sht" where
  "dbt_register cf dbt_default_database cf_dbt_cleanup_interval name dbt tables =
     (let config_key = (case dbt_config_key dbt of None \<Rightarrow> name | Some k \<Rightarrow> k) in
      case (case cf config_key of None \<Rightarrow> dbt_default_database | Some c \<Rightarrow> Some c) of
        None \<Rightarrow> (-1, tables)
      | Some config \<Rightarrow>
          (let dbt1 = dbt\<lparr>dbt_drivername := vtable_get config ''driver'', dbt_path := vtable_get config ''path'',
                 dbt_host := vtable_get config ''host'', dbt_port := vtable_get config ''port'',
                 dbt_user := vtable_get config ''user'', dbt_pass := vtable_get config ''pass'',
                 dbt_database := (case vtable_get config ''database'' of None \<Rightarrow> Some (DString ''mopherd'') | d \<Rightarrow> d),
                 dbt_name := name, dbt_driver := None,
                 dbt_cleanup_interval := (if dbt_cleanup_interval dbt = 0 then wrap32 cf_dbt_cleanup_interval
                   else dbt_cleanup_interval dbt),
                 dbt_expire_field := (if dbt_expire_field dbt = [] then take 255 (name @ ''_expire'')
                   else dbt_expire_field dbt)\<rparr> in
           case sht_insert [] tables name (Some dbt1) of (r, tables1, _) \<Rightarrow> (if r \<noteq> 0 then -1 else 0, tables1)))"

definition dbt_lookup :: "'h dbt sht \<Rightarrow> string \<Rightarrow> 'h dbt option" where
  "dbt_lookup tables name = sht_lookup tables name"

text \<open>
  \<open>dbt_open_database\<close>: the driver is found by name, given the configuration of the table, and opens
  it; for a driver with \<open>dd_use_sql\<close> its \<open>sql_open\<close> then creates the table on the handle, or ends the program.
  A table without a driver name is looked up under \<open>NULL\<close>, which has no meaning.
\<close>

definition dbt_open_database :: "(dbt_config \<Rightarrow> 'h table_driver) sht \<Rightarrow> 'h dbt \<Rightarrow> (int \<times> 'h dbt) option" where
  "dbt_open_database drivers dbt =
     do {
       drivername \<leftarrow> as_string (dbt_drivername dbt);
       (case sht_lookup drivers drivername of
          None \<Rightarrow> Some (-1, dbt)
        | Some driver \<Rightarrow>
            (let dd = driver (dbt_config.truncate dbt); dbt1 = dbt\<lparr>dbt_driver := Some dd\<rparr> in
             do {
               (r, h) \<leftarrow> dd_open dd;
               if r \<noteq> 0 then Some (-1, dbt1)
               else do {
                 h1 \<leftarrow> (case dd_sql_open dd of None \<Rightarrow> Some h | Some sql_open \<Rightarrow> sql_open h);
                 Some (0, dbt1\<lparr>dbt_handle := h1, dbt_open := True\<rparr>) } })) }"

fun open_tables :: "(dbt_config \<Rightarrow> 'h table_driver) sht \<Rightarrow> string list \<Rightarrow> 'h dbt sht \<Rightarrow> 'h dbt sht option" where
  "open_tables drivers [] tables = Some tables"
| "open_tables drivers (k # ks) tables =
     (case sht_lookup tables k of
        None \<Rightarrow> Some tables
      | Some dbt \<Rightarrow>
          do {
            (r, dbt1) \<leftarrow> dbt_open_database drivers dbt;
            if r \<noteq> 0 then None else open_tables drivers ks (sht_write tables k dbt1) })"

definition dbt_open_databases :: "(dbt_config \<Rightarrow> 'h table_driver) sht \<Rightarrow> 'h dbt sht \<Rightarrow> 'h dbt sht option" where
  "dbt_open_databases drivers tables = open_tables drivers (map sr_key (ht_elements (sht_ht tables))) tables"

text \<open>\<open>dbt_dump_record\<close>: a record that does not fit into the buffer of 8192 bytes is left out.\<close>

definition dbt_dump_record :: "libc \<Rightarrow> 'h walk_callback" where
  "dbt_dump_record L record0 h s =
     do {
       (len, buffer) \<leftarrow> var_dump_data L record0 8192;
       Some (if len = -1 then (-1, h, s)
             else (0, h, s\<lparr>dbt_dump_buffer := Some ((case dbt_dump_buffer s of None \<Rightarrow> [] | Some b \<Rightarrow> b) @ buffer @ [CHR 0x0A]),
                      dbt_dump_buffer_size := wrap32 (dbt_dump_buffer_size s + len + 1)\<rparr>)) }"

text \<open>The result, the text and the table. A text that is not \<open>NULL\<close> at the call is left alone.\<close>

definition dbt_dump :: "libc \<Rightarrow> bool \<Rightarrow> 'h dbt sht \<Rightarrow> string option \<Rightarrow> string \<Rightarrow> (int \<times> string option \<times> 'h dbt sht) option" where
  "dbt_dump L fatal tables dump tablename =
     (case dbt_lookup tables tablename of
        None \<Rightarrow> Some (-1, dump, tables)
      | Some table \<Rightarrow>
          if dump \<noteq> None then Some (-1, dump, tables)
          else
            do {
              dd \<leftarrow> dbt_driver table;
              (_, h, s) \<leftarrow> dbt_db_walk fatal dd (dbt_dump_record L) (dbt_handle table)
                \<lparr>dbt_cleanup_deleted = 0, dbt_dump_buffer = None, dbt_dump_buffer_size = 0\<rparr>;
              Some (if dbt_dump_buffer_size s = -1 then (-1, None, sht_write tables tablename (table\<lparr>dbt_handle := h\<rparr>))
                    else (dbt_dump_buffer_size s, dbt_dump_buffer s, sht_write tables tablename (table\<lparr>dbt_handle := h\<rparr>))) })"

text \<open>The driver of the database in memory for a table: no expiry and no synchronisation of its own.\<close>

definition memdb_init :: "libc \<Rightarrow> dbt_config \<Rightarrow> vp ht table_driver" where
  "memdb_init L cfg =
     \<lparr>dd_get = memdb_get L (dbt_scheme cfg), dd_set = memdb_set L, dd_del = memdb_del L,
      dd_open = Some (0, memdb_open), dd_sql_open = None, dd_walk = Some (memdb_walk L (dbt_scheme cfg)), dd_expire = None, dd_sync = None\<rparr>"

end
