(* ===== verification/Janitor.thy ===== *)
theory Janitor
  imports Dbt
begin

section \<open>What the janitor deletes\<close>

text \<open>
  A walk over the database in memory visits the records from the position on, also when the
  callback deletes the record it is called with. From that follow the records that the janitor
  deletes, the text of a dump, and the times at which the janitor works.
\<close>

subsection \<open>A walk over a table that changes\<close>

definition pos_ok :: "'a ht \<Rightarrow> 'a ht_pos \<Rightarrow> bool" where
  "pos_ok ht pos \<longleftrightarrow>
     (htp_record pos \<noteq> [] \<longrightarrow> htp_bucket pos < ht_buckets ht \<and> (\<forall>x \<in> set (htp_record pos). ht_bucket ht x = htp_bucket pos))"

text \<open>Nothing after bucket \<open>b\<close> changes.\<close>

definition kept_after :: "nat \<Rightarrow> 'a ht \<Rightarrow> 'a ht \<Rightarrow> bool" where
  "kept_after b ht ht' \<longleftrightarrow> ht_buckets ht' = ht_buckets ht \<and> ht_hash ht' = ht_hash ht \<and>
     drop (Suc b) (ht_table ht') = drop (Suc b) (ht_table ht)"

lemma kept_after_refl [simp]: "kept_after b ht ht"
  by (simp add: kept_after_def)

lemma kept_after_rest:
  assumes "kept_after b ht ht'" and "htp_record pos \<noteq> [] \<longrightarrow> b \<le> htp_bucket pos" and "pos_ok ht pos"
  shows "ht_rest ht' pos = ht_rest ht pos" and "pos_ok ht' pos"
proof -
  have "drop (Suc (htp_bucket pos)) (ht_table ht') = drop (Suc (htp_bucket pos)) (ht_table ht)" if "b \<le> htp_bucket pos"
  proof -
    have "Suc (htp_bucket pos) = (htp_bucket pos - b) + Suc b" using that by simp
    then show ?thesis using assms(1) unfolding kept_after_def by (metis drop_drop)
  qed
  with assms(2) show "ht_rest ht' pos = ht_rest ht pos" by (auto simp: ht_rest_def)
  show "pos_ok ht' pos" using assms(1,3) by (simp add: pos_ok_def kept_after_def ht_bucket_def)
qed

lemma ht_next_pos:
  assumes ok: "ht_ok key t" and same: "ht_table ht = ht_table t" "ht_buckets ht = ht_buckets t" "ht_hash ht = ht_hash t"
    and pos: "pos_ok ht pos" and rec: "htp_record pos = x # xs"
  shows "\<exists>pos'. ht_next ht pos = (Some x, pos') \<and> ht_rest ht pos = x # ht_rest ht pos' \<and> pos_ok ht pos' \<and>
    ht_bucket ht x = htp_bucket pos \<and> (htp_record pos' \<noteq> [] \<longrightarrow> htp_bucket pos \<le> htp_bucket pos')"
proof -
  have len: "length (ht_table ht) = ht_buckets ht" using ht_ok_length [OF ok] same by simp
  have b: "htp_bucket pos < ht_buckets ht" "ht_bucket ht x = htp_bucket pos" using pos rec by (simp_all add: pos_ok_def)
  let ?n = "next_bucket ht (Suc (htp_bucket pos))"
  have n: "Suc (htp_bucket pos) \<le> ?n" "?n \<le> ht_buckets ht" using next_bucket_spec [of "Suc (htp_bucket pos)" ht] b by auto
  have place: "ht_bucket ht y = ?n" if "?n < ht_buckets ht" "y \<in> set (ht_table ht ! ?n)" for y
    using ht_ok_place [OF ok, of ?n y] that same by (simp add: ht_bucket_def)
  obtain y pos' where y: "ht_next ht pos = (Some y, pos')" "ht_rest ht pos = y # ht_rest ht pos'"
    using ht_next_rest [OF len b(1), unfolded rec] by blast
  moreover have "y = x" using y(2) rec by (simp add: ht_rest_def)
  moreover have "pos_ok ht pos' \<and> (htp_record pos' \<noteq> [] \<longrightarrow> htp_bucket pos \<le> htp_bucket pos')"
  proof (cases "xs = []")
    case False
    with y(1) rec have "pos' = pos\<lparr>htp_record := xs\<rparr>" by (simp add: ht_next_def)
    with pos rec show ?thesis by (simp add: pos_ok_def)
  next
    case True
    with y(1) rec have "pos' = (if ?n = ht_buckets ht then \<lparr>htp_bucket = 0, htp_record = []\<rparr>
        else \<lparr>htp_bucket = ?n, htp_record = ht_table ht ! ?n\<rparr>)"
      by (simp add: ht_next_def Let_def split: if_splits)
    with n place show ?thesis by (simp add: pos_ok_def)
  qed
  ultimately show ?thesis using b(2) by blast
qed

text \<open>The callback on a list of records, one after the other.\<close>

fun walk_records :: "(var \<Rightarrow> 'h \<Rightarrow> 's \<Rightarrow> (int \<times> 'h \<times> 's) option) \<Rightarrow> var list \<Rightarrow> 'h \<Rightarrow> 's \<Rightarrow> (int \<times> 'h \<times> 's) option" where
  "walk_records callback [] h s = Some (0, h, s)"
| "walk_records callback (v # vs) h s = do { (_, h1, s1) \<leftarrow> callback v h s; walk_records callback vs h1 s1 }"

abbreviation fetched :: "string option \<Rightarrow> var list \<Rightarrow> var" where
  "fetched sname vs \<equiv> record_of sname (VF_COPYNAME OR VF_CREATE) (map unpacked vs)"

definition walk_safe :: "libc \<Rightarrow> string option \<Rightarrow> var list \<Rightarrow> (var \<Rightarrow> vp ht \<Rightarrow> 's \<Rightarrow> (int \<times> vp ht \<times> 's) option) \<Rightarrow> bool" where
  "walk_safe L sname ss callback \<longleftrightarrow>
     (\<forall>vs h s r h' s'. memdb_ok L ss h \<longrightarrow> conforms L ss vs \<longrightarrow> callback (fetched sname vs) h s = Some (r, h', s') \<longrightarrow>
        memdb_ok L ss h' \<and> kept_after (ht_bucket h (packed L vs)) h h')"

lemma walk_safeD:
  "walk_safe L sname ss callback \<Longrightarrow> memdb_ok L ss h \<Longrightarrow> conforms L ss vs \<Longrightarrow>
   callback (fetched sname vs) h s = Some (r, h', s') \<Longrightarrow> memdb_ok L ss h' \<and> kept_after (ht_bucket h (packed L vs)) h h'"
  unfolding walk_safe_def by blast

lemma memdb_walk_from_records:
  assumes "walk_safe L sname ss callback" and "memdb_ok L ss h" and "pos_ok h pos"
    and "ht_rest h pos = map (packed L) vss" and "\<forall>vs \<in> set vss. conforms L ss vs" and "length vss < n"
  shows "memdb_walk_from L (record_of sname sf ss) callback n h pos s = walk_records callback (map (fetched sname) vss) h s"
  using assms(2-)
proof (induction vss arbitrary: n h pos s)
  case Nil
  then have "htp_record pos = []" by (auto simp: ht_rest_def split: if_splits)
  with Nil.prems(5) show ?case by (cases n) (simp_all add: ht_next_def)
next
  case (Cons vs vss)
  obtain m where n: "n = Suc m" using Cons.prems(5) by (cases n) auto
  obtain x xs where rec: "htp_record pos = x # xs"
    using Cons.prems(3) by (cases "htp_record pos") (simp_all add: ht_rest_def)
  from memdb_okE [OF Cons.prems(1)] obtain t where t: "h = matched memdb_record_match t" "ht_ok vp_key t" by metis
  obtain pos' where pos': "ht_next h pos = (Some x, pos')" "ht_rest h pos = x # ht_rest h pos'" "pos_ok h pos'"
    "ht_bucket h x = htp_bucket pos" "htp_record pos' \<noteq> [] \<longrightarrow> htp_bucket pos \<le> htp_bucket pos'"
    using ht_next_pos [OF t(2) _ _ _ Cons.prems(2) rec] t(1) by auto
  have x: "x = packed L vs" "ht_rest h pos' = map (packed L) vss" "conforms L ss vs" "\<forall>vs \<in> set vss. conforms L ss vs"
    using pos'(2) Cons.prems(3,4) by simp_all
  show ?case
  proof (cases "callback (fetched sname vs) h s")
    case None
    with x(1,3) pos'(1) n show ?thesis by (simp add: conforms_unpack)
  next
    case (Some res)
    obtain r h' s' where res: "res = (r, h', s')" by (metis prod_cases3)
    have safe: "memdb_ok L ss h'" "kept_after (htp_bucket pos) h h'"
      using walk_safeD [OF assms(1) Cons.prems(1) x(3), of s r h' s'] Some res pos'(4) x(1) by simp_all
    have "memdb_walk_from L (record_of sname sf ss) callback m h' pos' s' = walk_records callback (map (fetched sname) vss) h' s'"
      using kept_after_rest [OF safe(2) pos'(5,3)] x(2,4) Cons.prems(5) n by (intro Cons.IH safe(1)) simp_all
    with Some res x(1,3) pos'(1) n show ?thesis by (simp add: conforms_unpack)
  qed
qed

subsection \<open>Deleting the record at hand\<close>

lemma is_key_unpacked [simp]: "is_key (unpacked v) = is_key v"
  by (simp add: unpacked_def is_key_def has_flag_def VF_KEY_def VF_COPY_def VF_COPYNAME_def VF_COPYDATA_def)

lemma bytes_unpacked [simp]: "key_bytes L (map unpacked vs) = key_bytes L vs" "rest_bytes L (map unpacked vs) = rest_bytes L vs"
proof -
  have "filter is_key (map unpacked vs) = map unpacked (filter is_key vs)"
    "filter (\<lambda>v. \<not> is_key v) (map unpacked vs) = map unpacked (filter (\<lambda>v. \<not> is_key v) vs)" by (simp_all add: filter_map comp_def)
  moreover have "field_bytes L (unpacked v) = field_bytes L v" for v by (simp add: field_bytes_def unpacked_def)
  ultimately show "key_bytes L (map unpacked vs) = key_bytes L vs" "rest_bytes L (map unpacked vs) = rest_bytes L vs"
    by (simp_all add: key_bytes_def rest_bytes_def comp_def)
qed

lemma conforms_unpacked: "conforms L ss vs \<Longrightarrow> conforms L ss (map unpacked vs)"
proof -
  have data: "v_data (unpacked v) = v_data v" "v_type (unpacked v) = v_type v" "v_name (unpacked v) = v_name v" for v
    by (simp_all add: unpacked_def)
  have "field_ok L (unpacked v) = field_ok L v" "same_field x (unpacked v) = same_field x v" for v x
    by (simp_all add: field_ok_def same_field_def data split: option.split)
  then show ?thesis if "conforms L ss vs" using that by (simp add: conforms_def list_all2_map2 vp_fits_def)
qed

text \<open>No record is in a bucket before \<open>ht_head\<close>, which is what removals leave of the meaning of \<open>ht_head\<close>.\<close>

definition memdb_low :: "'a ht \<Rightarrow> bool" where
  "memdb_low ht \<longleftrightarrow> ht_head ht < ht_buckets ht \<and> (\<forall>j < ht_head ht. ht_table ht ! j = [])"

lemma ht_remove_shape:
  "\<exists>chain. ht_table (snd (ht_remove ht d)) = (ht_table ht)[ht_bucket ht d := chain] \<and>
     set chain \<subseteq> set (ht_table ht ! ht_bucket ht d)"
  "ht_buckets (snd (ht_remove ht d)) = ht_buckets ht" "ht_hash (snd (ht_remove ht d)) = ht_hash ht"
  "ht_head (snd (ht_remove ht d)) = ht_head ht"
proof -
  let ?chain = "ht_table ht ! ht_bucket ht d"
  have "ht_table (snd (ht_remove ht d)) = ht_table ht \<or>
      ht_table (snd (ht_remove ht d)) = (ht_table ht)[ht_bucket ht d := unlink (ht_match ht d) ?chain]"
    by (cases ?chain; cases "find (ht_match ht d) ?chain") (simp_all add: ht_remove_def Let_def)
  then show "\<exists>chain. ht_table (snd (ht_remove ht d)) = (ht_table ht)[ht_bucket ht d := chain] \<and> set chain \<subseteq> set ?chain"
    using set_unlink [of "ht_match ht d" ?chain] list_update_id [of "ht_table ht" "ht_bucket ht d"] by (metis order_refl)
  show "ht_buckets (snd (ht_remove ht d)) = ht_buckets ht" "ht_hash (snd (ht_remove ht d)) = ht_hash ht"
    "ht_head (snd (ht_remove ht d)) = ht_head ht"
    by (cases ?chain; cases "find (ht_match ht d) ?chain"; simp add: ht_remove_def Let_def)+
qed

lemma ht_remove_kept: "kept_after (ht_bucket ht d) ht (snd (ht_remove ht d))"
proof -
  obtain chain where "ht_table (snd (ht_remove ht d)) = (ht_table ht)[ht_bucket ht d := chain]"
    using ht_remove_shape(1) [of ht d] by blast
  then show ?thesis by (simp add: kept_after_def ht_remove_shape(2,3))
qed

lemma ht_remove_low: "memdb_low ht \<Longrightarrow> memdb_low (snd (ht_remove ht d))"
proof -
  obtain chain where "ht_table (snd (ht_remove ht d)) = (ht_table ht)[ht_bucket ht d := chain]"
    "set chain \<subseteq> set (ht_table ht ! ht_bucket ht d)"
    using ht_remove_shape(1) [of ht d] by blast
  then show ?thesis if "memdb_low ht"
    using that unfolding memdb_low_def ht_remove_shape(2,4)
    by (metis list_update_beyond not_less nth_list_update_eq nth_list_update_neq set_empty subset_empty)
qed

lemma memdb_del_fetched:
  assumes ok: "memdb_ok L ss h" and vs: "conforms L ss vs"
  shows "\<exists>h'. memdb_del L h (fetched sname vs) = Some (0, h') \<and> memdb_ok L ss h' \<and>
    memdb_stored L ss h' = (memdb_stored L ss h)(key_bytes L vs := None) \<and>
    kept_after (ht_bucket h (packed L vs)) h h' \<and> (memdb_low h \<longrightarrow> memdb_low h')"
proof -
  let ?p = "packed L (map unpacked vs)" let ?h = "snd (ht_remove h ?p)"
  note un = conforms_unpacked [OF vs]
  have del: "memdb_del L h (fetched sname vs) = Some (0, ?h)"
    unfolding memdb_del_def by (simp add: conforms_pack [OF un])
  from memdb_okE [OF ok] obtain t where t: "h = matched memdb_record_match t" "ht_ok vp_key t" by metis
  have "ht_bucket h ?p = ht_bucket h (packed L vs)" using ht_bucket_key [OF t(2), of ?p "packed L vs"] t(1) by simp
  with del memdb_del_stored [OF ok un, of sname "VF_COPYNAME OR VF_CREATE"] ht_remove_kept [of h ?p] ht_remove_low [of h ?p]
  show ?thesis by auto
qed

subsection \<open>The records that have expired\<close>

definition expiry :: "string \<Rightarrow> var list \<Rightarrow> int option" where
  "expiry field fs = (case vlist_record_lookup_in fs field of None \<Rightarrow> None | Some v \<Rightarrow> as_int (v_data v))"

definition expired :: "string \<Rightarrow> int \<Rightarrow> var list \<Rightarrow> bool" where
  "expired field schedule fs \<longleftrightarrow> (case expiry field fs of None \<Rightarrow> False | Some e \<Rightarrow> e < schedule)"

lemma validate_fetched:
  assumes "expiry field (map unpacked vs) \<noteq> None"
  shows "dbt_common_validate field schedule (fetched sname vs) =
    Some (if expired field schedule (map unpacked vs) then 0 else 1)"
proof -
  have items: "vlist_items (fetched sname vs) = Some (map Some (map unpacked vs))" for vs
    by (simp add: record_of_def vlist_items_def)
  have "visible (map Some (map unpacked vs)) = map unpacked vs" using visible_Some by blast
  with assms show ?thesis
    by (auto simp: dbt_common_validate_def vlist_record_get_def vlist_record_lookup_def items expiry_def expired_def
        simp del: map_map split: option.splits)
qed

lemma validate_missing:
  "expiry field (map unpacked vs) = None \<Longrightarrow> dbt_common_validate field schedule (fetched sname vs) = None"
  by (auto simp: dbt_common_validate_def vlist_record_get_def vlist_record_lookup_def record_of_def vlist_items_def
      expiry_def as_int_def simp flip: map_map split: option.splits)

lemma janitor_validate_fetched:
  assumes ok: "memdb_ok L ss h" and vs: "conforms L ss vs" and expiry: "expiry field (map unpacked vs) \<noteq> None"
  shows "\<exists>h'. dbt_janitor_validate fatal field schedule (memdb_init L cfg) (fetched sname vs) h s =
      Some (0, h', if expired field schedule (map unpacked vs)
        then s\<lparr>dbt_cleanup_deleted := wrap32 (dbt_cleanup_deleted s + 1)\<rparr> else s) \<and>
    memdb_ok L ss h' \<and> (memdb_low h \<longrightarrow> memdb_low h') \<and> kept_after (ht_bucket h (packed L vs)) h h' \<and>
    memdb_stored L ss h' =
      (if expired field schedule (map unpacked vs) then (memdb_stored L ss h)(key_bytes L vs := None) else memdb_stored L ss h)"
proof (cases "expired field schedule (map unpacked vs)")
  case False
  with ok show ?thesis by (simp add: dbt_janitor_validate_def validate_fetched [OF expiry])
next
  case True
  with memdb_del_fetched [OF ok vs, of sname] show ?thesis
    by (auto simp: dbt_janitor_validate_def validate_fetched [OF expiry] dbt_db_del_def fatal_errors_def memdb_init_def)
qed

lemma janitor_walk_records:
  assumes "memdb_ok L ss h" and "\<forall>vs \<in> set vss. conforms L ss vs \<and> expiry field (map unpacked vs) \<noteq> None"
    and "0 \<le> dbt_cleanup_deleted s" and "dbt_cleanup_deleted s + int (length vss) < 2 ^ 31"
  shows "\<exists>h' s'. walk_records (dbt_janitor_validate fatal field schedule (memdb_init L cfg)) (map (fetched sname) vss) h s =
      Some (0, h', s') \<and> memdb_ok L ss h' \<and> (memdb_low h \<longrightarrow> memdb_low h') \<and>
    dbt_cleanup_deleted s' =
      dbt_cleanup_deleted s + int (length (filter (\<lambda>vs. expired field schedule (map unpacked vs)) vss)) \<and>
    memdb_stored L ss h' =
      (\<lambda>k. if \<exists>vs \<in> set vss. expired field schedule (map unpacked vs) \<and> key_bytes L vs = k then None
        else memdb_stored L ss h k)"
  using assms
proof (induction vss arbitrary: h s)
  case (Cons vs vss)
  let ?e = "expired field schedule (map unpacked vs)"
  let ?s = "if ?e then s\<lparr>dbt_cleanup_deleted := wrap32 (dbt_cleanup_deleted s + 1)\<rparr> else s"
  have vs: "conforms L ss vs" "expiry field (map unpacked vs) \<noteq> None" using Cons.prems(2) by simp_all
  obtain h1 where h1:
    "dbt_janitor_validate fatal field schedule (memdb_init L cfg) (fetched sname vs) h s = Some (0, h1, ?s)"
    "memdb_ok L ss h1" "memdb_low h \<longrightarrow> memdb_low h1"
    "memdb_stored L ss h1 = (if ?e then (memdb_stored L ss h)(key_bytes L vs := None) else memdb_stored L ss h)"
    using janitor_validate_fetched [OF Cons.prems(1) vs, of fatal schedule cfg sname s] by blast
  have w: "wrap32 (dbt_cleanup_deleted s + 1) = dbt_cleanup_deleted s + 1"
    using Cons.prems(3,4) by (intro wrap32_id) (simp add: i32_def)
  then have "0 \<le> dbt_cleanup_deleted ?s" "dbt_cleanup_deleted ?s + int (length vss) < 2 ^ 31"
    using Cons.prems(3,4) by (cases ?e; simp)+
  from Cons.IH [OF h1(2) _ this] Cons.prems(2) obtain h' s' where
    h': "walk_records (dbt_janitor_validate fatal field schedule (memdb_init L cfg)) (map (fetched sname) vss) h1 ?s =
        Some (0, h', s')" "memdb_ok L ss h'" "memdb_low h1 \<longrightarrow> memdb_low h'"
      "dbt_cleanup_deleted s' =
        dbt_cleanup_deleted ?s + int (length (filter (\<lambda>vs. expired field schedule (map unpacked vs)) vss))"
      "memdb_stored L ss h' = (\<lambda>k. if \<exists>vs \<in> set vss. expired field schedule (map unpacked vs) \<and> key_bytes L vs = k
        then None else memdb_stored L ss h1 k)" by auto
  have "dbt_cleanup_deleted s' = dbt_cleanup_deleted s + int (length (filter (\<lambda>vs. expired field schedule (map unpacked vs)) (vs # vss)))"
    using h'(4) w by (cases ?e) simp_all
  moreover have "memdb_stored L ss h' = (\<lambda>k. if \<exists>vs \<in> set (vs # vss). expired field schedule (map unpacked vs) \<and> key_bytes L vs = k
      then None else memdb_stored L ss h k)"
    unfolding h'(5) h1(4) by (rule ext) auto
  moreover have "walk_records (dbt_janitor_validate fatal field schedule (memdb_init L cfg)) (map (fetched sname) (vs # vss)) h s =
      Some (0, h', s')"
    using h1(1) h'(1) by simp
  ultimately show ?case using h'(2,3) h1(3) by blast
qed simp

subsection \<open>The records of a table\<close>

lemma packed_list: "set xs \<subseteq> memdb_records L ss \<Longrightarrow> \<exists>vss. xs = map (packed L) vss \<and> (\<forall>vs \<in> set vss. conforms L ss vs)"
proof (induction xs)
  case (Cons x xs)
  then obtain vs vss where "x = packed L vs" "conforms L ss vs" "xs = map (packed L) vss" "\<forall>vs \<in> set vss. conforms L ss vs"
    by (auto simp: memdb_records_def)
  then show ?case by (intro exI [of _ "vs # vss"]) simp
qed simp

lemma memdb_contents:
  assumes "memdb_ok L ss h"
  obtains vss where "concat (ht_table h) = map (packed L) vss" "\<forall>vs \<in> set vss. conforms L ss vs"
    "distinct (map (key_bytes L) vss)"
    "\<And>k fs. memdb_stored L ss h k = Some fs \<longleftrightarrow> (\<exists>vs \<in> set vss. key_bytes L vs = k \<and> map unpacked vs = fs)"
proof -
  from memdb_okE [OF assms] obtain t where t: "h = matched memdb_record_match t" "ht_ok vp_key t"
    "within (memdb_records L ss) t" "matched key_equal h = t" .
  obtain vss where vss: "concat (ht_table h) = map (packed L) vss" "\<forall>vs \<in> set vss. conforms L ss vs"
    using packed_list [of "concat (ht_table h)" L ss] t(1,3) unfolding within_def matched_simps by auto
  have d: "distinct (map (key_bytes L) vss)"
    using ht_ok_distinct [OF t(2)] vss(1) t(1) by (simp add: comp_def)
  have st: "memdb_stored L ss h k = Some fs \<longleftrightarrow> (\<exists>vs \<in> set vss. key_bytes L vs = k \<and> map unpacked vs = fs)" for k fs
  proof -
    have "set (concat (ht_table t)) = packed L ` set vss" using vss(1) t(1) by (simp only: matched_simps set_map)
    then have "ht_map vp_key t k = Some x \<longleftrightarrow> (\<exists>vs \<in> set vss. x = packed L vs \<and> key_bytes L vs = k)" for x
      by (simp only: ht_map_Some [OF t(2)] image_iff) (metis vp_key_packed)
    then have "memdb_stored L ss h k = Some fs \<longleftrightarrow>
        (\<exists>vs \<in> set vss. key_bytes L vs = k \<and> fields_of L ss (packed L vs) = Some fs)"
      unfolding memdb_stored_def t(4) bind_eq_Some_conv by simp blast
    also have "\<dots> \<longleftrightarrow> (\<exists>vs \<in> set vss. key_bytes L vs = k \<and> Some (map unpacked vs) = Some fs)"
      using fields_of_packed vss(2) by (intro bex_cong refl) simp
    finally show ?thesis by simp
  qed
  from vss d st show ?thesis by (rule that)
qed

text \<open>A walk starts at \<open>ht_head\<close>: it sees all records, or none when that bucket has become empty.\<close>

lemma memdb_start:
  assumes ok: "memdb_ok L ss h" and low: "memdb_low h"
  shows "ht_rest h (ht_start h) = (if ht_table h ! ht_head h = [] then [] else concat (ht_table h))" "pos_ok h (ht_start h)"
proof -
  from memdb_okE [OF ok] obtain t where t: "h = matched memdb_record_match t" "ht_ok vp_key t" by metis
  have hd: "ht_head h < length (ht_table h)" "\<forall>j < ht_head h. ht_table h ! j = []" "length (ht_table h) = ht_buckets h"
    using low ht_ok_length [OF t(2)] t(1) by (simp_all add: memdb_low_def)
  have "concat (take (ht_head h) (ht_table h)) = []" using hd(1,2) by (auto simp: in_set_conv_nth)
  then have all: "ht_table h ! ht_head h @ concat (drop (Suc (ht_head h)) (ht_table h)) = concat (ht_table h)"
    using id_take_nth_drop [OF hd(1)] by (metis append_self_conv2 concat.simps(2) concat_append)
  have zero: "ht_table h ! ht_head h = []" if "ht_records h = 0"
  proof -
    have "concat (ht_table t) = []" using ht_ok_records [OF t(2)] that t(1) by simp
    then have "concat (ht_table h) = []" unfolding t(1) matched_simps .
    with all show ?thesis by (metis append_is_Nil_conv)
  qed
  show "ht_rest h (ht_start h) = (if ht_table h ! ht_head h = [] then [] else concat (ht_table h))"
    using all zero by (auto simp: ht_rest_def ht_start_def)
  have "ht_bucket h x = ht_head h" if "x \<in> set (ht_table h ! ht_head h)" for x
    using ht_ok_place [OF t(2), of "ht_head h" x] that hd t(1) by (simp add: ht_bucket_def)
  then show "pos_ok h (ht_start h)" using hd by (simp add: pos_ok_def ht_start_def)
qed

lemma memdb_walk_all:
  assumes "walk_safe L sname ss callback" and "memdb_ok L ss h" and "memdb_low h"
    and "concat (ht_table h) = map (packed L) vss" and "\<forall>vs \<in> set vss. conforms L ss vs"
  shows "memdb_walk L (record_of sname sf ss) callback h s =
    walk_records callback (if ht_table h ! ht_head h = [] then [] else map (fetched sname) vss) h s"
proof -
  have len: "length (concat (ht_table h)) = length vss" using assms(4) by (simp only: length_map)
  have "ht_rest h (ht_start h) = map (packed L) (if ht_table h ! ht_head h = [] then [] else vss)"
    using memdb_start(1) [OF assms(2,3)] assms(4) by (simp del: length_concat)
  from memdb_walk_from_records [OF assms(1,2) memdb_start(2) [OF assms(2,3)] this, of "Suc (length vss)" sf s] assms(5)
  show ?thesis unfolding memdb_walk_def len by (cases "ht_table h ! ht_head h = []") simp_all
qed

subsection \<open>A cleanup of the database in memory\<close>

lemma janitor_walk_safe: "walk_safe L sname ss (dbt_janitor_validate fatal field schedule (memdb_init L cfg))"
  unfolding walk_safe_def
proof (intro allI impI)
  fix vs h s r h' s'
  assume ok: "memdb_ok L ss h" and vs: "conforms L ss vs"
    and call: "dbt_janitor_validate fatal field schedule (memdb_init L cfg) (fetched sname vs) h s = Some (r, h', s')"
  have "expiry field (map unpacked vs) \<noteq> None"
  proof
    assume "expiry field (map unpacked vs) = None"
    then have "dbt_common_validate field schedule (fetched sname vs) = None" by (simp only: validate_missing)
    with call show False by (simp add: dbt_janitor_validate_def)
  qed
  with janitor_validate_fetched [OF ok vs, of field fatal schedule cfg sname s] call
  show "memdb_ok L ss h' \<and> kept_after (ht_bucket h (packed L vs)) h h'" by auto
qed

definition unexpired :: "string \<Rightarrow> int \<Rightarrow> ('k \<rightharpoonup> var list) \<Rightarrow> ('k \<rightharpoonup> var list)" where
  "unexpired field schedule m = (\<lambda>k. case m k of None \<Rightarrow> None | Some fs \<Rightarrow> if expired field schedule fs then None else Some fs)"

lemma unexpired_contents:
  assumes "distinct (map (key_bytes L) vss)"
    and stored: "\<And>k fs. m k = Some fs \<longleftrightarrow> (\<exists>vs \<in> set vss. key_bytes L vs = k \<and> map unpacked vs = fs)"
  shows "(\<lambda>k. if \<exists>vs \<in> set vss. expired field schedule (map unpacked vs) \<and> key_bytes L vs = k then None else m k) =
      unexpired field schedule m"
    and "card {k. m k \<noteq> None \<and> unexpired field schedule m k = None} =
      length (filter (\<lambda>vs. expired field schedule (map unpacked vs)) vss)"
proof -
  let ?gone = "\<lambda>k. \<exists>vs \<in> set vss. expired field schedule (map unpacked vs) \<and> key_bytes L vs = k"
  have gone: "?gone k \<longleftrightarrow> (\<exists>fs. m k = Some fs \<and> expired field schedule fs)" for k
    unfolding stored by blast
  then show "(\<lambda>k. if ?gone k then None else m k) = unexpired field schedule m"
    by (auto simp: unexpired_def fun_eq_iff split: option.split)
  have "{k. m k \<noteq> None \<and> unexpired field schedule m k = None} = Collect ?gone"
    unfolding gone by (auto simp: unexpired_def split: option.splits)
  also have "\<dots> = set (map (key_bytes L) (filter (\<lambda>vs. expired field schedule (map unpacked vs)) vss))" by auto
  finally have eq: "{k. m k \<noteq> None \<and> unexpired field schedule m k = None} =
      set (map (key_bytes L) (filter (\<lambda>vs. expired field schedule (map unpacked vs)) vss))" .
  have "distinct (map (key_bytes L) (filter (\<lambda>vs. expired field schedule (map unpacked vs)) vss))"
    using assms(1) by (rule distinct_map_filter)
  from distinct_card [OF this] show "card {k. m k \<noteq> None \<and> unexpired field schedule m k = None} =
      length (filter (\<lambda>vs. expired field schedule (map unpacked vs)) vss)"
    unfolding eq by (simp only: length_map)
qed

text \<open>
  C10: the janitor deletes the records of a table in memory that have expired and no others: after
  \<open>dbt_janitor_cleanup\<close> the table has the records whose expiry is not before the time the cleanup
  was scheduled for, and the result is the number of records deleted. The exception is a table
  whose bucket \<open>ht_head\<close> has become empty, which \<open>ht_remove\<close> does not correct: then the walk ends
  at once, and nothing is deleted.
\<close>

theorem janitor_deletes_expired:
  assumes "dbt_driver d = Some (memdb_init L cfg)" and "dbt_scheme cfg = record_of sname sf ss" and "dbt_validate d"
    and "memdb_ok L ss (dbt_handle d)" and "memdb_room 0 (dbt_handle d)" and "memdb_low (dbt_handle d)"
    and "\<forall>k fs. memdb_stored L ss (dbt_handle d) k = Some fs \<longrightarrow> expiry (dbt_expire_field d) fs \<noteq> None"
  shows "\<exists>h'. dbt_janitor_cleanup fatal d =
      Some (int (card {k. memdb_stored L ss (dbt_handle d) k \<noteq> None \<and> memdb_stored L ss h' k = None}), d\<lparr>dbt_handle := h'\<rparr>) \<and>
    memdb_ok L ss h' \<and> memdb_low h' \<and>
    memdb_stored L ss h' =
      (if ht_table (dbt_handle d) ! ht_head (dbt_handle d) = [] then memdb_stored L ss (dbt_handle d)
       else unexpired (dbt_expire_field d) (dbt_cleanup_schedule d) (memdb_stored L ss (dbt_handle d)))"
proof -
  let ?h = "dbt_handle d" and ?f = "dbt_expire_field d" and ?t = "dbt_cleanup_schedule d"
  let ?none = "ht_table ?h ! ht_head ?h = []"
  let ?call = "dbt_janitor_validate fatal ?f ?t (memdb_init L cfg)"
  let ?s = "\<lparr>dbt_cleanup_deleted = 0, dbt_dump_buffer = None, dbt_dump_buffer_size = 0\<rparr>"
  obtain vss where vss: "concat (ht_table ?h) = map (packed L) vss" "\<forall>vs \<in> set vss. conforms L ss vs"
    "distinct (map (key_bytes L) vss)"
    "\<And>k fs. memdb_stored L ss ?h k = Some fs \<longleftrightarrow> (\<exists>vs \<in> set vss. key_bytes L vs = k \<and> map unpacked vs = fs)"
    using memdb_contents [OF assms(4)] by blast
  define us where "us = (if ?none then [] else vss)"
  have len: "length vss < 2 ^ 30"
    using assms(5) arg_cong [OF vss(1), of length] unfolding memdb_room_def by (simp only: length_map)
  have "expiry ?f (map unpacked vs) \<noteq> None" if "vs \<in> set vss" for vs using assms(7) vss(4) that by blast
  with vss(2) have "\<forall>vs \<in> set us. conforms L ss vs \<and> expiry ?f (map unpacked vs) \<noteq> None" by (simp add: us_def)
  moreover have "0 \<le> dbt_cleanup_deleted ?s" "dbt_cleanup_deleted ?s + int (length us) < 2 ^ 31"
    using len by (simp_all add: us_def)
  ultimately obtain h' s' where
    w: "walk_records ?call (map (fetched sname) us) ?h ?s = Some (0, h', s')" "memdb_ok L ss h'" "memdb_low h'"
      "dbt_cleanup_deleted s' = int (length (filter (\<lambda>vs. expired ?f ?t (map unpacked vs)) us))"
      "memdb_stored L ss h' = (\<lambda>k. if \<exists>vs \<in> set us. expired ?f ?t (map unpacked vs) \<and> key_bytes L vs = k then None
        else memdb_stored L ss ?h k)"
    using janitor_walk_records [OF assms(4), of us ?f ?s fatal ?t cfg sname] assms(6) by auto
  have st: "memdb_stored L ss h' = (if ?none then memdb_stored L ss ?h else unexpired ?f ?t (memdb_stored L ss ?h))"
    using unexpired_contents(1) [OF vss(3,4)] unfolding w(5) us_def by (cases ?none) simp_all
  have "card {k. memdb_stored L ss ?h k \<noteq> None \<and> memdb_stored L ss h' k = None} =
      length (filter (\<lambda>vs. expired ?f ?t (map unpacked vs)) us)"
    unfolding st us_def using unexpired_contents(2) [OF vss(3,4)] by (cases ?none) (simp_all del: not_None_eq)
  moreover have "memdb_walk L (record_of sname sf ss) ?call ?h ?s = Some (0, h', s')"
    using memdb_walk_all [OF janitor_walk_safe assms(4,6) vss(1,2)] w(1) by (simp add: us_def split: if_splits)
  then have "dbt_janitor_cleanup fatal d = Some (dbt_cleanup_deleted s', d\<lparr>dbt_handle := h'\<rparr>)"
    by (simp add: dbt_janitor_cleanup_def assms(1-3) memdb_init_def dbt_janitor_cleanup_walk_def dbt_db_walk_def
        dbt_db_sync_def fatal_errors_def)
  ultimately show ?thesis using w(2-4) st by (intro exI [of _ h'] conjI) (simp_all only: of_nat_eq_iff)
qed

text \<open>A table with one record, in a hash table with one bucket.\<close>

definition one_bucket :: "vp \<Rightarrow> vp ht" where
  "one_bucket vp = \<lparr>ht_table = [[vp]], ht_buckets = 1, ht_records = 1, ht_collisions = 0, ht_hash = memdb_record_hash,
     ht_match = memdb_record_match, ht_del = True, ht_head = 0\<rparr>"

lemma one_bucket_ok:
  assumes "conforms L ss vs"
  shows "memdb_ok L ss (one_bucket (packed L vs))" and "memdb_room 0 (one_bucket (packed L vs))"
    and "memdb_low (one_bucket (packed L vs))"
    and "memdb_stored L ss (one_bucket (packed L vs)) = [key_bytes L vs \<mapsto> map unpacked vs]"
proof -
  let ?h = "one_bucket (packed L vs)"
  have all: "concat (ht_table ?h) = [packed L vs]" by (simp add: one_bucket_def)
  have "ht_ok vp_key (matched key_equal ?h)"
    by (rule ht_okI) (simp_all add: one_bucket_def matched_def ht_bucket_def key_equal_def memdb_record_hash_def)
  then show "memdb_ok L ss ?h"
    unfolding memdb_ok_def within_def all using packed_record [OF assms] by (simp add: one_bucket_def)
  show "memdb_room 0 ?h" unfolding memdb_room_def all by simp
  show "memdb_low ?h" by (simp add: memdb_low_def one_bucket_def)
  show "memdb_stored L ss ?h = [key_bytes L vs \<mapsto> map unpacked vs]"
    by (rule ext) (simp add: memdb_stored_def ht_map_def all fields_of_packed [OF assms] del: map_concat)
qed

definition demo_fields :: "vdata option \<Rightarrow> vdata option \<Rightarrow> var list" where
  "demo_fields k e = [Var VT_STRING (Some ''key'') k VF_KEY, Var VT_INT (Some ''t_expire'') e 0]"

definition demo_config :: dbt_config where
  "demo_config =
     \<lparr>dbt_name = ''t'', dbt_config_key = None, dbt_drivername = Some (DString ''memdb''), dbt_path = None, dbt_host = None,
      dbt_port = None, dbt_user = None, dbt_pass = None, dbt_database = None,
      dbt_scheme = record_of (Some ''t'') 0 (demo_fields None None), dbt_cleanup_interval = 60, dbt_cleanup_schedule = 100,
      dbt_validate = True, dbt_expire_field = ''t_expire''\<rparr>"

definition demo_table :: "int \<Rightarrow> vp ht dbt" where
  "demo_table expire =
     dbt_config.extend demo_config
       \<lparr>dbt_driver = Some (memdb_init word_libc demo_config),
        dbt_handle = one_bucket (packed word_libc (demo_fields (Some (DString ''ab'')) (Some (DInt expire)))), dbt_open = True\<rparr>"

lemmas demo_table_simps = demo_table_def demo_config_def dbt_config.extend_def

lemma demo_conforms:
  assumes "i64 e"
  shows "conforms word_libc (demo_fields None None) (demo_fields (Some (DString ''ab'')) (Some (DInt e)))"
  using assms by (auto simp: conforms_def demo_fields_def field_ok_def same_field_def is_key_def storable_def has_flag_def VF_KEY_def vp_fits_defs)

theorem janitor_deletes_expired_witness:
  "\<exists>h'. dbt_janitor_cleanup True (demo_table 99) = Some (1, demo_table 99\<lparr>dbt_handle := h'\<rparr>) \<and>
     memdb_stored word_libc (demo_fields None None) h' = Map.empty"
proof -
  let ?vs = "demo_fields (Some (DString ''ab'')) (Some (DInt 99))" and ?d = "demo_table 99" and ?ss = "demo_fields None None"
  have vs: "conforms word_libc ?ss ?vs" by (rule demo_conforms) (simp add: i64_def)
  have d: "dbt_driver ?d = Some (memdb_init word_libc demo_config)" "dbt_scheme demo_config = record_of (Some ''t'') 0 ?ss"
    "dbt_validate ?d" "dbt_handle ?d = one_bucket (packed word_libc ?vs)" "dbt_expire_field ?d = ''t_expire''"
    "dbt_cleanup_schedule ?d = 100" "ht_table (dbt_handle ?d) ! ht_head (dbt_handle ?d) \<noteq> []"
    by (simp_all add: demo_table_simps one_bucket_def)
  have e: "expiry ''t_expire'' (map unpacked ?vs) = Some 99" by (simp add: expiry_def demo_fields_def unpacked_def as_int_def)
  note ok = one_bucket_ok [OF vs, folded d(4)]
  have "\<forall>k fs. memdb_stored word_libc ?ss (dbt_handle ?d) k = Some fs \<longrightarrow> expiry (dbt_expire_field ?d) fs \<noteq> None"
    unfolding ok(4) d(5) by (simp add: e)
  from janitor_deletes_expired [OF d(1-3) ok(1-3) this, of True] obtain h' where
    h': "dbt_janitor_cleanup True ?d = Some (int (card {k. memdb_stored word_libc ?ss (dbt_handle ?d) k \<noteq> None \<and>
        memdb_stored word_libc ?ss h' k = None}), ?d\<lparr>dbt_handle := h'\<rparr>)"
      "memdb_stored word_libc ?ss h' = unexpired ''t_expire'' 100 (memdb_stored word_libc ?ss (dbt_handle ?d))"
    unfolding d(5,6) using d(7) by auto
  have "memdb_stored word_libc ?ss h' = Map.empty"
    unfolding h'(2) ok(4) by (auto simp: unexpired_def expired_def e fun_eq_iff)
  moreover from this have "{k. memdb_stored word_libc ?ss (dbt_handle ?d) k \<noteq> None \<and> memdb_stored word_libc ?ss h' k = None} =
      {key_bytes word_libc ?vs}" unfolding ok(4) by auto
  ultimately show ?thesis using h'(1) by auto
qed

subsection \<open>The times of the janitor\<close>

lemma sht_write_head: "ht_head_ok (sht_ht (sht_write t k d)) = ht_head_ok (sht_ht t)" if "sht_ok t"
proof -
  have len: "length (ht_table (sht_ht t)) = ht_buckets (sht_ht t)" using ht_ok_length that by (auto simp: sht_ok_def)
  show ?thesis
    by (auto simp: sht_write_def ht_assign_def ht_head_ok_def len)
qed

lemma sht_keys:
  assumes "sht_ok t" and "ht_head_ok (sht_ht t)"
  shows "distinct (map sr_key (ht_elements (sht_ht t)))" and "set (map sr_key (ht_elements (sht_ht t))) = dom (sht_map t)"
    and "set (sht_values t) = ran (sht_lookup t)"
proof -
  have ok: "ht_ok sr_key (sht_ht t)" using assms(1) by (simp only: sht_ok_def)
  note all = ht_elements_all [OF ok assms(2)]
  show "distinct (map sr_key (ht_elements (sht_ht t)))" unfolding all by (rule ht_ok_distinct [OF ok])
  show "set (map sr_key (ht_elements (sht_ht t))) = dom (sht_map t)"
    unfolding all sht_map_def dom_def by (simp only: ht_map_None set_map) blast
  have "d \<in> set (sht_values t) \<longleftrightarrow> d \<in> ran (sht_lookup t)" for d
  proof -
    have "d \<in> ran (sht_lookup t) \<longleftrightarrow> (\<exists>k sr. sht_map t k = Some sr \<and> sr_data sr = Some d)"
      unfolding ran_def sht_lookup_map [OF assms(1)] bind_eq_Some_conv by blast
    also have "\<dots> \<longleftrightarrow> (\<exists>sr \<in> set (concat (ht_table (sht_ht t))). sr_data sr = Some d)"
      unfolding sht_map_def ht_map_Some [OF ok] by blast
    also have "\<dots> \<longleftrightarrow> d \<in> set (sht_values t)"
      unfolding sht_values_def all by (force simp add: List.map_filter_def simp del: set_concat)
    finally show ?thesis by blast
  qed
  then show "set (sht_values t) = ran (sht_lookup t)" by blast
qed

lemma janitor_tables_lookup:
  assumes "sht_ok t" and "distinct ks" and "\<forall>k \<in> set ks. sht_lookup t k \<noteq> None"
    and "janitor_tables fatal now ks t msg = Some (t', msg')"
  shows "sht_ok t' \<and> (ht_head_ok (sht_ht t) \<longrightarrow> ht_head_ok (sht_ht t')) \<and>
    (\<forall>k. sht_lookup t' k = (if k \<in> set ks then map_option snd (janitor_table fatal now (the (sht_lookup t k))) else sht_lookup t k)) \<and>
    (\<forall>k \<in> set ks. sht_lookup t' k \<noteq> None)"
  using assms
proof (induction ks arbitrary: t msg)
  case (Cons k ks)
  from Cons.prems(3) obtain d where d: "sht_lookup t k = Some d" by auto
  with Cons.prems(4) obtain n d1 where d1: "janitor_table fatal now d = Some (n, d1)"
    "janitor_tables fatal now ks (sht_write t k d1) (log_deleted (dbt_name d) n msg) = Some (t', msg')"
    by (auto simp: bind_eq_Some_conv)
  have w: "sht_ok (sht_write t k d1)" "sht_lookup (sht_write t k d1) = (sht_lookup t)(k \<mapsto> d1)"
    using sht_write_ok [OF Cons.prems(1), of k d1] d by simp_all
  have "\<forall>k' \<in> set ks. sht_lookup (sht_write t k d1) k' \<noteq> None" using Cons.prems(3) unfolding w(2) by simp
  from Cons.IH [OF w(1) _ this d1(2)] Cons.prems(2) sht_write_head [OF Cons.prems(1), of k d1] d d1(1)
  show ?case unfolding w(2) by (auto split: if_splits)
qed simp

lemma schedule_min:
  fixes ds :: "'h dbt list"
  assumes "\<forall>d \<in> set ds. dbt_cleanup_interval d \<noteq> -1 \<longrightarrow> b < dbt_cleanup_schedule d \<and> 0 \<le> dbt_cleanup_schedule d \<and> dbt_cleanup_schedule d < 2 ^ 31"
    and "b < s"
  defines "m \<equiv> foldl (\<lambda>s d. if dbt_cleanup_interval d = -1 then s else min s (take_bit 64 (dbt_cleanup_schedule d))) s ds"
  shows "b < m" and "m \<le> s" and "\<forall>d \<in> set ds. dbt_cleanup_interval d \<noteq> -1 \<longrightarrow> m \<le> dbt_cleanup_schedule d"
proof -
  have "b < m \<and> m \<le> s \<and> (\<forall>d \<in> set ds. dbt_cleanup_interval d \<noteq> -1 \<longrightarrow> m \<le> dbt_cleanup_schedule d)"
    using assms(1,2) unfolding m_def
  proof (induction ds arbitrary: s)
    case (Cons d ds)
    show ?case
    proof (cases "dbt_cleanup_interval d = -1")
      case True
      with Cons.IH [of s] Cons.prems show ?thesis by simp
    next
      case False
      with Cons.prems have d: "b < dbt_cleanup_schedule d" "take_bit 64 (dbt_cleanup_schedule d) = dbt_cleanup_schedule d"
        by (simp_all add: take_bit_int_eq_self)
      have "b < min s (dbt_cleanup_schedule d)" using d(1) Cons.prems(2) by simp
      from Cons.IH [OF _ this] Cons.prems(1) d(2) False show ?thesis by auto
    qed
  qed simp
  then show "b < m" and "m \<le> s" and "\<forall>d \<in> set ds. dbt_cleanup_interval d \<noteq> -1 \<longrightarrow> m \<le> dbt_cleanup_schedule d" by blast+
qed

lemma cleanup_config: "dbt_janitor_cleanup fatal d = Some (n, d') \<Longrightarrow> dbt_cleanup_interval d' = dbt_cleanup_interval d"
  by (auto simp: dbt_janitor_cleanup_def bind_eq_Some_conv split: option.splits if_splits)

lemma janitor_table_schedule:
  assumes "janitor_table fatal now d = Some (n, d')" and "dbt_cleanup_interval d' \<noteq> -1"
    and "0 < dbt_cleanup_interval d" and "0 \<le> now" and "now + dbt_cleanup_interval d < 2 ^ 31" and "i32 (dbt_cleanup_schedule d)"
  shows "now < dbt_cleanup_schedule d' \<and> dbt_cleanup_schedule d' < 2 ^ 31"
proof -
  have "wrap32 now = now" "wrap32 (now + dbt_cleanup_interval d) = now + dbt_cleanup_interval d"
    using assms(3-5) by (auto intro!: wrap32_id simp: i32_def)
  with assms show ?thesis
    by (auto simp: janitor_table_def Let_def bind_eq_Some_conv i32_def split: if_splits dest!: cleanup_config)
qed

lemma janitor_table_interval: "janitor_table fatal now d = Some (n, d') \<Longrightarrow> dbt_cleanup_interval d' = dbt_cleanup_interval d"
  by (auto simp: janitor_table_def Let_def bind_eq_Some_conv split: if_splits dest!: cleanup_config)

text \<open>The tables as \<open>dbt_register\<close> leaves them, at a time that fits into an \<open>int\<close> with the interval.\<close>

definition tables_ok :: "int \<Rightarrow> 'h dbt sht \<Rightarrow> bool" where
  "tables_ok now t \<longleftrightarrow> sht_ok t \<and> ht_head_ok (sht_ht t) \<and> 0 \<le> now \<and> now < 2 ^ 31 \<and>
     (\<forall>k sr. sht_map t k = Some sr \<longrightarrow> sr_data sr \<noteq> None) \<and>
     (\<forall>k d. sht_lookup t k = Some d \<longrightarrow> dbt_cleanup_interval d \<noteq> -1 \<longrightarrow>
        0 < dbt_cleanup_interval d \<and> now + dbt_cleanup_interval d < 2 ^ 31 \<and> i32 (dbt_cleanup_schedule d))"

lemma janitor_cycle_facts:
  assumes "tables_ok now tables0" and "dbt_janitor timeout fatal now wd tables0 = Some (slow, msg, tables, wake)"
  shows "sht_lookup tables = (\<lambda>k. case sht_lookup tables0 k of None \<Rightarrow> None | Some d \<Rightarrow> map_option snd (janitor_table fatal now d))"
    and "now < wake"
    and "\<forall>k d. sht_lookup tables k = Some d \<longrightarrow> dbt_cleanup_interval d \<noteq> -1 \<longrightarrow> now < dbt_cleanup_schedule d \<and> wake \<le> dbt_cleanup_schedule d"
proof -
  let ?ks = "map sr_key (ht_elements (sht_ht tables0))"
  have ok: "sht_ok tables0" "ht_head_ok (sht_ht tables0)" "0 \<le> now" "now < 2 ^ 31" and full: "sht_map tables0 k = Some sr \<Longrightarrow> sr_data sr \<noteq> None" for k sr
    using assms(1) by (auto simp: tables_ok_def)
  note keys = sht_keys [OF ok(1,2)]
  have dom: "k \<in> set ?ks \<longleftrightarrow> sht_lookup tables0 k \<noteq> None" for k
    unfolding keys(2) sht_lookup_map [OF ok(1)] using full by (cases "sht_map tables0 k") auto
  obtain t where t: "janitor_tables fatal now ?ks tables0 [] = Some (tables, msg)" "wake = janitor_schedule now (sht_values tables)"
    using assms(2) by (auto simp: dbt_janitor_def bind_eq_Some_conv split: if_splits)
  from janitor_tables_lookup [OF ok(1) keys(1) _ t(1)] dom
  have tabs: "sht_ok tables" "ht_head_ok (sht_ht tables)" "\<And>k. sht_lookup tables k =
      (if k \<in> set ?ks then map_option snd (janitor_table fatal now (the (sht_lookup tables0 k))) else sht_lookup tables0 k)"
    using ok(2) by blast+
  show look: "sht_lookup tables = (\<lambda>k. case sht_lookup tables0 k of None \<Rightarrow> None | Some d \<Rightarrow> map_option snd (janitor_table fatal now d))"
    using dom by (auto simp: tabs(3) fun_eq_iff split: option.split)
  have sched: "now < dbt_cleanup_schedule d \<and> dbt_cleanup_schedule d < 2 ^ 31"
    if "sht_lookup tables k = Some d" "dbt_cleanup_interval d \<noteq> -1" for k d
  proof -
    from that(1) look obtain d0 n where d0: "sht_lookup tables0 k = Some d0" "janitor_table fatal now d0 = Some (n, d)"
      by (auto split: option.splits)
    with assms(1) that(2) janitor_table_interval [OF d0(2)] show ?thesis
      by (intro janitor_table_schedule [OF d0(2)]) (auto simp: tables_ok_def)
  qed
  let ?m = "foldl (\<lambda>s d. if dbt_cleanup_interval d = -1 then s else min s (take_bit 64 (dbt_cleanup_schedule d))) 0xffffffff (sht_values tables)"
  have vals: "d \<in> set (sht_values tables) \<longleftrightarrow> (\<exists>k. sht_lookup tables k = Some d)" for d
    unfolding sht_keys(3) [OF tabs(1,2)] ran_def by blast
  have m: "now < ?m" "\<forall>d \<in> set (sht_values tables). dbt_cleanup_interval d \<noteq> -1 \<longrightarrow> ?m \<le> dbt_cleanup_schedule d"
    by (rule schedule_min [of _ now]; use sched vals ok(3,4) in force)+
  then show "now < wake" unfolding t(2) janitor_schedule_def Let_def by simp
  show "\<forall>k d. sht_lookup tables k = Some d \<longrightarrow> dbt_cleanup_interval d \<noteq> -1 \<longrightarrow> now < dbt_cleanup_schedule d \<and> wake \<le> dbt_cleanup_schedule d"
  proof (intro allI impI)
    fix k d assume d: "sht_lookup tables k = Some d" "dbt_cleanup_interval d \<noteq> -1"
    from m(2) vals d have "?m \<le> dbt_cleanup_schedule d" by blast
    moreover from this sched [OF d] have "?m \<noteq> 0xffffffff" by auto
    ultimately show "now < dbt_cleanup_schedule d \<and> wake \<le> dbt_cleanup_schedule d"
      using sched [OF d] unfolding t(2) janitor_schedule_def Let_def by simp
  qed
qed

text \<open>
  C31: the janitor neither sleeps past a cleanup nor runs without pause. In a cycle every table is
  given its turn exactly once; afterwards every table that is cleaned up at all is scheduled after
  the time of the cycle, and the janitor wakes up after that time and not later than the first
  table is due.
\<close>

theorem janitor_cycle:
  assumes "tables_ok now tables0" and "dbt_janitor timeout fatal now wd tables0 = Some (slow, msg, tables, wake)"
  shows "sht_lookup tables = (\<lambda>k. case sht_lookup tables0 k of None \<Rightarrow> None | Some d \<Rightarrow> map_option snd (janitor_table fatal now d)) \<and>
    now < wake \<and>
    (\<forall>k d. sht_lookup tables k = Some d \<longrightarrow> dbt_cleanup_interval d \<noteq> -1 \<longrightarrow> now < dbt_cleanup_schedule d \<and> wake \<le> dbt_cleanup_schedule d)"
  using janitor_cycle_facts [OF assms] by blast

lemma set_singleton_distinct: "distinct xs \<Longrightarrow> set xs = {x} \<Longrightarrow> xs = [x]"
  by (cases xs rule: list.exhaust) (auto simp: set_eq_iff, metis list.set_intros(1) list.exhaust)

theorem janitor_cycle_witness:
  "\<exists>tables0 tables wake. dbt_janitor 0 True 1000 None tables0 = Some ([], [], tables, wake) \<and>
     sht_lookup tables ''t'' = Some (demo_table 99\<lparr>dbt_driver := None, dbt_cleanup_schedule := 1060\<rparr>) \<and> 1000 < wake \<and> wake \<le> 1060"
proof -
  let ?d = "demo_table 99\<lparr>dbt_driver := None\<rparr>"
  obtain t :: "vp ht dbt sht" where t: "sht_ok t" "ht_head_ok (sht_ht t)" "sht_map t = [''t'' \<mapsto> \<lparr>sr_key = ''t'', sr_data = Some ?d\<rparr>]"
    using sht_single [of "''t''" ?d] by blast
  have d: "dbt_cleanup_interval ?d = 60" "dbt_cleanup_schedule ?d = 100" "dbt_driver ?d = None" by (simp_all add: demo_table_simps)
  have look: "sht_lookup t k = (if k = ''t'' then Some ?d else None)" for k by (simp add: sht_lookup_map [OF t(1)] t(3))
  have ok: "tables_ok 1000 t" using t look d by (auto simp: tables_ok_def i32_def)
  have "set (map sr_key (ht_elements (sht_ht t))) = {''t''}" unfolding sht_keys(2) [OF t(1,2)] t(3) by simp
  from set_singleton_distinct [OF sht_keys(1) [OF t(1,2)] this] have "map sr_key (ht_elements (sht_ht t)) = [''t'']" .
  moreover have row: "janitor_table True 1000 ?d = Some (0, ?d\<lparr>dbt_cleanup_schedule := 1060\<rparr>)"
    using d by (simp add: janitor_table_def dbt_janitor_cleanup_def wrap32_id i32_def)
  ultimately obtain tables wake where run: "dbt_janitor 0 True 1000 None t = Some ([], [], tables, wake)"
    unfolding dbt_janitor_def by (simp add: look log_deleted_def del: map_eq_Cons_conv Cons_eq_map_conv)
  from janitor_cycle [OF ok run] have cycle:
    "sht_lookup tables = (\<lambda>k. case sht_lookup t k of None \<Rightarrow> None | Some d \<Rightarrow> map_option snd (janitor_table True 1000 d))" "1000 < wake"
    "\<forall>k d. sht_lookup tables k = Some d \<longrightarrow> dbt_cleanup_interval d \<noteq> -1 \<longrightarrow> 1000 < dbt_cleanup_schedule d \<and> wake \<le> dbt_cleanup_schedule d"
    by blast+
  have "sht_lookup tables ''t'' = Some (?d\<lparr>dbt_cleanup_schedule := 1060\<rparr>)" unfolding cycle(1) by (simp add: look row)
  moreover from this cycle(3) d(1) have "wake \<le> 1060" by (auto dest!: spec [of _ "''t''"])
  ultimately show ?thesis using run cycle(2) by blast
qed

end
