(* ===== verification/Client.thy ===== *)
theory Client
  imports Record_Store
begin

section \<open>Synchronisation with other servers (client.c)\<close>

text \<open>
  \<open>src/src/client.c\<close> sends every record that is stored to the other servers. A thread takes records
  from \<open>client_queue\<close> and writes each to all servers; what cannot be written is kept in the queue
  of the server. Queues are lists of records; lists and copies never run out of memory here. The
  network answers through \<open>netenv\<close>, which sees all calls before, the latest first.
\<close>

record client =
  c_server :: string
  c_path :: "string option"
  c_myname :: string
  c_secret :: "string option"
  c_socket :: int
  c_queue :: "var list"

datatype net = N_connect string int | N_write string string int

record netenv =
  n_connect :: "net list \<Rightarrow> client \<Rightarrow> int"
  n_write :: "net list \<Rightarrow> client \<Rightarrow> string \<Rightarrow> int"

definition client_create :: "string \<Rightarrow> string option \<Rightarrow> string \<Rightarrow> string option \<Rightarrow> client" where
  "client_create name path myname secret =
     \<lparr>c_server = name, c_path = path, c_myname = myname, c_secret = secret, c_socket = -1, c_queue = []\<rparr>"

text \<open>\<open>LL_INSERT\<close> adds at the tail.\<close>

definition client_server_add :: "string \<Rightarrow> string option \<Rightarrow> string \<Rightarrow> string option \<Rightarrow> client list \<Rightarrow> int \<times> client list" where
  "client_server_add name path myname secret client_servers =
     (0, client_servers @ [client_create name path myname secret])"

text \<open>
  The part of \<open>client_send\<close> that builds the line in a buffer of 4096 bytes, one of them reserved.
  \<open>var_dump\<close> may return a length before the end of what it has written; then the newline overwrites
  the rest. A length after the end would send bytes that were never written.
\<close>

definition send_line :: "libc \<Rightarrow> var \<Rightarrow> string option option" where
  "send_line L record0 =
     do {
       (len, buffer) \<leftarrow> var_dump L record0 4095;
       if len = -1 then Some None
       else if len < 0 \<or> nat len > length buffer then None
       else Some (Some (take (nat len) buffer @ [CHR 0x0A])) }"

text \<open>
  \<open>client_send\<close>, \<open>client_connect\<close> and \<open>client_flush\<close> call each other: a record for a server without a
  connection opens one, which first flushes the queue. The first argument bounds the depth of calls;
  \<open>length (c_queue c) + 3\<close> is enough (\<open>client_send_ok\<close>).
\<close>

fun client_send :: "nat \<Rightarrow> libc \<Rightarrow> netenv \<Rightarrow> client \<Rightarrow> var \<Rightarrow> net list \<Rightarrow> (int \<times> client \<times> net list) option"
  and client_connect :: "nat \<Rightarrow> libc \<Rightarrow> netenv \<Rightarrow> client \<Rightarrow> net list \<Rightarrow> (int \<times> client \<times> net list) option"
  and client_flush :: "nat \<Rightarrow> libc \<Rightarrow> netenv \<Rightarrow> client \<Rightarrow> net list \<Rightarrow> (client \<times> net list) option" where
  "client_send 0 L E c record0 tr = None"
| "client_send (Suc n) L E c record0 tr =
     do {
       (c1, tr1) \<leftarrow> (if c_socket c = -1 then do { (_, c1, tr1) \<leftarrow> client_connect n L E c tr; Some (c1, tr1) } else Some (c, tr));
       if c_socket c1 = -1 then Some (-1, c1, tr1)
       else
         do {
           line \<leftarrow> send_line L record0;
           (case line of
              None \<Rightarrow> Some (-1, c1, tr1)
            | Some buffer \<Rightarrow>
                (let w = n_write E tr1 c1 buffer; tr2 = N_write (c_server c1) buffer w # tr1 in
                 if w < int (length buffer) then Some (-1, c1\<lparr>c_socket := -1\<rparr>, tr2) else Some (0, c1, tr2))) } }"
| "client_connect 0 L E c tr = None"
| "client_connect (Suc n) L E c tr =
     (let s = n_connect E tr c; tr1 = N_connect (c_server c) s # tr; c1 = c\<lparr>c_socket := s\<rparr> in
      if s = -1 then Some (-1, c1, tr1)
      else if c_queue c1 \<noteq> [] then do { (c2, tr2) \<leftarrow> client_flush n L E c1 tr1; Some (0, c2, tr2) }
      else Some (0, c1, tr1))"
| "client_flush 0 L E c tr = None"
| "client_flush (Suc n) L E c tr =
     (case c_queue c of
        [] \<Rightarrow> Some (c, tr)
      | record0 # q \<Rightarrow>
          do {
            (r, c1, tr1) \<leftarrow> client_send n L E (c\<lparr>c_queue := q\<rparr>) record0 tr;
            if r \<noteq> 0 then Some (c1\<lparr>c_queue := record0 # c_queue c1\<rparr>, tr1) else client_flush n L E c1 tr1 })"

fun client_reconnect :: "libc \<Rightarrow> netenv \<Rightarrow> client list \<Rightarrow> net list \<Rightarrow> (int \<times> client list \<times> net list) option" where
  "client_reconnect L E [] tr = Some (0, [], tr)"
| "client_reconnect L E (c # cs) tr =
     (if c_socket c \<noteq> -1 then do { (d, cs1, tr1) \<leftarrow> client_reconnect L E cs tr; Some (d, c # cs1, tr1) }
      else
        do {
          (r, c1, tr1) \<leftarrow> client_connect (length (c_queue c) + 2) L E c tr;
          (d, cs1, tr2) \<leftarrow> client_reconnect L E cs tr1;
          Some (if r \<noteq> 0 then d + 1 else d, c1 # cs1, tr2) })"

text \<open>A record that cannot be copied is lost.\<close>

definition client_enqueue :: "client \<Rightarrow> var \<Rightarrow> client" where
  "client_enqueue c record0 = (case VAR_COPY record0 of None \<Rightarrow> c | Some copy \<Rightarrow> c\<lparr>c_queue := c_queue c @ [copy]\<rparr>)"

text \<open>\<open>client_update\<close>: the inner loop over the servers, then that over \<open>client_queue\<close>.\<close>

fun update_servers :: "libc \<Rightarrow> netenv \<Rightarrow> var \<Rightarrow> client list \<Rightarrow> net list \<Rightarrow> (int \<times> client list \<times> net list) option" where
  "update_servers L E record0 [] tr = Some (0, [], tr)"
| "update_servers L E record0 (c # cs) tr =
     do {
       (r, c1, tr1) \<leftarrow> client_send (length (c_queue c) + 3) L E c record0 tr;
       (d, cs1, tr2) \<leftarrow> update_servers L E record0 cs tr1;
       Some (if r = 0 then (d, c1 # cs1, tr2) else (d + 1, client_enqueue c1 record0 # cs1, tr2)) }"

fun client_update :: "libc \<Rightarrow> netenv \<Rightarrow> var list \<Rightarrow> client list \<Rightarrow> net list \<Rightarrow> (int \<times> client list \<times> net list) option" where
  "client_update L E [] servers tr = Some (0, servers, tr)"
| "client_update L E (record0 # queue) servers tr =
     do {
       (d, servers1, tr1) \<leftarrow> update_servers L E record0 servers tr;
       (d1, servers2, tr2) \<leftarrow> client_update L E queue servers1 tr1;
       Some (d + d1, servers2, tr2) }"

text \<open>
  The threads: \<open>client_sync\<close> of any thread, and the two ways in which the wait of \<open>client_main\<close> ends.
  The mutex makes them run one after the other.
\<close>

record sync =
  client_servers :: "client list"
  client_queue :: "var list"
  client_running :: bool
  incomplete :: int
  sy_trace :: "net list"

definition client_sync :: "sync \<Rightarrow> var \<Rightarrow> int \<times> sync" where
  "client_sync st record0 =
     (if client_servers st = [] then (0, st)
      else if \<not> client_running st then (-1, st)
      else
        (case VAR_COPY record0 of
           None \<Rightarrow> (-1, st)
         | Some copy \<Rightarrow> (0, st\<lparr>client_queue := client_queue st @ [copy]\<rparr>)))"

datatype wakeup = W_Signal | W_Timeout | W_Error

definition client_main :: "libc \<Rightarrow> netenv \<Rightarrow> wakeup \<Rightarrow> sync \<Rightarrow> sync option" where
  "client_main L E r st =
     (if \<not> client_running st then Some st
      else
        (case r of
           W_Signal \<Rightarrow>
             do {
               (d, servers, tr) \<leftarrow> client_update L E (client_queue st) (client_servers st) (sy_trace st);
               Some (st\<lparr>client_servers := servers, client_queue := [], incomplete := d, sy_trace := tr\<rparr>) }
         | W_Timeout \<Rightarrow>
             (if incomplete st \<noteq> 0 then
                do {
                  (d, servers, tr) \<leftarrow> client_reconnect L E (client_servers st) (sy_trace st);
                  Some (st\<lparr>client_servers := servers, incomplete := d, sy_trace := tr\<rparr>) }
              else Some st)
         | W_Error \<Rightarrow> Some (st\<lparr>client_running := False\<rparr>)))"

text \<open>
  \<open>client_init\<close>: the servers of the configuration in the order of their table, each with its
  socket, secret and the name to use for this server. \<open>None\<close> means that there is no such table. The thread
  that it creates does not run yet: \<open>client_running\<close> is set by \<open>client_start\<close>, the begin of \<open>client_main\<close>, unless
  the clock fails.
\<close>

fun add_servers :: "string \<Rightarrow> (string \<times> string option \<times> string option \<times> string option) list \<Rightarrow> client list \<Rightarrow> int \<times> client list" where
  "add_servers cf_hostname [] servers = (0, servers)"
| "add_servers cf_hostname ((name, path, secret, myname) # rest) servers =
     (case client_server_add name path (case myname of None \<Rightarrow> cf_hostname | Some m \<Rightarrow> m) secret servers of
        (r, servers1) \<Rightarrow> if r \<noteq> 0 then (-1, servers1) else add_servers cf_hostname rest servers1)"

definition client_init ::
  "string \<Rightarrow> int \<Rightarrow> (string \<times> string option \<times> string option \<times> string option) list option \<Rightarrow> int \<times> sync" where
  "client_init cf_hostname pid servers =
     (let none = \<lparr>client_servers = [], client_queue = [], client_running = False, incomplete = 0, sy_trace = []\<rparr> in
      case servers of
        None \<Rightarrow> (0, none)
      | Some ss \<Rightarrow>
          (case add_servers cf_hostname ss [] of
             (r, cs) \<Rightarrow>
               if r \<noteq> 0 \<or> length (cf_hostname @ '':'' @ show_int pid) \<ge> 256 then (-1, none\<lparr>client_servers := cs\<rparr>)
               else (0, none\<lparr>client_servers := cs\<rparr>)))"

definition client_start :: "bool \<Rightarrow> sync \<Rightarrow> sync" where
  "client_start util_now sy = sy\<lparr>client_running := util_now, incomplete := 0\<rparr>"

subsection \<open>Records that can be sent\<close>

definition copyable :: "var \<Rightarrow> bool" where
  "copyable v \<longleftrightarrow> (case v_data v of None \<Rightarrow> v_type v \<notin> {VT_LIST, VT_TABLE} | Some d \<Rightarrow> var_copy_data (v_type v) d = Some d)"

text \<open>A record of plain fields with its line.\<close>

definition sendable :: "libc \<Rightarrow> var \<Rightarrow> string \<Rightarrow> bool" where
  "sendable L r line \<longleftrightarrow> send_line L r = Some (Some line) \<and> (\<exists>name flags vs. r = record_of name flags vs \<and> (\<forall>v \<in> set vs. copyable v))"

lemma copy_var_copyable:
  assumes "copyable v"
  shows "\<exists>f. copy_var v = Some (Var (v_type v) (v_name v) (v_data v) f)"
proof (cases v)
  case (Var t n d f)
  have "var_data_create t = None" if "t \<notin> {VT_LIST, VT_TABLE}" using that by (cases t) simp_all
  with assms Var show ?thesis by (cases d) (auto simp: copyable_def Let_def)
qed

lemma copyable_fields: "copyable (Var (v_type v) n (v_data v) f) = copyable v"
  by (simp add: copyable_def split: option.split)

lemma copy_items_copyable:
  assumes "\<forall>v \<in> set vs. copyable v"
  shows "\<exists>us. copy_items (map Some vs) = Some (map Some us) \<and> (\<forall>u \<in> set us. copyable u) \<and>
    map (\<lambda>v. (v_type v, v_name v, v_data v)) us = map (\<lambda>v. (v_type v, v_name v, v_data v)) vs"
  using assms
proof (induction vs)
  case (Cons v vs)
  then obtain us f where us: "copy_items (map Some vs) = Some (map Some us)" "\<forall>u \<in> set us. copyable u"
    "map (\<lambda>v. (v_type v, v_name v, v_data v)) us = map (\<lambda>v. (v_type v, v_name v, v_data v)) vs"
    "copy_var v = Some (Var (v_type v) (v_name v) (v_data v) f)"
    using copy_var_copyable [of v] by auto
  then show ?case
    using Cons.prems by (intro exI [of _ "Var (v_type v) (v_name v) (v_data v) f # us"]) (simp add: copyable_fields)
qed simp

lemma dump_var_fields: "dump_var L v = dump_var L (Var (v_type v) (v_name v) (v_data v) f)"
  by (cases v) simp

lemma send_line_fields:
  assumes "map (\<lambda>v. (v_type v, v_name v, v_data v)) us = map (\<lambda>v. (v_type v, v_name v, v_data v)) vs"
  shows "send_line L (record_of name f us) = send_line L (record_of name f' vs)"
proof -
  let ?f = "\<lambda>v. (v_type v, v_name v, v_data v)" and ?g = "\<lambda>(t, n, d). map_option (snd \<circ> dump_var L) (Some (Var t n d 0))"
  have dump: "map (map_option (snd \<circ> dump_var L)) (map Some us) = map ?g (map ?f us)" for us
    unfolding map_map by (rule map_cong [OF refl]) (simp only: comp_apply prod.case option.map, metis dump_var_fields)
  have "map (map_option (snd \<circ> dump_var L)) (map Some us) = map ?g (map ?f us)" by (rule dump)
  also have "\<dots> = map ?g (map ?f vs)" by (simp only: assms)
  also have "\<dots> = map (map_option (snd \<circ> dump_var L)) (map Some vs)" by (rule dump [symmetric])
  finally have "map (map_option (snd \<circ> dump_var L)) (map Some us) = map (map_option (snd \<circ> dump_var L)) (map Some vs)" .
  then have "dump_vdata L (DList (map Some us)) = dump_vdata L (DList (map Some vs))" by (simp only: dump_vdata.simps)
  then have "var_dump_data L (record_of name f us) = var_dump_data L (record_of name f' vs)"
    unfolding fun_eq_iff var_dump_data_def record_of_def by (simp add: dump_var.simps del: dump_vdata.simps)
  then have "var_dump L (record_of name f us) 4095 = var_dump L (record_of name f' vs) 4095"
    unfolding var_dump_def record_of_def by (simp only: var.sel)
  then show ?thesis by (simp only: send_line_def)
qed

lemma VAR_COPY_sendable:
  assumes "sendable L r line"
  shows "\<exists>r'. VAR_COPY r = Some r' \<and> sendable L r' line"
proof -
  obtain name flags vs where r: "r = record_of name flags vs" "\<forall>v \<in> set vs. copyable v" "send_line L r = Some (Some line)"
    using assms by (auto simp: sendable_def)
  obtain us where us: "copy_items (map Some vs) = Some (map Some us)" "\<forall>u \<in> set us. copyable u"
    "map (\<lambda>v. (v_type v, v_name v, v_data v)) us = map (\<lambda>v. (v_type v, v_name v, v_data v)) vs"
    using copy_items_copyable [OF r(2)] by blast
  have flags: "sanitize VF_COPY = VF_COPY" "has_flag VF_COPY VF_COPYDATA" "\<not> has_flag VF_COPY VF_CREATE"
    by (simp_all add: sanitize_def has_flag_def VF_COPY_def VF_COPYNAME_def VF_COPYDATA_def VF_KEEPNAME_def VF_KEEPDATA_def VF_CREATE_def)
  have "VAR_COPY r = Some (record_of name VF_COPY us)"
    using us(1) by (simp add: VAR_COPY_def r(1) record_of_def var_create_def var_init_def var_data_init_def flags)
  moreover have "send_line L (record_of name VF_COPY us) = Some (Some line)"
    using send_line_fields [OF us(3), of L name VF_COPY flags] r(1,3) by simp
  ultimately show ?thesis using us(2) unfolding sendable_def by blast
qed

subsection \<open>What a server has received\<close>

text \<open>The lines written to a server in full, the first one first.\<close>

fun delivered :: "string \<Rightarrow> net list \<Rightarrow> string list" where
  "delivered name [] = []"
| "delivered name (N_write s line w # tr) = delivered name tr @ (if s = name \<and> w \<ge> int (length line) then [line] else [])"
| "delivered name (N_connect s r # tr) = delivered name tr"

text \<open>A connected server has nothing left in its queue, and all that is queued can be sent.\<close>

definition client_ok :: "libc \<Rightarrow> client \<Rightarrow> string list \<Rightarrow> bool" where
  "client_ok L c lines \<longleftrightarrow> list_all2 (sendable L) (c_queue c) lines \<and> (c_socket c \<noteq> -1 \<longrightarrow> c_queue c = [])"

text \<open>What an operation for one server leaves unchanged, and the lines it delivers.\<close>

definition delivers :: "client \<Rightarrow> net list \<Rightarrow> client \<Rightarrow> net list \<Rightarrow> string list \<Rightarrow> bool" where
  "delivers c tr c' tr' new \<longleftrightarrow> c_server c' = c_server c \<and> delivered (c_server c) tr' = delivered (c_server c) tr @ new \<and>
     (\<forall>name. name \<noteq> c_server c \<longrightarrow> delivered name tr' = delivered name tr)"

lemma delivers_trans:
  "delivers c tr c1 tr1 xs \<Longrightarrow> delivers c1 tr1 c2 tr2 ys \<Longrightarrow> delivers c tr c2 tr2 (xs @ ys)"
  by (simp add: delivers_def)

lemma send_connected:
  assumes "c_socket c \<noteq> -1" and "sendable L r line"
  shows "\<exists>res c' tr'. client_send (Suc n) L E c r tr = Some (res, c', tr') \<and> c_queue c' = c_queue c \<and>
    (res = 0 \<and> c_socket c' \<noteq> -1 \<and> delivers c tr c' tr' [line] \<or> res = -1 \<and> c_socket c' = -1 \<and> delivers c tr c' tr' [])"
  using assms by (auto simp: sendable_def delivers_def Let_def)

lemma client_flush_ok:
  assumes "c_socket c \<noteq> -1" and "list_all2 (sendable L) (c_queue c) lines" and "length (c_queue c) < n"
  shows "\<exists>c' tr' k. client_flush n L E c tr = Some (c', tr') \<and> delivers c tr c' tr' (take k lines) \<and> client_ok L c' (drop k lines)"
  using assms
proof (induction lines arbitrary: n c tr)
  case Nil
  then obtain m where "n = Suc m" by (cases n) auto
  with Nil show ?case by (auto simp: delivers_def client_ok_def)
next
  case (Cons line lines)
  then obtain m r q where n: "n = Suc m" and q: "c_queue c = r # q" "sendable L r line" "list_all2 (sendable L) q lines"
    by (cases n) (auto simp: list_all2_Cons2)
  obtain m' where m: "m = Suc m'" using Cons.prems(3) n q(1) by (cases m) auto
  have "c_socket (c\<lparr>c_queue := q\<rparr>) \<noteq> -1" using Cons.prems(1) by simp
  from send_connected [OF this q(2), of m' E tr] obtain res c1 tr1 where
    c1: "client_send m L E (c\<lparr>c_queue := q\<rparr>) r tr = Some (res, c1, tr1)" "c_queue c1 = q"
      "res = 0 \<and> c_socket c1 \<noteq> -1 \<and> delivers c tr c1 tr1 [line] \<or> res = -1 \<and> c_socket c1 = -1 \<and> delivers c tr c1 tr1 []"
    unfolding m by (auto simp: delivers_def)
  show ?case
  proof (cases "res = 0")
    case False
    with c1 q show ?thesis unfolding n by (intro exI [of _ "c1\<lparr>c_queue := r # q\<rparr>"] exI [of _ tr1] exI [of _ 0])
      (auto simp: delivers_def client_ok_def)
  next
    case True
    with c1 Cons.IH [of c1 m tr1] Cons.prems(3) n q obtain c' tr' k where
      "client_flush m L E c1 tr1 = Some (c', tr')" "delivers c1 tr1 c' tr' (take k lines)" "client_ok L c' (drop k lines)" by auto
    with True c1 q(1) delivers_trans [of c tr c1 tr1 "[line]" c' tr' "take k lines"] show ?thesis
      unfolding n by (intro exI [of _ c'] exI [of _ tr'] exI [of _ "Suc k"]) auto
  qed
qed

lemma client_connect_ok:
  assumes "list_all2 (sendable L) (c_queue c) lines" and "length (c_queue c) + 2 \<le> n"
  shows "\<exists>res c' tr' k. client_connect n L E c tr = Some (res, c', tr') \<and> delivers c tr c' tr' (take k lines) \<and>
    client_ok L c' (drop k lines)"
proof -
  obtain m where n: "n = Suc m" "length (c_queue c) < m" using assms(2) by (cases n) auto
  let ?s = "n_connect E tr c" let ?c = "c\<lparr>c_socket := ?s\<rparr>" let ?tr = "N_connect (c_server c) ?s # tr"
  have start: "delivers c tr ?c ?tr []" by (simp add: delivers_def)
  show ?thesis
  proof (cases "?s = -1 \<or> c_queue c = []")
    case True
    with assms(1) start show ?thesis unfolding n by (auto simp: Let_def client_ok_def intro!: exI [of _ 0])
  next
    case False
    with client_flush_ok [of ?c L lines m E ?tr] assms(1) n(2) obtain c' tr' k where
      f: "client_flush m L E ?c ?tr = Some (c', tr')" "delivers ?c ?tr c' tr' (take k lines)" "client_ok L c' (drop k lines)" by auto
    with False delivers_trans [OF start f(2)] show ?thesis unfolding n by (auto simp: Let_def)
  qed
qed

text \<open>
  \<open>client_send\<close>: it succeeds after it has delivered the queue and the record; otherwise it has
  delivered a part of the queue, and the rest is still queued.
\<close>

lemma client_send_ok:
  assumes "client_ok L c lines" and "sendable L r line" and "length (c_queue c) + 3 \<le> n"
  shows "\<exists>res c' tr'. client_send n L E c r tr = Some (res, c', tr') \<and>
    (res = 0 \<and> delivers c tr c' tr' (lines @ [line]) \<and> client_ok L c' [] \<or>
     res = -1 \<and> (\<exists>k. delivers c tr c' tr' (take k lines) \<and> client_ok L c' (drop k lines)) \<and> c_socket c' = -1)"
proof -
  obtain m where n: "n = Suc m" "length (c_queue c) + 2 \<le> m" using assms(3) by (cases n) auto
  show ?thesis
  proof (cases "c_socket c = -1")
    case False
    then have none: "c_queue c = []" "lines = []" using assms(1) by (auto simp: client_ok_def)
    from send_connected [OF False assms(2), of m E tr] none show ?thesis
      unfolding n by (fastforce simp: client_ok_def)
  next
    case True
    obtain res1 c1 tr1 k where c1: "client_connect m L E c tr = Some (res1, c1, tr1)" "delivers c tr c1 tr1 (take k lines)"
      "client_ok L c1 (drop k lines)"
      using client_connect_ok [of L c lines m E tr] assms(1) n(2) by (auto simp: client_ok_def)
    show ?thesis
    proof (cases "c_socket c1 = -1")
      case True
      with c1 \<open>c_socket c = -1\<close> show ?thesis unfolding n by auto
    next
      case False
      then have none: "c_queue c1 = []" "drop k lines = []" using c1(3) by (auto simp: client_ok_def)
      then have all: "take k lines = lines" by simp
      have "client_send (Suc m) L E c r tr = client_send (Suc m) L E c1 r tr1"
        using True False c1(1) by simp
      moreover from send_connected [OF False assms(2), of m E tr1] obtain res c' tr' where
        s: "client_send (Suc m) L E c1 r tr1 = Some (res, c', tr')" "c_queue c' = []"
          "res = 0 \<and> c_socket c' \<noteq> -1 \<and> delivers c1 tr1 c' tr' [line] \<or> res = -1 \<and> c_socket c' = -1 \<and> delivers c1 tr1 c' tr' []"
        using none(1) by auto
      moreover have "client_ok L c' []" using s(2) by (simp add: client_ok_def)
      ultimately show ?thesis
        unfolding n using delivers_trans [OF c1(2) [unfolded all], of c' tr'] all none(2) by (metis append_Nil2)
    qed
  qed
qed

subsection \<open>All servers\<close>

text \<open>What a server has received and what is queued for it make up \<open>all\<close>.\<close>

definition peer_ok :: "libc \<Rightarrow> net list \<Rightarrow> string list \<Rightarrow> client \<Rightarrow> bool" where
  "peer_ok L tr all c \<longleftrightarrow> (\<exists>lines. client_ok L c lines \<and> delivered (c_server c) tr @ lines = all)"

definition peers_ok :: "libc \<Rightarrow> net list \<Rightarrow> string list \<Rightarrow> client list \<Rightarrow> bool" where
  "peers_ok L tr all cs \<longleftrightarrow> distinct (map c_server cs) \<and> (\<forall>c \<in> set cs. peer_ok L tr all c)"

text \<open>An operation that brings servers with \<open>all\<close> to \<open>all'\<close> and leaves others alone.\<close>

definition advances :: "libc \<Rightarrow> net list \<Rightarrow> client list \<Rightarrow> net list \<Rightarrow> client list \<Rightarrow> string list \<Rightarrow> bool" where
  "advances L tr cs tr' cs' all' \<longleftrightarrow> map c_server cs' = map c_server cs \<and> peers_ok L tr' all' cs' \<and>
     (\<forall>name. name \<notin> set (map c_server cs) \<longrightarrow> delivered name tr' = delivered name tr)"

lemma peer_ok_frame: "delivered (c_server c) tr' = delivered (c_server c) tr \<Longrightarrow> peer_ok L tr' all c = peer_ok L tr all c"
  by (simp add: peer_ok_def)

lemma peers_ok_rest:
  assumes "peers_ok L tr all (c # cs)" and "delivers c tr c1 tr1 new"
  shows "peers_ok L tr1 all cs"
proof -
  have "peer_ok L tr1 all x" if "x \<in> set cs" for x
  proof -
    from assms(1) have "c_server c \<notin> c_server ` set cs" by (simp add: peers_ok_def)
    with that have "c_server x \<noteq> c_server c" by (auto simp: image_iff)
    then have "delivered (c_server x) tr1 = delivered (c_server x) tr" using assms(2) by (simp add: delivers_def)
    from peer_ok_frame [OF this] show ?thesis using assms(1) that by (simp add: peers_ok_def)
  qed
  with assms(1) show ?thesis by (simp add: peers_ok_def)
qed

lemma advances_Cons:
  assumes "peers_ok L tr all (c # cs)" and "delivers c tr c1 tr1 new" and "peer_ok L tr1 all' c1"
    and "advances L tr1 cs tr2 cs' all'"
  shows "advances L tr (c # cs) tr2 (c1 # cs') all'"
proof -
  have names: "c_server c \<notin> set (map c_server cs)" "distinct (map c_server cs)" using assms(1) by (simp_all add: peers_ok_def)
  have c1: "c_server c1 = c_server c" "\<And>name. name \<noteq> c_server c \<Longrightarrow> delivered name tr1 = delivered name tr"
    using assms(2) by (simp_all add: delivers_def)
  from assms(4) have adv: "map c_server cs' = map c_server cs" "peers_ok L tr2 all' cs'"
    "\<And>name. name \<notin> set (map c_server cs) \<Longrightarrow> delivered name tr2 = delivered name tr1" by (auto simp: advances_def)
  have "delivered (c_server c1) tr2 = delivered (c_server c1) tr1" using adv(3) names(1) c1(1) by simp
  from peer_ok_frame [OF this] have "peer_ok L tr2 all' c1" using assms(3) by simp
  moreover have "distinct (map c_server (c1 # cs'))" unfolding list.map distinct.simps(2) adv(1) c1(1) using names by simp
  ultimately show ?thesis using adv c1 by (auto simp: advances_def peers_ok_def)
qed

lemma client_enqueue_ok:
  assumes "client_ok L c lines" and "sendable L r line" and "c_socket c = -1"
  shows "client_ok L (client_enqueue c r) (lines @ [line])" and "c_server (client_enqueue c r) = c_server c"
proof -
  obtain r' where "VAR_COPY r = Some r'" "sendable L r' line" using VAR_COPY_sendable [OF assms(2)] by blast
  with assms show "client_ok L (client_enqueue c r) (lines @ [line])" "c_server (client_enqueue c r) = c_server c"
    by (simp_all add: client_enqueue_def client_ok_def list_all2_appendI)
qed

lemma update_servers_ok:
  assumes "peers_ok L tr all cs" and "sendable L r line"
  shows "\<exists>d cs' tr'. update_servers L E r cs tr = Some (d, cs', tr') \<and> advances L tr cs tr' cs' (all @ [line])"
  using assms(1)
proof (induction cs arbitrary: tr)
  case Nil
  then show ?case by (simp add: advances_def peers_ok_def)
next
  case (Cons c cs)
  then obtain lines where lines: "client_ok L c lines" "delivered (c_server c) tr @ lines = all"
    by (auto simp: peers_ok_def peer_ok_def)
  from client_send_ok [OF lines(1) assms(2) order_refl, of E tr] obtain res c1 tr1 where
    send: "client_send (length (c_queue c) + 3) L E c r tr = Some (res, c1, tr1)" and
    res: "res = 0 \<and> delivers c tr c1 tr1 (lines @ [line]) \<and> client_ok L c1 [] \<or>
      res = -1 \<and> (\<exists>k. delivers c tr c1 tr1 (take k lines) \<and> client_ok L c1 (drop k lines)) \<and> c_socket c1 = -1" by blast
  let ?c1 = "if res = 0 then c1 else client_enqueue c1 r"
  have "\<exists>new. delivers c tr ?c1 tr1 new \<and> peer_ok L tr1 (all @ [line]) ?c1"
  proof (cases "res = 0")
    case True
    with res lines(2) show ?thesis by (auto simp: peer_ok_def delivers_def)
  next
    case False
    with res obtain k where k: "delivers c tr c1 tr1 (take k lines)" "client_ok L c1 (drop k lines)" "c_socket c1 = -1" by auto
    note enq = client_enqueue_ok [OF k(2) assms(2) k(3)]
    have "delivered (c_server c) tr1 @ drop k lines @ [line] = all @ [line]" using k(1) lines(2) by (auto simp: delivers_def)
    with False k(1) enq show ?thesis by (auto simp: peer_ok_def delivers_def)
  qed
  then obtain new where c1: "delivers c tr ?c1 tr1 new" "peer_ok L tr1 (all @ [line]) ?c1" by blast
  from Cons.IH [OF peers_ok_rest [OF Cons.prems c1(1)]] obtain d cs' tr2 where
    rest: "update_servers L E r cs tr1 = Some (d, cs', tr2)" "advances L tr1 cs tr2 cs' (all @ [line])" by blast
  from send rest(1) advances_Cons [OF Cons.prems c1 rest(2)] show ?case by (cases "res = 0") auto
qed

lemma client_reconnect_ok:
  assumes "peers_ok L tr all cs"
  shows "\<exists>d cs' tr'. client_reconnect L E cs tr = Some (d, cs', tr') \<and> advances L tr cs tr' cs' all"
  using assms
proof (induction cs arbitrary: tr)
  case Nil
  then show ?case by (simp add: advances_def peers_ok_def)
next
  case (Cons c cs)
  then obtain lines where lines: "client_ok L c lines" "delivered (c_server c) tr @ lines = all"
    by (auto simp: peers_ok_def peer_ok_def)
  have "\<exists>res c1 tr1 new. (if c_socket c \<noteq> -1 then Some (0, c, tr) else client_connect (length (c_queue c) + 2) L E c tr) =
      Some (res, c1, tr1) \<and> delivers c tr c1 tr1 new \<and> peer_ok L tr1 all c1"
  proof (cases "c_socket c = -1")
    case False
    with Cons.prems show ?thesis by (auto simp: delivers_def peers_ok_def)
  next
    case True
    have "list_all2 (sendable L) (c_queue c) lines" using lines(1) by (simp add: client_ok_def)
    from client_connect_ok [OF this order_refl, of E tr] obtain res c1 tr1 k where
      c: "client_connect (length (c_queue c) + 2) L E c tr = Some (res, c1, tr1)" "delivers c tr c1 tr1 (take k lines)"
        "client_ok L c1 (drop k lines)" by blast
    have "delivered (c_server c) tr1 @ drop k lines = all" using c(2) lines(2) by (auto simp: delivers_def)
    with c True show ?thesis by (auto simp: peer_ok_def delivers_def)
  qed
  then obtain res c1 tr1 new where
    c1: "(if c_socket c \<noteq> -1 then Some (0, c, tr) else client_connect (length (c_queue c) + 2) L E c tr) = Some (res, c1, tr1)"
      "delivers c tr c1 tr1 new" "peer_ok L tr1 all c1" by blast
  from Cons.IH [OF peers_ok_rest [OF Cons.prems c1(2)]] obtain d cs' tr2 where
    rest: "client_reconnect L E cs tr1 = Some (d, cs', tr2)" "advances L tr1 cs tr2 cs' all" by blast
  from c1(1) rest(1) advances_Cons [OF Cons.prems c1(2,3) rest(2)] show ?case by (cases "c_socket c = -1") auto
qed

lemma client_update_ok:
  assumes "peers_ok L tr all cs" and "list_all2 (sendable L) queue lines"
  shows "\<exists>d cs' tr'. client_update L E queue cs tr = Some (d, cs', tr') \<and> map c_server cs' = map c_server cs \<and>
    peers_ok L tr' (all @ lines) cs'"
  using assms(2,1)
proof (induction queue lines arbitrary: cs tr all rule: list_all2_induct)
  case (Cons r queue line lines)
  from update_servers_ok [OF Cons.prems Cons.hyps(1), of E] obtain d cs1 tr1 where
    one: "update_servers L E r cs tr = Some (d, cs1, tr1)" "map c_server cs1 = map c_server cs" "peers_ok L tr1 (all @ [line]) cs1"
    by (auto simp: advances_def)
  from Cons.IH [OF one(3)] one(1,2) show ?case by auto
qed simp

subsection \<open>Everything in order\<close>

datatype sync_event = Start bool | Record var | Wakeup wakeup

fun sync_run :: "libc \<Rightarrow> netenv \<Rightarrow> sync_event list \<Rightarrow> sync \<Rightarrow> sync option" where
  "sync_run L E [] st = Some st"
| "sync_run L E (Start util_now # es) st = sync_run L E es (client_start util_now st)"
| "sync_run L E (Record r # es) st = sync_run L E es (snd (client_sync st r))"
| "sync_run L E (Wakeup w # es) st = do { st1 \<leftarrow> client_main L E w st; sync_run L E es st1 }"

text \<open>The records handed over before the thread has ended after an error; the thread is started once.\<close>

fun accepted :: "sync_event list \<Rightarrow> var list" where
  "accepted [] = []"
| "accepted (Start util_now # es) = accepted es"
| "accepted (Record r # es) = r # accepted es"
| "accepted (Wakeup w # es) = (if w = W_Error then [] else accepted es)"

definition sync_ok :: "libc \<Rightarrow> string list \<Rightarrow> sync \<Rightarrow> bool" where
  "sync_ok L all st \<longleftrightarrow> client_servers st \<noteq> [] \<and>
     (\<exists>done lines. peers_ok L (sy_trace st) done (client_servers st) \<and> list_all2 (sendable L) (client_queue st) lines \<and>
        all = done @ lines)"

lemma client_sync_ok:
  assumes "sync_ok L all st" and "client_running st" and "sendable L r line"
  shows "sync_ok L (all @ [line]) (snd (client_sync st r))" and "client_running (snd (client_sync st r))"
proof -
  obtain r' where "VAR_COPY r = Some r'" "sendable L r' line" using VAR_COPY_sendable [OF assms(3)] by blast
  with assms show "sync_ok L (all @ [line]) (snd (client_sync st r))" "client_running (snd (client_sync st r))"
    by (auto simp: sync_ok_def client_sync_def intro!: list_all2_appendI)
qed

lemma client_main_ok:
  assumes "sync_ok L all st"
  shows "\<exists>st'. client_main L E w st = Some st' \<and> sync_ok L all st' \<and> map c_server (client_servers st') = map c_server (client_servers st) \<and>
    client_running st' = (client_running st \<and> w \<noteq> W_Error)"
proof -
  obtain dn lines where ok: "client_servers st \<noteq> []" "peers_ok L (sy_trace st) dn (client_servers st)"
    "list_all2 (sendable L) (client_queue st) lines" "all = dn @ lines" using assms by (auto simp: sync_ok_def)
  show ?thesis
  proof (cases "client_running st")
    case False
    with assms show ?thesis by (simp add: client_main_def)
  next
    case True
    show ?thesis
    proof (cases w)
      case W_Signal
      from client_update_ok [OF ok(2,3), of E] obtain d cs' tr' where
        "client_update L E (client_queue st) (client_servers st) (sy_trace st) = Some (d, cs', tr')"
        "map c_server cs' = map c_server (client_servers st)" "peers_ok L tr' all cs'" using ok(4) by auto
      with True W_Signal ok(1) show ?thesis by (auto simp: client_main_def sync_ok_def)
    next
      case W_Timeout
      from client_reconnect_ok [OF ok(2), of E] obtain d cs' tr' where
        "client_reconnect L E (client_servers st) (sy_trace st) = Some (d, cs', tr')"
        "map c_server cs' = map c_server (client_servers st)" "peers_ok L tr' dn cs'" by (auto simp: advances_def)
      with True W_Timeout ok show ?thesis by (auto simp: client_main_def sync_ok_def)
    next
      case W_Error
      with True assms show ?thesis by (auto simp: client_main_def sync_ok_def)
    qed
  qed
qed

lemma sync_stopped:
  assumes "sync_ok L all st" and "\<not> client_running st" and "\<forall>now. Start now \<notin> set es"
  shows "sync_run L E es st = Some st"
  using assms
proof (induction es)
  case (Cons e es)
  then show ?case by (cases e) (auto simp: client_sync_def sync_ok_def client_main_def)
qed simp

lemma sync_run_ok:
  assumes "sync_ok L all st" and "client_running st" and "\<forall>r. Record r \<in> set es \<longrightarrow> (\<exists>line. sendable L r line)"
    and "\<forall>now. Start now \<notin> set es"
  shows "\<exists>st' lines. sync_run L E es st = Some st' \<and> list_all2 (sendable L) (accepted es) lines \<and> sync_ok L (all @ lines) st' \<and>
    map c_server (client_servers st') = map c_server (client_servers st)"
  using assms
proof (induction es arbitrary: st all)
  case (Cons e es)
  show ?case
  proof (cases e)
    case (Start now)
    with Cons.prems(4) show ?thesis by auto
  next
    case (Record r)
    with Cons.prems(3) obtain line where line: "sendable L r line" by auto
    note step = client_sync_ok [OF Cons.prems(1,2) line]
    have "map c_server (client_servers (snd (client_sync st r))) = map c_server (client_servers st)"
      by (simp add: client_sync_def split: option.split)
    with Cons.IH [OF step] Cons.prems(3,4) Record line show ?thesis by (fastforce simp: list_all2_Cons1)
  next
    case (Wakeup w)
    from client_main_ok [OF Cons.prems(1), of E w] obtain st1 where
      st1: "client_main L E w st = Some st1" "sync_ok L all st1" "map c_server (client_servers st1) = map c_server (client_servers st)"
        "client_running st1 = (w \<noteq> W_Error)" using Cons.prems(2) by auto
    show ?thesis
    proof (cases "w = W_Error")
      case True
      with st1 sync_stopped [OF st1(2)] Cons.prems(4) Wakeup show ?thesis by simp
    next
      case False
      with Cons.IH [OF st1(2)] st1 Cons.prems(3,4) Wakeup show ?thesis by auto
    qed
  qed
qed simp

definition line_of :: "libc \<Rightarrow> var \<Rightarrow> string" where
  "line_of L r = (case send_line L r of Some (Some line) \<Rightarrow> line | _ \<Rightarrow> [])"

lemma sendable_lines: "list_all2 (sendable L) rs lines \<Longrightarrow> lines = map (line_of L) rs"
  by (induction rs lines rule: list_all2_induct) (simp_all add: sendable_def line_of_def)

lemma add_servers_all:
  "add_servers h ss cs = (0, cs @ map (\<lambda>(n, p, s, m). client_create n p (case m of None \<Rightarrow> h | Some x \<Rightarrow> x) s) ss)"
  by (induction h ss cs rule: add_servers.induct) (simp_all add: client_server_add_def)

lemma client_init_ok:
  assumes "client_init h pid (Some ss) = (0, st)" and "ss \<noteq> []" and "distinct (map fst ss)"
  shows "sync_ok L [] st" and "\<not> client_running st" and "map c_server (client_servers st) = map fst ss"
proof -
  let ?cs = "map (\<lambda>(n, p, s, m). client_create n p (case m of None \<Rightarrow> h | Some x \<Rightarrow> x) s) ss"
  have st: "client_servers st = ?cs" "client_queue st = []" "sy_trace st = []" "\<not> client_running st"
    using assms(1) by (auto simp: client_init_def Let_def add_servers_all split: if_splits)
  have names: "map c_server ?cs = map fst ss" by (induction ss) (auto simp: client_create_def)
  have "peer_ok L [] [] c" if "c \<in> set ?cs" for c
    using that by (auto simp: peer_ok_def client_ok_def client_create_def)
  with names assms(2,3) st show "sync_ok L [] st" unfolding sync_ok_def peers_ok_def by (simp del: map_map)
  from st names show "\<not> client_running st" "map c_server (client_servers st) = map fst ss" by simp_all
qed

text \<open>
  C13: every server receives all records that can be sent, once and in the order in which they were stored.
  Records that are handed over before the thread runs are refused. After that, whatever
  connections fail and whenever they do, the lines written in full to a server, followed by those
  of its queue and of the common queue, are the lines of all records handed over so far; and the
  queue of a server with a connection is empty. No call needs more depth than the model gives it. All
  records are assumed to be lists of plain fields whose text fits into the buffer of 4095 bytes: one that
  cannot be printed stays in the queue while later ones are sent.
\<close>

theorem sync_in_order:
  assumes "client_init cf_hostname pid (Some ss) = (0, st0)" and "ss \<noteq> []" and "distinct (map fst ss)"
    and "\<forall>r. Record r \<in> set es \<longrightarrow> (\<exists>line. sendable L r line)" and "\<forall>now. Start now \<notin> set es"
  shows "(\<forall>r. client_sync st0 r = (-1, st0)) \<and>
    (\<exists>st. sync_run L E (map Record early @ Start True # es) st0 = Some st \<and> map c_server (client_servers st) = map fst ss \<and>
    (\<forall>c \<in> set (client_servers st).
       delivered (c_server c) (sy_trace st) @ map (line_of L) (c_queue c) @ map (line_of L) (client_queue st) =
         map (line_of L) (accepted es) \<and>
       (c_socket c \<noteq> -1 \<longrightarrow> c_queue c = [])))"
proof -
  note init = client_init_ok [OF assms(1-3)]
  have refused: "client_sync st0 r = (-1, st0)" for r
    using init(2) init(1) [of L] by (simp add: client_sync_def sync_ok_def)
  have early: "sync_run L E (map Record early @ es') st0 = sync_run L E es' st0" for es'
    by (induction early) (simp_all add: refused)
  have "sync_ok L [] (client_start True st0)" "client_running (client_start True st0)"
    using init(1) [of L] by (simp_all add: sync_ok_def client_start_def)
  from sync_run_ok [OF this assms(4,5), of E] init(3) obtain st lines where
    st: "sync_run L E es (client_start True st0) = Some st" "list_all2 (sendable L) (accepted es) lines" "sync_ok L lines st"
      "map c_server (client_servers st) = map fst ss" by (auto simp: client_start_def)
  then obtain dn q where q: "peers_ok L (sy_trace st) dn (client_servers st)" "list_all2 (sendable L) (client_queue st) q" "lines = dn @ q"
    by (auto simp: sync_ok_def)
  have "delivered (c_server c) (sy_trace st) @ map (line_of L) (c_queue c) @ map (line_of L) (client_queue st) =
      map (line_of L) (accepted es) \<and> (c_socket c \<noteq> -1 \<longrightarrow> c_queue c = [])" if "c \<in> set (client_servers st)" for c
  proof -
    from q(1) that obtain ls where "list_all2 (sendable L) (c_queue c) ls" "c_socket c \<noteq> -1 \<longrightarrow> c_queue c = []"
      "delivered (c_server c) (sy_trace st) @ ls = dn" by (auto simp: peers_ok_def peer_ok_def client_ok_def)
    with q(2,3) st(2) show ?thesis by (auto dest!: sendable_lines)
  qed
  with st(1,4) refused early [of "Start True # es"] show ?thesis by auto
qed

definition sync_demo :: var where
  "sync_demo = record_of (Some ''t'') 0 [Var VT_STRING (Some ''k'') (Some (DString ''ab'')) VF_KEY, Var VT_INT (Some ''n'') None 0]"

lemma sync_demo_sendable: "sendable word_libc sync_demo (''t=(ab,null)'' @ [CHR 0x0A])"
proof -
  have "send_line word_libc sync_demo = Some (Some (''t=(ab,null)'' @ [CHR 0x0A]))"
    by (simp add: sync_demo_def record_of_def send_line_def var_dump_def var_dump_data_def dump_named_def dump_check_def dump_str_def
        var_dump_list_or_table_def write_at_def eval_nat_numeral)
  moreover have "\<forall>v \<in> set [Var VT_STRING (Some ''k'') (Some (DString ''ab'')) VF_KEY, Var VT_INT (Some ''n'') None 0]. copyable v"
    by (simp add: copyable_def)
  ultimately show ?thesis unfolding sendable_def sync_demo_def by blast
qed

theorem sync_in_order_witness:
  "\<exists>st. sync_run word_libc \<lparr>n_connect = (\<lambda>tr c. 5), n_write = (\<lambda>tr c line. if tr = [] then 0 else 14)\<rparr>
      [Record sync_demo, Start True, Record sync_demo, Wakeup W_Signal, Wakeup W_Timeout]
      (snd (client_init ''h'' 1 (Some [(''a'', None, None, None)]))) = Some st \<and>
    (\<forall>c \<in> set (client_servers st). delivered ''a'' (sy_trace st) @ map (line_of word_libc) (c_queue c) @
       map (line_of word_libc) (client_queue st) = [''t=(ab,null)'' @ [CHR 0x0A]])"
proof -
  let ?ss = "[(''a'', None, None, None)] :: (string \<times> string option \<times> string option \<times> string option) list"
  have "show_int 1 = ''1''" by code_simp
  then have init: "client_init ''h'' 1 (Some ?ss) = (0, snd (client_init ''h'' 1 (Some ?ss)))"
    by (simp add: client_init_def Let_def client_server_add_def)
  have line: "line_of word_libc sync_demo = ''t=(ab,null)'' @ [CHR 0x0A]"
    using sync_demo_sendable by (simp add: sendable_def line_of_def)
  have "\<forall>r. Record r \<in> set [Record sync_demo, Wakeup W_Signal, Wakeup W_Timeout] \<longrightarrow> (\<exists>line. sendable word_libc r line)"
    using sync_demo_sendable by auto
  from sync_in_order [OF init _ _ this, where early = "[sync_demo]" and E = "\<lparr>n_connect = (\<lambda>tr c. 5), n_write = (\<lambda>tr c line. if tr = [] then 0 else 14)\<rparr>"]
  obtain st where st: "sync_run word_libc \<lparr>n_connect = (\<lambda>tr c. 5), n_write = (\<lambda>tr c line. if tr = [] then 0 else 14)\<rparr>
      [Record sync_demo, Start True, Record sync_demo, Wakeup W_Signal, Wakeup W_Timeout] (snd (client_init ''h'' 1 (Some ?ss))) = Some st"
      "map c_server (client_servers st) = [''a'']"
      "\<forall>c \<in> set (client_servers st). delivered (c_server c) (sy_trace st) @ map (line_of word_libc) (c_queue c) @
        map (line_of word_libc) (client_queue st) = [''t=(ab,null)'' @ [CHR 0x0A]]"
    by (auto simp: line)
  have "c_server c = ''a''" if "c \<in> set (client_servers st)" for c
    using that st(2) by (metis empty_iff image_eqI insert_iff list.set(1) list.set(2) list.set_map)
  with st(1,3) show ?thesis by auto
qed

text \<open>
  A record that cannot be printed is overtaken. With a connection, \<open>client_send\<close> fails for it without closing the
  socket, so that it is queued, and the next record is written to the server before it.
\<close>

theorem unprintable_overtaken:
  assumes "c_socket c \<noteq> -1" and "c_queue c = []" and "send_line L r = Some None" and "VAR_COPY r = Some r'"
    and "send_line L r2 = Some (Some line)" and "\<forall>tr c. n_write E tr c line = int (length line)"
  shows "client_update L E [r, r2] [c] tr =
    Some (1, [c\<lparr>c_queue := [r']\<rparr>], N_write (c_server c) line (int (length line)) # tr)"
  using assms by (simp add: client_enqueue_def Let_def numeral_3_eq_3)

text \<open>
  C35: a retry that connects but cannot write is the last one. When the timer reconnects the servers without
  a connection, \<open>client_connect\<close> succeeds for each of them, and the write of its first queued record fails, then
  all records stay queued, the servers are not connected, and \<open>client_main\<close> takes the work for complete:
  later timeouts do nothing, until a new record is stored. Only a server that refuses the connection
  keeps the timer trying.
\<close>

theorem reconnect_gives_up:
  assumes "client_running st" and "incomplete st \<noteq> 0"
    and "\<forall>c \<in> set (client_servers st). c_socket c = -1 \<longrightarrow>
      c_queue c \<noteq> [] \<and> (\<exists>line. sendable L (hd (c_queue c)) line) \<and> (\<forall>tr. n_connect E tr c \<noteq> -1)"
    and "\<forall>tr c line. n_write E tr c line = -1"
  shows "\<exists>st'. client_main L E W_Timeout st = Some st' \<and> incomplete st' = 0 \<and> client_servers st' = client_servers st \<and>
    client_main L E W_Timeout st' = Some st'"
proof -
  have "\<exists>tr'. client_reconnect L E cs tr = Some (0, cs, tr')"
    if "\<forall>c \<in> set cs. c_socket c = -1 \<longrightarrow> c_queue c \<noteq> [] \<and> (\<exists>line. sendable L (hd (c_queue c)) line) \<and> (\<forall>tr. n_connect E tr c \<noteq> -1)" for cs tr
    using that
  proof (induction cs arbitrary: tr)
    case (Cons c cs)
    show ?case
    proof (cases "c_socket c = -1")
      case True
      with Cons.prems obtain r q line where q: "c_queue c = r # q" "send_line L r = Some (Some line)" "\<forall>tr. n_connect E tr c \<noteq> -1"
        by (auto simp: sendable_def neq_Nil_conv)
      from assms(4) q True have "\<exists>tr1. client_connect (length (c_queue c) + 2) L E c tr = Some (0, c, tr1)"
        by (simp add: Let_def numeral_2_eq_2)
      then obtain tr1 where tr1: "client_connect (length (c_queue c) + 2) L E c tr = Some (0, c, tr1)" ..
      obtain tr2 where "client_reconnect L E cs tr1 = Some (0, cs, tr2)" using Cons.IH [of tr1] Cons.prems by auto
      with True tr1 show ?thesis by simp
    next
      case False
      obtain tr2 where "client_reconnect L E cs tr = Some (0, cs, tr2)" using Cons.IH [of tr] Cons.prems by auto
      with False show ?thesis by simp
    qed
  qed simp
  from this [OF assms(3), of "sy_trace st"] obtain tr' where
    "client_reconnect L E (client_servers st) (sy_trace st) = Some (0, client_servers st, tr')" ..
  with assms(1,2) show ?thesis by (simp add: client_main_def)
qed

theorem reconnect_gives_up_witness:
  "\<exists>st'. client_main word_libc \<lparr>n_connect = (\<lambda>tr c. 5), n_write = (\<lambda>tr c line. -1)\<rparr> W_Timeout
      \<lparr>client_servers = [client_create ''a'' None ''h'' None\<lparr>c_queue := [sync_demo]\<rparr>, client_create ''b'' None ''h'' None\<lparr>c_socket := 3\<rparr>],
       client_queue = [], client_running = True, incomplete = 1, sy_trace = []\<rparr> = Some st' \<and> incomplete st' = 0 \<and>
     map c_queue (client_servers st') = [[sync_demo], []]"
proof -
  let ?st = "\<lparr>client_servers = [client_create ''a'' None ''h'' None\<lparr>c_queue := [sync_demo]\<rparr>, client_create ''b'' None ''h'' None\<lparr>c_socket := 3\<rparr>],
    client_queue = [], client_running = True, incomplete = 1, sy_trace = []\<rparr>"
  let ?E = "\<lparr>n_connect = (\<lambda>tr c. 5), n_write = (\<lambda>tr c line. -1)\<rparr>"
  have "\<forall>c \<in> set (client_servers ?st). c_socket c = -1 \<longrightarrow>
      c_queue c \<noteq> [] \<and> (\<exists>line. sendable word_libc (hd (c_queue c)) line) \<and> (\<forall>tr. n_connect ?E tr c \<noteq> -1)"
    using sync_demo_sendable by (auto simp: client_create_def)
  from reconnect_gives_up [of ?st, OF _ _ this] show ?thesis by (auto simp: client_create_def)
qed

end
