(* ===== verification/Server.thy ===== *)
theory Server
  imports Regdom Var
begin

section \<open>The control connection (server.c, mopherctl.c)\<close>

text \<open>
  \<open>src/src/server.c\<close> accepts connections of \<open>mopherctl\<close>, reads commands and answers them. A command
  with data answers the number of bytes, waits for \<open>OK\<close>, sends the bytes and then \<open>OK\<close>. Calls to
  the network are recorded, the latest first; \<open>sockenv\<close> gives their answers.
\<close>

datatype sio = S_Read int "string option" | S_Write int string int

record sockenv =
  s_read :: "sio list \<Rightarrow> int \<Rightarrow> nat \<Rightarrow> string option"
  s_write :: "sio list \<Rightarrow> int \<Rightarrow> string \<Rightarrow> int"

text \<open>\<open>read\<close> returns at most \<open>sz\<close> bytes, none at the end of the connection, and -1 as \<open>None\<close>.\<close>

definition sock_read :: "sockenv \<Rightarrow> int \<Rightarrow> nat \<Rightarrow> sio list \<Rightarrow> string option \<times> sio list" where
  "sock_read E sock sz tr = (let d = map_option (take sz) (s_read E tr sock sz) in (d, S_Read sock d # tr))"

definition sock_write :: "sockenv \<Rightarrow> int \<Rightarrow> string \<Rightarrow> sio list \<Rightarrow> int \<times> sio list" where
  "sock_write E sock data tr = (let w = s_write E tr sock data in (w, S_Write sock data w # tr))"

definition RECV_BUFFER :: nat where "RECV_BUFFER = 4096"
definition MAXARGS :: nat where "MAXARGS = 16"
definition MAX_BUFFER :: int where "MAX_BUFFER = 10000000"
definition MAX_CLIENTS :: nat where "MAX_CLIENTS = 10"

definition server_ok :: "sockenv \<Rightarrow> int \<Rightarrow> sio list \<Rightarrow> int \<times> sio list" where
  "server_ok E sock tr = (case sock_write E sock ''OK'' tr of (n, tr1) \<Rightarrow> (if n = -1 then -1 else 0, tr1))"

text \<open>\<open>server_check\<close> compares two bytes also when fewer were read.\<close>

definition server_check :: "sockenv \<Rightarrow> int \<Rightarrow> sio list \<Rightarrow> (int \<times> sio list) option" where
  "server_check E sock tr =
     (case sock_read E sock 2 tr of
        (None, tr1) \<Rightarrow> Some (-1, tr1)
      | (Some ok, tr1) \<Rightarrow> if length ok < 2 then None else Some (if ok = ''OK'' then 0 else 1, tr1))"

text \<open>\<open>server_reply\<close> with the text that its format and arguments give.\<close>

definition server_reply :: "sockenv \<Rightarrow> int \<Rightarrow> string \<Rightarrow> sio list \<Rightarrow> int \<times> sio list" where
  "server_reply E sock message tr =
     (if length message \<ge> RECV_BUFFER - 1 then (-1, tr) else sock_write E sock (message @ [CHR 0x0A]) tr)"

definition server_output :: "sockenv \<Rightarrow> int \<Rightarrow> string \<Rightarrow> nat \<Rightarrow> sio list \<Rightarrow> (int \<times> sio list) option" where
  "server_output E sock buffer sz tr =
     (case server_reply E sock (show_int (int sz)) tr of
        (r, tr1) \<Rightarrow>
          if r = -1 then Some (-1, tr1)
          else
            do {
              (ok, tr2) \<leftarrow> server_check E sock tr1;
              if ok \<noteq> 0 then Some (-1, tr2)
              else if sz > length buffer then None
              else Some (sock_write E sock (take sz buffer) tr2) })"

text \<open>
  The client passes its command as the format of \<open>server_reply\<close>: a \<open>%\<close> in it that is not doubled
  reads arguments that are not there.
\<close>

fun as_format :: "string \<Rightarrow> string option" where
  "as_format [] = Some []"
| "as_format (c # cs) =
     (if c = CHR ''%'' then (case cs of d # ds \<Rightarrow> if d = CHR ''%'' then map_option (Cons c) (as_format ds) else None | [] \<Rightarrow> None)
      else map_option (Cons c) (as_format cs))"

definition server_cmd :: "sockenv \<Rightarrow> int \<Rightarrow> string \<Rightarrow> sio list \<Rightarrow> (int \<times> sio list) option" where
  "server_cmd E sock cmd tr =
     do {
       text \<leftarrow> as_format cmd;
       (case server_reply E sock text tr of
          (r, tr1) \<Rightarrow>
            if r = -1 then Some (-1, tr1)
            else do { (ok, tr2) \<leftarrow> server_check E sock tr1; Some (if ok \<noteq> 0 then -1 else 0, tr2) }) }"

text \<open>\<open>atoi\<close> of bytes without a terminating NUL: the number must end before the bytes do.\<close>

definition atoi_read :: "string \<Rightarrow> int option" where
  "atoi_read d =
     (let t = dropWhile isspace d;
          u = (case t of c # cs \<Rightarrow> if c = CHR ''-'' \<or> c = CHR ''+'' then cs else t | [] \<Rightarrow> [])
      in if dropWhile isdigit u = [] then None else Some (wrap32 (fst (strtol d))))"

text \<open>
  The loop that reads the announced number of bytes. At the end of the connection \<open>read\<close> returns
  nothing, and the loop goes on.
\<close>

partial_function (option) read_loop :: "sockenv \<Rightarrow> int \<Rightarrow> nat \<Rightarrow> string \<Rightarrow> sio list \<Rightarrow> (int \<times> string \<times> sio list) option" where
  "read_loop E sock sz buffer tr =
     (if sz \<le> length buffer then Some (0, buffer, tr)
      else
        (case sock_read E sock (sz - length buffer) tr of
           (None, tr1) \<Rightarrow> Some (-1, buffer, tr1)
         | (Some d, tr1) \<Rightarrow> read_loop E sock sz (buffer @ d) tr1))"

definition server_data_cmd :: "sockenv \<Rightarrow> int \<Rightarrow> string \<Rightarrow> sio list \<Rightarrow> (int \<times> string option \<times> sio list) option" where
  "server_data_cmd E sock cmd tr =
     do {
       text \<leftarrow> as_format cmd;
       (case server_reply E sock text tr of
          (r, tr1) \<Rightarrow>
            if r = -1 then Some (-1, None, tr1)
            else
              (case sock_read E sock RECV_BUFFER tr1 of
                 (None, tr2) \<Rightarrow> Some (-1, None, tr2)
               | (Some recv, tr2) \<Rightarrow>
                   do {
                     sz \<leftarrow> atoi_read recv;
                     if sz < 0 \<or> sz > MAX_BUFFER then Some (-1, None, tr2)
                     else
                       (case server_ok E sock tr2 of
                          (ok, tr3) \<Rightarrow>
                            if ok \<noteq> 0 then Some (-1, Some [], tr3)
                            else
                              do {
                                (n, buffer, tr4) \<leftarrow> read_loop E sock (nat sz) [] tr3;
                                if n = -1 then Some (-1, Some buffer, tr4)
                                else
                                  do {
                                    (r, tr5) \<leftarrow> server_check E sock tr4;
                                    Some (if r \<noteq> 0 then -1 else 0, Some buffer, tr5) } }) })) }"

subsection \<open>Commands\<close>

text \<open>The functions of \<open>dbt.c\<close> and \<open>greylist.c\<close> that commands call, on the state of the databases.\<close>

record 'g commands =
  cmd_dbt_dump :: "'g \<Rightarrow> string \<Rightarrow> int \<times> string option"
  cmd_greylist_dump :: "'g \<Rightarrow> int \<times> string option"
  cmd_greylist_pass :: "'g \<Rightarrow> string \<Rightarrow> string \<Rightarrow> string \<Rightarrow> int \<times> 'g"

definition server_functions :: "(string \<times> string) list" where
  "server_functions =
     [(''table_dump'', ''Dump table''), (''greylist_dump'', ''Dump greylist tuples''),
      (''greylist_pass'', ''Let tuple pass greylistung''), (''help'', ''Print this message''), (''quit'', ''close connection'')]"

definition server_table_empty :: string where
  "server_table_empty = ''table is empty'' @ [CHR 0x0A, CHR 0x00]"

text \<open>The part that \<open>server_table_dump\<close> and \<open>server_greylist_dump\<close> share.\<close>

definition send_dump :: "sockenv \<Rightarrow> int \<Rightarrow> int \<times> string option \<Rightarrow> sio list \<Rightarrow> (int \<times> sio list) option" where
  "send_dump E sock res tr =
     (case res of
        (len, dump) \<Rightarrow>
          if len = 0 then
            do { (_, tr1) \<leftarrow> server_output E sock server_table_empty (length server_table_empty) tr; Some (1, tr1) }
          else if len = -1 then Some (-1, tr)
          else
            do {
              text \<leftarrow> dump;
              (r, tr1) \<leftarrow> server_output E sock text (nat len) tr;
              Some (if r = -1 then -1 else 1, tr1) })"

definition server_table_dump :: "'g commands \<Rightarrow> sockenv \<Rightarrow> int \<Rightarrow> string list \<Rightarrow> 'g \<Rightarrow> sio list \<Rightarrow> (int \<times> 'g \<times> sio list) option" where
  "server_table_dump C E sock argv g tr =
     (if length argv \<noteq> 2 then Some (-1, g, tr)
      else do { (r, tr1) \<leftarrow> send_dump E sock (cmd_dbt_dump C g (argv ! 1)) tr; Some (r, g, tr1) })"

definition server_greylist_dump :: "'g commands \<Rightarrow> sockenv \<Rightarrow> int \<Rightarrow> string list \<Rightarrow> 'g \<Rightarrow> sio list \<Rightarrow> (int \<times> 'g \<times> sio list) option" where
  "server_greylist_dump C E sock argv g tr =
     do { (r, tr1) \<leftarrow> send_dump E sock (cmd_greylist_dump C g) tr; Some (r, g, tr1) }"

definition server_greylist_pass :: "'g commands \<Rightarrow> sockenv \<Rightarrow> int \<Rightarrow> string list \<Rightarrow> 'g \<Rightarrow> sio list \<Rightarrow> (int \<times> 'g \<times> sio list) option" where
  "server_greylist_pass C E sock argv g tr =
     (if length argv \<noteq> 4 then
        Some (-1, g, snd (server_reply E sock (''Usage: '' @ hd argv @ '' source from rcpt'') tr))
      else
        (case cmd_greylist_pass C g (argv ! 1) (argv ! 2) (argv ! 3) of
           (r, g1) \<Rightarrow>
             if r = -1 then Some (-1, g1, tr)
             else Some (1, g1, if r = 0 then snd (server_reply E sock ''Not found'' tr) else tr)))"

definition server_help :: "sockenv \<Rightarrow> int \<Rightarrow> string list \<Rightarrow> 'g \<Rightarrow> sio list \<Rightarrow> (int \<times> 'g \<times> sio list) option" where
  "server_help E sock argv g tr =
     (let tr1 = (if take 4 (hd argv) \<noteq> ''help'' then snd (server_reply E sock ''Unknown command'' tr) else tr);
          tr2 = snd (server_reply E sock ''HELP:'' tr1)
      in Some (1, g, foldl (\<lambda>tr (name, help).
           snd (server_reply E sock (snd (util_concat (int RECV_BUFFER) [name, [CHR 0x09], help])) tr)) tr2 server_functions))"

definition server_callback :: "'g commands \<Rightarrow> sockenv \<Rightarrow> string \<Rightarrow> int \<Rightarrow> string list \<Rightarrow> 'g \<Rightarrow> sio list \<Rightarrow> (int \<times> 'g \<times> sio list) option" where
  "server_callback C E name sock argv g tr =
     (if name = ''table_dump'' then server_table_dump C E sock argv g tr
      else if name = ''greylist_dump'' then server_greylist_dump C E sock argv g tr
      else if name = ''greylist_pass'' then server_greylist_pass C E sock argv g tr
      else if name = ''quit'' then Some (0, g, tr)
      else server_help E sock argv g tr)"

text \<open>\<open>server_exec_cmd\<close>: a command of spaces only is looked up under a name that was never assigned.\<close>

definition server_exec_cmd :: "'g commands \<Rightarrow> sockenv \<Rightarrow> int \<Rightarrow> string \<Rightarrow> 'g \<Rightarrow> sio list \<Rightarrow> (int \<times> 'g \<times> sio list) option" where
  "server_exec_cmd C E sock cmd g tr =
     (let argv = take MAXARGS (tokens (CHR '' '') cmd) in
      if length argv = MAXARGS then Some (-1, g, snd (server_reply E sock ''Too many arguments'' tr))
      else if argv = [] then None
      else
        do {
          (r, g1, tr1) \<leftarrow> server_callback C E (hd argv) sock argv g tr;
          Some (r, g1,
            if r = 0 then snd (server_reply E sock ''CLOSE'' tr1)
            else if r = -1 then snd (server_reply E sock ''ERROR'' tr1)
            else snd (server_ok E sock tr1)) })"

text \<open>
  \<open>server_request\<close>. A client that closes the connection, or sends newlines only, makes the loop
  that strips newlines look at the byte before the buffer (\<open>before\<close>); were it a newline, it would
  be overwritten. A command ends at its first NUL.
\<close>

definition server_request ::
  "char \<Rightarrow> 'g commands \<Rightarrow> sockenv \<Rightarrow> int \<Rightarrow> 'g \<Rightarrow> sio list \<Rightarrow> (int \<times> 'g \<times> sio list) option" where
  "server_request before C E sock g tr =
     (case sock_read E sock RECV_BUFFER tr of
        (None, tr1) \<Rightarrow> Some (-1, g, tr1)
      | (Some cmd_buffer, tr1) \<Rightarrow>
          if length cmd_buffer = RECV_BUFFER then Some (-1, g, tr1)
          else
            (let cmd = rev (dropWhile (\<lambda>c. c = CHR 0x0A) (rev cmd_buffer)) in
             if cmd = [] then if before = CHR 0x0A then None else Some (0, g, tr1)
             else server_exec_cmd C E sock (takeWhile (\<lambda>c. c \<noteq> CHR 0x00) cmd) g tr1))"

subsection \<open>The loop of the server\<close>

text \<open>
  The slots for clients (-1 is free; the 0 after the last one ends the array), the master set of
  \<open>select\<close>, and \<open>maxfd\<close>, which is never lowered: the slot is compared with it only after it has been
  set to -1.
\<close>

record server =
  server_socket :: int
  server_clients :: "int list"
  master :: "int set"
  maxfd :: int

definition server_start :: "int \<Rightarrow> server" where
  "server_start sock = \<lparr>server_socket = sock, server_clients = replicate MAX_CLIENTS (-1), master = {sock}, maxfd = sock\<rparr>"

text \<open>A new connection: the first free slot, or no more connections until one is free.\<close>

definition server_accept :: "int \<Rightarrow> server \<Rightarrow> server" where
  "server_accept accept s =
     (let i = length (takeWhile (\<lambda>c. c > 0) (server_clients s)) in
      if i = length (server_clients s) then s\<lparr>master := master s - {server_socket s}\<rparr>
      else if accept = -1 then s\<lparr>server_clients := (server_clients s)[i := -1]\<rparr>
      else s\<lparr>server_clients := (server_clients s)[i := accept], master := insert accept (master s),
             maxfd := max (maxfd s) accept\<rparr>)"

definition server_close :: "nat \<Rightarrow> server \<Rightarrow> server" where
  "server_close i s =
     (let m = master s - {server_clients s ! i} in
      s\<lparr>server_clients := (server_clients s)[i := -1], master := insert (server_socket s) m\<rparr>)"

text \<open>The requests of the slots from \<open>i\<close> on; \<open>request\<close> is \<open>server_request\<close> on the rest of the state.\<close>

fun server_slots ::
  "(int \<Rightarrow> 's \<Rightarrow> (int \<times> 's) option) \<Rightarrow> int set \<Rightarrow> nat list \<Rightarrow> int \<Rightarrow> server \<Rightarrow> 's \<Rightarrow> (server \<times> 's) option" where
  "server_slots request rs [] ready s x = Some (s, x)"
| "server_slots request rs (i # is) ready s x =
     (if ready = 0 then Some (s, x)
      else if server_clients s ! i = -1 \<or> server_clients s ! i \<notin> rs then server_slots request rs is ready s x
      else
        do {
          (r, x1) \<leftarrow> request (server_clients s ! i) x;
          server_slots request rs is (ready - 1) (if r = -1 \<or> r = 0 then server_close i s else s) x1 })"

text \<open>
  One round of \<open>server_main\<close> after \<open>select\<close>: the number of ready sockets and their set. An error other
  than an interruption leaves the set as it was, with -1 for the number.
\<close>

definition server_main ::
  "(int \<Rightarrow> 's \<Rightarrow> (int \<times> 's) option) \<Rightarrow> int \<Rightarrow> int \<Rightarrow> int set \<Rightarrow> server \<Rightarrow> 's \<Rightarrow> (server \<times> 's) option" where
  "server_main request accept ready rs s x =
     (if server_socket s \<in> rs then
        (let s1 = server_accept accept s in
         if ready - 1 = 0 then Some (s1, x)
         else server_slots request rs [0..<length (server_clients s1)] (ready - 1) s1 x)
      else server_slots request rs [0..<length (server_clients s)] ready s x)"

subsection \<open>The command line of mopherctl\<close>

text \<open>
  \<open>main\<close> of \<open>mopherctl.c\<close>: the words after the options are joined with spaces, the first command
  that the line begins with is translated, and the number of words of the whole command line, not
  of the command, must be that of the command. \<open>None\<close> is the usage message.
\<close>

definition moctl_commands :: "(string \<times> string \<times> int \<times> bool) list" where
  "moctl_commands = [(''dump'', ''table_dump'', 2, True), (''greylist dump'', ''greylist_dump'', 2, True),
     (''greylist pass'', ''greylist_pass'', 5, False)]"

definition join_args :: "string list \<Rightarrow> string" where
  "join_args argv =
     foldl (\<lambda>line arg. take 4095 ((if line \<noteq> [] then take 4095 (line @ '' '') else line) @ arg)) [] argv"

fun moctl_translate :: "(string \<times> string \<times> int \<times> bool) list \<Rightarrow> string \<Rightarrow> int \<Rightarrow> (string \<times> bool) option" where
  "moctl_translate [] cmdline args = None"
| "moctl_translate ((line, srvcmd, n, dat) # cs) cmdline args =
     (if take (length line) cmdline \<noteq> line then moctl_translate cs cmdline args
      else if args \<noteq> n then None
      else Some (take 4095 (srvcmd @ drop (length line) cmdline), dat))"

definition moctl_main :: "nat \<Rightarrow> string list \<Rightarrow> (string \<times> bool) option" where
  "moctl_main optind argv =
     (if length argv < 2 then None
      else moctl_translate moctl_commands (join_args (drop optind argv)) (int (max optind (length argv)) - 1))"

subsection \<open>Slots and connections\<close>

text \<open>A socket has at most one slot; the master set has the clients, and the server socket while a slot is free.\<close>

definition server_inv :: "server \<Rightarrow> bool" where
  "server_inv s \<longleftrightarrow> length (server_clients s) = MAX_CLIENTS \<and> 0 < server_socket s \<and> server_socket s \<notin> set (server_clients s) \<and>
     (\<forall>c \<in> set (server_clients s). c = -1 \<or> 0 < c) \<and>
     (\<forall>i j. i < MAX_CLIENTS \<longrightarrow> j < MAX_CLIENTS \<longrightarrow> server_clients s ! i = server_clients s ! j \<longrightarrow> 0 < server_clients s ! i \<longrightarrow> i = j) \<and>
     master s - {server_socket s} = {c \<in> set (server_clients s). 0 < c} \<and>
     (server_socket s \<notin> master s \<longrightarrow> -1 \<notin> set (server_clients s)) \<and>
     (\<forall>fd \<in> insert (server_socket s) (master s). fd \<le> maxfd s)"

text \<open>The rounds of the server: what \<open>select\<close> and \<open>accept\<close> can return.\<close>

inductive server_reach :: "(int \<Rightarrow> 's \<Rightarrow> (int \<times> 's) option) \<Rightarrow> int \<Rightarrow> server \<Rightarrow> 's \<Rightarrow> bool" for request sock where
  start: "server_reach request sock (server_start sock) x"
| round: "server_reach request sock s x \<Longrightarrow> rs \<subseteq> master s \<Longrightarrow> ready = int (card rs) \<or> ready = -1 \<and> rs = master s \<Longrightarrow>
    accept = -1 \<or> 0 < accept \<and> accept \<notin> master s \<and> accept \<noteq> sock \<Longrightarrow>
    server_main request accept ready rs s x = Some (s', x') \<Longrightarrow> server_reach request sock s' x'"

lemma server_start_inv: "0 < sock \<Longrightarrow> server_inv (server_start sock)"
  by (auto simp: server_inv_def server_start_def MAX_CLIENTS_def)

lemma set_update_slot: "i < length xs \<Longrightarrow> set (xs[i := y]) = insert y (\<Union>j \<in> {..<length xs} - {i}. {xs ! j})"
  by (auto simp: set_conv_nth nth_list_update)

lemma server_close_inv:
  assumes inv: "server_inv s" and i: "i < MAX_CLIENTS" and c: "server_clients s ! i \<noteq> -1"
  shows "server_inv (server_close i s)"
proof -
  let ?cs = "server_clients s" and ?c = "server_clients s ! i"
  have len: "length ?cs = MAX_CLIENTS" using inv by (simp add: server_inv_def)
  then have "?c \<in> set ?cs" using i by simp
  with inv c have pos: "0 < ?c" "?c \<noteq> server_socket s" unfolding server_inv_def by blast+
  have set: "set (?cs[i := -1]) = insert (-1) (set ?cs - {?c})"
  proof -
    have "x \<in> (\<Union>j \<in> {..<length ?cs} - {i}. {?cs ! j}) \<longleftrightarrow> x \<in> set ?cs - {?c}" for x
    proof
      assume "x \<in> (\<Union>j \<in> {..<length ?cs} - {i}. {?cs ! j})"
      then obtain j where j: "j < MAX_CLIENTS" "j \<noteq> i" "x = ?cs ! j" using len by auto
      have "?cs ! j \<noteq> ?c" using inv j i pos(1) unfolding server_inv_def by metis
      with j len show "x \<in> set ?cs - {?c}" by simp
    next
      assume "x \<in> set ?cs - {?c}"
      then obtain j where "j < length ?cs" "x = ?cs ! j" "j \<noteq> i" by (auto simp: in_set_conv_nth)
      then show "x \<in> (\<Union>j \<in> {..<length ?cs} - {i}. {?cs ! j})" by blast
    qed
    then have "(\<Union>j \<in> {..<length ?cs} - {i}. {?cs ! j}) = set ?cs - {?c}" by blast
    then show ?thesis using set_update_slot [of i ?cs "-1"] i len by simp
  qed
  have m: "master s - {server_socket s} = {x \<in> set ?cs. 0 < x}" and mx: "\<forall>fd \<in> insert (server_socket s) (master s). fd \<le> maxfd s"
    using inv by (simp_all add: server_inv_def)
  have "insert (server_socket s) (master s - {?c}) - {server_socket s} = {x \<in> set (?cs[i := -1]). 0 < x}"
  proof -
    have "insert (server_socket s) (master s - {?c}) - {server_socket s} = master s - {server_socket s} - {?c}" by blast
    also have "\<dots> = {x \<in> set (?cs[i := -1]). 0 < x}" unfolding m set by auto
    finally show ?thesis .
  qed
  moreover have "\<forall>fd \<in> insert (server_socket s) (master s - {?c}). fd \<le> maxfd s" using mx by auto
  moreover have "a = b" if "a < MAX_CLIENTS" "b < MAX_CLIENTS" "?cs[i := -1] ! a = ?cs[i := -1] ! b" "0 < ?cs[i := -1] ! a" for a b
  proof -
    have "a \<noteq> i" "b \<noteq> i" using that len by (auto simp: nth_list_update)
    with that have "?cs ! a = ?cs ! b" "0 < ?cs ! a" by simp_all
    with inv that(1,2) show ?thesis unfolding server_inv_def by blast
  qed
  ultimately show ?thesis
    using inv len set unfolding server_inv_def server_close_def Let_def by auto
qed

lemma server_accept_inv:
  assumes inv: "server_inv s" and a: "accept = -1 \<or> 0 < accept \<and> accept \<notin> master s \<and> accept \<noteq> server_socket s"
  shows "server_inv (server_accept accept s)"
proof -
  let ?cs = "server_clients s" let ?i = "length (takeWhile (\<lambda>c. c > 0) ?cs)"
  have len: "length ?cs = MAX_CLIENTS" using inv by (simp add: server_inv_def)
  show ?thesis
  proof (cases "?i = length ?cs")
    case True
    then have "takeWhile (\<lambda>c. c > 0) ?cs = ?cs" by (metis takeWhile_eq_take take_all_iff order_refl)
    then have "\<forall>c \<in> set ?cs. 0 < c" by (simp add: takeWhile_eq_all_conv)
    then have "-1 \<notin> set ?cs" by auto
    with True inv show ?thesis by (auto simp: server_inv_def server_accept_def Let_def)
  next
    case False
    then have i: "?i < length ?cs" using length_takeWhile_le [of "\<lambda>c. c > 0" ?cs] by simp
    then have free: "?cs ! ?i = -1" using inv nth_length_takeWhile [OF i] nth_mem [OF i] unfolding server_inv_def by auto
    show ?thesis
    proof (cases "accept = -1")
      case True
      have "?cs[?i := -1] = ?cs" using free by (metis list_update_id)
      with True False inv show ?thesis by (simp add: server_accept_def Let_def)
    next
      case new: False
      with a have a: "0 < accept" "accept \<notin> master s" "accept \<noteq> server_socket s" by auto
      have m: "master s - {server_socket s} = {x \<in> set ?cs. 0 < x}" using inv by (simp add: server_inv_def)
      then have unused: "accept \<notin> set ?cs" using a by blast
      let ?cs' = "?cs[?i := accept]"
      have sub: "insert accept (set ?cs - {-1}) \<subseteq> set ?cs'" "set ?cs' \<subseteq> insert accept (set ?cs)"
      proof -
        have "set ?cs' = insert accept (\<Union>j \<in> {..<length ?cs} - {?i}. {?cs ! j})" by (rule set_update_slot [OF i])
        moreover have "set ?cs - {-1} \<subseteq> (\<Union>j \<in> {..<length ?cs} - {?i}. {?cs ! j})" using free by (auto simp: in_set_conv_nth)
        ultimately show "insert accept (set ?cs - {-1}) \<subseteq> set ?cs'" "set ?cs' \<subseteq> insert accept (set ?cs)" by auto
      qed
      have "insert accept (master s) - {server_socket s} = {x \<in> set ?cs'. 0 < x}"
      proof -
        have "insert accept (master s) - {server_socket s} = insert accept {x \<in> set ?cs. 0 < x}" using m a(3) by blast
        also have "\<dots> = {x \<in> set ?cs'. 0 < x}" using sub a(1) by auto
        finally show ?thesis .
      qed
      moreover have "p = q" if "p < MAX_CLIENTS" "q < MAX_CLIENTS" "?cs' ! p = ?cs' ! q" "0 < ?cs' ! p" for p q
      proof -
        have "?cs ! p \<noteq> accept" "?cs ! q \<noteq> accept" using unused that(1,2) len by (metis nth_mem)+
        with that inv len i show ?thesis unfolding server_inv_def by (auto simp: nth_list_update split: if_splits)
      qed
      moreover have "server_socket s \<in> master s" using inv free i nth_mem [OF i] unfolding server_inv_def by auto
      moreover have "\<forall>c \<in> set ?cs'. c = -1 \<or> 0 < c" "server_socket s \<notin> set ?cs'"
        using inv sub(2) a(1,3) unfolding server_inv_def by blast+
      moreover have "\<forall>fd \<in> insert (server_socket s) (insert accept (master s)). fd \<le> max (maxfd s) accept"
        using inv unfolding server_inv_def by auto
      ultimately show ?thesis
        using inv len False new unfolding server_inv_def server_accept_def Let_def by simp
    qed
  qed
qed

lemma server_slots_inv:
  assumes "server_inv s" and "\<forall>i \<in> set is. i < MAX_CLIENTS" and "server_slots request rs is ready s x = Some (s', x')"
  shows "server_inv s' \<and> server_socket s' = server_socket s"
  using assms
proof (induction request rs "is" ready s x rule: server_slots.induct)
  case (2 request rs i "is" ready s x)
  show ?case
  proof (cases "ready = 0 \<or> server_clients s ! i = -1 \<or> server_clients s ! i \<notin> rs")
    case True
    with 2 show ?thesis by (auto split: if_splits)
  next
    case False
    with "2.prems"(3) obtain r x1 where r: "request (server_clients s ! i) x = Some (r, x1)"
      "server_slots request rs is (ready - 1) (if r = -1 \<or> r = 0 then server_close i s else s) x1 = Some (s', x')"
      by (auto simp: bind_eq_Some_conv)
    have "server_inv (if r = -1 \<or> r = 0 then server_close i s else s)"
      using "2.prems"(1,2) False server_close_inv [of s i] by simp
    moreover have "server_socket (if r = -1 \<or> r = 0 then server_close i s else s) = server_socket s" by (simp add: server_close_def Let_def)
    ultimately show ?thesis using "2.IH"(2) [OF _ _ r(1) refl] r(2) False "2.prems"(2) by auto
  qed
qed simp

lemma server_reach_inv: "server_reach request sock s x \<Longrightarrow> 0 < sock \<Longrightarrow> server_inv s \<and> server_socket s = sock"
proof (induction rule: server_reach.induct)
  case (start x)
  then show ?case by (simp add: server_start_inv) (simp add: server_start_def)
next
  case (round s x rs ready accept s' x')
  have acc: "server_inv (server_accept accept s)" "server_socket (server_accept accept s) = server_socket s"
    using server_accept_inv [of s accept] round by (auto simp: server_accept_def Let_def)
  have len: "\<forall>i \<in> set [0..<length (server_clients t)]. i < MAX_CLIENTS" if "server_inv t" for t
    using that by (simp add: server_inv_def)
  show ?case
    using round acc server_slots_inv [OF _ len, of s s request rs ready x s' x']
      server_slots_inv [OF _ len, of "server_accept accept s" "server_accept accept s" request rs "ready - 1" x s' x']
    by (auto simp: server_main_def Let_def split: if_splits)
qed

text \<open>
  C14: the server does not lose connections or slots. In every state it can reach, it has at most ten
  clients, each in one slot; it waits for exactly these clients, and for new connections unless all
  slots are taken; and the bound it gives to \<open>select\<close> covers all of them.
\<close>

theorem server_slots_safe:
  assumes "server_reach request sock s x" and "0 < sock"
  shows "length (server_clients s) = MAX_CLIENTS \<and> (\<forall>c \<in> set (server_clients s). c = -1 \<or> 0 < c) \<and>
    master s - {sock} = {c \<in> set (server_clients s). 0 < c} \<and>
    (-1 \<in> set (server_clients s) \<longrightarrow> sock \<in> master s) \<and>
    (\<forall>i j. i < MAX_CLIENTS \<longrightarrow> j < MAX_CLIENTS \<longrightarrow> server_clients s ! i = server_clients s ! j \<longrightarrow> server_clients s ! i \<noteq> -1 \<longrightarrow> i = j) \<and>
    (\<forall>fd \<in> master s. fd \<le> maxfd s)"
proof -
  have inv: "server_inv s" "server_socket s = sock" using server_reach_inv [OF assms] by simp_all
  have "0 < server_clients s ! i" if "i < MAX_CLIENTS" "server_clients s ! i \<noteq> -1" for i
    using inv(1) that unfolding server_inv_def by (metis nth_mem)
  with inv show ?thesis unfolding server_inv_def by blast
qed

theorem server_slots_safe_witness:
  "\<exists>s. server_reach (\<lambda>fd x. Some (0, x)) 3 s () \<and> master s - {3} = {c \<in> set (server_clients s). 0 < c} \<and> server_clients s ! 0 = 7"
proof -
  let ?s = "server_accept 7 (server_start 3)"
  have "server_main (\<lambda>fd x. Some (0, x)) 7 1 {3} (server_start 3) () = Some (?s, ())"
    by (simp add: server_main_def server_start_def)
  from server_reach.round [OF server_reach.start _ _ _ this] have reach: "server_reach (\<lambda>fd x. Some (0, x)) 3 ?s ()"
    by (simp add: server_start_def)
  have "server_clients ?s ! 0 = 7" by (simp add: server_accept_def server_start_def MAX_CLIENTS_def numeral_eq_Suc)
  with reach server_slots_safe [OF reach] show ?thesis by auto
qed

subsection \<open>Transfer of a table\<close>

text \<open>What was written, the first first, and a client whose reads return the given pieces one after the other.\<close>

fun written :: "sio list \<Rightarrow> string list" where
  "written [] = []"
| "written (S_Write sock d w # tr) = written tr @ [d]"
| "written (S_Read sock d # tr) = written tr"

fun reads_done :: "sio list \<Rightarrow> nat" where
  "reads_done [] = 0"
| "reads_done (S_Read sock d # tr) = Suc (reads_done tr)"
| "reads_done (S_Write sock d w # tr) = reads_done tr"

definition piece_env :: "string list \<Rightarrow> sockenv" where
  "piece_env pieces = \<lparr>s_read = (\<lambda>tr sock sz. if reads_done tr < length pieces then Some (pieces ! reads_done tr) else Some []),
     s_write = (\<lambda>tr sock d. int (length d))\<rparr>"

text \<open>A peer that takes everything and confirms it.\<close>

definition willing :: "sockenv \<Rightarrow> bool" where
  "willing E \<longleftrightarrow> (\<forall>tr sock d. s_write E tr sock d = int (length d)) \<and> (\<forall>tr sock. s_read E tr sock 2 = Some ''OK'')"

lemma server_output_willing:
  assumes "willing E" and "length (show_int (int (length d))) < 4095"
  shows "\<exists>tr'. server_output E sock d (length d) tr = Some (int (length d), tr') \<and>
    written tr' = written tr @ [show_int (int (length d)) @ [CHR 0x0A], d]"
  using assms
  by (auto simp: server_output_def server_reply_def sock_write_def server_check_def sock_read_def willing_def RECV_BUFFER_def Let_def)

lemma read_loop_pieces:
  assumes "drop (reads_done tr) pieces = chunks @ rest" and "[] \<notin> set chunks"
  shows "\<exists>tr'. read_loop (piece_env pieces) sock (length buffer + length (concat chunks)) buffer tr = Some (0, buffer @ concat chunks, tr') \<and>
    reads_done tr' = reads_done tr + length chunks"
  using assms
proof (induction chunks arbitrary: buffer tr)
  case Nil
  then show ?case by (subst read_loop.simps) simp
next
  case (Cons c chunks)
  have lt: "reads_done tr < length pieces" using Cons.prems(1) by (metis append_Cons drop_eq_Nil leI list.discI)
  then have c: "pieces ! reads_done tr = c" "drop (Suc (reads_done tr)) pieces = chunks @ rest"
    using Cons.prems(1) by (metis append_Cons Cons_nth_drop_Suc list.inject)+
  let ?n = "length buffer + length (concat (c # chunks))"
  let ?tr = "S_Read sock (Some c) # tr"
  have "sock_read (piece_env pieces) sock (?n - length buffer) tr = (Some c, ?tr)"
    using lt c(1) by (simp add: sock_read_def piece_env_def Let_def)
  moreover have "\<not> ?n \<le> length buffer" using Cons.prems(2) by (cases c) auto
  ultimately have step: "read_loop (piece_env pieces) sock ?n buffer tr = read_loop (piece_env pieces) sock ?n (buffer @ c) ?tr"
    by (subst read_loop.simps) (simp only: if_False prod.case option.case)
  have "drop (reads_done ?tr) pieces = chunks @ rest" using c(2) by simp
  from Cons.IH [OF this, of "buffer @ c"] Cons.prems(2) step show ?case by (auto simp: add.assoc)
qed

lemma atoi_show:
  assumes "n < 2 ^ 31"
  shows "atoi_read (show_int (int n) @ [CHR 0x0A]) = Some (int n)"
proof -
  let ?s = "show_nat n @ [CHR 0x0A]"
  obtain c cs where cs: "show_nat n = c # cs" "isdigit c"
    using digits_show_nat [of n] show_nat_nonempty [of n] by (cases "show_nat n") auto
  note c = isdigit_not [OF cs(2)]
  have nl: "\<not> isdigit (CHR 0x0A)" by (simp add: isdigit_def)
  have digits: "\<forall>x \<in> set (show_nat n). isdigit x" using digits_show_nat by (simp add: list_all_iff)
  have t: "dropWhile isspace ?s = ?s" using c cs(1) by simp
  have tw: "takeWhile isdigit ?s = show_nat n" "dropWhile isdigit ?s = [CHR 0x0A]"
    using digits nl by (simp_all add: takeWhile_append2 dropWhile_append2)
  have "strtol ?s = (int n, False)"
    using t tw(1) c cs(1) read_show_nat [of n] assms by (simp add: strtol_def)
  moreover have "wrap32 (int n) = int n" using assms by (intro wrap32_id) (simp add: i32_def)
  ultimately show ?thesis
    using t tw(2) c cs(1) nl by (auto simp: atoi_read_def show_int_def)
qed

lemma show_int_short: "n < 10 ^ 10 \<Longrightarrow> length (show_int (int n)) \<le> 10"
  using length_show_nat [of n 9] by (simp add: show_int_def)

lemma server_data_cmd_pieces:
  assumes "as_format cmd = Some text" and "length text < 4095" and "length d < 2 ^ 31" and "concat chunks = d" and "[] \<notin> set chunks"
  shows "\<exists>tr. server_data_cmd (piece_env ((show_int (int (length d)) @ [CHR 0x0A]) # chunks @ [''OK''])) sock cmd [] =
    Some (if length d \<le> 10000000 then (0, Some d, tr) else (-1, None, tr))"
proof -
  let ?first = "show_int (int (length d)) @ [CHR 0x0A]"
  let ?E = "piece_env (?first # chunks @ [''OK''])"
  let ?tr1 = "[S_Write sock (text @ [CHR 0x0A]) (int (length text + 1))]"
  let ?tr3 = "S_Write sock ''OK'' 2 # S_Read sock (Some ?first) # ?tr1"
  have size: "atoi_read ?first = Some (int (length d))" using assms(3) by (intro atoi_show) simp
  have first: "take 4096 ?first = ?first" using show_int_short [of "length d"] assms(3) by simp
  have "drop (reads_done ?tr3) (?first # chunks @ [''OK'']) = chunks @ [''OK'']" by simp
  from read_loop_pieces [OF this assms(5), of sock "[]"] obtain tr4 where
    loop: "read_loop ?E sock (length d) [] ?tr3 = Some (0, d, tr4)" "reads_done tr4 = Suc (length chunks)"
    using assms(4) by auto
  have check: "server_check ?E sock tr4 = Some (0, S_Read sock (Some ''OK'') # tr4)"
    using loop(2) by (simp add: server_check_def sock_read_def piece_env_def nth_append Let_def)
  have wr: "sock_write ?E sock x tr = (int (length x), S_Write sock x (int (length x)) # tr)" for x tr
    by (simp add: sock_write_def piece_env_def Let_def)
  have read: "sock_read ?E sock RECV_BUFFER ?tr1 = (Some ?first, S_Read sock (Some ?first) # ?tr1)"
    using first by (simp add: sock_read_def piece_env_def RECV_BUFFER_def Let_def)
  show ?thesis
    using assms(2,3) loop(1) check size read
    by (simp add: server_data_cmd_def assms(1) server_reply_def server_ok_def wr RECV_BUFFER_def MAX_BUFFER_def)
qed

text \<open>
  C15: a dump arrives as it was sent, when it is not too large. For the command \<open>table_dump t\<close>, with a table name without
  blanks and without a \<open>%\<close> that is not doubled, that fits the buffer of a command, and a peer that takes all that is written and confirms it, the server writes the number of
  bytes, the text of the table, or a notice when the table is empty, and \<open>OK\<close>; and however the network cuts the text into
  pieces, the client that reads them returns the text unchanged if it has at most 10,000,000 bytes. A longer one, of
  less than \<open>2 ^ 31\<close> bytes, is sent, but the client refuses it at the sight of its size.
\<close>

theorem dump_transfer:
  assumes "cmd_dbt_dump C g t = (int (length dump), Some dump)" and "t \<noteq> []" and "CHR '' '' \<notin> set t" and "willing E"
    and "d = (if dump = [] then server_table_empty else dump)" and "length d < 2 ^ 31"
    and "as_format (''table_dump '' @ t) = Some text" and "length text < 4095"
    and "concat chunks = d" and "[] \<notin> set chunks"
  shows "\<exists>tr tr'. server_exec_cmd C E sock (''table_dump '' @ t) g [] = Some (1, g, tr) \<and>
    written tr = [show_int (int (length d)) @ [CHR 0x0A], d, ''OK''] \<and>
    server_data_cmd (piece_env ((show_int (int (length d)) @ [CHR 0x0A]) # chunks @ [''OK''])) sock' (''table_dump '' @ t) [] =
      Some (if length d \<le> 10000000 then (0, Some d, tr') else (-1, None, tr'))"
proof -
  have tok: "tokens (CHR '' '') (''table_dump '' @ t) = [''table_dump'', t]"
  proof -
    have ne: "x \<noteq> CHR '' ''" if "x \<in> set t" for x using that assms(3) by metis
    obtain c cs where t: "t = c # cs" "c \<noteq> CHR '' ''" using assms(2) ne by (cases t) auto
    have t': "takeWhile (\<lambda>x. x \<noteq> CHR '' '') t = t" "dropWhile (\<lambda>x. x \<noteq> CHR '' '') t = []"
      using ne by (simp_all add: takeWhile_eq_all_conv dropWhile_eq_Nil_conv)
    have nil: "tokens (CHR '' '') [] = []" by (subst tokens.simps) simp
    have "tokens (CHR '' '') ('' '' @ t) = [t]"
    proof -
      have "dropWhile (\<lambda>x. x = CHR '' '') ('' '' @ t) = t" using t by simp
      with t' nil assms(2) show ?thesis by (subst tokens.simps) (simp only: Let_def if_False)
    qed
    then show ?thesis by (subst tokens.simps) (simp add: Let_def)
  qed
  have "length (show_int (int (length d))) < 4095" using show_int_short [of "length d"] assms(6) by simp
  from server_output_willing [OF assms(4) this, of sock "[]"] obtain tr where
    out: "server_output E sock d (length d) [] = Some (int (length d), tr)" "written tr = [show_int (int (length d)) @ [CHR 0x0A], d]" by auto
  then have "send_dump E sock (int (length dump), Some dump) [] = Some (1, tr)"
    using assms(5) by (cases "dump = []") (simp_all add: send_dump_def)
  then have "server_exec_cmd C E sock (''table_dump '' @ t) g [] = Some (1, g, snd (server_ok E sock tr))"
    unfolding server_exec_cmd_def tok Let_def
    using assms(1) by (simp add: MAXARGS_def server_callback_def server_table_dump_def)
  moreover have "written (snd (server_ok E sock tr)) = [show_int (int (length d)) @ [CHR 0x0A], d, ''OK'']"
    using out(2) by (simp add: server_ok_def sock_write_def Let_def)
  ultimately show ?thesis using server_data_cmd_pieces [OF assms(7,8,6,9,10)] by blast
qed

theorem dump_transfer_witness:
  "\<exists>tr'. server_data_cmd (piece_env [''3'' @ [CHR 0x0A], ''ab'', ''c'', ''OK'']) 5 ''table_dump t'' [] = Some (0, Some ''abc'', tr')"
proof -
  let ?C = "\<lparr>cmd_dbt_dump = (\<lambda>g t. (3, Some ''abc'')), cmd_greylist_dump = (\<lambda>g. (0, None)), cmd_greylist_pass = (\<lambda>g x y z. (0, g))\<rparr>"
  let ?E = "\<lparr>s_read = (\<lambda>tr sock sz. Some ''OK''), s_write = (\<lambda>tr sock d. int (length d))\<rparr>"
  have w: "willing ?E" by (simp add: willing_def)
  have f: "as_format (''table_dump '' @ ''t'') = Some ''table_dump t''" by simp
  have n: "show_int (int (length ''abc'')) = ''3''" by code_simp
  from dump_transfer [of ?C "()" "''t''" "''abc''", OF _ _ _ w _ _ f, of "''abc''" "[''ab'', ''c'']" 4 5] n show ?thesis by auto
qed

text \<open>
  With options before the command, \<open>mopherctl\<close> counts them as arguments and prints its usage; the
  same command without the option is accepted.
\<close>

lemma moctl_counts_options:
  "moctl_main 1 [''mopherctl'', ''dump'', ''t''] = Some (''table_dump t'', True) \<and>
   moctl_main 3 [''mopherctl'', ''-c'', ''f'', ''dump'', ''t''] = None"
  by code_simp

end
