(* ===== verification/Sql.thy ===== *)
theory Sql
  imports Record_Store
begin

section \<open>SQL databases (sql.c)\<close>

text \<open>
  \<open>src/src/sql.c\<close> turns operations on records into statements and runs them. The driver gives the
  names of types, the functions that escape identifiers and values (\<open>None\<close> when they fail), and
  executes statements; the answers may depend on all statements before, the latest first. Buffers
  have 8192 bytes. The outer option of a result is \<open>None\<close> where C has no meaning, the inner one is
  the error -1.
\<close>

definition SQL_KEYS :: int where "SQL_KEYS = 1"
definition SQL_VALUES :: int where "SQL_VALUES = 2"
definition SQL_ALL :: int where "SQL_ALL = SQL_KEYS OR SQL_VALUES"
definition VF_SQL_SAFE_UPDATE :: u32 where "VF_SQL_SAFE_UPDATE = 128"
definition SQL_BUFLEN :: nat where "SQL_BUFLEN = 8192"

text \<open>What \<open>sql_exec\<close> returns: its result, the counts, and the rows that \<open>sql_get_row\<close> and \<open>sql_get_value\<close> read.\<close>

record sqlres =
  q_status :: int
  q_tuples :: int
  q_affected :: int
  q_rows :: "string option list list"

type_synonym sqltrace = "(string \<times> sqlres) list"

record sql =
  sql_t_int :: string
  sql_t_float :: string
  sql_t_string :: string
  sql_t_text :: string
  sql_t_addr :: string
  sql_esc_identifier :: "string \<Rightarrow> string option"
  sql_esc_value :: "string \<Rightarrow> string option"
  sql_exec :: "sqltrace \<Rightarrow> string \<Rightarrow> sqlres"
  sql_table_exists :: "sqltrace \<Rightarrow> string \<Rightarrow> bool"

subsection \<open>Statements\<close>

text \<open>
  The loops that print a list into a buffer, with \<open>join\<close> between the parts. When there is no part
  nothing is written, and the callers print a buffer without content.
\<close>

fun join_parts :: "nat \<Rightarrow> string \<Rightarrow> string list \<Rightarrow> string \<Rightarrow> string option" where
  "join_parts sz join [] buffer = Some buffer"
| "join_parts sz join (part # parts) buffer =
     (let buffer1 = buffer @ (if buffer \<noteq> [] then join else []) @ part in
      if length buffer1 \<ge> sz then None else join_parts sz join parts buffer1)"

definition joined :: "string \<Rightarrow> string list option \<Rightarrow> string option option" where
  "joined join parts =
     (case parts of
        None \<Rightarrow> Some None
      | Some ps \<Rightarrow> if ps = [] then None else Some (join_parts SQL_BUFLEN join ps []))"

text \<open>\<open>snprintf\<close> of the whole statement.\<close>

definition statement :: "string list \<Rightarrow> string option" where
  "statement parts = (let s = concat parts in if length s \<ge> SQL_BUFLEN then None else Some s)"

definition selected :: "int \<Rightarrow> var \<Rightarrow> bool" where
  "selected types v \<longleftrightarrow>
     \<not> (types AND SQL_VALUES = 0 \<and> \<not> has_flag (v_flags v) VF_KEY) \<and> \<not> (types AND SQL_KEYS = 0 \<and> has_flag (v_flags v) VF_KEY)"

text \<open>One part per field, as long as none fails.\<close>

fun all_parts :: "('a \<Rightarrow> string option option) \<Rightarrow> 'a list \<Rightarrow> string list option option" where
  "all_parts f [] = Some (Some [])"
| "all_parts f (x # xs) =
     do {
       p \<leftarrow> f x;
       (case p of
          None \<Rightarrow> Some None
        | Some s \<Rightarrow> do { ps \<leftarrow> all_parts f xs; Some (map_option (Cons s) ps) }) }"

definition column_of :: "sql \<Rightarrow> var \<Rightarrow> string option" where
  "column_of sql v = (case v_name v of None \<Rightarrow> None | Some name \<Rightarrow> sql_esc_identifier sql name)"

definition sql_columns :: "sql \<Rightarrow> int \<Rightarrow> string \<Rightarrow> var \<Rightarrow> string option option" where
  "sql_columns sql types join scheme =
     (if v_type scheme \<noteq> VT_LIST then Some None
      else
        do {
          xs \<leftarrow> vlist_items scheme;
          ps \<leftarrow> all_parts (\<lambda>v. Some (column_of sql v)) (filter (selected types) (visible xs));
          joined join ps })"

text \<open>The value of a field as text: \<open>NULL\<close> is not escaped.\<close>

definition value_text :: "libc \<Rightarrow> var \<Rightarrow> string option option" where
  "value_text L v =
     (if v_type v = VT_STRING then map_option Some (as_string (v_data v))
      else do { (r, text) \<leftarrow> var_dump_data L v (int SQL_BUFLEN); Some (if r = -1 then None else Some text) })"

definition value_of :: "libc \<Rightarrow> sql \<Rightarrow> var \<Rightarrow> string option option" where
  "value_of L sql v =
     (if v_data v = None then Some (Some ''NULL'')
      else do { text \<leftarrow> value_text L v; Some (case text of None \<Rightarrow> None | Some vp \<Rightarrow> sql_esc_value sql vp) })"

definition sql_values :: "libc \<Rightarrow> sql \<Rightarrow> string \<Rightarrow> var \<Rightarrow> string option option" where
  "sql_values L sql join record0 =
     (if v_type record0 \<noteq> VT_LIST then Some None
      else do { xs \<leftarrow> vlist_items record0; ps \<leftarrow> all_parts (value_of L sql) (visible xs); joined join ps })"

definition key_value_of :: "libc \<Rightarrow> sql \<Rightarrow> var \<Rightarrow> string option option" where
  "key_value_of L sql v =
     (case column_of sql v of
        None \<Rightarrow> Some None
      | Some column \<Rightarrow>
          do {
            r \<leftarrow> value_of L sql v;
            Some (map_option (\<lambda>value.
              if has_flag (v_flags v) VF_SQL_SAFE_UPDATE then column @ ''='' @ column @ ''+'' @ value
              else column @ ''='' @ value) r) })"

definition sql_key_value :: "libc \<Rightarrow> sql \<Rightarrow> int \<Rightarrow> string \<Rightarrow> var \<Rightarrow> string option option" where
  "sql_key_value L sql types join record0 =
     (if v_type record0 \<noteq> VT_LIST then Some None
      else
        do {
          xs \<leftarrow> vlist_items record0;
          ps \<leftarrow> all_parts (key_value_of L sql) (filter (selected types) (visible xs));
          joined join ps })"

fun sql_type :: "sql \<Rightarrow> vtype \<Rightarrow> string option" where
  "sql_type sql VT_INT = Some (sql_t_int sql)"
| "sql_type sql VT_FLOAT = Some (sql_t_float sql)"
| "sql_type sql VT_STRING = Some (sql_t_string sql)"
| "sql_type sql VT_BLOB = Some (sql_t_text sql)"
| "sql_type sql VT_ADDR = Some (sql_t_addr sql)"
| "sql_type sql _ = None"

text \<open>\<open>sql_create\<close> passes the name of a column on without a look at \<open>NULL\<close>.\<close>

definition sql_create :: "sql \<Rightarrow> string \<Rightarrow> var \<Rightarrow> string option option" where
  "sql_create sql tablename scheme =
     (if v_type scheme \<noteq> VT_LIST then Some None
      else
        (case sql_esc_identifier sql tablename of
           None \<Rightarrow> Some None
         | Some table \<Rightarrow>
             do {
               xs \<leftarrow> vlist_items scheme;
               ps \<leftarrow> all_parts (\<lambda>v.
                 case sql_type sql (v_type v) of
                   None \<Rightarrow> Some None
                 | Some t \<Rightarrow>
                     do { name \<leftarrow> v_name v; Some (map_option (\<lambda>column. column @ '' '' @ t) (sql_esc_identifier sql name)) }) (visible xs);
               columns \<leftarrow> joined '','' ps;
               (case columns of
                  None \<Rightarrow> Some None
                | Some cols \<Rightarrow>
                    do {
                      keys \<leftarrow> sql_columns sql SQL_KEYS '','' scheme;
                      Some (case keys of
                              None \<Rightarrow> None
                            | Some ks \<Rightarrow> statement [''CREATE TABLE '', table, '' ('', cols, '', PRIMARY KEY('', ks, ''))'']) }) }))"

definition sql_select_all :: "sql \<Rightarrow> string \<Rightarrow> var \<Rightarrow> string option option" where
  "sql_select_all sql tablename scheme =
     (case sql_esc_identifier sql tablename of
        None \<Rightarrow> Some None
      | Some table \<Rightarrow>
          do {
            columns \<leftarrow> sql_columns sql SQL_ALL '','' scheme;
            Some (case columns of None \<Rightarrow> None | Some cs \<Rightarrow> statement [''SELECT '', cs, '' FROM '', table]) })"

definition sql_select :: "libc \<Rightarrow> sql \<Rightarrow> string \<Rightarrow> var \<Rightarrow> string option option" where
  "sql_select L sql tablename record0 =
     do {
       all \<leftarrow> sql_select_all sql tablename record0;
       (case all of
          None \<Rightarrow> Some None
        | Some a \<Rightarrow>
            do {
              cond \<leftarrow> sql_key_value L sql SQL_KEYS '' AND '' record0;
              Some (case cond of None \<Rightarrow> None | Some w \<Rightarrow> statement [a, '' WHERE '', w]) }) }"

definition sql_insert :: "libc \<Rightarrow> sql \<Rightarrow> string \<Rightarrow> var \<Rightarrow> string option option" where
  "sql_insert L sql tablename record0 =
     (case sql_esc_identifier sql tablename of
        None \<Rightarrow> Some None
      | Some table \<Rightarrow>
          do {
            columns \<leftarrow> sql_columns sql SQL_ALL '','' record0;
            (case columns of
               None \<Rightarrow> Some None
             | Some cs \<Rightarrow>
                 do {
                   vals \<leftarrow> sql_values L sql '','' record0;
                   Some (case vals of
                           None \<Rightarrow> None
                         | Some vs \<Rightarrow> statement [''INSERT INTO '', table, '' ('', cs, '') VALUES ('', vs, '')'']) }) })"

definition sql_update :: "libc \<Rightarrow> sql \<Rightarrow> string \<Rightarrow> var \<Rightarrow> string option option" where
  "sql_update L sql tablename record0 =
     (case sql_esc_identifier sql tablename of
        None \<Rightarrow> Some None
      | Some table \<Rightarrow>
          do {
            assign \<leftarrow> sql_key_value L sql SQL_VALUES '','' record0;
            (case assign of
               None \<Rightarrow> Some None
             | Some a \<Rightarrow>
                 do {
                   cond \<leftarrow> sql_key_value L sql SQL_KEYS '' AND '' record0;
                   Some (case cond of None \<Rightarrow> None | Some w \<Rightarrow> statement [''UPDATE '', table, '' SET '', a, '' WHERE '', w]) }) })"

definition sql_delete :: "libc \<Rightarrow> sql \<Rightarrow> string \<Rightarrow> var \<Rightarrow> string option option" where
  "sql_delete L sql tablename record0 =
     (case sql_esc_identifier sql tablename of
        None \<Rightarrow> Some None
      | Some table \<Rightarrow>
          do {
            cond \<leftarrow> sql_key_value L sql SQL_KEYS '' AND '' record0;
            Some (case cond of None \<Rightarrow> None | Some w \<Rightarrow> statement [''DELETE FROM '', table, '' WHERE '', w]) })"

definition sql_cleanup :: "sql \<Rightarrow> int \<Rightarrow> string \<Rightarrow> string \<Rightarrow> string option" where
  "sql_cleanup sql now tablename expire_raw =
     (case (sql_esc_identifier sql tablename, sql_esc_identifier sql expire_raw) of
        (Some table, Some expire) \<Rightarrow> statement [''DELETE FROM '', table, '' WHERE '', expire, '' < '', show_int (take_bit 64 now)]
      | _ \<Rightarrow> None)"

subsection \<open>Rows\<close>

text \<open>\<open>sql_unpack\<close>: the fields of a row in the order of the scheme. A column that is not there reads as \<open>NULL\<close>.\<close>

fun unpack_row :: "libc \<Rightarrow> var list \<Rightarrow> string option list \<Rightarrow> var option list option option" where
  "unpack_row L [] row = Some (Some [])"
| "unpack_row L (item # items) row =
     (let field_is_key = has_flag (v_flags item) VF_KEY; value = (case row of [] \<Rightarrow> None | x # _ \<Rightarrow> x) in
      if value = None \<and> field_is_key then Some None
      else
        do {
          r \<leftarrow> var_scan L (v_type item) (v_name item) value;
          (case r of
             None \<Rightarrow> Some None
           | Some v \<Rightarrow>
               do {
                 rest \<leftarrow> unpack_row L items (tl row);
                 Some (map_option (Cons (Some (Var (v_type v) (v_name v) (v_data v)
                   (if field_is_key then v_flags v OR VF_KEY else v_flags v)))) rest) }) })"

definition sql_unpack :: "libc \<Rightarrow> var \<Rightarrow> string option list \<Rightarrow> var option option" where
  "sql_unpack L scheme row =
     (if v_type scheme \<noteq> VT_LIST then Some None
      else
        do {
          xs \<leftarrow> vlist_items scheme;
          items \<leftarrow> unpack_row L (visible xs) row;
          Some (map_option (\<lambda>is. Var VT_LIST (v_name scheme) (Some (DList is)) (VF_COPYNAME OR VF_CREATE)) items) })"

subsection \<open>Operations on a table\<close>

definition run_sql :: "sql \<Rightarrow> string \<Rightarrow> sqltrace \<Rightarrow> sqlres \<times> sqltrace" where
  "run_sql sql stmt tr = (let q = sql_exec sql tr stmt in (q, (stmt, q) # tr))"

definition sql_db_exec_only :: "sql \<Rightarrow> string \<Rightarrow> sqltrace \<Rightarrow> int \<times> sqltrace" where
  "sql_db_exec_only sql stmt tr =
     (case run_sql sql stmt tr of
        (q, tr1) \<Rightarrow> (if q_status q \<noteq> 0 then -1 else if q_tuples q \<noteq> 0 then -1 else q_affected q, tr1))"

definition sql_db_get :: "libc \<Rightarrow> sql \<Rightarrow> var \<Rightarrow> var \<Rightarrow> sqltrace \<Rightarrow> (int \<times> var option \<times> sqltrace) option" where
  "sql_db_get L sql scheme lookup tr =
     (case v_name lookup of
        None \<Rightarrow> Some (-1, None, tr)
      | Some tablename \<Rightarrow>
          do {
            query \<leftarrow> sql_select L sql tablename lookup;
            (case query of
               None \<Rightarrow> Some (-1, None, tr)
             | Some stmt \<Rightarrow>
                 (case run_sql sql stmt tr of
                    (q, tr1) \<Rightarrow>
                      if q_status q \<noteq> 0 then Some (-1, None, tr1)
                      else if q_tuples q = 0 then Some (0, None, tr1)
                      else if q_tuples q \<noteq> 1 then Some (-1, None, tr1)
                      else
                        (case q_rows q of
                           [] \<Rightarrow> Some (-1, None, tr1)
                         | row # _ \<Rightarrow>
                             do { r \<leftarrow> sql_unpack L scheme row; Some (if r = None then -1 else 0, r, tr1) }))) })"

text \<open>
  \<open>sql_db_set\<close>, given what \<open>sql_db_duplicate_key_hack\<close> does. The state beside the database is
  \<open>key_hack_failed\<close>.
\<close>

definition commit :: "sql \<Rightarrow> bool \<Rightarrow> sqltrace \<Rightarrow> int \<times> bool \<times> sqltrace" where
  "commit sql failed tr = (case sql_db_exec_only sql ''COMMIT'' tr of (r, tr1) \<Rightarrow> (if r = -1 then -1 else 0, failed, tr1))"

definition rollback :: "sql \<Rightarrow> bool \<Rightarrow> sqltrace \<Rightarrow> int \<times> bool \<times> sqltrace" where
  "rollback sql failed tr = (-1, failed, snd (sql_db_exec_only sql ''ROLLBACK'' tr))"

definition set_record ::
  "(var \<Rightarrow> bool \<Rightarrow> sqltrace \<Rightarrow> (int \<times> bool \<times> sqltrace) option) \<Rightarrow> libc \<Rightarrow> sql \<Rightarrow> bool \<Rightarrow> var \<Rightarrow> bool \<Rightarrow> sqltrace \<Rightarrow>
    (int \<times> bool \<times> sqltrace) option" where
  "set_record hack L sql cf_dbt_fatal_errors record0 failed tr =
     (case v_name record0 of
        None \<Rightarrow> Some (-1, failed, tr)
      | Some tablename \<Rightarrow>
          (case sql_db_exec_only sql ''BEGIN'' tr of
             (r, tr1) \<Rightarrow>
               if r = -1 then Some (-1, failed, tr1)
               else
                 do {
                   update \<leftarrow> sql_update L sql tablename record0;
                   (case update of
                      None \<Rightarrow> Some (rollback sql failed tr1)
                    | Some stmt \<Rightarrow>
                        (case sql_db_exec_only sql stmt tr1 of
                           (affected, tr2) \<Rightarrow>
                             if affected = -1 then Some (rollback sql failed tr2)
                             else if affected \<noteq> 0 then Some (commit sql failed tr2)
                             else
                               do {
                                 insert0 \<leftarrow> sql_insert L sql tablename record0;
                                 (case insert0 of
                                    None \<Rightarrow> Some (rollback sql failed tr2)
                                  | Some stmt1 \<Rightarrow>
                                      (case sql_db_exec_only sql stmt1 tr2 of
                                         (affected1, tr3) \<Rightarrow>
                                           if affected1 = -1 then
                                             if cf_dbt_fatal_errors then
                                               hack record0 failed (snd (sql_db_exec_only sql ''ROLLBACK'' tr3))
                                             else Some (rollback sql failed tr3)
                                           else if affected1 \<noteq> 1 then Some (rollback sql failed tr3)
                                           else Some (commit sql failed tr3))) })) }))"

text \<open>
  \<open>sql_db_duplicate_key_hack\<close> holds a mutex while it calls \<open>sql_db_set\<close> again; if that fails in the
  same way, it calls the hack, which waits for the mutex forever: no result.
\<close>

definition sql_db_duplicate_key_hack ::
  "libc \<Rightarrow> sql \<Rightarrow> bool \<Rightarrow> var \<Rightarrow> bool \<Rightarrow> sqltrace \<Rightarrow> (int \<times> bool \<times> sqltrace) option" where
  "sql_db_duplicate_key_hack L sql cf_dbt_fatal_errors record0 failed tr =
     (if failed then Some (-1, failed, tr)
      else
        do {
          (status, failed1, tr1) \<leftarrow> set_record (\<lambda>_ _ _. None) L sql cf_dbt_fatal_errors record0 failed tr;
          Some (status, failed1 \<or> status \<noteq> 0, tr1) })"

definition sql_db_set :: "libc \<Rightarrow> sql \<Rightarrow> bool \<Rightarrow> var \<Rightarrow> bool \<Rightarrow> sqltrace \<Rightarrow> (int \<times> bool \<times> sqltrace) option" where
  "sql_db_set L sql cf_dbt_fatal_errors record0 failed tr =
     set_record (sql_db_duplicate_key_hack L sql cf_dbt_fatal_errors) L sql cf_dbt_fatal_errors record0 failed tr"

definition sql_db_del :: "libc \<Rightarrow> sql \<Rightarrow> var \<Rightarrow> sqltrace \<Rightarrow> (int \<times> sqltrace) option" where
  "sql_db_del L sql record0 tr =
     (case v_name record0 of
        None \<Rightarrow> Some (-1, tr)
      | Some tablename \<Rightarrow>
          do {
            query \<leftarrow> sql_delete L sql tablename record0;
            Some (case query of
                    None \<Rightarrow> (-1, tr)
                  | Some stmt \<Rightarrow>
                      (case sql_db_exec_only sql ''BEGIN'' tr of
                         (r, tr1) \<Rightarrow>
                           if r = -1 then (-1, tr1)
                           else
                             (case sql_db_exec_only sql stmt tr1 of
                                (r1, tr2) \<Rightarrow>
                                  if r1 = -1 then (-1, tr2)
                                  else
                                    (case sql_db_exec_only sql ''COMMIT'' tr2 of
                                       (r2, tr3) \<Rightarrow> (if r2 = -1 then -1 else 0, tr3))))) })"

text \<open>\<open>sql_db_walk\<close>: unlike other drivers it ends at the first callback that fails.\<close>

fun walk_rows ::
  "libc \<Rightarrow> var \<Rightarrow> (var \<Rightarrow> sqltrace \<Rightarrow> 's \<Rightarrow> (int \<times> sqltrace \<times> 's) option) \<Rightarrow> string option list list \<Rightarrow> sqltrace \<Rightarrow> 's \<Rightarrow>
    (int \<times> sqltrace \<times> 's) option" where
  "walk_rows L scheme callback [] tr x = Some (0, tr, x)"
| "walk_rows L scheme callback (row # rows) tr x =
     do {
       r \<leftarrow> sql_unpack L scheme row;
       (case r of
          None \<Rightarrow> Some (-1, tr, x)
        | Some record0 \<Rightarrow>
            do {
              (n, tr1, x1) \<leftarrow> callback record0 tr x;
              if n \<noteq> 0 then Some (-1, tr1, x1) else walk_rows L scheme callback rows tr1 x1 }) }"

definition sql_db_walk ::
  "libc \<Rightarrow> sql \<Rightarrow> string \<Rightarrow> var \<Rightarrow> (var \<Rightarrow> sqltrace \<Rightarrow> 's \<Rightarrow> (int \<times> sqltrace \<times> 's) option) \<Rightarrow> sqltrace \<Rightarrow> 's \<Rightarrow>
    (int \<times> sqltrace \<times> 's) option" where
  "sql_db_walk L sql name scheme callback tr x =
     do {
       query \<leftarrow> sql_select_all sql name scheme;
       (case query of
          None \<Rightarrow> Some (-1, tr, x)
        | Some stmt \<Rightarrow>
            (case run_sql sql stmt tr of
               (q, tr1) \<Rightarrow> if q_status q \<noteq> 0 then Some (-1, tr1, x) else walk_rows L scheme callback (q_rows q) tr1 x)) }"

definition sql_db_expire :: "sql \<Rightarrow> int \<Rightarrow> string \<Rightarrow> string \<Rightarrow> sqltrace \<Rightarrow> int \<times> sqltrace" where
  "sql_db_expire sql now name expire_field tr =
     (case sql_cleanup sql now name expire_field of
        None \<Rightarrow> (-1, tr)
      | Some stmt \<Rightarrow> (case run_sql sql stmt tr of (q, tr1) \<Rightarrow> (if q_status q \<noteq> 0 then -1 else q_affected q, tr1)))"

text \<open>\<open>sql_open\<close> creates the table unless it exists; every failure ends the program.\<close>

definition sql_open :: "sql \<Rightarrow> var \<Rightarrow> sqltrace \<Rightarrow> sqltrace option" where
  "sql_open sql scheme tr =
     do {
       tablename \<leftarrow> v_name scheme;
       if sql_table_exists sql tr tablename then Some tr
       else
         do {
           query \<leftarrow> sql_create sql tablename scheme;
           stmt \<leftarrow> query;
           (case run_sql sql stmt tr of (q, tr1) \<Rightarrow> if q_status q \<noteq> 0 then None else Some tr1) } }"

subsection \<open>Escaping for SQLite (modules/lite.c)\<close>

definition lite_esc_identifier :: "string \<Rightarrow> string option" where
  "lite_esc_identifier str = (case util_quote (int SQL_BUFLEN) str [CHR 0x22] of (r, buffer) \<Rightarrow> if r \<noteq> 0 then None else buffer)"

fun lite_escape :: "nat \<Rightarrow> string \<Rightarrow> string \<Rightarrow> string option" where
  "lite_escape sz buffer str =
     (if length buffer \<ge> sz - 1 then None
      else
        (case str of
           [] \<Rightarrow> Some (buffer @ [CHR 0x27])
         | c # cs \<Rightarrow> lite_escape sz (if c = CHR 0x27 then buffer @ [CHR 0x27, c] else buffer @ [c]) cs))"

declare lite_escape.simps [simp del]

definition lite_esc_value :: "string \<Rightarrow> string option" where
  "lite_esc_value str = lite_escape SQL_BUFLEN [CHR 0x27] str"

end
