(* ===== verification/Sql_Spec.thy ===== *)
theory Sql_Spec
  imports Sql
begin

section \<open>What the statements mean\<close>

text \<open>
  The conditions of a statement for SQLite, read the way SQL reads them, are the key fields of the
  record, whatever their values are; and every transaction that \<open>sql_db_set\<close> begins it also ends.
\<close>

subsection \<open>Literals and conditions\<close>

text \<open>A quoted literal after its opening quote: the quote character is doubled inside.\<close>

fun read_quoted :: "char \<Rightarrow> string \<Rightarrow> (string \<times> string) option" where
  "read_quoted q [] = None"
| "read_quoted q (c # s) =
     (if c \<noteq> q then map_option (apfst (Cons c)) (read_quoted q s)
      else (case s of
              [] \<Rightarrow> Some ([], [])
            | d # s' \<Rightarrow> if d = q then map_option (apfst (Cons q)) (read_quoted q s') else Some ([], s)))"

text \<open>\<open>"column"='value'\<close> or \<open>"column"=NULL\<close>.\<close>

definition read_condition :: "string \<Rightarrow> ((string \<times> string option) \<times> string) option" where
  "read_condition s =
     (case s of
        [] \<Rightarrow> None
      | c # s1 \<Rightarrow>
          if c \<noteq> CHR 0x22 then None
          else
            do {
              (column, s2) \<leftarrow> read_quoted (CHR 0x22) s1;
              (case s2 of
                 e # s3 \<Rightarrow>
                   if e \<noteq> CHR ''='' then None
                   else if take 4 s3 = ''NULL'' then Some ((column, None), drop 4 s3)
                   else
                     (case s3 of
                        v # s4 \<Rightarrow>
                          if v \<noteq> CHR 0x27 then None
                          else do { (value, rest) \<leftarrow> read_quoted (CHR 0x27) s4; Some ((column, Some value), rest) }
                      | [] \<Rightarrow> None)
               | [] \<Rightarrow> None) })"

fun read_conditions :: "nat \<Rightarrow> string \<Rightarrow> (string \<times> string option) list option" where
  "read_conditions 0 s = None"
| "read_conditions (Suc n) s =
     do {
       (c, rest) \<leftarrow> read_condition s;
       if rest = [] then Some [c]
       else if take 5 rest = '' AND '' then map_option (Cons c) (read_conditions n (drop 5 rest))
       else None }"

definition doubled :: "char \<Rightarrow> string \<Rightarrow> string" where
  "doubled q s = concat (map (\<lambda>c. if c = q then [q, q] else [c]) s)"

lemma read_doubled:
  "(rest = [] \<or> hd rest \<noteq> q) \<Longrightarrow> read_quoted q (doubled q s @ q # rest) = Some (s, rest)"
proof (induction s)
  case Nil
  then show ?case by (cases rest) (simp_all add: doubled_def)
next
  case (Cons c s)
  then show ?case by (cases "c = q") (simp_all add: doubled_def)
qed

lemma lite_escape_doubled:
  "lite_escape sz buffer s = Some text \<Longrightarrow> text = buffer @ doubled (CHR 0x27) s @ [CHR 0x27]"
proof (induction sz buffer s rule: lite_escape.induct)
  case (1 sz buffer s)
  then show ?case by (subst (asm) lite_escape.simps) (auto simp: doubled_def split: if_splits list.splits)
qed

lemma lite_esc_value_form: "lite_esc_value s = Some text \<Longrightarrow> text = CHR 0x27 # doubled (CHR 0x27) s @ [CHR 0x27]"
  unfolding lite_esc_value_def by (drule lite_escape_doubled) simp

lemma lite_esc_identifier_form:
  assumes "lite_esc_identifier s = Some text"
  shows "text = CHR 0x22 # doubled (CHR 0x22) s @ [CHR 0x22]"
proof -
  have "strchr s (CHR 0x22) = None" and tx: "text = CHR 0x22 # s @ [CHR 0x22]"
    using assms by (auto simp: lite_esc_identifier_def util_quote_def Let_def split: if_splits)
  then have "CHR 0x22 \<notin> set s" by (simp add: strchr_None)
  then have "doubled (CHR 0x22) s = s" by (induction s) (auto simp: doubled_def)
  with tx show ?thesis by simp
qed

text \<open>The condition of one field, followed by something that is no quote.\<close>

definition field_condition :: "libc \<Rightarrow> var \<Rightarrow> string \<times> string option" where
  "field_condition L v = (case v_name v of None \<Rightarrow> [] | Some n \<Rightarrow> n, if v_data v = None then None else (case value_text L v of Some t \<Rightarrow> t | None \<Rightarrow> None))"

abbreviation lite :: "sql \<Rightarrow> sql" where
  "lite sql \<equiv> sql\<lparr>sql_esc_identifier := lite_esc_identifier, sql_esc_value := lite_esc_value\<rparr>"

lemma read_condition_field:
  assumes "key_value_of L (lite sql) v = Some (Some part)" and "\<not> has_flag (v_flags v) VF_SQL_SAFE_UPDATE"
    and "rest = [] \<or> hd rest \<noteq> CHR 0x27"
  shows "read_condition (part @ rest) = Some (field_condition L v, rest)"
proof -
  from assms(1,2) obtain name column vs where name: "v_name v = Some name" "lite_esc_identifier name = Some column"
    and part: "part = column @ ''='' @ vs" "value_of L (lite sql) v = Some (Some vs)"
    by (auto simp: key_value_of_def column_of_def bind_eq_Some_conv split: option.splits)
  note col = lite_esc_identifier_form [OF name(2)]
  have head: "read_quoted (CHR 0x22) (doubled (CHR 0x22) name @ [CHR 0x22] @ ''='' @ vs @ rest) = Some (name, ''='' @ vs @ rest)"
    using read_doubled [of "''='' @ vs @ rest" "CHR 0x22" name] by simp
  show ?thesis
  proof (cases "v_data v = None")
    case True
    then have "vs = ''NULL''" using part(2) by (simp add: value_of_def)
    with head True name show ?thesis by (simp add: read_condition_def part(1) col field_condition_def)
  next
    case False
    with part(2) obtain txt0 where tx: "value_text L v = Some (Some txt0)" "lite_esc_value txt0 = Some vs"
      by (auto simp: value_of_def bind_eq_Some_conv split: option.splits)
    note val = lite_esc_value_form [OF tx(2)]
    have "read_quoted (CHR 0x27) (doubled (CHR 0x27) txt0 @ CHR 0x27 # rest) = Some (txt0, rest)"
      by (rule read_doubled [OF assms(3)])
    with head False name tx show ?thesis by (simp add: read_condition_def part(1) col val field_condition_def)
  qed
qed

subsection \<open>Lists of conditions\<close>

lemma all_parts_all2: "all_parts f xs = Some (Some ps) \<Longrightarrow> list_all2 (\<lambda>x p. f x = Some (Some p)) xs ps"
  by (induction xs arbitrary: ps) (auto simp: bind_eq_Some_conv split: option.splits)

fun joined_tail :: "string \<Rightarrow> string list \<Rightarrow> string" where
  "joined_tail join [] = []"
| "joined_tail join (p # ps) = join @ p @ joined_tail join ps"

lemma join_parts_tail:
  "\<lbrakk>join_parts sz join ps buffer = Some w; buffer \<noteq> []\<rbrakk> \<Longrightarrow> w = buffer @ joined_tail join ps"
proof (induction ps arbitrary: buffer)
  case (Cons p ps)
  then show ?case using Cons.IH [of "buffer @ join @ p"] by (simp add: Let_def split: if_splits)
qed simp

lemma joined_form:
  assumes "joined join (Some (p # ps)) = Some (Some w)" and "p \<noteq> []"
  shows "w = p @ joined_tail join ps"
  using assms by (auto simp: joined_def Let_def dest: join_parts_tail split: if_splits)

lemma key_value_not_empty: "key_value_of L sql v = Some (Some p) \<Longrightarrow> p \<noteq> []"
  by (auto simp: key_value_of_def bind_eq_Some_conv split: option.splits if_splits)

lemma read_conditions_mono: "\<lbrakk>read_conditions n s = Some cs; n \<le> m\<rbrakk> \<Longrightarrow> read_conditions m s = Some cs"
proof (induction n s arbitrary: m cs rule: read_conditions.induct)
  case (2 n s)
  then obtain k where m: "m = Suc k" "n \<le> k" by (cases m) auto
  with 2 show ?case by (auto simp: bind_eq_Some_conv split: if_splits) blast+
qed simp

lemma read_conditions_fields:
  assumes "list_all2 (\<lambda>v p. key_value_of L (lite sql) v = Some (Some p)) (v # vs) (p # ps)"
    and "\<And>u. u \<in> set (v # vs) \<Longrightarrow> \<not> has_flag (v_flags u) VF_SQL_SAFE_UPDATE"
  shows "read_conditions (Suc (length vs)) (p @ joined_tail '' AND '' ps) = Some (map (field_condition L) (v # vs))"
  using assms
proof (induction vs arbitrary: v p ps)
  case Nil
  then show ?case using read_condition_field [of L sql v p "[]"] by simp
next
  case (Cons u us)
  then obtain q qs where ps: "ps = q # qs"
    and rest: "list_all2 (\<lambda>v p. key_value_of L (lite sql) v = Some (Some p)) (u # us) (q # qs)"
    by (auto simp: list_all2_Cons1)
  have "read_condition (p @ '' AND '' @ q @ joined_tail '' AND '' qs) =
      Some (field_condition L v, '' AND '' @ q @ joined_tail '' AND '' qs)"
    using Cons.prems by (intro read_condition_field) auto
  with Cons.IH [OF rest] Cons.prems(2) show ?case by (simp add: ps)
qed

text \<open>
  C11: no value and no name of a field can change what a statement for SQLite is about: the conditions
  that \<open>sql_key_value\<close> prints after \<open>WHERE\<close>, read back as SQL reads them, are exactly the key fields of
  the record with their names and their texts, in their order, also where these contain quotes or SQL.
\<close>

theorem sql_where_safe:
  assumes "sql_key_value L (lite sql) SQL_KEYS '' AND '' record0 = Some (Some w)"
    and "vlist_items record0 = Some xs"
    and "\<And>v. v \<in> set (visible xs) \<Longrightarrow> has_flag (v_flags v) VF_KEY \<Longrightarrow> \<not> has_flag (v_flags v) VF_SQL_SAFE_UPDATE"
  shows "read_conditions (length (visible xs)) w =
    Some (map (field_condition L) (filter (\<lambda>v. has_flag (v_flags v) VF_KEY) (visible xs)))"
proof -
  let ?keys = "filter (\<lambda>v. has_flag (v_flags v) VF_KEY) (visible xs)"
  have keys: "filter (selected SQL_KEYS) (visible xs) = ?keys"
    by (rule filter_cong) (simp_all add: selected_def SQL_KEYS_def SQL_VALUES_def)
  from assms(1,2) keys obtain ps where ps: "all_parts (key_value_of L (lite sql)) ?keys = Some ps"
    and w: "joined '' AND '' ps = Some (Some w)"
    by (auto simp: sql_key_value_def bind_eq_Some_conv split: if_splits)
  then obtain p qs where qs: "ps = Some (p # qs)"
    by (cases ps) (auto simp: joined_def neq_Nil_conv split: if_splits)
  note all = all_parts_all2 [OF ps [unfolded qs]]
  then obtain v vs where vs: "?keys = v # vs" by (auto simp: list_all2_Cons2)
  have "p \<noteq> []" using all unfolding vs by (auto dest: key_value_not_empty)
  with w qs have form: "w = p @ joined_tail '' AND '' qs" by (auto dest: joined_form)
  have "\<not> has_flag (v_flags u) VF_SQL_SAFE_UPDATE" if "u \<in> set (v # vs)" for u
    using that assms(3) unfolding vs [symmetric] by auto
  then have small: "read_conditions (Suc (length vs)) w = Some (map (field_condition L) ?keys)"
    unfolding form vs by (rule read_conditions_fields [OF all [unfolded vs]])
  have "Suc (length vs) \<le> length (visible xs)"
    using length_filter_le [of "\<lambda>v. has_flag (v_flags v) VF_KEY" "visible xs"] by (simp add: vs)
  with small show ?thesis by (rule read_conditions_mono)
qed

text \<open>A record whose key is a fragment of SQL, and a driver that answers every statement alike.\<close>

definition sql_demo_items :: "var option list" where
  "sql_demo_items =
     [Some (Var VT_STRING (Some ''k'') (Some (DString (CHR 0x27 # '' OR 1=1'' @ [CHR 0x27]))) VF_KEY),
      Some (Var VT_STRING (Some ''v'') (Some (DString ''x'')) 0)]"

definition sql_demo :: var where
  "sql_demo = Var VT_LIST (Some ''t'') (Some (DList sql_demo_items)) 0"

definition sql_answers :: "(string \<Rightarrow> int) \<Rightarrow> sql" where
  "sql_answers affected =
     lite \<lparr>sql_t_int = ''INT'', sql_t_float = ''REAL'', sql_t_string = ''TEXT'', sql_t_text = ''TEXT'', sql_t_addr = ''TEXT'',
       sql_esc_identifier = Some, sql_esc_value = Some,
       sql_exec = (\<lambda>tr stmt. \<lparr>q_status = 0, q_tuples = 0, q_affected = affected stmt, q_rows = []\<rparr>),
       sql_table_exists = (\<lambda>tr name. True)\<rparr>"

lemma sql_demo_where:
  "sql_key_value word_libc (sql_answers a) SQL_KEYS '' AND '' sql_demo =
     Some (Some ([CHR 0x22] @ ''k'' @ [CHR 0x22] @ ''='' @ [CHR 0x27, CHR 0x27, CHR 0x27] @ '' OR 1=1'' @ [CHR 0x27, CHR 0x27, CHR 0x27]))"
  by code_simp

theorem sql_where_safe_witness:
  "read_conditions 2 ([CHR 0x22] @ ''k'' @ [CHR 0x22] @ ''='' @ [CHR 0x27, CHR 0x27, CHR 0x27] @ '' OR 1=1'' @ [CHR 0x27, CHR 0x27, CHR 0x27]) =
     Some [(''k'', Some (CHR 0x27 # '' OR 1=1'' @ [CHR 0x27]))]"
proof -
  have items: "vlist_items sql_demo = Some sql_demo_items" by (simp add: sql_demo_def vlist_items_def)
  have vis: "length (visible sql_demo_items) = 2" by (simp add: sql_demo_items_def)
  have flags: "has_flag (v_flags v) VF_KEY \<Longrightarrow> \<not> has_flag (v_flags v) VF_SQL_SAFE_UPDATE" if "v \<in> set (visible sql_demo_items)" for v
    using that by (auto simp: sql_demo_items_def has_flag_def VF_KEY_def VF_SQL_SAFE_UPDATE_def)
  have "map (field_condition word_libc) (filter (\<lambda>v. has_flag (v_flags v) VF_KEY) (visible sql_demo_items)) =
      [(''k'', Some (CHR 0x27 # '' OR 1=1'' @ [CHR 0x27]))]"
    by code_simp
  with sql_where_safe [OF sql_demo_where [unfolded sql_answers_def] items flags] show ?thesis by (simp add: vis)
qed

subsection \<open>Transactions\<close>

text \<open>
  A statement is done when \<open>sql_db_exec_only\<close> reports it so; the transaction that is open after a
  sequence of statements, the latest first.
\<close>

definition exec_done :: "sqlres \<Rightarrow> bool" where
  "exec_done q \<longleftrightarrow> q_status q = 0 \<and> q_tuples q = 0 \<and> q_affected q \<noteq> -1"

fun tx_open :: "sqltrace \<Rightarrow> bool" where
  "tx_open [] = False"
| "tx_open ((s, q) # tr) =
     (if s = ''BEGIN'' then exec_done q \<or> tx_open tr
      else if s = ''COMMIT'' \<or> s = ''ROLLBACK'' then tx_open tr \<and> \<not> exec_done q
      else tx_open tr)"

definition ends_done :: "sqltrace \<Rightarrow> bool" where
  "ends_done tr \<longleftrightarrow> (\<forall>(s, q)\<in>set tr. s = ''COMMIT'' \<or> s = ''ROLLBACK'' \<longrightarrow> exec_done q)"

text \<open>The latest statement is a commit that is done, of an \<open>UPDATE\<close> of a row or an \<open>INSERT\<close> of one row.\<close>

definition stored :: "libc \<Rightarrow> sql \<Rightarrow> var \<Rightarrow> sqltrace \<Rightarrow> bool" where
  "stored L sql record0 tr \<longleftrightarrow>
     (\<exists>table stmt q p rest. v_name record0 = Some table \<and> tr = (''COMMIT'', q) # (stmt, p) # rest \<and> exec_done q \<and> exec_done p \<and>
        (sql_update L sql table record0 = Some (Some stmt) \<and> q_affected p \<noteq> 0 \<or>
         sql_insert L sql table record0 = Some (Some stmt) \<and> q_affected p = 1))"

text \<open>What \<open>sql_db_set\<close> and the hack promise to each other.\<close>

definition settled :: "libc \<Rightarrow> sql \<Rightarrow> var \<Rightarrow> sqltrace \<Rightarrow> (int \<times> bool \<times> sqltrace) option \<Rightarrow> bool" where
  "settled L sql record0 tr result \<longleftrightarrow>
     (\<forall>r failed tr'. result = Some (r, failed, tr') \<longrightarrow>
        (\<exists>new. tr' = new @ tr \<and> (ends_done new \<longrightarrow> \<not> tx_open tr \<longrightarrow> \<not> tx_open tr')) \<and> (r = 0 \<longrightarrow> stored L sql record0 tr'))"

lemma exec_only_result:
  "sql_db_exec_only sql stmt tr =
     (if exec_done (sql_exec sql tr stmt) then q_affected (sql_exec sql tr stmt) else -1, (stmt, sql_exec sql tr stmt) # tr)"
  by (simp add: sql_db_exec_only_def run_sql_def exec_done_def Let_def)

lemma statement_prefix: "statement (p # ps) = Some s \<Longrightarrow> p \<noteq> [] \<Longrightarrow> hd s = hd p \<and> s \<noteq> []"
  by (auto simp: statement_def Let_def split: if_splits)

lemma update_no_end: "sql_update L sql table record0 = Some (Some s) \<Longrightarrow> s \<noteq> ''BEGIN'' \<and> s \<noteq> ''COMMIT'' \<and> s \<noteq> ''ROLLBACK''"
  by (auto simp: sql_update_def bind_eq_Some_conv dest!: statement_prefix split: option.splits)

lemma insert_no_end: "sql_insert L sql table record0 = Some (Some s) \<Longrightarrow> s \<noteq> ''BEGIN'' \<and> s \<noteq> ''COMMIT'' \<and> s \<noteq> ''ROLLBACK''"
  by (auto simp: sql_insert_def bind_eq_Some_conv dest!: statement_prefix split: option.splits)

text \<open>One statement more, and what ends a transaction.\<close>

lemma ends_done_simps [simp]:
  "ends_done []"
  "ends_done ((s, q) # tr) \<longleftrightarrow> (s = ''COMMIT'' \<or> s = ''ROLLBACK'' \<longrightarrow> exec_done q) \<and> ends_done tr"
  "ends_done (xs @ ys) \<longleftrightarrow> ends_done xs \<and> ends_done ys"
  by (auto simp: ends_done_def)

lemma settled_rollback: "settled L sql record0 base (Some (rollback sql failed (new @ base)))"
proof -
  have "(''ROLLBACK'', q) # new @ base = ((''ROLLBACK'', q) # new) @ base" for q by simp
  then show ?thesis unfolding settled_def rollback_def exec_only_result by (fastforce simp del: append_Cons)
qed

lemma settled_commit:
  assumes "v_name record0 = Some table" and "exec_done p"
    and "sql_update L sql table record0 = Some (Some stmt) \<and> q_affected p \<noteq> 0 \<or>
      sql_insert L sql table record0 = Some (Some stmt) \<and> q_affected p = 1"
  shows "settled L sql record0 base (Some (commit sql failed ((stmt, p) # new @ base)))"
proof -
  have "(''COMMIT'', q) # (stmt, p) # new @ base = ((''COMMIT'', q) # (stmt, p) # new) @ base" for q by simp
  with assms show ?thesis unfolding settled_def commit_def exec_only_result stored_def
    by (fastforce simp del: append_Cons split: if_splits)
qed

lemma settled_extend:
  assumes "settled L sql record0 (new @ base) result" and "ends_done new \<Longrightarrow> \<not> tx_open (new @ base)"
  shows "settled L sql record0 base result"
  unfolding settled_def
proof (intro allI impI conjI)
  fix r failed tr'
  assume result: "result = Some (r, failed, tr')"
  with assms(1) obtain more where "tr' = more @ new @ base" "ends_done more \<longrightarrow> \<not> tx_open (new @ base) \<longrightarrow> \<not> tx_open tr'"
    unfolding settled_def by blast
  with assms(2) show "\<exists>new. tr' = new @ base \<and> (ends_done new \<longrightarrow> \<not> tx_open base \<longrightarrow> \<not> tx_open tr')"
    by (intro exI [of _ "more @ new"]) auto
  show "r = 0 \<Longrightarrow> stored L sql record0 tr'" using assms(1) result unfolding settled_def by blast
qed

lemma settled_error: "\<not> tx_open base \<longrightarrow> \<not> tx_open (new @ base) \<Longrightarrow> settled L sql record0 base (Some (-1, failed, new @ base))"
  unfolding settled_def by auto

lemma set_record_settled:
  assumes hack: "\<And>failed tr. settled L sql record0 tr (hack record0 failed tr)"
  shows "settled L sql record0 tr (set_record hack L sql fatal record0 failed tr)"
proof (cases "v_name record0")
  case None
  then show ?thesis using settled_error [of tr "[]"] by (simp add: set_record_def)
next
  case (Some table)
  define b where "b = sql_exec sql tr ''BEGIN''"
  define tr1 where "tr1 = (''BEGIN'', b) # tr"
  show ?thesis
  proof (cases "exec_done b")
    case False
    then show ?thesis using settled_error [of tr "[(''BEGIN'', b)]"] Some
      by (simp add: set_record_def exec_only_result b_def)
  next
    case begun: True
    have rolled: "settled L sql record0 tr (Some (rollback sql failed (new @ tr1)))" for new
      using settled_rollback [of L sql record0 tr failed "new @ [(''BEGIN'', b)]"] by (simp add: tr1_def)
    have committed: "settled L sql record0 tr (Some (commit sql failed ((stmt, p) # new @ tr1)))"
      if "exec_done p" "sql_update L sql table record0 = Some (Some stmt) \<and> q_affected p \<noteq> 0 \<or>
        sql_insert L sql table record0 = Some (Some stmt) \<and> q_affected p = 1" for stmt p new
      using settled_commit [OF Some that, of tr failed "new @ [(''BEGIN'', b)]"] by (simp add: tr1_def)
    have hacked: "settled L sql record0 tr (hack record0 failed ((''ROLLBACK'', q) # new @ tr1))" for q new
      using settled_extend [of L sql record0 "((''ROLLBACK'', q) # new) @ [(''BEGIN'', b)]" tr, OF hack [of _ failed, simplified append_assoc]]
      by (simp add: tr1_def)
    show ?thesis using begun Some rolled [of "[]"] rolled [of "[_]"] rolled [of "[_, _]"] committed [of _ _ "[]"] committed [of _ _ "[_]"]
        hacked [of _ "[_, _]"]
      by (auto simp: set_record_def exec_only_result b_def [symmetric] tr1_def [symmetric] settled_def [of _ _ _ _ None] exec_done_def
          split: option.split bind_splits)
  qed
qed

lemma key_hack_settled: "settled L sql record0 tr (sql_db_duplicate_key_hack L sql fatal record0 failed tr)"
proof (cases failed)
  case True
  then show ?thesis using settled_error [of tr "[]"] by (simp add: sql_db_duplicate_key_hack_def)
next
  case False
  have "settled L sql record0 tr (set_record (\<lambda>_ _ _. None) L sql fatal record0 failed tr)"
    by (rule set_record_settled) (simp add: settled_def)
  with False show ?thesis by (auto simp: sql_db_duplicate_key_hack_def settled_def bind_eq_Some_conv)
qed

lemma sql_demo_update:
  "sql_update word_libc (sql_answers a) ''t'' sql_demo =
     Some (Some (''UPDATE '' @ [CHR 0x22] @ ''t'' @ [CHR 0x22] @ '' SET '' @ [CHR 0x22] @ ''v'' @ [CHR 0x22] @ ''='' @ [CHR 0x27] @ ''x'' @
       [CHR 0x27] @ '' WHERE '' @ [CHR 0x22] @ ''k'' @ [CHR 0x22] @ ''='' @ [CHR 0x27, CHR 0x27, CHR 0x27] @ '' OR 1=1'' @
       [CHR 0x27, CHR 0x27, CHR 0x27]))"
  by code_simp

lemma sql_demo_insert:
  "sql_insert word_libc (sql_answers a) ''t'' sql_demo =
     Some (Some (''INSERT INTO '' @ [CHR 0x22] @ ''t'' @ [CHR 0x22] @ '' ('' @ [CHR 0x22] @ ''k'' @ [CHR 0x22] @ '','' @ [CHR 0x22] @ ''v'' @
       [CHR 0x22] @ '') VALUES ('' @ [CHR 0x27, CHR 0x27, CHR 0x27] @ '' OR 1=1'' @ [CHR 0x27, CHR 0x27, CHR 0x27] @ '','' @ [CHR 0x27] @
       ''x'' @ [CHR 0x27] @ '')''))"
  by code_simp

lemma sql_demo_set:
  "\<exists>failed' tr'. sql_db_set word_libc (sql_answers (\<lambda>stmt. 1)) True sql_demo False [] = Some (0, failed', tr') \<and> ends_done tr'"
proof -
  have "v_name sql_demo = Some ''t''" by (simp add: sql_demo_def)
  moreover have "exec_done (sql_exec (sql_answers (\<lambda>stmt. 1)) tr stmt)" "q_affected (sql_exec (sql_answers (\<lambda>stmt. 1)) tr stmt) = 1" for tr stmt
    by (simp_all add: sql_answers_def exec_done_def)
  ultimately show ?thesis
    by (intro exI [of _ False]) (simp add: sql_db_set_def set_record_def exec_only_result commit_def sql_demo_update)
qed

text \<open>
  C12: \<open>sql_db_set\<close> ends the transaction it begins, on every path, the retry after a duplicate key
  included, as long as the database carries out the commits and rollbacks it is sent; and it reports
  success only when the last statement was a commit that is done, of an \<open>UPDATE\<close> that changed rows or
  of an \<open>INSERT\<close> of one row, for this record.
\<close>

theorem sql_set_transaction:
  assumes "sql_db_set L sql fatal record0 failed tr = Some (r, failed', tr')" and "\<not> tx_open tr"
  shows "(\<exists>new. tr' = new @ tr \<and> (ends_done new \<longrightarrow> \<not> tx_open tr')) \<and> (r = 0 \<longrightarrow> stored L sql record0 tr')"
proof -
  have "settled L sql record0 tr (sql_db_set L sql fatal record0 failed tr)"
    unfolding sql_db_set_def by (rule set_record_settled) (rule key_hack_settled)
  with assms show ?thesis unfolding settled_def by blast
qed

text \<open>A table that has the record: \<open>UPDATE\<close> reports one row.\<close>

theorem sql_set_transaction_witness:
  "\<exists>failed' tr'. sql_db_set word_libc (sql_answers (\<lambda>stmt. 1)) True sql_demo False [] = Some (0, failed', tr') \<and>
     \<not> tx_open tr' \<and> stored word_libc (sql_answers (\<lambda>stmt. 1)) sql_demo tr'"
proof -
  obtain failed' tr' where set: "sql_db_set word_libc (sql_answers (\<lambda>stmt. 1)) True sql_demo False [] = Some (0, failed', tr')"
    and ends: "ends_done tr'"
    using sql_demo_set by blast
  from sql_set_transaction [OF set] ends set show ?thesis by auto
qed

text \<open>
  C36: with fatal errors enabled \<open>sql_db_set\<close> may never return: when the database can update nothing and
  refuses every \<open>INSERT\<close>, the retry holds the mutex of the key hack, fails in the same way, and asks for
  the mutex again.
\<close>

theorem sql_set_deadlock:
  assumes "v_name record0 = Some table" and "sql_update L sql table record0 = Some (Some u)"
    and "sql_insert L sql table record0 = Some (Some i)"
    and "\<And>tr. exec_done (sql_exec sql tr ''BEGIN'')"
    and "\<And>tr. exec_done (sql_exec sql tr u) \<and> q_affected (sql_exec sql tr u) = 0"
    and "\<And>tr. \<not> exec_done (sql_exec sql tr i)"
  shows "sql_db_set L sql True record0 False tr = None"
proof -
  have "set_record hack L sql True record0 failed tr = hack record0 failed (snd (sql_db_exec_only sql ''ROLLBACK''
      ((i, sql_exec sql ((u, sql_exec sql ((''BEGIN'', sql_exec sql tr ''BEGIN'') # tr) u) # (''BEGIN'', sql_exec sql tr ''BEGIN'') # tr) i)
        # (u, sql_exec sql ((''BEGIN'', sql_exec sql tr ''BEGIN'') # tr) u) # (''BEGIN'', sql_exec sql tr ''BEGIN'') # tr)))" for hack failed tr
    using assms exec_done_def by (simp add: set_record_def exec_only_result)
  then show ?thesis by (simp add: sql_db_set_def sql_db_duplicate_key_hack_def)
qed

theorem sql_set_deadlock_witness:
  "sql_db_set word_libc (sql_answers (\<lambda>stmt. if take 6 stmt = ''INSERT'' then -1 else 0)) True sql_demo False [] = None"
  by (rule sql_set_deadlock [where table = "''t''", OF _ sql_demo_update sql_demo_insert])
    (simp_all add: sql_demo_def sql_answers_def exec_done_def)

text \<open>\<open>sql_db_del\<close> leaves the transaction open when the database refuses the \<open>DELETE\<close>.\<close>

lemma sql_del_left_open:
  assumes "v_name record0 = Some table" and "sql_delete L sql table record0 = Some (Some d)"
    and "exec_done (sql_exec sql tr ''BEGIN'')" and "\<not> exec_done (sql_exec sql ((''BEGIN'', sql_exec sql tr ''BEGIN'') # tr) d)"
  shows "\<exists>tr'. sql_db_del L sql record0 tr = Some (-1, tr') \<and> tx_open tr'"
proof -
  have "d \<noteq> ''BEGIN'' \<and> d \<noteq> ''COMMIT'' \<and> d \<noteq> ''ROLLBACK''"
    using assms(2) by (auto simp: sql_delete_def bind_eq_Some_conv dest!: statement_prefix split: option.splits)
  with assms show ?thesis by (simp add: sql_db_del_def exec_only_result exec_done_def)
qed

end
