(* ===== verification/Counter.thy ===== *)
theory Counter
  imports World
begin

section \<open>Counters of messages (modules/counter.c)\<close>

text \<open>
  \<open>src/src/modules/counter.c\<close> counts the messages that were let through, per relay, per origin, per
  origin and sender domain, and per origin, sender and recipient. Each counter is a database table of
  its own: \<open>D\<close> gives the driver of a table and \<open>H\<close> its handle, by the name of the table; the operations
  on one table work on a world whose handle is that of the table.
\<close>

record counter_cf =
  cf_counter_expire_low :: int
  cf_counter_expire_high :: int
  cf_counter_threshold :: int

definition KEYLEN :: nat where "KEYLEN = 128"

text \<open>The four schemes: the keys, then the fields that all have.\<close>

definition counter_keys :: "string \<Rightarrow> string list" where
  "counter_keys name =
     (if name = ''counter_relay'' then [''hostaddr_str'']
      else if name = ''counter_origin'' then [''origin'']
      else if name = ''counter_domain'' then [''origin'', ''envfrom_domain'']
      else [''origin'', ''envfrom_addr'', ''envrcpt_addr''])"

definition counter_numbers :: "string \<Rightarrow> string list" where
  "counter_numbers name = [name @ ''_created'', name @ ''_updated'', name @ ''_expire'', name]"

definition counter_scheme :: "string \<Rightarrow> var option option" where
  "counter_scheme name =
     vlist_scheme name
       (map (\<lambda>k. (k, VT_STRING, VF_KEEPNAME OR VF_KEY)) (counter_keys name) @
        map (\<lambda>n. (n, VT_INT, VF_KEEPNAME)) (counter_numbers name))"

definition counter_tables :: "string list" where
  "counter_tables = [''counter_relay'', ''counter_origin'', ''counter_domain'', ''counter_penpal'']"

text \<open>The stages of the symbols, and whether they are evaluated anew each time.\<close>

definition counter_symbols :: "(string \<times> int \<times> bool) list" where
  "counter_symbols =
     [(''counter_relay'', MS_ANY, False), (''counter_origin'', MS_ANY, False), (''counter_domain'', MS_OFF_ENVFROM, False),
      (''counter_penpal'', MS_OFF_ENVRCPT, True)]"

subsection \<open>Symbols\<close>

definition spec_set_null :: "mailspec \<Rightarrow> string \<Rightarrow> u32 \<Rightarrow> int \<times> mailspec" where
  "spec_set_null m name flags = spec_set_new m VT_INT name None (flags OR VF_KEEPDATA)"

text \<open>
  \<open>counter_lookup\<close>: the counter of pen pals is ambiguous after the first recipients, and is set to \<open>NULL\<close>
  then. After that the function goes on to load the record of the last recipient. \<open>get\<close> reads the
  table of a name.
\<close>

definition counter_lookup ::
  "(string \<Rightarrow> var \<Rightarrow> (int \<times> var option) option) \<Rightarrow> int \<Rightarrow> string \<Rightarrow> mailspec \<Rightarrow> (int \<times> mailspec) option" where
  "counter_lookup get stage name m =
     (let load = (\<lambda>table m. do {
            scheme0 \<leftarrow> counter_scheme table;
            scheme \<leftarrow> scheme0;
            (r, m1) \<leftarrow> dbt_db_load_into_table (get table) scheme m;
            Some (if r \<noteq> 0 then -1 else 0, m1) }) in
      if spec_get m ''hostaddr_str'' = None then
        (case spec_set_null m ''counter_relay'' VF_KEEPNAME of
           (r, m1) \<Rightarrow>
             if r \<noteq> 0 then Some (-1, m1)
             else (case spec_set_null m1 ''counter_penpal'' VF_KEEPNAME of (r1, m2) \<Rightarrow> Some (if r1 \<noteq> 0 then -1 else 0, m2)))
      else if name = ''counter_penpal'' then
        (if stage = MS_ENVRCPT then load ''counter_penpal'' m
         else
           (case spec_get m ''recipients'' of
              None \<Rightarrow> Some (-1, m)
            | d \<Rightarrow>
                do {
                  n \<leftarrow> as_int d;
                  if n = 1 then load ''counter_penpal'' m
                  else
                    (case spec_set_new m VT_INT name None VF_COPYNAME of
                       (r, m1) \<Rightarrow> if r \<noteq> 0 then Some (-1, m1) else load ''counter_penpal'' m1) }))
      else if name = ''counter_origin'' then load ''counter_origin'' m
      else if name = ''counter_domain'' then load ''counter_domain'' m
      else load ''counter_relay'' m)"

subsection \<open>New records\<close>

text \<open>
  \<open>counter_add_key\<close>, \<open>counter_add_domain\<close> and \<open>counter_add_penpal\<close> differ in the attributes that are
  the key.
\<close>

definition counter_add :: "counter_cf \<Rightarrow> string list \<Rightarrow> 'h env \<Rightarrow> var \<Rightarrow> 'h world \<Rightarrow> (int \<times> 'h world) option" where
  "counter_add cf keys E scheme w =
     (case spec_dereference (w_spec w) (keys @ [''received'']) of
        (n, ds) \<Rightarrow>
          if n \<noteq> int (length keys) + 1 then Some (-1, w)
          else
            do {
              received \<leftarrow> as_int (last ds);
              r \<leftarrow> vlist_record scheme (butlast ds @ map (Some \<circ> DInt)
                [received, received, wrap64 (received + cf_counter_expire_low cf), 1]);
              (case r of
                 None \<Rightarrow> Some (-1, w)
               | Some record0 \<Rightarrow> do { (r, w1) \<leftarrow> dbt_db_set E w record0; Some (if r \<noteq> 0 then -1 else 0, w1) }) })"

definition counter_add_key :: "counter_cf \<Rightarrow> string \<Rightarrow> 'h env \<Rightarrow> var \<Rightarrow> 'h world \<Rightarrow> (int \<times> 'h world) option" where
  "counter_add_key cf key = counter_add cf [key]"

definition counter_add_relay :: "counter_cf \<Rightarrow> 'h env \<Rightarrow> var \<Rightarrow> 'h world \<Rightarrow> (int \<times> 'h world) option" where
  "counter_add_relay cf = counter_add_key cf ''hostaddr_str''"

definition counter_add_origin :: "counter_cf \<Rightarrow> 'h env \<Rightarrow> var \<Rightarrow> 'h world \<Rightarrow> (int \<times> 'h world) option" where
  "counter_add_origin cf = counter_add_key cf ''origin''"

definition counter_add_domain :: "counter_cf \<Rightarrow> 'h env \<Rightarrow> var \<Rightarrow> 'h world \<Rightarrow> (int \<times> 'h world) option" where
  "counter_add_domain cf = counter_add cf [''origin'', ''envfrom_domain'']"

definition counter_add_penpal :: "counter_cf \<Rightarrow> 'h env \<Rightarrow> var \<Rightarrow> 'h world \<Rightarrow> (int \<times> 'h world) option" where
  "counter_add_penpal cf = counter_add cf [''origin'', ''envfrom_addr'', ''envrcpt_addr'']"

subsection \<open>Updates\<close>

text \<open>\<open>vlist_record_keys_missing\<close> on the attributes: names that are there, whatever their values.\<close>

definition spec_keys_missing :: "var \<Rightarrow> mailspec \<Rightarrow> int option" where
  "spec_keys_missing record0 m =
     do {
       xs \<leftarrow> vlist_items record0;
       Some (if \<exists>v \<in> set (visible xs). has_flag (v_flags v) VF_KEY \<and> m (v_key v) = None then -1 else 0) }"

text \<open>A number of a record is changed in place: the first field of that name.\<close>

fun put_field :: "string \<Rightarrow> int \<Rightarrow> var option list \<Rightarrow> var option list" where
  "put_field key i (Some v # xs) =
     (if v_name v = Some key then Some (Var (v_type v) (v_name v) (Some (DInt i)) (v_flags v)) # xs else Some v # put_field key i xs)"
| "put_field key i xs = xs"

definition record_put :: "var \<Rightarrow> string \<Rightarrow> int \<Rightarrow> var option" where
  "record_put record0 key i =
     do { xs \<leftarrow> vlist_items record0;
          Some (Var (v_type record0) (v_name record0) (Some (DList (put_field key i xs))) (v_flags record0)) }"

text \<open>The count is read for a message to the log before the fields are known to be there.\<close>

definition counter_update_record ::
  "counter_cf \<Rightarrow> 'h env \<Rightarrow> var \<Rightarrow> string \<Rightarrow> ('h env \<Rightarrow> var \<Rightarrow> 'h world \<Rightarrow> (int \<times> 'h world) option) \<Rightarrow> 'h world \<Rightarrow>
    (int \<times> 'h world) option" where
  "counter_update_record cf E scheme prefix add w =
     do {
       missing \<leftarrow> spec_keys_missing scheme (w_spec w);
       if missing \<noteq> 0 then Some (0, w)
       else if length (prefix @ ''_updated'') \<ge> KEYLEN \<or> length (prefix @ ''_expire'') \<ge> KEYLEN then Some (-1, w)
       else
         do {
           (r, result) \<leftarrow> dbt_db_get_from_table (dbt_db_get E w) scheme (w_spec w);
           if r \<noteq> 0 then Some (-1, w)
           else
             (case result of
                None \<Rightarrow> add E scheme w
              | Some record0 \<Rightarrow>
                  (case spec_get (w_spec w) ''received'' of
                     None \<Rightarrow> Some (-1, w)
                   | Some t \<Rightarrow>
                       do {
                         received \<leftarrow> as_int (Some t);
                         updated \<leftarrow> vlist_record_get record0 (prefix @ ''_updated'');
                         expire \<leftarrow> vlist_record_get record0 (prefix @ ''_expire'');
                         c \<leftarrow> vlist_record_get record0 prefix;
                         count \<leftarrow> as_int c;
                         if updated = None \<or> expire = None then Some (-1, w)
                         else
                           (let count1 = wrap64 (count + 1) in
                            do {
                              r1 \<leftarrow> record_put record0 (prefix @ ''_updated'') received;
                              r2 \<leftarrow> record_put r1 prefix count1;
                              r3 \<leftarrow> record_put r2 (prefix @ ''_expire'') (wrap64 (received +
                                (if count1 > cf_counter_threshold cf then cf_counter_expire_high cf else cf_counter_expire_low cf)));
                              (r, w1) \<leftarrow> dbt_db_set E w r3;
                              Some (if r \<noteq> 0 then -1 else wrap32 count1, w1) }) })) } }"

text \<open>\<open>counter_update\<close>: one table after the other, until one fails.\<close>

fun update_tables ::
  "counter_cf \<Rightarrow> (string \<Rightarrow> 'h env) \<Rightarrow> (string \<times> ('h env \<Rightarrow> var \<Rightarrow> 'h world \<Rightarrow> (int \<times> 'h world) option)) list \<Rightarrow>
    (string \<Rightarrow> 'h) \<Rightarrow> 'h world \<Rightarrow> (int \<times> (string \<Rightarrow> 'h) \<times> 'h world) option" where
  "update_tables cf D [] H w = Some (0, H, w)"
| "update_tables cf D ((name, add) # tables) H w =
     do {
       scheme0 \<leftarrow> counter_scheme name;
       scheme \<leftarrow> scheme0;
       (count, w1) \<leftarrow> counter_update_record cf (D name) scheme name add (w\<lparr>w_db := H name\<rparr>);
       if count = -1 then Some (-1, H(name := w_db w1), w1)
       else update_tables cf D tables (H(name := w_db w1)) w1 }"

definition counter_update ::
  "counter_cf \<Rightarrow> (string \<Rightarrow> 'h env) \<Rightarrow> int \<Rightarrow> acl_action_type \<Rightarrow> (string \<Rightarrow> 'h) \<Rightarrow> 'h world \<Rightarrow>
    (int \<times> (string \<Rightarrow> 'h) \<times> 'h world) option" where
  "counter_update cf D stage action H w =
     (if action \<notin> {ACL_ACCEPT, ACL_CONTINUE, ACL_NONE} then Some (0, H, w)
      else if action \<noteq> ACL_ACCEPT \<and> stage \<noteq> MS_EOM then Some (0, H, w)
      else if spec_get (w_spec w) ''hostaddr_str'' = None then Some (0, H, w)
      else update_tables cf D
        [(''counter_relay'', counter_add_relay cf), (''counter_origin'', counter_add_origin cf),
         (''counter_domain'', counter_add_domain cf), (''counter_penpal'', counter_add_penpal cf)] H w)"

end
