(* ===== verification/Counter_Spec.thy ===== *)
theory Counter_Spec
  imports Counter Memdb
begin

section \<open>What counters count\<close>

text \<open>
  The table of a counter as a map from its key fields to four numbers, over any driver that keeps the
  contract of \<open>record_store\<close>; \<open>counter_update\<close> refines one step on these maps.
\<close>

record ctuple =
  ct_created :: int
  ct_updated :: int
  ct_expire :: int
  ct_count :: int

definition ct_data :: "ctuple \<Rightarrow> vdata option list" where
  "ct_data t = map (Some \<circ> DInt) [ct_created t, ct_updated t, ct_expire t, ct_count t]"

definition ct_ok :: "ctuple \<Rightarrow> bool" where
  "ct_ok t \<longleftrightarrow> list_all i64 [ct_created t, ct_updated t, ct_expire t, ct_count t]"

text \<open>One more message at the time \<open>received\<close>.\<close>

definition bump :: "counter_cf \<Rightarrow> int \<Rightarrow> ctuple option \<Rightarrow> ctuple" where
  "bump cf received old =
     (case old of
        None \<Rightarrow> \<lparr>ct_created = received, ct_updated = received, ct_expire = wrap64 (received + cf_counter_expire_low cf), ct_count = 1\<rparr>
      | Some t \<Rightarrow>
          (let n = wrap64 (ct_count t + 1) in
           t\<lparr>ct_updated := received, ct_count := n,
             ct_expire := wrap64 (received + (if n > cf_counter_threshold cf then cf_counter_expire_high cf else cf_counter_expire_low cf))\<rparr>))"

subsection \<open>Rows\<close>

definition key_row :: "u32 \<Rightarrow> string \<Rightarrow> string list \<Rightarrow> var list" where
  "key_row kf name ks = map2 (\<lambda>n k. Var VT_STRING (Some n) (Some (DString k)) kf) (counter_keys name) ks"

definition number_row :: "u32 \<Rightarrow> string \<Rightarrow> vdata option list \<Rightarrow> var list" where
  "number_row f name ds = map2 (\<lambda>n d. Var VT_INT (Some n) d f) (counter_numbers name) ds"

definition crow :: "u32 \<Rightarrow> u32 \<Rightarrow> string \<Rightarrow> string list \<Rightarrow> vdata option list \<Rightarrow> var list" where
  "crow kf f name ks ds = key_row kf name ks @ number_row f name ds"

definition counter_ss :: "string \<Rightarrow> var list" where
  "counter_ss name = map (\<lambda>k. Var VT_STRING (Some k) None (VF_KEEPNAME OR VF_KEY)) (counter_keys name) @
     map (\<lambda>n. Var VT_INT (Some n) None VF_KEEPNAME) (counter_numbers name)"

definition keys_ok :: "string \<Rightarrow> string list \<Rightarrow> bool" where
  "keys_ok name ks \<longleftrightarrow> length ks = length (counter_keys name) \<and> (\<forall>s \<in> set ks. CHR 0x00 \<notin> set s) \<and>
     sum_list (map (Suc \<circ> length) ks) < 2 ^ 31"

lemma length_counter_keys: "length (counter_keys name) \<le> 3"
  by (simp add: counter_keys_def)

lemma counter_scheme_eq: "counter_scheme name = Some (Some (record_of (Some name) 17 (counter_ss name)))"
proof -
  have list: "vlist_create (Some name) VF_COPYNAME = Some (record_of (Some name) 17 [])"
    by (simp add: vlist_create_def var_create_def var_init_def var_data_init_def sanitize_def has_flag_def vf_defs record_of_def)
  have kept: "var_create t n d (VF_KEEPNAME OR VF_KEY) = Some (Var t n d (VF_KEEPNAME OR VF_KEY))"
    "var_create t n d VF_KEEPNAME = Some (Var t n d VF_KEEPNAME)" for t n d
    by (intro create_kept; simp add: sanitize_def has_flag_def vf_defs)+
  show ?thesis
    unfolding counter_scheme_def vlist_scheme_def list option.case
    by (subst append_all_kept) (auto simp: kept counter_ss_def comp_def)
qed

lemma names_apart:
  assumes "name \<in> set counter_tables"
  shows "n \<in> set (counter_numbers name) \<Longrightarrow> n \<notin> set (counter_keys name)"
proof -
  have "\<forall>name \<in> set counter_tables. \<forall>n \<in> set (counter_numbers name). n \<notin> set (counter_keys name)" by code_simp
  with assms show "n \<in> set (counter_numbers name) \<Longrightarrow> n \<notin> set (counter_keys name)" by blast
qed

lemma key_row_names: "v \<in> set (key_row kf name ks) \<Longrightarrow> \<exists>n \<in> set (counter_keys name). v_name v = Some n"
  by (auto simp: key_row_def dest: set_zip_leftD)

lemma number_row_eq:
  "number_row f name [a, b, c, d] =
     [Var VT_INT (Some (name @ ''_created'')) a f, Var VT_INT (Some (name @ ''_updated'')) b f,
      Var VT_INT (Some (name @ ''_expire'')) c f, Var VT_INT (Some name) d f]"
  by (simp add: number_row_def counter_numbers_def)

lemma list_all2_zip_map:
  assumes "length xs = length ys" and "\<And>x y. P (f x) (g x y)"
  shows "list_all2 P (map f xs) (map2 g xs ys)"
  using assms by (auto simp: list_all2_conv_all_nth)

lemma crow_same_fields:
  assumes "keyed kf f" and "length ks = length (counter_keys name)" and "length ds = 4"
  shows "list_all2 same_field (counter_ss name) (crow kf f name ks ds)"
  unfolding counter_ss_def crow_def key_row_def number_row_def
  by (intro list_all2_appendI list_all2_zip_map)
    (use assms in \<open>auto simp: same_field_def is_key_def keyed_def has_flag_def vf_defs counter_numbers_def\<close>)

lemma crow_keys:
  assumes "keyed kf f" and "length ks = length (counter_keys name)"
  shows "map v_data (filter is_key (crow kf f name ks ds)) = map (Some \<circ> DString) ks"
proof -
  have "filter is_key (key_row kf name ks) = key_row kf name ks" "filter is_key (number_row f name ds) = []"
    using assms(1) by (auto simp: key_row_def number_row_def keyed_def is_key_def filter_id_conv filter_empty_conv)
  moreover have "map v_data (key_row kf name ks) = map (Some \<circ> DString) ks"
    using assms(2) by (intro nth_equalityI) (simp_all add: key_row_def)
  ultimately show ?thesis by (simp add: crow_def)
qed

lemma crow_conforms:
  assumes "keyed kf f" and "keys_ok name ks" and "length is = 4" and "\<forall>i \<in> set is. case i of None \<Rightarrow> True | Some i \<Rightarrow> i64 i"
  shows "conforms L (counter_ss name) (crow kf f name ks (map (map_option DInt) is))"
proof -
  have len: "length ks = length (counter_keys name)" using assms(2) by (simp add: keys_ok_def)
  have "length s < 2 ^ 31 - 1" if "s \<in> set ks" for s
    using member_le_sum_list [of "Suc (length s)" "map (Suc \<circ> length) ks"] that assms(2) by (fastforce simp: keys_ok_def)
  with assms(2) have "field_ok L v" if "v \<in> set (key_row kf name ks)" for v
    using that by (auto simp: key_row_def keys_ok_def field_ok_def storable_def dest: set_zip_rightD)
  moreover have "field_ok L v" if "v \<in> set (number_row f name (map (map_option DInt) is))" for v
  proof -
    from that obtain n i where "v = Var VT_INT (Some n) (map_option DInt i) f" "i \<in> set is"
      by (auto simp: number_row_def dest!: set_zip_rightD)
    with assms(1,4) show ?thesis by (cases i) (auto simp: field_ok_def is_key_def keyed_def storable_def)
  qed
  moreover have short: "length (crow kf f name ks (map (map_option DInt) is)) \<le> 64"
    using len assms(3) length_counter_keys [of name] by (simp add: crow_def key_row_def number_row_def counter_numbers_def)
  moreover have "length (key_bytes L (crow kf f name ks (map (map_option DInt) is))) < 2 ^ 31"
    using assms(2) by (simp add: key_bytes_data crow_keys [OF assms(1) len] keys_ok_def length_concat comp_def)
  then have "vp_fits L (crow kf f name ks (map (map_option DInt) is))"
    using assms(1) short by (intro ints_fit) (auto simp: crow_def key_row_def number_row_def is_key_def keyed_def dest!: set_zip_rightD)
  ultimately show ?thesis
    using crow_same_fields [OF assms(1) len, of "map (map_option DInt) is"] assms(3) by (auto simp: conforms_def crow_def)
qed

lemma crow_unpacked: "keyed kf f \<Longrightarrow> map unpacked (crow kf f name ks ds) = crow (VF_COPY OR VF_KEY) VF_COPY name ks ds"
  by (auto simp: crow_def key_row_def number_row_def unpacked_def is_key_def keyed_def)

subsection \<open>Tables as maps\<close>

abbreviation KEY_FLAGS :: u32 where "KEY_FLAGS \<equiv> VF_COPY OR VF_KEY"

lemma counter_keyed_flags [simp]: "keyed KEY_FLAGS VF_COPY" "keyed (VF_COPY OR VF_KEY OR VF_KEEPDATA) VF_COPY"
    "keyed (record_flags (VF_KEEPNAME OR VF_KEY)) (record_flags VF_KEEPNAME)"
  by (simp_all add: keyed_def has_flag_def vf_defs record_flags_def)

definition counter_key :: "libc \<Rightarrow> string \<Rightarrow> string list \<Rightarrow> byte list" where
  "counter_key L name ks = key_bytes L (crow KEY_FLAGS VF_COPY name ks (replicate 4 None))"

definition read_counter :: "string \<Rightarrow> var list \<Rightarrow> ctuple option" where
  "read_counter name vs =
     do {
       is \<leftarrow> those (map (as_int \<circ> v_data) (drop (length (counter_keys name)) vs));
       (case is of
          [a, b, c, d] \<Rightarrow> Some \<lparr>ct_created = a, ct_updated = b, ct_expire = c, ct_count = d\<rparr>
        | _ \<Rightarrow> None) }"

definition stored_row :: "string \<Rightarrow> string list \<Rightarrow> ctuple \<Rightarrow> var list" where
  "stored_row name ks t = crow KEY_FLAGS VF_COPY name ks (ct_data t)"

definition counts :: "libc \<Rightarrow> ('h \<Rightarrow> byte list \<rightharpoonup> var list) \<Rightarrow> string \<Rightarrow> 'h \<Rightarrow> string list \<rightharpoonup> ctuple" where
  "counts L stored name h ks =
     (if keys_ok name ks then do { vs \<leftarrow> stored h (counter_key L name ks); read_counter name vs } else None)"

definition counter_rows :: "libc \<Rightarrow> ('h \<Rightarrow> byte list \<rightharpoonup> var list) \<Rightarrow> string \<Rightarrow> 'h \<Rightarrow> bool" where
  "counter_rows L stored name h \<longleftrightarrow>
     (\<forall>ks vs. keys_ok name ks \<longrightarrow> stored h (counter_key L name ks) = Some vs \<longrightarrow> (\<exists>t. ct_ok t \<and> vs = stored_row name ks t))"

lemma read_stored_row: "keys_ok name ks \<Longrightarrow> read_counter name (stored_row name ks t) = Some t"
  by (simp add: read_counter_def stored_row_def crow_def key_row_def keys_ok_def ct_data_def number_row_eq as_int_def)

lemma counter_lookup_conforms: "keyed kf f \<Longrightarrow> keys_ok name ks \<Longrightarrow> conforms L (counter_ss name) (crow kf f name ks (replicate 4 None))"
  using crow_conforms [of kf f name ks "replicate 4 None"] by simp

lemma data_conforms: "keyed kf f \<Longrightarrow> keys_ok name ks \<Longrightarrow> ct_ok t \<Longrightarrow> conforms L (counter_ss name) (crow kf f name ks (ct_data t))"
  using crow_conforms [of kf f name ks "map Some [ct_created t, ct_updated t, ct_expire t, ct_count t]"]
  by (simp add: ct_data_def ct_ok_def)

lemma counter_key_eq:
  assumes "keys_ok name ks" and "keyed kf f"
  shows "key_bytes L (crow kf f name ks (replicate 4 None)) = counter_key L name ks"
    and "ct_ok t \<Longrightarrow> key_bytes L (crow kf f name ks (ct_data t)) = counter_key L name ks"
proof -
  have len: "length ks = length (counter_keys name)" using assms(1) by (simp add: keys_ok_def)
  note l = counter_lookup_conforms [OF counter_keyed_flags(1) assms(1)]
  show "key_bytes L (crow kf f name ks (replicate 4 None)) = counter_key L name ks"
    unfolding counter_key_def key_bytes_fields [OF counter_lookup_conforms [OF assms(2,1)] l]
      crow_keys [OF assms(2) len] crow_keys [OF counter_keyed_flags(1) len] ..
  show "key_bytes L (crow kf f name ks (ct_data t)) = counter_key L name ks" if "ct_ok t"
    unfolding counter_key_def key_bytes_fields [OF data_conforms [OF assms(2,1) that] l]
      crow_keys [OF assms(2) len] crow_keys [OF counter_keyed_flags(1) len] ..
qed

lemma counter_key_inj:
  assumes "keys_ok name ks" and "keys_ok name ks'"
  shows "counter_key L name ks = counter_key L name ks' \<longleftrightarrow> ks = ks'"
proof -
  have len: "length ks = length (counter_keys name)" "length ks' = length (counter_keys name)"
    using assms by (simp_all add: keys_ok_def)
  have "inj (Some \<circ> DString)" by (auto intro: injI)
  then show ?thesis
    unfolding counter_key_def key_bytes_fields [OF counter_lookup_conforms [OF counter_keyed_flags(1) assms(1)] counter_lookup_conforms [OF counter_keyed_flags(1) assms(2)]]
      crow_keys [OF counter_keyed_flags(1) len(1)] crow_keys [OF counter_keyed_flags(1) len(2)]
    by (simp add: inj_map_eq_map)
qed

subsection \<open>Attributes, fields in place\<close>

definition has_keys :: "mailspec \<Rightarrow> string \<Rightarrow> string list \<Rightarrow> bool" where
  "has_keys m name ks \<longleftrightarrow> map (spec_get m) (counter_keys name) = map (Some \<circ> DString) ks"

lemma lookup_numbers:
  "lookup_fields m (map (\<lambda>n. Var VT_INT (Some n) None VF_KEEPNAME) ns) =
     Some (Some (map (\<lambda>n. Some (Var VT_INT (Some n) None VF_COPY)) ns))"
  by (induction ns) (simp_all add: has_flag_def vf_defs)

lemma lookup_keys:
  assumes "map (spec_get m) ns = map (Some \<circ> DString) ks" and "lookup_fields m rest = Some (Some vs)"
  shows "lookup_fields m (map (\<lambda>k. Var VT_STRING (Some k) None (VF_KEEPNAME OR VF_KEY)) ns @ rest) =
    Some (Some (map Some (map2 (\<lambda>n k. Var VT_STRING (Some n) (Some (DString k)) (VF_COPY OR VF_KEY OR VF_KEEPDATA)) ns ks) @ vs))"
  using assms
proof (induction ns arbitrary: ks)
  case (Cons n ns)
  then obtain k ks' where k: "ks = k # ks'" "spec_get m n = Some (DString k)" "map (spec_get m) ns = map (Some \<circ> DString) ks'"
    by (auto simp: Cons_eq_map_conv)
  from Cons.IH [OF k(3) Cons.prems(2)] k(1,2) show ?case by (simp add: has_flag_def vf_defs)
qed simp

lemma lookup_crow:
  assumes "has_keys m name ks"
  shows "lookup_fields m (counter_ss name) =
    Some (Some (map Some (crow (VF_COPY OR VF_KEY OR VF_KEEPDATA) VF_COPY name ks (replicate 4 None))))"
proof -
  have "map (\<lambda>n. Some (Var VT_INT (Some n) None VF_COPY)) (counter_numbers name) = map Some (number_row VF_COPY name (replicate 4 None))"
    by (simp add: number_row_def counter_numbers_def numeral_eq_Suc)
  with lookup_keys [OF assms [unfolded has_keys_def] lookup_numbers] show ?thesis
    by (simp add: counter_ss_def crow_def key_row_def)
qed

lemma put_field_skip:
  "(\<And>v. v \<in> set vs \<Longrightarrow> v_name v \<noteq> Some key) \<Longrightarrow> put_field key i (map Some vs @ xs) = map Some vs @ put_field key i xs"
  by (induction vs) auto

lemma lookup_in_skip:
  "(\<And>v. v \<in> set vs \<Longrightarrow> v_name v \<noteq> Some key) \<Longrightarrow> vlist_record_lookup_in (vs @ ws) key = vlist_record_lookup_in ws key"
  by (induction vs) auto

lemma crow_fields:
  assumes "name \<in> set counter_tables"
  shows "vlist_record_get (record_of n g (crow kf f name ks (ct_data t))) (name @ ''_updated'') = Some (Some (DInt (ct_updated t)))"
    and "vlist_record_get (record_of n g (crow kf f name ks (ct_data t))) (name @ ''_expire'') = Some (Some (DInt (ct_expire t)))"
    and "vlist_record_get (record_of n g (crow kf f name ks (ct_data t))) name = Some (Some (DInt (ct_count t)))"
    and "record_put (record_of n g (crow kf f name ks (ct_data t))) (name @ ''_updated'') i =
      Some (record_of n g (crow kf f name ks (ct_data (t\<lparr>ct_updated := i\<rparr>))))"
    and "record_put (record_of n g (crow kf f name ks (ct_data t))) (name @ ''_expire'') i =
      Some (record_of n g (crow kf f name ks (ct_data (t\<lparr>ct_expire := i\<rparr>))))"
    and "record_put (record_of n g (crow kf f name ks (ct_data t))) name i =
      Some (record_of n g (crow kf f name ks (ct_data (t\<lparr>ct_count := i\<rparr>))))"
proof -
  have skip: "v_name v \<noteq> Some key" if "v \<in> set (key_row kf name ks)" "key \<in> set (counter_numbers name)" for v key
    using key_row_names [OF that(1)] names_apart [OF assms that(2)] by auto
  have num: "name @ ''_updated'' \<in> set (counter_numbers name)" "name @ ''_expire'' \<in> set (counter_numbers name)" "name \<in> set (counter_numbers name)"
    by (simp_all add: counter_numbers_def)
  have vis: "visible (map Some vs @ xs) = vs @ visible xs" for vs xs by (induction vs) simp_all
  note d = vlist_record_get_def vlist_record_lookup_def record_put_def record_of_def vlist_items_def vis crow_def ct_data_def number_row_eq
    lookup_in_skip [OF skip [OF _ num(1)]] lookup_in_skip [OF skip [OF _ num(2)]] lookup_in_skip [OF skip [OF _ num(3)]]
    put_field_skip [OF skip [OF _ num(1)]] put_field_skip [OF skip [OF _ num(2)]] put_field_skip [OF skip [OF _ num(3)]]
  show "vlist_record_get (record_of n g (crow kf f name ks (ct_data t))) (name @ ''_updated'') = Some (Some (DInt (ct_updated t)))"
    "vlist_record_get (record_of n g (crow kf f name ks (ct_data t))) (name @ ''_expire'') = Some (Some (DInt (ct_expire t)))"
    "vlist_record_get (record_of n g (crow kf f name ks (ct_data t))) name = Some (Some (DInt (ct_count t)))"
    "record_put (record_of n g (crow kf f name ks (ct_data t))) (name @ ''_updated'') i =
      Some (record_of n g (crow kf f name ks (ct_data (t\<lparr>ct_updated := i\<rparr>))))"
    "record_put (record_of n g (crow kf f name ks (ct_data t))) (name @ ''_expire'') i =
      Some (record_of n g (crow kf f name ks (ct_data (t\<lparr>ct_expire := i\<rparr>))))"
    "record_put (record_of n g (crow kf f name ks (ct_data t))) name i =
      Some (record_of n g (crow kf f name ks (ct_data (t\<lparr>ct_count := i\<rparr>))))"
    by (simp_all add: d)
qed

subsection \<open>One table\<close>

lemma bump_ok: "i64 received \<Longrightarrow> (\<And>t. old = Some t \<Longrightarrow> ct_ok t) \<Longrightarrow> ct_ok (bump cf received old)"
  by (cases old) (auto simp: bump_def ct_ok_def Let_def i64_def [of 1])

lemma spec_dereference_keys:
  assumes "has_keys m name ks" and "spec_get m ''received'' = Some (DInt received)"
  shows "spec_dereference m (counter_keys name @ [''received'']) =
    (int (length (counter_keys name)) + 1, map (Some \<circ> DString) ks @ [Some (DInt received)])"
proof -
  have "length (counter_keys name) = length ks" using assms(1) by (metis has_keys_def length_map)
  with assms show ?thesis by (simp add: spec_dereference_def has_keys_def Let_def)
qed

lemma counter_record:
  assumes "length ks = length (counter_keys name)"
  shows "vlist_record (record_of (Some name) 17 (counter_ss name)) (map (Some \<circ> DString) ks @ ct_data t) =
    Some (Some (record_of (Some name) 20 (crow (record_flags (VF_KEEPNAME OR VF_KEY)) (record_flags VF_KEEPNAME) name ks (ct_data t))))"
proof -
  let ?kf = "record_flags (VF_KEEPNAME OR VF_KEY)" and ?f = "record_flags VF_KEEPNAME"
  have list: "vlist_create (Some name) VF_KEEPNAME = Some (record_of (Some name) 20 [])"
    by (simp add: vlist_create_def var_create_def var_init_def var_data_init_def sanitize_def has_flag_def vf_defs record_of_def)
  have kept: "var_create ty n d ?kf = Some (Var ty n d ?kf)" "var_create ty n d ?f = Some (Var ty n d ?f)" for ty n d
    by (intro create_kept; simp add: sanitize_def has_flag_def vf_defs record_flags_def)+
  let ?args = "map2 (\<lambda>v d. (v_type v, v_name v, d, record_flags (v_flags v))) (counter_ss name) (map (Some \<circ> DString) ks @ ct_data t)"
  have len: "length (ct_data t) = length (counter_numbers name)" by (simp add: ct_data_def counter_numbers_def)
  have args: "?args = map2 (\<lambda>n k. (VT_STRING, Some n, Some (DString k), ?kf)) (counter_keys name) ks @
      map2 (\<lambda>n d. (VT_INT, Some n, d, ?f)) (counter_numbers name) (ct_data t)"
    unfolding counter_ss_def using assms len by (simp add: zip_append zip_map1 zip_map2 comp_def case_prod_unfold)
  have "append_all (record_of (Some name) 20 []) ?args =
      Some (Some (record_of (Some name) 20 ([] @ map (\<lambda>(ty, n, d, f). Var ty n d f) ?args)))"
    by (rule append_all_kept) (auto simp: args kept)
  also have "map (\<lambda>(ty, n, d, f). Var ty n d f) ?args = crow ?kf ?f name ks (ct_data t)"
    unfolding args by (simp add: crow_def key_row_def number_row_def comp_def case_prod_unfold)
  finally have "append_all (record_of (Some name) 20 []) ?args = Some (Some (record_of (Some name) 20 (crow ?kf ?f name ks (ct_data t))))"
    unfolding append_Nil .
  moreover have "length (counter_ss name) = length ks + length (ct_data t)" by (simp add: counter_ss_def assms len)
  moreover have "visible (map Some vs) = vs" for vs by (induction vs) simp_all
  ultimately show ?thesis
    unfolding vlist_record_def by (simp add: record_of_def vlist_items_def list [unfolded record_of_def])
qed

locale counter_store =
  record_store L "Some name" "counter_ss name" "dd_get (e_driver E)" "dd_set (e_driver E)" "dd_del (e_driver E)" ok room stored
  for L :: libc and name and E :: "'h env" and ok room stored
begin

lemma get_row:
  assumes "ok h" and "counter_rows L stored name h" and "keys_ok name ks"
  shows "dd_get (e_driver E) h (record_of n g (crow (VF_COPY OR VF_KEY OR VF_KEEPDATA) VF_COPY name ks (replicate 4 None))) =
      Some (0, map_option (\<lambda>t. record_of (Some name) (VF_COPYNAME OR VF_CREATE) (stored_row name ks t)) (counts L stored name h ks))"
    and "counts L stored name h ks = Some t \<Longrightarrow> ct_ok t"
proof -
  have "stored h (counter_key L name ks) = map_option (stored_row name ks) (counts L stored name h ks) \<and>
      (\<forall>t. counts L stored name h ks = Some t \<longrightarrow> ct_ok t)"
  proof (cases "stored h (counter_key L name ks)")
    case (Some vs)
    then obtain t where "ct_ok t" "vs = stored_row name ks t" using assms(2,3) unfolding counter_rows_def by blast
    with Some assms(3) show ?thesis by (simp add: counts_def read_stored_row)
  qed (simp add: counts_def)
  then show "counts L stored name h ks = Some t \<Longrightarrow> ct_ok t"
    and "dd_get (e_driver E) h (record_of n g (crow (VF_COPY OR VF_KEY OR VF_KEEPDATA) VF_COPY name ks (replicate 4 None))) =
      Some (0, map_option (\<lambda>t. record_of (Some name) (VF_COPYNAME OR VF_CREATE) (stored_row name ks t)) (counts L stored name h ks))"
    unfolding get [OF assms(1) counter_lookup_conforms [OF counter_keyed_flags(2) assms(3)]] counter_key_eq(1) [OF assms(3) counter_keyed_flags(2)]
    by (simp_all add: option.map_comp comp_def)
qed

lemma set_row:
  assumes "ok h" and "counter_rows L stored name h" and "room (Suc n) h" and "keys_ok name ks" and "ct_ok t" and "keyed kf f"
  shows "\<exists>h'. dd_set (e_driver E) h (record_of nm g (crow kf f name ks (ct_data t))) = Some (0, h') \<and>
    ok h' \<and> counter_rows L stored name h' \<and> room n h' \<and> counts L stored name h' = (counts L stored name h)(ks \<mapsto> t)"
proof -
  let ?vs = "crow kf f name ks (ct_data t)"
  have key: "key_bytes L ?vs = counter_key L name ks" by (rule counter_key_eq(2) [OF assms(4,6,5)])
  have un: "map unpacked ?vs = stored_row name ks t" unfolding stored_row_def by (rule crow_unpacked [OF assms(6)])
  from set [OF assms(1,3) data_conforms [OF assms(6,4,5)]] obtain h' where
    h': "dd_set (e_driver E) h (record_of nm g ?vs) = Some (0, h')" "ok h'" "room n h'"
      "stored h' = (stored h)(counter_key L name ks \<mapsto> stored_row name ks t)"
    unfolding key un by blast
  have look: "stored h' (counter_key L name ks') = (if ks' = ks then Some (stored_row name ks t) else stored h (counter_key L name ks'))"
    if "keys_ok name ks'" for ks'
    using counter_key_inj [OF that assms(4)] by (simp add: h'(4))
  have "counter_rows L stored name h'" using assms(2,5) unfolding counter_rows_def by (metis look option.inject)
  moreover have "counts L stored name h' = (counts L stored name h)(ks \<mapsto> t)"
    using assms(4) by (auto simp: counts_def look fun_eq_iff read_stored_row)
  ultimately show ?thesis using h' by blast
qed

lemma update_record:
  assumes counter: "name \<in> set counter_tables"
    and db: "ok (w_db w)" "counter_rows L stored name (w_db w)" "room (Suc n) (w_db w)"
    and keys: "keys_ok name ks" and attrs: "has_keys (w_spec w) name ks"
    and received: "spec_get (w_spec w) ''received'' = Some (DInt received)" "i64 received"
    and small: "\<And>t. counts L stored name (w_db w) ks = Some t \<Longrightarrow> 0 \<le> ct_count t \<and> ct_count t < 2 ^ 31 - 1"
  shows "\<exists>r w'. counter_update_record cf E (record_of (Some name) 17 (counter_ss name)) name (counter_add cf (counter_keys name)) w = Some (r, w') \<and>
    r \<noteq> -1 \<and> w_x w' = w_x w \<and> ok (w_db w') \<and> counter_rows L stored name (w_db w') \<and> room n (w_db w') \<and>
    counts L stored name (w_db w') = (counts L stored name (w_db w))(ks \<mapsto> bump cf received (counts L stored name (w_db w) ks))"
proof -
  let ?scheme = "record_of (Some name) 17 (counter_ss name)" and ?old = "counts L stored name (w_db w) ks"
  let ?new = "bump cf received ?old"
  have vis: "visible (map Some vs) = vs" for vs by (induction vs) simp_all
  have len: "length ks = length (counter_keys name)" using keys by (simp add: keys_ok_def)
  have tok: "ct_ok ?new" by (rule bump_ok [OF received(2)]) (rule get_row(2) [OF db(1,2) keys])
  have store: "\<exists>w'. dbt_db_set E w (record_of nm g (crow kf f name ks (ct_data ?new))) = Some (0, w') \<and> w_x w' = w_x w \<and>
      ok (w_db w') \<and> counter_rows L stored name (w_db w') \<and> room n (w_db w') \<and>
      counts L stored name (w_db w') = (counts L stored name (w_db w))(ks \<mapsto> ?new)" if "keyed kf f" for nm g kf f
    using set_row [OF db keys tok that, of nm g] by (auto simp: dbt_db_set_def Let_def)
  have missing: "spec_keys_missing ?scheme (w_spec w) = Some 0"
  proof -
    have "spec_get (w_spec w) k \<noteq> None" if "k \<in> set (counter_keys name)" for k
      using attrs that unfolding has_keys_def by (metis comp_apply in_set_conv_nth length_map nth_map option.distinct(1))
    moreover have "w_spec w k \<noteq> None" if "spec_get (w_spec w) k \<noteq> None" for k
      using that by (cases "w_spec w k") (simp_all add: spec_get_def)
    ultimately have "w_spec w k \<noteq> None" if "k \<in> set (counter_keys name)" for k using that by blast
    then have "\<forall>v \<in> set (counter_ss name). \<not> (has_flag (v_flags v) VF_KEY \<and> w_spec w (v_key v) = None)"
      by (auto simp: counter_ss_def v_key_def has_flag_def vf_defs)
    then show ?thesis by (auto simp: spec_keys_missing_def record_of_def vlist_items_def vis)
  qed
  have short: "length (name @ ''_updated'') < KEYLEN" "length (name @ ''_expire'') < KEYLEN"
    using counter by (auto simp: counter_tables_def KEYLEN_def)
  have look: "dbt_db_get_from_table (dbt_db_get E w) ?scheme (w_spec w) =
      Some (0, map_option (\<lambda>t. record_of (Some name) (VF_COPYNAME OR VF_CREATE) (stored_row name ks t)) ?old)"
    using get_row(1) [OF db(1,2) keys, of "Some name" VF_COPY]
    by (simp add: dbt_db_get_from_table_def dbt_db_get_def record_of_def vlist_items_def vis lookup_crow [OF attrs])
  show ?thesis
  proof (cases ?old)
    case None
    have new: "ct_data ?new = map (Some \<circ> DInt) [received, received, wrap64 (received + cf_counter_expire_low cf), 1]"
      by (simp add: None bump_def ct_data_def)
    from counter_record [OF len, of ?new] have "vlist_record ?scheme (map (Some \<circ> DString) ks @ map (Some \<circ> DInt)
        [received, received, wrap64 (received + cf_counter_expire_low cf), 1]) =
      Some (Some (record_of (Some name) 20 (crow (record_flags (VF_KEEPNAME OR VF_KEY)) (record_flags VF_KEEPNAME) name ks (ct_data ?new))))"
      unfolding new .
    with store [OF counter_keyed_flags(3), of "Some name" 20] missing short look None show ?thesis
      by (auto simp: counter_update_record_def counter_add_def spec_dereference_keys [OF attrs received(1)] as_int_def)
  next
    case (Some t)
    have count: "wrap32 (wrap64 (ct_count t + 1)) = ct_count t + 1" "wrap32 (wrap64 (ct_count t + 1)) \<noteq> -1"
      using small [OF Some] by (simp_all add: wrap64_id wrap32_id i64_def i32_def)
    have "bump cf received ?old = t\<lparr>ct_updated := received, ct_count := wrap64 (ct_count t + 1),
        ct_expire := wrap64 (received + (if wrap64 (ct_count t + 1) > cf_counter_threshold cf then cf_counter_expire_high cf
          else cf_counter_expire_low cf))\<rparr>"
      by (simp add: Some bump_def Let_def)
    with store [OF counter_keyed_flags(1), of "Some name" "VF_COPYNAME OR VF_CREATE"] missing short look Some count show ?thesis
      by (auto simp: counter_update_record_def received(1) as_int_def stored_row_def crow_fields [OF counter] Let_def)
  qed
qed

end

subsection \<open>All tables, in memory\<close>

definition counter_env :: "libc \<Rightarrow> vp ht env \<Rightarrow> string \<Rightarrow> vp ht env" where
  "counter_env L E name =
     E\<lparr>e_driver := \<lparr>dd_get = memdb_get L (record_of (Some name) 17 (counter_ss name)), dd_set = memdb_set L, dd_del = memdb_del L\<rparr>\<rparr>"

interpretation counter_memdb: counter_store L name "counter_env L E name" "memdb_ok L (counter_ss name)" memdb_room
  "memdb_stored L (counter_ss name)" for L name E
  using memdb.record_store_axioms [of L "Some name" "counter_ss name" 17] by (simp add: counter_store_def counter_env_def)

definition counted :: "libc \<Rightarrow> (string \<Rightarrow> vp ht) \<Rightarrow> string \<Rightarrow> string list \<rightharpoonup> ctuple" where
  "counted L H name = counts L (memdb_stored L (counter_ss name)) name (H name)"

definition table_ok :: "libc \<Rightarrow> nat \<Rightarrow> (string \<Rightarrow> vp ht) \<Rightarrow> string \<Rightarrow> bool" where
  "table_ok L n H name \<longleftrightarrow> memdb_ok L (counter_ss name) (H name) \<and> counter_rows L (memdb_stored L (counter_ss name)) name (H name) \<and>
     memdb_room n (H name)"

text \<open>A message with the attributes that are the keys of a table, and a count that an \<open>int\<close> can hold.\<close>

definition countable :: "libc \<Rightarrow> nat \<Rightarrow> (string \<Rightarrow> vp ht) \<Rightarrow> mailspec \<Rightarrow> (string \<Rightarrow> string list) \<Rightarrow> string \<Rightarrow> bool" where
  "countable L n H m K name \<longleftrightarrow> table_ok L (Suc n) H name \<and> keys_ok name (K name) \<and> has_keys m name (K name) \<and>
     (case counted L H name (K name) of None \<Rightarrow> True | Some t \<Rightarrow> 0 \<le> ct_count t \<and> ct_count t < 2 ^ 31 - 1)"

text \<open>A message that lacks an attribute of the key of a table, such as one that was accepted before its envelope was known.\<close>

definition keyless :: "mailspec \<Rightarrow> string \<Rightarrow> bool" where
  "keyless m name \<longleftrightarrow> (\<exists>k \<in> set (counter_keys name). m k = None)"

text \<open>What a message does to a table: without its key nothing, else its count goes up by one.\<close>

definition counted_once ::
  "libc \<Rightarrow> nat \<Rightarrow> counter_cf \<Rightarrow> int \<Rightarrow> mailspec \<Rightarrow> (string \<Rightarrow> string list) \<Rightarrow> (string \<Rightarrow> vp ht) \<Rightarrow> (string \<Rightarrow> vp ht) \<Rightarrow> string \<Rightarrow> bool" where
  "counted_once L n cf received m K H H' name \<longleftrightarrow>
     (if keyless m name then H' name = H name
      else table_ok L n H' name \<and>
        counted L H' name = (counted L H name)(K name \<mapsto> bump cf received (counted L H name (K name))))"

lemma counted_once_local: "H1 name = H name \<Longrightarrow> H1' name = H' name \<Longrightarrow> counted_once L n cf received m K H1 H1' name = counted_once L n cf received m K H H' name"
  by (simp add: counted_once_def table_ok_def counted_def)

lemma countable_local: "H1 name = H name \<Longrightarrow> countable L n H1 m K name = countable L n H m K name"
  by (simp add: countable_def table_ok_def counted_def)

lemma update_record_once:
  assumes "name \<in> set counter_tables" and "keyless (w_spec w) name \<or> countable L n H (w_spec w) K name"
    and "spec_get (w_spec w) ''received'' = Some (DInt received)" and "i64 received"
  shows "\<exists>r w1. counter_update_record cf (counter_env L E name) (record_of (Some name) 17 (counter_ss name)) name
      (counter_add cf (counter_keys name)) (w\<lparr>w_db := H name\<rparr>) = Some (r, w1) \<and> r \<noteq> -1 \<and> w_x w1 = w_x w \<and>
    counted_once L n cf received (w_spec w) K H (H(name := w_db w1)) name"
proof (cases "keyless (w_spec w) name")
  case True
  have vis: "visible (map Some vs) = vs" for vs by (induction vs) simp_all
  from True obtain k where "k \<in> set (counter_keys name)" "w_spec w k = None" by (auto simp: keyless_def)
  then have "\<exists>v \<in> set (counter_ss name). has_flag (v_flags v) VF_KEY \<and> w_spec w (v_key v) = None"
    by (intro bexI [of _ "Var VT_STRING (Some k) None (VF_KEEPNAME OR VF_KEY)"]) (auto simp: counter_ss_def v_key_def has_flag_def vf_defs)
  then have "spec_keys_missing (record_of (Some name) 17 (counter_ss name)) (w_spec (w\<lparr>w_db := H name\<rparr>)) = Some (-1)"
    by (auto simp: spec_keys_missing_def record_of_def vlist_items_def vis)
  with True show ?thesis by (simp add: counter_update_record_def counted_once_def)
next
  case False
  let ?w = "w\<lparr>w_db := H name\<rparr>"
  have c: "countable L n H (w_spec w) K name" using assms(2) False by blast
  have small: "0 \<le> ct_count t \<and> ct_count t < 2 ^ 31 - 1"
    if "counts L (memdb_stored L (counter_ss name)) name (w_db ?w) (K name) = Some t" for t
    using c that by (simp add: countable_def counted_def)
  have "\<exists>r w1. counter_update_record cf (counter_env L E name) (record_of (Some name) 17 (counter_ss name)) name
      (counter_add cf (counter_keys name)) ?w = Some (r, w1) \<and> r \<noteq> -1 \<and> w_x w1 = w_x ?w \<and>
      memdb_ok L (counter_ss name) (w_db w1) \<and> counter_rows L (memdb_stored L (counter_ss name)) name (w_db w1) \<and>
      memdb_room n (w_db w1) \<and> counts L (memdb_stored L (counter_ss name)) name (w_db w1) =
        (counts L (memdb_stored L (counter_ss name)) name (w_db ?w))(K name \<mapsto>
          bump cf received (counts L (memdb_stored L (counter_ss name)) name (w_db ?w) (K name)))"
    by (rule counter_memdb.update_record) (use c small assms in \<open>simp_all add: countable_def table_ok_def\<close>)
  with False show ?thesis by (auto simp: counted_once_def table_ok_def counted_def)
qed

lemma update_tables_counts:
  assumes "distinct names" and "set names \<subseteq> set counter_tables"
    and "\<forall>name \<in> set names. keyless (w_spec w) name \<or> countable L n H (w_spec w) K name"
    and "spec_get (w_spec w) ''received'' = Some (DInt received)" and "i64 received"
  shows "\<exists>H' w'. update_tables cf (counter_env L E) (map (\<lambda>name. (name, counter_add cf (counter_keys name))) names) H w = Some (0, H', w') \<and>
    w_x w' = w_x w \<and> (\<forall>name. name \<notin> set names \<longrightarrow> H' name = H name) \<and>
    (\<forall>name \<in> set names. counted_once L n cf received (w_spec w) K H H' name)"
  using assms
proof (induction names arbitrary: H w)
  case (Cons name names)
  from update_record_once [of name w L n H K received cf E] Cons.prems obtain r w1 where
    w1: "counter_update_record cf (counter_env L E name) (record_of (Some name) 17 (counter_ss name)) name
        (counter_add cf (counter_keys name)) (w\<lparr>w_db := H name\<rparr>) = Some (r, w1)" "r \<noteq> -1" "w_x w1 = w_x w"
      "counted_once L n cf received (w_spec w) K H (H(name := w_db w1)) name" by auto
  let ?H = "H(name := w_db w1)"
  have other: "?H nm = H nm" if "nm \<in> set names" for nm using that Cons.prems(1) by auto
  have rest: "\<forall>nm \<in> set names. keyless (w_spec w1) nm \<or> countable L n ?H (w_spec w1) K nm"
    using Cons.prems(3) w1(3) countable_local [of ?H _ H] other by (metis list.set_intros(2))
  have tl: "distinct names" "set names \<subseteq> set counter_tables" "spec_get (w_spec w1) ''received'' = Some (DInt received)"
    using Cons.prems(1,2,4) w1(3) by simp_all
  from Cons.IH [OF tl(1,2) rest tl(3) Cons.prems(5)] obtain H' w' where IH:
    "update_tables cf (counter_env L E) (map (\<lambda>name. (name, counter_add cf (counter_keys name))) names) ?H w1 = Some (0, H', w')"
    "w_x w' = w_x w1" "\<forall>nm. nm \<notin> set names \<longrightarrow> H' nm = ?H nm"
    "\<forall>nm \<in> set names. counted_once L n cf received (w_spec w1) K ?H H' nm" by blast
  have "H' name = ?H name" using IH(3) Cons.prems(1) by simp
  then have "counted_once L n cf received (w_spec w) K H H' name"
    using w1(4) counted_once_local [of H name H H' ?H] by blast
  moreover have "counted_once L n cf received (w_spec w) K H H' nm" if "nm \<in> set names" for nm
  proof -
    have "counted_once L n cf received (w_spec w) K ?H H' nm" using IH(4) that w1(3) by simp
    moreover have "counted_once L n cf received (w_spec w) K ?H H' nm = counted_once L n cf received (w_spec w) K H H' nm"
      by (rule counted_once_local) (simp_all only: other [OF that])
    ultimately show ?thesis by simp
  qed
  ultimately show ?case using IH(1-3) w1(1-3) by (auto simp: counter_scheme_eq)
qed simp

text \<open>
  C16: a message that is let through, whose relay is known, is counted exactly once in each of the four
  counters for which it has all attributes of the key: its relay; its origin; its origin and sender domain; and its
  origin, sender and recipient. A new key starts at one, a known one goes up by one and is kept for the long
  time once it is above the threshold, and no other key changes. A counter with a key of which the message lacks an
  attribute is left as it is, without an error, and the other counters are updated all the same. It is so on
  tables in memory, for keys without \<open>NUL\<close> bytes that fit into a record and counts below \<open>2 ^ 31 - 1\<close>.
\<close>

theorem counter_update_counts:
  assumes "\<forall>name \<in> set counter_tables. keyless (w_spec w) name \<or> countable L n H (w_spec w) K name"
    and "spec_get (w_spec w) ''hostaddr_str'' \<noteq> None"
    and "spec_get (w_spec w) ''received'' = Some (DInt received)" and "i64 received"
    and "action = ACL_ACCEPT \<or> action \<in> {ACL_CONTINUE, ACL_NONE} \<and> stage = MS_EOM"
  shows "\<exists>H' w'. counter_update cf (counter_env L E) stage action H w = Some (0, H', w') \<and> w_x w' = w_x w \<and>
    (\<forall>name \<in> set counter_tables.
       if keyless (w_spec w) name then H' name = H name
       else table_ok L n H' name \<and>
         counted L H' name = (counted L H name)(K name \<mapsto> bump cf received (counted L H name (K name))))"
proof -
  have adds: "map (\<lambda>name. (name, counter_add cf (counter_keys name))) counter_tables =
      [(''counter_relay'', counter_add_relay cf), (''counter_origin'', counter_add_origin cf),
       (''counter_domain'', counter_add_domain cf), (''counter_penpal'', counter_add_penpal cf :: vp ht env \<Rightarrow> _)]"
    by (simp add: counter_tables_def counter_keys_def counter_add_relay_def counter_add_origin_def counter_add_key_def
        counter_add_domain_def counter_add_penpal_def)
  have "distinct counter_tables" by code_simp
  from update_tables_counts [OF this subset_refl assms(1,3,4), of cf E] assms(2,5) show ?thesis
    unfolding adds counted_once_def by (auto simp: counter_update_def)
qed

text \<open>A message on empty tables.\<close>

definition counter_demo :: mailspec where
  "counter_demo =
     [''received'' \<mapsto> Var VT_INT (Some ''received'') (Some (DInt 1000)) 0,
      ''hostaddr_str'' \<mapsto> Var VT_STRING (Some ''hostaddr_str'') (Some (DString ''192.0.2.1'')) 0,
      ''origin'' \<mapsto> Var VT_STRING (Some ''origin'') (Some (DString ''o'')) 0,
      ''envfrom_domain'' \<mapsto> Var VT_STRING (Some ''envfrom_domain'') (Some (DString ''d'')) 0,
      ''envfrom_addr'' \<mapsto> Var VT_STRING (Some ''envfrom_addr'') (Some (DString ''f'')) 0,
      ''envrcpt_addr'' \<mapsto> Var VT_STRING (Some ''envrcpt_addr'') (Some (DString ''r'')) 0]"

definition counter_demo_keys :: "string \<Rightarrow> string list" where
  "counter_demo_keys name = (if name = ''counter_relay'' then [''192.0.2.1''] else if name = ''counter_origin'' then [''o'']
     else if name = ''counter_domain'' then [''o'', ''d''] else [''o'', ''f'', ''r''])"

definition counter_world :: "vp ht world" where
  "counter_world = \<lparr>w_x = \<lparr>xs_spec = counter_demo, xs_const = (\<lambda>_. EXP_EMPTY)\<rparr>, w_db = memdb_open, w_calls = []\<rparr>"

definition counter_demo_env :: "vp ht env" where
  "counter_demo_env = \<lparr>e_x = (\<lambda>_. demo_env), e_driver = \<lparr>dd_get = (\<lambda>_ _. None), dd_set = (\<lambda>_ _. None), dd_del = (\<lambda>_ _. None)\<rparr>,
     e_answer = (\<lambda>_ _. 0), cf_acl_log_level = 6, cf_greylist_deadline = 3600, cf_greylist_visa = 7200,
     cf_tarpit_progress_interval = 10, cf_dbt_fatal_errors = False\<rparr>"

lemma open_table_ok: "n < 2 ^ 30 \<Longrightarrow> table_ok L n (\<lambda>_. memdb_open) name" "counted L (\<lambda>_. memdb_open) name ks = None"
  by (simp_all add: table_ok_def counted_def counts_def counter_rows_def memdb_open_stored memdb_open_ok memdb_open_room)

lemma counter_demo_countable: "name \<in> set counter_tables \<Longrightarrow> countable L 1 (\<lambda>_. memdb_open) (w_spec counter_world) counter_demo_keys name"
  by (auto simp: countable_def open_table_ok counter_tables_def keys_ok_def has_keys_def counter_keys_def counter_demo_keys_def
      counter_world_def counter_demo_def spec_get_def)

text \<open>The same message without a recipient, which is accepted at its begin.\<close>

definition counter_early :: "vp ht world" where
  "counter_early = set_spec counter_world (counter_demo(''envrcpt_addr'' := None))"

theorem counter_update_counts_witness:
  "\<exists>H' w'. counter_update \<lparr>cf_counter_expire_low = 60, cf_counter_expire_high = 600, cf_counter_threshold = 5\<rparr>
      (counter_env word_libc counter_demo_env) MS_ENVFROM ACL_ACCEPT (\<lambda>_. memdb_open) counter_early = Some (0, H', w') \<and>
    counted word_libc H' ''counter_domain'' [''o'', ''d''] =
      Some \<lparr>ct_created = 1000, ct_updated = 1000, ct_expire = 1060, ct_count = 1\<rparr> \<and> H' ''counter_penpal'' = memdb_open"
proof -
  have rec: "spec_get (w_spec counter_early) ''hostaddr_str'' \<noteq> None" "spec_get (w_spec counter_early) ''received'' = Some (DInt 1000)" "i64 1000"
    by (simp_all add: counter_early_def counter_demo_def spec_get_def i64_def)
  have less: "keyless (w_spec counter_early) name \<longleftrightarrow> name = ''counter_penpal''" if "name \<in> set counter_tables" for name
    using that by (auto simp: keyless_def counter_early_def counter_demo_def counter_tables_def counter_keys_def)
  have same: "countable L n H m' K name = countable L n H m K name" if "\<forall>k \<in> set (counter_keys name). m' k = m k" for L n H m m' K name
  proof -
    have "map (spec_get m') (counter_keys name) = map (spec_get m) (counter_keys name)" using that by (simp add: spec_get_def)
    then show ?thesis by (simp only: countable_def has_keys_def)
  qed
  have "countable word_libc 1 (\<lambda>_. memdb_open) (w_spec counter_early) counter_demo_keys name"
    if "name \<in> set counter_tables" "name \<noteq> ''counter_penpal''" for name
  proof -
    have "\<forall>k \<in> set (counter_keys name). w_spec counter_early k = w_spec counter_world k"
      using that by (auto simp: counter_early_def counter_world_def counter_tables_def counter_keys_def)
    then show ?thesis using same counter_demo_countable [OF that(1)] by blast
  qed
  with less have all: "\<forall>name \<in> set counter_tables. keyless (w_spec counter_early) name \<or>
      countable word_libc 1 (\<lambda>_. memdb_open) (w_spec counter_early) counter_demo_keys name" by blast
  have mem: "''counter_domain'' \<in> set counter_tables" "''counter_penpal'' \<in> set counter_tables"
    "counter_demo_keys ''counter_domain'' = [''o'', ''d'']" by (simp_all add: counter_tables_def counter_demo_keys_def)
  have "wrap64 1060 = 1060" by (simp add: wrap64_id i64_def)
  with counter_update_counts [OF all rec, of ACL_ACCEPT MS_ENVFROM
      "\<lparr>cf_counter_expire_low = 60, cf_counter_expire_high = 600, cf_counter_threshold = 5\<rparr>" counter_demo_env] mem
    less [OF mem(1)] less [OF mem(2)]
  show ?thesis by (fastforce simp: open_table_ok bump_def)
qed

subsection \<open>The symbol of pen pals\<close>

lemma set_int_copy:
  "spec_set_new m VT_INT n (Some (DInt i)) VF_COPY = (0, m(n \<mapsto> Var VT_INT (Some n) (Some (DInt i)) (sanitize VF_COPY)))"
  by (simp add: spec_set_new_def var_create_def var_init_def var_data_init_def sanitize_def has_flag_def vf_defs)

lemma key_flags: "\<not> has_flag VF_COPY VF_KEY" "has_flag KEY_FLAGS VF_KEY"
  by (simp_all add: has_flag_def vf_defs)

lemma load_numbers:
  assumes "length ns = length is" and "n \<notin> set ns" and "spec_get m n = None"
  shows "\<exists>m'. load_fields True (map2 (\<lambda>n i. Var VT_INT (Some n) (Some (DInt i)) VF_COPY) (ns @ [n]) (is @ [i])) m = Some (0, m') \<and>
    spec_get m' n = Some (DInt i)"
  using assms
proof (induction ns "is" arbitrary: m rule: list_induct2)
  case Nil
  then show ?case by (simp add: key_flags set_int_copy spec_get_def)
next
  case (Cons a ns b bs)
  let ?v = "Var VT_INT (Some a) (Some (DInt b)) (sanitize VF_COPY)"
  have new: "spec_get (m(a \<mapsto> ?v)) n = None" and n: "n \<notin> set ns" using Cons.prems by (simp_all add: spec_get_def)
  show ?case
    using Cons.IH [OF n Cons.prems(2)] Cons.IH [OF n new]
    by (cases "spec_get m a = None") (simp_all add: key_flags set_int_copy del: fun_upd_apply)
qed

text \<open>
  after several recipients the symbol \<open>counter_penpal\<close> is meant to have no value, because it is
  ambiguous; but \<open>counter_lookup\<close> goes on and gives it the count of the last recipient.
\<close>

theorem counter_penpal_ambiguous:
  assumes "spec_get m ''hostaddr_str'' \<noteq> None" and "stage \<noteq> MS_ENVRCPT"
    and "spec_get m ''recipients'' = Some (DInt n)" and "n \<noteq> 1"
    and "table_ok L k H ''counter_penpal''" and "keys_ok ''counter_penpal'' ks" and "has_keys m ''counter_penpal'' ks"
    and "counted L H ''counter_penpal'' ks = Some t"
  shows "\<exists>m'. counter_lookup (\<lambda>name. dd_get (e_driver (counter_env L E name)) (H name)) stage ''counter_penpal'' m = Some (0, m') \<and>
    spec_get m' ''counter_penpal'' = Some (DInt (ct_count t))"
proof -
  let ?name = "''counter_penpal''" and ?get = "\<lambda>name. dd_get (e_driver (counter_env L E name)) (H name)"
  let ?scheme = "record_of (Some ?name) 17 (counter_ss ?name)"
  have vis: "visible (map Some vs) = vs" for vs by (induction vs) simp_all
  obtain v where null: "spec_set_new m VT_INT ?name None VF_COPYNAME = (0, m(?name \<mapsto> v))" "v_data v = None"
    by (simp add: spec_set_new_def var_create_def var_init_def var_data_init_def sanitize_def has_flag_def vf_defs)
  let ?m = "m(?name \<mapsto> v)"
  have keys: "has_keys ?m ?name ks" using assms(7) by (simp add: has_keys_def counter_keys_def spec_get_def)
  have "dbt_db_get_from_table (?get ?name) ?scheme ?m =
      Some (0, Some (record_of (Some ?name) (VF_COPYNAME OR VF_CREATE) (stored_row ?name ks t)))"
    using counter_memdb.get_row(1) [of L ?name "H ?name" ks E "Some ?name" VF_COPY] assms(5,6,8)
    by (simp add: dbt_db_get_from_table_def record_of_def vlist_items_def vis lookup_crow [OF keys] table_ok_def counted_def)
  moreover have "load_fields True (stored_row ?name ks t) ?m = load_fields True (number_row VF_COPY ?name (ct_data t)) ?m"
  proof -
    have "load_fields True (map2 (\<lambda>n k. Var VT_STRING (Some n) (Some (DString k)) KEY_FLAGS) ns ss @ vs) m = load_fields True vs m" for ns ss vs m
      by (induction ns arbitrary: ss; case_tac ss) (simp_all add: key_flags)
    then show ?thesis by (simp add: stored_row_def crow_def key_row_def)
  qed
  moreover have "\<exists>m'. load_fields True (number_row VF_COPY ?name (ct_data t)) ?m = Some (0, m') \<and>
      spec_get m' ?name = Some (DInt (ct_count t))"
    using load_numbers [of "[?name @ ''_created'', ?name @ ''_updated'', ?name @ ''_expire'']"
        "[ct_created t, ct_updated t, ct_expire t]" ?name ?m "ct_count t"] null(2)
    by (simp add: number_row_def counter_numbers_def ct_data_def spec_get_def del: load_fields.simps)
  ultimately show ?thesis
    using assms(1-4) null(1)
    by (auto simp: counter_lookup_def counter_scheme_eq dbt_db_load_into_table_def as_int_def Let_def record_of_def vlist_items_def vis)
qed

theorem counter_penpal_ambiguous_witness:
  "\<exists>h m'. counter_lookup (\<lambda>name. dd_get (e_driver (counter_env word_libc counter_demo_env name)) h) MS_EOM ''counter_penpal''
      (counter_demo(''recipients'' \<mapsto> Var VT_INT (Some ''recipients'') (Some (DInt 2)) 0)) = Some (0, m') \<and>
    spec_get m' ''counter_penpal'' = Some (DInt 7)"
proof -
  let ?name = "''counter_penpal''" and ?ks = "[''o'', ''f'', ''r'']"
  let ?t = "\<lparr>ct_created = 1, ct_updated = 1, ct_expire = 9, ct_count = 7\<rparr>"
  let ?m = "counter_demo(''recipients'' \<mapsto> Var VT_INT (Some ''recipients'') (Some (DInt 2)) 0)"
  have keys: "keys_ok ?name ?ks" by (simp add: keys_ok_def counter_keys_def)
  have t: "ct_ok ?t" by (simp add: ct_ok_def i64_def)
  have open0: "table_ok word_libc (Suc 0) (\<lambda>_. memdb_open) ?name" by (simp add: open_table_ok)
  then obtain h where h: "table_ok word_libc 0 (\<lambda>_. h) ?name" "counted word_libc (\<lambda>_. h) ?name ?ks = Some ?t"
    using counter_memdb.set_row [OF _ _ _ keys t counter_keyed_flags(1), of word_libc memdb_open 0 counter_demo_env None 0]
    by (auto simp: table_ok_def counted_def)
  have "has_keys ?m ?name ?ks" "spec_get ?m ''recipients'' = Some (DInt 2)" "spec_get ?m ''hostaddr_str'' \<noteq> None"
    by (simp_all add: has_keys_def counter_keys_def counter_demo_def spec_get_def)
  from counter_penpal_ambiguous [OF this(3) _ this(2) _ h(1) keys this(1) h(2), of MS_EOM counter_demo_env] show ?thesis
    by (auto simp: ms_defs)
qed

end
