(* ===== verification/Functions.thy ===== *)
theory Functions
  imports World
begin

section \<open>Functions of rules (modules/string.c, modules/base.c, modules/random.c)\<close>

text \<open>
  The functions that rules can call, and the header that \<open>base.c\<close> adds to messages. Simple functions
  get the data of their arguments, which \<open>lower\<close> changes; what the others do not write is returned
  as it was.
\<close>

subsection \<open>Strings (string.c)\<close>

definition string_strlen :: "vdata option list \<Rightarrow> (var option \<times> vdata option list) option" where
  "string_strlen argv =
     do {
       s \<leftarrow> as_string (hd argv);
       Some (var_create VT_INT None (Some (DInt (int (length s)))) (VF_COPYDATA OR VF_EXP_FREE), argv) }"

definition string_strcmp :: "vdata option list \<Rightarrow> (var option \<times> vdata option list) option" where
  "string_strcmp argv =
     do {
       x \<leftarrow> as_string (argv ! 0);
       y \<leftarrow> as_string (argv ! 1);
       Some (var_create VT_INT None (Some (DInt (strcmp x y))) (VF_COPYDATA OR VF_EXP_FREE), argv) }"

text \<open>\<open>util_tolower\<close> changes the string in place, and leaves \<open>NULL\<close> alone.\<close>

definition string_tolower :: "vdata option list \<Rightarrow> (var option \<times> vdata option list) option" where
  "string_tolower argv =
     do {
       d \<leftarrow> (case hd argv of None \<Rightarrow> Some None | d \<Rightarrow> map_option (\<lambda>s. Some (DString (util_tolower s))) (as_string d));
       Some (var_create VT_STRING None d (VF_COPYDATA OR VF_EXP_FREE), d # tl argv) }"

definition string_mailaddr :: "vdata option list \<Rightarrow> (var option \<times> vdata option list) option" where
  "string_mailaddr argv =
     do {
       str \<leftarrow> (case hd argv of None \<Rightarrow> Some None | d \<Rightarrow> map_option Some (as_string d));
       (r, buffer) \<leftarrow> util_strmail 1024 str;
       if r = -1 then Some (None, argv)
       else do { s \<leftarrow> buffer; Some (var_create VT_STRING None (Some (DString s)) (VF_COPYDATA OR VF_EXP_FREE), argv) } }"

definition string_init :: "(string \<times> acl_function) list" where
  "string_init =
     [(''strlen'', AF_SIMPLE [VT_STRING] string_strlen), (''lower'', AF_SIMPLE [VT_STRING] string_tolower),
      (''strcmp'', AF_SIMPLE [VT_STRING, VT_STRING] string_strcmp), (''mailaddr'', AF_SIMPLE [VT_STRING] string_mailaddr)]"

subsection \<open>Random numbers (random.c)\<close>

text \<open>\<open>rand_r\<close> is an argument: the number and the next seed.\<close>

definition random_number :: "(u32 \<Rightarrow> int \<times> u32) \<Rightarrow> u32 \<Rightarrow> var option \<times> u32" where
  "random_number rand_r random_seed =
     (case rand_r random_seed of
        (r, seed) \<Rightarrow> (var_create VT_INT None (Some (DInt r)) (VF_COPY OR VF_EXP_FREE), seed))"

text \<open>The seed is the part of the time below a second.\<close>

definition random_init :: "int \<Rightarrow> u32" where
  "random_init tv_nsec = word_of_int tv_nsec"

subsection \<open>Types (base.c)\<close>

definition cast_keys :: "(string \<times> vtype) list" where
  "cast_keys = [(''INT'', VT_INT), (''FLOAT'', VT_FLOAT), (''STRING'', VT_STRING)]"

text \<open>The first item that \<open>ll_next\<close> returns, \<open>NULL\<close> in an empty list.\<close>

definition first_arg :: "var option list \<Rightarrow> var option" where
  "first_arg args = (case args of [] \<Rightarrow> None | x # _ \<Rightarrow> x)"

definition base_type :: "var option list \<Rightarrow> var option option" where
  "base_type args =
     (if length args \<noteq> 1 then Some None
      else Some (var_create VT_STRING None
        (Some (DString (case first_arg args of None \<Rightarrow> ''NULL'' | Some v \<Rightarrow> var_type_string v))) (VF_COPY OR VF_EXP_FREE)))"

definition base_size :: "var option list \<Rightarrow> var option option" where
  "base_size args =
     (if length args \<noteq> 1 then Some None
      else Some (var_create VT_INT None
        (Some (DInt (case first_arg args of None \<Rightarrow> 0 | Some v \<Rightarrow> var_data_size v))) (VF_COPY OR VF_EXP_FREE)))"

text \<open>The number of a type; numbers of no type are an error where the value is converted.\<close>

definition vt_of_num :: "int \<Rightarrow> vtype option" where
  "vt_of_num n =
     find (\<lambda>t. int (vt_num t) = n) [VT_NULL, VT_TABLE, VT_LIST, VT_ADDR, VT_INT, VT_FLOAT, VT_POINTER, VT_STRING, VT_BLOB]"

definition base_cast :: "libc \<Rightarrow> var option list \<Rightarrow> var option option" where
  "base_cast L args =
     (if length args \<noteq> 2 then Some None
      else
        (case args of
           [Some type0, Some v] \<Rightarrow>
             if v_type type0 \<noteq> VT_INT then Some None
             else
               do {
                 n \<leftarrow> as_int (v_data type0);
                 (case vt_of_num n of
                    None \<Rightarrow> if v_data v = None then None else Some None
                  | Some t \<Rightarrow>
                      do {
                        copy \<leftarrow> var_cast_copy L t v;
                        Some (map_option (\<lambda>c. Var (v_type c) (v_name c) (v_data c) (v_flags c OR VF_EXP_FREE)) copy) }) }
         | _ \<Rightarrow> Some None))"

definition base_nil :: "var option list \<Rightarrow> var option option" where
  "base_nil args = Some (Some EXP_EMPTY)"

definition base_fail :: "var option list \<Rightarrow> var option option" where
  "base_fail args = Some None"

definition base_init :: "libc \<Rightarrow> (string \<times> acl_function) list" where
  "base_init L =
     [(''type'', AF_COMPLEX base_type), (''size'', AF_COMPLEX base_size), (''cast'', AF_COMPLEX (base_cast L)),
      (''nil'', AF_COMPLEX base_nil), (''fail'', AF_COMPLEX base_fail)]"

subsection \<open>The header of checked messages (base.c)\<close>

text \<open>
  \<open>mopher_header\<close> writes the attributes that the configuration lists into a buffer of 8192 bytes, with
  spaces between them. A length after the end of what is in the buffer would leave a gap in it.
\<close>

fun header_text :: "libc \<Rightarrow> mailspec \<Rightarrow> var list \<Rightarrow> string \<Rightarrow> nat \<Rightarrow> (string \<times> nat) option option" where
  "header_text L m [] buffer len = Some (Some (buffer, len))"
| "header_text L m (item # items) buffer len =
     (if v_type item \<noteq> VT_STRING \<or> v_data item = None then header_text L m items buffer len
      else
        do {
          key \<leftarrow> as_string (v_data item);
          (case m key of
             None \<Rightarrow> header_text L m items buffer len
           | Some symbol \<Rightarrow>
               if v_data symbol = None then header_text L m items buffer len
               else
                 (let (buffer1, len1) = (if len \<noteq> 0 \<and> len + 2 < 8192 then (take len buffer @ '' '', len + 1) else (buffer, len)) in
                  do {
                    (n, text) \<leftarrow> var_dump L symbol (8192 - int len1);
                    if n = -1 then Some None
                    else if n < 0 \<or> nat n > length text then None
                    else header_text L m items (take len1 buffer1 @ text) (len1 + nat n) })) })"

definition mopher_header ::
  "'h env \<Rightarrow> var option list option \<Rightarrow> string \<Rightarrow> int \<Rightarrow> 'h world \<Rightarrow> (int \<times> 'h world) option" where
  "mopher_header E config cf_mopher_header_name stage w =
     (case config of
        None \<Rightarrow> Some (-1, w)
      | Some ll \<Rightarrow>
          if stage \<noteq> MS_EOM then Some (0, w)
          else
            (case spec_dereference (w_spec w) [''milter_ctx'', ''action''] of
               (n, ds) \<Rightarrow>
                 if n \<noteq> 2 then Some (-1, w)
                 else
                   do {
                     action \<leftarrow> as_int (ds ! 1);
                     if action \<notin> {action_int ACL_ACCEPT, action_int ACL_CONTINUE, action_int ACL_NONE} then Some (0, w)
                     else
                       do {
                         r \<leftarrow> header_text (E_libc E w) (w_spec w) (visible ll) [] 0;
                         (case r of
                            None \<Rightarrow> Some (-1, w)
                          | Some (buffer, len) \<Rightarrow>
                              if len = 0 then Some (0, w)
                              else
                                (case ask E (C_Chgheader (Some cf_mopher_header_name) 1 (Some buffer)) w of
                                   (r, w1) \<Rightarrow> Some (if r \<noteq> MI_SUCCESS then -1 else 0, w1))) } }))"

subsection \<open>What functions change\<close>

text \<open>Every function of these modules but \<open>lower\<close> leaves its arguments as they are.\<close>

lemma string_functions_keep:
  assumes "(name, AF_SIMPLE types callback) \<in> set (string_init @ base_init L)" and "name \<noteq> ''lower''"
    and "callback ds = Some (r, ds')"
  shows "ds' = ds"
  using assms
  by (auto simp: string_init_def base_init_def string_strlen_def string_strcmp_def string_mailaddr_def bind_eq_Some_conv split: if_splits)

lemma modules_pure:
  assumes "\<And>name af. acl_function_lookup E name = Some af \<Longrightarrow> (name, af) \<in> set (string_init @ base_init L)"
    and "acl_function_lookup E ''lower'' = None"
  shows "functions_pure E"
  unfolding functions_pure_def
proof (intro allI impI)
  fix name types callback ds r ds'
  assume "acl_function_lookup E name = Some (AF_SIMPLE types callback)" and cb: "callback ds = Some (r, ds')"
  then have "(name, AF_SIMPLE types callback) \<in> set (string_init @ base_init L)" "name \<noteq> ''lower''" using assms by auto
  from string_functions_keep [OF this cb] show "ds' = ds" .
qed

text \<open>
  \<open>lower(x)\<close> does not only return \<open>x\<close> in small letters, it changes \<open>x\<close> itself: the attribute of the
  message keeps the changed value for all later rules and actions.
\<close>

theorem lower_changes_attribute:
  assumes "acl_function_lookup E ''lower'' = Some (AF_SIMPLE [VT_STRING] string_tolower)"
    and "acl_symbol_get E st name = Some (Some (Sym name), st)"
    and "xs_spec st name = Some (Var VT_STRING nm (Some (DString s)) f)"
  shows "\<exists>v. exp_eval E (EX_FUNCTION ''lower'' (Some (EX_SYMBOL name))) st =
      Some (Some (Fresh v), st\<lparr>xs_spec := (xs_spec st)(name \<mapsto> Var VT_STRING nm (Some (DString (util_tolower s))) f)\<rparr>) \<and>
    v_data v = Some (DString (util_tolower s))"
proof -
  obtain v where v: "var_create VT_STRING None (Some (DString (util_tolower s))) (VF_COPYDATA OR VF_EXP_FREE) = Some v"
      "v_data v = Some (DString (util_tolower s))" "has_flag (v_flags v) VF_EXP_FREE"
    by (simp add: var_create_def var_init_def var_data_init_def sanitize_def has_flag_def vf_defs VF_EXP_FREE_def)
  have same: "st\<lparr>xs_spec := (xs_spec st)(name \<mapsto> Var VT_STRING nm (Some (DString s)) f)\<rparr> = st"
    using assms(3) by (simp add: fun_upd_idem)
  from v assms show ?thesis
    by (intro exI [of _ v]) (auto simp: call_function_def exp_eval_function_simple_def string_tolower_def as_string_def Let_def deref_def
        write_arg_def write_ref_def same)
qed

text \<open>An attribute \<open>helo\<close> and a table of symbols with the functions on strings.\<close>

definition function_env :: xenv where
  "function_env = demo_env\<lparr>x_symbols := (\<lambda>name.
     if name = ''helo'' then Some \<lparr>as_stages = 1, as_data = AS_SYMBOL None False\<rparr>
     else map_option (\<lambda>af. \<lparr>as_stages = 1, as_data = AS_FUNCTION af\<rparr>) (map_of string_init name))\<rparr>"

definition helo_state :: xstate where
  "helo_state = demo_state\<lparr>xs_spec :=
     [''stage'' \<mapsto> Var VT_INT (Some ''stage'') (Some (DInt 1)) 0, ''helo'' \<mapsto> Var VT_STRING (Some ''helo'') (Some (DString ''Mail'')) 0]\<rparr>"

lemma function_env_simps:
  "acl_function_lookup function_env ''lower'' = Some (AF_SIMPLE [VT_STRING] string_tolower)"
  "acl_function_lookup function_env ''strlen'' = Some (AF_SIMPLE [VT_STRING] string_strlen)"
  "acl_symbol_get function_env helo_state ''helo'' = Some (Some (Sym ''helo''), helo_state)"
  "xs_spec helo_state ''helo'' = Some (Var VT_STRING (Some ''helo'') (Some (DString ''Mail'')) 0)"
  by (simp_all add: acl_function_lookup_def function_env_def demo_env_def string_init_def acl_symbol_get_def acl_symbol_lookup_def
      helo_state_def spec_get_def as_defs)

theorem lower_changes_attribute_witness:
  "\<exists>v st'. exp_eval function_env (EX_FUNCTION ''lower'' (Some (EX_SYMBOL ''helo''))) helo_state = Some (Some (Fresh v), st') \<and>
     xs_spec st' ''helo'' = Some (Var VT_STRING (Some ''helo'') (Some (DString ''mail'')) 0)"
proof -
  have "util_tolower ''Mail'' = ''mail''" by code_simp
  with lower_changes_attribute [OF function_env_simps(1,3,4)] show ?thesis by auto
qed

text \<open>
  The functions \<open>strlen\<close> and \<open>strcmp\<close> read through the pointers they get: an argument without a value
  stops the server.
\<close>

lemma strlen_null:
  assumes "acl_function_lookup E ''strlen'' = Some (AF_SIMPLE [VT_STRING] string_strlen)"
    and "exp_eval E e st = Some (Some ref, st1)" and "list_args e = None" and "deref st1 ref = Some (Var VT_STRING nm None f)"
  shows "exp_eval E (EX_FUNCTION ''strlen'' (Some e)) st = None"
  using assms by (simp add: call_function_def exp_eval_function_simple_def string_strlen_def as_string_def Let_def)

text \<open>A value that \<open>cast\<close> returns has the type that was asked for.\<close>

lemma create_type: "var_create t n d f = Some v \<Longrightarrow> v_type v = t"
  by (auto simp: var_create_def var_init_def Let_def split: if_splits option.splits)

lemma cast_type:
  assumes "base_cast L [Some type0, Some v] = Some (Some c)" and "v_data type0 = Some (DInt (int (vt_num t)))"
    and "t \<in> {VT_INT, VT_FLOAT, VT_STRING}"
  shows "v_type c = t"
proof -
  have "vt_of_num (int (vt_num t)) = Some t" using assms(3) by (auto simp: vt_of_num_def)
  with assms(1,2) obtain d where d: "var_cast_copy L t v = Some (Some d)" "v_type c = v_type d"
    by (auto simp: base_cast_def as_int_def bind_eq_Some_conv split: if_splits)
  from d(1) assms(3) have "v_type d = t"
    by (auto simp: var_cast_copy_def VAR_COPY_def var_as_int_def var_as_float_def var_as_string_def Let_def bind_eq_Some_conv
        dest: create_type split: if_splits option.splits vtype.splits vdata.splits prod.splits)
  with d(2) show ?thesis by simp
qed

end
