(* ===== verification/Hitlist.thy ===== *)
theory Hitlist
  imports Dbt Sql
begin

section \<open>Lists of hits (modules/hitlist.c)\<close>

text \<open>
  \<open>src/src/modules/hitlist.c\<close>: symbols that count how often a combination of attributes was seen, or sum
  a number over it. A list has a database table with the attributes as key, a value and an expiry; the
  table is opened at the first use, when the types of the key fields are taken from the attributes.
\<close>

definition DBT_FIELD_MAX :: nat where "DBT_FIELD_MAX = 256"

record 'h hitlist =
  hl_name :: string
  hl_connected :: bool
  hl_dbt :: "'h dbt"
  hl_scheme :: "var option"
  hl_keys :: "var option list"
  hl_create :: int
  hl_update :: int
  hl_count :: int
  hl_timeout :: int
  hl_extend :: int
  hl_cleanup :: int
  hl_sum :: "string option"
  hl_table :: "string option"
  hl_value_field :: string
  hl_expire_field :: string

text \<open>The \<open>dbt_t\<close> of a new list is all zero; \<open>hl_scheme\<close> is its scheme, which may be \<open>NULL\<close>.\<close>

definition hitlist_create ::
  "'h dbt \<Rightarrow> string \<Rightarrow> var option list \<Rightarrow> int option \<Rightarrow> int option \<Rightarrow> int option \<Rightarrow> int option \<Rightarrow> int option \<Rightarrow> int option \<Rightarrow>
    string option \<Rightarrow> string option \<Rightarrow> string option \<Rightarrow> string option \<Rightarrow> 'h hitlist" where
  "hitlist_create zero name keys create update count0 timeout extend0 cleanup sum0 table value_field expire_field =
     (let default = (\<lambda>d x. case x of None \<Rightarrow> d | Some i \<Rightarrow> i);
          field = (\<lambda>suffix x. case x of None \<Rightarrow> take (DBT_FIELD_MAX - 1) (name @ suffix) | Some s \<Rightarrow> take DBT_FIELD_MAX s) in
      \<lparr>hl_name = name, hl_connected = False, hl_dbt = zero, hl_scheme = None, hl_keys = keys,
       hl_create = default 1 create, hl_update = default 1 update, hl_count = default 1 count0, hl_timeout = default 0 timeout,
       hl_extend = default 1 extend0, hl_cleanup = default 1 cleanup, hl_sum = sum0, hl_table = table,
       hl_value_field = field ''_value'' value_field, hl_expire_field = field ''_expire'' expire_field\<rparr>)"

subsection \<open>Records\<close>

text \<open>
  \<open>hitlist_record\<close>: the fields of the keys from the variables and symbols of the message, without their
  data for a scheme.
\<close>

definition key_value :: "xenv \<Rightarrow> xstate \<Rightarrow> string \<Rightarrow> (var option \<times> xstate) option" where
  "key_value X st keystr =
     (if take 1 keystr = ''$'' then
        do { (v, m) \<leftarrow> acl_variable_get (xs_spec st) keystr; Some (v, st\<lparr>xs_spec := m\<rparr>) }
      else do { (r, st1) \<leftarrow> acl_symbol_get X st keystr; v \<leftarrow> deref_opt st1 r; Some (v, st1) })"

fun key_fields :: "xenv \<Rightarrow> var list \<Rightarrow> bool \<Rightarrow> var \<Rightarrow> xstate \<Rightarrow> (var option \<times> xstate) option" where
  "key_fields X [] load_data schema st = Some (Some schema, st)"
| "key_fields X (key # keys) load_data schema st =
     (if v_data key = None \<or> v_type key \<noteq> VT_STRING then Some (None, st)
      else
        do {
          keystr \<leftarrow> as_string (v_data key);
          (r, st1) \<leftarrow> key_value X st keystr;
          (case r of
             None \<Rightarrow> Some (None, st1)
           | Some v \<Rightarrow>
               if load_data \<and> v_data v = None then Some (None, st1)
               else
                 do {
                   (e, schema1) \<leftarrow> vlist_append_new schema (v_type v) (Some keystr) (if load_data then v_data v else None) (VF_COPY OR VF_KEY);
                   if e \<noteq> 0 then Some (None, st1) else key_fields X keys load_data schema1 st1 }) })"

definition hitlist_record :: "xenv \<Rightarrow> 'h hitlist \<Rightarrow> bool \<Rightarrow> xstate \<Rightarrow> (var option \<times> xstate) option" where
  "hitlist_record X hl load_data st =
     (case vlist_create (Some (case hl_table hl of None \<Rightarrow> hl_name hl | Some t \<Rightarrow> t)) VF_KEEPNAME of
        None \<Rightarrow> Some (None, st)
      | Some schema \<Rightarrow>
          do {
            (r, st1) \<leftarrow> key_fields X (visible (hl_keys hl)) load_data schema st;
            (case r of
               None \<Rightarrow> Some (None, st1)
             | Some schema1 \<Rightarrow>
                 (let zero = (if load_data then Some (DInt 0) else None) in
                  do {
                    (e, schema2) \<leftarrow> vlist_append_new schema1 VT_INT (Some (hl_value_field hl)) zero VF_COPY;
                    if e \<noteq> 0 then Some (None, st1)
                    else
                      do {
                        (e, schema3) \<leftarrow> vlist_append_new schema2 VT_INT (Some (hl_expire_field hl)) zero VF_COPY;
                        Some (if e \<noteq> 0 then None else Some schema3, st1) } })) })"

subsection \<open>Opening the table\<close>

text \<open>What \<open>dbt_register\<close> and \<open>dbt_open_database\<close> use: the configuration and the registered drivers.\<close>

record 'h dbt_setup =
  su_config :: "string \<Rightarrow> vtab option"
  su_default :: "vtab option"
  su_interval :: int
  su_drivers :: "(dbt_config \<Rightarrow> 'h table_driver) sht"

text \<open>
  \<open>dbt_register\<close> puts the table of the list into the table of tables; the database is opened on that
  same structure. A scheme that was made in an attempt that failed is kept.
\<close>

definition hitlist_db_open ::
  "xenv \<Rightarrow> 'h dbt_setup \<Rightarrow> 'h hitlist \<Rightarrow> 'h dbt sht \<Rightarrow> xstate \<Rightarrow> (int \<times> 'h hitlist \<times> 'h dbt sht \<times> xstate) option" where
  "hitlist_db_open X S hl tables st =
     (if hl_connected hl then Some (0, hl, tables, st)
      else
        do {
          (ok, hl1, st1) \<leftarrow>
            (case hl_scheme hl of
               Some _ \<Rightarrow> Some (True, hl, st)
             | None \<Rightarrow>
                 do {
                   (r, st1) \<leftarrow> hitlist_record X hl False st;
                   Some (case r of
                           None \<Rightarrow> (False, hl, st1)
                         | Some schema \<Rightarrow>
                             (True, hl\<lparr>hl_scheme := Some schema,
                                hl_dbt := (hl_dbt hl)\<lparr>dbt_scheme := schema, dbt_validate := True,
                                  dbt_cleanup_interval := (if hl_cleanup hl \<noteq> 0 then 0 else -1),
                                  dbt_expire_field := (if hl_expire_field hl \<noteq> [] then take DBT_FIELD_MAX (hl_expire_field hl)
                                    else dbt_expire_field (hl_dbt hl))\<rparr>\<rparr>, st1)) });
          if \<not> ok then Some (-1, hl1, tables, st1)
          else
            (case dbt_register (su_config S) (su_default S) (su_interval S) (hl_name hl1) (hl_dbt hl1) tables of
               (r, tables1) \<Rightarrow>
                 if r \<noteq> 0 then Some (-1, hl1, tables1, st1)
                 else
                   do {
                     dbt \<leftarrow> sht_lookup tables1 (hl_name hl1);
                     (r, dbt1) \<leftarrow> dbt_open_database (su_drivers S) dbt;
                     let tables2 = sht_write tables1 (hl_name hl1) dbt1;
                     Some (if r \<noteq> 0 then (-1, hl1\<lparr>hl_dbt := dbt1\<rparr>, tables2, st1)
                           else (0, hl1\<lparr>hl_dbt := dbt1, hl_connected := True\<rparr>, tables2, st1)) }) })"

subsection \<open>Hits\<close>

text \<open>A field of a record is changed in place: its number, and its flags.\<close>

fun put_number :: "string \<Rightarrow> int \<Rightarrow> u32 \<Rightarrow> var option list \<Rightarrow> var option list" where
  "put_number key i flags (Some v # xs) =
     (if v_name v = Some key then Some (Var (v_type v) (v_name v) (Some (DInt i)) (v_flags v OR flags)) # xs
      else Some v # put_number key i flags xs)"
| "put_number key i flags xs = xs"

definition set_number :: "var \<Rightarrow> string \<Rightarrow> int \<Rightarrow> u32 \<Rightarrow> var option" where
  "set_number record0 key i flags =
     do {
       xs \<leftarrow> vlist_items record0;
       Some (Var (v_type record0) (v_name record0) (Some (DList (put_number key i flags xs))) (v_flags record0)) }"

text \<open>
  \<open>hitlist_sql_safe_update\<close> stores differences, which an SQL database adds to the fields. Fields without
  data cannot be written.
\<close>

definition hitlist_sql_safe_update ::
  "'h env \<Rightarrow> var \<Rightarrow> string \<Rightarrow> int \<Rightarrow> string \<Rightarrow> int \<Rightarrow> 'h world \<Rightarrow> (int \<times> 'h world) option" where
  "hitlist_sql_safe_update E record0 value_field value_diff expire_field expire_diff w =
     (case VAR_COPY record0 of
        None \<Rightarrow> Some (-1, w)
      | Some copy \<Rightarrow>
          do {
            f \<leftarrow> vlist_record_lookup copy value_field;
            (case f of
               None \<Rightarrow> Some (-1, w)
             | Some field \<Rightarrow>
                 do {
                   _ \<leftarrow> v_data field;
                   copy1 \<leftarrow> set_number copy value_field value_diff VF_SQL_SAFE_UPDATE;
                   g \<leftarrow> vlist_record_lookup copy1 expire_field;
                   (case g of
                      None \<Rightarrow> Some (-1, w)
                    | Some field \<Rightarrow>
                        do {
                          _ \<leftarrow> v_data field;
                          copy2 \<leftarrow> set_number copy1 expire_field expire_diff VF_SQL_SAFE_UPDATE;
                          dbt_db_set E w copy2 }) }) })"

text \<open>The new value and what it has grown by; \<open>None\<close> inside is an error.\<close>

definition hit_value :: "'h hitlist \<Rightarrow> mailspec \<Rightarrow> int \<Rightarrow> (int \<times> int) option option" where
  "hit_value hl m v =
     (if hl_count hl \<noteq> 0 then Some (Some (wrap64 (v + 1), 1))
      else
        (case hl_sum hl of
           None \<Rightarrow> Some (Some (v, 0))
         | Some sum0 \<Rightarrow>
             (case m sum0 of
                None \<Rightarrow> Some None
              | Some addition \<Rightarrow>
                  if v_type addition \<noteq> VT_INT then Some None
                  else do { i \<leftarrow> as_int (v_data addition); Some (Some (wrap64 (v + i), i)) })))"

text \<open>The new expiry, what it has grown by, and whether the clock was asked. A list without timeout ends in 2038.\<close>

definition hit_expire :: "'h env \<Rightarrow> 'h hitlist \<Rightarrow> int \<Rightarrow> 'h world \<Rightarrow> int \<times> int \<times> 'h world" where
  "hit_expire E hl e w =
     (if hl_timeout hl = 0 then (2 ^ 31 - 1, 0, w)
      else if hl_extend hl \<noteq> 0 \<or> e = 0 then
        (case ask E C_Time w of (now, w1) \<Rightarrow> (wrap64 (now + hl_timeout hl), hl_timeout hl, w1))
      else (e, 0, w))"

text \<open>
  \<open>hitlist_lookup\<close> on the list of the name; \<open>use_sql\<close> is \<open>dd_use_sql\<close> of its driver. A name without a list
  unlocks a mutex behind \<open>NULL\<close>. The mutex of the list makes lookups run one after the other.
\<close>

definition hit_env :: "'h table_driver \<Rightarrow> 'h env \<Rightarrow> 'h env" where
  "hit_env dd E = E\<lparr>e_driver := dbt_driver.truncate dd\<rparr>"

definition hitlist_hit ::
  "'h env \<Rightarrow> bool \<Rightarrow> 'h hitlist \<Rightarrow> string \<Rightarrow> bool \<Rightarrow> var \<Rightarrow> 'h world \<Rightarrow> (int \<times> 'h world) option" where
  "hitlist_hit E use_sql hl name update_record record0 w =
     do {
       value \<leftarrow> vlist_record_get record0 (hl_value_field hl);
       expire \<leftarrow> vlist_record_get record0 (hl_expire_field hl);
       if value = None \<or> expire = None then Some (-1, w)
       else
         do {
           v \<leftarrow> as_int value;
           e \<leftarrow> as_int expire;
           hit \<leftarrow> hit_value hl (w_spec w) v;
           (case hit of
              None \<Rightarrow> Some (-1, w)
            | Some (v1, value_diff) \<Rightarrow>
                do {
                  record1 \<leftarrow> set_number record0 (hl_value_field hl) v1 0;
                  (r, w2) \<leftarrow>
                    (if hl_update hl = 0 then Some (0, w)
                     else
                       (case hit_expire E hl e w of
                          (e1, expire_diff, w1) \<Rightarrow>
                            do {
                              record2 \<leftarrow> set_number record1 (hl_expire_field hl) e1 0;
                              if update_record \<and> use_sql then
                                hitlist_sql_safe_update E record2 (hl_value_field hl) value_diff (hl_expire_field hl) expire_diff w1
                              else dbt_db_set E w1 record2 }));
                  if r \<noteq> 0 then Some (-1, w2)
                  else
                    Some (case spec_set_new (w_spec w2) VT_INT name (Some (DInt v1)) VF_COPY of
                            (r, m) \<Rightarrow> (if r \<noteq> 0 then -1 else 0, set_spec w2 m)) }) } }"

definition hitlist_lookup ::
  "'h env \<Rightarrow> 'h dbt_setup \<Rightarrow> ('h table_driver \<Rightarrow> bool) \<Rightarrow> 'h hitlist option \<Rightarrow> string \<Rightarrow> 'h dbt sht \<Rightarrow> 'h world \<Rightarrow>
    (int \<times> 'h hitlist \<times> 'h dbt sht \<times> 'h world) option" where
  "hitlist_lookup E S use_sql hl0 name tables w =
     do {
       hl \<leftarrow> hl0;
       let X = e_x E (w_db w);
       let null = (\<lambda>w. set_spec w (snd (spec_set_new (w_spec w) VT_INT name None (VF_COPYNAME OR VF_KEEPDATA))));
       (r, hl1, tables1, st) \<leftarrow> hitlist_db_open X S hl tables (w_x w);
       let w1 = w\<lparr>w_x := st\<rparr>;
       if r \<noteq> 0 then Some (-1, hl1, tables1, w1)
       else
         do {
           dd \<leftarrow> dbt_driver (hl_dbt hl1);
           let E1 = hit_env dd E;
           (l, st1) \<leftarrow> hitlist_record X hl1 True (w_x w1);
           let w2 = w1\<lparr>w_x := st1\<rparr>;
           (case l of
              None \<Rightarrow> Some (0, hl1, tables1, null w2)
            | Some lookup \<Rightarrow>
                do {
                  (g, result) \<leftarrow> dbt_db_get E1 (w2\<lparr>w_db := dbt_handle (hl_dbt hl1)\<rparr>) lookup;
                  if g \<noteq> 0 then Some (-1, hl1, tables1, w2)
                  else if result = None \<and> hl_create hl1 = 0 then Some (0, hl1, tables1, null w2)
                  else
                    do {
                      (r, w3) \<leftarrow> hitlist_hit E1 (use_sql dd) hl1 name (result \<noteq> None) (case result of None \<Rightarrow> lookup | Some x \<Rightarrow> x)
                        (w2\<lparr>w_db := dbt_handle (hl_dbt hl1)\<rparr>);
                      Some (r, hl1\<lparr>hl_dbt := (hl_dbt hl1)\<lparr>dbt_handle := w_db w3\<rparr>\<rparr>,
                        (case sht_lookup tables1 (hl_name hl1) of
                           None \<Rightarrow> tables1
                         | Some dbt \<Rightarrow> sht_write tables1 (hl_name hl1) (dbt\<lparr>dbt_handle := w_db w3\<rparr>)), w3\<lparr>w_db := w_db w2\<rparr>) } }) } }"

subsection \<open>Registration\<close>

text \<open>
  \<open>hitlist_register\<close> reads the configuration of a list (\<open>cf\<close>, by type and key) and ends the program when
  it has no keys or a list of that name exists. \<open>hitlist_init\<close> registers the lists of the configuration
  in the order of its table.
\<close>

definition hitlist_register ::
  "(vtype \<Rightarrow> string \<Rightarrow> string \<Rightarrow> vdata option) \<Rightarrow> 'h dbt \<Rightarrow> string \<Rightarrow> 'h hitlist sht \<Rightarrow> 'h hitlist sht option" where
  "hitlist_register cf zero name hitlists =
     (let int_of = (\<lambda>key. case cf VT_INT name key of Some (DInt i) \<Rightarrow> Some i | _ \<Rightarrow> None);
          str_of = (\<lambda>key. case cf VT_STRING name key of Some (DString s) \<Rightarrow> Some s | _ \<Rightarrow> None) in
      case cf VT_LIST name ''keys'' of
        Some (DList keys) \<Rightarrow>
          if keys = [] then None
          else
            (case sht_insert [] hitlists name (Some (hitlist_create zero name keys (int_of ''create'') (int_of ''update'') (int_of ''count'')
                (int_of ''timeout'') (int_of ''extend'') (int_of ''cleanup'') (str_of ''sum'') (str_of ''table'')
                (str_of ''value_field'') (str_of ''expire_field''))) of
               (r, hitlists1, _) \<Rightarrow> if r \<noteq> 0 then None else Some hitlists1)
      | _ \<Rightarrow> None)"

fun hitlist_init ::
  "(vtype \<Rightarrow> string \<Rightarrow> string \<Rightarrow> vdata option) \<Rightarrow> 'h dbt \<Rightarrow> string list \<Rightarrow> 'h hitlist sht \<Rightarrow> 'h hitlist sht option" where
  "hitlist_init cf zero [] hitlists = Some hitlists"
| "hitlist_init cf zero (name # names) hitlists =
     do { hitlists1 \<leftarrow> hitlist_register cf zero name hitlists; hitlist_init cf zero names hitlists1 }"

subsection \<open>Rows\<close>

type_synonym hit_key = "string \<times> vtype \<times> vdata"

definition hit_keys :: "hit_key list \<Rightarrow> var list" where
  "hit_keys ks = map (\<lambda>(n, t, d). Var t (Some n) (Some d) (VF_COPY OR VF_KEY)) ks"

definition hit_row :: "string \<Rightarrow> string \<Rightarrow> hit_key list \<Rightarrow> int \<Rightarrow> int \<Rightarrow> var list" where
  "hit_row vf ef ks v e = hit_keys ks @ [Var VT_INT (Some vf) (Some (DInt v)) VF_COPY,
     Var VT_INT (Some ef) (Some (DInt e)) VF_COPY]"

definition hit_ss :: "string \<Rightarrow> string \<Rightarrow> (string \<times> vtype) list \<Rightarrow> var list" where
  "hit_ss vf ef sig = map (\<lambda>(n, t). Var t (Some n) None (VF_COPY OR VF_KEY)) sig @
     [Var VT_INT (Some vf) None VF_COPY, Var VT_INT (Some ef) None VF_COPY]"

abbreviation key_sig :: "hit_key list \<Rightarrow> (string \<times> vtype) list" where
  "key_sig ks \<equiv> map (\<lambda>(n, t, d). (n, t)) ks"

text \<open>Keys that fit into a table, and fields whose names do not clash.\<close>

definition hit_ok :: "libc \<Rightarrow> string \<Rightarrow> string \<Rightarrow> hit_key list \<Rightarrow> bool" where
  "hit_ok L vf ef ks \<longleftrightarrow> length ks \<le> 62 \<and> (\<forall>(n, t, d) \<in> set ks. storable L t d) \<and>
     length (concat (map (\<lambda>(n, t, d). data_bytes L d) ks)) < 2 ^ 31 \<and>
     vf \<noteq> ef \<and> vf \<notin> fst ` set ks \<and> ef \<notin> fst ` set ks"

lemma hit_flags: "\<not> has_flag VF_COPY VF_KEY" "has_flag (VF_COPY OR VF_KEY) VF_KEY" "sanitize VF_COPY = VF_COPY"
    "sanitize (VF_COPY OR VF_KEY) = VF_COPY OR VF_KEY" "sanitize ((VF_COPY OR VF_KEY) OR VF_COPY) = VF_COPY OR VF_KEY" "has_flag VF_COPY VF_COPYDATA" "has_flag (VF_COPY OR VF_KEY) VF_COPYDATA"
  by (simp_all add: has_flag_def vf_defs sanitize_def)

lemma hit_row_keys: "map v_data (filter is_key (hit_row vf ef ks v e)) = map (\<lambda>(n, t, d). Some d) ks"
proof -
  have "filter is_key (hit_keys ks) = hit_keys ks" by (auto simp: hit_keys_def is_key_def hit_flags filter_id_conv)
  then show ?thesis by (simp add: hit_row_def is_key_def hit_flags hit_keys_def comp_def case_prod_unfold)
qed

lemma hit_row_conforms:
  assumes "hit_ok L vf ef ks" and "i64 v" and "i64 e"
  shows "conforms L (hit_ss vf ef (key_sig ks)) (hit_row vf ef ks v e)"
proof -
  have "list_all2 same_field (map (\<lambda>(n, t). Var t (Some n) None (VF_COPY OR VF_KEY)) (key_sig ks)) (hit_keys ks)"
    by (auto simp: list_all2_conv_all_nth hit_keys_def same_field_def is_key_def hit_flags split: prod.split)
  moreover have "field_ok L v" if "v \<in> set (hit_keys ks)" for v
    using that assms(1) by (auto simp: hit_keys_def field_ok_def hit_ok_def)
  moreover have "length (hit_row vf ef ks v e) \<le> 64" using assms(1) by (simp add: hit_row_def hit_keys_def hit_ok_def)
  moreover have "length (key_bytes L (hit_row vf ef ks v e)) < 2 ^ 31"
    using assms(1) by (simp add: key_bytes_data hit_row_keys hit_ok_def comp_def case_prod_unfold)
  then have "vp_fits L (hit_row vf ef ks v e)"
    using assms(1) by (intro ints_fit) (auto simp: hit_row_def hit_keys_def hit_ok_def is_key_def hit_flags intro: exI [where x = "Some _"])
  ultimately show ?thesis
    using assms(2,3)
    by (auto simp: conforms_def hit_row_def hit_ss_def list_all2_appendI same_field_def is_key_def hit_flags field_ok_def storable_def)
qed

lemma hit_row_unpacked: "map unpacked (hit_row vf ef ks v e) = hit_row vf ef ks v e"
  by (auto simp: hit_row_def hit_keys_def unpacked_def is_key_def hit_flags)

lemma hit_row_fields:
  assumes "hit_ok L vf ef ks"
  shows "vlist_record_get (record_of n f (hit_row vf ef ks v e)) vf = Some (Some (DInt v))"
    and "vlist_record_get (record_of n f (hit_row vf ef ks v e)) ef = Some (Some (DInt e))"
    and "set_number (record_of n f (hit_row vf ef ks v e)) vf i 0 = Some (record_of n f (hit_row vf ef ks i e))"
    and "set_number (record_of n f (hit_row vf ef ks v e)) ef i 0 = Some (record_of n f (hit_row vf ef ks v i))"
proof -
  have vis: "visible (map Some vs @ xs) = vs @ visible xs" for vs xs by (induction vs) simp_all
  have look: "vlist_record_lookup_in (vs @ ws) key = vlist_record_lookup_in ws key" if "\<forall>v \<in> set vs. v_name v \<noteq> Some key" for vs ws key
    using that by (induction vs) auto
  have put: "put_number key i g (map Some vs @ xs) = map Some vs @ put_number key i g xs" if "\<forall>v \<in> set vs. v_name v \<noteq> Some key" for vs xs key g
    using that by (induction vs) auto
  have names: "\<forall>v \<in> set (hit_keys ks). v_name v \<noteq> Some vf" "\<forall>v \<in> set (hit_keys ks). v_name v \<noteq> Some ef"
    "vf \<noteq> ef" "ef \<noteq> vf"
    using assms by (auto simp: hit_keys_def hit_ok_def image_iff)
  note d = vlist_record_get_def vlist_record_lookup_def set_number_def record_of_def vlist_items_def vis hit_row_def
    look [OF names(1)] look [OF names(2)] put [OF names(1)] put [OF names(2)] names(3,4)
  show "vlist_record_get (record_of n f (hit_row vf ef ks v e)) vf = Some (Some (DInt v))"
    "vlist_record_get (record_of n f (hit_row vf ef ks v e)) ef = Some (Some (DInt e))"
    "set_number (record_of n f (hit_row vf ef ks v e)) vf i 0 = Some (record_of n f (hit_row vf ef ks i e))"
    "set_number (record_of n f (hit_row vf ef ks v e)) ef i 0 = Some (record_of n f (hit_row vf ef ks v i))"
    by (simp_all add: d)
qed

text \<open>A message that has the keys of a list: reading them changes nothing.\<close>

definition has_hit_key :: "xenv \<Rightarrow> xstate \<Rightarrow> var \<Rightarrow> hit_key \<Rightarrow> bool" where
  "has_hit_key X st key = (\<lambda>(n, t, d). v_type key = VT_STRING \<and> v_data key = Some (DString n) \<and>
     (\<exists>v. key_value X st n = Some (Some v, st) \<and> v_type v = t \<and> v_data v = Some d))"

lemma create_hit_key:
  "storable L t d \<Longrightarrow> var_create t (Some n) (Some d) (VF_COPY OR VF_KEY) = Some (Var t (Some n) (Some d) (VF_COPY OR VF_KEY))"
  by (simp add: var_create_def var_init_def var_data_init_def hit_flags storable_copy)

lemma key_fields_row:
  assumes "list_all2 (has_hit_key X st) keys ks" and "\<forall>(n, t, d) \<in> set ks. storable L t d"
  shows "key_fields X keys True (record_of nm g vs) st = Some (Some (record_of nm g (vs @ hit_keys ks)), st)"
  using assms
proof (induction keys ks arbitrary: vs rule: list_all2_induct)
  case (Cons key keys k ks)
  obtain n t d where k: "k = (n, t, d)" by (cases k)
  with Cons.prems have st: "storable L t d" by simp
  from Cons.hyps(1) Cons.IH [of "vs @ [Var t (Some n) (Some d) (VF_COPY OR VF_KEY)]"] Cons.prems append_item [OF create_hit_key [OF st]]
  show ?case by (auto simp: k has_hit_key_def as_string_def hit_keys_def)
qed (simp add: hit_keys_def)

lemma hitlist_record_row:
  assumes "list_all2 (has_hit_key X st) (visible (hl_keys hl)) ks" and "hit_ok L (hl_value_field hl) (hl_expire_field hl) ks"
  shows "hitlist_record X hl True st =
    Some (Some (record_of (Some (case hl_table hl of None \<Rightarrow> hl_name hl | Some t \<Rightarrow> t)) 20 (hit_row (hl_value_field hl) (hl_expire_field hl) ks 0 0)), st)"
proof -
  have list: "vlist_create (Some n) VF_KEEPNAME = Some (record_of (Some n) 20 [])" for n
    by (simp add: vlist_create_def var_create_def var_init_def var_data_init_def sanitize_def has_flag_def vf_defs record_of_def)
  have int: "var_create VT_INT (Some n) (Some (DInt 0)) VF_COPY = Some (Var VT_INT (Some n) (Some (DInt 0)) VF_COPY)" for n
    by (simp add: var_create_def var_init_def var_data_init_def hit_flags)
  have st: "\<forall>(n, t, d) \<in> set ks. storable L t d" using assms(2) by (simp add: hit_ok_def)
  show ?thesis
    by (simp add: hitlist_record_def list key_fields_row [OF assms(1) st] append_item [OF int] Let_def hit_row_def)
qed

subsection \<open>Counting hits\<close>

definition hit_key_bytes :: "libc \<Rightarrow> string \<Rightarrow> string \<Rightarrow> hit_key list \<Rightarrow> byte list" where
  "hit_key_bytes L vf ef ks = key_bytes L (hit_row vf ef ks 0 0)"

text \<open>The hits of a combination so far, in a table of rows.\<close>

definition hits :: "libc \<Rightarrow> ('g \<Rightarrow> byte list \<rightharpoonup> var list) \<Rightarrow> string \<Rightarrow> string \<Rightarrow> hit_key list \<Rightarrow> 'g \<Rightarrow> int \<Rightarrow> bool" where
  "hits L stored vf ef ks h v \<longleftrightarrow>
     (case stored h (hit_key_bytes L vf ef ks) of
        None \<Rightarrow> v = 0
      | Some vs \<Rightarrow> \<exists>e. i64 e \<and> i64 v \<and> vs = hit_row vf ef ks v e)"

lemma hit_key_bytes_eq:
  assumes "hit_ok L vf ef ks" and "i64 v" and "i64 e"
  shows "key_bytes L (hit_row vf ef ks v e) = hit_key_bytes L vf ef ks"
proof -
  have z: "i64 0" by (simp add: i64_def)
  show ?thesis
    unfolding hit_key_bytes_def key_bytes_fields [OF hit_row_conforms [OF assms] hit_row_conforms [OF assms(1) z z]] hit_row_keys ..
qed

locale hit_store =
  record_store L sname "hit_ss vf ef (key_sig ks)" "dd_get (e_driver E)" "dd_set (e_driver E)" "dd_del (e_driver E)" ok room stored
  for L :: libc and sname and vf ef and ks and E :: "'h env" and ok room stored
begin

lemma get_hits:
  assumes "ok h" and "hit_ok L vf ef ks" and "hits L stored vf ef ks h v"
  shows "\<exists>result. dd_get (e_driver E) h (record_of n f (hit_row vf ef ks 0 0)) = Some (0, result) \<and>
    (result = None \<and> v = 0 \<or> (\<exists>e. i64 e \<and> i64 v \<and> result = Some (record_of sname (VF_COPYNAME OR VF_CREATE) (hit_row vf ef ks v e))))"
proof -
  have "i64 0" by (simp add: i64_def)
  from get [OF assms(1) hit_row_conforms [OF assms(2) this this], of n f] assms(3) show ?thesis
    unfolding hit_key_bytes_def [symmetric] hits_def by (auto split: option.splits)
qed

lemma set_hits:
  assumes "ok h" and "room (Suc k) h" and "hit_ok L vf ef ks" and "i64 v" and "i64 e"
  shows "\<exists>h'. dd_set (e_driver E) h (record_of n f (hit_row vf ef ks v e)) = Some (0, h') \<and> ok h' \<and> room k h' \<and> hits L stored vf ef ks h' v \<and>
    (\<forall>b. b \<noteq> hit_key_bytes L vf ef ks \<longrightarrow> stored h' b = stored h b)"
  using set [OF assms(1,2) hit_row_conforms [OF assms(3-5)], of n f] assms(4,5)
  unfolding hit_key_bytes_eq [OF assms(3-5)] hit_row_unpacked by (auto simp: hits_def)

lemma hit_counts:
  assumes "ok (w_db w)" and "room (Suc k) (w_db w)" and "hit_ok L vf ef ks" and "i64 e"
    and hl: "hl_value_field hl = vf" "hl_expire_field hl = ef" "hl_count hl \<noteq> 0" "hl_update hl \<noteq> 0"
  shows "\<exists>w'. hitlist_hit E False hl name upd (record_of n f (hit_row vf ef ks v e)) w = Some (0, w') \<and>
    spec_get (w_spec w') name = Some (DInt (wrap64 (v + 1))) \<and> ok (w_db w') \<and> room k (w_db w') \<and>
    hits L stored vf ef ks (w_db w') (wrap64 (v + 1)) \<and> (\<forall>b. b \<noteq> hit_key_bytes L vf ef ks \<longrightarrow> stored (w_db w') b = stored (w_db w) b)"
proof -
  let ?v = "wrap64 (v + 1)"
  obtain e1 diff w1 where e1: "hit_expire E hl e w = (e1, diff, w1)" by (cases "hit_expire E hl e w")
  have w1: "w_db w1 = w_db w" "w_x w1 = w_x w" "i64 e1"
    using e1 assms(4) by (auto simp: hit_expire_def ask_def i64_def [of 2147483647] split: if_splits)
  obtain h' where h': "dd_set (e_driver E) (w_db w1) (record_of n f (hit_row vf ef ks ?v e1)) = Some (0, h')" "ok h'" "room k h'"
    "hits L stored vf ef ks h' ?v" "\<forall>b. b \<noteq> hit_key_bytes L vf ef ks \<longrightarrow> stored h' b = stored (w_db w) b"
    using set_hits [OF assms(1-3) _ w1(3), of ?v n f] unfolding w1(1) by auto
  have set: "spec_set_new m VT_INT name (Some (DInt i)) VF_COPY = (0, m(name \<mapsto> Var VT_INT (Some name) (Some (DInt i)) VF_COPY))" for m i
    by (simp add: spec_set_new_def var_create_def var_init_def var_data_init_def hit_flags)
  obtain w2 where w2: "dbt_db_set E w1 (record_of n f (hit_row vf ef ks ?v e1)) = Some (0, w2)" "w_db w2 = h'" "w_x w2 = w_x w1"
    using h'(1) by (auto simp: dbt_db_set_def Let_def)
  have "hitlist_hit E False hl name upd (record_of n f (hit_row vf ef ks v e)) w =
      Some (0, set_spec w2 ((w_spec w2)(name \<mapsto> Var VT_INT (Some name) (Some (DInt ?v)) VF_COPY)))"
    by (simp add: hitlist_hit_def hl hit_row_fields [OF assms(3)] as_int_def hit_value_def e1 w2 set)
  with h' w2 show ?thesis by (simp add: spec_get_def)
qed

end

text \<open>Tables in memory.\<close>

definition hit_config :: "string \<Rightarrow> string \<Rightarrow> hit_key list \<Rightarrow> string option \<Rightarrow> u32 \<Rightarrow> dbt_config \<Rightarrow> dbt_config" where
  "hit_config vf ef ks sname sf cfg = cfg\<lparr>dbt_scheme := record_of sname sf (hit_ss vf ef (key_sig ks))\<rparr>"

interpretation hit_memdb: hit_store L sname vf ef ks "hit_env (memdb_init L (hit_config vf ef ks sname sf cfg)) E"
  "memdb_ok L (hit_ss vf ef (key_sig ks))" memdb_room "memdb_stored L (hit_ss vf ef (key_sig ks))" for L sname sf vf ef ks cfg E
  using memdb.record_store_axioms [of L sname "hit_ss vf ef (key_sig ks)" sf]
  by (simp add: hit_store_def hit_env_def memdb_init_def hit_config_def dbt_driver.truncate_def)

text \<open>A list that counts, open on a table in memory that has room for \<open>n\<close> records and knows \<open>v\<close> hits.\<close>

definition counting_list ::
  "libc \<Rightarrow> hit_key list \<Rightarrow> nat \<Rightarrow> int \<Rightarrow> vp ht hitlist \<Rightarrow> bool" where
  "counting_list L ks n v hl \<longleftrightarrow>
     (let vf = hl_value_field hl; ef = hl_expire_field hl; h = dbt_handle (hl_dbt hl) in
      hl_connected hl \<and> hl_create hl \<noteq> 0 \<and> hl_update hl \<noteq> 0 \<and> hl_count hl \<noteq> 0 \<and> hit_ok L vf ef ks \<and>
      (\<exists>sname sf cfg. dbt_driver (hl_dbt hl) = Some (memdb_init L (hit_config vf ef ks sname sf cfg))) \<and>
      memdb_ok L (hit_ss vf ef (key_sig ks)) h \<and> memdb_room n h \<and> hits L (memdb_stored L (hit_ss vf ef (key_sig ks))) vf ef ks h v)"

lemma lookup_counts:
  assumes "counting_list L ks (Suc n) v hl" and "list_all2 (has_hit_key (e_x E (w_db w)) (w_x w)) (visible (hl_keys hl)) ks"
  shows "\<exists>hl' tables' w'. hitlist_lookup E S (\<lambda>_. False) (Some hl) name tables w = Some (0, hl', tables', w') \<and>
    spec_get (w_spec w') name = Some (DInt (wrap64 (v + 1))) \<and> counting_list L ks n (wrap64 (v + 1)) hl' \<and>
    hl_keys hl' = hl_keys hl \<and> w_db w' = w_db w"
proof -
  let ?vf = "hl_value_field hl" and ?ef = "hl_expire_field hl" and ?h = "dbt_handle (hl_dbt hl)"
  let ?ss = "hit_ss ?vf ?ef (key_sig ks)" and ?w = "w\<lparr>w_db := dbt_handle (hl_dbt hl)\<rparr>"
  from assms(1) obtain sname sf cfg where
    hl: "hl_connected hl" "hl_create hl \<noteq> 0" "hl_update hl \<noteq> 0" "hl_count hl \<noteq> 0" "hit_ok L ?vf ?ef ks"
    "dbt_driver (hl_dbt hl) = Some (memdb_init L (hit_config ?vf ?ef ks sname sf cfg))"
    and h: "memdb_ok L ?ss ?h" "memdb_room (Suc n) ?h" "hits L (memdb_stored L ?ss) ?vf ?ef ks ?h v"
    unfolding counting_list_def Let_def by blast
  let ?E = "hit_env (memdb_init L (hit_config ?vf ?ef ks sname sf cfg)) E"
  let ?row = "\<lambda>e. hit_row ?vf ?ef ks v e"
  let ?name = "Some (case hl_table hl of None \<Rightarrow> hl_name hl | Some t \<Rightarrow> t)"
  obtain result where res: "dd_get (e_driver ?E) ?h (record_of ?name 20 (hit_row ?vf ?ef ks 0 0)) = Some (0, result)"
    "result = None \<and> v = 0 \<or> (\<exists>e. i64 e \<and> i64 v \<and> result = Some (record_of sname (VF_COPYNAME OR VF_CREATE) (?row e)))"
    using hit_memdb.get_hits [OF h(1) hl(5) h(3), of sname sf cfg E ?name 20] by blast
  have "\<exists>nm f e. i64 e \<and> (case result of None \<Rightarrow> record_of ?name 20 (hit_row ?vf ?ef ks 0 0) | Some r \<Rightarrow> r) = record_of nm f (?row e)"
  proof (cases result)
    case None
    with res(2) have "v = 0" by auto
    then show ?thesis using None by (intro exI [of _ ?name] exI [of _ 20] exI [of _ 0]) (simp add: i64_def)
  next
    case (Some r)
    with res(2) show ?thesis by auto
  qed
  then obtain nm f e where e: "i64 e"
    "(case result of None \<Rightarrow> record_of ?name 20 (hit_row ?vf ?ef ks 0 0) | Some r \<Rightarrow> r) = record_of nm f (?row e)" by blast
  have "\<exists>w'. hitlist_hit ?E False hl name (result \<noteq> None) (record_of nm f (?row e)) ?w = Some (0, w') \<and>
      spec_get (w_spec w') name = Some (DInt (wrap64 (v + 1))) \<and> memdb_ok L ?ss (w_db w') \<and> memdb_room n (w_db w') \<and>
      hits L (memdb_stored L ?ss) ?vf ?ef ks (w_db w') (wrap64 (v + 1)) \<and>
      (\<forall>b. b \<noteq> hit_key_bytes L ?vf ?ef ks \<longrightarrow> memdb_stored L ?ss (w_db w') b = memdb_stored L ?ss (w_db ?w) b)"
    by (rule hit_memdb.hit_counts) (use h hl e(1) in simp_all)
  then obtain w' where w': "hitlist_hit ?E False hl name (result \<noteq> None) (record_of nm f (?row e)) ?w = Some (0, w')"
    "spec_get (w_spec w') name = Some (DInt (wrap64 (v + 1)))" "memdb_ok L ?ss (w_db w')" "memdb_room n (w_db w')"
    "hits L (memdb_stored L ?ss) ?vf ?ef ks (w_db w') (wrap64 (v + 1))" by blast
  have get: "dbt_db_get ?E ?w (record_of ?name 20 (hit_row ?vf ?ef ks 0 0)) = Some (0, result)"
    using res(1) by (simp add: dbt_db_get_def)
  have open0: "hitlist_db_open (e_x E (w_db w)) S hl tables (w_x w) = Some (0, hl, tables, w_x w)"
    using hl(1) by (simp add: hitlist_db_open_def)
  let ?hl = "hl\<lparr>hl_dbt := (hl_dbt hl)\<lparr>dbt_handle := w_db w'\<rparr>\<rparr>"
  have "\<exists>tables'. hitlist_lookup E S (\<lambda>_. False) (Some hl) name tables w = Some (0, ?hl, tables', w'\<lparr>w_db := w_db w\<rparr>)"
    unfolding hitlist_lookup_def bind.bind_lunit Let_def open0 prod.case
    using hl(2,6) get w'(1) by (simp add: hitlist_record_row [OF assms(2) hl(5)] e(2))
  moreover have "counting_list L ks n (wrap64 (v + 1)) ?hl"
    using hl w'(3-5) by (auto simp: counting_list_def Let_def)
  ultimately show ?thesis using w'(2) by fastforce
qed

text \<open>Messages with the attributes \<open>x\<close>, one after the other, and the values that the symbol gets.\<close>

fun hit_run ::
  "'h env \<Rightarrow> 'h dbt_setup \<Rightarrow> string \<Rightarrow> xstate \<Rightarrow> nat \<Rightarrow> 'h hitlist \<Rightarrow> 'h dbt sht \<Rightarrow> 'h world \<Rightarrow> (int list \<times> 'h hitlist) option" where
  "hit_run E S name x 0 hl tables w = Some ([], hl)"
| "hit_run E S name x (Suc n) hl tables w =
     do {
       (r, hl1, tables1, w1) \<leftarrow> hitlist_lookup E S (\<lambda>_. False) (Some hl) name tables (w\<lparr>w_x := x\<rparr>);
       i \<leftarrow> as_int (spec_get (w_spec w1) name);
       (is, hl2) \<leftarrow> hit_run E S name x n hl1 tables1 w1;
       Some (i # is, hl2) }"

text \<open>A list with the key \<open>$k\<close> on an empty table, and a message with this variable.\<close>

definition hit_demo_keys :: "hit_key list" where "hit_demo_keys = [(''$k'', VT_STRING, DString ''x'')]"

definition hit_demo_table :: "dbt_config" where
  "hit_demo_table = \<lparr>dbt_name = ''h'', dbt_config_key = None, dbt_drivername = Some (DString ''memdb''), dbt_path = None,
     dbt_host = None, dbt_port = None, dbt_user = None, dbt_pass = None, dbt_database = None,
     dbt_scheme = record_of (Some ''h'') 20 (hit_ss ''v'' ''e'' (key_sig hit_demo_keys)), dbt_cleanup_interval = 0,
     dbt_cleanup_schedule = 0, dbt_validate = True, dbt_expire_field = ''e''\<rparr>"

definition hit_demo :: "vp ht hitlist" where
  "hit_demo = \<lparr>hl_name = ''h'', hl_connected = True,
     hl_dbt = dbt_config.extend hit_demo_table \<lparr>dbt_driver = Some (memdb_init word_libc hit_demo_table), dbt_handle = memdb_open, dbt_open = True\<rparr>,
     hl_scheme = None, hl_keys = [Some (Var VT_STRING None (Some (DString ''$k'')) 0)], hl_create = 1, hl_update = 1, hl_count = 1,
     hl_timeout = 60, hl_extend = 1, hl_cleanup = 1, hl_sum = None, hl_table = None, hl_value_field = ''v'', hl_expire_field = ''e''\<rparr>"

definition hit_message :: xstate where
  "hit_message = \<lparr>xs_spec = [ACL_VARIABLES \<mapsto> Var VT_TABLE (Some ACL_VARIABLES)
       (Some (DTable [Var VT_STRING (Some ''k'') (Some (DString ''x'')) 0])) 0], xs_const = (\<lambda>_. EXP_EMPTY)\<rparr>"

definition hit_demo_env :: "vp ht env" where
  "hit_demo_env = \<lparr>e_x = (\<lambda>_. demo_env), e_driver = dbt_driver.truncate (memdb_init word_libc hit_demo_table),
     e_answer = (\<lambda>_ _. 1000), cf_acl_log_level = 6, cf_greylist_deadline = 3600, cf_greylist_visa = 7200,
     cf_tarpit_progress_interval = 10, cf_dbt_fatal_errors = False\<rparr>"

lemma hit_demo_ok: "hit_ok L ''v'' ''e'' hit_demo_keys"
  by (simp add: hit_ok_def hit_demo_keys_def storable_def)

lemma hit_demo_counts: "counting_list word_libc hit_demo_keys 3 0 hit_demo"
proof -
  have "hit_demo_table = hit_config ''v'' ''e'' hit_demo_keys (Some ''h'') 20 hit_demo_table"
    by (simp add: hit_config_def hit_demo_table_def)
  then show ?thesis
    unfolding counting_list_def Let_def
    by (intro conjI exI [of _ "Some ''h''"] exI [of _ 20] exI [of _ hit_demo_table])
      (simp_all add: hit_demo_def dbt_config.extend_def hits_def memdb_open_stored memdb_open_ok memdb_open_room hit_demo_ok)
qed

lemma hit_message_key: "list_all2 (has_hit_key demo_env hit_message) (visible (hl_keys hit_demo)) hit_demo_keys"
  by (simp add: has_hit_key_def hit_demo_def hit_demo_keys_def hit_message_def key_value_def acl_variable_get_def acl_variables_def
      strip_dollar_def tbl_lookup_def v_key_def)

text \<open>
  C17: a list of hits counts: the symbol of a list that counts, on a table in memory that knows \<open>v\<close> hits of
  a combination of attributes, has the values \<open>v + 1\<close>, \<open>v + 2\<close> and so on in the next messages with this
  combination.
\<close>

theorem hitlist_counts_hits:
  assumes "counting_list L ks n v hl" and "list_all2 (has_hit_key (e_x E (w_db w)) x) (visible (hl_keys hl)) ks"
    and "0 \<le> v" and "v + int n < 2 ^ 63"
  shows "\<exists>hl'. hit_run E S name x n hl tables w = Some (map (\<lambda>i. v + int i + 1) [0..<n], hl') \<and>
    counting_list L ks 0 (v + int n) hl'"
  using assms
proof (induction n arbitrary: v hl tables w)
  case (Suc n)
  let ?w = "w\<lparr>w_x := x\<rparr>"
  have v: "wrap64 (v + 1) = v + 1" using Suc.prems(3,4) by (simp add: wrap64_id i64_def)
  from lookup_counts [OF Suc.prems(1), of E ?w S name tables] Suc.prems(2) obtain hl1 tables1 w1 where
    one: "hitlist_lookup E S (\<lambda>_. False) (Some hl) name tables ?w = Some (0, hl1, tables1, w1)"
    "spec_get (w_spec w1) name = Some (DInt (v + 1))" "counting_list L ks n (v + 1) hl1" "hl_keys hl1 = hl_keys hl" "w_db w1 = w_db w"
    by (auto simp: v)
  from Suc.IH [OF one(3), of w1 tables1] Suc.prems(2-4) one(4,5) obtain hl2 where
    IH: "hit_run E S name x n hl1 tables1 w1 = Some (map (\<lambda>i. v + 1 + int i + 1) [0..<n], hl2)" "counting_list L ks 0 (v + 1 + int n) hl2"
    by auto
  have "map (\<lambda>i. v + int i + 1) [0..<Suc n] = (v + 1) # map (\<lambda>i. v + 1 + int i + 1) [0..<n]"
    by (simp add: map_upt_Suc del: upt_Suc)
  with one(1,2) IH show ?case by (simp add: as_int_def add.commute add.left_commute del: upt_Suc)
qed simp

theorem hitlist_counts_hits_witness:
  "\<forall>S tables. \<exists>hl'. hit_run hit_demo_env S ''h'' hit_message 3 hit_demo tables \<lparr>w_x = hit_message, w_db = memdb_open, w_calls = []\<rparr> =
     Some ([1, 2, 3], hl')"
proof -
  have "list_all2 (has_hit_key (e_x hit_demo_env memdb_open) hit_message) (visible (hl_keys hit_demo)) hit_demo_keys"
    using hit_message_key by (simp add: hit_demo_env_def)
  moreover have "[0..<3] = [0, Suc 0, 2]" by (simp add: upt_rec)
  ultimately show ?thesis
    using hitlist_counts_hits [OF hit_demo_counts, of hit_demo_env "\<lparr>w_x = hit_message, w_db = memdb_open, w_calls = []\<rparr>" hit_message]
    by fastforce
qed

lemma copy_hit_row:
  assumes "hit_ok L vf ef ks"
  shows "VAR_COPY (record_of n f (hit_row vf ef ks v e)) = Some (record_of n VF_COPY (hit_row vf ef ks v e))"
proof -
  have "copy_items (map Some (hit_keys ks) @ xs) = map_option ((@) (map Some (hit_keys ks))) (copy_items xs)"
    if "\<forall>(n, t, d) \<in> set ks. storable L t d" for xs
    using that
  proof (induction ks)
    case (Cons k ks)
    obtain n t d where k: "k = (n, t, d)" by (cases k)
    with Cons show ?case
      by (cases "copy_items xs") (auto simp: hit_keys_def storable_copy hit_flags Let_def)
  next
    case Nil
    show ?case by (cases "copy_items xs") (simp_all add: hit_keys_def)
  qed
  with assms show ?thesis
    by (simp add: VAR_COPY_def record_of_def var_create_def var_init_def var_data_init_def hit_row_def hit_ok_def hit_flags Let_def)
qed

definition safe_row :: "string \<Rightarrow> string \<Rightarrow> hit_key list \<Rightarrow> int \<Rightarrow> int \<Rightarrow> var list" where
  "safe_row vf ef ks v e = hit_keys ks @ [Var VT_INT (Some vf) (Some (DInt v)) (VF_COPY OR VF_SQL_SAFE_UPDATE),
     Var VT_INT (Some ef) (Some (DInt e)) (VF_COPY OR VF_SQL_SAFE_UPDATE)]"

lemma safe_update_row:
  assumes "hit_ok L vf ef ks"
  shows "hitlist_sql_safe_update E (record_of n f (hit_row vf ef ks v e)) vf v' ef e' w =
    dbt_db_set E w (record_of n VF_COPY (safe_row vf ef ks v' e'))"
proof -
  have vis: "visible (map Some vs @ xs) = vs @ visible xs" for vs xs by (induction vs) simp_all
  have look: "vlist_record_lookup_in (vs @ ws) key = vlist_record_lookup_in ws key" if "\<forall>v \<in> set vs. v_name v \<noteq> Some key" for vs ws key
    using that by (induction vs) auto
  have put: "put_number key i g (map Some vs @ xs) = map Some vs @ put_number key i g xs" if "\<forall>v \<in> set vs. v_name v \<noteq> Some key" for vs xs key i g
    using that by (induction vs) auto
  have names: "\<forall>v \<in> set (hit_keys ks). v_name v \<noteq> Some vf" "\<forall>v \<in> set (hit_keys ks). v_name v \<noteq> Some ef" "vf \<noteq> ef" "ef \<noteq> vf"
    using assms by (auto simp: hit_keys_def hit_ok_def image_iff)
  note d = vlist_record_lookup_def set_number_def record_of_def vlist_items_def vis hit_row_def safe_row_def
    look [OF names(1)] look [OF names(2)] put [OF names(1)] put [OF names(2)] names(3,4)
  show ?thesis
    unfolding hitlist_sql_safe_update_def copy_hit_row [OF assms] option.case by (simp add: d)
qed

text \<open>
  an SQL database adds the timeout of a list to the stored expiry with every hit, while other
  databases store the time of the hit plus the timeout: with \<open>n\<close> hits an SQL record lives \<open>n\<close> times as
  long.
\<close>


theorem hitlist_sql_adds_timeout:
  assumes "hit_ok L vf ef ks" and "hl_value_field hl = vf" and "hl_expire_field hl = ef" and "hl_count hl \<noteq> 0" and "hl_update hl \<noteq> 0"
    and "hl_timeout hl \<noteq> 0" and "hl_extend hl \<noteq> 0" and "sql_esc_identifier sql ef = Some col"
    and "sql_esc_value sql (show_int (hl_timeout hl)) = Some t" and "length (show_int (hl_timeout hl)) < 8192"
    and "hitlist_hit E use_sql hl name True (record_of n f (hit_row vf ef ks v e)) w = Some (r, w')"
  shows "let now = e_answer E (w_calls w) C_Time;
      record1 = (if use_sql then record_of n VF_COPY (safe_row vf ef ks 1 (hl_timeout hl))
        else record_of n f (hit_row vf ef ks (wrap64 (v + 1)) (wrap64 (now + hl_timeout hl)))) in
    w_calls w' = C_Sync record1 # C_Time # w_calls w \<and>
    key_value_of L sql (last (safe_row vf ef ks 1 (hl_timeout hl))) = Some (Some (col @ ''='' @ col @ ''+'' @ t))"
proof -
  let ?stored = "if use_sql then record_of n VF_COPY (safe_row vf ef ks 1 (hl_timeout hl))
    else record_of n f (hit_row vf ef ks (wrap64 (v + 1)) (wrap64 (e_answer E (w_calls w) C_Time + hl_timeout hl)))"
  have "key_value_of L sql (last (safe_row vf ef ks 1 (hl_timeout hl))) = Some (Some (col @ ''='' @ col @ ''+'' @ t))"
    using assms(8-10)
    by (simp add: safe_row_def key_value_of_def column_of_def value_of_def value_text_def SQL_BUFLEN_def has_flag_def vf_defs
        VF_SQL_SAFE_UPDATE_def var_dump_data_def dump_str_def)
  moreover have "w_calls w' = C_Sync ?stored # C_Time # w_calls w"
  proof -
    let ?w = "w\<lparr>w_calls := C_Time # w_calls w\<rparr>"
    obtain s w2 where "dbt_db_set E ?w ?stored = Some (s, w2)" "w_calls w' = w_calls w2"
      using assms(11)
      by (auto simp: hitlist_hit_def assms(2-7) hit_row_fields [OF assms(1)] as_int_def hit_value_def hit_expire_def ask_def
          safe_update_row [OF assms(1)] bind_eq_Some_conv case_prod_unfold split: if_splits)
    then show ?thesis by (auto simp: dbt_db_set_def ask_def Let_def bind_eq_Some_conv split: if_splits)
  qed
  ultimately show ?thesis by (simp add: Let_def)
qed

definition sql_demo_env :: "vp ht env" where
  "sql_demo_env = hit_demo_env\<lparr>e_driver := \<lparr>dd_get = (\<lambda>_ _. Some (0, None)), dd_set = (\<lambda>h _. Some (0, h)), dd_del = (\<lambda>h _. Some (0, h))\<rparr>\<rparr>"

theorem hitlist_sql_adds_timeout_witness:
  "\<exists>r w'. hitlist_hit sql_demo_env True hit_demo ''h'' True (record_of None 20 (hit_row ''v'' ''e'' hit_demo_keys 1 1030))
      \<lparr>w_x = hit_message, w_db = memdb_open, w_calls = []\<rparr> = Some (r, w') \<and>
    w_calls w' = [C_Sync (record_of None VF_COPY (safe_row ''v'' ''e'' hit_demo_keys 1 60)), C_Time]"
proof -
  let ?w = "\<lparr>w_x = hit_message, w_db = memdb_open, w_calls = []\<rparr>" and ?r = "record_of None 20 (hit_row ''v'' ''e'' hit_demo_keys 1 1030)"
  have hl: "hl_value_field hit_demo = ''v''" "hl_expire_field hit_demo = ''e''" "hl_count hit_demo \<noteq> 0" "hl_update hit_demo \<noteq> 0"
    "hl_timeout hit_demo \<noteq> 0" "hl_extend hit_demo \<noteq> 0" "hl_timeout hit_demo = 60"
    by (simp_all add: hit_demo_def)
  have len: "length (show_int (hl_timeout hit_demo)) < 8192" by (simp add: hl(7) show_int_def show_nat.simps)
  obtain r w' where hit: "hitlist_hit sql_demo_env True hit_demo ''h'' True ?r ?w = Some (r, w')"
    by (auto simp: hitlist_hit_def hl hit_row_fields [OF hit_demo_ok] as_int_def hit_value_def hit_expire_def ask_def
        safe_update_row [OF hit_demo_ok] dbt_db_set_def Let_def sql_demo_env_def case_prod_unfold)
  obtain sql :: sql where sql: "sql_esc_identifier sql ''e'' = Some ''e''" "sql_esc_value sql x = Some x" for x
    by (rule that [of "undefined\<lparr>sql_esc_identifier := Some, sql_esc_value := Some\<rparr>"]) simp_all
  from hitlist_sql_adds_timeout [OF hit_demo_ok [of word_libc] hl(1-6) sql(1) sql(2) len hit] hit hl(7) show ?thesis
    by (auto simp: Let_def)
qed

end
