(* ===== verification/Dnsbl.thy ===== *)
theory Dnsbl
  imports World
begin

section \<open>Lists of addresses in the DNS (modules/dnsbl.c)\<close>

text \<open>
  \<open>src/src/modules/dnsbl.c\<close>: symbols that ask a list in the DNS for the address of the client. The name
  that is asked for has the parts of the address in reverse order: numbers of an IPv4 address, hexadecimal
  digits of an IPv6 address. The resolver is an argument.
\<close>

definition DNSBL_NAME :: string where "DNSBL_NAME = ''dnsbl''"

definition dnsbl_register :: "string \<Rightarrow> string \<Rightarrow> string sht \<Rightarrow> int \<times> string sht" where
  "dnsbl_register name domain dnsbl_table =
     (case sht_insert [] dnsbl_table name (Some domain) of (r, t, _) \<Rightarrow> (if r \<noteq> 0 then -1 else 0, t))"

definition dnsbl_list :: "mailspec \<Rightarrow> int \<times> mailspec" where
  "dnsbl_list m = (case spec_list_get m DNSBL_NAME of (l, m1) \<Rightarrow> (if l = None then -1 else 0, m1))"

subsection \<open>Names of IPv6 addresses\<close>

definition zeroes :: string where "zeroes = concat (replicate 32 ''0.'')"

text \<open>
  The loop of \<open>dnsbl_ipv6_query\<close>, which reads the address from its end. The pointer into the buffer is
  \<open>byte * 2\<close>. A colon at the very beginning makes it look at the character before the address; a write
  after the end of the text would take its terminator away.
\<close>

fun ipv6_loop :: "int \<Rightarrow> string \<Rightarrow> int \<Rightarrow> string \<Rightarrow> string option" where
  "ipv6_loop blocks [] byte buffer = Some buffer"
| "ipv6_loop blocks (c # rest) byte buffer =
     (if c \<noteq> CHR '':'' then
        (if byte < 0 \<or> byte * 2 \<ge> int (length buffer) then None
         else ipv6_loop blocks rest (byte + 1) (buffer[nat (byte * 2) := c]))
      else
        (let byte1 = (if byte smod 4 \<noteq> 0 then byte + (4 - byte smod 4) else byte) in
         (case rest of
            [] \<Rightarrow> None
          | d # rest1 \<Rightarrow>
              if d = CHR '':'' then ipv6_loop blocks rest1 (byte1 + (8 - blocks) * 4) buffer
              else ipv6_loop blocks rest byte1 buffer)))"

definition dnsbl_ipv6_query :: "nat \<Rightarrow> string \<Rightarrow> string \<Rightarrow> (int \<times> string) option" where
  "dnsbl_ipv6_query sz addr domain =
     (if sz < length zeroes + length domain + 1 then Some (-1, [])
      else if addr = [] then None
      else
        (let colons = int (length (filter (\<lambda>c. c = CHR '':'') addr));
             blocks = colons - (if hd addr = CHR '':'' then 1 else 0) - (if last addr = CHR '':'' then 1 else 0) in
         do {
           buffer \<leftarrow> ipv6_loop blocks (rev addr) 0 (zeroes @ domain);
           Some (0, util_tolower buffer) }))"

subsection \<open>Names of IPv4 addresses\<close>

text \<open>The pointers \<open>b\<close>, as the texts they point to when all dots have been replaced.\<close>

fun ipv4_parts :: "nat \<Rightarrow> string \<Rightarrow> string list" where
  "ipv4_parts 0 p = []"
| "ipv4_parts (Suc i) p =
     (let b = (if p \<noteq> [] \<and> hd p = CHR ''.'' then tl p else p) in
      if i = 0 then [b]
      else (case strchr b (CHR ''.'') of None \<Rightarrow> [b] | Some p1 \<Rightarrow> takeWhile (\<lambda>c. c \<noteq> CHR ''.'') b # ipv4_parts i p1))"

text \<open>With fewer parts the pointers that are printed have no value.\<close>

definition dnsbl_ipv4_query :: "nat \<Rightarrow> string \<Rightarrow> string \<Rightarrow> (int \<times> string) option" where
  "dnsbl_ipv4_query sz addr domain =
     (if length addr + 1 > 16 then Some (-1, [])
      else
        (case ipv4_parts 4 addr of
           [b0, b1, b2, b3] \<Rightarrow>
             (let query = b3 @ ''.'' @ b2 @ ''.'' @ b1 @ ''.'' @ b0 @ ''.'' @ domain in
              Some (if length query \<ge> sz then (-1, take (sz - 1) query) else (0, query)))
         | _ \<Rightarrow> None))"

subsection \<open>Queries\<close>

text \<open>What \<open>getaddrinfo\<close> answers: an address, \<open>EAI_NONAME\<close> or \<open>EAI_NODATA\<close>, or another error.\<close>

datatype gai = Gai_Found sockaddr | Gai_None | Gai_Error

definition dnsbl_query ::
  "xenv \<Rightarrow> (string \<Rightarrow> gai) \<Rightarrow> string sht \<Rightarrow> string \<Rightarrow> xstate \<Rightarrow> (int \<times> xstate) option" where
  "dnsbl_query X getaddrinfo dnsbl_table name st0 =
     (let st = st0\<lparr>xs_spec := snd (dnsbl_list (xs_spec st0))\<rparr> in
      case sht_lookup dnsbl_table name of
        None \<Rightarrow> Some (-1, st)
      | Some domain \<Rightarrow>
          do {
            (r, ds, st1) \<leftarrow> acl_symbol_dereference X st [''hostaddr'', ''hostaddr_str''];
            let null = (case spec_set_new (xs_spec st1) VT_ADDR name None VF_COPYNAME of
                          (r, m) \<Rightarrow> Some (if r \<noteq> 0 then -1 else 0, st1\<lparr>xs_spec := m\<rparr>));
            if r \<noteq> 0 then Some (-1, st1)
            else
              (case ds ! 0 of
                 None \<Rightarrow> null
               | Some (DAddr addr) \<Rightarrow>
                   do {
                     hostaddr_str \<leftarrow> as_string (ds ! 1);
                     (r, query) \<leftarrow> (case addr of
                                      Inet6 _ _ \<Rightarrow> dnsbl_ipv6_query 1024 hostaddr_str domain
                                    | _ \<Rightarrow> dnsbl_ipv4_query 1024 hostaddr_str domain);
                     if r \<noteq> 0 then Some (-1, st1)
                     else
                       (case getaddrinfo query of
                          Gai_Error \<Rightarrow> Some (-1, st1)
                        | Gai_None \<Rightarrow> null
                        | Gai_Found a \<Rightarrow>
                            (case fst (util_hostaddr [] (Some a)) of
                               None \<Rightarrow> Some (-1, st1)
                             | Some data \<Rightarrow>
                                 if fst (util_addrtostr (ntop4 (x_libc X)) (ntop6 (x_libc X)) [] (Some data)) = None then Some (-1, st1)
                                 else
                                   (case spec_set_new (xs_spec st1) VT_ADDR name (Some (DAddr data)) VF_COPYNAME of
                                      (r, m) \<Rightarrow>
                                        if r \<noteq> 0 then Some (-1, st1\<lparr>xs_spec := m\<rparr>)
                                        else
                                          do {
                                            (r, m1) \<leftarrow> spec_list_append_new m VT_STRING DNSBL_NAME (Some (DString name)) VF_KEEP;
                                            Some (if r \<noteq> 0 then -1 else 0, st1\<lparr>xs_spec := m1\<rparr>) }))) }
               | _ \<Rightarrow> None) })"

text \<open>
  \<open>dnsbl_init\<close> registers the entries of the configuration in the order of its table, and the symbol of
  the list after them; the symbols are evaluated once per connection.
\<close>

fun dnsbl_init_from :: "(string \<times> string) list \<Rightarrow> string sht \<Rightarrow> (string \<times> int) list \<Rightarrow> int \<times> string sht \<times> (string \<times> int) list" where
  "dnsbl_init_from [] table syms = (0, table, syms @ [(DNSBL_NAME, MS_OFF_CONNECT)])"
| "dnsbl_init_from ((name, domain) # entries) table syms =
     (case dnsbl_register name domain table of
        (r, table1) \<Rightarrow>
          if r \<noteq> 0 then (-1, table1, syms) else dnsbl_init_from entries table1 (syms @ [(name, MS_OFF_CONNECT)]))"

definition dnsbl_init ::
  "(string \<times> string) list option \<Rightarrow> (int \<times> string sht option \<times> (string \<times> int) list) option" where
  "dnsbl_init config =
     (case config of
        None \<Rightarrow> Some (0, None, [])
      | Some entries \<Rightarrow>
          do {
            (created, _) \<leftarrow> sht_create [] 32 False;
            table \<leftarrow> created;
            Some (case dnsbl_init_from entries table [] of (r, t, syms) \<Rightarrow> (r, Some t, syms)) })"

subsection \<open>The text of IPv6 addresses\<close>

text \<open>
  Groups of one to four digits, joined by colons. An omission of zeros stands for at least one group.
\<close>

definition hex_group :: "string \<Rightarrow> bool" where
  "hex_group g \<longleftrightarrow> g \<noteq> [] \<and> length g \<le> 4 \<and> CHR '':'' \<notin> set g"

fun colons :: "string list \<Rightarrow> string" where
  "colons [] = []"
| "colons [g] = g"
| "colons (g # gs) = g @ '':'' @ colons gs"

datatype ipv6 = Preferred "string list" | Compressed "string list" "string list"

definition ipv6_ok :: "ipv6 \<Rightarrow> bool" where
  "ipv6_ok a = (case a of
     Preferred gs \<Rightarrow> length gs = 8 \<and> list_all hex_group gs
   | Compressed ls rs \<Rightarrow> length ls + length rs < 8 \<and> list_all hex_group (ls @ rs))"

text \<open>
  The texts of IPv6 addresses with hexadecimal groups only. The form \<open>::ffff:192.0.2.1\<close>, which \<open>inet_ntop\<close> gives
  for mapped addresses, is not among them.
\<close>

definition ipv6_text :: "ipv6 \<Rightarrow> string" where
  "ipv6_text a = (case a of Preferred gs \<Rightarrow> colons gs | Compressed ls rs \<Rightarrow> colons ls @ ''::'' @ colons rs)"

definition pad4 :: "string \<Rightarrow> string" where
  "pad4 g = replicate (4 - length g) CHR ''0'' @ g"

definition nibbles :: "ipv6 \<Rightarrow> string" where
  "nibbles a = concat (map pad4 (case a of
     Preferred gs \<Rightarrow> gs | Compressed ls rs \<Rightarrow> ls @ replicate (8 - length ls - length rs) ''0'' @ rs))"

text \<open>The name of an address: its digits from the last to the first, each followed by a dot.\<close>

definition dotted_nibbles :: "string \<Rightarrow> string" where
  "dotted_nibbles ns = concat (map (\<lambda>c. [c, CHR ''.'']) ns)"

definition ipv6_name :: "ipv6 \<Rightarrow> string \<Rightarrow> string" where
  "ipv6_name a domain = util_tolower (dotted_nibbles (rev (nibbles a)) @ domain)"

subsection \<open>The loop writes the digits\<close>

definition laid_over :: "string \<Rightarrow> string \<Rightarrow> string" where
  "laid_over domain ns = dotted_nibbles ns @ drop (2 * length ns) zeroes @ domain"

lemma length_dotted_nibbles [simp]: "length (dotted_nibbles ns) = 2 * length ns"
  by (induction ns) (simp_all add: dotted_nibbles_def)

lemma length_zeroes [simp]: "length zeroes = 64"
  by (simp add: zeroes_def numeral_eq_Suc)

lemma drop_zeroes:
  assumes "n < 32"
  shows "drop (2 * n) zeroes = ''0.'' @ drop (2 * Suc n) zeroes"
proof -
  have "drop (2 * n) (concat (replicate k ''0.'')) = ''0.'' @ drop (2 * Suc n) (concat (replicate k ''0.''))" if "n < k" for k
    using that
  proof (induction n arbitrary: k)
    case (Suc n)
    then show ?case by (cases k) auto
  qed (auto dest: gr0_implies_Suc)
  with assms show ?thesis by (simp add: zeroes_def)
qed

lemma laid_over_digit:
  assumes "length ns < 32"
  shows "(laid_over domain ns)[2 * length ns := c] = laid_over domain (ns @ [c])"
proof -
  have "(dotted_nibbles ns @ ''0.'' @ xs)[2 * length ns := c] = dotted_nibbles ns @ [c, CHR ''.''] @ xs" for xs
    by (simp add: list_update_append)
  then show ?thesis using assms by (simp add: laid_over_def drop_zeroes dotted_nibbles_def)
qed

lemma laid_over_zeros:
  assumes "length ns + k \<le> 32"
  shows "laid_over domain (ns @ replicate k CHR ''0'') = laid_over domain ns"
  using assms
proof (induction k arbitrary: ns)
  case (Suc k)
  have "laid_over domain (ns @ [CHR ''0'']) = laid_over domain ns"
    using Suc.prems by (simp add: laid_over_def drop_zeroes dotted_nibbles_def)
  with Suc.IH [of "ns @ [CHR ''0'']"] Suc.prems show ?case by simp
qed simp

lemma length_laid_over: "length ns \<le> 32 \<Longrightarrow> length (laid_over domain ns) = 64 + length domain"
  by (simp add: laid_over_def)

lemma loop_digits:
  assumes "CHR '':'' \<notin> set cs" and "length ns + length cs \<le> 32"
  shows "ipv6_loop blocks (cs @ rest) (int (length ns)) (laid_over domain ns) =
    ipv6_loop blocks rest (int (length ns + length cs)) (laid_over domain (ns @ cs))"
  using assms
proof (induction cs arbitrary: ns)
  case (Cons c cs)
  then have "nat (int (length ns) * 2) = 2 * length ns" by simp
  with Cons.IH [of "ns @ [c]"] Cons.prems show ?case
    by (auto simp: length_laid_over laid_over_digit add.commute)
qed simp

text \<open>The groups after one another, from the last; \<open>reached\<close> is where a group ends in the name.\<close>

definition reached :: "string list \<Rightarrow> string" where
  "reached gs = concat (map (rev \<circ> pad4) (rev gs))"

lemma length_pad4: "hex_group g \<Longrightarrow> length (pad4 g) = 4"
  by (simp add: pad4_def hex_group_def)

lemma length_reached: "list_all hex_group gs \<Longrightarrow> length (reached gs) = 4 * length gs"
  by (induction gs) (simp_all add: reached_def length_pad4)

lemma reached_Cons: "reached (g # gs) = reached gs @ rev (pad4 g)"
  by (simp add: reached_def)

definition padded :: "int \<Rightarrow> int" where
  "padded byte = (if byte smod 4 \<noteq> 0 then byte + (4 - byte smod 4) else byte)"

lemma padded_eq: "4 * (int k - 1) < b \<Longrightarrow> b \<le> 4 * int k \<Longrightarrow> 0 \<le> b \<Longrightarrow> padded b = 4 * int k"
proof -
  assume b: "4 * (int k - 1) < b" "b \<le> 4 * int k" "0 \<le> b"
  have "b smod 4 = b mod 4" using b(3) by (cases "b = 0") (simp_all add: signed_modulo_int_def signed_divide_int_def minus_div_mult_eq_mod)
  with b show ?thesis unfolding padded_def by presburger
qed

lemma loop_colon:
  "d \<noteq> CHR '':'' \<Longrightarrow> ipv6_loop blocks (CHR '':'' # d # rest) byte buffer = ipv6_loop blocks (d # rest) (padded byte) buffer"
  "ipv6_loop blocks (CHR '':'' # CHR '':'' # rest) byte buffer = ipv6_loop blocks rest (padded byte + (8 - blocks) * 4) buffer"
  by (simp_all add: padded_def Let_def)

lemma loop_group:
  assumes "hex_group g" and "length ns = 4 * k" and "k < 8"
  shows "ipv6_loop blocks (rev g @ rest) (4 * int k) (laid_over domain ns) =
    ipv6_loop blocks rest (4 * int k + int (length g)) (laid_over domain (ns @ rev (pad4 g)))"
proof -
  have "laid_over domain (ns @ rev (pad4 g)) = laid_over domain (ns @ rev g)"
    using assms laid_over_zeros [of "ns @ rev g" "4 - length g" domain] by (simp add: pad4_def hex_group_def)
  then show ?thesis
    using loop_digits [of "rev g" ns blocks rest domain] assms by (simp add: hex_group_def)
qed

lemma loop_groups:
  assumes "gs \<noteq> []" and "list_all hex_group gs" and "length ns = 4 * k" and "k + length gs \<le> 8"
  shows "\<exists>b. ipv6_loop blocks (rev (colons gs) @ rest) (4 * int k) (laid_over domain ns) =
      ipv6_loop blocks rest b (laid_over domain (ns @ reached gs)) \<and>
    4 * (int (k + length gs) - 1) < b \<and> b \<le> 4 * int (k + length gs)"
  using assms
proof (induction gs arbitrary: rest rule: colons.induct)
  case (2 g)
  with loop_group [of g ns k blocks rest domain] show ?case by (auto simp: reached_def hex_group_def)
next
  case (3 g g' gs)
  let ?gs = "g' # gs"
  from 3 obtain b where b: "ipv6_loop blocks (rev (colons ?gs) @ CHR '':'' # rev g @ rest) (4 * int k) (laid_over domain ns) =
      ipv6_loop blocks (CHR '':'' # rev g @ rest) b (laid_over domain (ns @ reached ?gs))"
    "4 * (int (k + length ?gs) - 1) < b" "b \<le> 4 * int (k + length ?gs)" by fastforce
  have g: "hex_group g" "length (ns @ reached ?gs) = 4 * (k + length ?gs)" "k + length ?gs < 8"
    using "3.prems" by (simp_all add: length_reached)
  obtain d ds where d: "rev g @ rest = d # ds" "d \<noteq> CHR '':''"
    using g(1) by (cases "rev g") (auto simp: hex_group_def dest: arg_cong [where f = set])
  have "padded b = 4 * int (k + length ?gs)" by (rule padded_eq) (use b in auto)
  then have "ipv6_loop blocks (CHR '':'' # rev g @ rest) b (laid_over domain (ns @ reached ?gs)) =
      ipv6_loop blocks rest (4 * int (k + length ?gs) + int (length g)) (laid_over domain (ns @ reached (g # ?gs)))"
    unfolding d(1) loop_colon(1) [OF d(2)] unfolding d(1) [symmetric] using loop_group [OF g] by (simp add: reached_Cons)
  moreover have "0 < length g" "length g \<le> 4" using g(1) by (simp_all add: hex_group_def)
  ultimately show ?case using b(1) by (intro exI [of _ "4 * int (k + length ?gs) + int (length g)"]) auto
qed simp

lemma colons_count: "list_all hex_group gs \<Longrightarrow> length (filter (\<lambda>c. c = CHR '':'') (colons gs)) = length gs - 1"
proof (induction gs rule: colons.induct)
  case (3 g g' gs)
  have "filter (\<lambda>c. c = CHR '':'') g = []" using 3 by (auto simp: filter_empty_conv hex_group_def)
  with 3 show ?case by simp
qed (auto simp: filter_empty_conv hex_group_def)

lemma colons_ends:
  assumes "list_all hex_group gs" and "gs \<noteq> []"
  shows "colons gs \<noteq> []" and "hd (colons gs) \<noteq> CHR '':''" and "last (colons gs) \<noteq> CHR '':''"
proof -
  have "colons gs \<noteq> [] \<and> hd (colons gs) \<noteq> CHR '':'' \<and> last (colons gs) \<noteq> CHR '':''"
    using assms
  proof (induction gs rule: colons.induct)
    case (2 g)
    then show ?case by (auto simp: hex_group_def) (metis hd_in_set, metis last_in_set)
  next
    case (3 g g' gs)
    then show ?case by (auto simp: hex_group_def) (metis hd_in_set)
  qed simp
  then show "colons gs \<noteq> []" "hd (colons gs) \<noteq> CHR '':''" "last (colons gs) \<noteq> CHR '':''" by simp_all
qed

lemma reached_rev: "reached gs = rev (concat (map pad4 gs))"
  by (simp add: reached_def rev_concat rev_map comp_def)

lemma laid_over_all: "length ns = 32 \<Longrightarrow> laid_over domain ns = dotted_nibbles ns @ domain"
  by (simp add: laid_over_def)

lemma loop_from:
  assumes "list_all hex_group gs" and "length ns = 4 * k" and "k + length gs \<le> 8"
  shows "\<exists>b. ipv6_loop blocks (rev (colons gs) @ rest) (4 * int k) (laid_over domain ns) =
      ipv6_loop blocks rest b (laid_over domain (ns @ reached gs)) \<and> padded b = 4 * int (k + length gs)"
proof (cases "gs = []")
  case True
  have "padded (4 * int k) = 4 * int k" by (rule padded_eq) simp_all
  with True show ?thesis by (intro exI [of _ "4 * int k"]) (simp add: reached_def)
next
  case False
  from loop_groups [OF this assms, of blocks rest domain] obtain b where
    b: "ipv6_loop blocks (rev (colons gs) @ rest) (4 * int k) (laid_over domain ns) = ipv6_loop blocks rest b (laid_over domain (ns @ reached gs))"
    "4 * (int (k + length gs) - 1) < b" "b \<le> 4 * int (k + length gs)" by blast
  have "padded b = 4 * int (k + length gs)"
    by (rule padded_eq) (use b False in \<open>auto simp: Suc_le_eq\<close>, (cases gs; simp))
  with b(1) show ?thesis by blast
qed

lemma ipv6_query_name:
  assumes "ipv6_ok a" and "length domain < sz - 64"
  shows "dnsbl_ipv6_query sz (ipv6_text a) domain = Some (0, ipv6_name a domain)"
proof (cases a)
  case (Preferred gs)
  then have gs: "length gs = 8" "list_all hex_group gs" using assms(1) by (simp_all add: ipv6_ok_def)
  then have ends: "colons gs \<noteq> []" by (intro colons_ends) auto
  obtain b where "ipv6_loop blocks (rev (colons gs)) 0 (laid_over domain []) = ipv6_loop blocks [] b (laid_over domain (reached gs))" for blocks
    using loop_from [of gs "[]" 0 _ "[]" domain] gs by auto
  moreover have "laid_over domain (reached gs) = dotted_nibbles (rev (nibbles a)) @ domain"
    using gs by (simp add: laid_over_all length_reached) (simp add: nibbles_def Preferred reached_rev)
  moreover have "laid_over domain [] = zeroes @ domain" by (simp add: laid_over_def dotted_nibbles_def)
  ultimately show ?thesis
    using assms(2) ends by (simp add: dnsbl_ipv6_query_def ipv6_text_def Preferred ipv6_name_def)
next
  case (Compressed ls rs)
  then have gs: "length ls + length rs < 8" "list_all hex_group ls" "list_all hex_group rs"
    using assms(1) by (simp_all add: ipv6_ok_def)
  let ?text = "colons ls @ ''::'' @ colons rs" and ?n = "8 - length ls - length rs"
  let ?blocks = "int (length ls + length rs)"
  have blocks: "int (length (filter (\<lambda>c. c = CHR '':'') ?text)) - (if hd ?text = CHR '':'' then 1 else 0) -
      (if last ?text = CHR '':'' then 1 else 0) = ?blocks"
    using gs colons_ends [of ls] colons_ends [of rs]
    by (cases "ls = []"; cases "rs = []") (auto simp: colons_count hd_append last_append of_nat_diff Suc_le_eq)
  obtain b where b: "ipv6_loop ?blocks (rev (colons rs) @ CHR '':'' # CHR '':'' # rev (colons ls)) 0 (laid_over domain []) =
      ipv6_loop ?blocks (CHR '':'' # CHR '':'' # rev (colons ls)) b (laid_over domain (reached rs))" "padded b = 4 * int (length rs)"
    using loop_from [of rs "[]" 0 ?blocks "CHR '':'' # CHR '':'' # rev (colons ls)" domain] gs
    by (auto simp del: ipv6_loop.simps(2))
  let ?ns = "reached rs @ replicate (4 * ?n) CHR ''0''"
  have ns: "length ?ns = 4 * (8 - length ls)" "laid_over domain ?ns = laid_over domain (reached rs)"
    using gs laid_over_zeros [of "reached rs" "4 * ?n" domain] by (simp_all add: length_reached)
  have "4 * int (length rs) + (8 - ?blocks) * 4 = 4 * int (8 - length ls)" using gs by simp
  then have b2: "ipv6_loop ?blocks (CHR '':'' # CHR '':'' # rev (colons ls)) b (laid_over domain (reached rs)) =
      ipv6_loop ?blocks (rev (colons ls)) (4 * int (8 - length ls)) (laid_over domain ?ns)"
    unfolding loop_colon(2) b(2) ns(2) by simp
  obtain b' where "ipv6_loop ?blocks (rev (colons ls) @ []) (4 * int (8 - length ls)) (laid_over domain ?ns) =
      ipv6_loop ?blocks [] b' (laid_over domain (?ns @ reached ls))"
    using loop_from [OF gs(2) ns(1), of ?blocks "[]" domain] gs by auto
  then have loop: "ipv6_loop ?blocks (rev ?text) 0 (laid_over domain []) = Some (laid_over domain (?ns @ reached ls))"
    using trans [OF b(1) b2] by (simp del: ipv6_loop.simps(2))
  have "concat (replicate m ''0000'') = replicate (4 * m) CHR ''0''" for m
    by (induction m) (simp_all add: numeral_eq_Suc)
  then have "?ns @ reached ls = rev (nibbles a)"
    by (simp add: nibbles_def Compressed reached_rev pad4_def numeral_eq_Suc)
  moreover have "length (?ns @ reached ls) = 32" using ns(1) gs by (simp add: length_reached)
  moreover have "laid_over domain [] = zeroes @ domain" by (simp add: laid_over_def dotted_nibbles_def)
  ultimately show ?thesis
    using assms(2) loop blocks by (simp add: dnsbl_ipv6_query_def ipv6_text_def Compressed ipv6_name_def laid_over_all Let_def)
qed

lemma ipv4_query_name:
  assumes "b0 \<noteq> []" and "CHR ''.'' \<notin> set b0" "CHR ''.'' \<notin> set b1" "CHR ''.'' \<notin> set b2"
    and "length b0 + length b1 + length b2 + length b3 \<le> 12" and "length domain < sz - 16"
  shows "dnsbl_ipv4_query sz (b0 @ ''.'' @ b1 @ ''.'' @ b2 @ ''.'' @ b3) domain =
    Some (0, b3 @ ''.'' @ b2 @ ''.'' @ b1 @ ''.'' @ b0 @ ''.'' @ domain)"
proof -
  have cut: "takeWhile (\<lambda>c. c \<noteq> CHR ''.'') (b @ CHR ''.'' # xs) = b" if "CHR ''.'' \<notin> set b" for b xs
    using that by (induction b) auto
  have hd: "hd b0 \<noteq> CHR ''.''" using assms(1,2) by (metis hd_in_set)
  have "ipv4_parts 4 (b0 @ ''.'' @ b1 @ ''.'' @ b2 @ ''.'' @ b3) = [b0, b1, b2, b3]"
    using assms(1-4) hd by (simp add: numeral_eq_Suc strchr_append cut Let_def hd_append)
  with assms(5,6) show ?thesis by (simp add: dnsbl_ipv4_query_def Let_def)
qed

text \<open>For the excluded form the decimal number is taken for digits: the name asked for is not one of the address.\<close>

lemma dotted_misread:
  "dnsbl_ipv6_query 1024 ''::ffff:192.0.2.1'' ''bl'' =
    Some (0, ''1...2...0...2.9.1.0.0.0.f.f.f.f.0.0.0.0.0.0.0.0.0.0.0.0.0.0.0.0.bl'')"
  by code_simp

text \<open>The name to ask for an address, from the text that the attribute \<open>hostaddr_str\<close> has.\<close>

inductive dnsbl_name :: "sockaddr \<Rightarrow> string \<Rightarrow> string \<Rightarrow> string \<Rightarrow> bool" where
  IPv6: "ipv6_ok a \<Longrightarrow> length domain < 960 \<Longrightarrow> dnsbl_name (Inet6 bytes port) (ipv6_text a) domain (ipv6_name a domain)"
| IPv4: "b0 \<noteq> [] \<Longrightarrow> CHR ''.'' \<notin> set (b0 @ b1 @ b2) \<Longrightarrow> length (b0 @ b1 @ b2 @ b3) \<le> 12 \<Longrightarrow> length domain < 960 \<Longrightarrow>
    dnsbl_name (Inet x port) (b0 @ ''.'' @ b1 @ ''.'' @ b2 @ ''.'' @ b3) domain
      (b3 @ ''.'' @ b2 @ ''.'' @ b1 @ ''.'' @ b0 @ ''.'' @ domain)"

lemma dnsbl_name_query:
  "dnsbl_name addr text0 domain query \<Longrightarrow>
    (case addr of Inet6 _ _ \<Rightarrow> dnsbl_ipv6_query 1024 text0 domain | _ \<Rightarrow> dnsbl_ipv4_query 1024 text0 domain) = Some (0, query)"
  by (induction rule: dnsbl_name.induct) (simp add: ipv6_query_name, simp add: ipv4_query_name [simplified])

text \<open>The names in the attribute \<open>dnsbl\<close>.\<close>

definition listed :: "mailspec \<Rightarrow> string list" where
  "listed m = (case spec_get m DNSBL_NAME of
     Some (DList xs) \<Rightarrow> map (\<lambda>v. case v_data v of Some (DString s) \<Rightarrow> s | _ \<Rightarrow> []) (visible xs) | _ \<Rightarrow> [])"

definition has_list :: "mailspec \<Rightarrow> bool" where
  "has_list m \<longleftrightarrow> (\<forall>v. m DNSBL_NAME = Some v \<longrightarrow> (\<exists>vs. v_data v = Some (DList (map Some vs))))"

text \<open>
  C19: a query in the DNS asks for the address of the client in reverse order, digit by digit for an IPv6 address whose
  text has hexadecimal groups only, with or without omitted zeros, and number by number for an IPv4 address. The text of an
  IPv6 address that ends in a dotted IPv4 address, as \<open>inet_ntop\<close> writes mapped ones, is excluded: for it the
  name is wrong. The domain of the list is assumed to be shorter than 960 bytes and the answers to be IPv4 addresses. The symbol gets the address that is
  found and the name of the list is appended to the attribute \<open>dnsbl\<close>; when nothing is found the symbol
  is \<open>NULL\<close>.
\<close>

theorem dnsbl_asks_reversed:
  assumes "sht_lookup table name = Some domain" and "name \<noteq> DNSBL_NAME" and "has_list (xs_spec st)"
    and "acl_symbol_dereference X (st\<lparr>xs_spec := snd (dnsbl_list (xs_spec st))\<rparr>) [''hostaddr'', ''hostaddr_str''] =
      Some (0, [Some (DAddr addr), Some (DString text0)], st\<lparr>xs_spec := snd (dnsbl_list (xs_spec st))\<rparr>)"
    and "dnsbl_name addr text0 domain query"
    and "\<forall>x. ntop4 (x_libc X) x \<noteq> None" and "\<forall>a. gai query = Gai_Found a \<longrightarrow> (\<exists>x port. a = Inet x port)"
  shows "\<exists>m. dnsbl_query X gai table name st = Some (if gai query = Gai_Error then -1 else 0, st\<lparr>xs_spec := m\<rparr>) \<and>
    (gai query \<noteq> Gai_Error \<longrightarrow>
       spec_get m name = (case gai query of Gai_Found (Inet x port) \<Rightarrow> Some (DAddr (Inet x 0)) | _ \<Rightarrow> None)) \<and>
    listed m = listed (xs_spec st) @ (case gai query of Gai_Found a \<Rightarrow> [name] | _ \<Rightarrow> [])"
proof -
  let ?m = "snd (dnsbl_list (xs_spec st))"
  have new: "vlist_create (Some n) VF_COPYNAME = Some (Var VT_LIST (Some n) (Some (DList [])) (VF_COPYNAME OR VF_CREATE))" for n
    by (simp add: vlist_create_def var_create_def var_init_def var_data_init_def sanitize_def has_flag_def vf_defs)
  have addr: "spec_set_new m VT_ADDR name d VF_COPYNAME = (0, m(name \<mapsto> Var VT_ADDR (Some name) d VF_COPYNAME))" for m d
    by (cases d) (simp_all add: spec_set_new_def var_create_def var_init_def var_data_init_def sanitize_def has_flag_def vf_defs)
  obtain l vs where l: "?m DNSBL_NAME = Some l" "v_data l = Some (DList (map Some vs))" "listed ?m = listed (xs_spec st)"
    using assms(3) by (cases "xs_spec st DNSBL_NAME") (auto simp: dnsbl_list_def spec_list_get_def new has_list_def listed_def spec_get_def)
  show ?thesis
  proof (cases "gai query")
    case (Gai_Found a)
    then obtain x port where a: "a = Inet x port" using assms(7) by blast
    have vis: "visible (map Some vs @ xs) = vs @ visible xs" for vs xs by (induction vs) simp_all
    let ?data = "Var VT_ADDR (Some name) (Some (DAddr (Inet x 0))) VF_COPYNAME" and ?item = "Var VT_STRING None (Some (DString name)) VF_KEEP"
    let ?l = "Var (v_type l) (v_name l) (Some (DList (map Some (vs @ [?item])))) (v_flags l)"
    have "spec_list_append_new (?m(name \<mapsto> ?data)) VT_STRING DNSBL_NAME (Some (DString name)) VF_KEEP =
        Some (0, ?m(name \<mapsto> ?data, DNSBL_NAME \<mapsto> ?l))"
      using l(1,2) assms(2) by (simp add: spec_list_append_new_def spec_list_get_def vlist_append_new_def vlist_append_def vlist_items_def
          var_create_def var_init_def var_data_init_def attribute_flags)
    moreover have "listed (?m(name \<mapsto> ?data, DNSBL_NAME \<mapsto> ?l)) = listed ?m @ [name]"
      using l(1,2) vis [of _ "[]"] by (simp add: listed_def spec_get_def vis)
    ultimately show ?thesis
      using assms(1,2,4,6) dnsbl_name_query [OF assms(5)] l(3) Gai_Found
      by (intro exI [of _ "?m(name \<mapsto> ?data, DNSBL_NAME \<mapsto> ?l)"])
        (simp add: dnsbl_query_def Let_def as_string_def addr a util_hostaddr_def util_addrtostr_def
          del: acl_symbol_dereference.simps split: option.splits)
  next
    case Gai_None
    then show ?thesis
      using assms(1,2,4) dnsbl_name_query [OF assms(5)] l(3)
      by (auto simp: dnsbl_query_def Let_def as_string_def addr listed_def simp del: acl_symbol_dereference.simps)
  next
    case Gai_Error
    then show ?thesis
      using assms(1,2,4) dnsbl_name_query [OF assms(5)] l(3)
      by (auto simp: dnsbl_query_def Let_def as_string_def simp del: acl_symbol_dereference.simps)
  qed
qed

text \<open>A connection from \<open>2001:db8::1\<close>, with the two attributes as symbols without callbacks.\<close>

definition dnsbl_demo_env :: xenv where
  "dnsbl_demo_env = demo_env\<lparr>x_symbols := (\<lambda>name. if name \<in> {''hostaddr'', ''hostaddr_str''}
     then Some \<lparr>as_stages = MS_ANY, as_data = AS_SYMBOL None False\<rparr> else None)\<rparr>"

definition dnsbl_demo_state :: xstate where
  "dnsbl_demo_state = \<lparr>xs_spec = [''stage'' \<mapsto> Var VT_INT (Some ''stage'') (Some (DInt MS_CONNECT)) VF_KEEP,
     ''hostaddr'' \<mapsto> Var VT_ADDR (Some ''hostaddr'') (Some (DAddr (Inet6 [0x20, 1, 0xd, 0xb8, 0, 0, 0, 0, 0, 0, 0, 0, 0, 0, 0, 1] 0))) VF_KEEP,
     ''hostaddr_str'' \<mapsto> Var VT_STRING (Some ''hostaddr_str'') (Some (DString ''2001:db8::1'')) VF_KEEP],
     xs_const = (\<lambda>_. EXP_EMPTY)\<rparr>"

theorem dnsbl_asks_reversed_witness:
  "\<exists>table m. dnsbl_query dnsbl_demo_env
       (\<lambda>q. if q = ''1.0.0.0.0.0.0.0.0.0.0.0.0.0.0.0.0.0.0.0.0.0.0.0.8.b.d.0.1.0.0.2.bl.example'' then Gai_Found (Inet 0x7F000002 0) else Gai_Error)
       table ''bl'' dnsbl_demo_state = Some (0, dnsbl_demo_state\<lparr>xs_spec := m\<rparr>) \<and>
     spec_get m ''bl'' = Some (DAddr (Inet 0x7F000002 0)) \<and> listed m = [''bl'']"
proof -
  let ?m = "snd (dnsbl_list (xs_spec dnsbl_demo_state))" and ?a = "Compressed [''2001'', ''db8''] [''1'']"
  let ?q = "''1.0.0.0.0.0.0.0.0.0.0.0.0.0.0.0.0.0.0.0.0.0.0.0.8.b.d.0.1.0.0.2.bl.example''"
  let ?addr = "Inet6 [0x20, 1, 0xd, 0xb8, 0, 0, 0, 0, 0, 0, 0, 0, 0, 0, 0, 1] 0"
  have "?m = (xs_spec dnsbl_demo_state)(DNSBL_NAME \<mapsto> Var VT_LIST (Some DNSBL_NAME) (Some (DList [])) (VF_COPYNAME OR VF_CREATE))"
    by (simp add: dnsbl_list_def spec_list_get_def dnsbl_demo_state_def DNSBL_NAME_def vlist_create_def var_create_def var_init_def
        var_data_init_def sanitize_def has_flag_def vf_defs)
  then have deref: "acl_symbol_dereference dnsbl_demo_env (dnsbl_demo_state\<lparr>xs_spec := ?m\<rparr>) [''hostaddr'', ''hostaddr_str''] =
      Some (0, [Some (DAddr ?addr), Some (DString ''2001:db8::1'')], dnsbl_demo_state\<lparr>xs_spec := ?m\<rparr>)"
    by (simp add: dnsbl_demo_state_def dnsbl_demo_env_def acl_symbol_get_def acl_symbol_lookup_def spec_get_def DNSBL_NAME_def as_int_def
        ms_defs ms_off_defs deref_opt_def deref_def)
  from sht_single [of "''bl''" "''bl.example''"] obtain table where
    "sht_ok table" "sht_map table = [''bl'' \<mapsto> \<lparr>sr_key = ''bl'', sr_data = Some ''bl.example''\<rparr>]" by (elim exE conjE)
  then have look: "sht_lookup table ''bl'' = Some ''bl.example''" by (simp add: sht_lookup_map)
  have "ipv6_ok ?a" by (simp add: ipv6_ok_def hex_group_def)
  then have "dnsbl_name ?addr (ipv6_text ?a) ''bl.example'' (ipv6_name ?a ''bl.example'')"
    by (intro dnsbl_name.IPv6) simp_all
  moreover have "ipv6_text ?a = ''2001:db8::1''" "ipv6_name ?a ''bl.example'' = ?q" by code_simp+
  ultimately have name: "dnsbl_name ?addr ''2001:db8::1'' ''bl.example'' ?q" by simp
  have list: "has_list (xs_spec dnsbl_demo_state)" "listed (xs_spec dnsbl_demo_state) = []" "''bl'' \<noteq> DNSBL_NAME"
    by (simp_all add: has_list_def listed_def dnsbl_demo_state_def DNSBL_NAME_def spec_get_def)
  have ntop: "\<forall>x. ntop4 (x_libc dnsbl_demo_env) x \<noteq> None" by (simp add: dnsbl_demo_env_def demo_env_def word_libc_def)
  define gai where "gai = (\<lambda>q. if q = ?q then Gai_Found (Inet 0x7F000002 0) else Gai_Error)"
  have found: "gai ?q = Gai_Found (Inet 0x7F000002 0)" unfolding gai_def by (rule if_P) (rule refl)
  then have inet: "\<forall>a. gai ?q = Gai_Found a \<longrightarrow> (\<exists>x port. a = Inet x port)" by simp
  show ?thesis
    using dnsbl_asks_reversed [where gai = gai, OF look list(3,1) deref name ntop inet]
    unfolding gai_def [symmetric] found list(2) by (intro exI [of _ table]) simp
qed

end
