(* ===== verification/Config.thy ===== *)
theory Config
  imports World "HOL-Library.Sublist"
begin

section \<open>Configuration and the files of a parser (cf.c, parser.c)\<close>

text \<open>
  \<open>src/src/parser.c\<close> keeps the stack of included files for both lexers. \<open>src/src/cf.c\<close> keeps the
  configuration, a table of variables and further tables, which the built-in defaults and then the
  configuration file fill with assignments. The generated parsers are not part of the program's
  text: a parse is the list of assignments that it makes.
\<close>

subsection \<open>Files (parser.c)\<close>

definition PARSER_PATHLEN :: nat where "PARSER_PATHLEN = 256"

definition PARSER_MAXSTACK :: nat where "PARSER_MAXSTACK = 10"

record 'b parser_file =
  pf_line :: int
  pf_path :: string
  pf_filename :: string
  pf_yy_buffer :: "'b option"

text \<open>
  \<open>p_files\<close> has the files in the order of their creation, where the program pushes them at the head of
  its list; the stack refers to them.
\<close>

record 'b parser =
  p_stack :: "nat list"
  p_files :: "'b parser_file list"

definition parser_file_create :: "string \<Rightarrow> 'b parser_file" where
  "parser_file_create path =
     (let p = take (PARSER_PATHLEN - 1) path in
      \<lparr>pf_line = 1, pf_path = p, pf_filename = (case strrchr p (CHR ''/'') of None \<Rightarrow> p | Some f \<Rightarrow> tl f), pf_yy_buffer = None\<rparr>)"

definition parser_init :: "'b parser" where
  "parser_init = \<lparr>p_stack = [], p_files = []\<rparr>"

definition parser_clear :: "'b parser \<Rightarrow> 'b parser" where
  "parser_clear p = p\<lparr>p_files := []\<rparr>"

text \<open>\<open>parser_current_file\<close>: with an empty stack the oldest file.\<close>

definition parser_current_file :: "'b parser \<Rightarrow> nat option" where
  "parser_current_file p = (case p_stack p of i # _ \<Rightarrow> Some i | [] \<Rightarrow> if p_files p \<noteq> [] then Some 0 else None)"

definition parser_stack :: "'b parser \<Rightarrow> 'b option \<Rightarrow> string \<Rightarrow> 'b parser option" where
  "parser_stack p yy_buffer path =
     (let files = (case parser_current_file p of
                     None \<Rightarrow> p_files p
                   | Some i \<Rightarrow> (p_files p)[i := (p_files p ! i)\<lparr>pf_yy_buffer := yy_buffer\<rparr>]) in
      if length (p_stack p) > PARSER_MAXSTACK then None
      else Some \<lparr>p_stack = length files # p_stack p, p_files = files @ [parser_file_create path]\<rparr>)"

definition parser_pop :: "'b parser \<Rightarrow> nat \<times> 'b parser" where
  "parser_pop p = (length (tl (p_stack p)), p\<lparr>p_stack := tl (p_stack p)\<rparr>)"

definition current :: "'b parser \<Rightarrow> 'b parser_file option" where
  "current p = do { i \<leftarrow> parser_current_file p; if i < length (p_files p) then Some (p_files p ! i) else None }"

definition parser_next_line :: "'b parser \<Rightarrow> 'b parser option" where
  "parser_next_line p =
     do {
       i \<leftarrow> parser_current_file p;
       f \<leftarrow> current p;
       Some (p\<lparr>p_files := (p_files p)[i := f\<lparr>pf_line := wrap32 (pf_line f + 1)\<rparr>]\<rparr>) }"

definition parser_current_line :: "'b parser \<Rightarrow> int option" where
  "parser_current_line p = map_option pf_line (current p)"

definition parser_current_filename :: "'b parser \<Rightarrow> string option" where
  "parser_current_filename p = map_option pf_filename (current p)"

definition parser_current_path :: "'b parser \<Rightarrow> string option" where
  "parser_current_path p = map_option pf_path (current p)"

definition parser_current_yy_buffer :: "'b parser \<Rightarrow> 'b option option" where
  "parser_current_yy_buffer p = map_option pf_yy_buffer (current p)"

text \<open>Tokens of the lexers; a failure ends the program.\<close>

definition parser_tok_int :: "string \<Rightarrow> int" where
  "parser_tok_int token = fst (strtol token)"

definition parser_tok_float :: "libc \<Rightarrow> string \<Rightarrow> vdata" where
  "parser_tok_float L token = DFloat (fl_atof L token)"

definition parser_tok_addr :: "libc \<Rightarrow> string \<Rightarrow> sockaddr option" where
  "parser_tok_addr L token = fst (util_strtoaddr (pton4 L) (pton6 L) [] (Some token))"

definition parser_tok_encstr :: "string \<Rightarrow> string option" where
  "parser_tok_encstr token = do { (s, _) \<leftarrow> util_strdupenc [] token CHR 0x22 CHR 0x22; s }"

definition parser_tok_str :: "string \<Rightarrow> string" where
  "parser_tok_str token = token"

text \<open>
  \<open>parser\<close>: \<open>file_size\<close> is what \<open>stat\<close> says of the file, \<open>None\<close> when it cannot be opened; \<open>parser_callback\<close> is the
  generated parser.
\<close>

definition parser_run ::
  "string \<Rightarrow> bool \<Rightarrow> (string \<Rightarrow> nat option) \<Rightarrow> ('b parser \<Rightarrow> (int \<times> 'a) option) \<Rightarrow> 'a option" where
  "parser_run path open_file file_size parser_callback =
     (if open_file \<and> (file_size path = None \<or> file_size path = Some 0) then None
      else
        do {
          p \<leftarrow> parser_stack parser_init None path;
          (r, x) \<leftarrow> parser_callback p;
          if r \<noteq> 0 then None else Some x })"

subsection \<open>Names of the configuration (cf.c)\<close>

definition cf_symbols :: "string list" where
  "cf_symbols =
     [''random_milter_id'', ''hashtable_buckets'', ''syslog_facility'', ''workdir_path'', ''mopherd_group'', ''mopherd_user'',
      ''module_path'', ''greylist_deadline'', ''greylist_visa'', ''acl_path'', ''acl_log_level'', ''milter_socket'',
      ''milter_socket_timeout'', ''milter_socket_permissions'', ''milter_wait'', ''cleanup_interval'', ''fatal_database_errors'',
      ''hostname'', ''client_retry_interval'', ''control_socket'', ''control_socket_permissions'', ''tarpit_progress_interval'',
      ''counter_expire_low'', ''counter_expire_high'', ''counter_threshold'', ''dblog_expire'', ''mopher_header'',
      ''mopher_header_name'', ''connect_timeout'', ''connect_retries'', ''watchdog_stage_timeout'']"

text \<open>The numbers of \<open>syslog.h\<close>.\<close>

definition cf_constants :: "(string \<times> int) list" where
  "cf_constants =
     [(''LOG_AUTH'', 32), (''LOG_AUTHPRIV'', 80), (''LOG_CRON'', 72), (''LOG_DAEMON'', 24), (''LOG_FTP'', 88), (''LOG_KERN'', 0),
      (''LOG_LOCAL0'', 128), (''LOG_LOCAL1'', 136), (''LOG_LOCAL2'', 144), (''LOG_LOCAL3'', 152), (''LOG_LOCAL4'', 160),
      (''LOG_LOCAL5'', 168), (''LOG_LOCAL6'', 176), (''LOG_LOCAL7'', 184), (''LOG_LPR'', 48), (''LOG_MAIL'', 16), (''LOG_NEWS'', 56),
      (''LOG_SYSLOG'', 40), (''LOG_USER'', 8), (''LOG_UUCP'', 64), (''LOG_EMERG'', 0), (''LOG_ALERT'', 1), (''LOG_CRIT'', 2),
      (''LOG_ERR'', 3), (''LOG_WARNING'', 4), (''LOG_NOTICE'', 5), (''LOG_INFO'', 6), (''LOG_DEBUG'', 7)]"

text \<open>An unknown name is an error of the parser, which ends the program.\<close>

definition cf_constant :: "string \<Rightarrow> var option" where
  "cf_constant name =
     (case map_of cf_constants name of None \<Rightarrow> None | Some i \<Rightarrow> var_create VT_INT None (Some (DInt i)) VF_KEEP)"

subsection \<open>Values\<close>

text \<open>The entries of a table; a variable whose data is no table cannot be used as one.\<close>

definition table_vars :: "var \<Rightarrow> var list option" where
  "table_vars t = (case v_data t of Some (DTable vs) \<Rightarrow> Some vs | _ \<Rightarrow> None)"

definition with_vars :: "var \<Rightarrow> var list \<Rightarrow> var" where
  "with_vars t vs = Var (v_type t) (v_name t) (Some (DTable vs)) (v_flags t)"

text \<open>
  \<open>cf_set_keylist\<close> sets a value under a path of keys and creates the tables on the way. A value gets the
  last key as its name unless it has one; without a name it cannot be put into a table. A table on the
  way is changed in place.
\<close>

fun cf_set_keylist :: "var \<Rightarrow> string list \<Rightarrow> var \<Rightarrow> var option" where
  "cf_set_keylist table [] v =
     (if v_name v = None then None else do { vs \<leftarrow> table_vars table; Some (with_vars table (tbl_set vs v)) })"
| "cf_set_keylist table [key] v =
     do {
       vs \<leftarrow> table_vars table;
       let v1 = (if v_name v = None then Var (v_type v) (Some key) (v_data v) (v_flags v) else v);
       Some (with_vars table (tbl_set vs v1)) }"
| "cf_set_keylist table (key # keys) v =
     do {
       vs \<leftarrow> table_vars table;
       (case tbl_lookup vs key of
          Some sub \<Rightarrow>
            do {
              sub1 \<leftarrow> cf_set_keylist sub keys v;
              Some (with_vars table (map (\<lambda>w. if v_key w = key then sub1 else w) vs)) }
        | None \<Rightarrow>
            do {
              sub \<leftarrow> var_create VT_TABLE (Some key) None VF_CREATE;
              sub1 \<leftarrow> cf_set_keylist sub keys v;
              Some (with_vars table (tbl_set vs sub1)) }) }"

definition cf_set_new :: "vtype \<Rightarrow> string \<Rightarrow> vdata option \<Rightarrow> u32 \<Rightarrow> var \<Rightarrow> var option" where
  "cf_set_new t name d flags config =
     do {
       vs \<leftarrow> table_vars config;
       v \<leftarrow> var_create t (Some name) d flags;
       Some (with_vars config (tbl_set vs v)) }"

definition cf_get :: "var \<Rightarrow> vtype \<Rightarrow> string list \<Rightarrow> var option" where
  "cf_get config t keys = vtable_getva t config keys"

definition cf_get_value :: "var \<Rightarrow> vtype \<Rightarrow> string list \<Rightarrow> vdata option" where
  "cf_get_value config t keys = (case vtable_getva t config keys of None \<Rightarrow> None | Some v \<Rightarrow> v_data v)"

text \<open>\<open>cf_load_list\<close>: one value, or the values of a list up to one of another type.\<close>

fun load_items :: "vtype \<Rightarrow> var list \<Rightarrow> vdata option list \<Rightarrow> int \<times> vdata option list" where
  "load_items t [] list = (0, list)"
| "load_items t (item # items) list = (if v_type item \<noteq> t then (-1, list) else load_items t items (list @ [v_data item]))"

definition cf_load_list :: "var \<Rightarrow> vdata option list \<Rightarrow> string \<Rightarrow> vtype \<Rightarrow> (int \<times> vdata option list) option" where
  "cf_load_list config list key t =
     do {
       vs \<leftarrow> table_vars config;
       (case tbl_lookup vs key of
          None \<Rightarrow> Some (-1, list)
        | Some v \<Rightarrow>
            if v_type v = t then Some (0, list @ [v_data v])
            else if v_type v \<noteq> VT_LIST then Some (-1, list)
            else do { xs \<leftarrow> vlist_items v; Some (load_items t (visible xs) list) }) }"

subsection \<open>Loading\<close>

text \<open>\<open>cf_load_functions\<close>: the host name, when the configuration has none; \<open>gethostname\<close> may fail.\<close>

definition cf_setup_hostname :: "string option \<Rightarrow> string" where
  "cf_setup_hostname host = (case host of None \<Rightarrow> ''unknown'' | Some h \<Rightarrow> h)"

definition cf_load_functions :: "string option \<Rightarrow> var \<Rightarrow> var option" where
  "cf_load_functions host config =
     do {
       vs \<leftarrow> table_vars config;
       if (case tbl_lookup vs ''hostname'' of None \<Rightarrow> None | Some v \<Rightarrow> v_data v) \<noteq> None then Some config
       else
         do {
           v \<leftarrow> var_create VT_STRING (Some ''hostname'') (Some (DString (cf_setup_hostname host))) VF_KEEPNAME;
           Some (with_vars config (tbl_set vs v)) } }"

text \<open>
  \<open>cf_load_symbols\<close> copies values to the variables of the program, whose types it does not know: a number
  or a pointer to a text is written as it is. Other types end the program. Numbers without data are
  read through \<open>NULL\<close>.
\<close>

fun load_globals :: "string list \<Rightarrow> var list \<Rightarrow> (string \<rightharpoonup> vdata option) \<Rightarrow> (string \<rightharpoonup> vdata option) option" where
  "load_globals [] vs globals = Some globals"
| "load_globals (name # names) vs globals =
     (case tbl_lookup vs name of
        None \<Rightarrow> load_globals names vs globals
      | Some v \<Rightarrow>
          if v_type v \<in> {VT_INT, VT_FLOAT} then
            (if v_data v = None then None else load_globals names vs (globals(name \<mapsto> v_data v)))
          else if v_type v = VT_STRING then load_globals names vs (globals(name \<mapsto> v_data v))
          else None)"

definition cf_load_symbols :: "var \<Rightarrow> (string \<rightharpoonup> vdata option) \<Rightarrow> (string \<rightharpoonup> vdata option) option" where
  "cf_load_symbols config globals = do { vs \<leftarrow> table_vars config; load_globals cf_symbols vs globals }"

text \<open>The assignments of a file, one after the other.\<close>

type_synonym assignment = "string list \<times> var"

fun cf_assign :: "var \<Rightarrow> assignment list \<Rightarrow> var option" where
  "cf_assign config [] = Some config"
| "cf_assign config ((keys, v) # as) = do { c \<leftarrow> cf_set_keylist config keys v; cf_assign c as }"

definition cf_load_defaults :: "assignment list \<Rightarrow> var \<Rightarrow> var option" where
  "cf_load_defaults defaults config =
     parser_run ''BUILT-IN CONFIGURATION'' False (\<lambda>_. None)
       (\<lambda>p :: unit parser. do { c \<leftarrow> cf_assign config defaults; Some (0, c) })"

definition cf_load_file :: "(string \<Rightarrow> nat option) \<Rightarrow> (string \<Rightarrow> assignment list option) \<Rightarrow> string \<Rightarrow> var \<Rightarrow> var option" where
  "cf_load_file file_size cf_parse file config =
     parser_run file True file_size
       (\<lambda>p :: unit parser. do { as \<leftarrow> cf_parse file; c \<leftarrow> cf_assign config as; Some (0, c) })"

definition cf_init ::
  "assignment list \<Rightarrow> (string \<Rightarrow> nat option) \<Rightarrow> (string \<Rightarrow> assignment list option) \<Rightarrow> string option \<Rightarrow> string option \<Rightarrow> string \<Rightarrow>
    (string \<rightharpoonup> vdata option) \<Rightarrow> (var \<times> (string \<rightharpoonup> vdata option)) option" where
  "cf_init defaults file_size cf_parse host cf_filename defs_mopherd_conf globals =
     do {
       c0 \<leftarrow> var_create VT_TABLE (Some ''config'') None (VF_KEEPNAME OR VF_CREATE);
       c1 \<leftarrow> cf_load_defaults defaults c0;
       c2 \<leftarrow> cf_load_file file_size cf_parse (case cf_filename of None \<Rightarrow> defs_mopherd_conf | Some f \<Rightarrow> f) c1;
       c3 \<leftarrow> cf_load_functions host c2;
       g \<leftarrow> cf_load_symbols c3 globals;
       Some (c3, g) }"

subsection \<open>What a path leads to\<close>

text \<open>Nothing but tables on the way to the end of a path, as far as there is a way.\<close>

fun open_path :: "var \<Rightarrow> string list \<Rightarrow> bool" where
  "open_path t [] \<longleftrightarrow> True"
| "open_path t (key # keys) \<longleftrightarrow>
     v_type t = VT_TABLE \<and>
     (case table_vars t of
        None \<Rightarrow> False
      | Some vs \<Rightarrow> keys = [] \<or> (case tbl_lookup vs key of None \<Rightarrow> True | Some sub \<Rightarrow> open_path sub keys))"

definition named :: "var \<Rightarrow> string \<Rightarrow> var" where
  "named v key = Var (v_type v) (Some key) (v_data v) (v_flags v)"

abbreviation apart :: "string list \<Rightarrow> string list \<Rightarrow> bool" where
  "apart xs ys \<equiv> \<not> prefix xs ys \<and> \<not> prefix ys xs"

lemma table_walk_Cons:
  "table_vars t = Some vs \<Longrightarrow> v_type t = VT_TABLE \<Longrightarrow>
    table_walk t (key # keys) = (case tbl_lookup vs key of None \<Rightarrow> None | Some w \<Rightarrow> table_walk w keys)"
  by (auto simp: table_vars_def tbl_lookup_def split: option.splits vdata.splits)

declare table_walk.simps(2) [simp del]

lemma tbl_lookup_set: "tbl_lookup (tbl_set vs v) key = (if key = v_key v then Some v else tbl_lookup vs key)"
proof -
  have "find (\<lambda>w. v_key w = key) (xs @ ys) = (case find (\<lambda>w. v_key w = key) xs of None \<Rightarrow> find (\<lambda>w. v_key w = key) ys | r \<Rightarrow> r)" for xs ys
    by (induction xs) auto
  moreover have "find (\<lambda>w. v_key w = key) (filter (\<lambda>w. v_key w \<noteq> v_key v) vs) = (if key = v_key v then None else find (\<lambda>w. v_key w = key) vs)"
    by (induction vs) auto
  ultimately show ?thesis by (auto simp: tbl_lookup_def tbl_set_def split: option.splits)
qed

lemma tbl_lookup_replace:
  "v_key w = key \<Longrightarrow> tbl_lookup (map (\<lambda>u. if v_key u = key then w else u) vs) k =
    (if k = key then map_option (\<lambda>_. w) (tbl_lookup vs key) else tbl_lookup vs k)"
  by (induction vs) (auto simp: tbl_lookup_def)

lemma tbl_lookup_key: "tbl_lookup vs key = Some w \<Longrightarrow> v_key w = key"
  by (simp add: tbl_lookup_def find_Some_iff) blast

lemma with_vars_simps [simp]:
  "v_type (with_vars t vs) = v_type t" "v_name (with_vars t vs) = v_name t" "table_vars (with_vars t vs) = Some vs"
  by (simp_all add: with_vars_def table_vars_def)

text \<open>
  Setting a value: the path leads to it afterwards, and what is neither above nor below it stays as
  it was.
\<close>

lemma cf_set_keylist_walk:
  assumes "keys \<noteq> []" and "open_path t keys" and "v_name v = None \<or> v_name v = Some (last keys)"
  shows "\<exists>t'. cf_set_keylist t keys v = Some t' \<and> v_type t' = v_type t \<and> v_name t' = v_name t \<and>
    table_walk t' keys = Some (named v (last keys)) \<and> open_path t' keys \<and>
    (\<forall>ks. apart ks keys \<longrightarrow> table_walk t' ks = table_walk t ks \<and> (open_path t ks \<longrightarrow> open_path t' ks))"
  using assms
proof (induction t keys v rule: cf_set_keylist.induct)
  case (2 table key v)
  then obtain vs where vs: "table_vars table = Some vs" "v_type table = VT_TABLE" by (auto split: option.splits)
  let ?t = "with_vars table (tbl_set vs (named v key))"
  have "(if v_name v = None then Var (v_type v) (Some key) (v_data v) (v_flags v) else v) = named v key"
    using "2.prems"(3) by (cases v) (auto simp: named_def)
  then have "cf_set_keylist table [key] v = Some ?t" using vs by (simp add: Let_def)
  moreover have key: "v_key (named v key) = key" by (simp add: named_def)
  moreover have "table_walk ?t ks = table_walk table ks \<and> (open_path table ks \<longrightarrow> open_path ?t ks)" if "apart ks [key]" for ks
    using that vs key by (cases ks) (auto simp: table_walk_Cons tbl_lookup_set split: option.splits)
  ultimately show ?case using vs by (simp add: table_walk_Cons tbl_lookup_set)
next
  case (3 table key k ks v)
  let ?keys = "k # ks"
  from "3.prems" obtain vs where vs: "table_vars table = Some vs" "v_type table = VT_TABLE" by (auto split: option.splits)
  define sub where "sub = (case tbl_lookup vs key of Some s \<Rightarrow> s | None \<Rightarrow> Var VT_TABLE (Some key) (Some (DTable [])) VF_CREATE)"
  have new: "var_create VT_TABLE (Some key) None VF_CREATE = Some (Var VT_TABLE (Some key) (Some (DTable [])) VF_CREATE)"
    by (simp add: var_create_def var_init_def var_data_init_def sanitize_def has_flag_def vf_defs)
  have sub: "open_path sub ?keys" "v_key sub = key"
    using "3.prems"(2) vs tbl_lookup_key [of vs key] by (auto simp: sub_def table_vars_def tbl_lookup_def split: option.splits)
  have empty: "table_walk (Var VT_TABLE (Some key) (Some (DTable [])) VF_CREATE) xs = None \<and>
      open_path (Var VT_TABLE (Some key) (Some (DTable [])) VF_CREATE) xs" if "xs \<noteq> []" for xs
    using that by (cases xs) (auto simp: table_vars_def tbl_lookup_def table_walk.simps(2))
  have IH: "\<exists>s'. cf_set_keylist sub ?keys v = Some s' \<and> v_type s' = v_type sub \<and> v_name s' = v_name sub \<and>
      table_walk s' ?keys = Some (named v (last ?keys)) \<and> open_path s' ?keys \<and>
      (\<forall>xs. apart xs ?keys \<longrightarrow> table_walk s' xs = table_walk sub xs \<and> (open_path sub xs \<longrightarrow> open_path s' xs))"
    using "3.IH"(2) [OF vs(1)] "3.IH"(1) [OF vs(1) _ new] "3.prems"(3) sub(1)
    by (cases "tbl_lookup vs key") (auto simp: sub_def simp del: cf_set_keylist.simps open_path.simps)
  then obtain s' where s': "cf_set_keylist sub ?keys v = Some s'" "v_name s' = v_name sub"
    "table_walk s' ?keys = Some (named v (last ?keys))" "open_path s' ?keys"
    "\<forall>xs. apart xs ?keys \<longrightarrow> table_walk s' xs = table_walk sub xs \<and> (open_path sub xs \<longrightarrow> open_path s' xs)" by blast
  define vs' where "vs' = (case tbl_lookup vs key of Some _ \<Rightarrow> map (\<lambda>w. if v_key w = key then s' else w) vs | None \<Rightarrow> tbl_set vs s')"
  have key: "v_key s' = key" using s'(2) sub(2) by (simp add: v_key_def)
  have run: "cf_set_keylist table (key # ?keys) v = Some (with_vars table vs')"
    using vs(1) s'(1) new by (cases "tbl_lookup vs key") (simp_all add: sub_def vs'_def)
  have look: "tbl_lookup vs' x = (if x = key then Some s' else tbl_lookup vs x)" for x
    using key by (auto simp: vs'_def tbl_lookup_replace tbl_lookup_set split: option.splits)
  have "table_walk (with_vars table vs') xs = table_walk table xs \<and> (open_path table xs \<longrightarrow> open_path (with_vars table vs') xs)"
    if "apart xs (key # ?keys)" for xs
  proof (cases xs)
    case (Cons x ys)
    show ?thesis
    proof (cases "x = key")
      case True
      with that Cons have "apart ys ?keys" "ys \<noteq> []" by auto
      with s'(5) empty [of ys] vs look True show ?thesis
        by (auto simp: Cons table_walk_Cons sub_def split: option.splits)
    qed (use vs look in \<open>auto simp: Cons table_walk_Cons\<close>)
  qed (use that in simp)
  with run s'(3,4) vs look show ?case by (simp add: table_walk_Cons)
qed simp

subsection \<open>The file overrides the defaults\<close>

text \<open>Paths of which none is the beginning of another, and what a configuration has at them.\<close>

definition prefix_free :: "string list set \<Rightarrow> bool" where
  "prefix_free P \<longleftrightarrow> (\<forall>xs \<in> P. xs \<noteq> [] \<and> (\<forall>ys \<in> P. prefix xs ys \<longrightarrow> xs = ys))"

definition holds :: "string list set \<Rightarrow> (string list \<rightharpoonup> var) \<Rightarrow> var \<Rightarrow> bool" where
  "holds P m c \<longleftrightarrow> v_type c = VT_TABLE \<and> (\<forall>ks \<in> P. table_walk c ks = m ks \<and> open_path c ks)"

lemma holds_set:
  assumes "prefix_free P" and "holds P m c" and "ks \<in> P" and "v_name v = None \<or> v_name v = Some (last ks)"
  shows "\<exists>c'. cf_set_keylist c ks v = Some c' \<and> holds P (m(ks \<mapsto> named v (last ks))) c'"
proof -
  have ks: "ks \<noteq> []" "open_path c ks" using assms(1-3) by (auto simp: prefix_free_def holds_def)
  from cf_set_keylist_walk [OF ks assms(4)] obtain c' where c': "cf_set_keylist c ks v = Some c'" "v_type c' = v_type c"
    "table_walk c' ks = Some (named v (last ks))" "open_path c' ks"
    "\<forall>xs. apart xs ks \<longrightarrow> table_walk c' xs = table_walk c xs \<and> (open_path c xs \<longrightarrow> open_path c' xs)" by blast
  have "apart xs ks" if "xs \<in> P" "xs \<noteq> ks" for xs using assms(1,3) that by (auto simp: prefix_free_def)
  with c' assms(2) show ?thesis by (auto simp: holds_def)
qed

definition assigned :: "assignment list \<Rightarrow> string list \<Rightarrow> var option" where
  "assigned as ks = map_option (\<lambda>v. named v (last ks)) (map_of (rev as) ks)"

lemma holds_assign:
  assumes "prefix_free P" and "fst ` set as \<subseteq> P" and "\<forall>(ks, v) \<in> set as. v_name v = None" and "holds P m c"
  shows "\<exists>c'. cf_assign c as = Some c' \<and> holds P (\<lambda>ks. case assigned as ks of None \<Rightarrow> m ks | Some v \<Rightarrow> Some v) c'"
  using assms(2-4)
proof (induction as arbitrary: m c)
  case (Cons a as)
  obtain ks v where a: "a = (ks, v)" by (cases a)
  from holds_set [OF assms(1) Cons.prems(3), of ks v] Cons.prems(1,2) obtain c1 where
    c1: "cf_set_keylist c ks v = Some c1" "holds P (m(ks \<mapsto> named v (last ks))) c1" by (auto simp: a)
  from Cons.IH [OF _ _ c1(2)] Cons.prems(1,2) obtain c2 where
    c2: "cf_assign c1 as = Some c2" "holds P (\<lambda>xs. case assigned as xs of None \<Rightarrow> (m(ks \<mapsto> named v (last ks))) xs | Some v \<Rightarrow> Some v) c2"
    by (auto simp: a)
  have "(\<lambda>xs. case assigned as xs of None \<Rightarrow> (m(ks \<mapsto> named v (last ks))) xs | Some v \<Rightarrow> Some v) =
      (\<lambda>xs. case assigned (a # as) xs of None \<Rightarrow> m xs | Some v \<Rightarrow> Some v)"
    by (auto simp: fun_eq_iff assigned_def a map_add_def split: option.splits)
  with c1(1) c2 show ?case by (simp add: a)
qed (simp add: assigned_def)

lemma holds_empty: "prefix_free P \<Longrightarrow> holds P Map.empty (Var VT_TABLE n (Some (DTable [])) f)"
proof -
  assume P: "prefix_free P"
  have "table_walk (Var VT_TABLE n (Some (DTable [])) f) (k # ks) = None \<and> open_path (Var VT_TABLE n (Some (DTable [])) f) (k # ks)" for k ks
    by (simp add: table_walk.simps(2) table_vars_def tbl_lookup_def)
  moreover have "\<exists>k xs. ks = k # xs" if "ks \<in> P" for ks using P that by (cases ks) (auto simp: prefix_free_def)
  ultimately show ?thesis unfolding holds_def by fastforce
qed

lemma walk_single: "holds P m c \<Longrightarrow> [n] \<in> P \<Longrightarrow> table_vars c = Some vs \<Longrightarrow> tbl_lookup vs n = m [n]"
  by (auto simp: holds_def table_walk_Cons split: option.splits dest!: bspec)

lemma holds_vars: "holds P m c \<Longrightarrow> [n] \<in> P \<Longrightarrow> \<exists>vs. table_vars c = Some vs"
  by (auto simp: holds_def split: option.splits dest!: bspec)

text \<open>A value that \<open>cf_load_symbols\<close> can copy.\<close>

definition scalar :: "var \<Rightarrow> bool" where
  "scalar v \<longleftrightarrow> v_type v \<in> {VT_INT, VT_FLOAT, VT_STRING} \<and> v_data v \<noteq> None"

lemma load_symbols_values:
  assumes "\<forall>n \<in> set names. tbl_lookup vs n = m n" and "\<forall>n v. n \<in> set names \<longrightarrow> m n = Some v \<longrightarrow> scalar v"
  shows "load_globals names vs g = Some (\<lambda>n. if n \<in> set names \<and> m n \<noteq> None then map_option v_data (m n) else g n)"
  using assms
proof (induction names arbitrary: g)
  case (Cons n names)
  show ?case
  proof (cases "m n")
    case None
    with Cons.IH [of g] Cons.prems show ?thesis by (auto simp: fun_eq_iff)
  next
    case (Some v)
    with Cons.prems have "scalar v" "tbl_lookup vs n = Some v" by auto
    then have "load_globals (n # names) vs g = load_globals names vs (g(n \<mapsto> v_data v))" by (auto simp: scalar_def)
    also have "\<dots> = Some (\<lambda>k. if k \<in> set names \<and> m k \<noteq> None then map_option v_data (m k) else (g(n \<mapsto> v_data v)) k)"
      using Cons.prems by (intro Cons.IH) auto
    finally show ?thesis using Some by (auto simp: fun_eq_iff)
  qed
qed simp

definition configured :: "string option \<Rightarrow> assignment list \<Rightarrow> string list \<Rightarrow> var option" where
  "configured host as ks =
     (case assigned as ks of
        Some v \<Rightarrow> Some v
      | None \<Rightarrow>
          if ks = [''hostname''] then Some (Var VT_STRING (Some ''hostname'') (Some (DString (cf_setup_hostname host))) VF_KEEPNAME) else None)"

definition clean_config :: "assignment list \<Rightarrow> bool" where
  "clean_config as \<longleftrightarrow> prefix_free (fst ` set as \<union> (\<lambda>n. [n]) ` set cf_symbols) \<and>
     (\<forall>(ks, v) \<in> set as. v_name v = None \<and> ((\<exists>n \<in> set cf_symbols. ks = [n]) \<longrightarrow> scalar v))"

lemma cf_assign_append: "cf_assign c (as @ bs) = do { c1 \<leftarrow> cf_assign c as; cf_assign c1 bs }"
  by (induction c as rule: cf_assign.induct) (auto split: bind_splits)

lemma load_functions_holds:
  assumes "prefix_free P" and "holds P (assigned as) c" and "[''hostname''] \<in> P"
    and "\<forall>v. assigned as [''hostname''] = Some v \<longrightarrow> scalar v"
  shows "\<exists>c'. cf_load_functions host c = Some c' \<and> holds P (configured host as) c'"
proof -
  obtain vs where vs: "table_vars c = Some vs" using holds_vars [OF assms(2,3)] by blast
  have look: "tbl_lookup vs ''hostname'' = assigned as [''hostname'']" by (rule walk_single [OF assms(2,3) vs])
  have str: "var_create VT_STRING (Some n) (Some d) VF_KEEPNAME = Some (Var VT_STRING (Some n) (Some d) VF_KEEPNAME)" for n d
    by (simp add: var_create_def var_init_def var_data_init_def sanitize_def has_flag_def vf_defs)
  show ?thesis
  proof (cases "assigned as [''hostname'']")
    case None
    let ?v = "Var VT_STRING (Some ''hostname'') (Some (DString (cf_setup_hostname host))) VF_KEEPNAME"
    have "cf_load_functions host c = cf_set_keylist c [''hostname''] ?v" using vs look None str by (simp add: cf_load_functions_def Let_def)
    moreover have "(assigned as)([''hostname''] \<mapsto> named ?v (last [''hostname''])) = configured host as"
      using None by (auto simp: fun_eq_iff configured_def named_def split: option.splits)
    ultimately show ?thesis using holds_set [OF assms(1-3), of ?v] by simp
  next
    case (Some v)
    with assms(4) have "cf_load_functions host c = Some c" using vs look by (simp add: cf_load_functions_def scalar_def)
    moreover have "configured host as = assigned as" using Some by (auto simp: fun_eq_iff configured_def split: option.splits)
    ultimately show ?thesis using assms(2) by simp
  qed
qed

lemma parse_once:
  "opened \<longrightarrow> (\<exists>n. file_size path = Some (Suc n)) \<Longrightarrow>
    parser_run path opened file_size (\<lambda>p :: unit parser. do { c \<leftarrow> x; Some (0, c) }) = x"
  by (cases x) (auto simp: parser_run_def parser_stack_def parser_init_def Let_def)

text \<open>
  C20: the configuration is what the last assignment to a name says. When no path of the defaults and
  of the file is the beginning of another and variables of the program are given numbers or texts, the configuration
  loads; at every path of an assignment it has the value of the last assignment in the file, or else
  of the last one in the defaults. The variables of the program get these values too, keep the value
  they had when there is none, and the host name is always set.
\<close>

theorem cf_file_overrides_defaults:
  assumes "clean_config (defaults @ file_as)" and "cf_parse file = Some file_as" and "file_size file = Some (Suc n0)"
  shows "\<exists>c g. cf_init defaults file_size cf_parse host (Some file) defs globals = Some (c, g) \<and>
    (\<forall>ks \<in> fst ` set (defaults @ file_as). \<forall>t. cf_get_value c t ks =
       (case configured host (defaults @ file_as) ks of Some v \<Rightarrow> if v_type v = t then v_data v else None | None \<Rightarrow> None)) \<and>
    (\<forall>n \<in> set cf_symbols. g n = (case configured host (defaults @ file_as) [n] of Some v \<Rightarrow> Some (v_data v) | None \<Rightarrow> globals n))"
proof -
  let ?as = "defaults @ file_as"
  let ?P = "fst ` set ?as \<union> (\<lambda>n. [n]) ` set cf_symbols"
  let ?root = "Var VT_TABLE (Some ''config'') (Some (DTable [])) (VF_KEEPNAME OR VF_CREATE)"
  have free: "prefix_free ?P" and unnamed: "\<forall>(ks, v) \<in> set ?as. v_name v = None"
    and scalars: "\<And>n v. n \<in> set cf_symbols \<Longrightarrow> ([n], v) \<in> set ?as \<Longrightarrow> scalar v"
    using assms(1) unfolding clean_config_def by blast+
  have root: "var_create VT_TABLE (Some ''config'') None (VF_KEEPNAME OR VF_CREATE) = Some ?root"
    by (simp add: var_create_def var_init_def var_data_init_def sanitize_def has_flag_def vf_defs)
  obtain c2 where c2: "cf_assign ?root ?as = Some c2" "holds ?P (assigned ?as) c2"
  proof -
    have "(\<lambda>ks. case assigned ?as ks of None \<Rightarrow> None | Some v \<Rightarrow> Some v) = assigned ?as" by (auto split: option.splits)
    then show ?thesis using holds_assign [OF free _ unnamed holds_empty [OF free], of "Some ''config''"] that by auto
  qed
  then obtain c1 where c1: "cf_assign ?root defaults = Some c1" "cf_assign c1 file_as = Some c2"
    by (auto simp: cf_assign_append split: bind_splits)
  have host: "[''hostname''] \<in> ?P" "''hostname'' \<in> set cf_symbols" by (simp_all add: cf_symbols_def)
  have conf: "scalar v" if v: "configured host ?as [n] = Some v" "n \<in> set cf_symbols" for n v
  proof (cases "map_of (rev ?as) [n]")
    case None
    then have "assigned ?as [n] = None" unfolding assigned_def by (rule map_option_is_None [THEN iffD2])
    with v(1) show ?thesis by (auto simp: configured_def scalar_def split: if_splits)
  next
    case (Some v0)
    then have "([n], v0) \<in> set ?as" using map_of_SomeD [of "rev ?as" "[n]" v0] by auto
    moreover have "v = named v0 n" using v(1) Some by (simp only: configured_def assigned_def option.map option.case option.inject last.simps) simp
    ultimately show ?thesis using scalars [OF v(2)] by (simp add: scalar_def named_def)
  qed
  have "scalar v" if "assigned ?as [''hostname''] = Some v" for v
    using conf [OF _ host(2), of v] that by (simp add: configured_def)
  then obtain c3 where c3: "cf_load_functions host c2 = Some c3" "holds ?P (configured host ?as) c3"
    using load_functions_holds [OF free c2(2) host(1)] by blast
  obtain vs where vs: "table_vars c3 = Some vs" using holds_vars [OF c3(2) host(1)] by blast
  have "\<forall>n \<in> set cf_symbols. tbl_lookup vs n = configured host ?as [n]" using walk_single [OF c3(2) _ vs] by auto
  from load_symbols_values [OF this, of globals] conf vs have
    "cf_load_symbols c3 globals = Some (\<lambda>n. if n \<in> set cf_symbols \<and> configured host ?as [n] \<noteq> None then map_option v_data (configured host ?as [n]) else globals n)"
    by (auto simp: cf_load_symbols_def)
  moreover have "table_walk c3 ks = configured host ?as ks" if "ks \<in> fst ` set ?as" for ks
    using c3(2) that unfolding holds_def by (metis UnI1)
  moreover have "cf_load_defaults defaults ?root = Some c1" "cf_load_file file_size cf_parse file c1 = Some c2"
    using c1 assms(2,3) parse_once [where opened = False and path = "''BUILT-IN CONFIGURATION''" and file_size = "\<lambda>_. None" and x = "cf_assign ?root defaults"]
      parse_once [where opened = True and path = "file" and file_size = file_size and x = "cf_assign c1 file_as"]
    by (simp_all add: cf_load_defaults_def cf_load_file_def)
  ultimately show ?thesis
    using root c3(1) by (simp add: cf_init_def cf_get_value_def vtable_getva_def del: set_append split: option.splits)
qed

definition cf_demo_defaults :: "assignment list" where
  "cf_demo_defaults =
     [([''greylist_visa''], Var VT_INT None (Some (DInt 3600)) 0), ([''tables'', ''greylist'', ''driver''], Var VT_STRING None (Some (DString ''memdb'')) 0)]"

definition cf_demo_file :: "assignment list" where
  "cf_demo_file = [([''greylist_visa''], Var VT_INT None (Some (DInt 7200)) 0)]"

lemma cf_demo_clean: "clean_config (cf_demo_defaults @ cf_demo_file)"
  by (simp add: clean_config_def prefix_free_def cf_demo_defaults_def cf_demo_file_def cf_symbols_def scalar_def)

theorem cf_file_overrides_defaults_witness:
  "\<exists>c g. cf_init cf_demo_defaults (\<lambda>_. Some 30) (\<lambda>_. Some cf_demo_file) None (Some ''mopherd.conf'') ''/etc/mopherd.conf'' Map.empty = Some (c, g) \<and>
     cf_get_value c VT_STRING [''tables'', ''greylist'', ''driver''] = Some (DString ''memdb'') \<and>
     g ''greylist_visa'' = Some (Some (DInt 7200)) \<and> g ''hostname'' = Some (Some (DString ''unknown''))"
proof -
  have sym: "''greylist_visa'' \<in> set cf_symbols" "''hostname'' \<in> set cf_symbols" by (simp_all add: cf_symbols_def)
  have conf: "configured None (cf_demo_defaults @ cf_demo_file) [''greylist_visa''] = Some (Var VT_INT (Some ''greylist_visa'') (Some (DInt 7200)) 0)"
    "configured None (cf_demo_defaults @ cf_demo_file) [''hostname''] = Some (Var VT_STRING (Some ''hostname'') (Some (DString ''unknown'')) VF_KEEPNAME)"
    "configured None (cf_demo_defaults @ cf_demo_file) [''tables'', ''greylist'', ''driver''] = Some (Var VT_STRING (Some ''driver'') (Some (DString ''memdb'')) 0)"
    by (simp_all add: configured_def assigned_def cf_demo_defaults_def cf_demo_file_def named_def cf_setup_hostname_def)
  have path: "[''tables'', ''greylist'', ''driver''] \<in> fst ` set (cf_demo_defaults @ cf_demo_file)" by (simp add: cf_demo_defaults_def)
  obtain c g where c: "cf_init cf_demo_defaults (\<lambda>_. Some 30) (\<lambda>_. Some cf_demo_file) None (Some ''mopherd.conf'') ''/etc/mopherd.conf'' Map.empty = Some (c, g)"
    "\<forall>ks \<in> fst ` set (cf_demo_defaults @ cf_demo_file). \<forall>t. cf_get_value c t ks =
       (case configured None (cf_demo_defaults @ cf_demo_file) ks of Some v \<Rightarrow> if v_type v = t then v_data v else None | None \<Rightarrow> None)"
    "\<forall>n \<in> set cf_symbols. g n = (case configured None (cf_demo_defaults @ cf_demo_file) [n] of Some v \<Rightarrow> Some (v_data v) | None \<Rightarrow> None)"
    using cf_file_overrides_defaults [OF cf_demo_clean, of "\<lambda>_. Some cf_demo_file" "''mopherd.conf''" "\<lambda>_. Some 30" 29 None "''/etc/mopherd.conf''" Map.empty]
    by auto
  show ?thesis
    using c(1) c(2) [rule_format, OF path] c(3) [rule_format, OF sym(1)] c(3) [rule_format, OF sym(2)] by (simp add: conf)
qed

end
