(* ===== verification/Sock.thy ===== *)
theory Sock
  imports Config
begin

section \<open>Sockets (sock.c)\<close>

text \<open>
  \<open>src/src/sock.c\<close>: listening and connecting sockets from their textual addresses, and the round robin
  over several servers. The calls to the system, with what they returned, are the trace of a run; the
  system answers each call from the trace so far. An answer is a return value and a second number:
  \<open>errno\<close>, or the option that \<open>getsockopt\<close> reads. A call of \<open>read\<close> is in the trace with what it has read; this
  file makes none, but those that use its sockets do.
\<close>

datatype syscall =
    S_Socket int
  | S_Bind int string
  | S_Listen int int
  | S_Connect int string
  | S_Getfl int
  | S_Setfl int int
  | S_Select int int
  | S_Getsockopt int
  | S_Setsockopt int
  | S_Close int
  | S_Read int string
  | S_Write int string
  | S_Time
  | S_Chmod string int
  | S_Unlink string

type_synonym trace = "(syscall \<times> int \<times> int) list"

text \<open>
  The addresses that \<open>getaddrinfo\<close> finds (their family and an opaque address), \<open>None\<close> when it fails; the first two
  arguments are the node and the service.
\<close>

record sysenv =
  sy_answer :: "trace \<Rightarrow> syscall \<Rightarrow> int \<times> int"
  sy_getaddrinfo :: "string option \<Rightarrow> string \<Rightarrow> (int \<times> string) list option"
  cf_connect_timeout :: int
  cf_connect_retries :: int
  cf_control_socket_permissions :: int

definition sys :: "sysenv \<Rightarrow> syscall \<Rightarrow> trace \<Rightarrow> int \<times> int \<times> trace" where
  "sys E c tr = (case sy_answer E tr c of (r, x) \<Rightarrow> (r, x, (c, r, x) # tr))"

definition AF_LOCAL :: int where "AF_LOCAL = 1"
definition EINTR :: int where "EINTR = 4"
definition EINPROGRESS :: int where "EINPROGRESS = 115"
definition O_NONBLOCK :: int where "O_NONBLOCK = 2048"

text \<open>The size of \<open>sun_path\<close>.\<close>

definition SUN_PATH :: nat where "SUN_PATH = 108"

subsection \<open>Listening\<close>

text \<open>A descriptor 0 is not closed after an error.\<close>

definition sock_unix_listen :: "sysenv \<Rightarrow> string \<Rightarrow> int \<Rightarrow> trace \<Rightarrow> (int \<times> trace) option" where
  "sock_unix_listen E path backlog tr =
     (case sys E (S_Socket AF_LOCAL) tr of
        (fd, _, tr1) \<Rightarrow>
          (let error = (\<lambda>tr. if fd > 0 then (-1, snd (snd (sys E (S_Close fd) tr))) else (-1, tr)) in
           if fd = -1 then Some (error tr1)
           else
             (case sys E (S_Bind fd (take SUN_PATH path)) tr1 of
                (r, _, tr2) \<Rightarrow>
                  if r = -1 then Some (error tr2)
                  else
                    (case sys E (S_Listen fd backlog) tr2 of
                       (r, _, tr3) \<Rightarrow>
                         if r = -1 then Some (error tr3)
                         else
                           (case sys E (S_Chmod path (cf_control_socket_permissions E)) tr3 of
                              (r, _, tr4) \<Rightarrow> if r \<noteq> 0 then None else Some (fd, tr4))))))"

text \<open>The first address that a socket can be bound to.\<close>

fun bind_first :: "sysenv \<Rightarrow> (int \<times> string) list \<Rightarrow> trace \<Rightarrow> int \<times> trace" where
  "bind_first E [] tr = (-1, tr)"
| "bind_first E ((family, addr) # rest) tr =
     (case sys E (S_Socket family) tr of
        (fd, _, tr1) \<Rightarrow>
          if fd = -1 then bind_first E rest tr1
          else
            (case sys E (S_Setsockopt fd) tr1 of
               (_, _, tr2) \<Rightarrow>
                 (case sys E (S_Bind fd addr) tr2 of
                    (r, _, tr3) \<Rightarrow>
                      if r = 0 then (fd, tr3)
                      else (case sys E (S_Close fd) tr3 of (_, _, tr4) \<Rightarrow> bind_first E rest tr4))))"

definition sock_inet_listen :: "sysenv \<Rightarrow> string option \<Rightarrow> string \<Rightarrow> int \<Rightarrow> trace \<Rightarrow> (int \<times> trace) option" where
  "sock_inet_listen E bindaddr port backlog tr =
     (case sy_getaddrinfo E bindaddr port of
        None \<Rightarrow> Some (-1, tr)
      | Some res \<Rightarrow>
          (case bind_first E res tr of
             (fd, tr1) \<Rightarrow>
               if fd = -1 then None
               else (case sys E (S_Listen fd backlog) tr1 of (r, _, tr2) \<Rightarrow> if r = -1 then None else Some (fd, tr2))))"

text \<open>
  \<open>sock_listen\<close> writes a terminator into the address it is given: the part before \<open>@\<close> is the port, the
  part after it the address to bind to.
\<close>

definition sock_listen :: "sysenv \<Rightarrow> string \<Rightarrow> int \<Rightarrow> trace \<Rightarrow> (int \<times> trace) option" where
  "sock_listen E uri backlog tr =
     (if take 5 uri = ''unix:'' then sock_unix_listen E (drop 5 uri) backlog tr
      else if take 5 uri = ''inet:'' then
        (case strrchr (drop 5 uri) (CHR ''@'') of
           Some a \<Rightarrow> sock_inet_listen E (Some (tl a)) (take (length uri - 5 - length a) (drop 5 uri)) backlog tr
         | None \<Rightarrow> sock_inet_listen E None (drop 5 uri) backlog tr)
      else Some (-1, tr))"

definition sock_unix_unlink :: "sysenv \<Rightarrow> string \<Rightarrow> trace \<Rightarrow> trace" where
  "sock_unix_unlink E uri tr =
     (if take 5 uri \<noteq> ''unix:'' then tr else snd (snd (sys E (S_Unlink (drop 5 uri)) tr)))"

subsection \<open>Connecting\<close>

text \<open>
  \<open>sock_connect_timeout\<close>: the loop around \<open>select\<close> starts again after a signal, with the time that is
  left. It need not end.
\<close>

partial_function (option) select_loop :: "sysenv \<Rightarrow> int \<Rightarrow> int \<Rightarrow> trace \<Rightarrow> (int \<times> trace) option" where
  "select_loop E fd deadline tr =
     (case sys E S_Time tr of
        (now, _, tr1) \<Rightarrow>
          (case sys E (S_Select fd (deadline - now)) tr1 of
             (r, errno, tr2) \<Rightarrow>
               if r = -1 then (if errno = EINTR then select_loop E fd deadline tr2 else Some (-1, tr2))
               else if r = 0 then Some (-1, tr2)
               else Some (0, tr2)))"

definition sock_connected :: "sysenv \<Rightarrow> int \<Rightarrow> trace \<Rightarrow> int \<times> trace" where
  "sock_connected E fd tr =
     (case sys E (S_Getsockopt fd) tr of
        (r, opt, tr1) \<Rightarrow>
          if r = -1 \<or> opt \<noteq> 0 then (-1, tr1)
          else
            (case sys E (S_Getfl fd) tr1 of
               (arg, _, tr2) \<Rightarrow>
                 if arg = -1 then (-1, tr2)
                 else (case sys E (S_Setfl fd (arg AND NOT O_NONBLOCK)) tr2 of (r, _, tr3) \<Rightarrow> (if r = -1 then -1 else 0, tr3))))"

definition sock_connect_timeout :: "sysenv \<Rightarrow> int \<Rightarrow> string \<Rightarrow> int \<Rightarrow> trace \<Rightarrow> (int \<times> trace) option" where
  "sock_connect_timeout E fd sa timeout tr =
     (case sys E S_Time tr of
        (now, _, tr0) \<Rightarrow>
          (case sys E (S_Getfl fd) tr0 of
             (arg, _, tr1) \<Rightarrow>
               if arg = -1 then Some (-1, tr1)
               else
                 (case sys E (S_Setfl fd (arg OR O_NONBLOCK)) tr1 of
                    (r, _, tr2) \<Rightarrow>
                      if r = -1 then Some (-1, tr2)
                      else
                        (case sys E (S_Connect fd sa) tr2 of
                           (success, errno, tr3) \<Rightarrow>
                             if success = -1 then
                               (if errno \<noteq> EINPROGRESS then Some (-1, tr3)
                                else
                                  do {
                                    (r, tr4) \<leftarrow> select_loop E fd (wrap32 (now + timeout)) tr3;
                                    Some (if r = -1 then (-1, tr4) else sock_connected E fd tr4) })
                             else Some (sock_connected E fd tr3)))))"

text \<open>The path is copied without a check of its length.\<close>

definition sock_unix_connect :: "sysenv \<Rightarrow> string \<Rightarrow> int \<Rightarrow> trace \<Rightarrow> (int \<times> trace) option" where
  "sock_unix_connect E path timeout tr =
     (case sys E (S_Socket AF_LOCAL) tr of
        (fd, _, tr1) \<Rightarrow>
          if fd = -1 then Some (-1, tr1)
          else if length path \<ge> SUN_PATH then None
          else
            do {
              (r, tr2) \<leftarrow> sock_connect_timeout E fd path timeout tr1;
              Some (if r \<noteq> 0 then (-1, snd (snd (sys E (S_Close fd) tr2))) else (fd, tr2)) })"

fun connect_first :: "sysenv \<Rightarrow> (int \<times> string) list \<Rightarrow> int \<Rightarrow> trace \<Rightarrow> (int \<times> trace) option" where
  "connect_first E [] timeout tr = Some (-1, tr)"
| "connect_first E ((family, addr) # rest) timeout tr =
     (case sys E (S_Socket family) tr of
        (fd, _, tr1) \<Rightarrow>
          if fd = -1 then connect_first E rest timeout tr1
          else
            do {
              (r, tr2) \<leftarrow> sock_connect_timeout E fd addr timeout tr1;
              if r = 0 then Some (fd, tr2)
              else (case sys E (S_Close fd) tr2 of (_, _, tr3) \<Rightarrow> connect_first E rest timeout tr3) })"

definition sock_inet_connect :: "sysenv \<Rightarrow> string \<Rightarrow> string \<Rightarrow> int \<Rightarrow> trace \<Rightarrow> (int \<times> trace) option" where
  "sock_inet_connect E host port timeout tr =
     (case sy_getaddrinfo E (Some host) port of None \<Rightarrow> Some (-1, tr) | Some res \<Rightarrow> connect_first E res timeout tr)"

definition sock_connect :: "sysenv \<Rightarrow> string \<Rightarrow> trace \<Rightarrow> (int \<times> trace) option" where
  "sock_connect E uri tr =
     (if take 5 uri = ''unix:'' then sock_unix_connect E (drop 5 uri) (cf_connect_timeout E) tr
      else if take 5 uri \<noteq> ''inet:'' then Some (-1, tr)
      else
        (case strrchr (drop 5 uri) (CHR ''@'') of
           None \<Rightarrow> Some (-1, tr)
         | Some a \<Rightarrow> sock_inet_connect E (tl a) (take (length uri - 5 - length a) (drop 5 uri)) (cf_connect_timeout E) tr))"

definition sock_connect_config :: "sysenv \<Rightarrow> var \<Rightarrow> string \<Rightarrow> trace \<Rightarrow> (int \<times> trace) option" where
  "sock_connect_config E config confkey tr =
     (case cf_get_value config VT_STRING [confkey] of
        None \<Rightarrow> Some (-1, tr)
      | d \<Rightarrow> do { uri \<leftarrow> as_string d; sock_connect E uri tr })"

subsection \<open>Round robin\<close>

text \<open>The list of addresses, where a \<open>NULL\<close> ends an iteration, and the position in it.\<close>

record sock_rr =
  sr_list :: "string option list"
  sr_pos :: nat

definition sock_rr_init :: "var \<Rightarrow> string \<Rightarrow> (int \<times> sock_rr) option" where
  "sock_rr_init config confkey =
     do {
       (r, ds) \<leftarrow> cf_load_list config [] confkey VT_STRING;
       let uris = map (\<lambda>d. case d of Some (DString s) \<Rightarrow> Some s | _ \<Rightarrow> None) ds;
       Some (if r \<noteq> 0 then (-1, \<lparr>sr_list = uris, sr_pos = length uris\<rparr>) else (0, \<lparr>sr_list = uris, sr_pos = 0\<rparr>)) }"

definition rr_next :: "sock_rr \<Rightarrow> string option \<times> sock_rr" where
  "rr_next sr =
     (if sr_pos sr < length (sr_list sr) then (sr_list sr ! sr_pos sr, sr\<lparr>sr_pos := sr_pos sr + 1\<rparr>) else (None, sr))"

text \<open>
  \<open>sock_connect_rr\<close>: at the end of the list it starts again without counting the attempt, so that with an
  empty list it never ends.
\<close>

partial_function (option) rr_loop :: "sysenv \<Rightarrow> int \<Rightarrow> int \<Rightarrow> sock_rr \<Rightarrow> trace \<Rightarrow> (int \<times> sock_rr \<times> trace) option" where
  "rr_loop E i fd sr tr =
     (if i < cf_connect_retries E then
        (case rr_next sr of
           (None, sr1) \<Rightarrow> rr_loop E i fd (sr1\<lparr>sr_pos := 0\<rparr>) tr
         | (Some uri, sr1) \<Rightarrow>
             (case sock_connect E uri tr of
                None \<Rightarrow> None
              | Some (fd1, tr1) \<Rightarrow> if fd1 > 0 then Some (fd1, sr1, tr1) else rr_loop E (i + 1) fd1 sr1 tr1))
      else Some (fd, sr, tr))"

definition sock_connect_rr :: "sysenv \<Rightarrow> sock_rr \<Rightarrow> trace \<Rightarrow> (int \<times> sock_rr \<times> trace) option" where
  "sock_connect_rr E sr tr = rr_loop E 0 (-1) sr tr"

subsection \<open>Descriptors\<close>

text \<open>The sockets that are open after a trace.\<close>

fun open_fds :: "trace \<Rightarrow> int set" where
  "open_fds [] = {}"
| "open_fds ((c, a) # tr) =
     (case c of
        S_Socket _ \<Rightarrow> if fst a \<ge> 0 then insert (fst a) (open_fds tr) else open_fds tr
      | S_Close fd \<Rightarrow> open_fds tr - {fd}
      | _ \<Rightarrow> open_fds tr)"

text \<open>The system gives out descriptors that are not in use; those of the standard files are.\<close>

definition fresh_sockets :: "sysenv \<Rightarrow> bool" where
  "fresh_sockets E \<longleftrightarrow> (\<forall>tr family. case sy_answer E tr (S_Socket family) of (r, _) \<Rightarrow> r = -1 \<or> r > 0 \<and> r \<notin> open_fds tr)"

lemma sys_eq: "sys E c tr = (fst (sy_answer E tr c), snd (sy_answer E tr c), (c, sy_answer E tr c) # tr)"
  by (simp add: sys_def split: prod.splits)

lemma fresh_socketsD:
  "fresh_sockets E \<Longrightarrow> fst (sy_answer E tr (S_Socket f)) = -1 \<or> fst (sy_answer E tr (S_Socket f)) > 0 \<and> fst (sy_answer E tr (S_Socket f)) \<notin> open_fds tr"
  unfolding fresh_sockets_def by (drule spec [of _ tr], drule spec [of _ f]) (auto split: prod.splits)

definition keeps_fds :: "syscall \<Rightarrow> bool" where
  "keeps_fds c \<longleftrightarrow> (case c of S_Socket _ \<Rightarrow> False | S_Close _ \<Rightarrow> False | _ \<Rightarrow> True)"

lemma sys_keeps: "sys E c tr = (r, x, tr') \<Longrightarrow> keeps_fds c \<Longrightarrow> open_fds tr' = open_fds tr"
  by (auto simp: sys_eq keeps_fds_def split: syscall.splits)

lemma sys_keeps_snd: "keeps_fds c \<Longrightarrow> open_fds (snd (snd (sys E c tr))) = open_fds tr"
  by (simp add: sys_eq keeps_fds_def split: syscall.splits)

lemma select_loop_fds:
  assumes "select_loop E fd deadline tr = Some y"
  shows "open_fds (snd y) = open_fds tr"
proof (rule select_loop.raw_induct [OF _ assms], goal_cases)
  case (1 f E fd deadline tr y)
  obtain now x tr1 r errno tr2 where
    sys: "sys E S_Time tr = (now, x, tr1)" "sys E (S_Select fd (deadline - now)) tr1 = (r, errno, tr2)" by (metis prod_cases3)
  have "open_fds tr2 = open_fds tr" using sys_keeps [OF sys(1)] sys_keeps [OF sys(2)] by (simp add: keeps_fds_def)
  moreover have "open_fds (snd y) = open_fds tr2"
    using 1(2) sys 1(1) [of E fd deadline tr2 y] by (cases y) (simp split: if_split_asm)
  ultimately show ?case by simp
qed

lemma connected_fds: "open_fds (snd (sock_connected E fd tr)) = open_fds tr"
  by (simp add: sock_connected_def case_prod_unfold sys_keeps_snd keeps_fds_def)

lemma connect_timeout_fds:
  assumes "sock_connect_timeout E fd sa timeout tr = Some (r, tr')"
  shows "open_fds tr' = open_fds tr"
proof -
  obtain now x0 t0 arg x1 t1 r2 x2 t2 where s: "sys E S_Time tr = (now, x0, t0)" "sys E (S_Getfl fd) t0 = (arg, x1, t1)"
    "sys E (S_Setfl fd (arg OR O_NONBLOCK)) t1 = (r2, x2, t2)" by (metis prod_cases3)
  obtain success errno t3 where c: "sys E (S_Connect fd sa) t2 = (success, errno, t3)" by (metis prod_cases3)
  have t: "open_fds t1 = open_fds tr" "open_fds t2 = open_fds tr" "open_fds t3 = open_fds tr"
    using s [THEN sys_keeps] c [THEN sys_keeps] by (simp_all add: keeps_fds_def)
  have fin: "open_fds tr' = open_fds t" if "sock_connected E fd t = (r, tr')" for t using connected_fds [of E fd t] that by simp
  have "tr' \<in> {t1, t2, t3} \<or> sock_connected E fd t3 = (r, tr') \<or>
      (\<exists>r4 t4. select_loop E fd (wrap32 (now + timeout)) t3 = Some (r4, t4) \<and> (tr' = t4 \<or> sock_connected E fd t4 = (r, tr')))"
    using assms unfolding sock_connect_timeout_def s c prod.case
    by (simp add: s c bind_eq_Some_conv split: if_split_asm) auto
  then show ?thesis
  proof (elim disjE exE conjE)
    fix r4 t4
    assume loop: "select_loop E fd (wrap32 (now + timeout)) t3 = Some (r4, t4)"
    have t4: "open_fds t4 = open_fds tr" using select_loop_fds [OF loop] t(3) by simp
    then show "open_fds tr' = open_fds tr" if "tr' = t4" using that by simp
    from t4 show "open_fds tr' = open_fds tr" if "sock_connected E fd t4 = (r, tr')" using fin [OF that] by simp
  next
    assume "sock_connected E fd t3 = (r, tr')"
    from fin [OF this] t(3) show "open_fds tr' = open_fds tr" by simp
  next
    assume "tr' \<in> {t1, t2, t3}"
    with t show "open_fds tr' = open_fds tr" by (elim insertE) simp_all
  qed
qed

text \<open>What a function that returns a connected socket leaves open: this socket, and nothing else.\<close>

definition one_socket :: "trace \<Rightarrow> int \<Rightarrow> trace \<Rightarrow> bool" where
  "one_socket tr fd tr' \<longleftrightarrow> fd = -1 \<and> open_fds tr' = open_fds tr \<or> fd > 0 \<and> fd \<notin> open_fds tr \<and> open_fds tr' = insert fd (open_fds tr)"

lemma connect_first_fds:
  assumes "fresh_sockets E"
  shows "connect_first E as timeout tr = Some (fd, tr') \<Longrightarrow> one_socket tr fd tr'"
proof (induction as arbitrary: tr)
  case (Cons a as)
  obtain family addr where a: "a = (family, addr)" by (cases a)
  let ?fd = "fst (sy_answer E tr (S_Socket family))" and ?tr = "(S_Socket family, sy_answer E tr (S_Socket family)) # tr"
  show ?case
  proof (cases "?fd = -1")
    case True
    with Cons.prems have "connect_first E as timeout ?tr = Some (fd, tr')" by (simp add: a sys_eq)
    from Cons.IH [OF this] True show ?thesis by (simp add: one_socket_def)
  next
    case False
    then have fd: "?fd > 0" "?fd \<notin> open_fds tr" "open_fds ?tr = insert ?fd (open_fds tr)"
      using fresh_socketsD [OF assms, of tr family] by auto
    from Cons.prems False obtain r tr2 where r: "sock_connect_timeout E ?fd addr timeout ?tr = Some (r, tr2)"
      "if r = 0 then (fd, tr') = (?fd, tr2) else connect_first E as timeout ((S_Close ?fd, sy_answer E tr2 (S_Close ?fd)) # tr2) = Some (fd, tr')"
      by (auto simp: a sys_eq bind_eq_Some_conv split: if_split_asm)
    have tr2: "open_fds tr2 = insert ?fd (open_fds tr)" using connect_timeout_fds [OF r(1)] fd(3) by simp
    show ?thesis
    proof (cases "r = 0")
      case True
      with r(2) tr2 fd show ?thesis by (simp add: one_socket_def)
    next
      case False
      with r(2) have "one_socket ((S_Close ?fd, sy_answer E tr2 (S_Close ?fd)) # tr2) fd tr'" by (intro Cons.IH) simp
      moreover have "open_fds ((S_Close ?fd, sy_answer E tr2 (S_Close ?fd)) # tr2) = open_fds tr" using tr2 fd(2) by simp
      ultimately show ?thesis unfolding one_socket_def by (simp only:)
    qed
  qed
qed (simp add: one_socket_def)

lemma sock_connect_fds:
  assumes "fresh_sockets E" and "sock_connect E uri tr = Some (fd, tr')"
  shows "one_socket tr fd tr'"
proof -
  have "one_socket tr fd tr'" if "sock_unix_connect E path timeout tr = Some (fd, tr')" for path timeout
  proof -
    have "connect_first E [(AF_LOCAL, path)] timeout tr = Some (fd, tr')"
      using that by (auto simp: sock_unix_connect_def bind_eq_Some_conv case_prod_unfold split: if_split_asm)
    then show ?thesis by (rule connect_first_fds [OF assms(1)])
  qed
  moreover have "one_socket tr fd tr'" if "sock_inet_connect E host port timeout tr = Some (fd, tr')" for host port timeout
    using that connect_first_fds [OF assms(1)] by (auto simp: sock_inet_connect_def one_socket_def split: option.split_asm)
  moreover have "one_socket tr fd tr'" if "Some (-1, tr) = Some (fd, tr')" using that by (simp add: one_socket_def)
  ultimately show ?thesis using assms(2) unfolding sock_connect_def by (simp only: split: if_split_asm option.split_asm)
qed

lemma rr_one_socket:
  assumes "fresh_sockets E" and "sock_connect_rr E sr tr = Some (fd, sr', tr')"
  shows "one_socket tr fd tr'"
proof -
  have "fresh_sockets E \<longrightarrow> fd0 = -1 \<longrightarrow> one_socket tr (fst y) (snd (snd y))" if "rr_loop E i fd0 sr tr = Some y" for i fd0 sr tr y
  proof (rule rr_loop.raw_induct [OF _ that, of "\<lambda>E i fd0 sr tr y. fresh_sockets E \<longrightarrow> fd0 = -1 \<longrightarrow> one_socket tr (fst y) (snd (snd y))"], goal_cases)
    case (1 f E i fd sr tr y)
    from 1(2) consider (stop) "y = (fd, sr, tr)" | (wrap) sr1 where "f E i fd sr1 tr = Some y"
      | (hit) uri fd1 sr1 tr1 where "sock_connect E uri tr = Some (fd1, tr1)" "fd1 > 0" "y = (fd1, sr1, tr1)"
      | (miss) uri fd1 sr1 tr1 where "sock_connect E uri tr = Some (fd1, tr1)" "\<not> fd1 > 0" "f E (i + 1) fd1 sr1 tr1 = Some y"
      by (fastforce split: if_split_asm option.split_asm prod.split_asm)
    then show ?case
    proof cases
      case miss
      show ?thesis
      proof (intro impI)
        assume "fresh_sockets E" "fd = -1"
        with sock_connect_fds [OF _ miss(1)] miss(2) have "fd1 = -1" "open_fds tr1 = open_fds tr" by (auto simp: one_socket_def)
        with 1(1) [OF miss(3)] \<open>fresh_sockets E\<close> show "one_socket tr (fst y) (snd (snd y))" by (simp add: one_socket_def)
      qed
    next
      case hit
      with sock_connect_fds [OF _ hit(1)] show ?thesis by simp
    qed (use 1(1) in \<open>simp_all add: one_socket_def\<close>)
  qed
  from this [of 0 "-1" sr tr] assms show ?thesis by (auto simp: sock_connect_rr_def one_socket_def)
qed

text \<open>
  C21: connecting to servers in turn leaks no descriptors. Whatever calls to the system fail, when
  \<open>sock_connect_rr\<close> returns then the socket that it returns is the only one that it has left open.
\<close>

theorem sock_connect_rr_no_leak:
  assumes "fresh_sockets E" and "sock_connect_rr E sr tr = Some (fd, sr', tr')"
  shows "fd = -1 \<and> open_fds tr' = open_fds tr \<or> fd > 0 \<and> fd \<notin> open_fds tr \<and> open_fds tr' = insert fd (open_fds tr)"
  using rr_one_socket [OF assms] by (simp only: one_socket_def)

subsection \<open>The order of attempts\<close>

text \<open>Attempts at a list of addresses, one after the other; the number is that of the attempts made.\<close>

fun try_uris :: "sysenv \<Rightarrow> string list \<Rightarrow> int \<Rightarrow> trace \<Rightarrow> (int \<times> nat \<times> trace) option" where
  "try_uris E [] fd tr = Some (fd, 0, tr)"
| "try_uris E (uri # uris) fd tr =
     (case sock_connect E uri tr of
        None \<Rightarrow> None
      | Some (fd1, tr1) \<Rightarrow>
          if fd1 > 0 then Some (fd1, 1, tr1)
          else map_option (\<lambda>(fd2, n, tr2). (fd2, Suc n, tr2)) (try_uris E uris fd1 tr1))"

definition from_pos :: "string list \<Rightarrow> nat \<Rightarrow> nat \<Rightarrow> string list" where
  "from_pos uris p k = map (\<lambda>j. uris ! ((p + j) mod length uris)) [0..<k]"

definition pos_after :: "nat \<Rightarrow> nat \<Rightarrow> nat \<Rightarrow> nat" where
  "pos_after len p n = (if n = 0 then p else Suc ((p + n - 1) mod len))"

lemma from_pos_Suc: "from_pos uris p (Suc k) = uris ! (p mod length uris) # from_pos uris (Suc p) k"
  by (simp add: from_pos_def map_upt_Suc del: upt_Suc)

lemma from_pos_mod: "from_pos uris (p mod length uris) k = from_pos uris p k"
  by (simp add: from_pos_def mod_add_left_eq)

lemma rr_loop_tries:
  assumes "sr_list sr = map Some uris" and "uris \<noteq> []" and "sr_pos sr \<le> length uris" and "nat (cf_connect_retries E - i) = k"
  shows "rr_loop E i fd sr tr =
    map_option (\<lambda>(fd, n, tr'). (fd, sr\<lparr>sr_pos := pos_after (length uris) (sr_pos sr) n\<rparr>, tr')) (try_uris E (from_pos uris (sr_pos sr) k) fd tr)"
  using assms
proof (induction k arbitrary: i fd sr tr)
  case 0
  then show ?case by (simp add: rr_loop.simps [of E i fd] from_pos_def pos_after_def)
next
  case (Suc k)
  let ?len = "length uris" and ?p = "sr_pos sr mod length uris"
  let ?sr = "sr\<lparr>sr_pos := Suc ?p\<rparr>"
  have p: "?p < ?len" using Suc.prems(2) by simp
  have i: "i < cf_connect_retries E" "nat (cf_connect_retries E - (i + 1)) = k" using Suc.prems(4) by simp_all
  have run: "rr_loop E i fd sr tr = (case sock_connect E (uris ! ?p) tr of None \<Rightarrow> None
      | Some (fd1, tr1) \<Rightarrow> if fd1 > 0 then Some (fd1, ?sr, tr1) else rr_loop E (i + 1) fd1 ?sr tr1)"
  proof (cases "sr_pos sr < ?len")
    case True
    then have pp: "?p = sr_pos sr" by simp
    show ?thesis unfolding pp using True Suc.prems(1) i(1) by (subst rr_loop.simps) (simp add: rr_next_def)
  next
    case False
    with Suc.prems(3) have pp: "?p = 0" by simp
    have "rr_loop E i fd sr tr = rr_loop E i fd (sr\<lparr>sr_pos := 0\<rparr>) tr"
      using Suc.prems(1) i(1) False by (subst rr_loop.simps) (simp add: rr_next_def)
    then show ?thesis unfolding pp using Suc.prems(1,2) i(1) by (simp add: rr_loop.simps [of E i fd "sr\<lparr>sr_pos := 0\<rparr>"] rr_next_def)
  qed
  have IH: "rr_loop E (i + 1) fd1 ?sr tr1 =
      map_option (\<lambda>(fd, n, tr'). (fd, sr\<lparr>sr_pos := pos_after ?len (Suc ?p) n\<rparr>, tr')) (try_uris E (from_pos uris (Suc (sr_pos sr)) k) fd1 tr1)" for fd1 tr1
    using Suc.IH [of ?sr "i + 1" fd1 tr1] Suc.prems(1-3) i(2) p from_pos_mod [of uris "Suc (sr_pos sr)" k] from_pos_mod [of uris "Suc ?p" k]
    by (simp add: mod_Suc_eq Suc_le_eq)
  have pos: "pos_after ?len (Suc ?p) n = pos_after ?len (sr_pos sr) (Suc n)" for n
    by (simp add: pos_after_def mod_add_left_eq)
  have one: "pos_after ?len (sr_pos sr) (Suc 0) = Suc ?p" by (simp add: pos_after_def)
  show ?case
    unfolding run from_pos_Suc try_uris.simps IH pos
    by (auto simp: one option.map_comp comp_def case_prod_unfold split: option.splits)
qed

lemma try_uris_finds:
  assumes "live \<in> set us" and "\<And>tr. \<exists>fd tr'. sock_connect E live tr = Some (fd, tr') \<and> fd > 0" and "\<And>u tr. u \<in> set us \<Longrightarrow> sock_connect E u tr \<noteq> None"
  shows "\<exists>fd' n tr'. try_uris E us fd tr = Some (fd', n, tr') \<and> fd' > 0"
  using assms(1,3)
proof (induction us arbitrary: fd tr)
  case (Cons u us)
  obtain fd1 tr1 where c: "sock_connect E u tr = Some (fd1, tr1)" using Cons.prems(2) [of u tr] by auto
  show ?case
  proof (cases "fd1 > 0")
    case False
    then have "u \<noteq> live" using assms(2) [of tr] c by auto
    with Cons.prems have "live \<in> set us" by auto
    from Cons.IH [OF this, of fd1 tr1] Cons.prems(2) c False show ?thesis by auto
  qed (use c in auto)
qed simp

lemma from_pos_all:
  assumes "length uris \<le> k" and "uris \<noteq> []"
  shows "set uris \<subseteq> set (from_pos uris p k)"
proof
  fix u
  assume "u \<in> set uris"
  then obtain j where j: "j < length uris" "u = uris ! j" by (auto simp: in_set_conv_nth)
  let ?n = "length uris"
  define d where "d = (j + ?n - p mod ?n) mod ?n"
  have "(p + d) mod ?n = (p mod ?n + (j + ?n - p mod ?n)) mod ?n" by (simp add: d_def mod_simps)
  also have "\<dots> = j" using j(1) assms(2) by (simp add: less_imp_le trans_le_add2)
  finally have "uris ! ((p + d) mod ?n) = u" using j(2) by simp
  moreover have "d < ?n" using assms(2) by (simp add: d_def)
  then have "d < k" using assms(1) by simp
  ultimately show "u \<in> set (from_pos uris p k)" by (force simp: from_pos_def)
qed

lemma rr_finds:
  assumes "sr_list sr = map Some uris" and "sr_pos sr \<le> length uris" and "int (length uris) \<le> cf_connect_retries E"
    and "live \<in> set uris" and "\<And>tr. \<exists>fd tr'. sock_connect E live tr = Some (fd, tr') \<and> fd > 0" and "\<And>u tr. u \<in> set uris \<Longrightarrow> sock_connect E u tr \<noteq> None"
  shows "\<exists>fd sr' tr'. sock_connect_rr E sr tr = Some (fd, sr', tr') \<and> fd > 0"
proof -
  let ?us = "from_pos uris (sr_pos sr) (nat (cf_connect_retries E))"
  have ne: "uris \<noteq> []" using assms(4) by auto
  have "length uris \<le> nat (cf_connect_retries E)" using assms(3) by simp
  from from_pos_all [OF this ne] have "live \<in> set ?us" using assms(4) by auto
  moreover have "set ?us \<subseteq> set uris" using ne by (auto simp: from_pos_def)
  ultimately obtain fd n tr' where "try_uris E ?us (-1) tr = Some (fd, n, tr')" "fd > 0"
    using try_uris_finds [of live ?us E "-1" tr] assms(5,6) by blast
  then show ?thesis using rr_loop_tries [OF assms(1) ne assms(2), of E 0] by (simp add: sock_connect_rr_def)
qed

text \<open>
  C22: one live server is enough. When there are at least as many attempts as servers, each attempt returns, and
  one of the servers always accepts connections, then \<open>sock_connect_rr\<close> returns a connected socket,
  from whatever position in the list it starts.
\<close>

theorem sock_connect_rr_finds:
  assumes "sr_list sr = map Some uris" and "sr_pos sr \<le> length uris" and "int (length uris) \<le> cf_connect_retries E"
    and "live \<in> set uris" and "\<And>tr. \<exists>fd tr'. sock_connect E live tr = Some (fd, tr') \<and> fd > 0" and "\<And>u tr. u \<in> set uris \<Longrightarrow> sock_connect E u tr \<noteq> None"
  shows "\<exists>fd sr' tr'. sock_connect_rr E sr tr = Some (fd, sr', tr') \<and> fd > 0"
  using assms by (rule rr_finds)

text \<open>With an empty list the loop does not end.\<close>

lemma rr_empty_hangs:
  assumes "sr_list sr = []" and "0 < cf_connect_retries E"
  shows "sock_connect_rr E sr tr = None"
proof (rule ccontr)
  assume "sock_connect_rr E sr tr \<noteq> None"
  then obtain y where "rr_loop E 0 (-1) sr tr = Some y" by (auto simp: sock_connect_rr_def)
  then have "\<not> (sr_list sr = [] \<and> 0 < cf_connect_retries E)"
    by (rule rr_loop.raw_induct [of "\<lambda>E i fd sr tr y. \<not> (sr_list sr = [] \<and> i < cf_connect_retries E)", rotated])
      (auto simp: rr_next_def split: if_split_asm)
  with assms show False by simp
qed

subsection \<open>An example\<close>

text \<open>A system with a server at \<open>/live\<close> only. It gives out descriptors in ascending order and does not use one twice.\<close>

fun next_fd :: "trace \<Rightarrow> int" where
  "next_fd [] = 3"
| "next_fd ((c, r, x) # tr) = max (next_fd tr) (r + 1)"

definition demo_sys :: sysenv where
  "demo_sys =
     \<lparr>sy_answer = (\<lambda>tr c. case c of
          S_Socket _ \<Rightarrow> (next_fd tr, 0)
        | S_Write _ data \<Rightarrow> (int (length data), 0)
        | S_Connect _ path \<Rightarrow> if path = ''/live'' then (0, 0) else (-1, 111)
        | _ \<Rightarrow> (0, 0)),
      sy_getaddrinfo = (\<lambda>_ _. None), cf_connect_timeout = 30, cf_connect_retries = 3, cf_control_socket_permissions = 0\<rparr>"

definition demo_rr :: sock_rr where
  "demo_rr = \<lparr>sr_list = [Some ''unix:/dead'', Some ''unix:/live''], sr_pos = 0\<rparr>"

lemma next_fd_open: "3 \<le> next_fd tr \<and> (\<forall>fd \<in> open_fds tr. fd < next_fd tr)"
  by (induction tr rule: next_fd.induct) (auto split: syscall.splits if_split_asm)

lemma demo_fresh: "fresh_sockets demo_sys"
  unfolding fresh_sockets_def demo_sys_def using next_fd_open by (fastforce simp: less_le)

lemma demo_retries: "cf_connect_retries demo_sys = 3"
  by (simp add: demo_sys_def)

lemma demo_live: "\<exists>tr'. sock_connect demo_sys ''unix:/live'' tr = Some (next_fd tr, tr')"
  by (simp add: sock_connect_def sock_unix_connect_def SUN_PATH_def sys_eq demo_sys_def sock_connect_timeout_def sock_connected_def)

theorem sock_connect_rr_no_leak_witness:
  "fresh_sockets demo_sys \<and> (\<exists>sr tr. sock_connect_rr demo_sys demo_rr [] = Some (4, sr, tr) \<and> open_fds tr = {4})"
proof -
  have dead: "\<exists>tr. sock_connect demo_sys ''unix:/dead'' [] = Some (-1, tr) \<and> next_fd tr = 4"
    by (simp add: sock_connect_def sock_unix_connect_def SUN_PATH_def sys_eq demo_sys_def sock_connect_timeout_def EINPROGRESS_def)
  obtain t1 t2 where t: "sock_connect demo_sys ''unix:/dead'' [] = Some (-1, t1)" "sock_connect demo_sys ''unix:/live'' t1 = Some (4, t2)"
    using dead demo_live by metis
  have "map_option fst (sock_connect_rr demo_sys demo_rr []) = Some 4"
    by (simp add: sock_connect_rr_def demo_rr_def rr_loop.simps [of demo_sys] rr_next_def demo_retries t)
  then obtain sr tr where "sock_connect_rr demo_sys demo_rr [] = Some (4, sr, tr)" by auto
  with sock_connect_rr_no_leak [OF demo_fresh this] demo_fresh show ?thesis by simp
qed

lemma demo_connect:
  "\<exists>fd tr'. sock_connect demo_sys ''unix:/live'' tr = Some (fd, tr') \<and> fd > 0" "sock_connect demo_sys ''unix:/dead'' tr \<noteq> None"
  using next_fd_open [of tr]
  by (simp_all add: sock_connect_def sock_unix_connect_def SUN_PATH_def sys_eq demo_sys_def sock_connect_timeout_def sock_connected_def EINPROGRESS_def)

theorem sock_connect_rr_finds_witness: "\<exists>fd sr' tr'. sock_connect_rr demo_sys demo_rr [] = Some (fd, sr', tr') \<and> fd > 0"
proof (rule sock_connect_rr_finds [of demo_rr "[''unix:/dead'', ''unix:/live'']" demo_sys "''unix:/live''"])
  show "sock_connect demo_sys u tr \<noteq> None" if "u \<in> set [''unix:/dead'', ''unix:/live'']" for u tr
    using that demo_connect by fastforce
qed (use demo_connect(1) in \<open>simp_all add: demo_rr_def demo_retries\<close>)

end
