(* ===== verification/Filters.thy ===== *)
theory Filters
  imports Actions Sock
begin

section \<open>Filters behind a socket (modules/spamd.c, modules/clamav.c)\<close>

text \<open>
  Symbols whose values other programs compute from the message: SpamAssassin (\<open>src/src/modules/spamd.c\<close>) and
  ClamAV (\<open>src/src/modules/clamav.c\<close>). The calls to the system are in the trace of \<open>Sock\<close>; what \<open>read\<close> returns is an argument, a text of at most the length asked for, or \<open>None\<close> for an error.
\<close>

subsection \<open>Talking over a socket\<close>

text \<open>The time is the text that \<open>strftime\<close> makes of it, \<open>None\<close> when there is none.\<close>

record 'h svcenv =
  sv_sys :: sysenv
  sv_read :: "trace \<Rightarrow> int \<Rightarrow> nat \<Rightarrow> string option"
  sv_env :: "'h env"
  sv_timestamp :: "string option"
  sv_hostname :: string

definition read_sock :: "'h svcenv \<Rightarrow> int \<Rightarrow> nat \<Rightarrow> trace \<Rightarrow> string option \<times> trace" where
  "read_sock V fd n tr =
     (case sv_read V tr fd n of
        None \<Rightarrow> (None, (S_Read fd [], -1, 0) # tr)
      | Some data \<Rightarrow> (Some (take n data), (S_Read fd (take n data), int (length (take n data)), 0) # tr))"

definition write_sock :: "'h svcenv \<Rightarrow> int \<Rightarrow> string \<Rightarrow> trace \<Rightarrow> int \<times> trace" where
  "write_sock V fd data tr = (case sys (sv_sys V) (S_Write fd data) tr of (r, _, tr1) \<Rightarrow> (r, tr1))"

text \<open>Writes one after the other until one fails; that a call writes less than it was given goes unnoticed.\<close>

fun write_all :: "'h svcenv \<Rightarrow> int \<Rightarrow> string list \<Rightarrow> trace \<Rightarrow> bool \<times> trace" where
  "write_all V fd [] tr = (True, tr)"
| "write_all V fd (data # datas) tr =
     (case write_sock V fd data tr of (r, tr1) \<Rightarrow> if r = -1 then (False, tr1) else write_all V fd datas tr1)"

text \<open>
  The frame of \<open>spamd_query\<close> and \<open>clamav_query\<close>: a connection to one of the servers, a dialogue that ends with a
  result or an error, and the end of the connection.
\<close>

definition with_sock ::
  "'h svcenv \<Rightarrow> sock_rr \<Rightarrow> trace \<Rightarrow> (int \<Rightarrow> trace \<Rightarrow> ('r option \<times> trace) option) \<Rightarrow> ('r option \<times> sock_rr \<times> trace) option" where
  "with_sock V sr tr talk =
     do {
       (sock, sr1, tr1) \<leftarrow> sock_connect_rr (sv_sys V) sr tr;
       if sock = -1 then Some (None, sr1, tr1)
       else
         do {
           (r, tr2) \<leftarrow> talk sock tr1;
           Some (r, sr1, if r \<noteq> None \<or> sock > 0 then snd (snd (sys (sv_sys V) (S_Close sock) tr2)) else tr2) } }"

text \<open>A text in a buffer ends at its first \<open>NUL\<close>.\<close>

abbreviation NUL :: char where "NUL \<equiv> CHR 0x00"

definition cstr :: "string \<Rightarrow> string" where
  "cstr b = takeWhile (\<lambda>c. c \<noteq> NUL) b"

definition nul_terminated :: "string \<Rightarrow> string option" where
  "nul_terminated b = (if NUL \<in> set b then Some (cstr b) else None)"

text \<open>\<open>strstr\<close>: the rest of a text from the first occurrence of another.\<close>

fun strstr :: "string \<Rightarrow> string \<Rightarrow> string option" where
  "strstr [] needle = (if needle = [] then Some [] else None)"
| "strstr (c # s) needle = (if take (length needle) (c # s) = needle then Some (c # s) else strstr s needle)"

subsection \<open>SpamAssassin (modules/spamd.c)\<close>

definition SPAMD_BUFLEN :: nat where "SPAMD_BUFLEN = 4096"

definition spamd_symbols :: "string list" where
  "spamd_symbols = [''spamd_spam'', ''spamd_score'', ''spamd_symbols'']"

text \<open>
  \<open>spamd_printable_buffer\<close>: what the text is afterwards. Characters after its end are written as well; those
  are not known.
\<close>

definition spamd_printable_buffer :: "string \<Rightarrow> nat \<Rightarrow> string" where
  "spamd_printable_buffer buffer len =
     map (\<lambda>c. if (of_char c :: nat) < 33 \<or> (of_char c :: nat) > 126 then CHR ''.'' else c) (take (len - 1) buffer)
     @ replicate (len - 1 - length buffer) (CHR ''.'')"

definition spamd_rdns_none :: "string \<Rightarrow> string \<Rightarrow> bool option" where
  "spamd_rdns_none hostname hostaddr =
     do {
       (clean_hostname, _) \<leftarrow> util_strdupenc [] hostname (CHR ''['') (CHR '']'');
       Some (clean_hostname = Some hostaddr) }"

text \<open>The format \<open>spamd_multi\<close>. The argument for the recipient is empty.\<close>

definition spamd_multi :: "string \<Rightarrow> string \<Rightarrow> string \<Rightarrow> string \<Rightarrow> string \<Rightarrow> string \<Rightarrow> string" where
  "spamd_multi helo host hostname envfrom queue_id timestamp =
     ''Received: from '' @ helo @ '' ('' @ host @ '')'' @ crlf @ [CHR 0x09] @ ''by '' @ hostname @ '' (envelope-sender <'' @ envfrom @
     ''>) (mopherd) with SMTP id '' @ queue_id @ '';'' @ crlf @ [CHR 0x09] @ timestamp @ crlf"

text \<open>
  \<open>spamd_header\<close>: \<open>acl_symbol_dereference\<close> stores the address of the number of recipients where the source
  expects the number; since no address is 1, the format for a single recipient is never used. The
  result is that of \<open>snprintf\<close>, which is larger than the text in the buffer when this is too small.
\<close>

definition spamd_header :: "'h svcenv \<Rightarrow> nat \<Rightarrow> 'h world \<Rightarrow> ((int \<times> string) \<times> 'h world) option" where
  "spamd_header V len w =
     do {
       (errors, ds, st) \<leftarrow> acl_symbol_dereference (e_x (sv_env V) (w_db w)) (w_x w)
         [''received'', ''hostname'', ''helo'', ''envfrom_addr'', ''envrcpt_addr'', ''recipients'', ''queue_id'', ''hostaddr_str''];
       let w1 = w\<lparr>w_x := st\<rparr>;
       if errors \<noteq> 0 then Some ((-1, []), w1)
       else
         (case sv_timestamp V of
            None \<Rightarrow> Some ((-1, []), w1)
          | Some timestamp \<Rightarrow>
              do {
                hostname \<leftarrow> as_string (ds ! 1);
                hostaddr_str \<leftarrow> as_string (ds ! 7);
                rdns_none \<leftarrow> spamd_rdns_none hostname hostaddr_str;
                let host = (if rdns_none then ''['' @ hostaddr_str @ '']'' else hostname @ '' ['' @ hostaddr_str @ '']'');
                if length host \<ge> SPAMD_BUFLEN then Some ((-1, []), w1)
                else
                  do {
                    helo \<leftarrow> as_string (ds ! 2);
                    envfrom \<leftarrow> as_string (ds ! 3);
                    queue_id \<leftarrow> as_string (ds ! 6);
                    let header = spamd_multi helo host (sv_hostname V) envfrom queue_id timestamp;
                    Some ((int (length header), take (len - 1) header), w1) } }) }"

text \<open>
  The reply, first the text after the status. With another version the source means to go on, but
  \<open>spamd_printable_buffer\<close> has ended the text behind the version.
\<close>

definition spamd_status :: "string \<Rightarrow> string option" where
  "spamd_status buffer =
     (if take 6 buffer \<noteq> ''SPAMD/'' then None
      else
        (let p = drop 6 buffer;
             p1 = (if take 3 p \<noteq> ''1.1'' then spamd_printable_buffer p 4 else p) in
         map_option (drop 5) (strstr (drop 3 p1) ''EX_OK'')))"

function split_at :: "char \<Rightarrow> string \<Rightarrow> string list" where
  "split_at c p = (case strchr p c of None \<Rightarrow> [p] | Some q \<Rightarrow> take (length p - length q) p # split_at c (tl q))"
  by auto
termination
  by (relation "measure (length \<circ> snd)") (auto dest: strchr_Some)

text \<open>Then the verdict, the score and the symbols. Going over the end of the text is the outer \<open>None\<close>.\<close>

definition spamd_result :: "libc \<Rightarrow> string \<Rightarrow> (int \<times> double \<times> string list) option option" where
  "spamd_result L p =
     (if take 6 p \<noteq> ''Spam: '' then Some None
      else
        (let p1 = drop 6 p in
         if take 7 p1 \<noteq> ''True ; '' \<and> take 8 p1 \<noteq> ''False ; '' then Some None
         else
           (let (spam, p2) = (if take 7 p1 = ''True ; '' then (1, drop 7 p1) else (0, drop 8 p1)) in
            case strchr p2 (CHR '' '') of
              None \<Rightarrow> Some None
            | Some q \<Rightarrow>
                (let score = fl_atof L (take (length p2 - length q) p2) in
                 case strchr (tl q) (CHR 0x0D) of
                   None \<Rightarrow> Some None
                 | Some p3 \<Rightarrow>
                     if length p3 < 4 then None
                     else
                       (let p4 = drop 4 p3 in
                        case strchr p4 (CHR 0x0D) of
                          None \<Rightarrow> Some None
                        | Some e \<Rightarrow> Some (Some (spam, score, split_at (CHR '','') (take (length p4 - length e) p4))))))))"

text \<open>The dialogue. When the second \<open>read\<close> fills the buffer, the terminator is written behind it.\<close>

definition spamd_talk ::
  "'h svcenv \<Rightarrow> libc \<Rightarrow> string \<Rightarrow> string \<Rightarrow> int \<Rightarrow> trace \<Rightarrow> ((int \<times> double \<times> string list) option \<times> trace) option" where
  "spamd_talk V L request message sock tr =
     (case write_all V sock [request, message] tr of
        (False, tr1) \<Rightarrow> Some (None, tr1)
      | (True, tr1) \<Rightarrow>
          (case read_sock V sock (SPAMD_BUFLEN - 1) tr1 of
             (None, tr2) \<Rightarrow> Some (None, tr2)
           | (Some data, tr2) \<Rightarrow>
               if data = [] then Some (None, tr2)
               else
                 (case spamd_status (cstr data) of
                    None \<Rightarrow> Some (None, tr2)
                  | Some p \<Rightarrow>
                      if length p \<le> 2 then
                        (case read_sock V sock SPAMD_BUFLEN tr2 of
                           (None, tr3) \<Rightarrow> Some (None, tr3)
                         | (Some data1, tr3) \<Rightarrow>
                             if length data1 \<ge> SPAMD_BUFLEN then None
                             else do { r \<leftarrow> spamd_result L (cstr data1); Some (r, tr3) })
                      else do { r \<leftarrow> spamd_result L (drop 2 p); Some (r, tr2) })))"

definition spamd_request :: "int \<Rightarrow> string" where
  "spamd_request sz = ''SYMBOLS SPAMC/1.2'' @ crlf @ ''Content-length: '' @ show_int sz @ crlf @ crlf"

text \<open>The attributes that a result becomes.\<close>

definition spamd_set :: "int \<times> double \<times> string list \<Rightarrow> mailspec \<Rightarrow> (int \<times> mailspec) option" where
  "spamd_set r m =
     (case r of (spam, score, syms) \<Rightarrow>
        (case var_create VT_LIST (Some ''spamd_symbols'') None (VF_KEEPNAME OR VF_CREATE) of
           None \<Rightarrow> Some (-1, m)
         | Some l \<Rightarrow>
             do {
               symbols \<leftarrow> append_all l (map (\<lambda>s. (VT_STRING, None, Some (DString s), VF_COPYDATA)) syms);
               (case symbols of
                  None \<Rightarrow> Some (-1, m)
                | Some l1 \<Rightarrow>
                    (case spec_setv m
                        [(VT_INT, ''spamd_spam'', Some (DInt spam), VF_KEEPNAME OR VF_COPYDATA),
                         (VT_FLOAT, ''spamd_score'', Some (DFloat score), VF_KEEPNAME OR VF_COPYDATA)] of
                       (r, m1) \<Rightarrow> Some (if r \<noteq> 0 then (-1, m1) else (0, m1(''spamd_symbols'' \<mapsto> l1))))) }))"

text \<open>
  \<open>spamd_query\<close>. The header is copied by its computed length, which may be larger than its buffer. A
  negative length cannot be allocated.
\<close>

definition spamd_query :: "'h svcenv \<Rightarrow> sock_rr \<Rightarrow> 'h world \<Rightarrow> trace \<Rightarrow> (int \<times> sock_rr \<times> 'h world \<times> trace) option" where
  "spamd_query V sr w tr =
     do {
       ((header_size, header), w1) \<leftarrow> spamd_header V SPAMD_BUFLEN w;
       if header_size = -1 then Some (-1, sr, w1, tr)
       else
         (case spec_get (w_spec w1) ''message_size'' of
            None \<Rightarrow> Some (-1, sr, w1, tr)
          | d \<Rightarrow>
              do {
                message_size \<leftarrow> as_int d;
                let sz = wrap64 (header_size + message_size);
                if sz + 1 < 0 then Some (-1, sr, w1, tr)
                else if header_size > int SPAMD_BUFLEN \<or> header_size > sz + 1 then None
                else
                  do {
                    ((n, dump), w2) \<leftarrow> milter_dump_message (sv_env V) (wrap32 (sz - header_size + 1)) w1;
                    if n = -1 then Some (-1, sr, w2, tr)
                    else
                      (let message = take (nat header_size) (header @ [NUL]) @ dump in
                       if int (length message) \<noteq> sz then None
                       else
                         do {
                           (r, sr1, tr1) \<leftarrow>
                             with_sock V sr tr (spamd_talk V (x_libc (e_x (sv_env V) (w_db w2))) (spamd_request sz) message);
                           (case r of
                              None \<Rightarrow> Some (-1, sr1, w2, tr1)
                            | Some result \<Rightarrow>
                                do {
                                  (r, m) \<leftarrow> spamd_set result (w_spec w2);
                                  Some (r, sr1, w2\<lparr>w_x := (w_x w2)\<lparr>xs_spec := m\<rparr>\<rparr>, tr1) }) }) } }) }"

definition spamd_init :: "var \<Rightarrow> (sock_rr \<times> (string \<times> int) list) option" where
  "spamd_init config =
     do {
       (r, sr) \<leftarrow> sock_rr_init config ''spamd_socket'';
       if r \<noteq> 0 then None else Some (sr, map (\<lambda>p. (p, MS_OFF_EOM)) spamd_symbols) }"

subsection \<open>Connections are closed\<close>

lemma read_sock_fds [simp]: "open_fds (snd (read_sock V fd n tr)) = open_fds tr"
  by (simp add: read_sock_def split: option.splits)

lemma write_sock_fds [simp]: "open_fds (snd (write_sock V fd data tr)) = open_fds tr"
  by (simp add: write_sock_def sys_eq)

lemma write_all_fds [simp]: "open_fds (snd (write_all V fd datas tr)) = open_fds tr"
proof (induction datas arbitrary: tr)
  case (Cons d datas)
  have "open_fds (snd (write_all V fd datas (snd (write_sock V fd d tr)))) = open_fds tr" using Cons by simp
  then show ?case by (simp add: case_prod_unfold)
qed simp

lemma write_all_tr: "write_all V fd datas tr = (b, tr') \<Longrightarrow> open_fds tr' = open_fds tr"
  using write_all_fds [of V fd datas tr] by simp

lemma read_sock_tr: "read_sock V fd n tr = (d, tr') \<Longrightarrow> open_fds tr' = open_fds tr"
  using read_sock_fds [of V fd n tr] by simp

lemma with_sock_fds:
  assumes "fresh_sockets (sv_sys V)" and "with_sock V sr tr talk = Some (r, sr', tr')"
    and "\<And>fd tr r tr'. talk fd tr = Some (r, tr') \<Longrightarrow> open_fds tr' = open_fds tr"
  shows "open_fds tr' = open_fds tr"
proof -
  obtain sock sr1 tr1 where c: "sock_connect_rr (sv_sys V) sr tr = Some (sock, sr1, tr1)" using assms(2)
    by (auto simp: with_sock_def bind_eq_Some_conv)
  from rr_one_socket [OF assms(1) c] consider (no) "sock = -1" "open_fds tr1 = open_fds tr"
    | (yes) "sock > 0" "sock \<notin> open_fds tr" "open_fds tr1 = insert sock (open_fds tr)" by (auto simp: one_socket_def)
  then show ?thesis
  proof cases
    case no
    with assms(2) c show ?thesis by (auto simp: with_sock_def)
  next
    case yes
    with assms(2) c obtain tr2 where t: "talk sock tr1 = Some (r, tr2)" "tr' = snd (snd (sys (sv_sys V) (S_Close sock) tr2))"
      by (auto simp: with_sock_def bind_eq_Some_conv)
    have "open_fds tr2 = insert sock (open_fds tr)" using assms(3) [OF t(1)] yes(3) by simp
    with t(2) yes(2) show ?thesis by (simp add: sys_eq)
  qed
qed

lemma spamd_talk_fds:
  assumes "spamd_talk V L request message sock tr = Some (r, tr')"
  shows "open_fds tr' = open_fds tr"
proof -
  obtain ok tr1 d2 tr2 d3 tr3 where t: "write_all V sock [request, message] tr = (ok, tr1)"
    "read_sock V sock (SPAMD_BUFLEN - 1) tr1 = (d2, tr2)" "read_sock V sock SPAMD_BUFLEN tr2 = (d3, tr3)" by (meson surj_pair)
  have "tr' \<in> {tr1, tr2, tr3}"
    using assms unfolding spamd_talk_def t prod.case
    by (cases ok; cases d2; cases d3) (auto simp: bind_eq_Some_conv split: option.split_asm if_split_asm)
  then show ?thesis using write_all_tr [OF t(1)] read_sock_tr [OF t(2)] read_sock_tr [OF t(3)] by (elim insertE) simp_all
qed

lemma spamd_query_fds:
  assumes "fresh_sockets (sv_sys V)" and "spamd_query V sr w tr = Some (r, sr', w', tr')"
  shows "open_fds tr' = open_fds tr"
proof -
  obtain hs header w1 where h: "spamd_header V SPAMD_BUFLEN w = Some ((hs, header), w1)"
    using assms(2) by (auto simp: spamd_query_def bind_eq_Some_conv)
  have "tr' = tr \<or> (\<exists>L request message x sr1. with_sock V sr tr (spamd_talk V L request message) = Some (x, sr1, tr'))"
    using assms(2) unfolding spamd_query_def h
    by (fastforce simp: Let_def bind_eq_Some_conv split: option.split_asm if_split_asm)
  then show ?thesis
  proof (elim disjE exE)
    fix L request message x sr1
    assume "with_sock V sr tr (spamd_talk V L request message) = Some (x, sr1, tr')"
    then show "open_fds tr' = open_fds tr" by (rule with_sock_fds [OF assms(1)]) (erule spamd_talk_fds)
  qed simp
qed

subsection \<open>The replies of SpamAssassin\<close>

fun join_with :: "char \<Rightarrow> string list \<Rightarrow> string" where
  "join_with c [] = []"
| "join_with c [s] = s"
| "join_with c (s # ss) = s @ c # join_with c ss"

declare split_at.simps [simp del]

lemma split_at_none: "c \<notin> set s \<Longrightarrow> split_at c s = [s]"
  by (subst split_at.simps) (simp add: strchr_None [THEN iffD2])

lemma split_at_append: "c \<notin> set s \<Longrightarrow> split_at c (s @ c # t) = s # split_at c t"
  by (subst split_at.simps) (simp add: strchr_append)

lemma split_at_join: "ss \<noteq> [] \<Longrightarrow> \<forall>s \<in> set ss. c \<notin> set s \<Longrightarrow> split_at c (join_with c ss) = ss"
  by (induction c ss rule: join_with.induct) (simp_all add: split_at_none split_at_append)

lemma join_with_set: "set (join_with c ss) \<subseteq> insert c (\<Union>s \<in> set ss. set s)"
  by (induction c ss rule: join_with.induct) auto

text \<open>The lines that the server sends: the status, the verdict with the score and the threshold, and the names of the tests.\<close>

definition spamd_ok :: string where
  "spamd_ok = ''SPAMD/1.1 0 EX_OK'' @ crlf"

definition spamd_verdict :: "bool \<Rightarrow> string \<Rightarrow> string \<Rightarrow> string list \<Rightarrow> string" where
  "spamd_verdict spam score threshold syms =
     ''Spam: '' @ (if spam then ''True ; '' else ''False ; '') @ score @ '' / '' @ threshold @ crlf @ crlf @ join_with (CHR '','') syms @ crlf"

definition verdict_ok :: "string \<Rightarrow> string \<Rightarrow> string list \<Rightarrow> bool" where
  "verdict_ok score threshold syms \<longleftrightarrow>
     CHR '' '' \<notin> set score \<and> CHR 0x0D \<notin> set threshold \<and> syms \<noteq> [] \<and> (\<forall>s \<in> set syms. CHR '','' \<notin> set s \<and> CHR 0x0D \<notin> set s) \<and>
     NUL \<notin> set (score @ threshold @ concat syms)"

lemma spamd_result_verdict:
  assumes "verdict_ok score threshold syms"
  shows "spamd_result L (spamd_verdict spam score threshold syms) = Some (Some (if spam then 1 else 0, fl_atof L score, syms))"
proof -
  let ?j = "join_with (CHR '','') syms"
  let ?t = "threshold @ CHR 0x0D # CHR 0x0A # CHR 0x0D # CHR 0x0A # ?j @ [CHR 0x0D, CHR 0x0A]"
  have j: "CHR 0x0D \<notin> set ?j" using assms join_with_set [of "CHR '',''" syms] by (auto simp: verdict_ok_def)
  have score: "strchr (score @ CHR '' '' # CHR ''/'' # CHR '' '' # ?t) (CHR '' '') = Some (CHR '' '' # CHR ''/'' # CHR '' '' # ?t)"
    using assms by (simp add: strchr_append verdict_ok_def)
  have t: "strchr ?t (CHR 0x0D) = Some (drop (length threshold) ?t)" "strchr (?j @ [CHR 0x0D, CHR 0x0A]) (CHR 0x0D) = Some [CHR 0x0D, CHR 0x0A]"
    using assms j by (simp_all add: strchr_append verdict_ok_def)
  have "split_at (CHR '','') ?j = syms" using assms by (intro split_at_join) (auto simp: verdict_ok_def)
  then show ?thesis
    by (cases spam) (simp_all add: spamd_result_def spamd_verdict_def crlf_def score t Let_def)
qed

text \<open>Another version is not only logged, as the source says: the reply is then refused.\<close>

lemma spamd_other_version_refused: "take 9 buffer \<noteq> ''SPAMD/1.1'' \<Longrightarrow> spamd_status buffer = None"
proof -
  assume a: "take 9 buffer \<noteq> ''SPAMD/1.1''"
  have "take 9 buffer = take 6 buffer @ take 3 (drop 6 buffer)" using take_add [of 6 3 buffer] by simp
  with a have "take 6 buffer = ''SPAMD/'' \<longrightarrow> take 3 (drop 6 buffer) \<noteq> ''1.1''" by auto
  moreover have "drop 3 (spamd_printable_buffer p 4) = []" for p by (simp add: spamd_printable_buffer_def)
  ultimately show ?thesis by (simp add: spamd_status_def Let_def)
qed

text \<open>The texts that successive calls of \<open>read\<close> return.\<close>

fun delivers :: "'h svcenv \<Rightarrow> int \<Rightarrow> trace \<Rightarrow> string list \<Rightarrow> bool" where
  "delivers V sock tr [] \<longleftrightarrow> True"
| "delivers V sock tr (d # ds) \<longleftrightarrow>
     length d < SPAMD_BUFLEN \<and> (\<forall>n. sv_read V tr sock n = Some d) \<and> delivers V sock ((S_Read sock d, int (length d), 0) # tr) ds"

lemma read_delivered: "delivers V sock tr (d # ds) \<Longrightarrow> length d \<le> n \<Longrightarrow> read_sock V sock n tr = (Some d, (S_Read sock d, int (length d), 0) # tr)"
  by (simp add: read_sock_def)

lemma cstr_id: "NUL \<notin> set s \<Longrightarrow> cstr s = s"
  by (simp add: cstr_def takeWhile_eq_all_conv) auto

lemma cstr_append: "NUL \<notin> set s \<Longrightarrow> cstr (s @ t) = s @ cstr t"
  by (induction s) (auto simp: cstr_def)

lemma verdict_no_nul: "verdict_ok score threshold syms \<Longrightarrow> NUL \<notin> set (spamd_verdict spam score threshold syms)"
  using join_with_set [of "CHR '',''" syms] by (auto simp: verdict_ok_def spamd_verdict_def crlf_def)

lemma spamd_status_ok: "spamd_status (spamd_ok @ rest) = Some (crlf @ rest)"
  by (simp add: spamd_status_def spamd_ok_def Let_def)

definition spamd_list :: "string list \<Rightarrow> vdata" where
  "spamd_list syms = DList (map (\<lambda>s. Some (Var VT_STRING None (Some (DString s)) VF_COPYDATA)) syms)"

lemma spamd_append:
  "append_all (Var VT_LIST n (Some (DList xs)) f) (map (\<lambda>s. (VT_STRING, None, Some (DString s), VF_COPYDATA)) syms) =
    Some (Some (Var VT_LIST n (Some (DList (xs @ map (\<lambda>s. Some (Var VT_STRING None (Some (DString s)) VF_COPYDATA)) syms))) f))"
proof (induction syms arbitrary: xs)
  case (Cons s syms)
  have "var_create VT_STRING None (Some (DString s)) VF_COPYDATA = Some (Var VT_STRING None (Some (DString s)) VF_COPYDATA)"
    by (simp add: var_create_def var_init_def var_data_init_def sanitize_def has_flag_def vf_defs)
  with Cons show ?case by (simp add: vlist_append_new_def vlist_append_def vlist_items_def)
qed simp

lemma spamd_set_attributes:
  "\<exists>m'. spamd_set (spam, score, syms) m = Some (0, m') \<and> spec_get m' ''spamd_spam'' = Some (DInt spam) \<and>
    spec_get m' ''spamd_score'' = Some (DFloat score) \<and> spec_get m' ''spamd_symbols'' = Some (spamd_list syms)"
proof -
  have l: "var_create VT_LIST (Some ''spamd_symbols'') None (VF_KEEPNAME OR VF_CREATE) =
      Some (Var VT_LIST (Some ''spamd_symbols'') (Some (DList [])) (VF_KEEPNAME OR VF_CREATE))"
    by (simp add: var_create_def var_init_def var_data_init_def sanitize_def has_flag_def vf_defs)
  have v: "var_create VT_INT (Some ''spamd_spam'') (Some (DInt spam)) (VF_KEEPNAME OR VF_COPYDATA) =
      Some (Var VT_INT (Some ''spamd_spam'') (Some (DInt spam)) (VF_KEEPNAME OR VF_COPYDATA))"
    "var_create VT_FLOAT (Some ''spamd_score'') (Some (DFloat score)) (VF_KEEPNAME OR VF_COPYDATA) =
      Some (Var VT_FLOAT (Some ''spamd_score'') (Some (DFloat score)) (VF_KEEPNAME OR VF_COPYDATA))"
    by (simp_all add: var_create_def var_init_def var_data_init_def sanitize_def has_flag_def vf_defs)
  show ?thesis by (simp add: spamd_set_def l v spamd_append spec_set_new_def spec_get_def spamd_list_def)
qed

text \<open>
  C24: the verdict of SpamAssassin is what the rules see. When the server answers with a status line and a
  verdict, in one piece or with the status line alone first, then the query returns the verdict, the score
  and the names of the tests, and these become the attributes.
\<close>

theorem spamd_reads_verdict:
  assumes "verdict_ok score threshold syms" and "write_all V sock [request, message] tr = (True, tr1)"
    and "delivers V sock tr1 pieces"
    and "pieces = [spamd_ok @ spamd_verdict spam score threshold syms] \<or> pieces = [spamd_ok, spamd_verdict spam score threshold syms]"
  shows "\<exists>tr' m'. spamd_talk V L request message sock tr = Some (Some (if spam then 1 else 0, fl_atof L score, syms), tr') \<and>
    spamd_set (if spam then 1 else 0, fl_atof L score, syms) m = Some (0, m') \<and>
    spec_get m' ''spamd_spam'' = Some (DInt (if spam then 1 else 0)) \<and> spec_get m' ''spamd_score'' = Some (DFloat (fl_atof L score)) \<and>
    spec_get m' ''spamd_symbols'' = Some (spamd_list syms)"
proof -
  let ?v = "spamd_verdict spam score threshold syms" and ?r = "(if spam then 1 else 0, fl_atof L score, syms)"
  have nul: "NUL \<notin> set spamd_ok" "NUL \<notin> set ?v" using verdict_no_nul [OF assms(1)] by (simp_all add: spamd_ok_def crlf_def)
  have len: "length crlf = 2" "\<not> length (crlf @ ?v) \<le> 2" "spamd_ok \<noteq> []" by (simp_all add: crlf_def spamd_verdict_def spamd_ok_def)
  note res = spamd_result_verdict [OF assms(1), of L spam]
  have "\<exists>tr'. spamd_talk V L request message sock tr = Some (Some ?r, tr')"
    using assms(4)
  proof
    assume p: "pieces = [spamd_ok @ ?v]"
    with assms(3) read_delivered [of V sock tr1 "spamd_ok @ ?v" "[]" "SPAMD_BUFLEN - 1"]
    have "read_sock V sock (SPAMD_BUFLEN - 1) tr1 = (Some (spamd_ok @ ?v), (S_Read sock (spamd_ok @ ?v), int (length (spamd_ok @ ?v)), 0) # tr1)" by auto
    then show ?thesis using assms(2) nul len res
      by (simp add: spamd_talk_def cstr_id spamd_status_ok del: write_all.simps)
  next
    assume p: "pieces = [spamd_ok, ?v]"
    let ?tr = "(S_Read sock spamd_ok, int (length spamd_ok), 0) # tr1"
    have d: "delivers V sock ?tr [?v]" "length ?v < SPAMD_BUFLEN" "length spamd_ok < SPAMD_BUFLEN" using assms(3) p by simp_all
    have "read_sock V sock (SPAMD_BUFLEN - 1) tr1 = (Some spamd_ok, ?tr)" 
      using assms(3) p d(3) read_delivered [of V sock tr1 spamd_ok "[?v]" "SPAMD_BUFLEN - 1"] by auto
    moreover have "read_sock V sock SPAMD_BUFLEN ?tr = (Some ?v, (S_Read sock ?v, int (length ?v), 0) # ?tr)"
      using d read_delivered [of V sock ?tr ?v "[]" SPAMD_BUFLEN] by auto
    ultimately show ?thesis using assms(2) nul len res d(2) spamd_status_ok [of "[]"]
      by (simp add: spamd_talk_def cstr_id del: write_all.simps)
  qed
  with spamd_set_attributes show ?thesis by blast
qed

subsection \<open>ClamAV (modules/clamav.c)\<close>

definition CLAMAV_CLEAN :: string where "CLAMAV_CLEAN = ''clamav_clean''"
definition CLAMAV_VIRUS :: string where "CLAMAV_VIRUS = ''clamav_virus''"
definition CLAMAV_INSTREAM :: string where "CLAMAV_INSTREAM = ''zINSTREAM'' @ [NUL]"

text \<open>The size in network order; the zero that ends the stream is a \<open>long\<close> of eight bytes.\<close>

definition be32 :: "int \<Rightarrow> string" where
  "be32 n = map (\<lambda>i. char_of (nat (n div 256 ^ i mod 256))) [3, 2, 1, 0]"

definition clamav_stream :: "string \<Rightarrow> int \<Rightarrow> string list" where
  "clamav_stream message message_size = [CLAMAV_INSTREAM, be32 message_size, take (nat message_size) message, replicate 8 NUL]"

text \<open>
  The reply: the texts are compared at fixed distances from its end, where a terminator is expected. The
  first result is whether the message is clean, the second the name of the virus.
\<close>

definition clamav_reply :: "string \<Rightarrow> (bool \<times> string option) option option" where
  "clamav_reply data =
     (let n = length data in
      if n < 3 then None
      else if take 2 (drop (n - 3) data) = ''OK'' then Some (Some (True, None))
      else if n < 7 then None
      else if take 6 (drop (n - 7) data) \<noteq> '' FOUND'' then Some None
      else
        do {
          virus \<leftarrow> nul_terminated (drop 8 ((data @ [NUL])[n - 6 := NUL]));
          Some (Some (False, Some virus)) })"

definition clamav_talk :: "'h svcenv \<Rightarrow> string \<Rightarrow> int \<Rightarrow> int \<Rightarrow> trace \<Rightarrow> ((bool \<times> string option) option \<times> trace) option" where
  "clamav_talk V message message_size sock tr =
     (case write_all V sock (clamav_stream message message_size) tr of
        (False, tr1) \<Rightarrow> Some (None, tr1)
      | (True, tr1) \<Rightarrow>
          (case read_sock V sock 4095 tr1 of
             (None, tr2) \<Rightarrow> Some (None, tr2)
           | (Some data, tr2) \<Rightarrow> if data = [] then Some (None, tr2) else do { r \<leftarrow> clamav_reply data; Some (r, tr2) }))"

text \<open>
  The attributes. Both are registered as texts, so that \<open>clamav_clean\<close> is what \<open>strdup\<close> makes of the eight bytes of a
  number: the character with code 1, or the empty text.
\<close>

definition clamav_set :: "bool \<times> string option \<Rightarrow> mailspec \<Rightarrow> int \<times> mailspec" where
  "clamav_set r m =
     (case r of (clean, virus) \<Rightarrow>
        (case spec_setv m
            [(VT_STRING, CLAMAV_CLEAN, Some (DString (if clean then [CHR 0x01] else [])), VF_KEEPNAME OR VF_COPYDATA),
             (VT_STRING, CLAMAV_VIRUS, map_option DString virus, VF_KEEPNAME OR VF_COPYDATA)] of
           (r, m1) \<Rightarrow> (if r \<noteq> 0 then -1 else 0, m1)))"

definition clamav_query :: "'h svcenv \<Rightarrow> sock_rr \<Rightarrow> 'h world \<Rightarrow> trace \<Rightarrow> (int \<times> sock_rr \<times> 'h world \<times> trace) option" where
  "clamav_query V sr w tr =
     (case spec_get (w_spec w) ''message_size'' of
        None \<Rightarrow> Some (-1, sr, w, tr)
      | d \<Rightarrow>
          do {
            message_size \<leftarrow> as_int d;
            if message_size + 1 < 0 then Some (-1, sr, w, tr)
            else
              do {
                ((n, message), w1) \<leftarrow> milter_dump_message (sv_env V) (wrap32 (message_size + 1)) w;
                if n = -1 then Some (-1, sr, w1, tr)
                else if int (length message) < message_size then None
                else
                  do {
                    (r, sr1, tr1) \<leftarrow> with_sock V sr tr (clamav_talk V message message_size);
                    Some (case r of
                            None \<Rightarrow> (-1, sr1, w1, tr1)
                          | Some result \<Rightarrow>
                              (case clamav_set result (w_spec w1) of
                                 (r, m) \<Rightarrow> (r, sr1, w1\<lparr>w_x := (w_x w1)\<lparr>xs_spec := m\<rparr>\<rparr>, tr1))) } } })"

definition clamav_init :: "var \<Rightarrow> (sock_rr \<times> (string \<times> int) list) option" where
  "clamav_init config =
     do {
       (r, sr) \<leftarrow> sock_rr_init config ''clamav_socket'';
       if r \<noteq> 0 then None else Some (sr, [(CLAMAV_CLEAN, MS_EOM), (CLAMAV_VIRUS, MS_EOM)]) }"

lemma clamav_talk_fds:
  assumes "clamav_talk V message n sock tr = Some (r, tr')"
  shows "open_fds tr' = open_fds tr"
proof -
  obtain ok tr1 d2 tr2 where t: "write_all V sock (clamav_stream message n) tr = (ok, tr1)" "read_sock V sock 4095 tr1 = (d2, tr2)"
    by (meson surj_pair)
  have "tr' \<in> {tr1, tr2}"
    using assms unfolding clamav_talk_def t prod.case
    by (cases ok; cases d2) (auto simp: bind_eq_Some_conv t(2) split: if_split_asm)
  then show ?thesis using write_all_tr [OF t(1)] read_sock_tr [OF t(2)] by (elim insertE) simp_all
qed

lemma clamav_query_fds:
  assumes "fresh_sockets (sv_sys V)" and "clamav_query V sr w tr = Some (r, sr', w', tr')"
  shows "open_fds tr' = open_fds tr"
proof -
  have "tr' = tr \<or> (\<exists>message n x sr1. with_sock V sr tr (clamav_talk V message n) = Some (x, sr1, tr'))"
  proof (cases "spec_get (w_spec w) ''message_size''")
    case (Some d)
    with assms(2) obtain n where n: "as_int (Some d) = Some n" by (auto simp: clamav_query_def bind_eq_Some_conv)
    show ?thesis
    proof (cases "n + 1 < 0")
      case False
      obtain k message w1 where dump: "milter_dump_message (sv_env V) (wrap32 (n + 1)) w = Some ((k, message), w1)"
        using assms(2) Some n False by (auto simp: clamav_query_def bind_eq_Some_conv)
      show ?thesis
        using assms(2) False
        by (auto simp: clamav_query_def Some n dump bind_eq_Some_conv case_prod_unfold split: if_split_asm option.split_asm)
    qed (use assms(2) Some n in \<open>simp add: clamav_query_def\<close>)
  qed (use assms(2) in \<open>simp add: clamav_query_def\<close>)
  then show ?thesis
  proof (elim disjE exE)
    fix message n x sr1
    assume "with_sock V sr tr (clamav_talk V message n) = Some (x, sr1, tr')"
    then show "open_fds tr' = open_fds tr" by (rule with_sock_fds [OF assms(1)]) (erule clamav_talk_fds)
  qed simp
qed

text \<open>What \<open>clamd\<close> answers to a stream: that it is clean, or the name of what it has found.\<close>

definition clamd_answer :: "string option \<Rightarrow> string" where
  "clamd_answer virus = ''stream: '' @ (case virus of None \<Rightarrow> ''OK'' | Some v \<Rightarrow> v @ '' FOUND'') @ [NUL]"

lemma clamav_reply_clean: "clamav_reply (clamd_answer None) = Some (Some (True, None))"
  by (simp add: clamav_reply_def clamd_answer_def Let_def)

lemma clamav_reply_found:
  assumes "NUL \<notin> set v"
  shows "clamav_reply (clamd_answer (Some v)) = Some (Some (False, Some (v @ '' '')))"
proof -
  let ?d = "clamd_answer (Some v)"
  have len: "length ?d = length v + 15" by (simp add: clamd_answer_def)
  have 8: "drop 8 ?d = v @ '' FOUND'' @ [NUL]" by (simp add: clamd_answer_def)
  have "drop (length v + 12) ?d = drop (length v + 4) (drop 8 ?d)" "drop (length v + 8) ?d = drop (length v) (drop 8 ?d)"
    by (simp_all only: drop_drop add.assoc) simp
  then have "drop (length v + 12) ?d = ''ND'' @ [NUL]" "drop (length v + 8) ?d = '' FOUND'' @ [NUL]" by (simp_all only: 8) simp_all
  moreover have "drop 8 ((?d @ [NUL])[length v + 9 := NUL]) = (drop 8 (?d @ [NUL]))[length v + 1 := NUL]"
    by (simp add: drop_update_swap)
  then have "drop 8 ((?d @ [NUL])[length v + 9 := NUL]) = v @ '' '' @ NUL # ''OUND'' @ [NUL, NUL]"
    by (simp add: 8 len list_update_append)
  moreover have "nul_terminated (v @ '' '' @ NUL # ''OUND'' @ [NUL, NUL]) = Some (v @ '' '')"
    using assms by (simp add: nul_terminated_def cstr_append) (simp add: cstr_def)
  ultimately show ?thesis by (simp add: clamav_reply_def len Let_def add.commute)
qed

text \<open>
  what the rules see of ClamAV's answer is not what it says. The number in \<open>clamav_clean\<close> is stored as a text
  that is no number: read as one it is 0 for a clean message as for an infected one. And
  the name of a virus gets a space at its end.
\<close>

theorem clamav_attributes_wrong:
  assumes "NUL \<notin> set v"
  shows "\<exists>r1 m1 r2 m2. clamav_reply (clamd_answer None) = Some (Some r1) \<and> clamav_set r1 m = (0, m1) \<and>
    clamav_reply (clamd_answer (Some v)) = Some (Some r2) \<and> clamav_set r2 m = (0, m2) \<and>
    (\<forall>m' \<in> {m1, m2}. \<exists>a n. m' CLAMAV_CLEAN = Some a \<and> var_as_int L a = Some (Some n) \<and> v_data n = Some (DInt 0)) \<and>
    spec_get m2 CLAMAV_VIRUS = Some (DString (v @ '' ''))"
proof -
  have create: "var_create VT_STRING (Some n) (Some (DString s)) (VF_KEEPNAME OR VF_COPYDATA) = Some (Var VT_STRING (Some n) (Some (DString s)) (VF_KEEPNAME OR VF_COPYDATA))"
    "var_create VT_STRING (Some n) None (VF_KEEPNAME OR VF_COPYDATA) = Some (Var VT_STRING (Some n) None (VF_KEEPNAME OR VF_COPYDATA))" for n s
    by (simp_all add: var_create_def var_init_def var_data_init_def sanitize_def has_flag_def vf_defs)
  have zero: "\<exists>x. var_as_int L (Var VT_STRING n (Some (DString s)) f) = Some (Some x) \<and> v_data x = Some (DInt 0)"
    if "s = [CHR 0x01] \<or> s = []" for s n f
  proof -
    have "strtol [CHR 0x01] = (0, False)" "strtol [] = (0, False)" by code_simp+
    moreover have "var_create VT_INT n (Some (DInt 0)) VF_COPY = Some (Var VT_INT n (Some (DInt 0)) VF_COPY)"
      by (simp add: var_create_def var_init_def var_data_init_def sanitize_def has_flag_def vf_defs)
    ultimately show ?thesis using that by (auto simp: var_as_int_def)
  qed
  show ?thesis
    by (rule exI [of _ "(True, None)"], rule exI [of _ "snd (clamav_set (True, None) m)"],
        rule exI [of _ "(False, Some (v @ '' ''))"], rule exI [of _ "snd (clamav_set (False, Some (v @ '' '')) m)"])
      (simp add: clamav_reply_clean clamav_reply_found [OF assms] clamav_set_def spec_set_new_def create zero spec_get_def CLAMAV_CLEAN_def CLAMAV_VIRUS_def)
qed

subsection \<open>An example\<close>

definition spamd_demo_svc :: "unit svcenv" where
  "spamd_demo_svc =
     \<lparr>sv_sys = demo_sys,
      sv_read = (\<lambda>tr _ _. case tr of
          (S_Read _ _, _) # _ \<Rightarrow> Some (spamd_verdict True ''7.9'' ''5.0'' [''BAYES_99'', ''RAZOR2''])
        | _ \<Rightarrow> Some spamd_ok),
      sv_env = quiet_env, sv_timestamp = None, sv_hostname = []\<rparr>"

theorem spamd_reads_verdict_witness:
  "\<exists>tr' m'. spamd_talk spamd_demo_svc (x_libc demo_env) ''request'' ''message'' 4 [] =
      Some (Some (1, fl_atof (x_libc demo_env) ''7.9'', [''BAYES_99'', ''RAZOR2'']), tr') \<and>
    spamd_set (1, fl_atof (x_libc demo_env) ''7.9'', [''BAYES_99'', ''RAZOR2'']) Map.empty = Some (0, m') \<and>
    spec_get m' ''spamd_spam'' = Some (DInt 1)"
proof -
  let ?v = "spamd_verdict True ''7.9'' ''5.0'' [''BAYES_99'', ''RAZOR2'']"
  let ?tr = "[(S_Write 4 ''message'', 7, 0), (S_Write 4 ''request'', 7, 0)]"
  have ok: "verdict_ok ''7.9'' ''5.0'' [''BAYES_99'', ''RAZOR2'']" by (simp add: verdict_ok_def)
  have w: "write_all spamd_demo_svc 4 [''request'', ''message''] [] = (True, ?tr)"
    by (simp add: write_sock_def sys_eq spamd_demo_svc_def demo_sys_def)
  have d: "delivers spamd_demo_svc 4 ?tr [spamd_ok, ?v]"
    by (simp add: spamd_demo_svc_def SPAMD_BUFLEN_def spamd_ok_def spamd_verdict_def crlf_def)
  show ?thesis using spamd_reads_verdict [OF ok w d, of True "x_libc demo_env" Map.empty] by auto
qed

theorem clamav_attributes_wrong_witness:
  "\<exists>r m2. clamav_reply (clamd_answer (Some ''Eicar-Test-Signature'')) = Some (Some r) \<and> clamav_set r Map.empty = (0, m2) \<and>
    spec_get m2 CLAMAV_VIRUS = Some (DString ''Eicar-Test-Signature '')"
  using clamav_attributes_wrong [of "''Eicar-Test-Signature''" Map.empty "x_libc demo_env"] by auto

end
