(* ===== verification/Lookups.thy ===== *)
theory Lookups
  imports Filters
begin

section \<open>Lookups of hosts and senders (modules/p0f.c, modules/geoip.c, modules/spf.c)\<close>

text \<open>
  Symbols that other programs and libraries compute from the address of the client: p0f
  (\<open>src/src/modules/p0f.c\<close>) over a socket with a binary protocol, and the libraries of GeoIP
  (\<open>src/src/modules/geoip.c\<close>) and SPF (\<open>src/src/modules/spf.c\<close>), which are arguments.
\<close>

subsection \<open>p0f (modules/p0f.c)\<close>

text \<open>Numbers in the bytes of a reply, the least significant first, and texts, which end at a \<open>NUL\<close>.\<close>

definition le_num :: "string \<Rightarrow> nat \<Rightarrow> nat \<Rightarrow> int" where
  "le_num data off n = foldr (\<lambda>c acc. of_char c + 256 * acc) (take n (drop off data)) 0"

definition P0F_RESP_MAGIC :: int where "P0F_RESP_MAGIC = 0x50304602"
definition P0F_STATUS_BADQUERY :: int where "P0F_STATUS_BADQUERY = 0x00"
definition P0F_STATUS_OK :: int where "P0F_STATUS_OK = 0x10"
definition P0F_STATUS_NOMATCH :: int where "P0F_STATUS_NOMATCH = 0x20"

text \<open>The sizes of \<open>struct p0f_api_query\<close> and \<open>struct p0f_api_response\<close>.\<close>

definition P0F_QUERY_SIZE :: nat where "P0F_QUERY_SIZE = 21"
definition P0F_RESPONSE_SIZE :: nat where "P0F_RESPONSE_SIZE = 232"

definition p0f_request :: "sockaddr \<Rightarrow> string option" where
  "p0f_request addr =
     (let q = (\<lambda>t a. [CHR 0x01, CHR 0x46, CHR 0x30, CHR 0x50] @ [t] @ take 16 (a @ replicate 16 NUL)) in
      case addr of
        Inet a p \<Rightarrow> Some (q (CHR 0x04) (be32 (uint a)))
      | Inet6 a p \<Rightarrow> Some (q (CHR 0x06) (map (\<lambda>b. char_of (unat b)) a))
      | Other_Family f a \<Rightarrow> None)"

text \<open>
  The attributes of a reply. Texts without a terminator run into the next field, and the last one out of the
  reply; a value that is not given is \<open>NULL\<close>.
\<close>

definition p0f_attrs :: "string \<Rightarrow> (vtype \<times> string \<times> vdata option \<times> u32) list option" where
  "p0f_attrs r =
     (let num = (\<lambda>b x. if b then Some (DInt x) else None);
          str = (\<lambda>b off. if b then map_option (\<lambda>s. Some (DString s)) (nul_terminated (drop off r)) else Some None);
          os = r ! 40 \<noteq> NUL; http = r ! 104 \<noteq> NUL; bad_sw = le_num r 38 1; os_match_q = le_num r 39 1;
          uptime_min = le_num r 20 4; last_nat = le_num r 28 4; last_chg = le_num r 32 4;
          distance = (if le_num r 36 2 \<ge> 2 ^ 15 then le_num r 36 2 - 2 ^ 16 else le_num r 36 2);
          f = VF_KEEPNAME OR VF_COPYDATA in
      do {
        os_name \<leftarrow> str os 40;
        os_flavor \<leftarrow> str os 72;
        http_name \<leftarrow> str http 104;
        http_flavor \<leftarrow> str http 136;
        link_type \<leftarrow> str (r ! 168 \<noteq> NUL) 168;
        language \<leftarrow> str (r ! 200 \<noteq> NUL) 200;
        Some
          [(VT_INT, ''p0f_status'', num True (le_num r 4 4), f),
           (VT_INT, ''p0f_first_seen'', num True (le_num r 8 4), f),
           (VT_INT, ''p0f_last_seen'', num True (le_num r 12 4), f),
           (VT_INT, ''p0f_total_conn'', num True (le_num r 16 4), f),
           (VT_INT, ''p0f_uptime_min'', num (uptime_min \<noteq> 0) uptime_min, f),
           (VT_INT, ''p0f_up_mod_days'', num (uptime_min \<noteq> 0) (le_num r 24 4), f),
           (VT_INT, ''p0f_last_nat'', num (last_nat \<noteq> 0) last_nat, f),
           (VT_INT, ''p0f_last_chg'', num (last_chg \<noteq> 0) last_chg, f),
           (VT_INT, ''p0f_distance'', num (distance > -1) distance, f),
           (VT_STRING, ''p0f_os_name'', os_name, f),
           (VT_STRING, ''p0f_os_flavor'', os_flavor, f),
           (VT_INT, ''p0f_os_generic'', num os (os_match_q AND 2), f),
           (VT_INT, ''p0f_os_fuzzy'', num os (os_match_q AND 1), f),
           (VT_STRING, ''p0f_http_name'', http_name, f),
           (VT_STRING, ''p0f_http_flavor'', http_flavor, f),
           (VT_INT, ''p0f_http_fake'', num (http \<and> bad_sw = 2) 1, f),
           (VT_INT, ''p0f_http_os_mismatch'', num (http \<and> bad_sw \<noteq> 2 \<and> bad_sw \<noteq> 0) 1, f),
           (VT_INT, ''p0f_http_legit'', num (http \<and> bad_sw = 0) 1, f),
           (VT_STRING, ''p0f_link_type'', link_type, f),
           (VT_STRING, ''p0f_language'', language, f)] })"

text \<open>
  \<open>p0f_query\<close>. After an error the socket is closed unless its number is 0; for a host that p0f does not
  know the result is 0 and no attribute is set. The mutex is not part of the model.
\<close>

definition p0f_query :: "'h svcenv \<Rightarrow> var \<Rightarrow> 'h world \<Rightarrow> trace \<Rightarrow> (int \<times> 'h world \<times> trace) option" where
  "p0f_query V config w tr =
     (case spec_get (w_spec w) ''hostaddr'' of
        None \<Rightarrow> Some (-1, w, tr)
      | Some (DAddr addr) \<Rightarrow>
          (case p0f_request addr of
             None \<Rightarrow> Some (-1, w, tr)
           | Some q \<Rightarrow>
               do {
                 (sock, tr1) \<leftarrow> sock_connect_config (sv_sys V) config ''p0f_socket'' tr;
                 let close = (\<lambda>tr. if sock \<noteq> 0 then snd (snd (sys (sv_sys V) (S_Close sock) tr)) else tr);
                 if sock = -1 then Some (-1, w, close tr1)
                 else
                   (case write_sock V sock q tr1 of
                      (n, tr2) \<Rightarrow>
                        if n \<noteq> int P0F_QUERY_SIZE then Some (-1, w, close tr2)
                        else
                          (case read_sock V sock P0F_RESPONSE_SIZE tr2 of
                             (None, tr3) \<Rightarrow> Some (-1, w, close tr3)
                           | (Some r, tr3) \<Rightarrow>
                               if length r \<noteq> P0F_RESPONSE_SIZE then Some (-1, w, close tr3)
                               else
                                 (let tr4 = snd (snd (sys (sv_sys V) (S_Close sock) tr3)) in
                                  if le_num r 0 4 \<noteq> P0F_RESP_MAGIC then Some (-1, w, tr4)
                                  else if le_num r 4 4 = P0F_STATUS_BADQUERY then Some (-1, w, tr4)
                                  else if le_num r 4 4 = P0F_STATUS_NOMATCH then Some (0, w, tr4)
                                  else
                                    do {
                                      args \<leftarrow> p0f_attrs r;
                                      (case spec_setv (w_spec w) args of
                                         (r, m) \<Rightarrow> Some (if r \<noteq> 0 then -1 else 0, w\<lparr>w_x := (w_x w)\<lparr>xs_spec := m\<rparr>\<rparr>, tr4)) }))) })
      | _ \<Rightarrow> None)"

text \<open>\<open>p0f_init\<close>: the loop over the constants ends before the one whose value is 0.\<close>

definition p0f_symbols :: "string list" where
  "p0f_symbols =
     [''p0f_status'', ''p0f_first_seen'', ''p0f_last_seen'', ''p0f_total_conn'', ''p0f_uptime_min'', ''p0f_up_mod_days'',
      ''p0f_last_nat'', ''p0f_last_chg'', ''p0f_distance'', ''p0f_os_name'', ''p0f_os_flavor'', ''p0f_os_generic'', ''p0f_os_fuzzy'',
      ''p0f_http_name'', ''p0f_http_flavor'', ''p0f_http_fake'', ''p0f_http_os_mismatch'', ''p0f_http_legit'', ''p0f_link_type'',
      ''p0f_language'']"

definition p0f_constants :: "(string \<times> int) list" where
  "p0f_constants = [(''P0F_OK'', P0F_STATUS_OK), (''P0F_NO_MATCH'', P0F_STATUS_NOMATCH), (''P0F_BAD_QUERY'', P0F_STATUS_BADQUERY)]"

definition p0f_init :: "(string \<times> int) list \<times> (string \<times> int) list" where
  "p0f_init = (map (\<lambda>p. (p, MS_OFF_CONNECT)) p0f_symbols, takeWhile (\<lambda>(_, i). i \<noteq> 0) p0f_constants)"

subsection \<open>GeoIP (modules/geoip.c)\<close>

text \<open>A database gives the code and the name of the country for the text of an address; it may not be there.\<close>

type_synonym geoip_handle = "(string \<Rightarrow> string option \<times> string option) option"

definition GEOIP_CC :: string where "GEOIP_CC = ''geoip_country_code''"
definition GEOIP_CN :: string where "GEOIP_CN = ''geoip_country_name''"

definition geoip_query :: "geoip_handle \<Rightarrow> geoip_handle \<Rightarrow> mailspec \<Rightarrow> (int \<times> mailspec) option" where
  "geoip_query geoip_handle geoipv6_handle m =
     (case spec_get m ''hostaddr_str'' of
        None \<Rightarrow> Some (-1, m)
      | d \<Rightarrow>
          do {
            hostaddr \<leftarrow> as_string d;
            let handle = (if strchr hostaddr (CHR '':'') \<noteq> None then geoipv6_handle else geoip_handle);
            let (country_code, country_name) = (case handle of None \<Rightarrow> (None, None) | Some h \<Rightarrow> h hostaddr);
            let (r, m1) = spec_setv m
                [(VT_STRING, GEOIP_CC, map_option DString country_code, VF_KEEP), (VT_STRING, GEOIP_CN, map_option DString country_name, VF_KEEP)];
            Some (if r \<noteq> 0 then -1 else 0, m1) })"

text \<open>\<open>GeoIP_open\<close> is an argument. Both paths have to be configured, but a database that cannot be opened is only logged.\<close>

definition geoip_init :: "(string \<Rightarrow> geoip_handle) \<Rightarrow> var \<Rightarrow> (int \<times> geoip_handle \<times> geoip_handle \<times> (string \<times> int) list) option" where
  "geoip_init geoip_open config =
     (case cf_get_value config VT_STRING [''geoip_database''] of
        None \<Rightarrow> Some (-1, None, None, [])
      | d \<Rightarrow>
          do {
            path \<leftarrow> as_string d;
            (case cf_get_value config VT_STRING [''geoipv6_database''] of
               None \<Rightarrow> Some (-1, geoip_open path, None, [])
             | e \<Rightarrow>
                 do {
                   path6 \<leftarrow> as_string e;
                   Some (0, geoip_open path, geoip_open path6, [(GEOIP_CC, MS_OFF_CONNECT), (GEOIP_CN, MS_OFF_CONNECT)]) }) })"

subsection \<open>SPF (modules/spf.c)\<close>

text \<open>The library: whether a request can be made and its fields be set, the two queries, and the texts of a result.\<close>

record 'r spf_lib =
  spf_request_new :: bool
  spf_request_set_ip :: "sockaddr \<Rightarrow> int"
  spf_request_set_helo_dom :: "string \<Rightarrow> int"
  spf_request_set_env_from :: "string \<Rightarrow> int"
  spf_query_mailfrom :: "sockaddr \<Rightarrow> string \<Rightarrow> string \<Rightarrow> 'r"
  spf_query_rcptto :: "sockaddr \<Rightarrow> string \<Rightarrow> string \<Rightarrow> string \<Rightarrow> 'r"
  spf_passes :: "'r \<Rightarrow> bool"
  spf_strresult :: "'r \<Rightarrow> string option"
  spf_strreason :: "'r \<Rightarrow> string option"

text \<open>
  \<open>spf\<close>: when the sender fails and the client is a secondary mail server of the recipient, the result is 0 and no
  attribute is set.
\<close>

definition spf :: "'r spf_lib \<Rightarrow> 'h env \<Rightarrow> 'h world \<Rightarrow> (int \<times> 'h world) option" where
  "spf S E w =
     do {
       (errors, ds, st) \<leftarrow> acl_symbol_dereference (e_x E (w_db w)) (w_x w) [''hostaddr'', ''envfrom'', ''envrcpt'', ''helo''];
       let w1 = w\<lparr>w_x := st\<rparr>;
       if errors \<noteq> 0 then Some (-1, w1)
       else
         do {
           envfrom \<leftarrow> (case ds ! 1 of None \<Rightarrow> Some None | d \<Rightarrow> map_option Some (as_string d));
           (n, from_addr) \<leftarrow> util_strmail 321 envfrom;
           if n = -1 then Some (-1, w1)
           else
             do {
               envrcpt \<leftarrow> (case ds ! 2 of None \<Rightarrow> Some None | d \<Rightarrow> map_option Some (as_string d));
               (k, rcpt) \<leftarrow> util_strmail 321 envrcpt;
               if k = -1 \<or> \<not> spf_request_new S then Some (-1, w1)
               else
                 (case ds ! 0 of
                    Some (DAddr ss) \<Rightarrow>
                      if spf_request_set_ip S ss \<noteq> 0 then Some (-1, w1)
                      else
                        do {
                          helo \<leftarrow> as_string (ds ! 3);
                          mail \<leftarrow> from_addr;
                          to \<leftarrow> rcpt;
                          if spf_request_set_helo_dom S helo \<noteq> 0 \<or> spf_request_set_env_from S mail \<noteq> 0 then Some (-1, w1)
                          else
                            (let res = spf_query_mailfrom S ss helo mail in
                             if \<not> spf_passes S res \<and> spf_passes S (spf_query_rcptto S ss helo mail to) then Some (0, w1)
                             else
                               (case (spf_strresult S res, spf_strreason S res) of
                                  (Some spfstr, Some spfreason) \<Rightarrow>
                                    (case spec_setv (w_spec w1) [(VT_STRING, ''spf'', Some (DString spfstr), VF_KEEP), (VT_STRING, ''spf_reason'', Some (DString spfreason), VF_KEEP)] of
                                       (r, m) \<Rightarrow> Some (if r \<noteq> 0 then -1 else 0, w1\<lparr>w_x := (w_x w1)\<lparr>xs_spec := m\<rparr>\<rparr>))
                                | _ \<Rightarrow> Some (-1, w1))) }
                  | _ \<Rightarrow> None) } } }"

definition spf_constants :: "(string \<times> string) list" where
  "spf_constants = [(''SPF_NEUTRAL'', ''neutral''), (''SPF_PASS'', ''pass''), (''SPF_FAIL'', ''fail''), (''SPF_SOFTFAIL'', ''softfail'')]"

definition spf_init :: "bool \<Rightarrow> int \<times> (string \<times> int) list \<times> (string \<times> string) list" where
  "spf_init server = (if \<not> server then (-1, [], []) else (0, [(''spf'', MS_OFF_ENVFROM), (''spf_reason'', MS_OFF_ENVFROM)], spf_constants))"

subsection \<open>Connections are closed\<close>

lemma open_fds_nonneg: "fd \<in> open_fds tr \<Longrightarrow> fd \<ge> 0"
  by (induction tr rule: open_fds.induct) (auto split: syscall.split_asm if_split_asm)

lemma connect_config_fds:
  assumes "fresh_sockets E" and "sock_connect_config E config key tr = Some (fd, tr')"
  shows "one_socket tr fd tr'"
proof (cases "cf_get_value config VT_STRING [key]")
  case None
  with assms(2) show ?thesis by (simp add: sock_connect_config_def one_socket_def)
next
  case (Some d)
  with assms(2) obtain uri where "sock_connect E uri tr = Some (fd, tr')" by (auto simp: sock_connect_config_def bind_eq_Some_conv)
  then show ?thesis by (rule sock_connect_fds [OF assms(1)])
qed

lemma p0f_query_fds:
  assumes "fresh_sockets (sv_sys V)" and "p0f_query V config w tr = Some (r, w', tr')"
  shows "open_fds tr' = open_fds tr"
proof (cases "\<exists>addr q. spec_get (w_spec w) ''hostaddr'' = Some (DAddr addr) \<and> p0f_request addr = Some q")
  case False
  with assms(2) show ?thesis by (auto simp: p0f_query_def split: option.split_asm vdata.split_asm)
next
  case True
  then obtain addr q where a: "spec_get (w_spec w) ''hostaddr'' = Some (DAddr addr)" "p0f_request addr = Some q" by blast
  with assms(2) obtain sock tr1 where c: "sock_connect_config (sv_sys V) config ''p0f_socket'' tr = Some (sock, tr1)"
    by (auto simp: p0f_query_def bind_eq_Some_conv)
  obtain n tr2 d tr3 where t: "write_sock V sock q tr1 = (n, tr2)" "read_sock V sock P0F_RESPONSE_SIZE tr2 = (d, tr3)" by (meson surj_pair)
  let ?close = "\<lambda>t. snd (snd (sys (sv_sys V) (S_Close sock) t))"
  have one: "one_socket tr sock tr1" by (rule connect_config_fds [OF assms(1) c])
  then have sock: "sock \<noteq> 0" by (auto simp: one_socket_def)
  have "tr' \<in> {?close tr1, ?close tr2, ?close tr3}"
    using assms(2) sock unfolding p0f_query_def a option.case vdata.case c
    by (cases d) (auto simp: t Let_def bind_eq_Some_conv case_prod_unfold split: if_split_asm)
  moreover have "open_fds tr2 = open_fds tr1" "open_fds tr3 = open_fds tr1"
    using write_sock_fds [of V sock q tr1] read_sock_tr [OF t(2)] t(1) by simp_all
  moreover have "open_fds tr1 - {sock} = open_fds tr" using one open_fds_nonneg [of "-1" tr] by (auto simp: one_socket_def)
  ultimately show ?thesis by (elim insertE) (simp_all add: sys_eq)
qed

subsection \<open>The replies of p0f\<close>

text \<open>What p0f knows of a host, and the bytes that it sends.\<close>

record p0f_host =
  ph_first_seen :: int
  ph_last_seen :: int
  ph_total_conn :: int
  ph_uptime_min :: int
  ph_up_mod_days :: int
  ph_last_nat :: int
  ph_last_chg :: int
  ph_distance :: int
  ph_bad_sw :: int
  ph_os_match_q :: int
  ph_os_name :: string
  ph_os_flavor :: string
  ph_http_name :: string
  ph_http_flavor :: string
  ph_link_type :: string
  ph_language :: string

fun le_bytes :: "nat \<Rightarrow> int \<Rightarrow> string" where
  "le_bytes 0 x = []"
| "le_bytes (Suc n) x = char_of x # le_bytes n (x div 256)"

definition text32 :: "string \<Rightarrow> string" where
  "text32 s = s @ replicate (32 - length s) NUL"

definition p0f_answer :: "int \<Rightarrow> p0f_host \<Rightarrow> string" where
  "p0f_answer status h =
     le_bytes 4 P0F_RESP_MAGIC @ le_bytes 4 status @ le_bytes 4 (ph_first_seen h) @ le_bytes 4 (ph_last_seen h) @
     le_bytes 4 (ph_total_conn h) @ le_bytes 4 (ph_uptime_min h) @ le_bytes 4 (ph_up_mod_days h) @ le_bytes 4 (ph_last_nat h) @
     le_bytes 4 (ph_last_chg h) @ le_bytes 2 (ph_distance h) @ le_bytes 1 (ph_bad_sw h) @ le_bytes 1 (ph_os_match_q h) @
     text32 (ph_os_name h) @ text32 (ph_os_flavor h) @ text32 (ph_http_name h) @ text32 (ph_http_flavor h) @
     text32 (ph_link_type h) @ text32 (ph_language h)"

definition host_ok :: "p0f_host \<Rightarrow> bool" where
  "host_ok h \<longleftrightarrow>
     (\<forall>x \<in> {ph_first_seen h, ph_last_seen h, ph_total_conn h, ph_uptime_min h, ph_up_mod_days h, ph_last_nat h, ph_last_chg h}. 0 \<le> x \<and> x < 2 ^ 32) \<and>
     - (2 ^ 15) \<le> ph_distance h \<and> ph_distance h < 2 ^ 15 \<and> (\<forall>x \<in> {ph_bad_sw h, ph_os_match_q h}. 0 \<le> x \<and> x < 256) \<and>
     (\<forall>t \<in> {ph_os_name h, ph_os_flavor h, ph_http_name h, ph_http_flavor h, ph_link_type h, ph_language h}. length t < 32 \<and> NUL \<notin> set t)"

lemma le_bytes_length [simp]: "length (le_bytes n x) = n"
  by (induction n x rule: le_bytes.induct) simp_all

lemma le_bytes_num: "foldr (\<lambda>c acc. of_char c + 256 * acc) (le_bytes n x) 0 = (x mod 256 ^ n :: int)"
proof (induction n x rule: le_bytes.induct)
  case (2 n x)
  have "x mod (256 * 256 ^ n) = 256 * (x div 256 mod 256 ^ n) + x mod 256" by (rule zmod_zmult2_eq) simp
  with 2 show ?case by simp
qed simp

lemma le_num_at: "take n (drop off r) = le_bytes n x \<Longrightarrow> le_num r off n = x mod 256 ^ n"
  by (simp add: le_num_def le_bytes_num)

lemma le_num_id: "take n (drop off r) = le_bytes n x \<Longrightarrow> 0 \<le> x \<Longrightarrow> x < 256 ^ n \<Longrightarrow> le_num r off n = x"
  by (simp add: le_num_at)

lemma text32_length: "length s < 32 \<Longrightarrow> length (text32 s) = 32"
  by (simp add: text32_def)

lemma text32_split: "length s < 32 \<Longrightarrow> text32 s = s @ NUL # replicate (31 - length s) NUL"
proof -
  assume "length s < 32"
  then have "32 - length s = Suc (31 - length s)" by simp
  then show ?thesis by (simp add: text32_def)
qed

lemma text_at:
  assumes "take 32 (drop off r) = text32 s" and "length s < 32" and "NUL \<notin> set s"
  shows "nul_terminated (drop off r) = Some s" "r ! off \<noteq> NUL \<longleftrightarrow> s \<noteq> []"
proof -
  let ?rest = "drop 32 (drop off r)"
  have d: "drop off r = s @ NUL # replicate (31 - length s) NUL @ ?rest"
    using append_take_drop_id [of 32 "drop off r"] unfolding assms(1) text32_split [OF assms(2)] by simp
  show "nul_terminated (drop off r) = Some s"
    using assms(3) by (subst d) (simp add: nul_terminated_def cstr_append, simp add: cstr_def)
  have "drop off r \<noteq> []" by (subst d) simp
  then have "off < length r" by simp
  then have "r ! off = hd (drop off r)" by (simp add: hd_drop_conv_nth)
  with arg_cong [OF d, of hd] assms(3) show "r ! off \<noteq> NUL \<longleftrightarrow> s \<noteq> []" by (cases s) auto
qed

text \<open>The attributes that a host should get: what p0f did not find out has no value.\<close>

definition host_attrs :: "p0f_host \<Rightarrow> (string \<times> vdata option) list" where
  "host_attrs h =
     (let num = (\<lambda>b x. if b then Some (DInt x) else None); str = (\<lambda>b s. if b then Some (DString s) else None);
          os = ph_os_name h \<noteq> []; http = ph_http_name h \<noteq> []; up = ph_uptime_min h \<noteq> 0 in
      [(''p0f_status'', Some (DInt P0F_STATUS_OK)), (''p0f_first_seen'', Some (DInt (ph_first_seen h))),
       (''p0f_last_seen'', Some (DInt (ph_last_seen h))), (''p0f_total_conn'', Some (DInt (ph_total_conn h))),
       (''p0f_uptime_min'', num up (ph_uptime_min h)), (''p0f_up_mod_days'', num up (ph_up_mod_days h)),
       (''p0f_last_nat'', num (ph_last_nat h \<noteq> 0) (ph_last_nat h)), (''p0f_last_chg'', num (ph_last_chg h \<noteq> 0) (ph_last_chg h)),
       (''p0f_distance'', num (ph_distance h \<ge> 0) (ph_distance h)),
       (''p0f_os_name'', str os (ph_os_name h)), (''p0f_os_flavor'', str os (ph_os_flavor h)),
       (''p0f_os_generic'', num os (ph_os_match_q h AND 2)), (''p0f_os_fuzzy'', num os (ph_os_match_q h AND 1)),
       (''p0f_http_name'', str http (ph_http_name h)), (''p0f_http_flavor'', str http (ph_http_flavor h)),
       (''p0f_http_fake'', num (http \<and> ph_bad_sw h = 2) 1),
       (''p0f_http_os_mismatch'', num (http \<and> ph_bad_sw h \<noteq> 2 \<and> ph_bad_sw h \<noteq> 0) 1),
       (''p0f_http_legit'', num (http \<and> ph_bad_sw h = 0) 1),
       (''p0f_link_type'', str (ph_link_type h \<noteq> []) (ph_link_type h)), (''p0f_language'', str (ph_language h \<noteq> []) (ph_language h))])"

lemma p0f_answer_nums:
  assumes "host_ok h" and "0 \<le> status" and "status < 2 ^ 32"
  shows "le_num (p0f_answer status h) 0 4 = P0F_RESP_MAGIC" "le_num (p0f_answer status h) 4 4 = status"
    "le_num (p0f_answer status h) 8 4 = ph_first_seen h" "le_num (p0f_answer status h) 12 4 = ph_last_seen h"
    "le_num (p0f_answer status h) 16 4 = ph_total_conn h" "le_num (p0f_answer status h) 20 4 = ph_uptime_min h"
    "le_num (p0f_answer status h) 24 4 = ph_up_mod_days h" "le_num (p0f_answer status h) 28 4 = ph_last_nat h"
    "le_num (p0f_answer status h) 32 4 = ph_last_chg h" "le_num (p0f_answer status h) 36 2 = ph_distance h mod 2 ^ 16"
    "le_num (p0f_answer status h) 38 1 = ph_bad_sw h" "le_num (p0f_answer status h) 39 1 = ph_os_match_q h"
proof -
  show "le_num (p0f_answer status h) 36 2 = ph_distance h mod 2 ^ 16"
    by (subst le_num_at) (simp_all add: p0f_answer_def del: le_bytes.simps)
qed (rule le_num_id; use assms in \<open>simp add: p0f_answer_def host_ok_def P0F_RESP_MAGIC_def del: le_bytes.simps\<close>)+

lemma p0f_answer_texts:
  assumes "host_ok h"
  shows "nul_terminated (drop 40 (p0f_answer status h)) = Some (ph_os_name h)" "p0f_answer status h ! 40 \<noteq> NUL \<longleftrightarrow> ph_os_name h \<noteq> []"
    "nul_terminated (drop 72 (p0f_answer status h)) = Some (ph_os_flavor h)"
    "nul_terminated (drop 104 (p0f_answer status h)) = Some (ph_http_name h)" "p0f_answer status h ! 104 \<noteq> NUL \<longleftrightarrow> ph_http_name h \<noteq> []"
    "nul_terminated (drop 136 (p0f_answer status h)) = Some (ph_http_flavor h)"
    "nul_terminated (drop 168 (p0f_answer status h)) = Some (ph_link_type h)" "p0f_answer status h ! 168 \<noteq> NUL \<longleftrightarrow> ph_link_type h \<noteq> []"
    "nul_terminated (drop 200 (p0f_answer status h)) = Some (ph_language h)" "p0f_answer status h ! 200 \<noteq> NUL \<longleftrightarrow> ph_language h \<noteq> []"
proof -
  have len: "length (text32 (ph_os_name h)) = 32" "length (text32 (ph_os_flavor h)) = 32" "length (text32 (ph_http_name h)) = 32"
    "length (text32 (ph_http_flavor h)) = 32" "length (text32 (ph_link_type h)) = 32" "length (text32 (ph_language h)) = 32"
    using assms by (simp_all add: host_ok_def text32_length)
  have t: "take 32 (drop 40 (p0f_answer status h)) = text32 (ph_os_name h)" "take 32 (drop 72 (p0f_answer status h)) = text32 (ph_os_flavor h)"
    "take 32 (drop 104 (p0f_answer status h)) = text32 (ph_http_name h)" "take 32 (drop 136 (p0f_answer status h)) = text32 (ph_http_flavor h)"
    "take 32 (drop 168 (p0f_answer status h)) = text32 (ph_link_type h)" "take 32 (drop 200 (p0f_answer status h)) = text32 (ph_language h)"
    by (simp_all add: p0f_answer_def len del: le_bytes.simps)
  show "nul_terminated (drop 40 (p0f_answer status h)) = Some (ph_os_name h)" "p0f_answer status h ! 40 \<noteq> NUL \<longleftrightarrow> ph_os_name h \<noteq> []"
    using text_at [OF t(1)] assms by (auto simp: host_ok_def)
  show "nul_terminated (drop 72 (p0f_answer status h)) = Some (ph_os_flavor h)" using text_at [OF t(2)] assms by (simp add: host_ok_def)
  show "nul_terminated (drop 104 (p0f_answer status h)) = Some (ph_http_name h)" "p0f_answer status h ! 104 \<noteq> NUL \<longleftrightarrow> ph_http_name h \<noteq> []"
    using text_at [OF t(3)] assms by (auto simp: host_ok_def)
  show "nul_terminated (drop 136 (p0f_answer status h)) = Some (ph_http_flavor h)" using text_at [OF t(4)] assms by (simp add: host_ok_def)
  show "nul_terminated (drop 168 (p0f_answer status h)) = Some (ph_link_type h)" "p0f_answer status h ! 168 \<noteq> NUL \<longleftrightarrow> ph_link_type h \<noteq> []"
    using text_at [OF t(5)] assms by (auto simp: host_ok_def)
  show "nul_terminated (drop 200 (p0f_answer status h)) = Some (ph_language h)" "p0f_answer status h ! 200 \<noteq> NUL \<longleftrightarrow> ph_language h \<noteq> []"
    using text_at [OF t(6)] assms by (auto simp: host_ok_def)
qed

lemma wrap16: "- (2 ^ 15) \<le> (d :: int) \<Longrightarrow> d < 2 ^ 15 \<Longrightarrow> (if d mod 2 ^ 16 \<ge> 2 ^ 15 then d mod 2 ^ 16 - 2 ^ 16 else d mod 2 ^ 16) = d"
proof -
  assume d: "- (2 ^ 15) \<le> d" "d < 2 ^ 15"
  show ?thesis
  proof (cases "0 \<le> d")
    case False
    then have "d mod 2 ^ 16 = d + 2 ^ 16" using d mod_pos_pos_trivial [of "d + 2 ^ 16" "2 ^ 16"] by simp
    with d show ?thesis by simp
  qed (use d in simp)
qed

lemma p0f_attrs_answer:
  assumes "host_ok h"
  shows "\<exists>args. p0f_attrs (p0f_answer P0F_STATUS_OK h) = Some args \<and> map (\<lambda>(t, n, d, f). (n, d)) args = host_attrs h \<and>
    (\<forall>(t, n, d, f) \<in> set args. f = VF_KEEPNAME OR VF_COPYDATA \<and> (t = VT_INT \<and> (\<forall>x. d = Some x \<longrightarrow> (\<exists>i. x = DInt i)) \<or> t = VT_STRING \<and> (\<forall>x. d = Some x \<longrightarrow> (\<exists>s. x = DString s))))"
proof -
  have status: "0 \<le> P0F_STATUS_OK" "P0F_STATUS_OK < 2 ^ 32" by (simp_all add: P0F_STATUS_OK_def)
  note nums = p0f_answer_nums [OF assms status]
  have dist: "(if ph_distance h mod 2 ^ 16 \<ge> 2 ^ 15 then ph_distance h mod 2 ^ 16 - 2 ^ 16 else ph_distance h mod 2 ^ 16) = ph_distance h"
    using assms by (intro wrap16) (simp_all add: host_ok_def)
  have neg: "ph_distance h > -1 \<longleftrightarrow> ph_distance h \<ge> 0" by auto
  have "(if b then Some x else Some y) = Some (if b then x else y)" for b and x y :: "vdata option" by simp
  moreover have "\<forall>x. (if b then Some (DInt i) else None) = Some x \<longrightarrow> (\<exists>i. x = DInt i)"
    "\<forall>x. (if b then Some (DString t) else None) = Some x \<longrightarrow> (\<exists>t. x = DString t)" for b i t by simp_all
  ultimately show ?thesis
    unfolding p0f_attrs_def nums dist p0f_answer_texts [OF assms] host_attrs_def neg Let_def option.map
    by (simp del: if_split)
qed

lemma spec_setv_get:
  assumes "\<forall>(t, n, d, f) \<in> set args. t \<noteq> VT_NULL \<and> (\<exists>v. var_create t (Some n) d f = Some v \<and> v_data v = d)"
    and "distinct (map (\<lambda>a. fst (snd a)) args)"
  shows "fst (spec_setv m args) = 0 \<and> (\<forall>(t, n, d, f) \<in> set args. spec_get (snd (spec_setv m args)) n = d) \<and>
    (\<forall>n. n \<notin> set (map (\<lambda>a. fst (snd a)) args) \<longrightarrow> snd (spec_setv m args) n = m n)"
  using assms
proof (induction args arbitrary: m)
  case (Cons a args)
  obtain t n d f where a: "a = (t, n, d, f)" by (cases a)
  obtain v where v: "var_create t (Some n) d f = Some v" "v_data v = d" "t \<noteq> VT_NULL" using Cons.prems(1) by (auto simp: a)
  have n: "n \<notin> set (map (\<lambda>a. fst (snd a)) args)" using Cons.prems(2) by (simp add: a)
  have IH: "fst (spec_setv (m(n \<mapsto> v)) args) = 0 \<and> (\<forall>(t, k, d, f) \<in> set args. spec_get (snd (spec_setv (m(n \<mapsto> v)) args)) k = d) \<and>
      (\<forall>k. k \<notin> set (map (\<lambda>a. fst (snd a)) args) \<longrightarrow> snd (spec_setv (m(n \<mapsto> v)) args) k = (m(n \<mapsto> v)) k)"
    using Cons.prems by (intro Cons.IH) simp_all
  have step: "spec_setv m (a # args) = spec_setv (m(n \<mapsto> v)) args" using v by (simp add: a spec_set_new_def)
  have "spec_get (snd (spec_setv (m(n \<mapsto> v)) args)) n = d" using IH n v(2) by (simp add: spec_get_def)
  with IH show ?case unfolding step by (simp add: a)
qed simp

lemma p0f_query_sets:
  assumes "host_ok h" and "spec_get (w_spec w) ''hostaddr'' = Some (DAddr addr)" and "p0f_request addr = Some q"
    and "sock_connect_config (sv_sys V) config ''p0f_socket'' tr = Some (sock, tr1)" and "sock \<noteq> -1"
    and "write_sock V sock q tr1 = (int P0F_QUERY_SIZE, tr2)"
    and "sv_read V tr2 sock P0F_RESPONSE_SIZE = Some (p0f_answer P0F_STATUS_OK h)"
  shows "\<exists>w' tr'. p0f_query V config w tr = Some (0, w', tr') \<and> (\<forall>(n, d) \<in> set (host_attrs h). spec_get (w_spec w') n = d)"
proof -
  obtain args where args: "p0f_attrs (p0f_answer P0F_STATUS_OK h) = Some args" "map (\<lambda>(t, n, d, f). (n, d)) args = host_attrs h"
    "\<forall>(t, n, d, f) \<in> set args. f = VF_KEEPNAME OR VF_COPYDATA \<and> (t = VT_INT \<and> (\<forall>x. d = Some x \<longrightarrow> (\<exists>i. x = DInt i)) \<or> t = VT_STRING \<and> (\<forall>x. d = Some x \<longrightarrow> (\<exists>s. x = DString s)))"
    using p0f_attrs_answer [OF assms(1)] by blast
  have ok: "\<forall>(t, n, d, f) \<in> set args. t \<noteq> VT_NULL \<and> (\<exists>v. var_create t (Some n) d f = Some v \<and> v_data v = d)"
    using args(3) by (fastforce simp: var_create_def var_init_def var_data_init_def sanitize_def has_flag_def vf_defs)
  have "map fst (map (\<lambda>(t, n, d, f). (n, d)) args) = map fst (host_attrs h)" using args(2) by simp
  then have names: "map (\<lambda>a. fst (snd a)) args = map fst (host_attrs h)" by (simp add: comp_def case_prod_unfold)
  have "distinct (map fst (host_attrs h))" by (simp add: host_attrs_def Let_def)
  with names have "distinct (map (\<lambda>a. fst (snd a)) args)" by simp
  note set = spec_setv_get [OF ok this, of "w_spec w"]
  have len: "length (p0f_answer P0F_STATUS_OK h) = P0F_RESPONSE_SIZE"
    using assms(1) by (simp add: p0f_answer_def host_ok_def text32_length P0F_RESPONSE_SIZE_def del: le_bytes.simps)
  have status: "le_num (p0f_answer P0F_STATUS_OK h) 0 4 = P0F_RESP_MAGIC" "le_num (p0f_answer P0F_STATUS_OK h) 4 4 = P0F_STATUS_OK"
    using p0f_answer_nums(1,2) [OF assms(1), of P0F_STATUS_OK] by (simp_all add: P0F_STATUS_OK_def)
  have differ: "P0F_STATUS_OK \<noteq> P0F_STATUS_BADQUERY" "P0F_STATUS_OK \<noteq> P0F_STATUS_NOMATCH"
    by (simp_all add: P0F_STATUS_OK_def P0F_STATUS_BADQUERY_def P0F_STATUS_NOMATCH_def)
  obtain tr3 where read: "read_sock V sock P0F_RESPONSE_SIZE tr2 = (Some (p0f_answer P0F_STATUS_OK h), tr3)"
    using assms(7) len by (simp add: read_sock_def)
  have run: "\<exists>tr'. p0f_query V config w tr = Some (0, w\<lparr>w_x := (w_x w)\<lparr>xs_spec := snd (spec_setv (w_spec w) args)\<rparr>\<rparr>, tr')"
    using assms(5) set by (simp add: p0f_query_def assms(2,3,4,6) read len status args(1) case_prod_unfold differ Let_def)
  have "spec_get (snd (spec_setv (w_spec w) args)) n = d" if "(n, d) \<in> set (host_attrs h)" for n d
  proof -
    from that obtain t f where "(t, n, d, f) \<in> set args" unfolding args(2) [symmetric] by auto
    with set show ?thesis by blast
  qed
  then have attrs: "\<forall>(n, d) \<in> set (host_attrs h). spec_get (snd (spec_setv (w_spec w) args)) n = d" by blast
  from run obtain tr' where "p0f_query V config w tr = Some (0, w\<lparr>w_x := (w_x w)\<lparr>xs_spec := snd (spec_setv (w_spec w) args)\<rparr>\<rparr>, tr')" ..
  with attrs show ?thesis by (intro exI conjI) (assumption, simp)
qed

text \<open>
  C25: what p0f sends of a host is what the rules see. When the reply is complete and has the status
  \<open>P0F_OK\<close>, the query returns 0 and sets every attribute from its bytes, to \<open>NULL\<close> where p0f has found nothing out.
\<close>

theorem p0f_reports_host:
  assumes "host_ok h" and "spec_get (w_spec w) ''hostaddr'' = Some (DAddr addr)" and "p0f_request addr = Some q"
    and "sock_connect_config (sv_sys V) config ''p0f_socket'' tr = Some (sock, tr1)" and "sock \<noteq> -1"
    and "write_sock V sock q tr1 = (int P0F_QUERY_SIZE, tr2)"
    and "sv_read V tr2 sock P0F_RESPONSE_SIZE = Some (p0f_answer P0F_STATUS_OK h)"
  shows "\<exists>w' tr'. p0f_query V config w tr = Some (0, w', tr') \<and> (\<forall>(n, d) \<in> set (host_attrs h). spec_get (w_spec w') n = d)"
  using assms by (rule p0f_query_sets)

text \<open>A host that p0f does not know, and a client that is a secondary mail server: the result is 0, and there is no value.\<close>

lemma p0f_no_match_no_value:
  assumes "spec_get (w_spec w) ''hostaddr'' = Some (DAddr addr)" and "p0f_request addr = Some q"
    and "sock_connect_config (sv_sys V) config ''p0f_socket'' tr = Some (sock, tr1)" and "sock \<noteq> -1"
    and "write_sock V sock q tr1 = (int P0F_QUERY_SIZE, tr2)"
    and "sv_read V tr2 sock P0F_RESPONSE_SIZE = Some (p0f_answer P0F_STATUS_NOMATCH h)" and "host_ok h"
  shows "\<exists>tr'. p0f_query V config w tr = Some (0, w, tr')"
proof -
  have len: "length (p0f_answer P0F_STATUS_NOMATCH h) = P0F_RESPONSE_SIZE"
    using assms(7) by (simp add: p0f_answer_def host_ok_def text32_length P0F_RESPONSE_SIZE_def del: le_bytes.simps)
  have status: "le_num (p0f_answer P0F_STATUS_NOMATCH h) 0 4 = P0F_RESP_MAGIC" "le_num (p0f_answer P0F_STATUS_NOMATCH h) 4 4 = P0F_STATUS_NOMATCH"
    "P0F_STATUS_NOMATCH \<noteq> P0F_STATUS_BADQUERY"
    using p0f_answer_nums(1,2) [OF assms(7), of P0F_STATUS_NOMATCH] by (simp_all add: P0F_STATUS_NOMATCH_def P0F_STATUS_BADQUERY_def)
  obtain tr3 where "read_sock V sock P0F_RESPONSE_SIZE tr2 = (Some (p0f_answer P0F_STATUS_NOMATCH h), tr3)"
    using assms(6) len by (simp add: read_sock_def)
  then show ?thesis using assms(4) by (simp add: p0f_query_def assms(1-3,5) len status Let_def)
qed

text \<open>
  C23: queries to other programs leave no connection open, whichever of their calls fail and whatever the
  programs answer.
\<close>

theorem filters_close_connections:
  assumes "fresh_sockets (sv_sys V)"
  shows "(\<forall>r sr' w' tr'. spamd_query V sr w tr = Some (r, sr', w', tr') \<longrightarrow> open_fds tr' = open_fds tr) \<and>
    (\<forall>r sr' w' tr'. clamav_query V sr w tr = Some (r, sr', w', tr') \<longrightarrow> open_fds tr' = open_fds tr) \<and>
    (\<forall>r w' tr'. p0f_query V config w tr = Some (r, w', tr') \<longrightarrow> open_fds tr' = open_fds tr)"
  by (intro conjI allI impI; erule spamd_query_fds [OF assms] clamav_query_fds [OF assms] p0f_query_fds [OF assms])

subsection \<open>An example\<close>

definition p0f_demo_host :: p0f_host where
  "p0f_demo_host =
     \<lparr>ph_first_seen = 1600000000, ph_last_seen = 1600000060, ph_total_conn = 2, ph_uptime_min = 0, ph_up_mod_days = 0, ph_last_nat = 0,
      ph_last_chg = 0, ph_distance = -1, ph_bad_sw = 0, ph_os_match_q = 1, ph_os_name = ''Linux'', ph_os_flavor = ''3.x'', ph_http_name = [],
      ph_http_flavor = [], ph_link_type = ''DSL'', ph_language = []\<rparr>"

definition p0f_demo_svc :: "unit svcenv" where
  "p0f_demo_svc =
     \<lparr>sv_sys = demo_sys, sv_read = (\<lambda>_ _ _. Some (p0f_answer P0F_STATUS_OK p0f_demo_host)), sv_env = quiet_env, sv_timestamp = None, sv_hostname = []\<rparr>"

definition p0f_demo_config :: var where
  "p0f_demo_config = Var VT_TABLE (Some ''config'') (Some (DTable [Var VT_STRING (Some ''p0f_socket'') (Some (DString ''unix:/live'')) 0])) 0"

definition p0f_demo_world :: "unit world" where
  "p0f_demo_world = \<lparr>w_x = demo_state\<lparr>xs_spec := [''hostaddr'' \<mapsto> Var VT_ADDR (Some ''hostaddr'') (Some (DAddr (Inet 0 0))) 0]\<rparr>, w_db = (), w_calls = []\<rparr>"

lemma p0f_demo_connect: "\<exists>tr1. sock_connect_config (sv_sys p0f_demo_svc) p0f_demo_config ''p0f_socket'' [] = Some (3, tr1)"
proof -
  have "cf_get_value p0f_demo_config VT_STRING [''p0f_socket''] = Some (DString ''unix:/live'')" by code_simp
  then show ?thesis using demo_live [of "[]"] by (simp add: sock_connect_config_def p0f_demo_svc_def as_string_def)
qed

lemma p0f_demo_hyps:
  "\<exists>q tr1. host_ok p0f_demo_host \<and> spec_get (w_spec p0f_demo_world) ''hostaddr'' = Some (DAddr (Inet 0 0)) \<and> p0f_request (Inet 0 0) = Some q \<and>
    sock_connect_config (sv_sys p0f_demo_svc) p0f_demo_config ''p0f_socket'' [] = Some (3, tr1) \<and> (3 :: int) \<noteq> -1 \<and>
    write_sock p0f_demo_svc 3 q tr1 = (int P0F_QUERY_SIZE, (S_Write 3 q, 21, 0) # tr1) \<and>
    sv_read p0f_demo_svc ((S_Write 3 q, 21, 0) # tr1) 3 P0F_RESPONSE_SIZE = Some (p0f_answer P0F_STATUS_OK p0f_demo_host)"
proof -
  have "\<exists>q. p0f_request (Inet 0 0) = Some q \<and> length q = 21" by (simp add: p0f_request_def Let_def be32_def)
  then obtain q where q: "p0f_request (Inet 0 0) = Some q" "length q = 21" by blast
  have "host_ok p0f_demo_host" by (simp add: host_ok_def p0f_demo_host_def)
  moreover have "spec_get (w_spec p0f_demo_world) ''hostaddr'' = Some (DAddr (Inet 0 0))" by (simp add: p0f_demo_world_def spec_get_def)
  moreover have "write_sock p0f_demo_svc 3 q tr1 = (int P0F_QUERY_SIZE, (S_Write 3 q, 21, 0) # tr1)" for tr1
    using q(2) by (simp add: write_sock_def sys_eq p0f_demo_svc_def demo_sys_def P0F_QUERY_SIZE_def)
  moreover have "sv_read p0f_demo_svc tr 3 P0F_RESPONSE_SIZE = Some (p0f_answer P0F_STATUS_OK p0f_demo_host)" for tr
    by (simp add: p0f_demo_svc_def)
  ultimately show ?thesis using q(1) p0f_demo_connect by simp
qed

theorem p0f_reports_host_witness:
  "\<exists>w' tr'. p0f_query p0f_demo_svc p0f_demo_config p0f_demo_world [] = Some (0, w', tr') \<and>
    spec_get (w_spec w') ''p0f_os_name'' = Some (DString ''Linux'') \<and> spec_get (w_spec w') ''p0f_distance'' = None"
proof -
  from p0f_demo_hyps have "\<exists>w' tr'. p0f_query p0f_demo_svc p0f_demo_config p0f_demo_world [] = Some (0, w', tr') \<and>
      (\<forall>(n, d) \<in> set (host_attrs p0f_demo_host). spec_get (w_spec w') n = d)"
    by (elim exE conjE) (rule p0f_reports_host)
  then obtain w' tr' where w': "p0f_query p0f_demo_svc p0f_demo_config p0f_demo_world [] = Some (0, w', tr')"
    "\<forall>(n, d) \<in> set (host_attrs p0f_demo_host). spec_get (w_spec w') n = d" by blast
  have attrs: "(''p0f_os_name'', Some (DString ''Linux'')) \<in> set (host_attrs p0f_demo_host)" "(''p0f_distance'', None) \<in> set (host_attrs p0f_demo_host)"
    by (simp_all add: host_attrs_def p0f_demo_host_def)
  from w' bspec [OF w'(2) attrs(1)] bspec [OF w'(2) attrs(2)] show ?thesis by simp
qed

theorem filters_close_connections_witness:
  "fresh_sockets (sv_sys p0f_demo_svc) \<and> (\<exists>w' tr'. p0f_query p0f_demo_svc p0f_demo_config p0f_demo_world [] = Some (0, w', tr') \<and> open_fds tr' = {})"
proof -
  have fresh: "fresh_sockets (sv_sys p0f_demo_svc)" using demo_fresh by (simp add: p0f_demo_svc_def)
  from p0f_demo_hyps have "\<exists>w' tr'. p0f_query p0f_demo_svc p0f_demo_config p0f_demo_world [] = Some (0, w', tr') \<and>
      (\<forall>(n, d) \<in> set (host_attrs p0f_demo_host). spec_get (w_spec w') n = d)"
    by (elim exE conjE) (rule p0f_query_sets)
  then obtain w' tr' where "p0f_query p0f_demo_svc p0f_demo_config p0f_demo_world [] = Some (0, w', tr')" by blast
  with filters_close_connections [OF fresh, of demo_rr p0f_demo_world "[]" p0f_demo_config] fresh show ?thesis by auto
qed

end
