(* ===== verification/Dblog.thy ===== *)
theory Dblog
  imports World Memdb
begin

section \<open>The log of messages (modules/dblog.c)\<close>

text \<open>
  \<open>src/src/modules/dblog.c\<close> writes the attributes of a connection to a database table when it is closed: a
  record of 38 fields, with the identifier of the connection as the key. \<open>E\<close> has the driver of that table.
\<close>

definition dblog_fields :: "(string \<times> vtype \<times> u32) list" where
  "dblog_fields =
     [(''id'', VT_STRING, VF_KEEPNAME OR VF_KEY), (''received'', VT_INT, VF_KEEPNAME), (''hostaddr_str'', VT_STRING, VF_KEEPNAME),
      (''hostname'', VT_STRING, VF_KEEPNAME), (''helo'', VT_STRING, VF_KEEPNAME), (''origin'', VT_STRING, VF_KEEPNAME),
      (''envfrom_addr'', VT_STRING, VF_KEEPNAME), (''envrcpt_addr'', VT_STRING, VF_KEEPNAME), (''recipients'', VT_INT, VF_KEEPNAME),
      (''recipient_list_str'', VT_STRING, VF_KEEPNAME), (''message_size'', VT_INT, VF_KEEPNAME), (''queue_id'', VT_STRING, VF_KEEPNAME),
      (''message_id'', VT_STRING, VF_KEEPNAME), (''acl_matched'', VT_INT, VF_KEEPNAME), (''acl_stage_matched'', VT_INT, VF_KEEPNAME),
      (''acl_rule'', VT_INT, VF_KEEPNAME), (''acl_line'', VT_INT, VF_KEEPNAME), (''acl_response'', VT_STRING, VF_KEEPNAME),
      (''greylist_delayed'', VT_INT, VF_KEEPNAME), (''greylist_created'', VT_INT, VF_KEEPNAME), (''greylist_expire'', VT_INT, VF_KEEPNAME),
      (''greylist_connections'', VT_INT, VF_KEEPNAME), (''greylist_deadline'', VT_INT, VF_KEEPNAME), (''greylist_delay'', VT_INT, VF_KEEPNAME),
      (''greylist_attempts'', VT_INT, VF_KEEPNAME), (''greylist_defer'', VT_INT, VF_KEEPNAME), (''greylist_visa'', VT_INT, VF_KEEPNAME),
      (''greylist_passed'', VT_INT, VF_KEEPNAME), (''tarpit_delayed'', VT_INT, VF_KEEPNAME), (''counter_relay'', VT_INT, VF_KEEPNAME),
      (''counter_penpal'', VT_INT, VF_KEEPNAME), (''spf'', VT_STRING, VF_KEEPNAME), (''spf_reason'', VT_STRING, VF_KEEPNAME),
      (''spamd_spam'', VT_INT, VF_KEEPNAME), (''spamd_score'', VT_FLOAT, VF_KEEPNAME), (''spamd_symbols_str'', VT_STRING, VF_KEEPNAME),
      (''dnsbl_str'', VT_STRING, VF_KEEPNAME), (''dblog_expire'', VT_INT, VF_KEEPNAME)]"

definition dblog_scheme :: "var option option" where
  "dblog_scheme = vlist_scheme ''dblog'' dblog_fields"

text \<open>\<open>vlist_record_from_table\<close> on the attributes of a message.\<close>

definition spec_record_from_table :: "var \<Rightarrow> mailspec \<Rightarrow> var option option" where
  "spec_record_from_table scheme m =
     (case vlist_create (v_name scheme) VF_KEEPNAME of
        None \<Rightarrow> Some None
      | Some record0 \<Rightarrow>
          do {
            xs \<leftarrow> vlist_items scheme;
            if \<exists>v \<in> set (visible xs). m (v_key v) = None \<and> has_flag (v_flags v) VF_KEY then Some None
            else append_all record0
              (map (\<lambda>v. case m (v_key v) of
                          None \<Rightarrow> (VT_NULL, v_name v, None, VF_COPY OR v_flags v)
                        | Some w \<Rightarrow> (v_type w, v_name v, v_data w, VF_COPY OR v_flags v)) (visible xs)) })"

lemma spec_record_from_table_rep:
  "vtab_rep n t m \<Longrightarrow> vlist_record_from_table scheme t = spec_record_from_table scheme m"
proof -
  assume "vtab_rep n t m"
  then have look: "vtable_lookup t k = m k" for k by (simp add: vtable_lookup_map vtab_rep_def)
  show ?thesis unfolding vlist_record_from_table_def spec_record_from_table_def look ..
qed

text \<open>\<open>dblog_dump_string\<close>: the text of an attribute becomes another attribute.\<close>

definition dblog_dump_string :: "libc \<Rightarrow> string \<Rightarrow> mailspec \<Rightarrow> (int \<times> mailspec) option" where
  "dblog_dump_string L key m =
     (case m key of
        None \<Rightarrow> Some (-1, m)
      | Some item \<Rightarrow>
          do {
            (r, buffer) \<leftarrow> var_dump_data L item 8192;
            if r = -1 then Some (-1, m)
            else
              (case spec_set_new m VT_STRING (take 127 (key @ ''_str'')) (Some (DString buffer)) (VF_COPY OR VF_EXP_FREE) of
                 (r, m1) \<Rightarrow> Some (if r = -1 then -1 else 0, m1)) })"

text \<open>
  \<open>dblog_update\<close>: first the attributes that only the log has, where failures of \<open>dblog_dump_string\<close> do not
  count, then the record.
\<close>

definition dblog_prepare :: "int \<Rightarrow> 'h env \<Rightarrow> 'h world \<Rightarrow> (int \<times> 'h world) option" where
  "dblog_prepare cf_dblog_expire E w =
     (let L = x_libc (e_x E (w_db w)) in
      do {
        (_, m1) \<leftarrow> dblog_dump_string L ''recipient_list'' (w_spec w);
        (_, m2) \<leftarrow> dblog_dump_string L ''spamd_symbols'' m1;
        (_, m3) \<leftarrow> dblog_dump_string L ''dnsbl'' m2;
        let (now, w1) = ask E C_Time w;
        let (r, m4) = spec_set_new m3 VT_INT ''dblog_expire'' (Some (DInt (wrap64 (now + cf_dblog_expire)))) (VF_KEEPNAME OR VF_COPYDATA);
        Some (if r \<noteq> 0 then -1 else 0, set_spec w1 m4) })"

definition dblog_update :: "int \<Rightarrow> 'h env \<Rightarrow> int \<Rightarrow> acl_action_type \<Rightarrow> 'h world \<Rightarrow> (int \<times> 'h world) option" where
  "dblog_update cf_dblog_expire E stage action w =
     (if stage \<noteq> MS_CLOSE then Some (0, w)
      else
        do {
          (r, w1) \<leftarrow> dblog_prepare cf_dblog_expire E w;
          if r \<noteq> 0 then Some (-1, w1)
          else
            do {
              scheme0 \<leftarrow> dblog_scheme;
              scheme \<leftarrow> scheme0;
              record0 \<leftarrow> spec_record_from_table scheme (w_spec w1);
              (case record0 of
                 None \<Rightarrow> Some (-1, w1)
               | Some rec \<Rightarrow> do { (r, w2) \<leftarrow> dbt_db_set E w1 rec; Some (if r \<noteq> 0 then -1 else 0, w2) }) } })"

subsection \<open>Records\<close>

definition dblog_ss :: "var list" where
  "dblog_ss = map (\<lambda>(n, t, f). Var t (Some n) None f) dblog_fields"

text \<open>The record of a message: the data of the attributes, with the types of the scheme.\<close>

definition dblog_row :: "mailspec \<Rightarrow> var list" where
  "dblog_row m = map (\<lambda>(n, t, f). Var t (Some n) (spec_get m n) (if has_flag f VF_KEY then VF_COPY OR VF_KEY else VF_COPY)) dblog_fields"

text \<open>A message that can be logged: it has an identifier, its attributes have the types of the scheme, and the
  record is not longer than an \<open>int\<close> can tell.\<close>

definition loggable :: "libc \<Rightarrow> mailspec \<Rightarrow> bool" where
  "loggable L m \<longleftrightarrow> spec_get m ''id'' \<noteq> None \<and> vp_fits L (dblog_row m) \<and>
     (\<forall>(n, t, f) \<in> set dblog_fields. case m n of None \<Rightarrow> True | Some v \<Rightarrow> (case v_data v of None \<Rightarrow> True | Some d \<Rightarrow> v_type v = t \<and> storable L t d))"

lemma dblog_scheme_eq: "dblog_scheme = Some (Some (record_of (Some ''dblog'') 17 dblog_ss))"
proof -
  have list: "vlist_create (Some ''dblog'') VF_COPYNAME = Some (record_of (Some ''dblog'') 17 [])"
    by (simp add: vlist_create_def var_create_def var_init_def var_data_init_def sanitize_def has_flag_def vf_defs record_of_def)
  have kept: "var_create t n d (VF_KEEPNAME OR VF_KEY) = Some (Var t n d (VF_KEEPNAME OR VF_KEY))"
    "var_create t n d VF_KEEPNAME = Some (Var t n d VF_KEEPNAME)" for t n d
    by (intro create_kept; simp add: sanitize_def has_flag_def vf_defs)+
  have flags: "\<forall>(n, t, f) \<in> set dblog_fields. f = VF_KEEPNAME OR VF_KEY \<or> f = VF_KEEPNAME" by (simp add: dblog_fields_def)
  show ?thesis
    unfolding dblog_scheme_def vlist_scheme_def list option.case
    by (subst append_all_kept) (use flags kept in \<open>fastforce simp: dblog_ss_def comp_def case_prod_unfold\<close>)+
qed

text \<open>Fields without data are packed in the same way whatever their type is.\<close>

definition packs_as :: "var \<Rightarrow> var \<Rightarrow> bool" where
  "packs_as v v' \<longleftrightarrow> v = v' \<or> v_data v = None \<and> v_data v' = None \<and> v_flags v = v_flags v'"

lemma pack_fields_as: "list_all2 packs_as vs vs' \<Longrightarrow> pack_fields L n mem key dat vs = pack_fields L n mem key dat vs'"
proof (induction vs vs' arbitrary: n mem key dat rule: list_all2_induct)
  case (Cons v vs v' vs')
  have IH: "pack_fields L n mem key dat vs = pack_fields L n mem key dat vs'" for n mem key dat by (rule Cons.IH)
  show ?case using Cons.hyps(1) by (cases "v = v'") (simp_all add: packs_as_def Let_def IH cong: option.case_cong)
qed simp

lemma vp_pack_as: "list_all2 packs_as vs vs' \<Longrightarrow> vp_pack L (record_of n f vs) = vp_pack L (record_of n f vs')"
proof -
  assume a: "list_all2 packs_as vs vs'"
  have vis: "visible (map Some xs) = xs" for xs by (induction xs) simp_all
  show ?thesis using list_all2_lengthD [OF a] by (simp add: vp_pack_def vp_pack_mem_def record_of_def vlist_items_def vis pack_fields_as [OF a])
qed

lemma dblog_flags:
  "(n, t, f) \<in> set dblog_fields \<Longrightarrow> sanitize (VF_COPY OR f) = (if has_flag f VF_KEY then VF_COPY OR VF_KEY else VF_COPY)"
  "has_flag VF_COPY VF_COPYDATA" "has_flag (VF_COPY OR VF_KEY) VF_COPYDATA" "\<not> has_flag VF_COPY VF_CREATE" "\<not> has_flag (VF_COPY OR VF_KEY) VF_CREATE"
  "\<not> has_flag VF_COPY VF_KEY" "has_flag (VF_COPY OR VF_KEY) VF_KEY"
proof -
  have "\<forall>(n, t, f) \<in> set dblog_fields. f = VF_KEEPNAME OR VF_KEY \<or> f = VF_KEEPNAME" by (simp add: dblog_fields_def)
  moreover assume "(n, t, f) \<in> set dblog_fields"
  ultimately have "f = VF_KEEPNAME OR VF_KEY \<or> f = VF_KEEPNAME" by blast
  then show "sanitize (VF_COPY OR f) = (if has_flag f VF_KEY then VF_COPY OR VF_KEY else VF_COPY)"
    by (auto simp: sanitize_def has_flag_def vf_defs)
qed (simp_all add: has_flag_def vf_defs)

lemma dblog_key: "(n, t, f) \<in> set dblog_fields \<Longrightarrow> has_flag f VF_KEY \<longleftrightarrow> n = ''id''"
proof -
  have "\<forall>(n, t, f) \<in> set dblog_fields. has_flag f VF_KEY \<longleftrightarrow> n = ''id''" by (simp add: dblog_fields_def has_flag_def vf_defs)
  then show "(n, t, f) \<in> set dblog_fields \<Longrightarrow> has_flag f VF_KEY \<longleftrightarrow> n = ''id''" by blast
qed

text \<open>The record as \<open>vlist_record_from_table\<close> makes it: missing attributes have no type.\<close>

definition dblog_raw :: "mailspec \<Rightarrow> var list" where
  "dblog_raw m = map (\<lambda>(n, t, f). Var (case m n of None \<Rightarrow> VT_NULL | Some v \<Rightarrow> v_type v) (Some n) (spec_get m n)
     (if has_flag f VF_KEY then VF_COPY OR VF_KEY else VF_COPY)) dblog_fields"

lemma dblog_record:
  assumes "loggable L m"
  shows "spec_record_from_table (record_of (Some ''dblog'') 17 dblog_ss) m = Some (Some (record_of (Some ''dblog'') 20 (dblog_raw m)))"
proof -
  have list: "vlist_create (Some ''dblog'') VF_KEEPNAME = Some (record_of (Some ''dblog'') 20 [])"
    by (simp add: vlist_create_def var_create_def var_init_def var_data_init_def sanitize_def has_flag_def vf_defs record_of_def)
  let ?arg = "\<lambda>(n, t, f). case m n of None \<Rightarrow> (VT_NULL, Some n, None, VF_COPY OR f) | Some w \<Rightarrow> (v_type w, Some n, v_data w, VF_COPY OR f)"
  have step: "append_all (record_of nm g vs) (map ?arg fs) = Some (Some (record_of nm g (vs @ map (\<lambda>(n, t, f). Var (case m n of None \<Rightarrow> VT_NULL | Some v \<Rightarrow> v_type v) (Some n) (spec_get m n)
      (if has_flag f VF_KEY then VF_COPY OR VF_KEY else VF_COPY)) fs)))" if "set fs \<subseteq> set dblog_fields" for nm g vs fs
    using that
  proof (induction fs arbitrary: vs)
    case (Cons a fs)
    obtain n t f where a: "a = (n, t, f)" by (cases a)
    with Cons.prems have mem: "(n, t, f) \<in> set dblog_fields" by simp
    have "\<forall>d. (case m n of None \<Rightarrow> False | Some v \<Rightarrow> v_data v = Some d) \<longrightarrow> var_copy_data (v_type (the (m n))) d = Some d"
      using assms mem storable_copy by (fastforce simp: loggable_def split: option.splits)
    then obtain ty d where arg: "?arg a = (ty, Some n, d, VF_COPY OR f)" "ty = (case m n of None \<Rightarrow> VT_NULL | Some v \<Rightarrow> v_type v)" "d = spec_get m n"
      "\<forall>x. d = Some x \<longrightarrow> var_copy_data ty x = Some x"
      by (cases "m n") (auto simp: a spec_get_def)
    have "var_create ty (Some n) d (VF_COPY OR f) = Some (Var ty (Some n) d (if has_flag f VF_KEY then VF_COPY OR VF_KEY else VF_COPY))"
      using arg(4) by (cases d) (simp_all add: var_create_def var_init_def var_data_init_def dblog_flags(1) [OF mem] dblog_flags(2-) Let_def)
    from append_item [OF this, of nm g vs] Cons.IH Cons.prems arg show ?case by (simp add: a)
  qed simp
  have vis: "visible (map Some xs) = xs" for xs by (induction xs) simp_all
  have key: "\<not> (\<exists>v \<in> set dblog_ss. m (v_key v) = None \<and> has_flag (v_flags v) VF_KEY)"
  proof -
    have "m ''id'' \<noteq> None" using assms unfolding loggable_def spec_get_def by (cases "m ''id''") simp_all
    with dblog_key show ?thesis by (fastforce simp: dblog_ss_def v_key_def)
  qed
  have args: "map (\<lambda>v. case m (v_key v) of None \<Rightarrow> (VT_NULL, v_name v, None, VF_COPY OR v_flags v)
      | Some w \<Rightarrow> (v_type w, v_name v, v_data w, VF_COPY OR v_flags v)) dblog_ss = map ?arg dblog_fields"
    by (simp add: dblog_ss_def v_key_def case_prod_unfold split: option.split)
  show ?thesis
    using step [of dblog_fields "Some ''dblog''" 20 "[]"] key
    by (simp add: spec_record_from_table_def record_of_def vlist_items_def vis args dblog_raw_def list [unfolded record_of_def])
qed

lemma dblog_row_conforms:
  assumes "loggable L m"
  shows "conforms L dblog_ss (dblog_row m)" "list_all2 packs_as (dblog_raw m) (dblog_row m)" "map unpacked (dblog_row m) = dblog_row m"
    "map v_data (filter is_key (dblog_row m)) = [spec_get m ''id'']"
proof -
  have key: "is_key (Var t n d (if has_flag f VF_KEY then VF_COPY OR VF_KEY else VF_COPY)) \<longleftrightarrow> has_flag f VF_KEY" for t n d f
    by (simp add: is_key_def dblog_flags(2-))
  have data: "case spec_get m n of None \<Rightarrow> n \<noteq> ''id'' | Some d \<Rightarrow> storable L t d \<and> (\<forall>v. m n = Some v \<longrightarrow> v_type v = t)" if "(n, t, f) \<in> set dblog_fields" for n t f
    using assms that by (cases "m n") (auto simp: loggable_def spec_get_def split: option.splits)
  have "field_ok L v" if "v \<in> set (dblog_row m)" for v
  proof -
    from that obtain n t f where v: "(n, t, f) \<in> set dblog_fields"
      "v = Var t (Some n) (spec_get m n) (if has_flag f VF_KEY then VF_COPY OR VF_KEY else VF_COPY)" by (auto simp: dblog_row_def)
    with data [OF v(1)] dblog_key [OF v(1)] show ?thesis by (cases "spec_get m n") (simp_all add: field_ok_def is_key_def dblog_flags(2-))
  qed
  moreover have "list_all2 same_field dblog_ss (dblog_row m)"
    by (auto simp: list_all2_conv_all_nth dblog_ss_def dblog_row_def same_field_def key case_prod_unfold) (simp_all add: is_key_def)
  moreover have "length (dblog_row m) \<le> 64" by (simp add: dblog_row_def dblog_fields_def)
  moreover have "vp_fits L (dblog_row m)" using assms by (simp add: loggable_def)
  ultimately show "conforms L dblog_ss (dblog_row m)" by (simp add: conforms_def)
  have "packs_as (Var (case m n of None \<Rightarrow> VT_NULL | Some v \<Rightarrow> v_type v) (Some n) (spec_get m n) g) (Var t (Some n) (spec_get m n) g)"
    if "(n, t, f) \<in> set dblog_fields" for n t f g
    using data [OF that] by (cases "m n") (auto simp: packs_as_def spec_get_def split: option.splits)
  then show "list_all2 packs_as (dblog_raw m) (dblog_row m)"
    by (fastforce simp: list_all2_map1 list_all2_map2 dblog_raw_def dblog_row_def case_prod_unfold intro!: list.rel_refl_strong)
  show "map unpacked (dblog_row m) = dblog_row m" by (auto simp: dblog_row_def unpacked_def key)
  have "filter (\<lambda>(n, t, f). has_flag f VF_KEY) dblog_fields = [(''id'', VT_STRING, VF_KEEPNAME OR VF_KEY)]"
    by (simp add: dblog_fields_def has_flag_def vf_defs)
  then show "map v_data (filter is_key (dblog_row m)) = [spec_get m ''id'']"
    by (simp add: dblog_row_def filter_map comp_def case_prod_unfold key)
qed

subsection \<open>The log in memory\<close>

definition dblog_driver :: "libc \<Rightarrow> vp ht dbt_driver" where
  "dblog_driver L = \<lparr>dd_get = memdb_get L (record_of (Some ''dblog'') 17 dblog_ss), dd_set = memdb_set L, dd_del = memdb_del L\<rparr>"

text \<open>
  C26: a closed connection is in the log. When a connection is closed whose attributes have the types of the
  log and fit into a record, \<open>dblog_update\<close> stores a record that a later lookup by its identifier finds, with the values of
  all attributes and \<open>NULL\<close> for those it does not have; the records of other connections stay as they are.
\<close>

theorem dblog_logs_connection:
  assumes "dblog_prepare expire E w = Some (0, w1)" and "loggable L (w_spec w1)" and "e_driver E = dblog_driver L"
    and "memdb_ok L dblog_ss (w_db w1)" and "memdb_room 1 (w_db w1)" and "conforms L dblog_ss vs"
  shows "\<exists>w'. dblog_update expire E MS_CLOSE action w = Some (0, w') \<and> memdb_ok L dblog_ss (w_db w') \<and>
    memdb_get L (record_of (Some ''dblog'') 17 dblog_ss) (w_db w') (record_of n f vs) =
      (if map v_data (filter is_key vs) = [spec_get (w_spec w1) ''id'']
       then Some (0, Some (record_of (Some ''dblog'') (VF_COPYNAME OR VF_CREATE) (dblog_row (w_spec w1))))
       else memdb_get L (record_of (Some ''dblog'') 17 dblog_ss) (w_db w1) (record_of n f vs))"
proof -
  note row = dblog_row_conforms [OF assms(2)]
  have room: "memdb_room (Suc 0) (w_db w1)" using assms(5) by simp
  from memdb.get_set [OF assms(4) room row(1) assms(6), of "Some ''dblog''" 20 "Some ''dblog''" 17 n f] obtain h' where
    h': "memdb_set L (w_db w1) (record_of (Some ''dblog'') 20 (dblog_row (w_spec w1))) = Some (0, h')" "memdb_ok L dblog_ss h'"
    "memdb_get L (record_of (Some ''dblog'') 17 dblog_ss) h' (record_of n f vs) =
      (if map v_data (filter is_key vs) = map v_data (filter is_key (dblog_row (w_spec w1)))
       then Some (0, Some (record_of (Some ''dblog'') (VF_COPYNAME OR VF_CREATE) (map unpacked (dblog_row (w_spec w1)))))
       else memdb_get L (record_of (Some ''dblog'') 17 dblog_ss) (w_db w1) (record_of n f vs))" by blast
  have "memdb_set L (w_db w1) (record_of (Some ''dblog'') 20 (dblog_raw (w_spec w1))) = Some (0, h')"
    using h'(1) by (simp add: memdb_set_def vp_pack_as [OF row(2)])
  then have "\<exists>w'. dblog_update expire E MS_CLOSE action w = Some (0, w') \<and> w_db w' = h'"
    by (simp add: dblog_update_def assms(1) dblog_scheme_eq dblog_record [OF assms(2)] dbt_db_set_def assms(3) dblog_driver_def)
  with h'(2,3) row(3,4) show ?thesis by auto
qed

definition dblog_demo_env :: "vp ht env" where
  "dblog_demo_env =
     \<lparr>e_x = (\<lambda>_. demo_env), e_driver = dblog_driver word_libc, e_answer = (\<lambda>_ c. if c = C_Time then 1000 else 0), cf_acl_log_level = 0,
      cf_greylist_deadline = 0, cf_greylist_visa = 0, cf_tarpit_progress_interval = 0, cf_dbt_fatal_errors = False\<rparr>"

definition dblog_demo_spec :: mailspec where
  "dblog_demo_spec = [''id'' \<mapsto> Var VT_STRING (Some ''id'') (Some (DString ''4711'')) 0, ''helo'' \<mapsto> Var VT_STRING (Some ''helo'') (Some (DString ''mx'')) 0]"

definition dblog_demo_world :: "vp ht world" where
  "dblog_demo_world = \<lparr>w_x = demo_state\<lparr>xs_spec := dblog_demo_spec\<rparr>, w_db = memdb_open, w_calls = []\<rparr>"

theorem dblog_logs_connection_witness:
  "\<exists>w' vs. dblog_update 60 dblog_demo_env MS_CLOSE ACL_CONTINUE dblog_demo_world = Some (0, w') \<and>
    memdb_get word_libc (record_of (Some ''dblog'') 17 dblog_ss) (w_db w') (record_of None 0 vs) =
      Some (0, Some (record_of (Some ''dblog'') (VF_COPYNAME OR VF_CREATE) vs)) \<and>
    Var VT_STRING (Some ''helo'') (Some (DString ''mx'')) VF_COPY \<in> set vs \<and> Var VT_INT (Some ''dblog_expire'') (Some (DInt 1060)) VF_COPY \<in> set vs"
proof -
  let ?m = "dblog_demo_spec(''dblog_expire'' \<mapsto> Var VT_INT (Some ''dblog_expire'') (Some (DInt 1060)) (VF_KEEPNAME OR VF_COPYDATA))"
  let ?w = "set_spec (snd (ask dblog_demo_env C_Time dblog_demo_world)) ?m"
  have new: "spec_set_new dblog_demo_spec VT_INT ''dblog_expire'' (Some (DInt 1060)) (VF_KEEPNAME OR VF_COPYDATA) = (0, ?m)"
    by (simp add: spec_set_new_def var_create_def var_init_def var_data_init_def sanitize_def has_flag_def vf_defs)
  have prep: "dblog_prepare 60 dblog_demo_env dblog_demo_world = Some (0, ?w)"
    using new by (simp add: dblog_prepare_def dblog_dump_string_def dblog_demo_world_def dblog_demo_spec_def dblog_demo_env_def ask_def Let_def wrap64_id i64_def)
  have ok: "loggable word_libc (w_spec ?w)" by (simp add: loggable_def spec_get_def dblog_demo_spec_def dblog_fields_def storable_def i64_def
      vp_fits_defs dblog_row_def is_key_def has_flag_def vf_defs)
  have db: "memdb_ok word_libc dblog_ss (w_db ?w)" "memdb_room 1 (w_db ?w)"
    using memdb_open_ok [of word_libc dblog_ss] memdb_open_room [of 1] by (simp_all add: dblog_demo_world_def)
  have drv: "e_driver dblog_demo_env = dblog_driver word_libc" by (simp add: dblog_demo_env_def)
  from dblog_logs_connection [OF prep ok drv db dblog_row_conforms(1) [OF ok], of ACL_CONTINUE None 0] dblog_row_conforms(4) [OF ok]
  obtain w' where "dblog_update 60 dblog_demo_env MS_CLOSE ACL_CONTINUE dblog_demo_world = Some (0, w')"
    "memdb_get word_libc (record_of (Some ''dblog'') 17 dblog_ss) (w_db w') (record_of None 0 (dblog_row ?m)) =
      Some (0, Some (record_of (Some ''dblog'') (VF_COPYNAME OR VF_CREATE) (dblog_row ?m)))" by auto
  moreover have "Var VT_STRING (Some ''helo'') (Some (DString ''mx'')) VF_COPY \<in> set (dblog_row ?m)"
    "Var VT_INT (Some ''dblog_expire'') (Some (DInt 1060)) VF_COPY \<in> set (dblog_row ?m)"
    by (simp_all add: dblog_row_def dblog_fields_def spec_get_def dblog_demo_spec_def has_flag_def vf_defs)
  ultimately show ?thesis by blast
qed

end
