(* ===== verification/Rulebase.thy ===== *)
theory Rulebase
  imports Milter Config
begin

section \<open>Reading the rules (exp.c, acl.c)\<close>

text \<open>
  What the parser of the rules does with the constructors of \<open>src/src/exp.c\<close> and \<open>src/src/acl.c\<close>.
  Expressions are nodes of a store, \<open>exp_garbage\<close>, and refer to each other by pointers, here the
  positions in the store. A \<open>DEFINE\<close>d name is a pointer to a node that every use shares, and the
  comma changes the node of a list in place, so what a pointer means depends on the store.

  The trees that \<open>Exp\<close> evaluates are what pointers denote. The theory shows that the rules denote
  what they say, definitions expanded, as long as no comma extends a definition, and what happens
  when one does.

  The generated parser is represented by its input, the statements as abstract syntax, and by its
  actions in \<open>src/src/acl_yacc.y\<close>, which call the constructors from left to right. An error of the
  parser ends the program and is \<open>None\<close>.
\<close>

subsection \<open>Registration of symbols (acl.c)\<close>

datatype node =
    N_PARENTHESES nat
  | N_CONSTANT nat
  | is_list: N_LIST "nat list"
  | N_SYMBOL string
  | N_FUNCTION string "nat option"
  | is_variable: N_VARIABLE string
  | N_OPERATION oper nat "nat option"
  | N_TERNARY_COND nat nat nat
  | N_MACRO string

text \<open>
  The action of a rule as it is written, over a type of expressions: what the source says, pointers
  into the store, or trees.
\<close>

datatype gl_clause = GL_VISA | GL_DEADLINE | GL_DELAY | GL_ATTEMPTS

datatype 'e pterminal =
    T_ACTION acl_action_type
  | T_GREYLIST "(gl_clause \<times> 'e) list"
  | T_TARPIT 'e
  | T_LOG 'e "'e list"
  | T_SET 'e
  | T_MOD msgmod_mod string "'e list"
  | T_JUMP string
  | T_CALL string
  | T_PIPE 'e

datatype 'e prule =
  Rule (pr_condition: "'e option") (pr_terminal: "'e pterminal") (pr_reply: "('e \<times> 'e option \<times> 'e) option")
    (pr_filename: string) (pr_line: int)

text \<open>The static variables of \<open>acl.c\<close> and \<open>exp.c\<close>; \<open>s_consts\<close> are the values of constants.\<close>

record acl_state =
  s_garbage :: "node list"
  s_consts :: "var list"
  s_defs :: "string \<rightharpoonup> nat"
  s_symbols :: symbol_table
  s_tables :: "string \<rightharpoonup> nat prule list"

definition acl_constant_register :: "vtype \<Rightarrow> string \<Rightarrow> vdata option \<Rightarrow> u32 \<Rightarrow> acl_state \<Rightarrow> acl_state option" where
  "acl_constant_register t name d flags s =
     do {
       v \<leftarrow> var_create t (Some name) d flags;
       tbl \<leftarrow> acl_symbol_insert (s_symbols s) name
         \<lparr>as_stages = MS_ANY OR MS_INIT, as_data = AS_CONSTANT (length (s_consts s))\<rparr>;
       Some (s\<lparr>s_symbols := tbl, s_consts := s_consts s @ [v]\<rparr>) }"

text \<open>\<open>acl_function_argv_types\<close>: the arguments up to the first that is 0, \<open>VT_NULL\<close>.\<close>

definition acl_function_argv_types :: "vtype list \<Rightarrow> nat \<times> vtype list" where
  "acl_function_argv_types ap = (let types = takeWhile (\<lambda>t. t \<noteq> VT_NULL) ap in (length types, types))"

definition acl_function_register ::
  "string \<Rightarrow> (vtype list \<Rightarrow> acl_function) \<Rightarrow> vtype list \<Rightarrow> acl_state \<Rightarrow> acl_state option" where
  "acl_function_register name callback ap s =
     do {
       tbl \<leftarrow> acl_symbol_insert (s_symbols s) name
         \<lparr>as_stages = MS_ANY, as_data = AS_FUNCTION (callback (snd (acl_function_argv_types ap)))\<rparr>;
       Some (s\<lparr>s_symbols := tbl\<rparr>) }"

definition acl_log_levels :: "(string \<times> int) list" where
  "acl_log_levels =
     [(''LOG_EMERG'', 0), (''LOG_ALERT'', 1), (''LOG_CRIT'', 2), (''LOG_ERR'', 3), (''LOG_WARNING'', 4), (''LOG_NOTICE'', 5),
      (''LOG_INFO'', 6), (''LOG_DEBUG'', 7)]"

definition acl_match_symbols :: "string list" where
  "acl_match_symbols = [''acl_matched'', ''acl_stage_matched'', ''acl_rule'', ''acl_filename'', ''acl_line'', ''acl_response'']"

fun register_levels :: "(string \<times> int) list \<Rightarrow> acl_state \<Rightarrow> acl_state option" where
  "register_levels [] s = Some s"
| "register_levels ((name, level) # ls) s =
     do { s1 \<leftarrow> acl_constant_register VT_INT name (Some (DInt level)) VF_KEEP s; register_levels ls s1 }"

definition acl_init :: "acl_state option" where
  "acl_init =
     do {
       s \<leftarrow> register_levels acl_log_levels
         \<lparr>s_garbage = [], s_consts = [], s_defs = Map.empty, s_symbols = Map.empty, s_tables = Map.empty\<rparr>;
       tbl \<leftarrow> load_symbols (map (\<lambda>name. (name, MS_ANY)) acl_match_symbols) (s_symbols s);
       Some (s\<lparr>s_symbols := tbl\<rparr>) }"

subsection \<open>Constructors of expressions (exp.c)\<close>

definition exp_create :: "node \<Rightarrow> acl_state \<Rightarrow> nat \<times> acl_state" where
  "exp_create x s = (length (s_garbage s), s\<lparr>s_garbage := s_garbage s @ [x]\<rparr>)"

definition exp_define :: "string \<Rightarrow> nat \<Rightarrow> acl_state \<Rightarrow> acl_state option" where
  "exp_define name e s = (if s_defs s name \<noteq> None then None else Some (s\<lparr>s_defs := (s_defs s)(name \<mapsto> e)\<rparr>))"

definition exp_parentheses :: "nat \<Rightarrow> acl_state \<Rightarrow> nat \<times> acl_state" where
  "exp_parentheses e s = exp_create (N_PARENTHESES e) s"

definition exp_symbol :: "string \<Rightarrow> acl_state \<Rightarrow> (nat \<times> acl_state) option" where
  "exp_symbol name s =
     (case s_defs s name of
        Some e \<Rightarrow> Some (e, s)
      | None \<Rightarrow> if s_symbols s name = None then None else Some (exp_create (N_SYMBOL name) s))"

text \<open>\<open>exp_list\<close>: a list is changed in place.\<close>

definition exp_list_at :: "nat \<Rightarrow> nat \<Rightarrow> acl_state \<Rightarrow> nat \<times> acl_state" where
  "exp_list_at l e s =
     (case s_garbage s ! l of
        N_LIST ll \<Rightarrow> (l, s\<lparr>s_garbage := (s_garbage s)[l := N_LIST (ll @ [e])]\<rparr>)
      | _ \<Rightarrow> exp_create (N_LIST [l, e]) s)"

definition exp_constant :: "vtype \<Rightarrow> vdata option \<Rightarrow> u32 \<Rightarrow> acl_state \<Rightarrow> (nat \<times> acl_state) option" where
  "exp_constant t d flags s =
     do {
       v \<leftarrow> var_create t None d flags;
       Some (exp_create (N_CONSTANT (length (s_consts s))) (s\<lparr>s_consts := s_consts s @ [v]\<rparr>)) }"

definition exp_operation :: "oper \<Rightarrow> nat \<Rightarrow> nat option \<Rightarrow> acl_state \<Rightarrow> (nat \<times> acl_state) option" where
  "exp_operation op a b s =
     (if op = OAssign \<and> \<not> is_variable (s_garbage s ! a) then None
      else Some (exp_create (N_OPERATION op a b) s))"

definition exp_ternary_cond :: "nat \<Rightarrow> nat \<Rightarrow> nat \<Rightarrow> acl_state \<Rightarrow> nat \<times> acl_state" where
  "exp_ternary_cond c a b s = exp_create (N_TERNARY_COND c a b) s"

definition exp_function :: "string \<Rightarrow> nat option \<Rightarrow> acl_state \<Rightarrow> (nat \<times> acl_state) option" where
  "exp_function name args s =
     (case s_symbols s name of
        None \<Rightarrow> None
      | Some as \<Rightarrow> (case as_data as of AS_FUNCTION _ \<Rightarrow> Some (exp_create (N_FUNCTION name args) s) | _ \<Rightarrow> None))"

subsection \<open>The actions of the grammar (acl_yacc.y)\<close>

text \<open>
  Expressions as the grammar has them. A number has a unit; \<open>S_SET\<close> is the assignment of a \<open>SET\<close> action.
\<close>

datatype sexp =
    S_PARENTHESES sexp
  | S_COMMA sexp sexp
  | S_UNARY oper sexp
  | S_BINARY oper sexp sexp
  | S_IS_SET string
  | S_COND sexp sexp sexp
  | S_VARIABLE string
  | S_STRING string
  | S_NUMBER int "char option"
  | S_FLOAT double
  | S_ADDR sockaddr
  | S_SYMBOL string
  | S_CALL string "sexp option"
  | S_MACRO string
  | S_SET string sexp

definition unit_factor :: "char option \<Rightarrow> int option" where
  "unit_factor u =
     map_of [(None, 1), (Some CHR ''s'', 1), (Some CHR ''m'', 60), (Some CHR ''h'', 60 * 60), (Some CHR ''d'', 60 * 60 * 24),
       (Some CHR ''B'', 1), (Some CHR ''K'', 1024), (Some CHR ''M'', 1024 * 1024), (Some CHR ''G'', 1024 * 1024 * 1024)] u"

fun literal :: "sexp \<Rightarrow> (vtype \<times> vdata \<times> u32) option" where
  "literal (S_STRING x) = Some (VT_STRING, DString x, 0)"
| "literal (S_NUMBER i u) = map_option (\<lambda>k. (VT_INT, DInt (wrap64 (i * k)), VF_COPY)) (unit_factor u)"
| "literal (S_FLOAT x) = Some (VT_FLOAT, DFloat x, VF_COPY)"
| "literal (S_ADDR x) = Some (VT_ADDR, DAddr x, 0)"
| "literal _ = None"

fun build :: "sexp \<Rightarrow> acl_state \<Rightarrow> (nat \<times> acl_state) option" where
  "build (S_PARENTHESES e) s = do { (n, s1) \<leftarrow> build e s; Some (exp_parentheses n s1) }"
| "build (S_COMMA a b) s = do { (n, s1) \<leftarrow> build a s; (k, s2) \<leftarrow> build b s1; Some (exp_list_at n k s2) }"
| "build (S_UNARY op e) s = do { (n, s1) \<leftarrow> build e s; exp_operation op n None s1 }"
| "build (S_BINARY op a b) s = do { (n, s1) \<leftarrow> build a s; (k, s2) \<leftarrow> build b s1; exp_operation op n (Some k) s2 }"
| "build (S_IS_SET name) s = do { (n, s1) \<leftarrow> exp_symbol name s; exp_operation OIsSet n None s1 }"
| "build (S_COND c a b) s =
     do { (n, s1) \<leftarrow> build c s; (k, s2) \<leftarrow> build a s1; (l, s3) \<leftarrow> build b s2; Some (exp_ternary_cond n k l s3) }"
| "build (S_VARIABLE name) s = Some (exp_create (N_VARIABLE name) s)"
| "build (S_SYMBOL name) s = exp_symbol name s"
| "build (S_CALL name None) s = exp_function name None s"
| "build (S_CALL name (Some args)) s = do { (n, s1) \<leftarrow> build args s; exp_function name (Some n) s1 }"
| "build (S_MACRO name) s = Some (exp_create (N_MACRO name) s)"
| "build (S_SET name e) s =
     do { (n, s1) \<leftarrow> build e s; (v, s2) \<leftarrow> Some (exp_create (N_VARIABLE name) s1); exp_operation OAssign v (Some n) s2 }"
| "build e s = do { (t, d, flags) \<leftarrow> literal e; exp_constant t (Some d) flags s }"

text \<open>
  Over the expressions of a rule, in the order of the text; \<open>f\<close> treats an expression and changes
  the state. A bad word or combination in a modification of the message is an error.
\<close>

fun walk_list :: "('a \<Rightarrow> 's \<Rightarrow> ('b \<times> 's) option) \<Rightarrow> 'a list \<Rightarrow> 's \<Rightarrow> ('b list \<times> 's) option" where
  "walk_list f [] s = Some ([], s)"
| "walk_list f (x # xs) s = do { (y, s1) \<leftarrow> f x s; (ys, s2) \<leftarrow> walk_list f xs s1; Some (y # ys, s2) }"

definition walk_one :: "('b \<Rightarrow> 'c) \<Rightarrow> ('a \<Rightarrow> 's \<Rightarrow> ('b \<times> 's) option) \<Rightarrow> 'a \<Rightarrow> 's \<Rightarrow> ('c \<times> 's) option" where
  "walk_one c f x s = do { (y, s1) \<leftarrow> f x s; Some (c y, s1) }"

fun walk_option :: "('a \<Rightarrow> 's \<Rightarrow> ('b \<times> 's) option) \<Rightarrow> 'a option \<Rightarrow> 's \<Rightarrow> ('b option \<times> 's) option" where
  "walk_option f None s = Some (None, s)"
| "walk_option f (Some x) s = walk_one Some f x s"

definition mod_known :: "msgmod_mod \<Rightarrow> string \<Rightarrow> bool" where
  "mod_known md word = (case msgmod_get_target word of None \<Rightarrow> False | Some t \<Rightarrow> msgmod_get_callback md t \<noteq> None)"

fun walk_terminal :: "('a \<Rightarrow> 's \<Rightarrow> ('b \<times> 's) option) \<Rightarrow> 'a pterminal \<Rightarrow> 's \<Rightarrow> ('b pterminal \<times> 's) option" where
  "walk_terminal f (T_ACTION a) s = Some (T_ACTION a, s)"
| "walk_terminal f (T_GREYLIST cs) s =
     do { (ys, s1) \<leftarrow> walk_list f (map snd cs) s; Some (T_GREYLIST (zip (map fst cs) ys), s1) }"
| "walk_terminal f (T_TARPIT e) s = walk_one T_TARPIT f e s"
| "walk_terminal f (T_LOG e ls) s = do { (y, s1) \<leftarrow> f e s; (ys, s2) \<leftarrow> walk_list f ls s1; Some (T_LOG y ys, s2) }"
| "walk_terminal f (T_SET e) s = walk_one T_SET f e s"
| "walk_terminal f (T_MOD md word es) s =
     do { (ys, s1) \<leftarrow> walk_list f es s; if mod_known md word then Some (T_MOD md word ys, s1) else None }"
| "walk_terminal f (T_JUMP t) s = Some (T_JUMP t, s)"
| "walk_terminal f (T_CALL t) s = Some (T_CALL t, s)"
| "walk_terminal f (T_PIPE e) s = walk_one T_PIPE f e s"

fun walk_reply ::
  "('a \<Rightarrow> 's \<Rightarrow> ('b \<times> 's) option) \<Rightarrow> ('a \<times> 'a option \<times> 'a) option \<Rightarrow> 's \<Rightarrow> (('b \<times> 'b option \<times> 'b) option \<times> 's) option" where
  "walk_reply f None s = Some (None, s)"
| "walk_reply f (Some (code, xcode, msg)) s =
     do {
       (c, s1) \<leftarrow> f code s;
       (x, s2) \<leftarrow> walk_option f xcode s1;
       (m, s3) \<leftarrow> f msg s2;
       Some (Some (c, x, m), s3) }"

definition walk_rule :: "('a \<Rightarrow> 's \<Rightarrow> ('b \<times> 's) option) \<Rightarrow> 'a prule \<Rightarrow> 's \<Rightarrow> ('b prule \<times> 's) option" where
  "walk_rule f r s =
     do {
       (c, s1) \<leftarrow> walk_option f (pr_condition r) s;
       (t, s2) \<leftarrow> walk_terminal f (pr_terminal r) s1;
       (re, s3) \<leftarrow> walk_reply f (pr_reply r) s2;
       Some (Rule c t re (pr_filename r) (pr_line r), s3) }"

datatype acl_stmt = ST_RULE string "sexp prule" | ST_DEFINE string sexp

definition acl_append_at :: "string \<Rightarrow> nat prule \<Rightarrow> acl_state \<Rightarrow> acl_state" where
  "acl_append_at table r s =
     s\<lparr>s_tables := (s_tables s)(table \<mapsto> (case s_tables s table of None \<Rightarrow> [] | Some rules \<Rightarrow> rules) @ [r])\<rparr>"

fun acl_statement :: "acl_stmt \<Rightarrow> acl_state \<Rightarrow> acl_state option" where
  "acl_statement (ST_RULE table r) s = do { (p, s1) \<leftarrow> walk_rule build r s; Some (acl_append_at table p s1) }"
| "acl_statement (ST_DEFINE name e) s = do { (n, s1) \<leftarrow> build e s; exp_define name n s1 }"

fun acl_statements :: "acl_stmt list \<Rightarrow> acl_state \<Rightarrow> acl_state option" where
  "acl_statements [] s = Some s"
| "acl_statements (x # xs) s = do { s1 \<leftarrow> acl_statement x s; acl_statements xs s1 }"

text \<open>\<open>acl_read\<close>: \<open>parse\<close> is the syntax of the file; the default path is fixed when the program is built.\<close>

definition acl_read ::
  "string \<Rightarrow> string option \<Rightarrow> (string \<Rightarrow> nat option) \<Rightarrow> (string \<Rightarrow> acl_stmt list option) \<Rightarrow> acl_state \<Rightarrow> acl_state option" where
  "acl_read defs_mopherd_acl cf_acl_path file_size parse s =
     (let path = (case cf_acl_path of Some p \<Rightarrow> p | None \<Rightarrow> defs_mopherd_acl) in
      parser_run path True file_size
        (\<lambda>p :: unit parser. do { xs \<leftarrow> parse path; s1 \<leftarrow> acl_statements xs s; Some (0, s1) }))"

subsection \<open>What the rules say\<close>

text \<open>
  The actions of rules over trees (\<open>acl.c\<close>, \<open>greylist.c\<close>, \<open>msgmod.c\<close>). Later clauses override earlier
  ones.
\<close>

definition acl_log_create :: "exp \<Rightarrow> acl_log_t" where
  "acl_log_create message = \<lparr>al_message = message, al_level = None\<rparr>"

definition acl_log_level :: "acl_log_t \<Rightarrow> exp \<Rightarrow> acl_log_t" where
  "acl_log_level al level = al\<lparr>al_level := Some level\<rparr>"

definition acl_reply_new :: "exp \<Rightarrow> exp option \<Rightarrow> exp \<Rightarrow> acl_reply" where
  "acl_reply_new code xcode msg = \<lparr>ar_code = Some code, ar_xcode = xcode, ar_message = Some msg\<rparr>"

fun gl_clause_add :: "greylist \<Rightarrow> gl_clause \<times> exp \<Rightarrow> greylist" where
  "gl_clause_add gl (GL_VISA, e) = greylist_visa gl e"
| "gl_clause_add gl (GL_DEADLINE, e) = greylist_deadline gl e"
| "gl_clause_add gl (GL_DELAY, e) = greylist_delay gl e"
| "gl_clause_add gl (GL_ATTEMPTS, e) = greylist_attempts gl e"

fun terminal_data :: "exp pterminal \<Rightarrow> acl_action_type \<times> aa_data" where
  "terminal_data (T_ACTION a) = (a, AD_NULL)"
| "terminal_data (T_GREYLIST cs) = (ACL_GREYLIST, AD_greylist (foldl gl_clause_add greylist_create cs))"
| "terminal_data (T_TARPIT e) = (ACL_TARPIT, AD_exp e)"
| "terminal_data (T_LOG e ls) = (ACL_LOG, AD_log (foldl acl_log_level (acl_log_create e) ls))"
| "terminal_data (T_SET e) = (ACL_SET, AD_exp e)"
| "terminal_data (T_MOD md word es) =
     (ACL_MOD,
      (case msgmod_get_target word of
         None \<Rightarrow> AD_NULL
       | Some t \<Rightarrow> (case msgmod_create md t es of None \<Rightarrow> AD_NULL | Some mm \<Rightarrow> AD_msgmod mm)))"
| "terminal_data (T_JUMP t) = (ACL_JUMP, AD_table t)"
| "terminal_data (T_CALL t) = (ACL_CALL, AD_table t)"
| "terminal_data (T_PIPE e) = (ACL_PIPE, AD_exp e)"

definition rule_action :: "exp prule \<Rightarrow> acl_action" where
  "rule_action r =
     (let (t, d) = terminal_data (pr_terminal r); aa = acl_action_create t d (pr_filename r) (pr_line r) in
      (case pr_reply r of None \<Rightarrow> aa | Some (code, xcode, msg) \<Rightarrow> acl_action_reply aa (acl_reply_new code xcode msg)))"

text \<open>
  The meaning of the statements: the same trees, but a name stands for a copy of its definition.
\<close>

record rules_meaning =
  rm_consts :: "var list"
  rm_defs :: "string \<rightharpoonup> exp"
  rm_symbols :: symbol_table
  rm_rules :: acl_tables

definition symbol_meaning :: "string \<Rightarrow> rules_meaning \<Rightarrow> exp option" where
  "symbol_meaning name m =
     (case rm_defs m name of Some t \<Rightarrow> Some t | None \<Rightarrow> if rm_symbols m name = None then None else Some (EX_SYMBOL name))"

fun is_assignable :: "exp \<Rightarrow> bool" where
  "is_assignable (EX_VARIABLE _) = True"
| "is_assignable _ = False"

definition operation_meaning :: "oper \<Rightarrow> exp \<Rightarrow> exp option \<Rightarrow> exp option" where
  "operation_meaning op a b = (if op = OAssign \<and> \<not> is_assignable a then None else Some (EX_OPERATION op a b))"

definition function_meaning :: "string \<Rightarrow> exp option \<Rightarrow> rules_meaning \<Rightarrow> exp option" where
  "function_meaning name args m =
     (case rm_symbols m name of
        None \<Rightarrow> None
      | Some as \<Rightarrow> (case as_data as of AS_FUNCTION _ \<Rightarrow> Some (EX_FUNCTION name args) | _ \<Rightarrow> None))"

fun meaning :: "sexp \<Rightarrow> rules_meaning \<Rightarrow> (exp \<times> rules_meaning) option" where
  "meaning (S_PARENTHESES e) m = do { (x, m1) \<leftarrow> meaning e m; Some (EX_PARENTHESES x, m1) }"
| "meaning (S_COMMA a b) m = do { (x, m1) \<leftarrow> meaning a m; (y, m2) \<leftarrow> meaning b m1; Some (exp_list x y, m2) }"
| "meaning (S_UNARY op e) m = do { (x, m1) \<leftarrow> meaning e m; t \<leftarrow> operation_meaning op x None; Some (t, m1) }"
| "meaning (S_BINARY op a b) m =
     do { (x, m1) \<leftarrow> meaning a m; (y, m2) \<leftarrow> meaning b m1; t \<leftarrow> operation_meaning op x (Some y); Some (t, m2) }"
| "meaning (S_IS_SET name) m = do { x \<leftarrow> symbol_meaning name m; Some (EX_OPERATION OIsSet x None, m) }"
| "meaning (S_COND c a b) m =
     do { (x, m1) \<leftarrow> meaning c m; (y, m2) \<leftarrow> meaning a m1; (z, m3) \<leftarrow> meaning b m2; Some (EX_TERNARY_COND x y z, m3) }"
| "meaning (S_VARIABLE name) m = Some (EX_VARIABLE name, m)"
| "meaning (S_SYMBOL name) m = do { x \<leftarrow> symbol_meaning name m; Some (x, m) }"
| "meaning (S_CALL name None) m = do { t \<leftarrow> function_meaning name None m; Some (t, m) }"
| "meaning (S_CALL name (Some args)) m =
     do { (x, m1) \<leftarrow> meaning args m; t \<leftarrow> function_meaning name (Some x) m1; Some (t, m1) }"
| "meaning (S_MACRO name) m = Some (EX_MACRO name, m)"
| "meaning (S_SET name e) m = do { (x, m1) \<leftarrow> meaning e m; Some (EX_OPERATION OAssign (EX_VARIABLE name) (Some x), m1) }"
| "meaning e m =
     do {
       (t, d, flags) \<leftarrow> literal e;
       v \<leftarrow> var_create t None (Some d) flags;
       Some (EX_CONSTANT (length (rm_consts m)), m\<lparr>rm_consts := rm_consts m @ [v]\<rparr>) }"

fun statement_meaning :: "acl_stmt \<Rightarrow> rules_meaning \<Rightarrow> rules_meaning option" where
  "statement_meaning (ST_RULE table r) m =
     do {
       (q, m1) \<leftarrow> walk_rule meaning r m;
       Some (m1\<lparr>rm_rules := acl_append (rm_rules m1) table (pr_condition q) (rule_action q)\<rparr>) }"
| "statement_meaning (ST_DEFINE name e) m =
     do {
       (t, m1) \<leftarrow> meaning e m;
       if rm_defs m1 name \<noteq> None then None else Some (m1\<lparr>rm_defs := (rm_defs m1)(name \<mapsto> t)\<rparr>) }"

fun statements_meaning :: "acl_stmt list \<Rightarrow> rules_meaning \<Rightarrow> rules_meaning option" where
  "statements_meaning [] m = Some m"
| "statements_meaning (x # xs) m = do { m1 \<leftarrow> statement_meaning x m; statements_meaning xs m1 }"

text \<open>No comma has a defined list on its left.\<close>

fun commas_ok :: "(string \<rightharpoonup> exp) \<Rightarrow> sexp \<Rightarrow> bool" where
  "commas_ok D (S_PARENTHESES e) = commas_ok D e"
| "commas_ok D (S_COMMA a b) =
     (commas_ok D a \<and> commas_ok D b \<and>
      (case a of S_SYMBOL x \<Rightarrow> (case D x of Some (EX_LIST _) \<Rightarrow> False | _ \<Rightarrow> True) | _ \<Rightarrow> True))"
| "commas_ok D (S_UNARY op e) = commas_ok D e"
| "commas_ok D (S_BINARY op a b) = (commas_ok D a \<and> commas_ok D b)"
| "commas_ok D (S_COND c a b) = (commas_ok D c \<and> commas_ok D a \<and> commas_ok D b)"
| "commas_ok D (S_CALL name (Some args)) = commas_ok D args"
| "commas_ok D (S_SET name e) = commas_ok D e"
| "commas_ok D e = True"

fun statement_ok :: "(string \<rightharpoonup> exp) \<Rightarrow> acl_stmt \<Rightarrow> bool" where
  "statement_ok D (ST_RULE table r) = pred_prule (commas_ok D) r"
| "statement_ok D (ST_DEFINE name e) = commas_ok D e"

fun statements_ok :: "acl_stmt list \<Rightarrow> rules_meaning \<Rightarrow> bool" where
  "statements_ok [] m = True"
| "statements_ok (x # xs) m =
     (statement_ok (rm_defs m) x \<and> (case statement_meaning x m of None \<Rightarrow> True | Some m1 \<Rightarrow> statements_ok xs m1))"

subsection \<open>What a pointer denotes\<close>

text \<open>
  \<open>denotes H R n t\<close>: from node \<open>n\<close> of the store \<open>H\<close> the tree \<open>t\<close> is read, through nodes of \<open>R\<close> only.
\<close>

inductive denotes :: "node list \<Rightarrow> nat set \<Rightarrow> nat \<Rightarrow> exp \<Rightarrow> bool" for H R where
  d_parentheses: "n \<in> R \<Longrightarrow> n < length H \<Longrightarrow> H ! n = N_PARENTHESES a \<Longrightarrow> denotes H R a t \<Longrightarrow> denotes H R n (EX_PARENTHESES t)"
| d_constant: "n \<in> R \<Longrightarrow> n < length H \<Longrightarrow> H ! n = N_CONSTANT i \<Longrightarrow> denotes H R n (EX_CONSTANT i)"
| d_list: "n \<in> R \<Longrightarrow> n < length H \<Longrightarrow> H ! n = N_LIST ps \<Longrightarrow> list_all2 (denotes H R) ps ts \<Longrightarrow> denotes H R n (EX_LIST ts)"
| d_symbol: "n \<in> R \<Longrightarrow> n < length H \<Longrightarrow> H ! n = N_SYMBOL x \<Longrightarrow> denotes H R n (EX_SYMBOL x)"
| d_function0: "n \<in> R \<Longrightarrow> n < length H \<Longrightarrow> H ! n = N_FUNCTION x None \<Longrightarrow> denotes H R n (EX_FUNCTION x None)"
| d_function1: "n \<in> R \<Longrightarrow> n < length H \<Longrightarrow> H ! n = N_FUNCTION x (Some a) \<Longrightarrow> denotes H R a t \<Longrightarrow>
    denotes H R n (EX_FUNCTION x (Some t))"
| d_variable: "n \<in> R \<Longrightarrow> n < length H \<Longrightarrow> H ! n = N_VARIABLE x \<Longrightarrow> denotes H R n (EX_VARIABLE x)"
| d_operation1: "n \<in> R \<Longrightarrow> n < length H \<Longrightarrow> H ! n = N_OPERATION op a None \<Longrightarrow> denotes H R a t \<Longrightarrow>
    denotes H R n (EX_OPERATION op t None)"
| d_operation2: "n \<in> R \<Longrightarrow> n < length H \<Longrightarrow> H ! n = N_OPERATION op a (Some b) \<Longrightarrow> denotes H R a t \<Longrightarrow> denotes H R b u \<Longrightarrow>
    denotes H R n (EX_OPERATION op t (Some u))"
| d_ternary: "n \<in> R \<Longrightarrow> n < length H \<Longrightarrow> H ! n = N_TERNARY_COND c a b \<Longrightarrow> denotes H R c t \<Longrightarrow> denotes H R a u \<Longrightarrow> denotes H R b v \<Longrightarrow>
    denotes H R n (EX_TERNARY_COND t u v)"
| d_macro: "n \<in> R \<Longrightarrow> n < length H \<Longrightarrow> H ! n = N_MACRO x \<Longrightarrow> denotes H R n (EX_MACRO x)"

inductive_cases denotes_node: "denotes H R n t"

lemma denotes_agree:
  assumes "denotes H R n t" and "\<forall>i\<in>R. i < length H \<longrightarrow> i < length H' \<and> H' ! i = H ! i" and "R \<subseteq> R'"
  shows "denotes H' R' n t"
  using assms(1)
proof induction
  case (d_list n ps ts)
  then have "list_all2 (denotes H' R') ps ts" by (auto elim: list_all2_mono)
  then show ?case using d_list assms(2,3) by (auto intro!: denotes.d_list)
qed (use assms(2,3) in \<open>auto intro!: denotes.intros\<close>)

lemma denotes_in: "denotes H R n t \<Longrightarrow> n \<in> R \<and> n < length H"
  by (erule denotes_node) simp_all

lemma denotes_unique: "denotes H R n t \<Longrightarrow> denotes H R' n u \<Longrightarrow> t = u"
proof (induction arbitrary: u rule: denotes.induct)
  case (d_list n ps ts)
  from d_list.prems d_list.hyps obtain us where u: "u = EX_LIST us" "list_all2 (denotes H R') ps us"
    by (auto elim: denotes_node)
  have "ts = us"
    using d_list.IH u(2)
    by (induction ps ts arbitrary: us rule: list_all2_induct) (auto simp: list_all2_Cons1)
  with u show ?case by simp
qed (auto elim: denotes_node)

lemma denotes_list_iff: "denotes H R n t \<Longrightarrow> is_list (H ! n) = (\<exists>ts. t = EX_LIST ts)"
  by (erule denotes_node) auto

lemma denotes_variable_iff: "denotes H R n t \<Longrightarrow> is_variable (H ! n) = is_assignable t"
  by (erule denotes_node) auto

text \<open>A tree is finite, so a node is not reached from below itself.\<close>

lemma denotes_below:
  assumes "denotes H R p t" and "denotes H R n u" and "size t < size u"
  shows "denotes H (R - {n}) p t"
  using assms(1,3)
proof induction
  case (d_list q ps ts)
  have "list_all2 (denotes H R) ps ts" using d_list.IH by (auto elim: list_all2_mono)
  then have "denotes H R q (EX_LIST ts)" using d_list.hyps by (auto intro: denotes.d_list)
  then have "q \<noteq> n" using d_list.prems denotes_unique [OF _ assms(2)] by auto
  moreover have "list_all2 (denotes H (R - {n})) ps ts"
    using d_list.IH
  proof (rule list.rel_mono_strong)
    fix a b
    assume "b \<in> set ts" and *: "denotes H R a b \<and> (size b < size u \<longrightarrow> denotes H (R - {n}) a b)"
    then have "size b < size (EX_LIST ts)" using size_list_estimation' [of b ts "size b" size] by simp
    with * d_list.prems show "denotes H (R - {n}) a b" by simp
  qed
  ultimately show ?case using d_list.hyps by (auto intro!: denotes.d_list)
qed (use assms(2) in \<open>auto intro!: denotes.intros elim: denotes_node dest: denotes_unique\<close>)

subsection \<open>Building an expression\<close>

definition keeps :: "acl_state \<Rightarrow> acl_state \<Rightarrow> bool" where
  "keeps s s' \<longleftrightarrow> length (s_garbage s) \<le> length (s_garbage s') \<and>
     (\<forall>i < length (s_garbage s). s_garbage s' ! i = s_garbage s ! i) \<and>
     s_defs s' = s_defs s \<and> s_symbols s' = s_symbols s \<and> s_tables s' = s_tables s"

text \<open>\<open>reads B s m\<close>: symbols, constants and definitions of \<open>s\<close> are those of \<open>m\<close>; definitions are read from nodes in \<open>B\<close>.\<close>

definition reads :: "nat set \<Rightarrow> acl_state \<Rightarrow> rules_meaning \<Rightarrow> bool" where
  "reads B s m \<longleftrightarrow> B \<subseteq> {..<length (s_garbage s)} \<and> s_consts s = rm_consts m \<and> s_symbols s = rm_symbols m \<and>
     (\<forall>name. rel_option (denotes (s_garbage s) B) (s_defs s name) (rm_defs m name))"

abbreviation new_nodes :: "acl_state \<Rightarrow> acl_state \<Rightarrow> nat set" where
  "new_nodes s s' \<equiv> {length (s_garbage s)..<length (s_garbage s')}"

definition built :: "nat set \<Rightarrow> acl_state \<Rightarrow> rules_meaning \<Rightarrow> nat \<times> acl_state \<Rightarrow> exp \<times> rules_meaning \<Rightarrow> bool" where
  "built B s m = (\<lambda>(n, s') (t, m').
     keeps s s' \<and> reads B s' m' \<and> rm_defs m' = rm_defs m \<and> rm_rules m' = rm_rules m \<and>
     denotes (s_garbage s') (B \<union> new_nodes s s') n t)"

lemma keeps_refl [simp]: "keeps s s"
  by (simp add: keeps_def)

lemma keeps_trans [trans]: "keeps s s1 \<Longrightarrow> keeps s1 s2 \<Longrightarrow> keeps s s2"
  by (fastforce simp: keeps_def)

lemma keeps_create [simp]: "keeps s (snd (exp_create x s))"
  by (simp add: keeps_def exp_create_def nth_append)

lemma denotes_keeps:
  assumes "denotes (s_garbage s) R n t" and "keeps s s'" and "R \<subseteq> R'"
  shows "denotes (s_garbage s') R' n t"
  by (rule denotes_agree [OF assms(1) _ assms(3)]) (use assms(2) in \<open>auto simp: keeps_def\<close>)

lemma reads_keeps:
  assumes "reads B s m" and "keeps s s'" and "s_consts s' = rm_consts m'" and "rm_symbols m' = rm_symbols m" and "rm_defs m' = rm_defs m"
  shows "reads B s' m'"
proof -
  have "B \<subseteq> {..<length (s_garbage s')}" using assms(1,2) by (auto simp: reads_def keeps_def)
  moreover have "rel_option (denotes (s_garbage s') B) (s_defs s' name) (rm_defs m' name)" for name
  proof -
    have "rel_option (denotes (s_garbage s) B) (s_defs s name) (rm_defs m name)" using assms(1) by (simp add: reads_def)
    then have "rel_option (denotes (s_garbage s') B) (s_defs s name) (rm_defs m name)"
      by (rule option.rel_mono_strong) (blast intro: denotes_keeps [OF _ assms(2)])
    with assms(2,5) show ?thesis by (simp add: keeps_def)
  qed
  ultimately show ?thesis using assms by (simp add: reads_def keeps_def)
qed

text \<open>A new node over what has been built.\<close>

lemma built_create:
  assumes "keeps s s1" and "reads B s1 m1" and "rm_defs m1 = rm_defs m" and "rm_rules m1 = rm_rules m"
    and "denotes (s_garbage s1 @ [x]) (B \<union> {length (s_garbage s)..length (s_garbage s1)}) (length (s_garbage s1)) t"
  shows "built B s m (exp_create x s1) (t, m1)"
proof -
  have k: "keeps s1 (snd (exp_create x s1))" by simp
  have "reads B (snd (exp_create x s1)) m1"
    by (rule reads_keeps [OF assms(2) k]) (use assms(2) in \<open>simp_all add: reads_def exp_create_def\<close>)
  with keeps_trans [OF assms(1) k] assms(3-5) show ?thesis
    by (simp add: built_def exp_create_def atLeastLessThanSuc_atLeastAtMost)
qed

text \<open>What was built before, seen below a new node.\<close>

lemma denotes_under:
  assumes "denotes (s_garbage s1) (B \<union> new_nodes s0 s1) n t" and "keeps s0 s1" and "keeps s s0" and "keeps s1 s2"
  shows "denotes (s_garbage s2 @ xs) (B \<union> {length (s_garbage s)..length (s_garbage s2)}) n t"
  by (rule denotes_agree [OF assms(1)]) (use assms(2-4) in \<open>auto simp: keeps_def nth_append\<close>)

lemma denotes_later:
  assumes "denotes (s_garbage s1) (B \<union> new_nodes s0 s1) n t" and "keeps s0 s1" and "keeps s s0" and "keeps s1 s2"
  shows "denotes (s_garbage s2) (B \<union> new_nodes s s2) n t"
  by (rule denotes_agree [OF assms(1)]) (use assms(2-4) in \<open>auto simp: keeps_def\<close>)

text \<open>An element that is read without the list can be appended to it.\<close>

lemma denotes_extend:
  assumes d: "denotes H R n (EX_LIST ts)" and ps: "H ! n = N_LIST ps" and k: "denotes H R2 k u" and n: "n \<notin> R2"
    and R: "R \<union> R2 \<subseteq> R'"
  shows "denotes (H[n := N_LIST (ps @ [k])]) R' n (EX_LIST (ts @ [u]))"
proof -
  let ?H = "H[n := N_LIST (ps @ [k])]"
  from d ps have ts: "list_all2 (denotes H R) ps ts" by (auto elim: denotes_node)
  have old: "denotes ?H R' p x" if "p \<in> set ps" "x \<in> set ts" "denotes H R p x" for p x
  proof -
    have "size x < size (EX_LIST ts)" using that(2) size_list_estimation' [of x ts "size x" size] by simp
    from denotes_below [OF that(3) d this] show ?thesis by (rule denotes_agree) (use R in auto)
  qed
  have "denotes ?H R' k u" by (rule denotes_agree [OF k]) (use n R in \<open>auto intro!: nth_list_update_neq\<close>)
  with list.rel_mono_strong [OF ts old] have "list_all2 (denotes ?H R') (ps @ [k]) (ts @ [u])" by (simp add: list_all2_appendI)
  then show ?thesis using denotes_in [OF d] R by (intro denotes.d_list) auto
qed

text \<open>The comma: a list that was built by this expression is extended, and nothing else sees it.\<close>

lemma built_list:
  assumes a: "built B s m (n, s1) (t, m1)" and b: "built B s1 m1 (k, s2) (u, m2)"
    and own: "is_list (s_garbage s1 ! n) \<Longrightarrow> length (s_garbage s) \<le> n"
    and B: "B \<subseteq> {..<length (s_garbage s)}"
  shows "built B s m (exp_list_at n k s2) (exp_list t u, m2) \<and> length (s_garbage s) \<le> fst (exp_list_at n k s2)"
proof -
  let ?R1 = "B \<union> new_nodes s s1" and ?R2 = "B \<union> new_nodes s1 s2"
  have k1: "keeps s s1" and k2: "keeps s1 s2" and r2: "reads B s2 m2" and d1: "denotes (s_garbage s1) ?R1 n t"
    and d2: "denotes (s_garbage s2) ?R2 k u" and m2: "rm_defs m2 = rm_defs m" "rm_rules m2 = rm_rules m"
    using a b by (auto simp: built_def)
  have ks: "keeps s s2" by (rule keeps_trans [OF k1 k2])
  have n: "n < length (s_garbage s1)" "n \<in> ?R1" using denotes_in [OF d1] by auto
  have same: "s_garbage s2 ! n = s_garbage s1 ! n" and len: "length (s_garbage s) \<le> length (s_garbage s2)"
    using k2 ks n by (auto simp: keeps_def)
  show ?thesis
  proof (cases "is_list (s_garbage s1 ! n)")
    case False
    then have "exp_list_at n k s2 = exp_create (N_LIST [n, k]) s2" by (cases "s_garbage s1 ! n") (simp_all add: exp_list_at_def same)
    moreover have "exp_list t u = EX_LIST [t, u]"
      using False denotes_list_iff [OF d1] by (cases t) (simp_all add: exp_list_def)
    moreover have "built B s m (exp_create (N_LIST [n, k]) s2) (EX_LIST [t, u], m2)"
      using denotes_under [OF d1 k1 keeps_refl k2] denotes_under [OF d2 k2 k1 keeps_refl] len
      by (intro built_create [OF ks r2 m2] denotes.d_list [of _ _ _ "[n, k]"]) simp_all
    ultimately show ?thesis using len by (simp add: exp_create_def)
  next
    case True
    then obtain ps where ps: "s_garbage s1 ! n = N_LIST ps" by (cases "s_garbage s1 ! n") simp_all
    with d1 obtain ts where t: "t = EX_LIST ts" "list_all2 (denotes (s_garbage s1) ?R1) ps ts" by (auto elim: denotes_node)
    let ?H = "(s_garbage s2)[n := N_LIST (ps @ [k])]"
    let ?s = "s2\<lparr>s_garbage := ?H\<rparr>"
    let ?R = "B \<union> new_nodes s ?s"
    have own_n: "length (s_garbage s) \<le> n" by (rule own) fact
    have e: "exp_list_at n k s2 = (n, ?s)" by (simp add: exp_list_at_def same ps)
    have "denotes ?H ?R n (EX_LIST (ts @ [u]))"
    proof (rule denotes_extend)
      show "denotes (s_garbage s2) ?R1 n (EX_LIST ts)" using denotes_keeps [OF d1 k2 subset_refl] t(1) by simp
      show "s_garbage s2 ! n = N_LIST ps" using same ps by simp
      show "denotes (s_garbage s2) ?R2 k u" by fact
      show "n \<notin> ?R2" using n(1) B own_n by auto
      show "?R1 \<union> ?R2 \<subseteq> ?R" using k1 k2 by (auto simp: keeps_def)
    qed
    moreover have "keeps s ?s" using ks own_n by (auto simp: keeps_def)
    moreover have "reads B ?s m2"
    proof -
      have "rel_option (denotes ?H B) (s_defs s2 name) (rm_defs m2 name)" for name
      proof -
        have "rel_option (denotes (s_garbage s2) B) (s_defs s2 name) (rm_defs m2 name)" using r2 by (simp add: reads_def)
        then show ?thesis
          by (rule option.rel_mono_strong) (erule denotes_agree, use B own_n in auto)
      qed
      with r2 show ?thesis by (simp add: reads_def)
    qed
    ultimately show ?thesis using m2 own_n by (simp add: e t(1) exp_list_def built_def)
  qed
qed

lemma rel_option_bind:
  assumes "rel_option P x y" and "\<And>a b. P a b \<Longrightarrow> rel_option Q (f a) (g b)"
  shows "rel_option Q (Option.bind x f) (Option.bind y g)"
  using assms by (cases x; cases y) auto

definition built_own :: "nat set \<Rightarrow> acl_state \<Rightarrow> rules_meaning \<Rightarrow> sexp \<Rightarrow> nat \<times> acl_state \<Rightarrow> exp \<times> rules_meaning \<Rightarrow> bool" where
  "built_own B s m e r q \<longleftrightarrow> built B s m r q \<and>
     (is_list (s_garbage (snd r) ! fst r) \<longrightarrow> length (s_garbage s) \<le> fst r \<or> (\<exists>x. e = S_SYMBOL x \<and> rm_defs m x = Some (fst q)))"

text \<open>The next step starts from what has been built.\<close>

lemma built_then:
  assumes "rel_option (built_own B s m e) r q"
    and "\<And>n s1 t m1. built_own B s m e (n, s1) (t, m1) \<Longrightarrow> keeps s s1 \<Longrightarrow> reads B s1 m1 \<Longrightarrow> rm_defs m1 = rm_defs m \<Longrightarrow>
      rm_rules m1 = rm_rules m \<Longrightarrow> denotes (s_garbage s1) (B \<union> new_nodes s s1) n t \<Longrightarrow> rel_option Q (f n s1) (g t m1)"
  shows "rel_option Q (do { (n, s1) \<leftarrow> r; f n s1 }) (do { (t, m1) \<leftarrow> q; g t m1 })"
  by (rule rel_option_bind [OF assms(1)]) (auto simp: built_own_def built_def intro!: assms(2))

lemma built_own_create:
  assumes "keeps s s1" and "reads B s1 m1" and "rm_defs m1 = rm_defs m" and "rm_rules m1 = rm_rules m"
    and "denotes (s_garbage s1 @ [x]) (B \<union> {length (s_garbage s)..length (s_garbage s1)}) (length (s_garbage s1)) t"
  shows "built_own B s m e (exp_create x s1) (t, m1)"
  using built_create [OF assms] assms(1) by (simp add: built_own_def exp_create_def keeps_def)

text \<open>A symbol: the definition, shared, or a new node.\<close>

lemma built_symbol:
  assumes "reads B s m"
  shows "rel_option (built_own B s m (S_SYMBOL x)) (exp_symbol x s) (do { t \<leftarrow> symbol_meaning x m; Some (t, m) })"
proof (cases "s_defs s x")
  case None
  with assms have "rm_defs m x = None" by (metis reads_def rel_option_None1)
  with None assms show ?thesis
    by (auto simp: exp_symbol_def symbol_meaning_def reads_def intro!: built_own_create [OF keeps_refl assms refl refl] denotes.d_symbol)
next
  case (Some n)
  with assms obtain t where "rm_defs m x = Some t" "denotes (s_garbage s) B n t" by (metis reads_def option_rel_Some1)
  with Some assms show ?thesis by (simp add: exp_symbol_def symbol_meaning_def built_own_def built_def)
qed

lemma built_operation:
  assumes "keeps s s1" and "reads B s1 m1" and "rm_defs m1 = rm_defs m" and "rm_rules m1 = rm_rules m"
    and "denotes (s_garbage s1) R n t"
    and "denotes (s_garbage s1 @ [N_OPERATION op n b]) (B \<union> {length (s_garbage s)..length (s_garbage s1)}) (length (s_garbage s1))
      (EX_OPERATION op t u)"
  shows "rel_option (built_own B s m e) (exp_operation op n b s1) (do { x \<leftarrow> operation_meaning op t u; Some (x, m1) })"
  using built_own_create [OF assms(1-4,6)] denotes_variable_iff [OF assms(5)]
  by (simp add: exp_operation_def operation_meaning_def)

lemma built_function:
  assumes "keeps s s1" and "reads B s1 m1" and "rm_defs m1 = rm_defs m" and "rm_rules m1 = rm_rules m"
    and "denotes (s_garbage s1 @ [N_FUNCTION x a]) (B \<union> {length (s_garbage s)..length (s_garbage s1)}) (length (s_garbage s1)) (EX_FUNCTION x u)"
  shows "rel_option (built_own B s m e) (exp_function x a s1) (do { t \<leftarrow> function_meaning x u m1; Some (t, m1) })"
  using built_own_create [OF assms] assms(2)
  by (auto simp: exp_function_def function_meaning_def reads_def split: option.split acl_symbol_data.split)

lemma built_literal:
  assumes "reads B s m"
  shows "rel_option (built_own B s m e) (do { (t, d, flags) \<leftarrow> literal l; exp_constant t (Some d) flags s })
    (do { (t, d, flags) \<leftarrow> literal l;
          v \<leftarrow> var_create t None (Some d) flags;
          Some (EX_CONSTANT (length (rm_consts m)), m\<lparr>rm_consts := rm_consts m @ [v]\<rparr>) })"
proof -
  have "built_own B s m e (exp_create (N_CONSTANT (length (rm_consts m))) (s\<lparr>s_consts := rm_consts m @ [v]\<rparr>))
    (EX_CONSTANT (length (rm_consts m)), m\<lparr>rm_consts := rm_consts m @ [v]\<rparr>)" for v
  proof -
    have "keeps s (s\<lparr>s_consts := rm_consts m @ [v]\<rparr>)" by (simp add: keeps_def)
    moreover from this have "reads B (s\<lparr>s_consts := rm_consts m @ [v]\<rparr>) (m\<lparr>rm_consts := rm_consts m @ [v]\<rparr>)"
      by (rule reads_keeps [OF assms]) simp_all
    ultimately show ?thesis by (rule built_own_create) (auto intro!: denotes.d_constant)
  qed
  with assms show ?thesis by (auto simp: exp_constant_def reads_def split: Option.bind_split)
qed

text \<open>The parts of a new node, seen from it.\<close>

lemma denotes_part:
  assumes "denotes (s_garbage s1) (B \<union> new_nodes s s1) n t" and "keeps s s1"
  shows "denotes (s_garbage s1 @ [x]) (B \<union> {length (s_garbage s)..length (s_garbage s1)}) n t"
  by (rule denotes_under [OF assms keeps_refl keeps_refl])

lemma keeps_length: "keeps s s1 \<Longrightarrow> length (s_garbage s) \<le> length (s_garbage s1)"
  by (simp add: keeps_def)

lemma built_comma:
  assumes a: "built_own B s m e1 (n, s1) (t, m1)" and r: "reads B s m" and ok: "commas_ok (rm_defs m) (S_COMMA e1 e2)"
    and b: "built_own B s1 m1 e2 (k, s2) (u, m2)"
  shows "built_own B s m e (exp_list_at n k s2) (exp_list t u, m2)"
proof -
  have "length (s_garbage s) \<le> n" if l: "is_list (s_garbage s1 ! n)"
  proof (rule ccontr)
    assume "\<not> length (s_garbage s) \<le> n"
    with a l obtain x where "e1 = S_SYMBOL x" "rm_defs m x = Some t" by (auto simp: built_own_def)
    moreover have "denotes (s_garbage s1) (B \<union> new_nodes s s1) n t" using a by (simp add: built_own_def built_def)
    ultimately show False using ok l denotes_list_iff by fastforce
  qed
  with built_list [of B s m n s1 t m1 k s2 u m2] a b r show ?thesis by (simp add: built_own_def reads_def)
qed

lemma built_binary:
  assumes "built_own B s m e1 (n, s1) (t, m1)" and "built_own B s1 m1 e2 (k, s2) (u, m2)"
  shows "rel_option (built_own B s m e) (exp_operation op n (Some k) s2) (do { x \<leftarrow> operation_meaning op t (Some u); Some (x, m2) })"
proof -
  have a: "keeps s s1" "denotes (s_garbage s1) (B \<union> new_nodes s s1) n t"
    and b: "keeps s1 s2" "reads B s2 m2" "rm_defs m2 = rm_defs m" "rm_rules m2 = rm_rules m"
      "denotes (s_garbage s2) (B \<union> new_nodes s1 s2) k u"
    using assms by (auto simp: built_own_def built_def)
  have k: "keeps s s2" by (rule keeps_trans [OF a(1) b(1)])
  show ?thesis
    by (rule built_operation [OF k b(2-4) denotes_keeps [OF a(2) b(1) subset_refl]], rule denotes.d_operation2)
      (auto intro: keeps_length [OF k] denotes_under [OF a(2,1) keeps_refl b(1)] denotes_under [OF b(5,1) a(1) keeps_refl])
qed

lemma built_cond:
  assumes "built_own B s m c (n, s1) (t, m1)" and "built_own B s1 m1 e1 (k, s2) (u, m2)" and "built_own B s2 m2 e2 (l, s3) (v, m3)"
  shows "built_own B s m e (exp_ternary_cond n k l s3) (EX_TERNARY_COND t u v, m3)"
proof -
  have a: "keeps s s1" "denotes (s_garbage s1) (B \<union> new_nodes s s1) n t"
    and b: "keeps s1 s2" "denotes (s_garbage s2) (B \<union> new_nodes s1 s2) k u"
    and c: "keeps s2 s3" "reads B s3 m3" "rm_defs m3 = rm_defs m" "rm_rules m3 = rm_rules m"
      "denotes (s_garbage s3) (B \<union> new_nodes s2 s3) l v"
    using assms by (auto simp: built_own_def built_def)
  have ab: "keeps s s2" and bc: "keeps s1 s3" by (rule keeps_trans [OF a(1) b(1)], rule keeps_trans [OF b(1) c(1)])
  have k: "keeps s s3" by (rule keeps_trans [OF ab c(1)])
  show ?thesis
    unfolding exp_ternary_cond_def
    by (rule built_own_create [OF k c(2-4)], rule denotes.d_ternary)
      (auto intro: keeps_length [OF k] denotes_under [OF a(2,1) keeps_refl bc] denotes_under [OF b(2,1) a(1) c(1)]
        denotes_under [OF c(5,1) ab keeps_refl])
qed

text \<open>A \<open>SET\<close> creates its variable last.\<close>

lemma built_set:
  assumes "built_own B s m e1 (n, s1) (t, m1)"
  shows "rel_option (built_own B s m e) (do { (v, s2) \<leftarrow> Some (exp_create (N_VARIABLE x) s1); exp_operation OAssign v (Some n) s2 })
    (Some (EX_OPERATION OAssign (EX_VARIABLE x) (Some t), m1))"
proof -
  let ?s2 = "snd (exp_create (N_VARIABLE x) s1)"
  have a: "keeps s s1" "reads B s1 m1" "rm_defs m1 = rm_defs m" "rm_rules m1 = rm_rules m" using assms by (auto simp: built_own_def built_def)
  have "built_own B s1 m1 (S_VARIABLE x) (exp_create (N_VARIABLE x) s1) (EX_VARIABLE x, m1)"
    by (rule built_own_create [OF keeps_refl a(2) refl refl], rule denotes.d_variable) simp_all
  then have v: "keeps s1 ?s2" "reads B ?s2 m1" "denotes (s_garbage ?s2) (B \<union> new_nodes s1 ?s2) (length (s_garbage s1)) (EX_VARIABLE x)"
    by (simp_all add: built_own_def built_def exp_create_def)
  have d: "denotes (s_garbage s1) (B \<union> new_nodes s s1) n t" using assms by (simp add: built_own_def built_def)
  have k: "keeps s ?s2" by (rule keeps_trans [OF a(1) v(1)])
  have "rel_option (built_own B s m e) (exp_operation OAssign (length (s_garbage s1)) (Some n) ?s2)
    (do { y \<leftarrow> operation_meaning OAssign (EX_VARIABLE x) (Some t); Some (y, m1) })"
    by (rule built_operation [OF k v(2) a(3,4) v(3)], rule denotes.d_operation2)
      (auto intro: keeps_length [OF k] denotes_under [OF v(3,1) a(1) keeps_refl] denotes_under [OF d a(1) keeps_refl v(1)])
  then show ?thesis by (simp add: operation_meaning_def exp_create_def)
qed

lemma built_isset:
  assumes "reads B s m"
  shows "rel_option (built_own B s m e) (do { (n, s1) \<leftarrow> exp_symbol x s; exp_operation OIsSet n None s1 })
    (do { y \<leftarrow> symbol_meaning x m; Some (EX_OPERATION OIsSet y None, m) })"
proof -
  have "rel_option (built_own B s m e) (do { (n, s1) \<leftarrow> exp_symbol x s; exp_operation OIsSet n None s1 })
    (do { (y, m1) \<leftarrow> do { t \<leftarrow> symbol_meaning x m; Some (t, m) }; z \<leftarrow> operation_meaning OIsSet y None; Some (z, m1) })"
    by (rule built_then [OF built_symbol [OF assms]])
      (auto intro!: built_operation denotes.d_operation1 intro: denotes_part keeps_length)
  then show ?thesis by (cases "symbol_meaning x m") (simp_all add: operation_meaning_def)
qed

lemma build_meaning:
  "reads B s m \<Longrightarrow> commas_ok (rm_defs m) e \<Longrightarrow> rel_option (built_own B s m e) (build e s) (meaning e m)"
proof (induction e arbitrary: s m)
  case (S_PARENTHESES e)
  show ?case
    unfolding build.simps meaning.simps exp_parentheses_def
    by (rule built_then [OF S_PARENTHESES.IH [OF S_PARENTHESES.prems(1)]])
      (use S_PARENTHESES.prems in \<open>auto intro!: built_own_create denotes.d_parentheses intro: denotes_part keeps_length\<close>)
next
  case (S_COMMA e1 e2)
  show ?case
    unfolding build.simps meaning.simps
    by (rule built_then [OF S_COMMA.IH(1) [OF S_COMMA.prems(1)]], use S_COMMA.prems in simp,
        rule built_then [OF S_COMMA.IH(2)], assumption, use S_COMMA.prems in \<open>simp del: commas_ok.simps(2)\<close>)
      (auto intro: built_comma [OF _ S_COMMA.prems])
next
  case (S_UNARY op e)
  show ?case
    unfolding build.simps meaning.simps
    by (rule built_then [OF S_UNARY.IH [OF S_UNARY.prems(1)]])
      (use S_UNARY.prems in \<open>auto intro!: built_operation denotes.d_operation1 intro: denotes_part keeps_length\<close>)
next
  case (S_BINARY op e1 e2)
  show ?case
    unfolding build.simps meaning.simps
    by (rule built_then [OF S_BINARY.IH(1) [OF S_BINARY.prems(1)]], use S_BINARY.prems in simp,
        rule built_then [OF S_BINARY.IH(2)], assumption, use S_BINARY.prems in simp)
      (rule built_binary)
next
  case (S_IS_SET x)
  show ?case using built_isset [OF S_IS_SET.prems(1)] by simp
next
  case (S_COND c e1 e2)
  show ?case
    unfolding build.simps meaning.simps
    by (rule built_then [OF S_COND.IH(1) [OF S_COND.prems(1)]], use S_COND.prems in simp,
        rule built_then [OF S_COND.IH(2)], assumption, use S_COND.prems in simp,
        rule built_then [OF S_COND.IH(3)], assumption, use S_COND.prems in simp)
      (auto intro: built_cond)
next
  case (S_CALL x args)
  show ?case
  proof (cases args)
    case None
    then show ?thesis
      using S_CALL.prems(1)
      by (auto intro!: built_function [OF keeps_refl S_CALL.prems(1) refl refl] denotes.d_function0)
  next
    case (Some e)
    show ?thesis
      unfolding Some build.simps meaning.simps
      by (rule built_then [OF S_CALL.IH [OF _ S_CALL.prems(1)]])
        (use Some S_CALL.prems in \<open>auto intro!: built_function denotes.d_function1 intro: denotes_part keeps_length\<close>)
  qed
next
  case (S_SYMBOL x)
  show ?case using built_symbol [OF S_SYMBOL.prems(1), of x] by simp
next
  case (S_SET x e)
  show ?case
    unfolding build.simps meaning.simps
    by (rule built_then [OF S_SET.IH [OF S_SET.prems(1)]], use S_SET.prems in simp) (rule built_set)
qed (auto simp del: literal.simps intro!: built_literal built_own_create [OF keeps_refl _ refl refl] denotes.intros)

subsection \<open>Reading statements\<close>

text \<open>
  Two ways to treat the expressions of a rule, \<open>f\<close> and \<open>g\<close>, with related states: \<open>means s\<close> relates
  their results in the state \<open>s\<close>, and later states keep it.
\<close>

locale expression_walk =
  fixes f :: "'a \<Rightarrow> 's \<Rightarrow> ('b \<times> 's) option"
    and g :: "'a \<Rightarrow> 'm \<Rightarrow> ('c \<times> 'm) option"
    and sim :: "'s \<Rightarrow> 'm \<Rightarrow> bool"
    and later :: "'s \<Rightarrow> 's \<Rightarrow> bool"
    and means :: "'s \<Rightarrow> 'b \<Rightarrow> 'c \<Rightarrow> bool"
    and ok :: "'a \<Rightarrow> bool"
  assumes later_refl: "later s s"
    and later_trans: "later s s1 \<Longrightarrow> later s1 s2 \<Longrightarrow> later s s2"
    and means_later: "means s b c \<Longrightarrow> later s s1 \<Longrightarrow> means s1 b c"
    and step: "sim s m \<Longrightarrow> ok e \<Longrightarrow>
      rel_option (\<lambda>(b, s1) (c, m1). sim s1 m1 \<and> later s s1 \<and> means s1 b c) (f e s) (g e m)"
begin

definition walked :: "('s \<Rightarrow> 'x \<Rightarrow> 'y \<Rightarrow> bool) \<Rightarrow> 's \<Rightarrow> 'x \<times> 's \<Rightarrow> 'y \<times> 'm \<Rightarrow> bool" where
  "walked R s = (\<lambda>(x, s1) (y, m1). sim s1 m1 \<and> later s s1 \<and> R s1 x y)"

lemma walked_then:
  assumes "rel_option (walked P s) r q"
    and "\<And>x y s1 m1. sim s1 m1 \<Longrightarrow> later s s1 \<Longrightarrow> P s1 x y \<Longrightarrow> rel_option (walked Q s1) (h x s1) (k y m1)"
  shows "rel_option (walked Q s) (do { (x, s1) \<leftarrow> r; h x s1 }) (do { (y, m1) \<leftarrow> q; k y m1 })"
proof (rule rel_option_bind [OF assms(1)], clarify)
  fix x s1 y m1
  assume "walked P s (x, s1) (y, m1)"
  then have 1: "sim s1 m1" "later s s1" "P s1 x y" by (auto simp: walked_def)
  show "rel_option (walked Q s) (h x s1) (k y m1)"
    by (rule option.rel_mono_strong [OF assms(2) [OF 1]]) (auto simp: walked_def intro: later_trans [OF 1(2)])
qed

lemma walked_step: "sim s m \<Longrightarrow> ok e \<Longrightarrow> rel_option (walked means s) (f e s) (g e m)"
  unfolding walked_def by (rule step)

lemma walked_done: "sim s m \<Longrightarrow> R s x y \<Longrightarrow> walked R s (x, s) (y, m)"
  by (simp add: walked_def later_refl)

lemma walked_one:
  assumes "sim s m" and "ok e" and "\<And>s1 x y. means s1 x y \<Longrightarrow> R s1 (c x) (d y)"
  shows "rel_option (walked R s) (walk_one c f e s) (walk_one d g e m)"
  unfolding walk_one_def by (rule walked_then [OF walked_step [OF assms(1,2)]]) (auto intro!: walked_done assms(3))

lemma list_later: "list_all2 (means s) xs ys \<Longrightarrow> later s s1 \<Longrightarrow> list_all2 (means s1) xs ys"
  by (erule list_all2_mono) (rule means_later)

lemma option_later: "rel_option (means s) x y \<Longrightarrow> later s s1 \<Longrightarrow> rel_option (means s1) x y"
  by (erule option.rel_mono_strong) (rule means_later)

lemma terminal_later: "rel_pterminal (means s) x y \<Longrightarrow> later s s1 \<Longrightarrow> rel_pterminal (means s1) x y"
  by (erule pterminal.rel_mono_strong) (rule means_later)

lemma rule_later: "rel_prule (means s) x y \<Longrightarrow> later s s1 \<Longrightarrow> rel_prule (means s1) x y"
  by (erule prule.rel_mono_strong) (rule means_later)

lemma walked_list:
  "sim s m \<Longrightarrow> list_all ok es \<Longrightarrow> rel_option (walked (\<lambda>s. list_all2 (means s)) s) (walk_list f es s) (walk_list g es m)"
proof (induction es arbitrary: s m)
  case Nil
  then show ?case by (simp add: walked_done)
next
  case (Cons e es)
  from Cons.prems have ok: "ok e" "list_all ok es" by simp_all
  show ?case
    unfolding walk_list.simps
    by (rule walked_then [OF walked_step [OF Cons.prems(1) ok(1)]], rule walked_then [OF Cons.IH [OF _ ok(2)]])
      (auto intro!: walked_done intro: means_later)
qed

lemma walked_option:
  "sim s m \<Longrightarrow> pred_option ok e \<Longrightarrow> rel_option (walked (\<lambda>s. rel_option (means s)) s) (walk_option f e s) (walk_option g e m)"
  by (cases e) (auto intro!: walked_done walked_one)

lemma walked_terminal:
  assumes "sim s m" and "pred_pterminal ok t"
  shows "rel_option (walked (\<lambda>s. rel_pterminal (means s)) s) (walk_terminal f t s) (walk_terminal g t m)"
proof (cases t)
  case (T_GREYLIST cs)
  with assms(2) have ok: "list_all ok (map snd cs)" by (auto simp: list_all_iff pred_prod_beta)
  show ?thesis
    unfolding T_GREYLIST walk_terminal.simps
    by (rule walked_then [OF walked_list [OF assms(1) ok]])
      (auto intro!: walked_done simp: list_all2_conv_all_nth rel_prod_conv)
next
  case (T_LOG e es)
  with assms(2) have ok: "ok e" "list_all ok es" by simp_all
  show ?thesis
    unfolding T_LOG walk_terminal.simps
    by (rule walked_then [OF walked_step [OF assms(1) ok(1)]], rule walked_then [OF walked_list [OF _ ok(2)]])
      (auto intro!: walked_done intro: means_later)
next
  case (T_MOD md word es)
  with assms(2) have ok: "list_all ok es" by simp
  show ?thesis
    unfolding T_MOD walk_terminal.simps
    by (rule walked_then [OF walked_list [OF assms(1) ok]]) (auto intro!: walked_done)
qed (use assms in \<open>auto intro!: walked_done walked_one\<close>)

lemma walked_reply:
  assumes "sim s m" and "pred_option (pred_prod ok (pred_prod (pred_option ok) ok)) r"
  shows "rel_option (walked (\<lambda>s. rel_option (rel_prod (means s) (rel_prod (rel_option (means s)) (means s)))) s) (walk_reply f r s) (walk_reply g r m)"
proof (cases r)
  case None
  with assms(1) show ?thesis by (simp add: walked_done)
next
  case (Some y)
  obtain c x msg where y: "y = (c, x, msg)" by (cases y)
  with assms(2) Some have ok: "ok c" "pred_option ok x" "ok msg" by simp_all
  show ?thesis
    unfolding Some y walk_reply.simps
    by (rule walked_then [OF walked_step [OF assms(1) ok(1)]], rule walked_then [OF walked_option [OF _ ok(2)]],
        assumption, rule walked_then [OF walked_step [OF _ ok(3)]])
      (auto intro!: walked_done elim!: means_later option_later intro: later_trans later_refl)
qed

lemma walked_rule:
  assumes "sim s m" and "pred_prule ok r"
  shows "rel_option (walked (\<lambda>s. rel_prule (means s)) s) (walk_rule f r s) (walk_rule g r m)"
proof -
  have ok: "pred_option ok (pr_condition r)" "pred_pterminal ok (pr_terminal r)"
    "pred_option (pred_prod ok (pred_prod (pred_option ok) ok)) (pr_reply r)"
    using assms(2) by (cases r; simp)+
  show ?thesis
    unfolding walk_rule_def
    by (rule walked_then [OF walked_option [OF assms(1) ok(1)]], rule walked_then [OF walked_terminal [OF _ ok(2)]],
        assumption, rule walked_then [OF walked_reply [OF _ ok(3)]])
      (auto intro!: walked_done elim!: option_later terminal_later intro: later_trans later_refl)
qed

end

text \<open>Building and meaning are two such ways, between definitions.\<close>

definition store_means :: "acl_state \<Rightarrow> nat \<Rightarrow> exp \<Rightarrow> bool" where
  "store_means s = denotes (s_garbage s) {..<length (s_garbage s)}"

definition agrees :: "(string \<rightharpoonup> exp) \<Rightarrow> acl_tables \<Rightarrow> acl_state \<Rightarrow> rules_meaning \<Rightarrow> bool" where
  "agrees D rules s m \<longleftrightarrow> reads {..<length (s_garbage s)} s m \<and> rm_defs m = D \<and> rm_rules m = rules"

lemma store_means_keeps: "store_means s n t \<Longrightarrow> keeps s s1 \<Longrightarrow> store_means s1 n t"
  unfolding store_means_def by (erule denotes_keeps) (auto simp: keeps_def)

lemma reads_mono:
  assumes "reads B s m" and "B \<subseteq> B'" and "B' \<subseteq> {..<length (s_garbage s)}"
  shows "reads B' s m"
proof -
  have "rel_option (denotes (s_garbage s) B') (s_defs s name) (rm_defs m name)" for name
  proof -
    have "rel_option (denotes (s_garbage s) B) (s_defs s name) (rm_defs m name)" using assms(1) by (simp add: reads_def)
    then show ?thesis by (rule option.rel_mono_strong) (erule denotes_agree [OF _ _ assms(2)], simp)
  qed
  with assms show ?thesis by (simp add: reads_def)
qed

interpretation rules: expression_walk build meaning "agrees D rules" keeps store_means "commas_ok D" for D rules
proof unfold_locales
  fix s m e
  assume a: "agrees D rules s m" and ok: "commas_ok D e"
  have "rel_option (built_own {..<length (s_garbage s)} s m e) (build e s) (meaning e m)"
    by (rule build_meaning) (use a ok in \<open>auto simp: agrees_def\<close>)
  then show "rel_option (\<lambda>(n, s1) (t, m1). agrees D rules s1 m1 \<and> keeps s s1 \<and> store_means s1 n t) (build e s) (meaning e m)"
  proof (rule option.rel_mono_strong, clarify)
    fix n s1 t m1
    assume "built_own {..<length (s_garbage s)} s m e (n, s1) (t, m1)"
    then have k: "keeps s s1" and r: "reads {..<length (s_garbage s)} s1 m1" and m1: "rm_defs m1 = D" "rm_rules m1 = rules"
      and d: "denotes (s_garbage s1) ({..<length (s_garbage s)} \<union> new_nodes s s1) n t"
      using a by (auto simp: built_own_def built_def agrees_def)
    have "{..<length (s_garbage s)} \<union> new_nodes s s1 = {..<length (s_garbage s1)}" using keeps_length [OF k] by auto
    with d k m1 reads_mono [OF r] keeps_length [OF k]
    show "agrees D rules s1 m1 \<and> keeps s s1 \<and> store_means s1 n t" by (simp add: agrees_def store_means_def)
  qed
qed (auto intro: keeps_trans store_means_keeps)

text \<open>
  \<open>implements s m\<close>: what the parser has built means \<open>m\<close>: definitions, and the rules of each table in
  their order.
\<close>

definition rule_means :: "acl_state \<Rightarrow> nat prule \<Rightarrow> acl_rule \<Rightarrow> bool" where
  "rule_means s p ar \<longleftrightarrow>
     (\<exists>q. rel_prule (store_means s) p q \<and> ar = \<lparr>ar_expression = pr_condition q, ar_action = rule_action q\<rparr>)"

definition implements :: "acl_state \<Rightarrow> rules_meaning \<Rightarrow> bool" where
  "implements s m \<longleftrightarrow> reads {..<length (s_garbage s)} s m \<and>
     (\<forall>table. rel_option (list_all2 (rule_means s)) (s_tables s table) (rm_rules m table))"

lemma rule_means_keeps: "rule_means s p ar \<Longrightarrow> keeps s s1 \<Longrightarrow> rule_means s1 p ar"
  unfolding rule_means_def by (blast intro: rules.rule_later)

lemma tables_keep:
  assumes "implements s m" and "keeps s s1"
  shows "rel_option (list_all2 (rule_means s1)) (s_tables s1 table) (rm_rules m table)"
proof -
  have "rel_option (list_all2 (rule_means s)) (s_tables s table) (rm_rules m table)" using assms(1) by (simp add: implements_def)
  then have "rel_option (list_all2 (rule_means s1)) (s_tables s table) (rm_rules m table)"
    by (rule option.rel_mono_strong) (auto elim!: list_all2_mono intro: rule_means_keeps [OF _ assms(2)])
  with assms(2) show ?thesis by (simp add: keeps_def)
qed

lemma implements_agrees: "implements s m \<Longrightarrow> agrees (rm_defs m) (rm_rules m) s m"
  by (simp add: implements_def agrees_def)

lemma reads_tables [simp]: "reads B (s\<lparr>s_tables := t\<rparr>) (m\<lparr>rm_rules := r\<rparr>) = reads B s m"
  by (simp add: reads_def)

lemma rule_means_cong [simp]: "rule_means (s\<lparr>s_tables := t\<rparr>) = rule_means s" "rule_means (s\<lparr>s_defs := d\<rparr>) = rule_means s"
  by (simp_all add: fun_eq_iff rule_means_def store_means_def)

lemma rule_statement_meaning:
  assumes "implements s m" and "pred_prule (commas_ok (rm_defs m)) r"
  shows "rel_option implements (acl_statement (ST_RULE table r) s) (statement_meaning (ST_RULE table r) m)"
  unfolding acl_statement.simps statement_meaning.simps
proof (rule rel_option_bind [OF rules.walked_rule [OF implements_agrees [OF assms(1)] assms(2)]], clarify)
  fix p s1 q m1
  assume "rules.walked (rm_defs m) (rm_rules m) (\<lambda>s. rel_prule (store_means s)) s (p, s1) (q, m1)"
  then have a: "agrees (rm_defs m) (rm_rules m) s1 m1" and k: "keeps s s1" and p: "rel_prule (store_means s1) p q"
    by (auto simp: rules.walked_def)
  from p have new: "rule_means s1 p \<lparr>ar_expression = pr_condition q, ar_action = rule_action q\<rparr>" by (auto simp: rule_means_def)
  have old: "rel_option (list_all2 (rule_means s1)) (s_tables s1 t) (rm_rules m1 t)" for t
    using tables_keep [OF assms(1) k, of t] a by (simp add: agrees_def)
  have "list_all2 (rule_means s1) ((case s_tables s1 table of None \<Rightarrow> [] | Some rs \<Rightarrow> rs) @ [p])
    ((case rm_rules m1 table of None \<Rightarrow> [] | Some rs \<Rightarrow> rs) @ [\<lparr>ar_expression = pr_condition q, ar_action = rule_action q\<rparr>])"
    using old [of table] new by (auto intro!: list_all2_appendI split: option.splits)
  with old a show "rel_option implements (Some (acl_append_at table p s1))
    (Some (m1\<lparr>rm_rules := acl_append (rm_rules m1) table (pr_condition q) (rule_action q)\<rparr>))"
    by (simp add: implements_def acl_append_at_def acl_append_def agrees_def)
qed

lemma define_statement_meaning:
  assumes "implements s m" and "commas_ok (rm_defs m) e"
  shows "rel_option implements (acl_statement (ST_DEFINE name e) s) (statement_meaning (ST_DEFINE name e) m)"
  unfolding acl_statement.simps statement_meaning.simps
proof (rule rel_option_bind [OF rules.walked_step [OF implements_agrees [OF assms(1)] assms(2)]], clarify)
  fix n s1 t m1
  assume "rules.walked (rm_defs m) (rm_rules m) store_means s (n, s1) (t, m1)"
  then have a: "agrees (rm_defs m) (rm_rules m) s1 m1" and k: "keeps s s1" and n: "store_means s1 n t"
    by (auto simp: rules.walked_def)
  have r: "reads {..<length (s_garbage s1)} s1 m1" using a by (simp add: agrees_def)
  have tables: "rel_option (list_all2 (rule_means s1)) (s_tables s1 table) (rm_rules m1 table)" for table
    using tables_keep [OF assms(1) k, of table] a by (simp add: agrees_def)
  have "(s_defs s1 name = None) = (rm_defs m1 name = None)"
    using r by (metis reads_def option.rel_distinct(1,2) not_None_eq)
  then show "rel_option implements (exp_define name n s1)
    (if rm_defs m1 name \<noteq> None then None else Some (m1\<lparr>rm_defs := (rm_defs m1)(name \<mapsto> t)\<rparr>))"
    using r n tables by (simp add: exp_define_def implements_def reads_def store_means_def)
qed

lemma statements_meaning_correct:
  "implements s m \<Longrightarrow> statements_ok xs m \<Longrightarrow> rel_option implements (acl_statements xs s) (statements_meaning xs m)"
proof (induction xs arbitrary: s m)
  case Nil
  then show ?case by simp
next
  case (Cons x xs)
  have one: "rel_option implements (acl_statement x s) (statement_meaning x m)"
    using Cons.prems by (cases x) (auto intro: rule_statement_meaning define_statement_meaning simp del: acl_statement.simps statement_meaning.simps)
  show ?case
  proof (cases "acl_statement x s")
    case None
    with one show ?thesis by (cases "statement_meaning x m") simp_all
  next
    case (Some s1)
    with one obtain m1 where m1: "statement_meaning x m = Some m1" "implements s1 m1" by (auto simp: option_rel_Some1)
    with Cons.prems(2) Cons.IH [OF m1(2)] Some show ?thesis by simp
  qed
qed

definition start_meaning :: "acl_state \<Rightarrow> rules_meaning" where
  "start_meaning s = \<lparr>rm_consts = s_consts s, rm_defs = Map.empty, rm_symbols = s_symbols s, rm_rules = Map.empty\<rparr>"

lemma acl_init_starts:
  "\<exists>s. acl_init = Some s \<and> s_garbage s = [] \<and> s_defs s = Map.empty \<and> s_tables s = Map.empty \<and>
     (\<forall>(name, level) \<in> set acl_log_levels. \<exists>i. s_symbols s name = Some \<lparr>as_stages = MS_ANY OR MS_INIT, as_data = AS_CONSTANT i\<rparr> \<and>
        i < length (s_consts s) \<and> v_data (s_consts s ! i) = Some (DInt level))"
proof -
  have "var_create VT_INT (Some name) (Some (DInt level)) VF_KEEP = Some (Var VT_INT (Some name) (Some (DInt level)) VF_KEEP)" for name level
    by (simp add: var_create_def var_init_def var_data_init_def sanitize_def has_flag_def vf_defs)
  then show ?thesis
    by (simp add: acl_init_def acl_log_levels_def acl_match_symbols_def acl_constant_register_def acl_symbol_insert_def
        acl_symbol_register_def)
qed

text \<open>
  C2: reading a file of rules from a fresh state. The parser ends the program exactly when a statement
  has no meaning (an unknown symbol or function, a second definition of a name, an assignment to
  something that is no variable, a bad modification of the message); otherwise the nodes it built
  denote the rules that the text says, definitions expanded, in every table and in their order.
  This needs that no comma has a defined list on its left.
\<close>

theorem acl_read_correct:
  assumes "s_garbage s = []" and "s_defs s = Map.empty" and "s_tables s = Map.empty"
    and "file_size path = Some (Suc n)" and "parse path = Some xs" and "statements_ok xs (start_meaning s)"
  shows "rel_option implements (acl_read path None file_size parse s) (statements_meaning xs (start_meaning s))"
proof -
  have "implements s (start_meaning s)" using assms(1-3) by (simp add: implements_def reads_def start_meaning_def)
  from statements_meaning_correct [OF this assms(6)] show ?thesis
    using assms(4,5)
    by (cases "acl_statements xs s") (auto simp: acl_read_def parser_run_def parser_stack_def parser_init_def Let_def)
qed

text \<open>Rules with a definition that two of them use.\<close>

definition relay_rules :: "acl_stmt list" where
  "relay_rules =
     [ST_DEFINE ''relays'' (S_COMMA (S_STRING ''mx1'') (S_STRING ''mx2'')),
      ST_RULE ''connect'' (Rule (Some (S_BINARY OIn (S_SYMBOL ''hostname'') (S_SYMBOL ''relays''))) (T_ACTION ACL_ACCEPT) None ''acl'' 2),
      ST_RULE ''connect'' (Rule (Some (S_BINARY OIn (S_SYMBOL ''hostname'') (S_PARENTHESES (S_COMMA (S_STRING ''mx3'') (S_SYMBOL ''relays'')))))
        (T_TARPIT (S_NUMBER 1 (Some CHR ''m''))) (Some (S_NUMBER 451 None, None, S_STRING ''wait'')) ''acl'' 3)]"

definition relay_state :: acl_state where
  "relay_state =
     \<lparr>s_garbage = [], s_consts = [], s_defs = Map.empty,
      s_symbols = [''hostname'' \<mapsto> \<lparr>as_stages = MS_ANY, as_data = AS_SYMBOL None False\<rparr>], s_tables = Map.empty\<rparr>"

lemma var_create_text: "var_create VT_STRING None (Some (DString x)) 0 = Some (Var VT_STRING None (Some (DString x)) 0)"
  by (simp add: var_create_def var_init_def var_data_init_def sanitize_def has_flag_def vf_defs)

lemma var_create_number: "var_create VT_INT None (Some (DInt i)) VF_COPY = Some (Var VT_INT None (Some (DInt i)) VF_COPY)"
  by (simp add: var_create_def var_init_def var_data_init_def sanitize_def has_flag_def vf_defs)

lemmas reading_simps = walk_rule_def walk_one_def symbol_meaning_def operation_meaning_def exp_list_def var_create_text var_create_number
  start_meaning_def unit_factor_def

theorem acl_read_correct_witness:
  "\<exists>s m. acl_read ''acl'' None (\<lambda>_. Some 100) (\<lambda>_. Some relay_rules) relay_state = Some s \<and> implements s m \<and>
     map_option (map ar_expression) (rm_rules m ''connect'') = Some
       [Some (EX_OPERATION OIn (EX_SYMBOL ''hostname'') (Some (EX_LIST [EX_CONSTANT 0, EX_CONSTANT 1]))),
        Some (EX_OPERATION OIn (EX_SYMBOL ''hostname'')
          (Some (EX_PARENTHESES (EX_LIST [EX_CONSTANT 2, EX_LIST [EX_CONSTANT 0, EX_CONSTANT 1]]))))]"
proof -
  have ok: "statements_ok relay_rules (start_meaning relay_state)"
    by (simp add: relay_rules_def relay_state_def reading_simps)
  have "rel_option implements (acl_read ''acl'' None (\<lambda>_. Some 100) (\<lambda>_. Some relay_rules) relay_state)
    (statements_meaning relay_rules (start_meaning relay_state))"
    by (rule acl_read_correct [OF _ _ _ _ refl ok, where n = 99]) (simp_all add: relay_state_def)
  moreover obtain m where "statements_meaning relay_rules (start_meaning relay_state) = Some m"
    "map_option (map ar_expression) (rm_rules m ''connect'') = Some
       [Some (EX_OPERATION OIn (EX_SYMBOL ''hostname'') (Some (EX_LIST [EX_CONSTANT 0, EX_CONSTANT 1]))),
        Some (EX_OPERATION OIn (EX_SYMBOL ''hostname'')
          (Some (EX_PARENTHESES (EX_LIST [EX_CONSTANT 2, EX_LIST [EX_CONSTANT 0, EX_CONSTANT 1]]))))]"
    by (simp add: relay_rules_def relay_state_def reading_simps acl_append_def)
  ultimately show ?thesis by (metis option_rel_Some2)
qed

text \<open>
  C39: a comma after the name of a defined list changes the definition itself, for all rules
  that use it, before and after. With the name on both sides, the list contains itself and is no
  expression any more: its evaluation does not end.
\<close>

theorem comma_changes_definition:
  assumes "implements s m" and "rm_defs m x = Some (EX_LIST ts)"
  shows "(\<exists>n s'. s_defs s x = Some n \<and> build (S_COMMA (S_SYMBOL x) (S_STRING y)) s = Some (n, s') \<and> s_defs s' x = Some n \<and>
      store_means s n (EX_LIST ts) \<and> store_means s' n (EX_LIST (ts @ [EX_CONSTANT (length (s_consts s))]))) \<and>
    (\<exists>n s'. build (S_COMMA (S_SYMBOL x) (S_SYMBOL x)) s = Some (n, s') \<and> s_defs s' x = Some n \<and>
      (\<nexists>R t. denotes (s_garbage s') R n t))"
proof -
  from assms obtain n where n: "s_defs s x = Some n" "store_means s n (EX_LIST ts)"
    by (metis implements_def reads_def store_means_def option_rel_Some2)
  then obtain ps where ps: "s_garbage s ! n = N_LIST ps" "n < length (s_garbage s)"
    by (auto simp: store_means_def elim: denotes_node)
  let ?k = "length (s_garbage s)" and ?c = "length (s_consts s)"
  let ?H = "s_garbage s @ [N_CONSTANT ?c]"
  have d: "denotes ?H {..<?k} n (EX_LIST ts)"
    by (rule denotes_agree [OF n(2) [unfolded store_means_def]]) (auto simp: nth_append)
  have c: "denotes ?H {?k} ?k (EX_CONSTANT ?c)" by (rule denotes.d_constant) simp_all
  have "denotes (?H[n := N_LIST (ps @ [?k])]) {..<Suc ?k} n (EX_LIST (ts @ [EX_CONSTANT ?c]))"
    by (rule denotes_extend [OF d _ c]) (use ps in \<open>auto simp: nth_append\<close>)
  moreover have "\<not> denotes ((s_garbage s)[n := N_LIST (ps @ [n])]) R n t" for R t
  proof
    assume t: "denotes ((s_garbage s)[n := N_LIST (ps @ [n])]) R n t"
    with ps obtain us where us: "t = EX_LIST us" "list_all2 (denotes ((s_garbage s)[n := N_LIST (ps @ [n])]) R) (ps @ [n]) us"
      by (auto elim: denotes_node)
    then obtain us' u where u: "us = us' @ [u]" "denotes ((s_garbage s)[n := N_LIST (ps @ [n])]) R n u"
      by (auto simp: list_all2_append1 list_all2_Cons1)
    have "size u < size (EX_LIST us)" using u(1) size_list_estimation' [of u us "size u" size] by simp
    with us(1) denotes_unique [OF t u(2)] show False by simp
  qed
  ultimately show ?thesis
    using n ps
    by (simp add: exp_symbol_def exp_constant_def var_create_text exp_create_def exp_list_at_def nth_append store_means_def)
qed

theorem comma_changes_definition_witness:
  "\<exists>s m n s'. acl_statements (take 1 relay_rules) relay_state = Some s \<and> implements s m \<and>
     rm_defs m ''relays'' = Some (EX_LIST [EX_CONSTANT 0, EX_CONSTANT 1]) \<and>
     build (S_COMMA (S_SYMBOL ''relays'') (S_STRING ''mx3'')) s = Some (n, s') \<and> s_defs s' ''relays'' = Some n \<and>
     store_means s' n (EX_LIST [EX_CONSTANT 0, EX_CONSTANT 1, EX_CONSTANT 2])"
proof -
  have m0: "implements relay_state (start_meaning relay_state)" by (simp add: implements_def reads_def start_meaning_def relay_state_def)
  obtain m where m: "statements_meaning (take 1 relay_rules) (start_meaning relay_state) = Some m"
    "rm_defs m ''relays'' = Some (EX_LIST [EX_CONSTANT 0, EX_CONSTANT 1])"
    by (simp add: relay_rules_def relay_state_def reading_simps)
  have "statements_ok (take 1 relay_rules) (start_meaning relay_state)" by (simp add: relay_rules_def relay_state_def reading_simps)
  from statements_meaning_correct [OF m0 this] m obtain s where s: "acl_statements (take 1 relay_rules) relay_state = Some s" "implements s m"
    by (auto simp: option_rel_Some2)
  from s(1) have "length (s_consts s) = 2"
    by (auto simp: relay_rules_def relay_state_def reading_simps exp_constant_def exp_create_def exp_list_at_def exp_define_def)
  with comma_changes_definition [OF s(2) m(2), of "''mx3''"] s m(2) show ?thesis by auto
qed

end
