(* ===== verification/Greylist_Dump.thy ===== *)
theory Greylist_Dump
  imports Greylist_Spec Janitor
begin

section \<open>The list of greylisted triples (greylist.c)\<close>

text \<open>
  \<open>greylist_dump\<close> writes a line for every record of the greylist, for the control connection. The
  text and its size are static variables of \<open>greylist.c\<close>; here they are the part of the state of a walk
  through a table that the dumps of \<open>dbt.c\<close> use as well. The lemmas show what the text is on the
  database in memory.
\<close>

definition DUMP_RECORD_BUFLEN :: nat where
  "DUMP_RECORD_BUFLEN = 1024"

text \<open>\<open>%s\<close> of a string or \<open>NULL\<close>.\<close>

definition dumped_string :: "vdata option \<Rightarrow> string option" where
  "dumped_string d = (if d = None then Some ''(null)'' else as_string d)"

text \<open>The line of a record; times are \<open>int\<close>. A number that is \<open>NULL\<close> is read through.\<close>

definition dump_line :: "int \<Rightarrow> vdata option list \<Rightarrow> string option" where
  "dump_line time ds =
     (case ds of
        [orig, envfrom, envrcpt, created, updated, expire, connections, deadline, delay, attempts, visa, passed] \<Rightarrow>
          do {
            o' \<leftarrow> dumped_string orig;
            f \<leftarrow> dumped_string envfrom;
            r \<leftarrow> dumped_string envrcpt;
            e \<leftarrow> as_int expire;
            p \<leftarrow> as_int passed;
            let now = wrap32 time; expire_time = wrap32 (e - now); who = o' @ '': '' @ f @ '' > '' @ r @ '': '' in
            if p > 0 then Some (who @ ''status=visa, messages='' @ show_int p @ '', expires='' @ show_int expire_time @ [CHR 0x0A])
            else
              do {
                c \<leftarrow> as_int created;
                d \<leftarrow> as_int delay;
                n \<leftarrow> as_int connections;
                a \<leftarrow> as_int attempts;
                Some (who @ ''status=defer, delay='' @ show_int (wrap32 (now - c)) @ ''/'' @ show_int d @ '', attempts='' @ show_int n @
                  ''/'' @ show_int a @ '', expires='' @ show_int expire_time @ [CHR 0x0A]) } }
      | _ \<Rightarrow> None)"

text \<open>\<open>now\<close> is the time when a record is reached.\<close>

definition greylist_dump_record :: "(var \<Rightarrow> int) \<Rightarrow> 'h walk_callback" where
  "greylist_dump_record now record0 h s =
     (if dbt_dump_buffer_size s = -1 then Some (-1, h, s)
      else
        do {
          ds \<leftarrow> vlist_dereference record0;
          dump \<leftarrow> dump_line (now record0) ds;
          let len = int (length dump); size1 = wrap32 (dbt_dump_buffer_size s + len) in
          if length dump \<ge> DUMP_RECORD_BUFLEN then Some (-1, h, s\<lparr>dbt_dump_buffer_size := -1\<rparr>)
          else
            do {
              old \<leftarrow> if size1 = len then Some [] else dbt_dump_buffer s;
              Some (0, h, s\<lparr>dbt_dump_buffer := Some (old @ dump), dbt_dump_buffer_size := size1\<rparr>) } })"

definition greylist_dump ::
  "(var \<Rightarrow> int) \<Rightarrow> bool \<Rightarrow> 'h table_driver \<Rightarrow> 'h \<Rightarrow> string option \<Rightarrow> (int \<times> string option \<times> 'h) option" where
  "greylist_dump now fatal dd h dump =
     (if dump \<noteq> None then Some (-1, dump, h)
      else
        do {
          (_, h1, s) \<leftarrow> dbt_db_walk fatal dd (greylist_dump_record now) h
            \<lparr>dbt_cleanup_deleted = 0, dbt_dump_buffer = None, dbt_dump_buffer_size = 0\<rparr>;
          Some (if dbt_dump_buffer_size s = -1 then (-1, None, h1) else (dbt_dump_buffer_size s, dbt_dump_buffer s, h1)) })"

subsection \<open>What the text is\<close>

definition tuple_line :: "int \<Rightarrow> triple \<times> tuple \<Rightarrow> string" where
  "tuple_line time = (\<lambda>((orig, sender, rcpt), t).
     orig @ '': '' @ sender @ '' > '' @ rcpt @ '': '' @
     (if t_passed t > 0 then ''status=visa, messages='' @ show_int (t_passed t)
      else ''status=defer, delay='' @ show_int (wrap32 (wrap32 time - t_created t)) @ ''/'' @ show_int (t_delay t) @
        '', attempts='' @ show_int (t_connections t) @ ''/'' @ show_int (t_attempts t)) @
     '', expires='' @ show_int (wrap32 (t_expire t - wrap32 time)) @ [CHR 0x0A])"

lemma row_line: "do { ds \<leftarrow> vlist_dereference (record_of n f (row kf ff k (tuple_data t))); dump_line time ds } = Some (tuple_line time (k, t))"
  by (cases k) (simp add: vlist_dereference_def vlist_items_def record_of_def greylist_fields_def tuple_data_def tuple_ints_def
      dump_line_def dumped_string_def as_int_def as_string_def tuple_line_def Let_def)

lemma tuple_line_nonempty: "tuple_line time kt \<noteq> []"
  by (cases kt) (auto simp: tuple_line_def)

text \<open>One line after the other, as long as none is too long and the size fits \<open>int\<close>.\<close>

lemma dump_records:
  assumes "\<forall>(k, t) \<in> set kts. length (tuple_line (now (record_of sname sf (gl_row k t))) (k, t)) < DUMP_RECORD_BUFLEN"
    and "new = concat (map (\<lambda>(k, t). tuple_line (now (record_of sname sf (gl_row k t))) (k, t)) kts)"
    and "length old + length new < 2 ^ 31"
    and "dbt_dump_buffer s = (if old = [] then None else Some old)" and "dbt_dump_buffer_size s = int (length old)"
  shows "walk_records (greylist_dump_record now) (map (\<lambda>(k, t). record_of sname sf (gl_row k t)) kts) h s =
    Some (0, h, s\<lparr>dbt_dump_buffer := (if old @ new = [] then None else Some (old @ new)),
      dbt_dump_buffer_size := int (length (old @ new))\<rparr>)"
  using assms
proof (induction kts arbitrary: old new s)
  case Nil
  then show ?case by simp
next
  case (Cons kt kts)
  obtain k t where kt: "kt = (k, t)" by (cases kt)
  let ?r = "record_of sname sf (gl_row k t)"
  let ?line = "tuple_line (now ?r) (k, t)"
  let ?rest = "concat (map (\<lambda>(k, t). tuple_line (now (record_of sname sf (gl_row k t))) (k, t)) kts)"
  have line: "do { ds \<leftarrow> vlist_dereference ?r; dump_line (now ?r) ds } = Some ?line" unfolding gl_row_def by (rule row_line)
  then obtain ds where ds: "vlist_dereference ?r = Some ds" "dump_line (now ?r) ds = Some ?line"
    by (cases "vlist_dereference ?r") simp_all
  have new: "new = ?line @ ?rest" using Cons.prems(2) kt by simp
  have w: "wrap32 (int (length old) + int (length ?line)) = int (length old) + int (length ?line)"
    using Cons.prems(3) new by (intro wrap32_id) (simp add: i32_def)
  have "greylist_dump_record now ?r h s = Some (0, h, s\<lparr>dbt_dump_buffer := Some (old @ ?line),
    dbt_dump_buffer_size := int (length (old @ ?line))\<rparr>)"
    using Cons.prems(1,4,5) kt w by (auto simp: greylist_dump_record_def ds Let_def)
  then show ?case
    using Cons.IH [of ?rest "old @ ?line" "s\<lparr>dbt_dump_buffer := Some (old @ ?line), dbt_dump_buffer_size := int (length (old @ ?line))\<rparr>"]
      Cons.prems(1,3) kt new tuple_line_nonempty by simp
qed

lemma dump_walk_safe: "walk_safe L sname ss (greylist_dump_record now)"
  by (auto simp: walk_safe_def greylist_dump_record_def Let_def split: if_splits Option.bind_splits)

text \<open>
  The dump of the greylist in memory: a line for each triple, in the order of the buckets, provided
  the table starts with a bucket in use, as it does until records are deleted.
\<close>

lemma greylist_dump_lists:
  assumes "dd_walk dd = Some (memdb_walk L greylist_scheme)"
    and "memdb_ok L greylist_ss h" and "memdb_low h" and "ht_table h ! ht_head h \<noteq> []"
    and "concat (ht_table h) = map (\<lambda>(k, t). packed L (gl_row k t)) kts" and "\<forall>(k, t) \<in> set kts. conforms L greylist_ss (gl_row k t)"
    and "\<forall>(k, t) \<in> set kts. length (tuple_line time (k, t)) < DUMP_RECORD_BUFLEN"
    and "length (concat (map (tuple_line time) kts)) < 2 ^ 31"
  shows "greylist_dump (\<lambda>_. time) fatal dd h None =
    Some (int (length (concat (map (tuple_line time) kts))), Some (concat (map (tuple_line time) kts)), h)"
proof -
  let ?s = "\<lparr>dbt_cleanup_deleted = 0, dbt_dump_buffer = None, dbt_dump_buffer_size = 0\<rparr>"
  let ?text = "concat (map (tuple_line time) kts)"
  have "kts \<noteq> []"
  proof
    assume "kts = []"
    with assms(5) have none: "\<forall>c \<in> set (ht_table h). c = []" by simp
    from memdb_okE [OF assms(2)] obtain u where "h = matched memdb_record_match u" "ht_ok vp_key u" by metis
    with ht_ok_length [of vp_key u] assms(3) have "ht_head h < length (ht_table h)" by (simp add: memdb_low_def)
    with none assms(4) show False by (meson nth_mem)
  qed
  then have ne: "?text \<noteq> []" using tuple_line_nonempty by (cases kts) auto
  have unp: "map unpacked (gl_row k t) = gl_row k t" for k t
    unfolding gl_row_def by (rule row_unpacked) (simp_all add: tuple_data_def tuple_ints_def)
  have rows: "map (fetched (Some ''greylist'')) (map (\<lambda>(k, t). gl_row k t) kts) =
      map (\<lambda>(k, t). record_of (Some ''greylist'') (VF_COPYNAME OR VF_CREATE) (gl_row k t)) kts"
    by (simp add: unp split_def o_def)
  have "memdb_walk L greylist_scheme (greylist_dump_record (\<lambda>_. time)) h ?s =
      walk_records (greylist_dump_record (\<lambda>_. time)) (map (fetched (Some ''greylist'')) (map (\<lambda>(k, t). gl_row k t) kts)) h ?s"
    using memdb_walk_all [OF dump_walk_safe assms(2,3), of "map (\<lambda>(k, t). gl_row k t) kts" "Some ''greylist''" 17] assms(4-6)
    by (simp add: greylist_scheme_eq o_def split_def)
  also have "\<dots> = Some (0, h, ?s\<lparr>dbt_dump_buffer := Some ?text, dbt_dump_buffer_size := int (length ?text)\<rparr>)"
    unfolding rows using dump_records [of kts "\<lambda>_. time" _ _ ?text "[]" ?s h] assms(7,8) ne by (simp add: split_def)
  finally show ?thesis by (simp add: greylist_dump_def dbt_db_walk_def assms(1) fatal_errors_def)
qed

end
