(* ===== verification/Spec2Isabelle.thy ===== *)
theory Spec2Isabelle
  imports String_Table Linked_List Base64 Blob Util Regdom Var Vtable Vp Symbols Exp Mailspec World Greylist Actions Acl
    Record_Store Memdb Greylist_Spec Watchdog Milter Milter_Spec Dbt Janitor
    Client Server Sql Sql_Spec Counter Counter_Spec Functions Hitlist
    Dnsbl Config Sock Filters Lookups Dblog Rulebase Greylist_Dump
begin

text \<open>
  \<^bold>\<open>Mopher, a mail filter: a verification library\<close>

  Mopher (\<open>mopherd\<close>) is a filter that a mail server calls through libmilter at every stage of a
  connection. It collects attributes of the message, evaluates the administrator's rules for the
  stage, and answers whether the message goes on, is rejected, deferred or discarded. Rules can
  greylist, delay, modify and forward messages; greylists and the like live in databases behind
  a small driver interface.

  \<^bold>\<open>Parts, theories and sources\<close> (all sources under \<open>src/src\<close>)

  \<^item> \<open>Mopher_Prelude\<close>: machine integers with their wrap-around (\<open>wrap32\<close>, \<open>wrap64\<close>), allocation
    failures (\<open>malloc\<close> takes the next answer of a list; an empty list means that memory never runs
    out), generic lemmas and the collections of simplification rules.
  \<^item> \<open>Hash\<close> (\<open>hash.c\<close>), \<open>Linked_List\<close> (\<open>ll.c\<close>, over an explicit store of entries), \<open>Hash_Table\<close> (\<open>ht.c\<close>)
    and \<open>String_Table\<close> (\<open>sht.c\<close>): the containers. The locale \<open>keyed_table\<close> is what clients of a hash
    table rely on.
  \<^item> \<open>Base64\<close>, \<open>Blob\<close>, \<open>Util\<close>, \<open>Regdom\<close> (\<open>base64.c\<close>, \<open>blob.c\<close>, \<open>util.c\<close>, \<open>regdom.c\<close>): encodings, byte objects,
    strings and network addresses, and the registered domain of a host name.
  \<^item> \<open>Var\<close>, \<open>Vtable\<close>, \<open>Vp\<close> (\<open>var.c\<close>, \<open>vlist.c\<close>, \<open>vtable.c\<close>, \<open>vp.c\<close>): typed values, lists, records and tables of
    them, and the packed form of records in databases. \<open>Mailspec\<close> has the operations of a table of
    attributes as functions on finite maps, with lemmas that the hash table computes them.
  \<^item> \<open>Symbols\<close>, \<open>Exp\<close> (\<open>acl.c\<close>, \<open>exp.c\<close>): the symbols and variables of rules and the evaluator of
    expressions; values are reached through references, since the evaluator changes some in place.
  \<^item> \<open>World\<close>: the state behind the actions (attributes and literals, the database, the calls made to
    the outside) and the environment that answers such calls; access to databases (\<open>dbt.c\<close>).
  \<^item> \<open>Greylist\<close> (\<open>greylist.c\<close>), \<open>Actions\<close> (\<open>tarpit.c\<close>, \<open>msgmod.c\<close>, \<open>pipe.c\<close>), \<open>Acl\<close> (\<open>acl.c\<close>): the actions of
    rules and the interpreter of tables of rules.
  \<^item> \<open>Record_Store\<close>, \<open>Memdb\<close> (\<open>modules/memdb.c\<close>), \<open>Greylist_Spec\<close>: the contract of a database driver as the
    locale \<open>record_store\<close>, the driver that keeps records in memory as an interpretation of it, and
    greylisting as a client (locale \<open>greylist_store\<close>); \<open>Greylist_Dump\<close>: the list of its
    triples for the control connection.
  \<^item> \<open>Watchdog\<close> (\<open>watchdog.c\<close>), \<open>Milter\<close> and \<open>Milter_Spec\<close> (\<open>milter.c\<close>): the callbacks of libmilter, which
    put all of this together.

  \<^item> \<open>Dbt\<close> and \<open>Janitor\<close> (\<open>dbt.c\<close>): the tables with their drivers, and the thread that deletes expired
    records from all of them.
  \<^item> \<open>Sql\<close> and \<open>Sql_Spec\<close> (\<open>sql.c\<close>, the escape functions of \<open>modules/lite.c\<close>): records as SQL statements
    and rows, and the transactions around them.
  \<^item> \<open>Client\<close> (\<open>client.c\<close>): the thread that sends stored records to other servers. \<open>Server\<close> (\<open>server.c\<close>,
    \<open>mopherctl.c\<close>): the control connection.
  \<^item> \<open>Counter\<close> and \<open>Counter_Spec\<close> (\<open>modules/counter.c\<close>), \<open>Hitlist\<close> (\<open>modules/hitlist.c\<close>): symbols of rules with
    counts that live in database tables, as clients of \<open>record_store\<close> (locales \<open>counter_store\<close> and
    \<open>hit_store\<close>). \<open>Functions\<close> (\<open>modules/string.c\<close>, \<open>modules/base.c\<close>, \<open>modules/random.c\<close>): functions of rules.
  \<^item> \<open>Config\<close> (\<open>cf.c\<close>, \<open>parser.c\<close>): the configuration as a table of tables, filled by the built-in defaults and the
    file, and the stack of included files. \<open>Sock\<close> (\<open>sock.c\<close>): sockets as sequences of calls to the system, and
    the round robin over servers. \<open>Dnsbl\<close> (\<open>modules/dnsbl.c\<close>): lists of addresses in the DNS.
  \<^item> \<open>Rulebase\<close> (\<open>exp.c\<close>, \<open>acl.c\<close>, the actions of \<open>acl_yacc.y\<close>): how a file of rules becomes tables, over the store of
    nodes that definitions share. \<open>denotes\<close> relates a pointer to the tree that \<open>Exp\<close> evaluates; the locale
    \<open>expression_walk\<close> carries a relation between two treatments of expressions to whole rules.
  \<^item> \<open>Filters\<close> (\<open>modules/spamd.c\<close>, \<open>modules/clamav.c\<close>) and \<open>Lookups\<close> (\<open>modules/p0f.c\<close>, \<open>modules/geoip.c\<close>,
    \<open>modules/spf.c\<close>): dialogues with other programs over the sockets of \<open>Sock\<close>, and the attributes that their
    answers become. \<open>Dblog\<close> (\<open>modules/dblog.c\<close>): the log of connections, on the driver in memory.

  \<^bold>\<open>How the model reads\<close>

  A C struct is a record and a function of the source is a definition of the same name where HOL
  allows it (\<open>greylist\<close> is \<open>greylist_action\<close>); helpers that stand for a loop or a block of a function
  come before it. A result \<open>None\<close> of a function with an option type means that the
  program does not go on: it stopped with \<open>log_die\<close>, does not end, or did something that C gives no
  meaning (a read or write outside an object, freed memory, a wrong union member). Error codes of
  the source are values. Library functions and devices (floating point, libidn, libmilter,
  regular expressions, clocks, sockets) are arguments of the definitions, in \<open>libc\<close>, \<open>xenv\<close>, \<open>env\<close> and
  \<open>milter_env\<close>.

  Memory can run out in the containers (the list of answers of \<open>malloc\<close>), in \<open>vp_pack_mem\<close> (the answer of \<open>realloc\<close>
  for every size) and in the callbacks (\<open>m_grant\<close> for the attributes they set, \<open>m_realloc\<close> for the headers and the
  body, with \<open>m_memory\<close> the contents of fresh memory). Elsewhere, and in the private data of a connection,
  allocations succeed.

  \<^bold>\<open>What the lemmas show\<close>

  \<^item> Containers refine maps, through all resizes and allocation failures; iteration visits all
    records of a table from which nothing was removed, and not in general afterwards.
  \<^item> Round trips: base64, blobs, numbers as text, packed records. The registered domain is the one
    the public suffix rules define.
  \<^item> Expressions: three-valued logic, comparison, integer arithmetic at 64 bits, literals that stay
    as they are; the address prefix operator that changes its operand.
  \<^item> Rules: the interpreter agrees with a big-step semantics of tables that jump and call, and
    answers the error exactly where that semantics has one (\<open>errs\<close>: a rule that fails, or 256 nested
    tables); which answers and replies are possible.
  \<^item> Reading: the tables built from a file denote the rules of its text, definitions expanded, and the
    parser refuses exactly the statements without a meaning, unless a comma extends a defined list.
  \<^item> Databases and greylisting: the driver in memory returns what was stored; on it, every answer to a
    triple of origin, sender and recipient is given by the messages before it: it passes once both the
    delay and the attempts are met, which is stricter than the manual, and starts anew after it has expired.
  \<^item> Stages: errors, those of the callbacks included, are temporary failures and never let mail pass; the
    recorded sizes are those of the buffers in every reachable connection, also after a failed \<open>realloc\<close>, which
    may leave a size without a buffer; the message handed to other programs is complete.
  \<^item> Tables: the janitor deletes the records that had expired when it was scheduled and no others,
    and comes back to every table. No text in a record changes what an SQL statement is about, and
    every transaction of a stored record is ended.
  \<^item> Counts: the counters of relays, origins, domains and pen pals count a message once in every table whose
    key it has, and the
    symbol of a list of hits goes up by one with every message.
  \<^item> Connections: once the thread runs (\<open>client_start\<close>) every other server gets all printable records in order, or
    still has the rest of them in its queue, whatever connections fail; the slots of the control server and its set of sockets agree; what it
    dumps is what the client receives, in whatever pieces it comes, up to 10,000,000 bytes.
  \<^item> Configuration: what a path leads to is the last assignment of the file, or else of the defaults,
    or else the name of the host. Sockets: connecting leaks no descriptor, and one live server among those configured is
    found. DNS lists: the name that is asked for has the address in reverse, compressed zeroes of
    IPv6 addresses included.
  \<^item> Filters: queries to other programs leave no connection open; the verdict of SpamAssassin and the
    bytes of p0f become the attributes they mean. The log has a record of every closed connection.
  \<^item> Flaws of the program are theorems as well: records that iteration misses, attributes that
    survive a message, rules for unknown commands that can only fail, a reconnect that gives up, a
    retry that waits for itself, a function that changes the attribute it is given, a timeout that is
    added up, results of ClamAV that rules cannot compare, a comma that changes a definition.

  \<^bold>\<open>Bounds and fuel\<close>

  Hash tables are assumed to have fewer than \<open>2 ^ 30\<close> records, where the doubled number of buckets
  still fits 32 bits. The fuel of \<open>ht_insert\<close> is the nesting of resizes and is proved to suffice; that
  of iterations is the number of records. The depth of calls between \<open>client_send\<close> and \<open>client_flush\<close> is
  bounded by the length of the queue plus 3, which is proved to be enough. The recursion of \<open>acl\<close> ends at \<open>MAX_RECURSION\<close> as in the
  source. The loops of \<open>tarpit\<close> and the loop through a linked list are partial functions, with
  lemmas on when they end.

  \<^bold>\<open>Not modelled\<close>

  Threads, signals, logging, loading of modules and the command line (\<open>log.c\<close>, \<open>module.c\<close>, \<open>mopherd.c\<close>, the
  options of \<open>mopherctl.c\<close>): calls to the operating system. The lexers and generated
  parsers, which are not part of the repository: statements and assignments are given as data. Freeing of memory at the end of the program.
  Drivers that only call the libraries of other systems (Berkeley DB, SQLite, PostgreSQL, MySQL, MongoDB).
\<close>

end
